(* ===== verification/Salman_Prelude.thy ===== *)
theory Salman_Prelude
  imports Main "HOL-Library.Word"
begin

unbundle bit_operations_syntax

text \<open>
  The vocabulary the component theories share: machine words under the names the Rust code uses,
  \<open>Result\<close> as a sum with the \<open>?\<close> operator as \<open>and_then\<close>, checked slice access, and the
  byte-order conversions of the integer types, with the round trips every codec rests on.
\<close>

section \<open>Machine integers\<close>

type_synonym u8 = "8 word"
type_synonym u16 = "16 word"
type_synonym u32 = "32 word"
type_synonym u64 = "64 word"

named_theorems wf_intros \<open>operations preserve the well-formedness of the data they build\<close>
named_theorems wire \<open>what the encoders put on the wire\<close>

lemma word_eq_bits_iff: "(x :: 'a::len word) = y \<longleftrightarrow> (\<forall>n < LENGTH('a). bit x n = bit y n)"
  by (auto intro: bit_word_eqI)

lemma unat_u16_bound [simp]: "unat (w :: u16) < 65536"
  using unsigned_less [of w] by simp

lemma unat_u8_bound [simp]: "unat (w :: u8) < 256"
  using unsigned_less [of w] by simp

lemma unat_of_nat_u8 [simp]: "n < 256 \<Longrightarrow> unat (of_nat n :: u8) = n"
  by (simp add: unat_of_nat take_bit_nat_eq_self)

lemma unat_of_nat_u16 [simp]: "n < 65536 \<Longrightarrow> unat (of_nat n :: u16) = n"
  by (simp add: unat_of_nat take_bit_nat_eq_self)

lemma unat_eq_of_nat_u8: "unat (w :: u8) = n \<Longrightarrow> w = of_nat n"
  by auto

lemma unat_address_u16:
  assumes "unat s + i < 65536"
  shows "unat (s + of_nat i :: u16) = unat s + i"
proof -
  from assms have "unat (of_nat i :: u16) = i" by (intro unat_of_nat_u16) simp
  with assms show ?thesis by (simp add: unat_word_ariths)
qed

lemma of_nat_unat_u16 [simp]: "of_nat (unat (w :: u16)) = w"
  by simp

text \<open>
  Signed 64-bit quantities (nanosecond counts, subscripts) are mathematical integers, with Rust's
  checked and saturating operations written out against the bounds of \<open>i64\<close>.
\<close>

definition i64_MIN :: int where "i64_MIN = - (2 ^ 63)"
definition i64_MAX :: int where "i64_MAX = 2 ^ 63 - 1"

definition in_i64 :: "int \<Rightarrow> bool" where
  "in_i64 x \<longleftrightarrow> i64_MIN \<le> x \<and> x \<le> i64_MAX"

definition checked_i64 :: "int \<Rightarrow> int option" where
  "checked_i64 x = (if in_i64 x then Some x else None)"

definition saturate_i64 :: "int \<Rightarrow> int" where
  "saturate_i64 x = max i64_MIN (min i64_MAX x)"

lemmas i64_bounds = in_i64_def i64_MIN_def i64_MAX_def

lemma checked_i64_eq_Some [simp]: "(checked_i64 x = Some y) = (in_i64 x \<and> y = x)"
  by (auto simp: checked_i64_def)

lemma checked_i64_eq_None [simp]: "(checked_i64 x = None) = (\<not> in_i64 x)"
  by (simp add: checked_i64_def)

lemma in_i64_saturate [simp]: "in_i64 (saturate_i64 x)"
  by (simp add: saturate_i64_def i64_bounds)

lemma saturate_i64_id [simp]: "in_i64 x \<Longrightarrow> saturate_i64 x = x"
  by (simp add: saturate_i64_def i64_bounds)

lemma saturate_i64_mono: "x \<le> y \<Longrightarrow> saturate_i64 x \<le> saturate_i64 y"
  by (simp add: saturate_i64_def)

text \<open>Rust's \<open>/\<close> and \<open>%\<close> on signed integers truncate toward zero.\<close>

definition tdiv :: "int \<Rightarrow> int \<Rightarrow> int" where
  "tdiv a b = sgn a * sgn b * (\<bar>a\<bar> div \<bar>b\<bar>)"

definition trem :: "int \<Rightarrow> int \<Rightarrow> int" where
  "trem a b = a - b * tdiv a b"

lemma tdiv_nonneg [simp]: "0 \<le> a \<Longrightarrow> 0 < b \<Longrightarrow> tdiv a b = a div b"
  by (cases "a = 0") (simp_all add: tdiv_def)

lemma trem_nonneg [simp]: "0 \<le> a \<Longrightarrow> 0 < b \<Longrightarrow> trem a b = a mod b"
  by (simp add: trem_def minus_mult_div_eq_mod)

section \<open>Results\<close>

text \<open>A Rust \<open>Result<T, E>\<close> is \<open>'e + 'a\<close> with \<open>Inl\<close> the error; \<open>?\<close> is \<open>and_then\<close>.\<close>

fun and_then :: "'e + 'a \<Rightarrow> ('a \<Rightarrow> 'e + 'b) \<Rightarrow> 'e + 'b" where
  "and_then (Inl e) f = Inl e"
| "and_then (Inr x) f = f x"

lemma and_then_eq_Inr [simp]: "(and_then m f = Inr y) = (\<exists>x. m = Inr x \<and> f x = Inr y)"
  by (cases m) auto

lemma and_then_eq_Inl: "(and_then m f = Inl e) = (m = Inl e \<or> (\<exists>x. m = Inr x \<and> f x = Inl e))"
  by (cases m) auto

lemma and_then_assoc: "and_then (and_then m f) g = and_then m (\<lambda>x. and_then (f x) g)"
  by (cases m) auto

fun ok_or :: "'a option \<Rightarrow> 'e \<Rightarrow> 'e + 'a" where
  "ok_or None e = Inl e"
| "ok_or (Some x) e = Inr x"

lemma ok_or_eq_Inr [simp]: "(ok_or m e = Inr x) = (m = Some x)"
  by (cases m) auto

lemma ok_or_eq_Inl [simp]: "(ok_or m e = Inl e') = (m = None \<and> e' = e)"
  by (cases m) auto

section \<open>Checked slices\<close>

text \<open>\<open>slice.get(i)\<close>, \<open>slice.get(a..b)\<close> and \<open>slot = value\<close> through \<open>get_mut\<close>.\<close>

definition get :: "'a list \<Rightarrow> nat \<Rightarrow> 'a option" where
  "get xs i = (if i < length xs then Some (xs ! i) else None)"

definition get_range :: "'a list \<Rightarrow> nat \<Rightarrow> nat \<Rightarrow> 'a list option" where
  "get_range xs a b = (if a \<le> b \<and> b \<le> length xs then Some (take (b - a) (drop a xs)) else None)"

lemma get_eq_Some [simp]: "(get xs i = Some x) = (i < length xs \<and> xs ! i = x)"
  by (auto simp: get_def)

lemma get_eq_None [simp]: "(get xs i = None) = (length xs \<le> i)"
  by (auto simp: get_def)

lemma get_update: "get (xs[i := v]) j = (if i = j \<and> i < length xs then Some v else get xs j)"
  by (auto simp: get_def)

lemma get_range_eq_Some [simp]:
  "(get_range xs a b = Some ys) = (a \<le> b \<and> b \<le> length xs \<and> ys = take (b - a) (drop a xs))"
  by (auto simp: get_range_def)

lemma get_range_eq_None [simp]: "(get_range xs a b = None) = (\<not> (a \<le> b \<and> b \<le> length xs))"
  by (auto simp: get_range_def)

text \<open>\<open>dst.get_mut(..src.len())?.copy_from_slice(src)\<close>: the prefix is overwritten.\<close>

definition copy_prefix :: "'a list \<Rightarrow> 'a list \<Rightarrow> 'a list option" where
  "copy_prefix dst src =
     (if length src \<le> length dst then Some (src @ drop (length src) dst) else None)"

lemma copy_prefix_eq_Some [simp]:
  "(copy_prefix dst src = Some xs) =
     (length src \<le> length dst \<and> xs = src @ drop (length src) dst)"
  by (auto simp: copy_prefix_def)

lemma copy_prefix_eq_None [simp]: "(copy_prefix dst src = None) = (length dst < length src)"
  by (auto simp: copy_prefix_def)

lemma take_Suc_update: "k < length xs \<Longrightarrow> take (Suc k) (xs[k := x]) = take k xs @ [x]"
  by (simp add: take_Suc_conv_app_nth)

lemma drop_Suc_update: "drop (Suc k) (xs[k := x]) = drop (Suc k) xs"
  by simp

section \<open>Byte orders\<close>

definition to_be_bytes16 :: "u16 \<Rightarrow> u8 list" where
  "to_be_bytes16 w = [ucast (drop_bit 8 w), ucast w]"

definition from_be_bytes16 :: "u8 \<Rightarrow> u8 \<Rightarrow> u16" where
  "from_be_bytes16 h l = push_bit 8 (ucast h) OR ucast l"

lemma length_to_be_bytes16 [simp]: "length (to_be_bytes16 w) = 2"
  by (simp add: to_be_bytes16_def)

lemma from_be_to_be [simp]: "from_be_bytes16 (ucast (drop_bit 8 w)) (ucast w) = w"
  by (rule bit_word_eqI) (auto simp: from_be_bytes16_def bit_simps)

lemma to_be_from_be: "to_be_bytes16 (from_be_bytes16 h l) = [h, l]"
proof -
  have "ucast (drop_bit 8 (from_be_bytes16 h l)) = h"
    by (rule bit_word_eqI) (auto simp: from_be_bytes16_def bit_simps dest: bit_imp_le_length)
  moreover have "ucast (from_be_bytes16 h l) = l"
    by (rule bit_word_eqI) (auto simp: from_be_bytes16_def bit_simps dest: bit_imp_le_length)
  ultimately show ?thesis by (simp add: to_be_bytes16_def)
qed

end
