(* ===== verification/Modbus_Function.thy ===== *)
theory Modbus_Function
  imports Salman_Prelude
begin

unbundle bit_operations_syntax

text \<open>
  Function and exception codes (\<open>crates/salman-modbus/src/function.rs\<close>) and the protocol's size
  limits (\<open>limits.rs\<close>).  Both code types are newtypes over \<open>u8\<close>.
\<close>

section \<open>Limits\<close>

definition MAX_PDU :: nat where "MAX_PDU = 253"
definition MAX_PDU_DATA :: nat where "MAX_PDU_DATA = MAX_PDU - 1"
definition MAX_RTU_ADU :: nat where "MAX_RTU_ADU = 1 + MAX_PDU + 2"
definition MBAP_HEADER :: nat where "MBAP_HEADER = 7"
definition MAX_TCP_ADU :: nat where "MAX_TCP_ADU = MBAP_HEADER + MAX_PDU"
definition MAX_READ_BITS :: u16 where "MAX_READ_BITS = 2000"
definition MAX_READ_REGISTERS :: u16 where "MAX_READ_REGISTERS = 125"
definition MAX_WRITE_BITS :: u16 where "MAX_WRITE_BITS = 1968"
definition MAX_WRITE_REGISTERS :: u16 where "MAX_WRITE_REGISTERS = 123"
definition COIL_ON :: u16 where "COIL_ON = 0xFF00"
definition COIL_OFF :: u16 where "COIL_OFF = 0x0000"

definition packed_bytes :: "u16 \<Rightarrow> nat" where
  "packed_bytes count = (unat count + 7) div 8"

lemmas limit_defs = MAX_PDU_def MAX_PDU_DATA_def MAX_RTU_ADU_def MBAP_HEADER_def MAX_TCP_ADU_def
  MAX_READ_BITS_def MAX_READ_REGISTERS_def MAX_WRITE_BITS_def MAX_WRITE_REGISTERS_def

lemma unat_limits [simp]:
  "unat MAX_READ_BITS = 2000" "unat MAX_READ_REGISTERS = 125"
  "unat MAX_WRITE_BITS = 1968" "unat MAX_WRITE_REGISTERS = 123"
  by (simp_all add: limit_defs)

lemma packed_bytes_le: "count \<le> MAX_READ_BITS \<Longrightarrow> packed_bytes count \<le> 250"
  by (simp add: packed_bytes_def MAX_READ_BITS_def word_le_nat_alt)

section \<open>Function codes\<close>

type_synonym FunctionCode = u8

definition READ_COILS :: FunctionCode where "READ_COILS = 0x01"
definition READ_DISCRETE_INPUTS :: FunctionCode where "READ_DISCRETE_INPUTS = 0x02"
definition READ_HOLDING_REGISTERS :: FunctionCode where "READ_HOLDING_REGISTERS = 0x03"
definition READ_INPUT_REGISTERS :: FunctionCode where "READ_INPUT_REGISTERS = 0x04"
definition WRITE_SINGLE_COIL :: FunctionCode where "WRITE_SINGLE_COIL = 0x05"
definition WRITE_SINGLE_REGISTER :: FunctionCode where "WRITE_SINGLE_REGISTER = 0x06"
definition WRITE_MULTIPLE_COILS :: FunctionCode where "WRITE_MULTIPLE_COILS = 0x0F"
definition WRITE_MULTIPLE_REGISTERS :: FunctionCode where "WRITE_MULTIPLE_REGISTERS = 0x10"

lemmas function_codes = READ_COILS_def READ_DISCRETE_INPUTS_def READ_HOLDING_REGISTERS_def
  READ_INPUT_REGISTERS_def WRITE_SINGLE_COIL_def WRITE_SINGLE_REGISTER_def
  WRITE_MULTIPLE_COILS_def WRITE_MULTIPLE_REGISTERS_def

definition EXCEPTION_FLAG :: u8 where "EXCEPTION_FLAG = 0x80"

definition is_exception :: "FunctionCode \<Rightarrow> bool" where
  "is_exception f \<longleftrightarrow> f AND EXCEPTION_FLAG \<noteq> 0"

definition as_exception :: "FunctionCode \<Rightarrow> FunctionCode" where
  "as_exception f = f OR EXCEPTION_FLAG"

definition without_exception_flag :: "FunctionCode \<Rightarrow> FunctionCode" where
  "without_exception_flag f = f AND NOT EXCEPTION_FLAG"

definition is_user_defined :: "FunctionCode \<Rightarrow> bool" where
  "is_user_defined f \<longleftrightarrow> (65 \<le> f \<and> f \<le> 72) \<or> (100 \<le> f \<and> f \<le> 110)"

definition is_public :: "FunctionCode \<Rightarrow> bool" where
  "is_public f \<longleftrightarrow> (1 \<le> f \<and> f \<le> 64) \<or> (73 \<le> f \<and> f \<le> 99) \<or> (111 \<le> f \<and> f \<le> 127)"

definition is_serial_line_only :: "FunctionCode \<Rightarrow> bool" where
  "is_serial_line_only f \<longleftrightarrow> f \<in> {0x07, 0x08, 0x0B, 0x0C, 0x11}"

definition FunctionCode_name :: "FunctionCode \<Rightarrow> string option" where
  "FunctionCode_name f = map_of
     [(0x01, ''Read Coils''),
      (0x02, ''Read Discrete Inputs''),
      (0x03, ''Read Holding Registers''),
      (0x04, ''Read Input Registers''),
      (0x05, ''Write Single Coil''),
      (0x06, ''Write Single Register''),
      (0x07, ''Read Exception Status''),
      (0x08, ''Diagnostics''),
      (0x0B, ''Get Comm Event Counter''),
      (0x0C, ''Get Comm Event Log''),
      (0x0F, ''Write Multiple Coils''),
      (0x10, ''Write Multiple Registers''),
      (0x11, ''Report Server ID''),
      (0x14, ''Read File Record''),
      (0x15, ''Write File Record''),
      (0x16, ''Mask Write Register''),
      (0x17, ''Read/Write Multiple Registers''),
      (0x18, ''Read FIFO Queue''),
      (0x2B, ''Encapsulated Interface Transport'')] f"

section \<open>Exception codes\<close>

type_synonym ExceptionCode = u8

definition ILLEGAL_FUNCTION :: ExceptionCode where "ILLEGAL_FUNCTION = 0x01"
definition ILLEGAL_DATA_ADDRESS :: ExceptionCode where "ILLEGAL_DATA_ADDRESS = 0x02"
definition ILLEGAL_DATA_VALUE :: ExceptionCode where "ILLEGAL_DATA_VALUE = 0x03"
definition SERVER_DEVICE_FAILURE :: ExceptionCode where "SERVER_DEVICE_FAILURE = 0x04"

definition ExceptionCode_is_defined_by_the_specification :: "ExceptionCode \<Rightarrow> bool" where
  "ExceptionCode_is_defined_by_the_specification c \<longleftrightarrow>
     (0x01 \<le> c \<and> c \<le> 0x06) \<or> c = 0x08 \<or> c = 0x0A \<or> c = 0x0B"

section \<open>The exception bit\<close>

lemma bit_EXCEPTION_FLAG: "bit EXCEPTION_FLAG n = (n = 7)"
proof -
  have flag: "EXCEPTION_FLAG = 2 ^ 7" by (simp add: EXCEPTION_FLAG_def)
  show ?thesis unfolding flag bit_exp_iff by (auto simp: possible_bit_word)
qed

lemma is_exception_iff: "is_exception f = bit f 7"
  by (auto simp: is_exception_def word_eq_bits_iff bit_simps bit_EXCEPTION_FLAG
      dest: bit_imp_le_length)

lemma is_exception_as_exception: "is_exception (as_exception f)"
  by (simp add: is_exception_iff as_exception_def bit_simps bit_EXCEPTION_FLAG)

lemma without_flag_as_exception:
  "\<not> is_exception f \<Longrightarrow> without_exception_flag (as_exception f) = f"
  unfolding is_exception_iff without_exception_flag_def as_exception_def
  by (rule bit_word_eqI) (auto simp: bit_simps bit_EXCEPTION_FLAG)

lemma as_exception_without_flag:
  "is_exception f \<Longrightarrow> as_exception (without_exception_flag f) = f"
  unfolding is_exception_iff without_exception_flag_def as_exception_def
  by (rule bit_word_eqI) (auto simp: bit_simps bit_EXCEPTION_FLAG)

end
