(* ===== verification/Modbus_Payload.thy ===== *)
theory Modbus_Payload
  imports Modbus_Function
begin

unbundle bit_operations_syntax

text \<open>
  The two payload types of \<open>crates/salman-modbus/src/pdu.rs\<close>: \<open>Bits\<close>, a packed run of coils in a
  fixed 250-byte buffer, and \<open>Words\<close>, a run of registers in a fixed 125-element buffer.  The
  invariants say that everything past the declared count is zero, which is what makes equality of
  the buffers equality of the readings; every constructor establishes them.
\<close>

section \<open>Bits\<close>

record Bits =
  bits_packed :: "u8 list"
  bits_count :: u16

definition Bits_CAPACITY :: nat where "Bits_CAPACITY = packed_bytes MAX_READ_BITS"

definition Bits_zeroed :: "u16 \<Rightarrow> Bits option" where
  "Bits_zeroed count =
     (if count > MAX_READ_BITS then None
      else Some \<lparr>bits_packed = replicate Bits_CAPACITY 0, bits_count = count\<rparr>)"

definition Bits_clear_padding :: "Bits \<Rightarrow> Bits" where
  "Bits_clear_padding b =
     (let used = unat (bits_count b) mod 8; i = unat (bits_count b) div 8
      in if used = 0 then b
         else case get (bits_packed b) i of
             Some last_byte \<Rightarrow> b\<lparr>bits_packed := (bits_packed b)[i := last_byte AND (push_bit used 1 - 1)]\<rparr>
           | None \<Rightarrow> b)"

definition Bits_from_packed :: "u8 list \<Rightarrow> u16 \<Rightarrow> Bits option" where
  "Bits_from_packed packed count =
     (if count > MAX_READ_BITS \<or> length packed \<noteq> packed_bytes count then None
      else case Bits_zeroed count of
          None \<Rightarrow> None
        | Some bits \<Rightarrow>
            (case copy_prefix (bits_packed bits) packed of
               None \<Rightarrow> None
             | Some p \<Rightarrow> Some (Bits_clear_padding (bits\<lparr>bits_packed := p\<rparr>))))"

fun Bits_from_iter_loop :: "u8 list \<Rightarrow> u16 \<Rightarrow> bool list \<Rightarrow> Bits option" where
  "Bits_from_iter_loop packed count [] = Some \<lparr>bits_packed = packed, bits_count = count\<rparr>"
| "Bits_from_iter_loop packed count (value # values) =
     (if count \<ge> MAX_READ_BITS then None
      else if value then
        (case get packed (unat count div 8) of
           None \<Rightarrow> None
         | Some byte \<Rightarrow>
             Bits_from_iter_loop
               (packed[unat count div 8 := byte OR push_bit (unat count mod 8) 1])
               (count + 1) values)
      else Bits_from_iter_loop packed (count + 1) values)"

definition Bits_from_iter_of :: "bool list \<Rightarrow> Bits option" where
  "Bits_from_iter_of values = Bits_from_iter_loop (replicate Bits_CAPACITY 0) 0 values"

definition Bits_packed :: "Bits \<Rightarrow> u8 list" where
  "Bits_packed b =
     (case get_range (bits_packed b) 0 (packed_bytes (bits_count b)) of Some p \<Rightarrow> p | None \<Rightarrow> [])"

definition Bits_get :: "Bits \<Rightarrow> u16 \<Rightarrow> bool option" where
  "Bits_get b index =
     (if index \<ge> bits_count b then None
      else case get (bits_packed b) (unat index div 8) of
          None \<Rightarrow> None
        | Some byte \<Rightarrow> Some (byte AND push_bit (unat index mod 8) 1 \<noteq> 0))"

definition Bits_set :: "Bits \<Rightarrow> u16 \<Rightarrow> bool \<Rightarrow> bool \<times> Bits" where
  "Bits_set b index value =
     (if index \<ge> bits_count b then (False, b)
      else case get (bits_packed b) (unat index div 8) of
          None \<Rightarrow> (False, b)
        | Some byte \<Rightarrow>
            (let mask = push_bit (unat index mod 8) 1;
                 byte' = (if value then byte OR mask else byte AND NOT mask)
             in (True, b\<lparr>bits_packed := (bits_packed b)[unat index div 8 := byte']\<rparr>)))"

definition Bits_iter :: "Bits \<Rightarrow> bool list" where
  "Bits_iter b = List.map_filter (\<lambda>i. Bits_get b (of_nat i)) [0..<unat (bits_count b)]"

section \<open>Words\<close>

record Words =
  words_values :: "u16 list"
  words_count :: u8

definition Words_CAPACITY :: nat where "Words_CAPACITY = unat MAX_READ_REGISTERS"

definition Words_new :: "u16 list \<Rightarrow> Words option" where
  "Words_new values =
     (if length values > Words_CAPACITY then None
      else case copy_prefix (replicate Words_CAPACITY 0) values of
          None \<Rightarrow> None
        | Some vs \<Rightarrow> Some \<lparr>words_values = vs, words_count = of_nat (length values)\<rparr>)"

definition Words_count :: "Words \<Rightarrow> u16" where
  "Words_count w = ucast (words_count w)"

definition Words_values :: "Words \<Rightarrow> u16 list" where
  "Words_values w =
     (case get_range (words_values w) 0 (unat (words_count w)) of Some vs \<Rightarrow> vs | None \<Rightarrow> [])"

definition Words_get :: "Words \<Rightarrow> u16 \<Rightarrow> u16 option" where
  "Words_get w index =
     (if index \<ge> Words_count w then None else get (words_values w) (unat index))"

section \<open>Bit positions in a packed buffer\<close>

definition bit_at :: "u8 list \<Rightarrow> nat \<Rightarrow> bool" where
  "bit_at p i = bit (p ! (i div 8)) (i mod 8)"

lemma and_exp_neq_0 [simp]: "m < 8 \<Longrightarrow> (byte AND 2 ^ m = (0 :: u8)) = (\<not> bit byte m)"
  by (auto simp: word_eq_bits_iff bit_simps)

lemma bit_low_mask: "used < 8 \<Longrightarrow> bit (2 ^ used - 1 :: u8) n = (n < used)"
  by (auto simp: mask_eq_exp_minus_1 [symmetric] bit_simps)

lemma bit_at_update:
  "j < length p \<Longrightarrow> bit_at (p[j := b]) i = (if i div 8 = j then bit b (i mod 8) else bit_at p i)"
  by (auto simp: bit_at_def)

lemma bytes_eq_iff_bit_at:
  assumes "length p = n" "length q = n"
  shows "p = q \<longleftrightarrow> (\<forall>i < 8 * n. bit_at p i = bit_at q i)"
proof (intro iffI)
  assume eq: "\<forall>i < 8 * n. bit_at p i = bit_at q i"
  have "p ! j = q ! j" if "j < n" for j
  proof (rule bit_word_eqI)
    fix k assume "k < LENGTH(8)"
    then show "bit (p ! j) k = bit (q ! j) k"
      using eq [rule_format, of "8 * j + k"] that by (simp add: bit_at_def)
  qed
  with assms show "p = q" by (intro nth_equalityI) auto
qed simp

section \<open>Well-formed payloads\<close>

lemma Bits_CAPACITY_eq [simp]: "Bits_CAPACITY = 250"
  by (simp add: Bits_CAPACITY_def packed_bytes_def MAX_READ_BITS_def)

lemma Words_CAPACITY_eq [simp]: "Words_CAPACITY = 125"
  by (simp add: Words_CAPACITY_def MAX_READ_REGISTERS_def)

definition wf_Bits :: "Bits \<Rightarrow> bool" where
  "wf_Bits b \<longleftrightarrow> length (bits_packed b) = Bits_CAPACITY \<and> bits_count b \<le> MAX_READ_BITS \<and>
     (\<forall>i \<in> {unat (bits_count b) ..< 8 * Bits_CAPACITY}. \<not> bit_at (bits_packed b) i)"

definition wf_Words :: "Words \<Rightarrow> bool" where
  "wf_Words w \<longleftrightarrow> length (words_values w) = Words_CAPACITY \<and> unat (words_count w) \<le> Words_CAPACITY \<and>
     (\<forall>v \<in> set (drop (unat (words_count w)) (words_values w)). v = 0)"

lemma count_le_2000: "(c \<le> MAX_READ_BITS) = (unat c \<le> 2000)"
  by (simp add: MAX_READ_BITS_def word_le_nat_alt)

lemma wf_Bits_eqI:
  assumes "wf_Bits a" "wf_Bits b" "bits_count a = bits_count b"
    and "\<And>i. i < unat (bits_count a) \<Longrightarrow> bit_at (bits_packed a) i = bit_at (bits_packed b) i"
  shows "a = b"
proof -
  have "bits_packed a = bits_packed b"
    unfolding bytes_eq_iff_bit_at [OF assms(1,2) [unfolded wf_Bits_def, THEN conjunct1]]
  proof (intro allI impI)
    fix i assume "i < 8 * Bits_CAPACITY"
    then show "bit_at (bits_packed a) i = bit_at (bits_packed b) i"
      using assms by (cases "i < unat (bits_count a)") (auto simp: wf_Bits_def)
  qed
  then show ?thesis using assms(3) by simp
qed

lemma Bits_get_bit_at:
  "wf_Bits b \<Longrightarrow> Bits_get b i = (if i < bits_count b then Some (bit_at (bits_packed b) (unat i)) else None)"
  by (auto simp: Bits_get_def wf_Bits_def word_le_nat_alt word_less_nat_alt get_def bit_at_def)

lemma wf_Bits_zeroed [wf_intros]: "Bits_zeroed c = Some b \<Longrightarrow> wf_Bits b"
  by (auto simp: Bits_zeroed_def wf_Bits_def bit_at_def split: if_splits)

text \<open>Clearing the padding of a buffer whose whole bytes past the count are zero.\<close>

lemma bit_at_clear_padding:
  assumes "length (bits_packed b) = 250" "unat (bits_count b) \<le> 2000" "i < 2000"
  shows "bit_at (bits_packed (Bits_clear_padding b)) i =
    (bit_at (bits_packed b) i \<and> (i < unat (bits_count b) \<or> i div 8 \<noteq> unat (bits_count b) div 8
       \<or> unat (bits_count b) mod 8 = 0))"
proof (cases "unat (bits_count b) mod 8 = 0")
  case True
  then show ?thesis by (simp add: Bits_clear_padding_def Let_def)
next
  case False
  let ?k = "unat (bits_count b)"
  have "?k div 8 < 250" using False assms(2) by presburger
  moreover have "(i < ?k) = (i mod 8 < ?k mod 8)" if "i div 8 = ?k div 8"
    using that by (metis div_mod_decomp nat_add_left_cancel_less)
  ultimately show ?thesis using False assms
    by (cases "i div 8 = ?k div 8")
       (auto simp: Bits_clear_padding_def Let_def get_def bit_at_update bit_simps bit_low_mask
          bit_at_def [of "bits_packed b"])
qed

lemma Bits_clear_padding_frame [simp]:
  "bits_count (Bits_clear_padding b) = bits_count b"
  "length (bits_packed (Bits_clear_padding b)) = length (bits_packed b)"
  by (auto simp: Bits_clear_padding_def Let_def split: option.splits)

lemma Bits_from_packed_eq_Some:
  "(Bits_from_packed p c = Some b) =
     (c \<le> MAX_READ_BITS \<and> length p = packed_bytes c \<and>
      b = Bits_clear_padding \<lparr>bits_packed = p @ replicate (250 - packed_bytes c) 0, bits_count = c\<rparr>)"
  using packed_bytes_le [of c]
  by (auto simp: Bits_from_packed_def Bits_zeroed_def copy_prefix_def split: option.splits)

lemma bit_at_padded:
  "bit_at (p @ replicate n 0) i = (if i div 8 < length p then bit_at p i else False)" if "i div 8 < length p + n"
  using that by (auto simp: bit_at_def nth_append)

lemma div_ceil_8: "(k + 7) div 8 = (if k mod 8 = 0 then k div 8 else Suc (k div 8))" for k :: nat
  by presburger

lemma padding_guard:
  "(i div 8 < packed_bytes c \<and> (i < unat c \<or> i div 8 \<noteq> unat c div 8 \<or> unat c mod 8 = 0)) = (i < unat c)"
proof
  assume "i < unat c"
  then show "i div 8 < packed_bytes c \<and> (i < unat c \<or> i div 8 \<noteq> unat c div 8 \<or> unat c mod 8 = 0)"
    by (simp add: packed_bytes_def)
next
  assume *: "i div 8 < packed_bytes c \<and> (i < unat c \<or> i div 8 \<noteq> unat c div 8 \<or> unat c mod 8 = 0)"
  show "i < unat c"
  proof (rule ccontr)
    assume "\<not> i < unat c"
    then have "unat c div 8 \<le> i div 8" by (simp add: div_le_mono)
    with * \<open>\<not> i < unat c\<close> show False by (auto simp: packed_bytes_def div_ceil_8 split: if_splits)
  qed
qed

lemma bit_at_from_packed:
  assumes b: "Bits_from_packed p c = Some b" and i: "i < 2000"
  shows "bit_at (bits_packed b) i = (i < unat c \<and> bit_at p i)"
proof -
  let ?p = "p @ replicate (250 - packed_bytes c) 0"
  have c: "unat c \<le> 2000" "length p = packed_bytes c" "packed_bytes c \<le> 250"
    using b packed_bytes_le [of c] by (auto simp: Bits_from_packed_eq_Some count_le_2000)
  have "bit_at (bits_packed b) i =
      (bit_at ?p i \<and> (i < unat c \<or> i div 8 \<noteq> unat c div 8 \<or> unat c mod 8 = 0))"
    using b c i bit_at_clear_padding [of "\<lparr>bits_packed = ?p, bits_count = c\<rparr>" i]
    by (simp add: Bits_from_packed_eq_Some)
  moreover have "bit_at ?p i = (i div 8 < packed_bytes c \<and> bit_at p i)"
    using c i by (subst bit_at_padded) auto
  ultimately show ?thesis using padding_guard [of i c] by metis
qed

lemma wf_Bits_from_packed [wf_intros]: "Bits_from_packed p c = Some b \<Longrightarrow> wf_Bits b"
proof -
  assume b: "Bits_from_packed p c = Some b"
  then have "bits_count b = c" "length (bits_packed b) = 250" "c \<le> MAX_READ_BITS"
    using packed_bytes_le [of c] by (auto simp: Bits_from_packed_eq_Some)
  with bit_at_from_packed [OF b] show ?thesis by (simp add: wf_Bits_def)
qed

lemma Bits_packed_eq: "wf_Bits b \<Longrightarrow> Bits_packed b = take (packed_bytes (bits_count b)) (bits_packed b)"
  using packed_bytes_le [of "bits_count b"]
  by (auto simp: Bits_packed_def wf_Bits_def get_range_def)

lemma length_Bits_packed [simp]: "wf_Bits b \<Longrightarrow> length (Bits_packed b) = packed_bytes (bits_count b)"
  using packed_bytes_le [of "bits_count b"] by (auto simp: Bits_packed_eq wf_Bits_def)

lemma Bits_from_packed_packed: "wf_Bits b \<Longrightarrow> Bits_from_packed (Bits_packed b) (bits_count b) = Some b"
proof -
  assume wf: "wf_Bits b"
  then obtain b' where b': "Bits_from_packed (Bits_packed b) (bits_count b) = Some b'"
    by (auto simp: Bits_from_packed_eq_Some wf_Bits_def)
  have "b' = b"
  proof (rule wf_Bits_eqI)
    show "wf_Bits b'" using b' by (rule wf_Bits_from_packed)
    show "wf_Bits b" by (rule wf)
    show c: "bits_count b' = bits_count b" using b' by (auto simp: Bits_from_packed_eq_Some)
    fix i assume i: "i < unat (bits_count b')"
    then have "i div 8 < packed_bytes (bits_count b)" using c unfolding packed_bytes_def by simp
    then show "bit_at (bits_packed b') i = bit_at (bits_packed b) i"
      using bit_at_from_packed [OF b'] i c wf
      by (simp add: Bits_packed_eq bit_at_def wf_Bits_def count_le_2000)
  qed
  with b' show ?thesis by simp
qed

section \<open>Building bits from an iterator\<close>

lemma unat_Suc_count: "unat (count :: u16) < 2000 \<Longrightarrow> unat (count + 1) = Suc (unat count)"
  by (simp add: unat_word_ariths)

lemma bit_at_or_exp:
  assumes "k < 2000" "length p = 250"
  shows "bit_at (p[k div 8 := p ! (k div 8) OR 2 ^ (k mod 8)]) i = (bit_at p i \<or> i = k)"
proof -
  have "k div 8 < length p" using assms by simp
  moreover have "(i div 8 = k div 8 \<and> i mod 8 = k mod 8) = (i = k)" by (metis div_mult_mod_eq)
  ultimately show ?thesis by (auto simp: bit_at_update bit_simps bit_at_def [of p])
qed

lemma Bits_from_iter_loop_spec:
  assumes "length p = 250" "unat c + length vs \<le> 2000"
    and "\<And>i. unat c \<le> i \<Longrightarrow> i < 2000 \<Longrightarrow> \<not> bit_at p i"
  shows "\<exists>q. Bits_from_iter_loop p c vs = Some \<lparr>bits_packed = q, bits_count = of_nat (unat c + length vs)\<rparr> \<and>
     length q = 250 \<and> (\<forall>i < 2000. bit_at q i =
       (if i < unat c then bit_at p i else i < unat c + length vs \<and> vs ! (i - unat c)))"
  using assms
proof (induction vs arbitrary: p c)
  case Nil
  then show ?case by auto
next
  case (Cons v vs)
  let ?p = "if v then p[unat c div 8 := p ! (unat c div 8) OR 2 ^ (unat c mod 8)] else p"
  have c: "unat c < 2000" "unat (c + 1) = Suc (unat c)" "\<not> MAX_READ_BITS \<le> c"
    using Cons.prems(2) by (simp_all add: unat_Suc_count word_le_nat_alt)
  have bits: "bit_at ?p i = (bit_at p i \<or> v \<and> i = unat c)" for i
    using bit_at_or_exp [OF c(1) Cons.prems(1)] by auto
  have "\<exists>q. Bits_from_iter_loop ?p (c + 1) vs =
      Some \<lparr>bits_packed = q, bits_count = of_nat (unat (c + 1) + length vs)\<rparr> \<and>
     length q = 250 \<and> (\<forall>i < 2000. bit_at q i =
       (if i < unat (c + 1) then bit_at ?p i else i < unat (c + 1) + length vs \<and> vs ! (i - unat (c + 1))))"
    using Cons.prems c bits by (intro Cons.IH) auto
  then obtain q where q: "Bits_from_iter_loop ?p (c + 1) vs =
      Some \<lparr>bits_packed = q, bits_count = of_nat (unat c + length (v # vs))\<rparr>" "length q = 250"
    "\<And>i. i < 2000 \<Longrightarrow> bit_at q i = (if i \<le> unat c then bit_at ?p i
       else i \<le> unat c + length vs \<and> vs ! (i - Suc (unat c)))"
    by (auto simp: c less_Suc_eq_le simp del: of_nat_Suc of_nat_add)
  have loop: "Bits_from_iter_loop p c (v # vs) = Bits_from_iter_loop ?p (c + 1) vs"
    using c Cons.prems(1) by (simp add: get_def less_mult_imp_div_less)
  have "bit_at q i = (if i < unat c then bit_at p i else i < unat c + length (v # vs) \<and> (v # vs) ! (i - unat c))"
    if "i < 2000" for i
  proof (cases i "unat c" rule: linorder_cases)
    case less
    then show ?thesis using q(3) [OF that] bits [of i] by simp
  next
    case equal
    then show ?thesis using q(3) [OF that] bits [of i] Cons.prems(3) [of i] that by simp
  next
    case greater
    then have "(v # vs) ! (i - unat c) = vs ! (i - Suc (unat c))" by (simp add: nth_Cons')
    then show ?thesis using q(3) [OF that] greater by (simp add: less_Suc_eq_le)
  qed
  with loop q(1,2) show ?case by metis
qed

lemma Bits_from_iter_of_Some:
  assumes "length vs \<le> 2000"
  obtains b where "Bits_from_iter_of vs = Some b" "wf_Bits b" "unat (bits_count b) = length vs"
    "\<And>i. i < length vs \<Longrightarrow> bit_at (bits_packed b) i = vs ! i"
proof -
  have "\<not> bit_at (replicate 250 0) i" if "i < 2000" for i using that by (simp add: bit_at_def)
  with Bits_from_iter_loop_spec [of "replicate 250 0" 0 vs] assms obtain q where
    q: "Bits_from_iter_of vs = Some \<lparr>bits_packed = q, bits_count = of_nat (length vs)\<rparr>" "length q = 250"
      "\<forall>i < 2000. bit_at q i = (i < length vs \<and> vs ! i)"
    by (auto simp: Bits_from_iter_of_def)
  show ?thesis
    by (rule that [OF q(1)]) (use q assms in \<open>auto simp: wf_Bits_def count_le_2000\<close>)
qed

section \<open>Words\<close>

lemma Words_new_eq_Some:
  "(Words_new vs = Some w) = (length vs \<le> 125 \<and>
     w = \<lparr>words_values = vs @ replicate (125 - length vs) 0, words_count = of_nat (length vs)\<rparr>)"
  by (auto simp: Words_new_def copy_prefix_def)

lemma wf_Words_new [wf_intros]: "Words_new vs = Some w \<Longrightarrow> wf_Words w"
  by (auto simp: Words_new_eq_Some wf_Words_def)

lemma Words_values_new: "Words_new vs = Some w \<Longrightarrow> Words_values w = vs"
  by (auto simp: Words_new_eq_Some Words_values_def get_range_def)

lemma Words_values_eq: "wf_Words w \<Longrightarrow> Words_values w = take (unat (words_count w)) (words_values w)"
  by (auto simp: Words_values_def wf_Words_def get_range_def)

lemma length_Words_values [simp]: "wf_Words w \<Longrightarrow> length (Words_values w) = unat (words_count w)"
  by (auto simp: Words_values_eq wf_Words_def)

lemma Words_new_values: "wf_Words w \<Longrightarrow> Words_new (Words_values w) = Some w"
proof -
  assume wf: "wf_Words w"
  let ?n = "unat (words_count w)"
  have "drop ?n (words_values w) = replicate (125 - ?n) 0"
    using wf by (intro replicate_eqI) (auto simp: wf_Words_def)
  then have "Words_values w @ replicate (125 - ?n) 0 = words_values w"
    using append_take_drop_id [of ?n "words_values w"] wf by (simp add: Words_values_eq)
  with wf show ?thesis by (simp add: Words_new_eq_Some wf_Words_def)
qed

lemma unat_Words_count [simp]: "unat (Words_count w) = unat (words_count w)"
  by (simp add: Words_count_def unsigned_ucast_eq take_bit_nat_eq_self
      order.strict_trans [OF unat_u8_bound])

lemma Words_get_eq:
  "wf_Words w \<Longrightarrow> Words_get w i = get (Words_values w) (unat i)"
  by (auto simp: Words_get_def Words_values_eq wf_Words_def get_def word_le_nat_alt)

end
