(* ===== verification/Byte_Buffer.thy ===== *)
theory Byte_Buffer
  imports Salman_Prelude
begin

text \<open>
  The contract of a fixed-capacity byte buffer that is filled one byte at a time: a push appends
  while there is room and leaves the contents alone when there is none.  The frame under
  construction (\<open>Pdu\<close>) and the TCP framer's buffer both keep it; \<open>flagged_buffer\<close> adds the
  sticky overflow mark only the former has.
\<close>

locale byte_buffer =
  fixes inv :: "'b \<Rightarrow> bool"
    and contents :: "'b \<Rightarrow> u8 list"
    and capacity :: nat
    and push :: "'b \<Rightarrow> u8 \<Rightarrow> 'b"
  assumes inv_push: "inv b \<Longrightarrow> inv (push b x)"
    and contents_bound: "inv b \<Longrightarrow> length (contents b) \<le> capacity"
    and contents_push: "inv b \<Longrightarrow> length (contents b) < capacity \<Longrightarrow> contents (push b x) = contents b @ [x]"
    and contents_full: "inv b \<Longrightarrow> length (contents b) = capacity \<Longrightarrow> contents (push b x) = contents b"
begin

lemma inv_push_all: "inv b \<Longrightarrow> inv (foldl push b xs)"
  by (induction xs arbitrary: b) (simp_all add: inv_push)

lemma contents_push_all: "inv b \<Longrightarrow> contents (foldl push b xs) = take capacity (contents b @ xs)"
proof (induction xs arbitrary: b)
  case Nil
  then show ?case by (simp add: contents_bound)
next
  case (Cons x xs)
  from Cons.prems have "contents (foldl push (push b x) xs) = take capacity (contents (push b x) @ xs)"
    by (simp add: Cons.IH inv_push)
  also have "\<dots> = take capacity (contents b @ x # xs)"
    using contents_bound [OF Cons.prems] contents_push [OF Cons.prems, of x] contents_full [OF Cons.prems, of x]
    by (cases "length (contents b) < capacity") auto
  finally show ?case by simp
qed

lemma contents_push_fits:
  "inv b \<Longrightarrow> length (contents b) + length xs \<le> capacity \<Longrightarrow> contents (foldl push b xs) = contents b @ xs"
  by (simp add: contents_push_all)

end

locale flagged_buffer = byte_buffer inv contents capacity push
  for inv :: "'b \<Rightarrow> bool" and contents :: "'b \<Rightarrow> u8 list" and capacity :: nat and push :: "'b \<Rightarrow> u8 \<Rightarrow> 'b" +
  fixes overflowed :: "'b \<Rightarrow> bool"
  assumes overflowed_push:
    "inv b \<Longrightarrow> overflowed (push b x) \<longleftrightarrow> overflowed b \<or> length (contents b) = capacity"
begin

lemma overflowed_push_all:
  "inv b \<Longrightarrow> overflowed (foldl push b xs) \<longleftrightarrow> overflowed b \<or> capacity < length (contents b) + length xs"
proof (induction xs arbitrary: b)
  case Nil
  then show ?case using contents_bound [of b] by simp
next
  case (Cons x xs)
  from Cons.prems have "overflowed (foldl push (push b x) xs) \<longleftrightarrow>
      overflowed (push b x) \<or> capacity < length (contents (push b x)) + length xs"
    by (simp add: Cons.IH inv_push)
  then show ?case
    using contents_bound [OF Cons.prems] contents_push [OF Cons.prems, of x] contents_full [OF Cons.prems, of x]
      overflowed_push [OF Cons.prems, of x]
    by (cases "length (contents b) < capacity") auto
qed

end

end
