(* ===== verification/Modbus_Pdu.thy ===== *)
theory Modbus_Pdu
  imports Modbus_Payload Byte_Buffer
begin

unbundle bit_operations_syntax

text \<open>
  Protocol data units, from \<open>crates/salman-modbus/src/pdu.rs\<close>: the fixed buffer a frame is built in,
  the request and response types, their encoders, and the decoders over a bounded reader.  Errors
  are values of \<open>EncodeError\<close> and \<open>DecodeError\<close>, one constructor per variant.
\<close>

section \<open>The frame buffer\<close>

record Pdu =
  pdu_bytes :: "u8 list"
  pdu_len :: nat
  pdu_overflowed :: bool

definition Pdu_new :: "FunctionCode \<Rightarrow> Pdu" where
  "Pdu_new function =
     \<lparr>pdu_bytes = (replicate MAX_PDU 0)[0 := function], pdu_len = 1, pdu_overflowed = False\<rparr>"

definition Pdu_from_bytes :: "u8 list \<Rightarrow> Pdu option" where
  "Pdu_from_bytes bytes =
     (if bytes = [] \<or> length bytes > MAX_PDU then None
      else case copy_prefix (replicate MAX_PDU 0) bytes of
          None \<Rightarrow> None
        | Some p \<Rightarrow> Some \<lparr>pdu_bytes = p, pdu_len = length bytes, pdu_overflowed = False\<rparr>)"

definition Pdu_as_bytes :: "Pdu \<Rightarrow> u8 list" where
  "Pdu_as_bytes p = (case get_range (pdu_bytes p) 0 (pdu_len p) of Some bs \<Rightarrow> bs | None \<Rightarrow> [])"

definition Pdu_function :: "Pdu \<Rightarrow> FunctionCode" where
  "Pdu_function p = pdu_bytes p ! 0"

definition push_u8 :: "Pdu \<Rightarrow> u8 \<Rightarrow> Pdu" where
  "push_u8 p value =
     (case get (pdu_bytes p) (pdu_len p) of
        Some _ \<Rightarrow> p\<lparr>pdu_bytes := (pdu_bytes p)[pdu_len p := value], pdu_len := pdu_len p + 1\<rparr>
      | None \<Rightarrow> p\<lparr>pdu_overflowed := True\<rparr>)"

definition push_bytes :: "Pdu \<Rightarrow> u8 list \<Rightarrow> Pdu" where
  "push_bytes p bytes = foldl push_u8 p bytes"

definition push_u16 :: "Pdu \<Rightarrow> u16 \<Rightarrow> Pdu" where
  "push_u16 p value = foldl push_u8 p (to_be_bytes16 value)"

definition push_u16s :: "Pdu \<Rightarrow> u16 list \<Rightarrow> Pdu" where
  "push_u16s p values = foldl push_u16 p values"

definition wf_Pdu :: "Pdu \<Rightarrow> bool" where
  "wf_Pdu p \<longleftrightarrow> length (pdu_bytes p) = MAX_PDU \<and> 1 \<le> pdu_len p \<and> pdu_len p \<le> MAX_PDU"

lemma Pdu_as_bytes_eq: "wf_Pdu p \<Longrightarrow> Pdu_as_bytes p = take (pdu_len p) (pdu_bytes p)"
  by (auto simp: Pdu_as_bytes_def wf_Pdu_def get_range_def)

lemma length_Pdu_as_bytes: "wf_Pdu p \<Longrightarrow> length (Pdu_as_bytes p) = pdu_len p"
  by (auto simp: Pdu_as_bytes_eq wf_Pdu_def)

interpretation pdu: flagged_buffer wf_Pdu Pdu_as_bytes MAX_PDU push_u8 pdu_overflowed
proof
  fix b :: Pdu and x :: u8
  assume b: "wf_Pdu b"
  then show "length (Pdu_as_bytes b) \<le> MAX_PDU"
    by (simp add: length_Pdu_as_bytes wf_Pdu_def)
  from b show wf': "wf_Pdu (push_u8 b x)"
    by (auto simp: wf_Pdu_def push_u8_def get_def)
  show "length (Pdu_as_bytes b) < MAX_PDU \<Longrightarrow> Pdu_as_bytes (push_u8 b x) = Pdu_as_bytes b @ [x]"
    using b wf' unfolding Pdu_as_bytes_eq [OF b] Pdu_as_bytes_eq [OF wf']
    by (auto simp: wf_Pdu_def push_u8_def get_def take_Suc_update)
  show "length (Pdu_as_bytes b) = MAX_PDU \<Longrightarrow> Pdu_as_bytes (push_u8 b x) = Pdu_as_bytes b"
    using b wf' unfolding length_Pdu_as_bytes [OF b] Pdu_as_bytes_eq [OF b] Pdu_as_bytes_eq [OF wf']
    by (simp add: wf_Pdu_def push_u8_def get_def)
  show "pdu_overflowed (push_u8 b x) \<longleftrightarrow> pdu_overflowed b \<or> length (Pdu_as_bytes b) = MAX_PDU"
    using b by (auto simp: length_Pdu_as_bytes wf_Pdu_def push_u8_def get_def)
qed

lemma Pdu_new_wire [wire, simp]:
  "wf_Pdu (Pdu_new f)" "Pdu_as_bytes (Pdu_new f) = [f]" "\<not> pdu_overflowed (Pdu_new f)"
  by (simp_all add: wf_Pdu_def Pdu_as_bytes_def Pdu_new_def get_range_def MAX_PDU_def numeral_eq_Suc)

lemma push_u16_as_bytes: "push_u16 p v = push_bytes p (to_be_bytes16 v)"
  by (simp add: push_u16_def push_bytes_def)

lemma push_bytes_append: "push_bytes (push_bytes p xs) ys = push_bytes p (xs @ ys)"
  by (simp add: push_bytes_def)

lemma push_u8_as_bytes: "push_u8 p v = push_bytes p [v]"
  by (simp add: push_bytes_def)

lemma push_u16s_as_bytes: "push_u16s p vs = push_bytes p (concat (map to_be_bytes16 vs))"
  by (induction vs arbitrary: p) (simp_all add: push_u16s_def push_u16_as_bytes push_bytes_append, simp add: push_bytes_def)

text \<open>Every encoder is a chain of pushes, so its effect is one appended byte string.\<close>

lemmas pushes = push_u16_as_bytes push_u8_as_bytes push_u16s_as_bytes push_bytes_append

lemma push_bytes_wire:
  assumes "length bs < MAX_PDU"
  shows "wf_Pdu (push_bytes (Pdu_new f) bs)" "Pdu_as_bytes (push_bytes (Pdu_new f) bs) = f # bs"
    "\<not> pdu_overflowed (push_bytes (Pdu_new f) bs)"
  using assms pdu.inv_push_all [of "Pdu_new f" bs] pdu.contents_push_fits [of "Pdu_new f" bs]
    pdu.overflowed_push_all [of "Pdu_new f" bs]
  by (simp_all add: push_bytes_def)

lemma Pdu_from_bytes_eq_Some:
  "(Pdu_from_bytes bs = Some p) = (bs \<noteq> [] \<and> length bs \<le> MAX_PDU \<and>
     p = \<lparr>pdu_bytes = bs @ replicate (MAX_PDU - length bs) 0, pdu_len = length bs, pdu_overflowed = False\<rparr>)"
  by (auto simp: Pdu_from_bytes_def copy_prefix_def)

lemma Pdu_from_bytes_as_bytes: "Pdu_from_bytes bs = Some p \<Longrightarrow> wf_Pdu p \<and> Pdu_as_bytes p = bs"
  by (cases bs) (auto simp: Pdu_from_bytes_eq_Some wf_Pdu_def Pdu_as_bytes_def get_range_def)

lemma length_concat_be: "length (concat (map to_be_bytes16 vs)) = 2 * length vs"
  by (induction vs) simp_all

end
