(* ===== verification/Modbus_Codec.thy ===== *)
theory Modbus_Codec
  imports Modbus_Pdu
begin

text \<open>
  Requests and responses, and the two directions of the codec, from
  \<open>crates/salman-modbus/src/pdu.rs\<close>.  \<open>Request_encode\<close> and \<open>Response_encode\<close> build a frame in the
  buffer of the previous theory; \<open>Request_decode\<close> and \<open>Response_decode\<close> walk the bytes with the
  bounded \<open>Reader\<close>.  A response is decoded against the request it answers.
\<close>

section \<open>Requests, responses and errors\<close>

datatype Request =
    Req_ReadCoils u16 u16
  | Req_ReadDiscreteInputs u16 u16
  | Req_ReadHoldingRegisters u16 u16
  | Req_ReadInputRegisters u16 u16
  | Req_WriteSingleCoil u16 bool
  | Req_WriteSingleRegister u16 u16
  | Req_WriteMultipleCoils u16 Bits
  | Req_WriteMultipleRegisters u16 Words

datatype Response =
    Rsp_ReadCoils Bits
  | Rsp_ReadDiscreteInputs Bits
  | Rsp_ReadHoldingRegisters Words
  | Rsp_ReadInputRegisters Words
  | Rsp_WriteSingleCoil u16 bool
  | Rsp_WriteSingleRegister u16 u16
  | Rsp_WriteMultipleCoils u16 u16
  | Rsp_WriteMultipleRegisters u16 u16
  | Rsp_Exception FunctionCode ExceptionCode

datatype EncodeError =
    Enc_QuantityOutOfRange FunctionCode u16 u16 u16
  | Enc_TooLongForAFrame FunctionCode

datatype DecodeError =
    Dec_Empty
  | Dec_TooLong nat
  | Dec_Truncated nat nat
  | Dec_TrailingBytes nat
  | Dec_QuantityOutOfRange u16 u16 u16
  | Dec_ByteCountDisagreesWithQuantity nat nat u16
  | Dec_CoilValueNotOnOrOff u16
  | Dec_FunctionNotImplemented FunctionCode
  | Dec_FunctionUnknown FunctionCode
  | Dec_FunctionDoesNotAnswerRequest FunctionCode FunctionCode

fun Request_function :: "Request \<Rightarrow> FunctionCode" where
  "Request_function (Req_ReadCoils _ _) = READ_COILS"
| "Request_function (Req_ReadDiscreteInputs _ _) = READ_DISCRETE_INPUTS"
| "Request_function (Req_ReadHoldingRegisters _ _) = READ_HOLDING_REGISTERS"
| "Request_function (Req_ReadInputRegisters _ _) = READ_INPUT_REGISTERS"
| "Request_function (Req_WriteSingleCoil _ _) = WRITE_SINGLE_COIL"
| "Request_function (Req_WriteSingleRegister _ _) = WRITE_SINGLE_REGISTER"
| "Request_function (Req_WriteMultipleCoils _ _) = WRITE_MULTIPLE_COILS"
| "Request_function (Req_WriteMultipleRegisters _ _) = WRITE_MULTIPLE_REGISTERS"

fun Request_start :: "Request \<Rightarrow> u16" where
  "Request_start (Req_ReadCoils start _) = start"
| "Request_start (Req_ReadDiscreteInputs start _) = start"
| "Request_start (Req_ReadHoldingRegisters start _) = start"
| "Request_start (Req_ReadInputRegisters start _) = start"
| "Request_start (Req_WriteMultipleCoils start _) = start"
| "Request_start (Req_WriteMultipleRegisters start _) = start"
| "Request_start (Req_WriteSingleCoil address _) = address"
| "Request_start (Req_WriteSingleRegister address _) = address"

fun Request_quantity :: "Request \<Rightarrow> u16" where
  "Request_quantity (Req_ReadCoils _ quantity) = quantity"
| "Request_quantity (Req_ReadDiscreteInputs _ quantity) = quantity"
| "Request_quantity (Req_ReadHoldingRegisters _ quantity) = quantity"
| "Request_quantity (Req_ReadInputRegisters _ quantity) = quantity"
| "Request_quantity (Req_WriteSingleCoil _ _) = 1"
| "Request_quantity (Req_WriteSingleRegister _ _) = 1"
| "Request_quantity (Req_WriteMultipleCoils _ values) = bits_count values"
| "Request_quantity (Req_WriteMultipleRegisters _ values) = Words_count values"

fun Request_is_write :: "Request \<Rightarrow> bool" where
  "Request_is_write (Req_ReadCoils _ _) = False"
| "Request_is_write (Req_ReadDiscreteInputs _ _) = False"
| "Request_is_write (Req_ReadHoldingRegisters _ _) = False"
| "Request_is_write (Req_ReadInputRegisters _ _) = False"
| "Request_is_write (Req_WriteSingleCoil _ _) = True"
| "Request_is_write (Req_WriteSingleRegister _ _) = True"
| "Request_is_write (Req_WriteMultipleCoils _ _) = True"
| "Request_is_write (Req_WriteMultipleRegisters _ _) = True"

section \<open>Encoding\<close>

definition check_encodable_limit :: "Request \<Rightarrow> u16 \<Rightarrow> u16 \<Rightarrow> EncodeError + unit" where
  "check_encodable_limit r quantity hi =
     (if quantity < 1 \<or> quantity > hi
      then Inl (Enc_QuantityOutOfRange (Request_function r) quantity 1 hi) else Inr ())"

fun Request_check_encodable :: "Request \<Rightarrow> EncodeError + unit" where
  "Request_check_encodable (Req_ReadCoils s q) =
     check_encodable_limit (Req_ReadCoils s q) q MAX_READ_BITS"
| "Request_check_encodable (Req_ReadDiscreteInputs s q) =
     check_encodable_limit (Req_ReadDiscreteInputs s q) q MAX_READ_BITS"
| "Request_check_encodable (Req_ReadHoldingRegisters s q) =
     check_encodable_limit (Req_ReadHoldingRegisters s q) q MAX_READ_REGISTERS"
| "Request_check_encodable (Req_ReadInputRegisters s q) =
     check_encodable_limit (Req_ReadInputRegisters s q) q MAX_READ_REGISTERS"
| "Request_check_encodable (Req_WriteMultipleCoils s values) =
     check_encodable_limit (Req_WriteMultipleCoils s values) (bits_count values) MAX_WRITE_BITS"
| "Request_check_encodable (Req_WriteMultipleRegisters s values) =
     check_encodable_limit (Req_WriteMultipleRegisters s values) (Words_count values) MAX_WRITE_REGISTERS"
| "Request_check_encodable (Req_WriteSingleCoil _ _) = Inr ()"
| "Request_check_encodable (Req_WriteSingleRegister _ _) = Inr ()"

fun Request_push_body :: "Pdu \<Rightarrow> Request \<Rightarrow> Pdu" where
  "Request_push_body pdu (Req_ReadCoils start quantity) = push_u16 (push_u16 pdu start) quantity"
| "Request_push_body pdu (Req_ReadDiscreteInputs start quantity) = push_u16 (push_u16 pdu start) quantity"
| "Request_push_body pdu (Req_ReadHoldingRegisters start quantity) = push_u16 (push_u16 pdu start) quantity"
| "Request_push_body pdu (Req_ReadInputRegisters start quantity) = push_u16 (push_u16 pdu start) quantity"
| "Request_push_body pdu (Req_WriteSingleCoil address on) =
     push_u16 (push_u16 pdu address) (if on then COIL_ON else COIL_OFF)"
| "Request_push_body pdu (Req_WriteSingleRegister address value) = push_u16 (push_u16 pdu address) value"
| "Request_push_body pdu (Req_WriteMultipleCoils start values) =
     push_bytes
       (push_u8 (push_u16 (push_u16 pdu start) (bits_count values))
          (of_nat (length (Bits_packed values))))
       (Bits_packed values)"
| "Request_push_body pdu (Req_WriteMultipleRegisters start values) =
     push_u16s
       (push_u8 (push_u16 (push_u16 pdu start) (Words_count values))
          (ucast (Words_count values * 2)))
       (Words_values values)"

definition Request_encode :: "Request \<Rightarrow> EncodeError + Pdu" where
  "Request_encode r =
     and_then (Request_check_encodable r) (\<lambda>_.
       let pdu = Request_push_body (Pdu_new (Request_function r)) r
       in if pdu_overflowed pdu then Inl (Enc_TooLongForAFrame (Request_function r)) else Inr pdu)"

fun Response_encode :: "Response \<Rightarrow> Pdu" where
  "Response_encode (Rsp_ReadCoils bits) =
     push_bytes (push_u8 (Pdu_new READ_COILS) (of_nat (length (Bits_packed bits)))) (Bits_packed bits)"
| "Response_encode (Rsp_ReadDiscreteInputs bits) =
     push_bytes (push_u8 (Pdu_new READ_DISCRETE_INPUTS) (of_nat (length (Bits_packed bits)))) (Bits_packed bits)"
| "Response_encode (Rsp_ReadHoldingRegisters words) =
     push_u16s (push_u8 (Pdu_new READ_HOLDING_REGISTERS) (ucast (Words_count words * 2))) (Words_values words)"
| "Response_encode (Rsp_ReadInputRegisters words) =
     push_u16s (push_u8 (Pdu_new READ_INPUT_REGISTERS) (ucast (Words_count words * 2))) (Words_values words)"
| "Response_encode (Rsp_WriteSingleCoil address on) =
     push_u16 (push_u16 (Pdu_new WRITE_SINGLE_COIL) address) (if on then COIL_ON else COIL_OFF)"
| "Response_encode (Rsp_WriteSingleRegister address value) =
     push_u16 (push_u16 (Pdu_new WRITE_SINGLE_REGISTER) address) value"
| "Response_encode (Rsp_WriteMultipleCoils start quantity) =
     push_u16 (push_u16 (Pdu_new WRITE_MULTIPLE_COILS) start) quantity"
| "Response_encode (Rsp_WriteMultipleRegisters start quantity) =
     push_u16 (push_u16 (Pdu_new WRITE_MULTIPLE_REGISTERS) start) quantity"
| "Response_encode (Rsp_Exception function code) = push_u8 (Pdu_new (as_exception function)) code"

section \<open>The reader\<close>

record Reader =
  rd_function :: FunctionCode
  rd_rest :: "u8 list"

definition Reader_new :: "u8 list \<Rightarrow> DecodeError + Reader" where
  "Reader_new bytes =
     (if length bytes > MAX_PDU then Inl (Dec_TooLong (length bytes))
      else case bytes of
          [] \<Rightarrow> Inl Dec_Empty
        | function # rest \<Rightarrow> Inr \<lparr>rd_function = function, rd_rest = rest\<rparr>)"

definition Reader_bytes :: "Reader \<Rightarrow> nat \<Rightarrow> DecodeError + u8 list \<times> Reader" where
  "Reader_bytes r count =
     (if length (rd_rest r) < count then Inl (Dec_Truncated count (length (rd_rest r)))
      else Inr (take count (rd_rest r), r\<lparr>rd_rest := drop count (rd_rest r)\<rparr>))"

definition Reader_u8 :: "Reader \<Rightarrow> DecodeError + u8 \<times> Reader" where
  "Reader_u8 r = and_then (Reader_bytes r 1) (\<lambda>(bytes, r).
     case bytes of b # _ \<Rightarrow> Inr (b, r) | [] \<Rightarrow> Inl (Dec_Truncated 1 0))"

definition Reader_u16 :: "Reader \<Rightarrow> DecodeError + u16 \<times> Reader" where
  "Reader_u16 r = and_then (Reader_bytes r 2) (\<lambda>(bytes, r).
     case bytes of
       [high, low] \<Rightarrow> Inr (from_be_bytes16 high low, r)
     | _ \<Rightarrow> Inl (Dec_Truncated 2 (length bytes)))"

definition Reader_read_bits :: "Reader \<Rightarrow> u16 \<Rightarrow> DecodeError + Bits \<times> Reader" where
  "Reader_read_bits r quantity = and_then (Reader_u8 r) (\<lambda>(b, r).
     let declared = unat b; expected = packed_bytes quantity in
     if declared \<noteq> expected then Inl (Dec_ByteCountDisagreesWithQuantity declared expected quantity)
     else and_then (Reader_bytes r declared) (\<lambda>(data, r).
       and_then (ok_or (Bits_from_packed data quantity) (Dec_QuantityOutOfRange quantity 1 MAX_READ_BITS))
         (\<lambda>bits. Inr (bits, r))))"

text \<open>The \<open>for index in 0..quantity\<close> loop both register decoders share.\<close>

fun Reader_word_loop :: "Reader \<Rightarrow> nat \<Rightarrow> nat \<Rightarrow> u16 list \<Rightarrow> DecodeError + u16 list \<times> Reader" where
  "Reader_word_loop r index 0 values = Inr (values, r)"
| "Reader_word_loop r index (Suc n) values =
     and_then (Reader_u16 r) (\<lambda>(value, r). Reader_word_loop r (Suc index) n (values[index := value]))"

definition Reader_read_words :: "Reader \<Rightarrow> u16 \<Rightarrow> DecodeError + Words \<times> Reader" where
  "Reader_read_words r quantity = and_then (Reader_u8 r) (\<lambda>(b, r).
     let declared = unat b; expected = unat quantity * 2 in
     if declared \<noteq> expected then Inl (Dec_ByteCountDisagreesWithQuantity declared expected quantity)
     else and_then (Reader_word_loop r 0 (unat quantity) (replicate (unat MAX_READ_REGISTERS) 0))
       (\<lambda>(values, r).
         and_then (ok_or (Words_new (case get_range values 0 (unat quantity) of Some vs \<Rightarrow> vs | None \<Rightarrow> []))
                     (Dec_QuantityOutOfRange quantity 1 MAX_READ_REGISTERS))
           (\<lambda>words. Inr (words, r))))"

definition Reader_finish :: "Reader \<Rightarrow> DecodeError + unit" where
  "Reader_finish r = (if rd_rest r = [] then Inr () else Inl (Dec_TrailingBytes (length (rd_rest r))))"

definition check_quantity :: "u16 \<Rightarrow> u16 \<Rightarrow> u16 \<Rightarrow> DecodeError + unit" where
  "check_quantity quantity lo hi =
     (if quantity < lo \<or> quantity > hi then Inl (Dec_QuantityOutOfRange quantity lo hi) else Inr ())"

section \<open>Decoding requests\<close>

definition decode_coil_value :: "u16 \<Rightarrow> DecodeError + bool" where
  "decode_coil_value raw =
     (if raw = COIL_ON then Inr True
      else if raw = COIL_OFF then Inr False
      else Inl (Dec_CoilValueNotOnOrOff raw))"

definition decode_read :: "(u16 \<Rightarrow> u16 \<Rightarrow> Request) \<Rightarrow> u16 \<Rightarrow> Reader \<Rightarrow> DecodeError + Request \<times> Reader" where
  "decode_read mk hi r = and_then (Reader_u16 r) (\<lambda>(start, r).
     and_then (Reader_u16 r) (\<lambda>(quantity, r).
       and_then (check_quantity quantity 1 hi) (\<lambda>_. Inr (mk start quantity, r))))"

definition decode_write_single_coil :: "Reader \<Rightarrow> DecodeError + Request \<times> Reader" where
  "decode_write_single_coil r = and_then (Reader_u16 r) (\<lambda>(address, r).
     and_then (Reader_u16 r) (\<lambda>(raw, r).
       and_then (decode_coil_value raw) (\<lambda>on. Inr (Req_WriteSingleCoil address on, r))))"

definition decode_write_single_register :: "Reader \<Rightarrow> DecodeError + Request \<times> Reader" where
  "decode_write_single_register r = and_then (Reader_u16 r) (\<lambda>(address, r).
     and_then (Reader_u16 r) (\<lambda>(value, r). Inr (Req_WriteSingleRegister address value, r)))"

definition decode_write_multiple_coils :: "Reader \<Rightarrow> DecodeError + Request \<times> Reader" where
  "decode_write_multiple_coils r = and_then (Reader_u16 r) (\<lambda>(start, r).
     and_then (Reader_u16 r) (\<lambda>(quantity, r).
       and_then (check_quantity quantity 1 MAX_WRITE_BITS) (\<lambda>_.
         and_then (Reader_u8 r) (\<lambda>(b, r).
           let declared = unat b; expected = packed_bytes quantity in
           if declared \<noteq> expected
           then Inl (Dec_ByteCountDisagreesWithQuantity declared expected quantity)
           else and_then (Reader_bytes r declared) (\<lambda>(data, r).
             and_then (ok_or (Bits_from_packed data quantity) (Dec_QuantityOutOfRange quantity 1 MAX_WRITE_BITS))
               (\<lambda>values. Inr (Req_WriteMultipleCoils start values, r)))))))"

definition decode_write_multiple_registers :: "Reader \<Rightarrow> DecodeError + Request \<times> Reader" where
  "decode_write_multiple_registers r = and_then (Reader_u16 r) (\<lambda>(start, r).
     and_then (Reader_u16 r) (\<lambda>(quantity, r).
       and_then (check_quantity quantity 1 MAX_WRITE_REGISTERS) (\<lambda>_.
         and_then (Reader_u8 r) (\<lambda>(b, r).
           let declared = unat b; expected = unat quantity * 2 in
           if declared \<noteq> expected
           then Inl (Dec_ByteCountDisagreesWithQuantity declared expected quantity)
           else and_then (Reader_word_loop r 0 (unat quantity) (replicate (unat MAX_WRITE_REGISTERS) 0))
             (\<lambda>(values, r).
               and_then (ok_or (Words_new (case get_range values 0 (unat quantity) of Some vs \<Rightarrow> vs | None \<Rightarrow> []))
                           (Dec_QuantityOutOfRange quantity 1 MAX_WRITE_REGISTERS))
                 (\<lambda>values. Inr (Req_WriteMultipleRegisters start values, r)))))))"

definition Request_decode_body :: "Reader \<Rightarrow> DecodeError + Request \<times> Reader" where
  "Request_decode_body r =
     (let function = rd_function r in
      if function = READ_COILS then decode_read Req_ReadCoils MAX_READ_BITS r
      else if function = READ_DISCRETE_INPUTS then decode_read Req_ReadDiscreteInputs MAX_READ_BITS r
      else if function = READ_HOLDING_REGISTERS then decode_read Req_ReadHoldingRegisters MAX_READ_REGISTERS r
      else if function = READ_INPUT_REGISTERS then decode_read Req_ReadInputRegisters MAX_READ_REGISTERS r
      else if function = WRITE_SINGLE_COIL then decode_write_single_coil r
      else if function = WRITE_SINGLE_REGISTER then decode_write_single_register r
      else if function = WRITE_MULTIPLE_COILS then decode_write_multiple_coils r
      else if function = WRITE_MULTIPLE_REGISTERS then decode_write_multiple_registers r
      else if FunctionCode_name function \<noteq> None then Inl (Dec_FunctionNotImplemented function)
      else Inl (Dec_FunctionUnknown function))"

definition Request_decode :: "u8 list \<Rightarrow> DecodeError + Request" where
  "Request_decode bytes = and_then (Reader_new bytes) (\<lambda>r.
     and_then (Request_decode_body r) (\<lambda>(request, r).
       and_then (Reader_finish r) (\<lambda>_. Inr request)))"

section \<open>Decoding responses\<close>

definition decode_pair :: "(u16 \<Rightarrow> u16 \<Rightarrow> Response) \<Rightarrow> Reader \<Rightarrow> DecodeError + Response \<times> Reader" where
  "decode_pair mk r = and_then (Reader_u16 r) (\<lambda>(a, r).
     and_then (Reader_u16 r) (\<lambda>(b, r). Inr (mk a b, r)))"

fun Response_decode_body :: "Request \<Rightarrow> Reader \<Rightarrow> DecodeError + Response \<times> Reader" where
  "Response_decode_body (Req_ReadCoils _ quantity) r =
     and_then (Reader_read_bits r quantity) (\<lambda>(bits, r). Inr (Rsp_ReadCoils bits, r))"
| "Response_decode_body (Req_ReadDiscreteInputs _ quantity) r =
     and_then (Reader_read_bits r quantity) (\<lambda>(bits, r). Inr (Rsp_ReadDiscreteInputs bits, r))"
| "Response_decode_body (Req_ReadHoldingRegisters _ quantity) r =
     and_then (Reader_read_words r quantity) (\<lambda>(words, r). Inr (Rsp_ReadHoldingRegisters words, r))"
| "Response_decode_body (Req_ReadInputRegisters _ quantity) r =
     and_then (Reader_read_words r quantity) (\<lambda>(words, r). Inr (Rsp_ReadInputRegisters words, r))"
| "Response_decode_body (Req_WriteSingleCoil _ _) r =
     and_then (Reader_u16 r) (\<lambda>(address, r). and_then (Reader_u16 r) (\<lambda>(raw, r).
       and_then (decode_coil_value raw) (\<lambda>on. Inr (Rsp_WriteSingleCoil address on, r))))"
| "Response_decode_body (Req_WriteSingleRegister _ _) r = decode_pair Rsp_WriteSingleRegister r"
| "Response_decode_body (Req_WriteMultipleCoils _ _) r = decode_pair Rsp_WriteMultipleCoils r"
| "Response_decode_body (Req_WriteMultipleRegisters _ _) r = decode_pair Rsp_WriteMultipleRegisters r"

definition Response_decode :: "u8 list \<Rightarrow> Request \<Rightarrow> DecodeError + Response" where
  "Response_decode bytes request = and_then (Reader_new bytes) (\<lambda>r.
     let expected = Request_function request in
     if rd_function r = as_exception expected then
       and_then (Reader_u8 r) (\<lambda>(code, r).
         and_then (Reader_finish r) (\<lambda>_. Inr (Rsp_Exception expected code)))
     else if rd_function r \<noteq> expected then
       Inl (Dec_FunctionDoesNotAnswerRequest expected (rd_function r))
     else and_then (Response_decode_body request r) (\<lambda>(response, r).
       and_then (Reader_finish r) (\<lambda>_. Inr response)))"

end
