(* ===== verification/Wire_Codec.thy ===== *)
theory Wire_Codec
  imports Salman_Prelude
begin

text \<open>
  The contract between an encoder and the decoder of the same wire format: every well-formed value
  decodes back to itself, and whatever decodes is well formed.  Requests, responses and serial ADUs
  are interpretations.
\<close>

locale wire_codec =
  fixes wf :: "'a \<Rightarrow> bool"
    and enc :: "'a \<Rightarrow> u8 list"
    and dec :: "u8 list \<Rightarrow> 'e + 'a"
  assumes dec_enc: "wf x \<Longrightarrow> dec (enc x) = Inr x"
    and dec_wf: "dec bs = Inr x \<Longrightarrow> wf x"
begin

lemma enc_inj: "wf x \<Longrightarrow> wf y \<Longrightarrow> enc x = enc y \<Longrightarrow> x = y"
  by (metis dec_enc sum.inject(2))

text \<open>Decoding and encoding again gives a frame that means the same thing.\<close>

lemma dec_normalises: "dec bs = Inr x \<Longrightarrow> dec (enc x) = Inr x"
  by (simp add: dec_enc dec_wf)

lemma dec_surj: "wf x \<longleftrightarrow> (\<exists>bs. dec bs = Inr x)"
  using dec_enc dec_wf by blast

end

end
