(* ===== verification/Modbus_Roundtrip.thy ===== *)
theory Modbus_Roundtrip
  imports Modbus_Codec Wire_Codec
begin

text \<open>
  Correctness of the request and response codec: what each encoder puts on the wire, that it always
  fits a frame, and the round trips.
\<close>

section \<open>What the reader does to well-shaped input\<close>

lemma Reader_bytes_append [simp]:
  "Reader_bytes \<lparr>rd_function = f, rd_rest = xs @ rest\<rparr> (length xs) =
     Inr (xs, \<lparr>rd_function = f, rd_rest = rest\<rparr>)"
  by (simp add: Reader_bytes_def)

lemma Reader_u8_Cons [simp]:
  "Reader_u8 \<lparr>rd_function = f, rd_rest = b # rest\<rparr> = Inr (b, \<lparr>rd_function = f, rd_rest = rest\<rparr>)"
  using Reader_bytes_append [of f "[b]" rest] by (simp add: Reader_u8_def)

lemma Reader_u16_append [simp]:
  "Reader_u16 \<lparr>rd_function = f, rd_rest = to_be_bytes16 w @ rest\<rparr> =
     Inr (w, \<lparr>rd_function = f, rd_rest = rest\<rparr>)"
  by (simp add: Reader_u16_def Reader_bytes_def to_be_bytes16_def numeral_2_eq_2)

lemma Reader_u16_last [simp]:
  "Reader_u16 \<lparr>rd_function = f, rd_rest = to_be_bytes16 w\<rparr> = Inr (w, \<lparr>rd_function = f, rd_rest = []\<rparr>)"
  using Reader_u16_append [of f w "[]"] by simp

lemma Reader_word_loop_append:
  "i + length vs \<le> length arr \<Longrightarrow>
   Reader_word_loop \<lparr>rd_function = f, rd_rest = concat (map to_be_bytes16 vs) @ rest\<rparr> i (length vs) arr =
     Inr (take i arr @ vs @ drop (i + length vs) arr, \<lparr>rd_function = f, rd_rest = rest\<rparr>)"
proof (induction vs arbitrary: i arr)
  case Nil
  then show ?case by simp
next
  case (Cons v vs)
  then have "Reader_word_loop \<lparr>rd_function = f, rd_rest = concat (map to_be_bytes16 vs) @ rest\<rparr>
      (Suc i) (length vs) (arr[i := v]) =
      Inr (take (Suc i) (arr[i := v]) @ vs @ drop (Suc i + length vs) (arr[i := v]),
           \<lparr>rd_function = f, rd_rest = rest\<rparr>)"
    by (intro Cons.IH) simp
  with Cons.prems show ?case by (simp add: take_Suc_update)
qed

lemma Reader_finish_eq_Inr [simp]: "(Reader_finish r = Inr u) = (rd_rest r = [])"
  by (simp add: Reader_finish_def)

lemma Reader_new_Cons [simp]:
  "length bs < MAX_PDU \<Longrightarrow> Reader_new (f # bs) = Inr \<lparr>rd_function = f, rd_rest = bs\<rparr>"
  by (simp add: Reader_new_def)

section \<open>What the reader says about input it accepted\<close>

lemma Reader_bytes_Inr:
  "Reader_bytes r n = Inr (xs, r') \<Longrightarrow>
     rd_rest r = xs @ rd_rest r' \<and> length xs = n \<and> rd_function r' = rd_function r"
  by (auto simp: Reader_bytes_def split: if_splits)

lemma Reader_u8_Inr:
  "Reader_u8 r = Inr (b, r') \<Longrightarrow> rd_rest r = b # rd_rest r' \<and> rd_function r' = rd_function r"
  by (cases "rd_rest r") (auto simp: Reader_u8_def Reader_bytes_def)

lemma Reader_u16_Inr:
  "Reader_u16 r = Inr (w, r') \<Longrightarrow>
     rd_rest r = to_be_bytes16 w @ rd_rest r' \<and> rd_function r' = rd_function r"
proof -
  assume r: "Reader_u16 r = Inr (w, r')"
  then obtain xs r1 where xs: "Reader_bytes r 2 = Inr (xs, r1)"
    unfolding Reader_u16_def and_then_eq_Inr by auto
  then have "length xs = 2" by (simp add: Reader_bytes_Inr)
  then obtain h l where "xs = [h, l]" by (auto simp: numeral_2_eq_2 length_Suc_conv)
  with r xs show ?thesis
    by (auto simp: Reader_u16_def to_be_from_be dest!: Reader_bytes_Inr)
qed

lemma Reader_word_loop_Inr:
  "Reader_word_loop r i n arr = Inr (vs, r') \<Longrightarrow> i + n \<le> length arr \<Longrightarrow>
     length vs = length arr \<and> take i vs = take i arr \<and> rd_function r' = rd_function r \<and>
     rd_rest r = concat (map to_be_bytes16 (take n (drop i vs))) @ rd_rest r'"
proof (induction r i n arr arbitrary: vs r' rule: Reader_word_loop.induct)
  case (1 r i arr)
  then show ?case by simp
next
  case (2 r i n arr)
  then obtain v r1 where v: "Reader_u16 r = Inr (v, r1)"
    and loop: "Reader_word_loop r1 (Suc i) n (arr[i := v]) = Inr (vs, r')" by auto
  have ih: "length vs = length arr" "take (Suc i) vs = take (Suc i) (arr[i := v])"
    "rd_function r' = rd_function r1"
    "rd_rest r1 = concat (map to_be_bytes16 (take n (drop (Suc i) vs))) @ rd_rest r'"
    using "2.IH" [OF loop] "2.prems"(2) by auto
  have i: "i < length vs" using ih(1) "2.prems"(2) by simp
  then have "take i vs @ [vs ! i] = take i arr @ [v]"
    using ih(1,2) by (simp add: take_Suc_update take_Suc_conv_app_nth [symmetric])
  then have "take i vs = take i arr" "vs ! i = v" by auto
  moreover have "drop i vs = vs ! i # drop (Suc i) vs" using i by (simp add: Cons_nth_drop_Suc)
  ultimately show ?case using ih Reader_u16_Inr [OF v] by simp
qed

section \<open>Well-formed requests and the wire format\<close>

fun wf_Request :: "Request \<Rightarrow> bool" where
  "wf_Request (Req_WriteMultipleCoils _ values) = wf_Bits values"
| "wf_Request (Req_WriteMultipleRegisters _ values) = wf_Words values"
| "wf_Request _ = True"

definition sendable :: "Request \<Rightarrow> bool" where
  "sendable r \<longleftrightarrow> wf_Request r \<and> Request_check_encodable r = Inr ()"

text \<open>The bytes each request stands for, as a table of the protocol would give them.\<close>

fun Request_body_wire :: "Request \<Rightarrow> u8 list" where
  "Request_body_wire (Req_ReadCoils s q) = to_be_bytes16 s @ to_be_bytes16 q"
| "Request_body_wire (Req_ReadDiscreteInputs s q) = to_be_bytes16 s @ to_be_bytes16 q"
| "Request_body_wire (Req_ReadHoldingRegisters s q) = to_be_bytes16 s @ to_be_bytes16 q"
| "Request_body_wire (Req_ReadInputRegisters s q) = to_be_bytes16 s @ to_be_bytes16 q"
| "Request_body_wire (Req_WriteSingleCoil a on) = to_be_bytes16 a @ to_be_bytes16 (if on then 0xFF00 else 0)"
| "Request_body_wire (Req_WriteSingleRegister a v) = to_be_bytes16 a @ to_be_bytes16 v"
| "Request_body_wire (Req_WriteMultipleCoils s b) =
     to_be_bytes16 s @ to_be_bytes16 (bits_count b) @ of_nat (packed_bytes (bits_count b)) # Bits_packed b"
| "Request_body_wire (Req_WriteMultipleRegisters s w) =
     to_be_bytes16 s @ to_be_bytes16 (Words_count w) @
       of_nat (2 * unat (words_count w)) # concat (map to_be_bytes16 (Words_values w))"

definition Request_wire :: "Request \<Rightarrow> u8 list" where
  "Request_wire r = Request_function r # Request_body_wire r"

lemma check_limit_iff: "(check_encodable_limit r q hi = Inr ()) = (1 \<le> unat q \<and> unat q \<le> unat hi)"
  by (auto simp: check_encodable_limit_def word_le_nat_alt word_less_nat_alt)

lemma ucast_double_count: "unat c \<le> 125 \<Longrightarrow> ucast (ucast (c :: u8) * 2 :: u16) = (of_nat (2 * unat c) :: u8)"
proof -
  assume c: "unat c \<le> 125"
  then have "unat (ucast (ucast c * 2 :: u16) :: u8) = 2 * unat c"
    by (simp add: unsigned_ucast_eq unat_word_ariths take_bit_nat_eq_self)
  then have "of_nat (unat (ucast (ucast c * 2 :: u16) :: u8)) = (of_nat (2 * unat c) :: u8)" by simp
  then show ?thesis by simp
qed

lemma packed_bytes_write: "unat q \<le> 1968 \<Longrightarrow> packed_bytes q \<le> 246"
  by (simp add: packed_bytes_def)

lemma length_Request_body_wire: "sendable r \<Longrightarrow> length (Request_body_wire r) < MAX_PDU"
  by (cases r) (auto simp: sendable_def check_limit_iff length_concat_be MAX_PDU_def
      dest!: packed_bytes_write)

lemma Request_push_body_wire:
  "wf_Request r \<Longrightarrow> Request_push_body (Pdu_new f) r = push_bytes (Pdu_new f) (Request_body_wire r)"
  by (cases r) (auto simp: pushes COIL_ON_def COIL_OFF_def Words_count_def ucast_double_count wf_Words_def)

lemma Request_encode_wire:
  assumes "sendable r"
  shows "\<exists>pdu. Request_encode r = Inr pdu \<and> wf_Pdu pdu \<and> Pdu_as_bytes pdu = Request_wire r"
  using assms push_bytes_wire [OF length_Request_body_wire [OF assms], of "Request_function r"]
  by (simp add: Request_encode_def sendable_def Request_push_body_wire Request_wire_def Let_def)

lemma Request_encode_Inr_wire:
  "wf_Request r \<Longrightarrow> Request_encode r = Inr pdu \<Longrightarrow> sendable r \<and> Pdu_as_bytes pdu = Request_wire r"
  using Request_encode_wire [of r]
  by (auto simp: sendable_def Request_encode_def split: if_splits)

section \<open>Requests round trip\<close>

lemma check_quantity_eq_Inr [simp]: "(check_quantity q lo hi = Inr u) = (lo \<le> q \<and> q \<le> hi)"
  by (auto simp: check_quantity_def)

lemma one_le_u16: "(1 \<le> (q :: u16)) = (1 \<le> unat q)"
  by (simp add: word_le_nat_alt)

lemma Reader_bits_append:
  "wf_Bits b \<Longrightarrow> bits_count b = q \<Longrightarrow>
   Reader_bytes \<lparr>rd_function = f, rd_rest = Bits_packed b\<rparr> (packed_bytes q) =
     Inr (Bits_packed b, \<lparr>rd_function = f, rd_rest = []\<rparr>)"
  using Reader_bytes_append [of f "Bits_packed b" "[]"] by simp

lemma Reader_words_append:
  assumes "wf_Words w" "unat (words_count w) \<le> n"
  shows "Reader_word_loop \<lparr>rd_function = f, rd_rest = concat (map to_be_bytes16 (Words_values w))\<rparr> 0
      (unat (words_count w)) (replicate n 0) =
     Inr (Words_values w @ replicate (n - unat (words_count w)) 0, \<lparr>rd_function = f, rd_rest = []\<rparr>)"
  using assms Reader_word_loop_append [of 0 "Words_values w" "replicate n 0" f "[]"] by simp

lemma get_range_prefix: "n = length xs \<Longrightarrow> get_range (xs @ ys) 0 n = Some xs"
  by simp

lemma Request_decode_body_wire:
  "sendable r \<Longrightarrow>
   Request_decode_body \<lparr>rd_function = Request_function r, rd_rest = Request_body_wire r\<rparr> =
     Inr (r, \<lparr>rd_function = Request_function r, rd_rest = []\<rparr>)"
proof (cases r)
  case (Req_WriteMultipleCoils s b)
  assume "sendable r"
  with Req_WriteMultipleCoils have "wf_Bits b" "1 \<le> unat (bits_count b)" "unat (bits_count b) \<le> 1968"
    by (auto simp: sendable_def check_limit_iff)
  with packed_bytes_write [of "bits_count b"] show ?thesis using Req_WriteMultipleCoils
    by (simp add: Request_decode_body_def function_codes decode_write_multiple_coils_def
        word_le_nat_alt Reader_bits_append Bits_from_packed_packed)
next
  case (Req_WriteMultipleRegisters s w)
  assume "sendable r"
  with Req_WriteMultipleRegisters have "wf_Words w" "1 \<le> unat (words_count w)" "unat (words_count w) \<le> 123"
    by (auto simp: sendable_def check_limit_iff)
  moreover from this have "unat (2 * words_count w) = 2 * unat (words_count w)"
    by (simp add: unat_word_ariths)
  ultimately show ?thesis using Req_WriteMultipleRegisters
    by (simp add: Request_decode_body_def function_codes decode_write_multiple_registers_def Let_def
        word_le_nat_alt Reader_words_append get_range_prefix Words_new_values)
qed (auto simp: sendable_def check_limit_iff word_le_nat_alt Request_decode_body_def function_codes
       decode_read_def decode_write_single_coil_def decode_write_single_register_def
       decode_coil_value_def COIL_ON_def COIL_OFF_def)

lemma Request_decode_wire: "sendable r \<Longrightarrow> Request_decode (Request_wire r) = Inr r"
  by (simp add: Request_decode_def Request_wire_def length_Request_body_wire Request_decode_body_wire)

text \<open>Whatever decodes is a request the encoder would send.\<close>

lemma decode_read_Inr:
  "decode_read mk hi r = Inr (q, r') \<Longrightarrow> \<exists>s n. q = mk s n \<and> 1 \<le> n \<and> n \<le> hi \<and>
     rd_rest r = to_be_bytes16 s @ to_be_bytes16 n @ rd_rest r'"
  by (fastforce simp: decode_read_def dest!: Reader_u16_Inr)

lemma decode_write_multiple_coils_Inr:
  "decode_write_multiple_coils r = Inr (q, r') \<Longrightarrow> \<exists>s n b data. q = Req_WriteMultipleCoils s b \<and> wf_Bits b \<and>
     bits_count b = n \<and> 1 \<le> n \<and> n \<le> MAX_WRITE_BITS \<and> Bits_from_packed data n = Some b \<and>
     rd_rest r = to_be_bytes16 s @ to_be_bytes16 n @ of_nat (packed_bytes n) # data @ rd_rest r'"
proof -
  assume "decode_write_multiple_coils r = Inr (q, r')"
  then obtain s r1 n r2 b8 r3 data b where d: "Reader_u16 r = Inr (s, r1)" "Reader_u16 r1 = Inr (n, r2)"
    "Reader_u8 r2 = Inr (b8, r3)" "Reader_bytes r3 (packed_bytes n) = Inr (data, r')"
    and b8: "unat b8 = packed_bytes n" and b: "Bits_from_packed data n = Some b"
    and n: "1 \<le> n" "n \<le> MAX_WRITE_BITS" and q: "q = Req_WriteMultipleCoils s b"
    by (auto simp: decode_write_multiple_coils_def Let_def split: if_splits)
  have "b8 = of_nat (packed_bytes n)" using b8 by (metis unat_eq_of_nat_u8)
  moreover have "rd_rest r = to_be_bytes16 s @ to_be_bytes16 n @ b8 # data @ rd_rest r'"
    using d(1,2) [THEN Reader_u16_Inr] d(3) [THEN Reader_u8_Inr] d(4) [THEN Reader_bytes_Inr] by simp
  moreover have "bits_count b = n" using b by (auto simp: Bits_from_packed_eq_Some)
  ultimately show ?thesis using b n q wf_Bits_from_packed by blast
qed

lemma decode_write_multiple_registers_Inr:
  "decode_write_multiple_registers r = Inr (q, r') \<Longrightarrow> \<exists>s w. q = Req_WriteMultipleRegisters s w \<and> wf_Words w \<and>
     1 \<le> Words_count w \<and> Words_count w \<le> MAX_WRITE_REGISTERS \<and>
     rd_rest r = Request_body_wire (Req_WriteMultipleRegisters s w) @ rd_rest r'"
proof -
  assume "decode_write_multiple_registers r = Inr (q, r')"
  then obtain s r1 n r2 b8 r3 vs w where d: "Reader_u16 r = Inr (s, r1)" "Reader_u16 r1 = Inr (n, r2)"
    "Reader_u8 r2 = Inr (b8, r3)" "Reader_word_loop r3 0 (unat n) (replicate 123 0) = Inr (vs, r')"
    and b8: "unat b8 = unat n * 2"
    and w: "Words_new (case get_range vs 0 (unat n) of Some vs \<Rightarrow> vs | None \<Rightarrow> []) = Some w"
    and n: "1 \<le> n" "n \<le> MAX_WRITE_REGISTERS" and q: "q = Req_WriteMultipleRegisters s w"
    by (auto simp: decode_write_multiple_registers_def Let_def split: if_splits)
  have n': "unat n \<le> 123" using n by (simp add: word_le_nat_alt)
  have vs: "length vs = 123" "rd_rest r3 = concat (map to_be_bytes16 (take (unat n) vs)) @ rd_rest r'"
    using Reader_word_loop_Inr [OF d(4)] n' by auto
  then have w': "Words_new (take (unat n) vs) = Some w" using w n' by (simp add: get_range_def)
  then have "Words_values w = take (unat n) vs" "wf_Words w"
    using Words_values_new wf_Words_new by blast+
  with length_Words_values [of w] vs n' have wc: "Words_values w = take (unat n) vs" "wf_Words w"
    "unat (words_count w) = unat n" by simp_all
  then have "Words_count w = n" by (metis unat_Words_count of_nat_unat_u16)
  moreover have "b8 = of_nat (2 * unat (words_count w))"
    using b8 wc by (metis unat_eq_of_nat_u8 mult.commute)
  moreover have "rd_rest r = to_be_bytes16 s @ to_be_bytes16 n @ b8 # rd_rest r3"
    using d(1,2) [THEN Reader_u16_Inr] d(3) [THEN Reader_u8_Inr] by simp
  ultimately have "rd_rest r = Request_body_wire (Req_WriteMultipleRegisters s w) @ rd_rest r'"
    using wc(1) vs(2) by (simp only: Request_body_wire.simps append_assoc append_Cons)
  with n q wc(2) \<open>Words_count w = n\<close> show ?thesis by blast
qed

lemma decode_single_Inr:
  "decode_write_single_coil r = Inr (q, r') \<Longrightarrow>
     \<exists>a on. q = Req_WriteSingleCoil a on \<and> rd_rest r = Request_body_wire q @ rd_rest r'"
  "decode_write_single_register r = Inr (q, r') \<Longrightarrow>
     \<exists>a v. q = Req_WriteSingleRegister a v \<and> rd_rest r = Request_body_wire q @ rd_rest r'"
  by (auto simp: decode_write_single_coil_def decode_write_single_register_def decode_coil_value_def
      COIL_ON_def COIL_OFF_def dest!: Reader_u16_Inr split: if_splits)

text \<open>
  What the decoder accepted is what the encoder would have sent, but for the unused high bits of the
  last byte of a coil payload, which it clears.
\<close>

definition denotes :: "u8 list \<Rightarrow> Request \<Rightarrow> bool" where
  "denotes bs r \<longleftrightarrow> (case r of
       Req_WriteMultipleCoils s b \<Rightarrow>
         (\<exists>data. Bits_from_packed data (bits_count b) = Some b \<and>
            bs = WRITE_MULTIPLE_COILS # to_be_bytes16 s @ to_be_bytes16 (bits_count b) @
                   of_nat (packed_bytes (bits_count b)) # data)
     | _ \<Rightarrow> bs = Request_wire r)"

lemma Request_decode_body_Inr:
  "Request_decode_body rd = Inr (r, rd') \<Longrightarrow> rd_rest rd' = [] \<Longrightarrow>
     sendable r \<and> denotes (rd_function rd # rd_rest rd) r"
  unfolding Request_decode_body_def Let_def denotes_def
  by (auto simp: sendable_def check_limit_iff Request_wire_def word_le_nat_alt
      split: if_splits
      dest!: decode_read_Inr decode_write_multiple_coils_Inr decode_write_multiple_registers_Inr decode_single_Inr)

lemma Reader_new_Inr: "Reader_new bs = Inr r \<Longrightarrow> bs = rd_function r # rd_rest r \<and> length bs \<le> MAX_PDU"
  by (auto simp: Reader_new_def split: if_splits list.splits)

lemma Request_decode_Inr: "Request_decode bs = Inr r \<Longrightarrow> sendable r \<and> denotes bs r"
  by (auto simp: Request_decode_def dest!: Reader_new_Inr Request_decode_body_Inr)

interpretation request_codec: wire_codec sendable Request_wire Request_decode
  by unfold_locales (simp_all add: Request_decode_wire Request_decode_Inr)

section \<open>Responses round trip\<close>

text \<open>Which responses answer a request: those a device may send back to it.\<close>

fun answers :: "Request \<Rightarrow> Response \<Rightarrow> bool" where
  "answers (Req_ReadCoils _ q) (Rsp_ReadCoils b) = (wf_Bits b \<and> bits_count b = q)"
| "answers (Req_ReadDiscreteInputs _ q) (Rsp_ReadDiscreteInputs b) = (wf_Bits b \<and> bits_count b = q)"
| "answers (Req_ReadHoldingRegisters _ q) (Rsp_ReadHoldingRegisters w) = (wf_Words w \<and> Words_count w = q)"
| "answers (Req_ReadInputRegisters _ q) (Rsp_ReadInputRegisters w) = (wf_Words w \<and> Words_count w = q)"
| "answers (Req_WriteSingleCoil _ _) (Rsp_WriteSingleCoil _ _) = True"
| "answers (Req_WriteSingleRegister _ _) (Rsp_WriteSingleRegister _ _) = True"
| "answers (Req_WriteMultipleCoils _ _) (Rsp_WriteMultipleCoils _ _) = True"
| "answers (Req_WriteMultipleRegisters _ _) (Rsp_WriteMultipleRegisters _ _) = True"
| "answers r (Rsp_Exception f _) = (f = Request_function r)"
| "answers _ _ = False"

fun wf_Response :: "Response \<Rightarrow> bool" where
  "wf_Response (Rsp_ReadCoils b) = wf_Bits b"
| "wf_Response (Rsp_ReadDiscreteInputs b) = wf_Bits b"
| "wf_Response (Rsp_ReadHoldingRegisters w) = wf_Words w"
| "wf_Response (Rsp_ReadInputRegisters w) = wf_Words w"
| "wf_Response _ = True"

fun Response_wire :: "Response \<Rightarrow> u8 list" where
  "Response_wire (Rsp_ReadCoils b) = READ_COILS # of_nat (packed_bytes (bits_count b)) # Bits_packed b"
| "Response_wire (Rsp_ReadDiscreteInputs b) =
     READ_DISCRETE_INPUTS # of_nat (packed_bytes (bits_count b)) # Bits_packed b"
| "Response_wire (Rsp_ReadHoldingRegisters w) =
     READ_HOLDING_REGISTERS # of_nat (2 * unat (words_count w)) # concat (map to_be_bytes16 (Words_values w))"
| "Response_wire (Rsp_ReadInputRegisters w) =
     READ_INPUT_REGISTERS # of_nat (2 * unat (words_count w)) # concat (map to_be_bytes16 (Words_values w))"
| "Response_wire (Rsp_WriteSingleCoil a on) =
     WRITE_SINGLE_COIL # to_be_bytes16 a @ to_be_bytes16 (if on then 0xFF00 else 0)"
| "Response_wire (Rsp_WriteSingleRegister a v) = WRITE_SINGLE_REGISTER # to_be_bytes16 a @ to_be_bytes16 v"
| "Response_wire (Rsp_WriteMultipleCoils s q) = WRITE_MULTIPLE_COILS # to_be_bytes16 s @ to_be_bytes16 q"
| "Response_wire (Rsp_WriteMultipleRegisters s q) = WRITE_MULTIPLE_REGISTERS # to_be_bytes16 s @ to_be_bytes16 q"
| "Response_wire (Rsp_Exception f c) = [as_exception f, c]"

lemma answers_wf: "answers r rsp \<Longrightarrow> wf_Response rsp"
  by (induction r rsp rule: answers.induct) auto

lemma packed_bytes_wf: "wf_Bits b \<Longrightarrow> packed_bytes (bits_count b) \<le> 250"
  by (simp add: packed_bytes_le wf_Bits_def)

lemma length_Response_wire: "wf_Response rsp \<Longrightarrow> length (Response_wire rsp) \<le> MAX_PDU"
  by (cases rsp) (auto simp: MAX_PDU_def length_concat_be wf_Words_def dest: packed_bytes_wf)

lemma Response_encode_push:
  "wf_Response rsp \<Longrightarrow> Response_encode rsp = push_bytes (Pdu_new (hd (Response_wire rsp))) (tl (Response_wire rsp))"
  by (cases rsp) (auto simp: pushes COIL_ON_def COIL_OFF_def Words_count_def ucast_double_count wf_Words_def)

lemma Response_encode_wire:
  assumes "wf_Response rsp"
  shows "wf_Pdu (Response_encode rsp)" "Pdu_as_bytes (Response_encode rsp) = Response_wire rsp"
    "\<not> pdu_overflowed (Response_encode rsp)"
proof -
  have "Response_wire rsp \<noteq> []" by (cases rsp) auto
  moreover have "length (tl (Response_wire rsp)) < MAX_PDU"
    using length_Response_wire [OF assms] by (simp add: MAX_PDU_def)
  ultimately show "wf_Pdu (Response_encode rsp)" "Pdu_as_bytes (Response_encode rsp) = Response_wire rsp"
    "\<not> pdu_overflowed (Response_encode rsp)"
    using push_bytes_wire [of "tl (Response_wire rsp)" "hd (Response_wire rsp)"]
    by (simp_all add: Response_encode_push assms)
qed

lemma as_exception_neq: "as_exception (Request_function r) \<noteq> Request_function s"
  by (cases r; cases s) (simp_all add: as_exception_def EXCEPTION_FLAG_def function_codes)

lemma Reader_read_bits_wire:
  "wf_Bits b \<Longrightarrow> bits_count b = q \<Longrightarrow>
   Reader_read_bits \<lparr>rd_function = f, rd_rest = of_nat (packed_bytes q) # Bits_packed b\<rparr> q =
     Inr (b, \<lparr>rd_function = f, rd_rest = []\<rparr>)"
  using packed_bytes_wf [of b]
  by (auto simp: Reader_read_bits_def Let_def Reader_bits_append Bits_from_packed_packed)

lemma Reader_read_words_wire:
  "wf_Words w \<Longrightarrow> Words_count w = q \<Longrightarrow>
   Reader_read_words \<lparr>rd_function = f, rd_rest = of_nat (2 * unat (words_count w)) # concat (map to_be_bytes16 (Words_values w))\<rparr> q =
     Inr (w, \<lparr>rd_function = f, rd_rest = []\<rparr>)"
proof -
  assume w: "wf_Words w" "Words_count w = q"
  then have n: "unat (words_count w) \<le> 125" by (simp add: wf_Words_def)
  then have "unat (of_nat (2 * unat (words_count w)) :: u8) = 2 * unat (words_count w)" by (intro unat_of_nat_u8) simp
  moreover have "unat q = unat (words_count w)" using w by auto
  ultimately show ?thesis using w n
    by (simp add: Reader_read_words_def Let_def Reader_words_append get_range_prefix Words_new_values
        del: of_nat_mult of_nat_unat)
qed

lemma Response_decode_wire:
  assumes "answers req rsp"
  shows "Response_decode (Response_wire rsp) req = Inr rsp"
  using assms length_Response_wire [OF answers_wf [OF assms]] as_exception_neq [of req req]
  by (cases req; cases rsp)
     (auto simp: Response_decode_def Let_def Reader_finish_def Reader_read_bits_wire Reader_read_words_wire [simplified]
        decode_pair_def decode_coil_value_def COIL_ON_def COIL_OFF_def)

lemma Reader_read_bits_Inr:
  "Reader_read_bits r q = Inr (b, r') \<Longrightarrow> wf_Bits b \<and> bits_count b = q"
  by (auto simp: Reader_read_bits_def Let_def dest: wf_Bits_from_packed split: if_splits)
     (auto simp: Bits_from_packed_eq_Some)

lemma Reader_word_loop_length:
  "Reader_word_loop r i n arr = Inr (vs, r') \<Longrightarrow>
     length vs = length arr \<and> length (rd_rest r) = 2 * n + length (rd_rest r')"
proof (induction r i n arr arbitrary: vs r' rule: Reader_word_loop.induct)
  case (2 r i n arr)
  then obtain v r1 where v: "Reader_u16 r = Inr (v, r1)"
    and loop: "Reader_word_loop r1 (Suc i) n (arr[i := v]) = Inr (vs, r')" by auto
  show ?case using "2.IH" [OF loop] Reader_u16_Inr [OF v] by simp
qed simp

lemma Reader_read_words_Inr:
  assumes "Reader_read_words r q = Inr (w, r')" "length (rd_rest r) < MAX_PDU"
  shows "wf_Words w \<and> Words_count w = q"
proof -
  from assms(1) obtain b8 r1 vs where d: "Reader_u8 r = Inr (b8, r1)"
    "Reader_word_loop r1 0 (unat q) (replicate 125 0) = Inr (vs, r')"
    and w: "Words_new (case get_range vs 0 (unat q) of Some vs \<Rightarrow> vs | None \<Rightarrow> []) = Some w"
    by (auto simp: Reader_read_words_def Let_def split: if_splits)
  have vs: "length vs = 125" and q: "unat q \<le> 125"
    using Reader_word_loop_length [OF d(2)] Reader_u8_Inr [OF d(1)] assms(2) by (auto simp: MAX_PDU_def)
  then have w': "Words_new (take (unat q) vs) = Some w" using w by (simp add: get_range_def)
  then have wf: "wf_Words w" by (rule wf_Words_new)
  then have "unat (Words_count w) = unat q"
    using length_Words_values [OF wf] Words_values_new [OF w'] vs q by simp
  then have "Words_count w = q" by (metis of_nat_unat_u16)
  with wf show ?thesis by simp
qed

lemma Response_decode_Inr: "Response_decode bs req = Inr rsp \<Longrightarrow> answers req rsp"
  by (cases req)
     (auto simp: Response_decode_def Let_def decode_pair_def decode_coil_value_def split: if_splits
       dest!: Reader_new_Inr Reader_read_bits_Inr Reader_read_words_Inr)

interpretation response_codec: wire_codec "answers req" Response_wire "\<lambda>bs. Response_decode bs req" for req
  by unfold_locales (simp_all add: Response_decode_wire Response_decode_Inr)

section \<open>Properties\<close>

text \<open>
  Claim C25.  Encoding a request either refuses it for a quantity outside what its function may carry,
  or makes a frame that fits a PDU and decodes to that request: the error for a frame that is too
  long cannot occur, and no request is changed on its way.
\<close>
theorem request_encode_then_decode:
  assumes "wf_Request r"
  shows "case Request_encode r of
     Inr pdu \<Rightarrow> length (Pdu_as_bytes pdu) \<le> MAX_PDU \<and> Request_decode (Pdu_as_bytes pdu) = Inr r
   | Inl e \<Rightarrow> Request_check_encodable r = Inl e \<and> (\<forall>f. e \<noteq> Enc_TooLongForAFrame f)"
proof (cases "Request_check_encodable r")
  case (Inl e)
  then show ?thesis
    by (cases r) (auto simp: Request_encode_def check_encodable_limit_def split: if_splits)
next
  case (Inr u)
  then have s: "sendable r" using assms by (simp add: sendable_def)
  from Request_encode_wire [OF s] obtain p where p: "Request_encode r = Inr p" "wf_Pdu p" "Pdu_as_bytes p = Request_wire r" by blast
  then show ?thesis
    using Request_decode_wire [OF s] length_Pdu_as_bytes [OF p(2)] by (simp add: wf_Pdu_def)
qed

theorem request_encode_then_decode_witness:
  "wf_Request (Req_ReadCoils 19 2001) \<and>
   (case Request_encode (Req_ReadCoils 19 2001) of
     Inr pdu \<Rightarrow> length (Pdu_as_bytes pdu) \<le> MAX_PDU \<and> Request_decode (Pdu_as_bytes pdu) = Inr (Req_ReadCoils 19 2001)
   | Inl e \<Rightarrow> Request_check_encodable (Req_ReadCoils 19 2001) = Inl e \<and> (\<forall>f. e \<noteq> Enc_TooLongForAFrame f)) \<and>
   (case Request_encode (Req_WriteMultipleRegisters 1 \<lparr>words_values = 10 # 258 # replicate 123 0, words_count = 2\<rparr>) of
     Inr pdu \<Rightarrow> length (Pdu_as_bytes pdu) \<le> MAX_PDU \<and> Request_decode (Pdu_as_bytes pdu) =
       Inr (Req_WriteMultipleRegisters 1 \<lparr>words_values = 10 # 258 # replicate 123 0, words_count = 2\<rparr>)
   | Inl e \<Rightarrow> Request_check_encodable (Req_WriteMultipleRegisters 1 \<lparr>words_values = 10 # 258 # replicate 123 0, words_count = 2\<rparr>) =
       Inl e \<and> (\<forall>f. e \<noteq> Enc_TooLongForAFrame f))"
proof -
  have "wf_Request (Req_WriteMultipleRegisters 1 \<lparr>words_values = 10 # 258 # replicate 123 0, words_count = 2\<rparr>)"
    by (simp add: wf_Words_def)
  with request_encode_then_decode [of "Req_ReadCoils 19 2001"]
    request_encode_then_decode [of "Req_WriteMultipleRegisters 1 \<lparr>words_values = 10 # 258 # replicate 123 0, words_count = 2\<rparr>"]
  show ?thesis by simp
qed

text \<open>
  Claim C26.  Whatever bytes the request decoder accepts are a legal request: one the encoder would
  send, whose quantity is within its function's limit and whose bytes are the ones the protocol
  prescribes for it, up to the padding bits of a coil run, which are cleared.
\<close>
theorem request_decode_sound:
  assumes "Request_decode bs = Inr r"
  shows "sendable r \<and> denotes bs r \<and> Request_decode (Request_wire r) = Inr r"
  using assms Request_decode_Inr request_codec.dec_normalises by blast

theorem request_decode_sound_witness:
  "sendable (Req_WriteSingleCoil 172 True) \<and> denotes (Request_wire (Req_WriteSingleCoil 172 True)) (Req_WriteSingleCoil 172 True) \<and>
   Request_decode (Request_wire (Req_WriteSingleCoil 172 True)) = Inr (Req_WriteSingleCoil 172 True)"
  by (rule request_decode_sound) (rule Request_decode_wire, simp add: sendable_def)

text \<open>
  Claim C27.  Responses: a response that answers a request is encoded without overflowing the frame
  and is decoded, against that request, to itself; and whatever is decoded against a request answers
  it, with the quantity the request asked for.
\<close>
theorem response_round_trip:
  "(answers r rsp \<longrightarrow> \<not> pdu_overflowed (Response_encode rsp) \<and> Response_decode (Pdu_as_bytes (Response_encode rsp)) r = Inr rsp) \<and>
   (Response_decode bs r = Inr rsp \<longrightarrow> answers r rsp)"
  using Response_encode_wire [OF answers_wf] Response_decode_wire Response_decode_Inr by auto

theorem response_round_trip_witness:
  "answers (Req_ReadHoldingRegisters 5 2) (Rsp_Exception READ_HOLDING_REGISTERS 2) \<and>
   Response_decode (Pdu_as_bytes (Response_encode (Rsp_Exception READ_HOLDING_REGISTERS 2))) (Req_ReadHoldingRegisters 5 2) =
     Inr (Rsp_Exception READ_HOLDING_REGISTERS 2)"
  using response_round_trip [of "Req_ReadHoldingRegisters 5 2" "Rsp_Exception READ_HOLDING_REGISTERS 2"] by simp

end
