(* ===== verification/Addressed_Table.thy ===== *)
theory Addressed_Table
  imports Salman_Prelude
begin

text \<open>
  The contract of a table addressed by sixteen-bit numbers: a lookup that is \<open>None\<close> outside the
  declared range, and a write that either hits one mapped address or fails and changes nothing.
  \<open>ranged_table\<close> adds the multi-write of a run of values, accepted as a whole or not at all,
  for runs up to the limit one request can carry.
\<close>

locale addressed_table =
  fixes inv :: "'d \<Rightarrow> bool"
    and look :: "'d \<Rightarrow> u16 \<Rightarrow> 'v option"
    and put :: "'d \<Rightarrow> u16 \<Rightarrow> 'v \<Rightarrow> bool \<times> 'd"
  assumes put_inv: "inv d \<Longrightarrow> inv (snd (put d a v))"
    and put_accepted: "inv d \<Longrightarrow> fst (put d a v) \<longleftrightarrow> look d a \<noteq> None"
    and put_look: "inv d \<Longrightarrow> look d a \<noteq> None \<Longrightarrow> look (snd (put d a v)) = (look d)(a \<mapsto> v)"
    and put_refused: "inv d \<Longrightarrow> look d a = None \<Longrightarrow> snd (put d a v) = d"
begin

definition put_run :: "'d \<Rightarrow> (u16 \<times> 'v) list \<Rightarrow> 'd" where
  "put_run d avs = foldl (\<lambda>d (a, v). snd (put d a v)) d avs"

lemma put_dom: "inv d \<Longrightarrow> dom (look (snd (put d a v))) = dom (look d)"
  by (cases "look d a") (auto simp: put_look put_refused)

lemma put_run_inv: "inv d \<Longrightarrow> inv (put_run d avs)"
  by (induction avs arbitrary: d) (auto simp: put_run_def put_inv)

lemma put_run_dom: "inv d \<Longrightarrow> dom (look (put_run d avs)) = dom (look d)"
proof (induction avs arbitrary: d)
  case (Cons av avs)
  then show ?case by (cases av) (simp add: put_run_def put_inv put_dom)
qed (simp add: put_run_def)

lemma put_run_look:
  assumes "inv d" "\<forall>a \<in> fst ` set avs. look d a \<noteq> None"
  shows "look (put_run d avs) = look d ++ map_of (rev avs)"
  using assms
proof (induction avs arbitrary: d)
  case (Cons av avs)
  obtain a v where av: "av = (a, v)" by force
  let ?d = "snd (put d a v)"
  have d: "inv ?d" "look ?d = (look d)(a \<mapsto> v)" using Cons.prems by (auto simp: av put_inv put_look)
  with Cons.prems have "look (put_run ?d avs) = look ?d ++ map_of (rev avs)" by (intro Cons.IH) (auto simp: av)
  with d show ?case by (auto simp: put_run_def av map_add_def fun_eq_iff split: option.splits)
qed (simp add: put_run_def)

end

locale ranged_table = addressed_table inv look put
  for inv :: "'d \<Rightarrow> bool" and look :: "'d \<Rightarrow> u16 \<Rightarrow> 'v option" and put :: "'d \<Rightarrow> u16 \<Rightarrow> 'v \<Rightarrow> bool \<times> 'd" +
  fixes write_run :: "'d \<Rightarrow> u16 \<Rightarrow> 'v list \<Rightarrow> 'd option"
    and limit :: nat
  assumes write_run_accepted: "inv d \<Longrightarrow> vs \<noteq> [] \<Longrightarrow> length vs \<le> limit \<Longrightarrow>
      write_run d s vs \<noteq> None \<longleftrightarrow>
        unat s + length vs \<le> 65536 \<and> (\<forall>i < length vs. look d (s + of_nat i) \<noteq> None)"
    and write_run_inv: "inv d \<Longrightarrow> vs \<noteq> [] \<Longrightarrow> length vs \<le> limit \<Longrightarrow> write_run d s vs = Some d' \<Longrightarrow> inv d'"
    and write_run_look: "inv d \<Longrightarrow> vs \<noteq> [] \<Longrightarrow> length vs \<le> limit \<Longrightarrow> write_run d s vs = Some d' \<Longrightarrow>
      look d' a = (if unat s \<le> unat a \<and> unat a < unat s + length vs then Some (vs ! (unat a - unat s)) else look d a)"
begin

definition addresses :: "u16 \<Rightarrow> nat \<Rightarrow> u16 list" where
  "addresses s n = map (\<lambda>i. s + of_nat i) [0..<n]"

text \<open>An accepted multi-write is the sequence of its single writes.\<close>

lemma write_run_as_puts:
  assumes "inv d" "vs \<noteq> []" "length vs \<le> limit" "write_run d s vs = Some d'"
  shows "look d' = look (put_run d (zip (addresses s (length vs)) vs))"
proof
  fix a
  let ?z = "zip (addresses s (length vs)) vs"
  from write_run_accepted [OF assms(1-3), of s] assms(4) have fits: "unat s + length vs \<le> 65536"
    and mapped: "\<forall>i < length vs. look d (s + of_nat i) \<noteq> None" by auto
  have keys: "map fst ?z = addresses s (length vs)" by (simp add: addresses_def)
  have dist: "distinct (addresses s (length vs))" unfolding addresses_def
  proof (rule distinct_map [THEN iffD2], intro conjI inj_onI)
    fix i j assume ij: "i \<in> set [0..<length vs]" "j \<in> set [0..<length vs]" "s + of_nat i = s + of_nat j"
    from ij(1,2) fits have "unat (s + of_nat i) = unat s + i" "unat (s + of_nat j) = unat s + j"
      by (simp_all add: unat_address_u16)
    with ij(3) show "i = j" by (metis add_left_cancel)
  qed simp
  have "\<forall>a \<in> fst ` set ?z. look d a \<noteq> None"
  proof
    fix x assume "x \<in> fst ` set ?z"
    then have "x \<in> set (addresses s (length vs))" by (auto dest: set_zip_leftD)
    with mapped show "look d x \<noteq> None" by (auto simp: addresses_def)
  qed
  then have "look (put_run d ?z) = look d ++ map_of (rev ?z)" by (rule put_run_look [OF assms(1)])
  also have "map_of (rev ?z) = map_of ?z"
    using dist keys by (simp only: map_of_inject_set [of "rev ?z" ?z] rev_map [symmetric] distinct_rev set_rev)
  finally have run: "look (put_run d ?z) a = (case map_of ?z a of None \<Rightarrow> look d a | Some v \<Rightarrow> Some v)"
    by (simp add: map_add_def)
  show "look d' a = look (put_run d ?z) a"
  proof (cases "unat s \<le> unat a \<and> unat a < unat s + length vs")
    case True
    then obtain i where i: "i < length vs" "unat a = unat s + i" by (metis le_add_diff_inverse nat_add_left_cancel_less)
    then have a: "a = s + of_nat i" 
      using fits by (simp add: word_unat_eq_iff unat_address_u16)
    have "map_of ?z a = Some (vs ! i)"
      using map_of_zip_nth [OF _ dist, of vs i] i by (simp add: a addresses_def)
    with run i show ?thesis by (simp add: write_run_look [OF assms])
  next
    case False
    have "a \<notin> set (addresses s (length vs))"
    proof
      assume "a \<in> set (addresses s (length vs))"
      then obtain i where "i < length vs" "a = s + of_nat i" by (auto simp: addresses_def)
      with fits unat_address_u16 [of s i] False show False by auto
    qed
    then have "map_of ?z a = None" by (simp add: map_of_zip_is_None addresses_def)
    with run False show ?thesis by (auto simp: write_run_look [OF assms])
  qed
qed

end

end
