(* ===== verification/Modbus_Device.thy ===== *)
theory Modbus_Device
  imports Modbus_Roundtrip Addressed_Table
begin

text \<open>
  A server's data model, from \<open>crates/salman-modbus/src/device.rs\<close>: four tables, each a declared run
  of addresses, and \<open>apply\<close>, which answers a request or names the exception.  The four tables meet
  the contract of \<open>Addressed_Table\<close>; the two the network may write also meet the multi-write one.
\<close>

section \<open>Tables and blocks\<close>

datatype Table = DiscreteInputs | Coils | InputRegisters | HoldingRegisters
datatype BitTable = Bit_DiscreteInputs | Bit_Coils
datatype WordTable = Word_InputRegisters | Word_HoldingRegisters

fun Table_of_bits :: "BitTable \<Rightarrow> Table" where
  "Table_of_bits Bit_DiscreteInputs = DiscreteInputs"
| "Table_of_bits Bit_Coils = Coils"

fun Table_of_words :: "WordTable \<Rightarrow> Table" where
  "Table_of_words Word_InputRegisters = InputRegisters"
| "Table_of_words Word_HoldingRegisters = HoldingRegisters"

fun Table_name :: "Table \<Rightarrow> string" where
  "Table_name DiscreteInputs = ''discrete inputs''"
| "Table_name Coils = ''coils''"
| "Table_name InputRegisters = ''input registers''"
| "Table_name HoldingRegisters = ''holding registers''"

fun is_writable_over_the_network :: "Table \<Rightarrow> bool" where
  "is_writable_over_the_network DiscreteInputs = False"
| "is_writable_over_the_network Coils = True"
| "is_writable_over_the_network InputRegisters = False"
| "is_writable_over_the_network HoldingRegisters = True"

text \<open>\<open>BitBlock\<close> and \<open>WordBlock\<close> differ only in the type of their values.\<close>

record 'v Block =
  blk_start :: u16
  blk_values :: "'v list"

type_synonym BitBlock = "bool Block"
type_synonym WordBlock = "u16 Block"

definition offset_within :: "u16 \<Rightarrow> nat \<Rightarrow> u16 \<Rightarrow> u16 \<Rightarrow> nat option" where
  "offset_within base len start count =
     (if unat start < unat base then None
      else let offset = unat start - unat base; stop = offset + unat count
           in if stop > len then None else Some offset)"

text \<open>The body the two readers \<open>bit\<close> and \<open>register\<close> share, and that of the two setters.\<close>

definition Block_get :: "'v Block \<Rightarrow> u16 \<Rightarrow> 'v option" where
  "Block_get block address =
     (case offset_within (blk_start block) (length (blk_values block)) address 1 of
        None \<Rightarrow> None
      | Some offset \<Rightarrow> get (blk_values block) offset)"

definition Block_set :: "'v Block \<Rightarrow> u16 \<Rightarrow> 'v \<Rightarrow> bool \<times> 'v Block" where
  "Block_set block address value =
     (case offset_within (blk_start block) (length (blk_values block)) address 1 of
        None \<Rightarrow> (False, block)
      | Some offset \<Rightarrow>
          (case get (blk_values block) offset of
             Some _ \<Rightarrow> (True, block\<lparr>blk_values := (blk_values block)[offset := value]\<rparr>)
           | None \<Rightarrow> (False, block)))"

text \<open>The copying loop of the two multi-writes; \<open>source index\<close> is \<open>values.get(index)\<close>.\<close>

definition write_slot :: "nat \<Rightarrow> (u16 \<Rightarrow> 'v option) \<Rightarrow> 'v list \<Rightarrow> nat \<Rightarrow> 'v list" where
  "write_slot offset source vs i =
     (case (get vs (offset + i), source (of_nat i)) of
        (Some _, Some value) \<Rightarrow> vs[offset + i := value]
      | _ \<Rightarrow> vs)"

definition write_slots :: "nat \<Rightarrow> (u16 \<Rightarrow> 'v option) \<Rightarrow> u16 \<Rightarrow> 'v list \<Rightarrow> 'v list" where
  "write_slots offset source quantity vs = foldl (write_slot offset source) vs [0..<unat quantity]"

section \<open>The device\<close>

record Device =
  dev_discrete_inputs :: BitBlock
  dev_coils :: BitBlock
  dev_input_registers :: WordBlock
  dev_holding_registers :: WordBlock

definition Device_empty :: Device where
  "Device_empty =
     \<lparr>dev_discrete_inputs = \<lparr>blk_start = 0, blk_values = []\<rparr>,
      dev_coils = \<lparr>blk_start = 0, blk_values = []\<rparr>,
      dev_input_registers = \<lparr>blk_start = 0, blk_values = []\<rparr>,
      dev_holding_registers = \<lparr>blk_start = 0, blk_values = []\<rparr>\<rparr>"

fun bit_block :: "Device \<Rightarrow> BitTable \<Rightarrow> BitBlock" where
  "bit_block d Bit_DiscreteInputs = dev_discrete_inputs d"
| "bit_block d Bit_Coils = dev_coils d"

fun set_bit_block :: "Device \<Rightarrow> BitTable \<Rightarrow> BitBlock \<Rightarrow> Device" where
  "set_bit_block d Bit_DiscreteInputs b = d\<lparr>dev_discrete_inputs := b\<rparr>"
| "set_bit_block d Bit_Coils b = d\<lparr>dev_coils := b\<rparr>"

fun word_block :: "Device \<Rightarrow> WordTable \<Rightarrow> WordBlock" where
  "word_block d Word_InputRegisters = dev_input_registers d"
| "word_block d Word_HoldingRegisters = dev_holding_registers d"

fun set_word_block :: "Device \<Rightarrow> WordTable \<Rightarrow> WordBlock \<Rightarrow> Device" where
  "set_word_block d Word_InputRegisters b = d\<lparr>dev_input_registers := b\<rparr>"
| "set_word_block d Word_HoldingRegisters b = d\<lparr>dev_holding_registers := b\<rparr>"

definition Device_with_bits :: "Device \<Rightarrow> BitTable \<Rightarrow> u16 \<Rightarrow> u16 \<Rightarrow> Device" where
  "Device_with_bits d table start count =
     (let len = min (unat count) (65536 - unat start)
      in set_bit_block d table \<lparr>blk_start = start, blk_values = replicate len False\<rparr>)"

definition Device_with_registers :: "Device \<Rightarrow> WordTable \<Rightarrow> u16 \<Rightarrow> u16 \<Rightarrow> Device" where
  "Device_with_registers d table start count =
     (let len = min (unat count) (65536 - unat start)
      in set_word_block d table \<lparr>blk_start = start, blk_values = replicate len 0\<rparr>)"

definition Device_bit :: "Device \<Rightarrow> BitTable \<Rightarrow> u16 \<Rightarrow> bool option" where
  "Device_bit d table address = Block_get (bit_block d table) address"

definition Device_register :: "Device \<Rightarrow> WordTable \<Rightarrow> u16 \<Rightarrow> u16 option" where
  "Device_register d table address = Block_get (word_block d table) address"

definition Device_set_bit :: "Device \<Rightarrow> BitTable \<Rightarrow> u16 \<Rightarrow> bool \<Rightarrow> bool \<times> Device" where
  "Device_set_bit d table address value =
     (let (ok, block) = Block_set (bit_block d table) address value in (ok, set_bit_block d table block))"

definition Device_set_register :: "Device \<Rightarrow> WordTable \<Rightarrow> u16 \<Rightarrow> u16 \<Rightarrow> bool \<times> Device" where
  "Device_set_register d table address value =
     (let (ok, block) = Block_set (word_block d table) address value in (ok, set_word_block d table block))"

definition check_range :: "u16 \<Rightarrow> u16 \<Rightarrow> ExceptionCode + unit" where
  "check_range quantity hi = (if quantity = 0 \<or> quantity > hi then Inl ILLEGAL_DATA_VALUE else Inr ())"

definition Device_read_bits :: "Device \<Rightarrow> BitTable \<Rightarrow> u16 \<Rightarrow> u16 \<Rightarrow> ExceptionCode + Bits" where
  "Device_read_bits d table start quantity =
     and_then (check_range quantity MAX_READ_BITS) (\<lambda>_.
     let block = bit_block d table in
     and_then (ok_or (offset_within (blk_start block) (length (blk_values block)) start quantity)
       ILLEGAL_DATA_ADDRESS) (\<lambda>offset.
     and_then (ok_or (get_range (blk_values block) offset (offset + unat quantity)) ILLEGAL_DATA_ADDRESS) (\<lambda>taken.
     ok_or (Bits_from_iter_of taken) SERVER_DEVICE_FAILURE)))"

definition Device_read_registers :: "Device \<Rightarrow> WordTable \<Rightarrow> u16 \<Rightarrow> u16 \<Rightarrow> ExceptionCode + Words" where
  "Device_read_registers d table start quantity =
     and_then (check_range quantity MAX_READ_REGISTERS) (\<lambda>_.
     let block = word_block d table in
     and_then (ok_or (offset_within (blk_start block) (length (blk_values block)) start quantity)
       ILLEGAL_DATA_ADDRESS) (\<lambda>offset.
     and_then (ok_or (get_range (blk_values block) offset (offset + unat quantity)) ILLEGAL_DATA_ADDRESS) (\<lambda>taken.
     ok_or (Words_new taken) SERVER_DEVICE_FAILURE)))"

text \<open>\<open>Result::map\<close>.\<close>

definition map_ok :: "('a \<Rightarrow> 'b) \<Rightarrow> 'e + 'a \<Rightarrow> 'e + 'b" where
  "map_ok f m = and_then m (Inr \<circ> f)"

fun Device_apply :: "Device \<Rightarrow> Request \<Rightarrow> (ExceptionCode + Response) \<times> Device" where
  "Device_apply d (Req_ReadCoils start quantity) =
     (map_ok Rsp_ReadCoils (Device_read_bits d Bit_Coils start quantity), d)"
| "Device_apply d (Req_ReadDiscreteInputs start quantity) =
     (map_ok Rsp_ReadDiscreteInputs (Device_read_bits d Bit_DiscreteInputs start quantity), d)"
| "Device_apply d (Req_ReadHoldingRegisters start quantity) =
     (map_ok Rsp_ReadHoldingRegisters (Device_read_registers d Word_HoldingRegisters start quantity), d)"
| "Device_apply d (Req_ReadInputRegisters start quantity) =
     (map_ok Rsp_ReadInputRegisters (Device_read_registers d Word_InputRegisters start quantity), d)"
| "Device_apply d (Req_WriteSingleCoil address on) =
     (let (ok, d') = Device_set_bit d Bit_Coils address on
      in if \<not> ok then (Inl ILLEGAL_DATA_ADDRESS, d') else (Inr (Rsp_WriteSingleCoil address on), d'))"
| "Device_apply d (Req_WriteSingleRegister address value) =
     (let (ok, d') = Device_set_register d Word_HoldingRegisters address value
      in if \<not> ok then (Inl ILLEGAL_DATA_ADDRESS, d') else (Inr (Rsp_WriteSingleRegister address value), d'))"
| "Device_apply d (Req_WriteMultipleCoils start values) =
     (let quantity = bits_count values; block = dev_coils d in
      case and_then (check_range quantity MAX_WRITE_BITS) (\<lambda>_.
        ok_or (offset_within (blk_start block) (length (blk_values block)) start quantity) ILLEGAL_DATA_ADDRESS) of
        Inl e \<Rightarrow> (Inl e, d)
      | Inr offset \<Rightarrow>
          (Inr (Rsp_WriteMultipleCoils start quantity),
           d\<lparr>dev_coils := block\<lparr>blk_values := write_slots offset (Bits_get values) quantity (blk_values block)\<rparr>\<rparr>))"
| "Device_apply d (Req_WriteMultipleRegisters start values) =
     (let quantity = Words_count values; block = dev_holding_registers d in
      case and_then (check_range quantity MAX_WRITE_REGISTERS) (\<lambda>_.
        ok_or (offset_within (blk_start block) (length (blk_values block)) start quantity) ILLEGAL_DATA_ADDRESS) of
        Inl e \<Rightarrow> (Inl e, d)
      | Inr offset \<Rightarrow>
          (Inr (Rsp_WriteMultipleRegisters start quantity),
           d\<lparr>dev_holding_registers :=
               block\<lparr>blk_values := write_slots offset (Words_get values) quantity (blk_values block)\<rparr>\<rparr>))"

section \<open>Blocks as partial maps\<close>

definition wf_Block :: "'v Block \<Rightarrow> bool" where
  "wf_Block b \<longleftrightarrow> unat (blk_start b) + length (blk_values b) \<le> 65536"

definition wf_Device :: "Device \<Rightarrow> bool" where
  "wf_Device d \<longleftrightarrow> wf_Block (dev_discrete_inputs d) \<and> wf_Block (dev_coils d) \<and>
     wf_Block (dev_input_registers d) \<and> wf_Block (dev_holding_registers d)"

lemma offset_within_eq_Some:
  "(offset_within base len s c = Some off) \<longleftrightarrow>
     unat base \<le> unat s \<and> unat s + unat c \<le> unat base + len \<and> off = unat s - unat base"
  by (auto simp: offset_within_def Let_def)

lemma offset_within_eq_None:
  "(offset_within base len s c = None) \<longleftrightarrow> \<not> (unat base \<le> unat s \<and> unat s + unat c \<le> unat base + len)"
  by (auto simp: offset_within_def Let_def)

lemma Block_get_eq:
  "Block_get b a = (if unat (blk_start b) \<le> unat a \<and> unat a < unat (blk_start b) + length (blk_values b)
     then Some (blk_values b ! (unat a - unat (blk_start b))) else None)"
  by (auto simp: Block_get_def offset_within_def Let_def get_def)

lemma Block_set_eq:
  "Block_set b a v = (if unat (blk_start b) \<le> unat a \<and> unat a < unat (blk_start b) + length (blk_values b)
     then (True, b\<lparr>blk_values := (blk_values b)[unat a - unat (blk_start b) := v]\<rparr>) else (False, b))"
  by (auto simp: Block_set_def offset_within_def Let_def get_def)

lemma Block_set_parts [simp]:
  "blk_start (snd (Block_set b a v)) = blk_start b"
  "length (blk_values (snd (Block_set b a v))) = length (blk_values b)"
  "wf_Block b \<Longrightarrow> wf_Block (snd (Block_set b a v))"
  by (auto simp: Block_set_eq wf_Block_def)

lemma Block_set_fst: "fst (Block_set b a v) \<longleftrightarrow> Block_get b a \<noteq> None"
  by (simp add: Block_set_eq Block_get_eq)

lemma Block_get_set:
  "Block_get (snd (Block_set b a v)) = (if Block_get b a = None then Block_get b else (Block_get b)(a \<mapsto> v))"
proof
  fix x
  have "unat x - unat (blk_start b) = unat a - unat (blk_start b) \<longleftrightarrow> x = a"
    if "unat (blk_start b) \<le> unat x" "unat (blk_start b) \<le> unat a"
    using that by (auto simp: word_unat_eq_iff)
  then show "Block_get (snd (Block_set b a v)) x = (if Block_get b a = None then Block_get b else (Block_get b)(a \<mapsto> v)) x"
    by (auto simp: Block_set_eq Block_get_eq nth_list_update)
qed

interpretation block: addressed_table wf_Block Block_get Block_set
proof
  fix b :: "'v Block" and a v
  assume "wf_Block b"
  then show "wf_Block (snd (Block_set b a v))" by simp
  show "fst (Block_set b a v) = (Block_get b a \<noteq> None)" by (rule Block_set_fst)
  show "Block_get b a \<noteq> None \<Longrightarrow> Block_get (snd (Block_set b a v)) = (Block_get b)(a \<mapsto> v)"
    by (auto simp: Block_get_set)
  show "Block_get b a = None \<Longrightarrow> snd (Block_set b a v) = b"
    by (auto simp: Block_set_eq Block_get_eq split: if_splits)
qed

text \<open>The copying loop overwrites one run of the values with the source's.\<close>

lemma write_slots_eq:
  assumes "off + unat q \<le> length vs" "\<And>i. i < unat q \<Longrightarrow> source (of_nat i) = Some (f i)"
  shows "write_slots off source q vs = take off vs @ map f [0..<unat q] @ drop (off + unat q) vs"
proof -
  have "foldl (write_slot off source) vs [0..<n] = take off vs @ map f [0..<n] @ drop (off + n) vs" if "n \<le> unat q" for n
    using that
  proof (induction n)
    case (Suc n)
    let ?m = "take off vs @ map f [0..<n] @ drop (off + n) vs"
    have n: "off + n < length vs" using Suc.prems assms(1) by simp
    have "write_slot off source ?m n = ?m[off + n := f n]"
      using n assms(2) [of n] Suc.prems by (simp add: write_slot_def get_def)
    also have "\<dots> = take off vs @ map f [0..<Suc n] @ drop (off + Suc n) vs"
      using n by (simp add: list_update_append Cons_nth_drop_Suc [symmetric])
    finally show ?case using Suc by simp
  qed simp
  then show ?thesis by (simp add: write_slots_def)
qed

lemma Block_get_write_slots:
  assumes "offset_within (blk_start b) (length (blk_values b)) s q = Some off"
    and "\<And>i. i < unat q \<Longrightarrow> source (of_nat i) = Some (f i)"
  shows "Block_get (b\<lparr>blk_values := write_slots off source q (blk_values b)\<rparr>) a =
    (if unat s \<le> unat a \<and> unat a < unat s + unat q then Some (f (unat a - unat s)) else Block_get b a)"
    and "length (write_slots off source q (blk_values b)) = length (blk_values b)"
proof -
  from assms(1) have off: "unat (blk_start b) \<le> unat s" "off = unat s - unat (blk_start b)"
    "off + unat q \<le> length (blk_values b)" by (auto simp: offset_within_eq_Some)
  have w: "write_slots off source q (blk_values b) =
      take off (blk_values b) @ map f [0..<unat q] @ drop (off + unat q) (blk_values b)"
    by (rule write_slots_eq [OF off(3)]) (rule assms(2))
  from w show "length (write_slots off source q (blk_values b)) = length (blk_values b)" using off(3) by simp
  with off(3) show "Block_get (b\<lparr>blk_values := write_slots off source q (blk_values b)\<rparr>) a =
    (if unat s \<le> unat a \<and> unat a < unat s + unat q then Some (f (unat a - unat s)) else Block_get b a)"
    using off(1,2) by (auto simp: w [unfolded off(2)] Block_get_eq nth_append)
qed

section \<open>Devices as four tables\<close>

text \<open>
  What a multi-write of a run of values does, as the network asks for it: the values are packed
  into a request and the request applied.
\<close>

definition write_coils :: "Device \<Rightarrow> u16 \<Rightarrow> bool list \<Rightarrow> Device option" where
  "write_coils d start vs =
     (case Bits_from_iter_of vs of
        None \<Rightarrow> None
      | Some b \<Rightarrow> (case Device_apply d (Req_WriteMultipleCoils start b) of
          (Inr _, d') \<Rightarrow> Some d' | (Inl _, _) \<Rightarrow> None))"

definition write_registers :: "Device \<Rightarrow> u16 \<Rightarrow> u16 list \<Rightarrow> Device option" where
  "write_registers d start vs =
     (case Words_new vs of
        None \<Rightarrow> None
      | Some w \<Rightarrow> (case Device_apply d (Req_WriteMultipleRegisters start w) of
          (Inr _, d') \<Rightarrow> Some d' | (Inl _, _) \<Rightarrow> None))"

lemma bit_block_set [simp]: "bit_block (set_bit_block d t b) t' = (if t = t' then b else bit_block d t')"
  "word_block (set_bit_block d t b) w = word_block d w"
  by (cases t; cases t'; simp; fail)+ (cases t; cases w; simp)

lemma word_block_set [simp]: "word_block (set_word_block d t b) t' = (if t = t' then b else word_block d t')"
  "bit_block (set_word_block d t b) w = bit_block d w"
  by (cases t; cases t'; simp; fail)+ (cases t; cases w; simp)

lemma set_block_same [simp]: "set_bit_block d t (bit_block d t) = d" "set_word_block d u (word_block d u) = d"
  by (cases t; simp; fail)+ (cases u; simp)

lemma wf_Device_blocks: "wf_Device d \<longleftrightarrow> (\<forall>t. wf_Block (bit_block d t)) \<and> (\<forall>t. wf_Block (word_block d t))"
  by (metis (full_types) BitTable.exhaust WordTable.exhaust bit_block.simps word_block.simps wf_Device_def)

lemma Device_set_eq:
  "Device_set_bit d t a v = (let r = Block_set (bit_block d t) a v in (fst r, set_bit_block d t (snd r)))"
  "Device_set_register d u a x = (let r = Block_set (word_block d u) a x in (fst r, set_word_block d u (snd r)))"
  by (simp_all add: Device_set_bit_def Device_set_register_def Let_def split_def)

interpretation bits: addressed_table wf_Device "\<lambda>d. Device_bit d t" "\<lambda>d. Device_set_bit d t" for t
  by unfold_locales
    (auto simp: Device_set_eq Device_bit_def [abs_def] Let_def wf_Device_blocks Block_set_fst block.put_look block.put_refused)

interpretation registers: addressed_table wf_Device "\<lambda>d. Device_register d t" "\<lambda>d. Device_set_register d t" for t
  by unfold_locales
    (auto simp: Device_set_eq Device_register_def [abs_def] Let_def wf_Device_blocks Block_set_fst block.put_look block.put_refused)

text \<open>Writing one table leaves the other three alone.\<close>

lemma Device_set_frame:
  "t' \<noteq> t \<Longrightarrow> Device_bit (snd (Device_set_bit d t a v)) t' = Device_bit d t'"
  "Device_register (snd (Device_set_bit d t a v)) u = Device_register d u"
  "u' \<noteq> u \<Longrightarrow> Device_register (snd (Device_set_register d u a x)) u' = Device_register d u'"
  "Device_bit (snd (Device_set_register d u a x)) t = Device_bit d t"
  by (auto simp: Device_set_eq Device_bit_def [abs_def] Device_register_def [abs_def] Let_def)

section \<open>The multi-writes\<close>

lemma Bits_get_Some: "wf_Bits b \<Longrightarrow> i < unat (bits_count b) \<Longrightarrow> Bits_get b (of_nat i) = Some (bit_at (bits_packed b) i)"
  using unat_of_nat_u16 [OF order.strict_trans [OF _ unat_u16_bound], of i "bits_count b"]
  by (simp add: Bits_get_bit_at word_less_nat_alt)

lemma Words_get_Some: "wf_Words w \<Longrightarrow> i < unat (words_count w) \<Longrightarrow> Words_get w (of_nat i) = Some (Words_values w ! i)"
  using unat_of_nat_u16 [OF order.strict_trans [OF _ unat_u16_bound], of i "Words_count w"]
  by (simp add: Words_get_eq)

lemma wf_Block_write_slots:
  assumes "wf_Block b" "offset_within (blk_start b) (length (blk_values b)) s q = Some off"
    and "\<And>i. i < unat q \<Longrightarrow> source (of_nat i) = Some (f i)"
  shows "wf_Block (b\<lparr>blk_values := write_slots off source q (blk_values b)\<rparr>)"
  using assms(1) Block_get_write_slots(2) [OF assms(2), of source f, OF assms(3)] by (simp add: wf_Block_def)

text \<open>Whether a request's whole run of addresses is in a block.\<close>

definition mapped_run :: "'v Block \<Rightarrow> u16 \<Rightarrow> u16 \<Rightarrow> bool" where
  "mapped_run b s q \<longleftrightarrow> unat (blk_start b) \<le> unat s \<and> unat s + unat q \<le> unat (blk_start b) + length (blk_values b)"

lemma offset_within_mapped:
  "offset_within (blk_start b) (length (blk_values b)) s q =
     (if mapped_run b s q then Some (unat s - unat (blk_start b)) else None)"
  by (auto simp: mapped_run_def offset_within_def Let_def)

lemma mapped_run_iff:
  assumes "wf_Block b" "q \<noteq> 0"
  shows "mapped_run b s q \<longleftrightarrow>
    unat s + unat q \<le> 65536 \<and> (\<forall>i < unat q. Block_get b (s + of_nat i) \<noteq> None)"
proof
  assume m: "mapped_run b s q"
  with assms(1) have fits: "unat s + unat q \<le> 65536" by (auto simp: mapped_run_def wf_Block_def)
  moreover have "Block_get b (s + of_nat i) \<noteq> None" if "i < unat q" for i
    using m that unat_address_u16 [of s i] fits by (simp add: Block_get_eq mapped_run_def)
  ultimately show "unat s + unat q \<le> 65536 \<and> (\<forall>i < unat q. Block_get b (s + of_nat i) \<noteq> None)" by simp
next
  assume r: "unat s + unat q \<le> 65536 \<and> (\<forall>i < unat q. Block_get b (s + of_nat i) \<noteq> None)"
  obtain n where n: "unat q = Suc n" using assms(2) by (metis not0_implies_Suc unat_eq_zero)
  have at: "Block_get b (s + of_nat i) \<noteq> None" if "i < Suc n" for i using r n that by auto
  have ends: "Block_get b (s + of_nat 0) \<noteq> None" "Block_get b (s + of_nat n) \<noteq> None" by (rule at; simp)+
  have "unat (s + of_nat n) = unat s + n" using r n by (intro unat_address_u16) simp
  with ends n show "mapped_run b s q"
    by (auto simp: Block_get_eq mapped_run_def split: if_splits)
qed

lemma apply_WriteMultipleCoils:
  "Device_apply d (Req_WriteMultipleCoils s b) =
     (if bits_count b = 0 \<or> MAX_WRITE_BITS < bits_count b then (Inl ILLEGAL_DATA_VALUE, d)
      else if \<not> mapped_run (dev_coils d) s (bits_count b) then (Inl ILLEGAL_DATA_ADDRESS, d)
      else (Inr (Rsp_WriteMultipleCoils s (bits_count b)),
        d\<lparr>dev_coils := dev_coils d\<lparr>blk_values :=
          write_slots (unat s - unat (blk_start (dev_coils d))) (Bits_get b) (bits_count b) (blk_values (dev_coils d))\<rparr>\<rparr>))"
  by (simp add: check_range_def Let_def offset_within_mapped)

lemma apply_WriteMultipleRegisters:
  "Device_apply d (Req_WriteMultipleRegisters s w) =
     (if Words_count w = 0 \<or> MAX_WRITE_REGISTERS < Words_count w then (Inl ILLEGAL_DATA_VALUE, d)
      else if \<not> mapped_run (dev_holding_registers d) s (Words_count w) then (Inl ILLEGAL_DATA_ADDRESS, d)
      else (Inr (Rsp_WriteMultipleRegisters s (Words_count w)),
        d\<lparr>dev_holding_registers := dev_holding_registers d\<lparr>blk_values :=
          write_slots (unat s - unat (blk_start (dev_holding_registers d))) (Words_get w) (Words_count w)
            (blk_values (dev_holding_registers d))\<rparr>\<rparr>))"
  by (simp add: check_range_def Let_def offset_within_mapped)

declare Device_apply.simps(7,8) [simp del]

lemma Device_bit_write_coils:
  assumes "wf_Bits b" "wf_Device d" "Device_apply d (Req_WriteMultipleCoils s b) = (Inr r, d')"
  shows "wf_Device d'"
    "Device_bit d' Bit_Coils a = (if unat s \<le> unat a \<and> unat a < unat s + unat (bits_count b)
       then Some (bit_at (bits_packed b) (unat a - unat s)) else Device_bit d Bit_Coils a)"
proof -
  let ?b = "dev_coils d"
  from assms(3) have m: "offset_within (blk_start ?b) (length (blk_values ?b)) s (bits_count b) =
      Some (unat s - unat (blk_start ?b))"
    and d': "d' = d\<lparr>dev_coils := ?b\<lparr>blk_values :=
          write_slots (unat s - unat (blk_start ?b)) (Bits_get b) (bits_count b) (blk_values ?b)\<rparr>\<rparr>"
    by (auto simp: apply_WriteMultipleCoils offset_within_mapped split: if_splits)
  have wf: "wf_Block ?b" using assms(2) by (simp add: wf_Device_def)
  from wf_Block_write_slots [OF wf m, of "Bits_get b" "bit_at (bits_packed b)"] Bits_get_Some [OF assms(1)] assms(2)
  show "wf_Device d'" by (simp add: d' wf_Device_def)
  from Block_get_write_slots(1) [OF m, of "Bits_get b" "bit_at (bits_packed b)"] Bits_get_Some [OF assms(1)]
  show "Device_bit d' Bit_Coils a = (if unat s \<le> unat a \<and> unat a < unat s + unat (bits_count b)
       then Some (bit_at (bits_packed b) (unat a - unat s)) else Device_bit d Bit_Coils a)"
    by (simp add: d' Device_bit_def)
qed

lemma Device_register_write_registers:
  assumes "wf_Words w" "wf_Device d" "Device_apply d (Req_WriteMultipleRegisters s w) = (Inr r, d')"
  shows "wf_Device d'"
    "Device_register d' Word_HoldingRegisters a = (if unat s \<le> unat a \<and> unat a < unat s + unat (words_count w)
       then Some (Words_values w ! (unat a - unat s)) else Device_register d Word_HoldingRegisters a)"
proof -
  let ?b = "dev_holding_registers d"
  from assms(3) have m: "offset_within (blk_start ?b) (length (blk_values ?b)) s (Words_count w) =
      Some (unat s - unat (blk_start ?b))"
    and d': "d' = d\<lparr>dev_holding_registers := ?b\<lparr>blk_values :=
          write_slots (unat s - unat (blk_start ?b)) (Words_get w) (Words_count w) (blk_values ?b)\<rparr>\<rparr>"
    by (auto simp: apply_WriteMultipleRegisters offset_within_mapped split: if_splits)
  have wf: "wf_Block ?b" using assms(2) by (simp add: wf_Device_def)
  from wf_Block_write_slots [OF wf m, of "Words_get w" "nth (Words_values w)"] Words_get_Some [OF assms(1)] assms(2)
  show "wf_Device d'" by (simp add: d' wf_Device_def)
  from Block_get_write_slots(1) [OF m, of "Words_get w" "nth (Words_values w)"] Words_get_Some [OF assms(1)]
  show "Device_register d' Word_HoldingRegisters a = (if unat s \<le> unat a \<and> unat a < unat s + unat (words_count w)
       then Some (Words_values w ! (unat a - unat s)) else Device_register d Word_HoldingRegisters a)"
    by (simp add: d' Device_register_def)
qed

lemma unat_le_u16: "(a \<le> b) = (unat a \<le> unat b)" for a b :: u16
  by (rule word_le_nat_alt)

lemma Bits_from_iter_of_run:
  assumes "length vs \<le> unat MAX_WRITE_BITS"
  obtains b where "Bits_from_iter_of vs = Some b" "wf_Bits b" "unat (bits_count b) = length vs"
    "\<And>i. i < length vs \<Longrightarrow> bit_at (bits_packed b) i = vs ! i"
  using assms Bits_from_iter_of_Some [of vs] by (simp add: MAX_WRITE_BITS_def) blast

lemma coils_ranged:
  assumes wf: "wf_Device d" and vs: "vs \<noteq> []" "length vs \<le> unat MAX_WRITE_BITS"
  shows "(write_coils d s vs \<noteq> None) = (unat s + length vs \<le> 65536 \<and>
        (\<forall>i<length vs. Device_bit d Bit_Coils (s + word_of_nat i) \<noteq> None))"
    and "write_coils d s vs = Some d' \<Longrightarrow> wf_Device d'"
    and "write_coils d s vs = Some d' \<Longrightarrow> Device_bit d' Bit_Coils a =
       (if unat s \<le> unat a \<and> unat a < unat s + length vs then Some (vs ! (unat a - unat s)) else Device_bit d Bit_Coils a)"
proof -
  from Bits_from_iter_of_run [OF vs(2)] obtain b where b: "Bits_from_iter_of vs = Some b" "wf_Bits b"
    "unat (bits_count b) = length vs" "\<And>i. i < length vs \<Longrightarrow> bit_at (bits_packed b) i = vs ! i" by blast
  have q: "bits_count b \<noteq> 0" "\<not> MAX_WRITE_BITS < bits_count b"
    using vs b(3) by (auto simp: word_less_nat_alt simp flip: unat_eq_zero)
  then have "write_coils d s vs \<noteq> None \<longleftrightarrow> mapped_run (dev_coils d) s (bits_count b)"
    by (simp add: write_coils_def b(1) apply_WriteMultipleCoils)
  with wf q(1) b(3) show "(write_coils d s vs \<noteq> None) = (unat s + length vs \<le> 65536 \<and>
      (\<forall>i<length vs. Device_bit d Bit_Coils (s + word_of_nat i) \<noteq> None))"
    by (simp add: mapped_run_iff wf_Device_def Device_bit_def)
  assume "write_coils d s vs = Some d'"
  then obtain r where w: "Device_apply d (Req_WriteMultipleCoils s b) = (Inr r, d')"
    by (auto simp: write_coils_def b(1) split: prod.splits sum.splits)
  from Device_bit_write_coils [OF b(2) wf w] show "wf_Device d'" by blast
  from Device_bit_write_coils(2) [OF b(2) wf w, of a] b(3,4)
  show "Device_bit d' Bit_Coils a = (if unat s \<le> unat a \<and> unat a < unat s + length vs
      then Some (vs ! (unat a - unat s)) else Device_bit d Bit_Coils a)" by auto
qed

interpretation coils: ranged_table wf_Device "\<lambda>d. Device_bit d Bit_Coils" "\<lambda>d. Device_set_bit d Bit_Coils"
  write_coils "unat MAX_WRITE_BITS"
  by unfold_locales (rule coils_ranged; assumption)+

lemma holding_ranged:
  assumes wf: "wf_Device d" and vs: "vs \<noteq> []" "length vs \<le> unat MAX_WRITE_REGISTERS"
  shows "(write_registers d s vs \<noteq> None) = (unat s + length vs \<le> 65536 \<and>
        (\<forall>i<length vs. Device_register d Word_HoldingRegisters (s + word_of_nat i) \<noteq> None))"
    and "write_registers d s vs = Some d' \<Longrightarrow> wf_Device d'"
    and "write_registers d s vs = Some d' \<Longrightarrow> Device_register d' Word_HoldingRegisters a =
       (if unat s \<le> unat a \<and> unat a < unat s + length vs then Some (vs ! (unat a - unat s)) else Device_register d Word_HoldingRegisters a)"
proof -
  from vs(2) obtain b where b: "Words_new vs = Some b" by (simp add: Words_new_eq_Some MAX_WRITE_REGISTERS_def)
  then have n: "wf_Words b" "Words_values b = vs" "unat (words_count b) = length vs"
    using wf_Words_new Words_values_new vs(2) by (auto simp: Words_new_eq_Some unat_of_nat_u8)
  have q: "Words_count b \<noteq> 0" "\<not> MAX_WRITE_REGISTERS < Words_count b"
    using vs n(3) by (auto simp: word_less_nat_alt simp flip: unat_eq_zero)
  then have "write_registers d s vs \<noteq> None \<longleftrightarrow> mapped_run (dev_holding_registers d) s (Words_count b)"
    by (simp add: write_registers_def b apply_WriteMultipleRegisters)
  with wf q(1) n(3) show "(write_registers d s vs \<noteq> None) = (unat s + length vs \<le> 65536 \<and>
      (\<forall>i<length vs. Device_register d Word_HoldingRegisters (s + word_of_nat i) \<noteq> None))"
    by (simp add: mapped_run_iff wf_Device_def Device_register_def)
  assume "write_registers d s vs = Some d'"
  then obtain r where w: "Device_apply d (Req_WriteMultipleRegisters s b) = (Inr r, d')"
    by (auto simp: write_registers_def b split: prod.splits sum.splits)
  from Device_register_write_registers [OF n(1) wf w] show "wf_Device d'" by blast
  from Device_register_write_registers(2) [OF n(1) wf w, of a] n(2,3)
  show "Device_register d' Word_HoldingRegisters a = (if unat s \<le> unat a \<and> unat a < unat s + length vs
      then Some (vs ! (unat a - unat s)) else Device_register d Word_HoldingRegisters a)" by auto
qed

interpretation holding: ranged_table wf_Device "\<lambda>d. Device_register d Word_HoldingRegisters"
  "\<lambda>d. Device_set_register d Word_HoldingRegisters" write_registers "unat MAX_WRITE_REGISTERS"
  by unfold_locales (rule holding_ranged; assumption)+

section \<open>Reads and the whole of \<open>apply\<close>\<close>

lemma check_range_cases: "check_range q hi = (if 0 < q \<and> q \<le> hi then Inr () else Inl ILLEGAL_DATA_VALUE)"
  by (auto simp: check_range_def word_gt_0 not_less)

definition run_of :: "'v Block \<Rightarrow> u16 \<Rightarrow> u16 \<Rightarrow> 'v list" where
  "run_of b s q = take (unat q) (drop (unat s - unat (blk_start b)) (blk_values b))"

lemma get_range_mapped:
  assumes "mapped_run b s q"
  shows "get_range (blk_values b) (unat s - unat (blk_start b)) (unat s - unat (blk_start b) + unat q) = Some (run_of b s q)"
    and "length (run_of b s q) = unat q"
  using assms by (auto simp: mapped_run_def get_range_def run_of_def)

lemma Block_get_mapped:
  assumes "wf_Block b" "mapped_run b s q" "i < unat q"
  shows "Block_get b (s + of_nat i) = Some (run_of b s q ! i)"
proof -
  have "unat (s + of_nat i) = unat s + i"
    using assms by (intro unat_address_u16) (simp add: mapped_run_def wf_Block_def)
  with assms show ?thesis by (auto simp: Block_get_eq mapped_run_def run_of_def)
qed

text \<open>A read answers with exactly the mapped values, or says which of the two checks failed.\<close>

lemma Device_read_bits_refused:
  "\<not> (0 < q \<and> q \<le> MAX_READ_BITS) \<Longrightarrow> Device_read_bits d t s q = Inl ILLEGAL_DATA_VALUE"
  "0 < q \<and> q \<le> MAX_READ_BITS \<Longrightarrow> \<not> mapped_run (bit_block d t) s q \<Longrightarrow>
     Device_read_bits d t s q = Inl ILLEGAL_DATA_ADDRESS"
  by (auto simp: Device_read_bits_def check_range_cases offset_within_mapped Let_def)

lemma Device_read_registers_refused:
  "\<not> (0 < q \<and> q \<le> MAX_READ_REGISTERS) \<Longrightarrow> Device_read_registers d u s q = Inl ILLEGAL_DATA_VALUE"
  "0 < q \<and> q \<le> MAX_READ_REGISTERS \<Longrightarrow> \<not> mapped_run (word_block d u) s q \<Longrightarrow>
     Device_read_registers d u s q = Inl ILLEGAL_DATA_ADDRESS"
  by (auto simp: Device_read_registers_def check_range_cases offset_within_mapped Let_def)

lemma Device_read_bits_served:
  assumes "wf_Device d" "0 < q" "q \<le> MAX_READ_BITS" "mapped_run (bit_block d t) s q"
  obtains b where "Device_read_bits d t s q = Inr b" "wf_Bits b" "bits_count b = q"
    "\<And>i. i < unat q \<Longrightarrow> Bits_get b (of_nat i) = Device_bit d t (s + of_nat i)"
proof -
  note r = get_range_mapped [OF assms(4)]
  have "unat q \<le> 2000" using assms(3) by (simp add: count_le_2000)
  with r(2) Bits_from_iter_of_Some [of "run_of (bit_block d t) s q"] obtain b where
    b: "Bits_from_iter_of (run_of (bit_block d t) s q) = Some b" "wf_Bits b" "unat (bits_count b) = unat q"
      "\<And>i. i < unat q \<Longrightarrow> bit_at (bits_packed b) i = run_of (bit_block d t) s q ! i" by metis
  have q: "bits_count b = q" using b(3) by (simp add: word_unat_eq_iff)
  show ?thesis
  proof (rule that [of b])
    show "Device_read_bits d t s q = Inr b"
      using assms by (simp add: Device_read_bits_def check_range_cases offset_within_mapped Let_def r(1) b(1))
    show "Bits_get b (of_nat i) = Device_bit d t (s + of_nat i)" if "i < unat q" for i
      using that assms b(3,4) Bits_get_Some [OF b(2)] Block_get_mapped [of "bit_block d t" s q i]
      by (simp add: Device_bit_def wf_Device_blocks)
  qed (use b q in auto)
qed

lemma Device_read_registers_served:
  assumes "wf_Device d" "0 < q" "q \<le> MAX_READ_REGISTERS" "mapped_run (word_block d u) s q"
  obtains w where "Device_read_registers d u s q = Inr w" "wf_Words w" "Words_count w = q"
    "\<And>i. i < unat q \<Longrightarrow> Words_get w (of_nat i) = Device_register d u (s + of_nat i)"
proof -
  note r = get_range_mapped [OF assms(4)]
  have q125: "unat q \<le> 125" using assms(3) by (simp add: MAX_READ_REGISTERS_def word_le_nat_alt)
  with r(2) obtain w where w: "Words_new (run_of (word_block d u) s q) = Some w" by (simp add: Words_new_eq_Some)
  with q125 r(2) have c: "unat (words_count w) = unat q" by (auto simp: Words_new_eq_Some unsigned_ucast_eq take_bit_nat_eq_self)
  note v = Words_values_new [OF w] wf_Words_new [OF w]
  have q: "Words_count w = q" using c by (simp add: word_unat_eq_iff)
  show ?thesis
  proof (rule that [of w])
    show "Device_read_registers d u s q = Inr w"
      using assms by (simp add: Device_read_registers_def check_range_cases offset_within_mapped Let_def r(1) w)
    show "Words_get w (of_nat i) = Device_register d u (s + of_nat i)" if "i < unat q" for i
      using that assms c Words_get_Some [OF v(2)] Block_get_mapped [of "word_block d u" s q i]
      by (simp add: Device_register_def wf_Device_blocks v(1))
  qed (use v q in auto)
qed

lemma Device_set_refused:
  "\<not> fst (Device_set_bit d t a v) \<Longrightarrow> snd (Device_set_bit d t a v) = d"
  "\<not> fst (Device_set_register d u a x) \<Longrightarrow> snd (Device_set_register d u a x) = d"
  by (auto simp: Device_set_eq Let_def Block_set_eq split: if_splits)

lemma apply_WriteSingleCoil:
  "Device_apply d (Req_WriteSingleCoil a v) =
     (if Device_bit d Bit_Coils a = None then (Inl ILLEGAL_DATA_ADDRESS, d)
      else (Inr (Rsp_WriteSingleCoil a v), snd (Device_set_bit d Bit_Coils a v)))"
  using Device_set_refused(1) [of d Bit_Coils a v]
  by (auto simp: Device_set_eq Let_def Device_bit_def Block_set_fst split_def)

lemma apply_WriteSingleRegister:
  "Device_apply d (Req_WriteSingleRegister a v) =
     (if Device_register d Word_HoldingRegisters a = None then (Inl ILLEGAL_DATA_ADDRESS, d)
      else (Inr (Rsp_WriteSingleRegister a v), snd (Device_set_register d Word_HoldingRegisters a v)))"
  using Device_set_refused(2) [of d Word_HoldingRegisters a v]
  by (auto simp: Device_set_eq Let_def Device_register_def Block_set_fst split_def)

declare Device_apply.simps(5,6) [simp del]

lemmas apply_writes = apply_WriteSingleCoil apply_WriteSingleRegister apply_WriteMultipleCoils apply_WriteMultipleRegisters

lemma apply_read_unchanged: "\<not> Request_is_write r \<Longrightarrow> snd (Device_apply d r) = d"
  by (cases r) simp_all

lemma apply_error_unchanged: "fst (Device_apply d r) = Inl e \<Longrightarrow> snd (Device_apply d r) = d"
  by (cases r) (auto simp: apply_writes split: if_splits)

lemma apply_wf:
  assumes "wf_Device d" "wf_Request r"
  shows "wf_Device (snd (Device_apply d r))"
proof (cases "fst (Device_apply d r)")
  case (Inl e)
  then show ?thesis using assms(1) by (simp add: apply_error_unchanged)
next
  case (Inr rsp)
  then have a: "Device_apply d r = (Inr rsp, snd (Device_apply d r))" by (metis prod.collapse)
  show ?thesis
  proof (cases r)
    case (Req_WriteMultipleCoils s b)
    with assms a show ?thesis using Device_bit_write_coils(1) by auto
  next
    case (Req_WriteMultipleRegisters s w)
    with assms a show ?thesis using Device_register_write_registers(1) by auto
  qed (use assms in \<open>simp_all add: apply_writes bits.put_inv registers.put_inv\<close>)
qed

section \<open>The tables a client sees\<close>

text \<open>
  The abstract server: four partial maps from addresses to values.  A request is refused for its
  quantity, then for its addresses, and otherwise answered from, or written to, the maps.
\<close>

record Tables =
  tab_discrete_inputs :: "u16 \<Rightarrow> bool option"
  tab_coils :: "u16 \<Rightarrow> bool option"
  tab_input_registers :: "u16 \<Rightarrow> u16 option"
  tab_holding_registers :: "u16 \<Rightarrow> u16 option"

datatype Answer = Bit_values "bool list" | Word_values "u16 list" | Written

definition tables_of :: "Device \<Rightarrow> Tables" where
  "tables_of d = \<lparr>tab_discrete_inputs = Device_bit d Bit_DiscreteInputs, tab_coils = Device_bit d Bit_Coils,
     tab_input_registers = Device_register d Word_InputRegisters,
     tab_holding_registers = Device_register d Word_HoldingRegisters\<rparr>"

fun answer_of :: "Response \<Rightarrow> Answer" where
  "answer_of (Rsp_ReadCoils b) = Bit_values (Bits_iter b)"
| "answer_of (Rsp_ReadDiscreteInputs b) = Bit_values (Bits_iter b)"
| "answer_of (Rsp_ReadHoldingRegisters w) = Word_values (Words_values w)"
| "answer_of (Rsp_ReadInputRegisters w) = Word_values (Words_values w)"
| "answer_of _ = Written"

definition all_mapped :: "(u16 \<Rightarrow> 'v option) \<Rightarrow> u16 \<Rightarrow> nat \<Rightarrow> bool" where
  "all_mapped m s n \<longleftrightarrow> unat s + n \<le> 65536 \<and> list_all (\<lambda>i. m (s + of_nat i) \<noteq> None) [0..<n]"

definition items :: "(u16 \<Rightarrow> 'v option) \<Rightarrow> u16 \<Rightarrow> nat \<Rightarrow> 'v list" where
  "items m s n = map (\<lambda>i. the (m (s + of_nat i))) [0..<n]"

definition store_run :: "(u16 \<Rightarrow> 'v option) \<Rightarrow> u16 \<Rightarrow> 'v list \<Rightarrow> u16 \<Rightarrow> 'v option" where
  "store_run m s vs a = (if unat s \<le> unat a \<and> unat a < unat s + length vs then Some (vs ! (unat a - unat s)) else m a)"

definition guarded :: "u16 \<Rightarrow> u16 \<Rightarrow> (u16 \<Rightarrow> 'v option) \<Rightarrow> u16 \<Rightarrow> Answer \<Rightarrow> Tables \<Rightarrow> Tables \<Rightarrow>
    (ExceptionCode + Answer) \<times> Tables" where
  "guarded q hi m s ans t t' =
     (if q = 0 \<or> hi < q then (Inl ILLEGAL_DATA_VALUE, t)
      else if \<not> all_mapped m s (unat q) then (Inl ILLEGAL_DATA_ADDRESS, t) else (Inr ans, t'))"

fun tables_apply :: "Tables \<Rightarrow> Request \<Rightarrow> (ExceptionCode + Answer) \<times> Tables" where
  "tables_apply t (Req_ReadCoils s q) =
     guarded q MAX_READ_BITS (tab_coils t) s (Bit_values (items (tab_coils t) s (unat q))) t t"
| "tables_apply t (Req_ReadDiscreteInputs s q) =
     guarded q MAX_READ_BITS (tab_discrete_inputs t) s (Bit_values (items (tab_discrete_inputs t) s (unat q))) t t"
| "tables_apply t (Req_ReadHoldingRegisters s q) =
     guarded q MAX_READ_REGISTERS (tab_holding_registers t) s (Word_values (items (tab_holding_registers t) s (unat q))) t t"
| "tables_apply t (Req_ReadInputRegisters s q) =
     guarded q MAX_READ_REGISTERS (tab_input_registers t) s (Word_values (items (tab_input_registers t) s (unat q))) t t"
| "tables_apply t (Req_WriteSingleCoil a on) =
     guarded 1 1 (tab_coils t) a Written t (t\<lparr>tab_coils := (tab_coils t)(a \<mapsto> on)\<rparr>)"
| "tables_apply t (Req_WriteSingleRegister a v) =
     guarded 1 1 (tab_holding_registers t) a Written t (t\<lparr>tab_holding_registers := (tab_holding_registers t)(a \<mapsto> v)\<rparr>)"
| "tables_apply t (Req_WriteMultipleCoils s b) =
     guarded (bits_count b) MAX_WRITE_BITS (tab_coils t) s Written t
       (t\<lparr>tab_coils := store_run (tab_coils t) s (Bits_iter b)\<rparr>)"
| "tables_apply t (Req_WriteMultipleRegisters s w) =
     guarded (Words_count w) MAX_WRITE_REGISTERS (tab_holding_registers t) s Written t
       (t\<lparr>tab_holding_registers := store_run (tab_holding_registers t) s (Words_values w)\<rparr>)"

lemma Bits_iter_eq: "wf_Bits b \<Longrightarrow> Bits_iter b = map (bit_at (bits_packed b)) [0..<unat (bits_count b)]"
proof -
  assume b: "wf_Bits b"
  have "List.map_filter (\<lambda>i. Bits_get b (of_nat i)) is = map (bit_at (bits_packed b)) is"
    if "\<forall>i \<in> set is. i < unat (bits_count b)" for "is"
    using that by (induction "is") (auto simp: Bits_get_Some [OF b] List.map_filter_simps)
  then show ?thesis by (simp add: Bits_iter_def)
qed

lemma all_mapped_iff: "wf_Block b \<Longrightarrow> q \<noteq> 0 \<Longrightarrow> all_mapped (Block_get b) s (unat q) \<longleftrightarrow> mapped_run b s q"
  by (auto simp: mapped_run_iff all_mapped_def list_all_iff)

lemma all_mapped_1: "all_mapped m a (Suc 0) \<longleftrightarrow> m a \<noteq> None"
proof -
  have "unat a \<le> 65535" using unat_u16_bound [of a] by linarith
  then show ?thesis by (simp add: all_mapped_def)
qed

text \<open>The eight cases of the refinement.\<close>

lemma refine_read_bits:
  assumes "wf_Device d"
  shows "map_sum id (Bit_values \<circ> Bits_iter) (Device_read_bits d t s q) =
     fst (guarded q MAX_READ_BITS (Device_bit d t) s (Bit_values (items (Device_bit d t) s (unat q))) x y)"
proof (cases "0 < q \<and> q \<le> MAX_READ_BITS")
  case False
  then show ?thesis by (auto simp: Device_read_bits_refused guarded_def word_gt_0 not_le)
next
  case q: True
  have m: "all_mapped (Device_bit d t) s (unat q) \<longleftrightarrow> mapped_run (bit_block d t) s q"
    using assms q by (simp add: all_mapped_iff Device_bit_def [abs_def] wf_Device_blocks word_gt_0)
  show ?thesis
  proof (cases "mapped_run (bit_block d t) s q")
    case False
    with q m show ?thesis by (auto simp: Device_read_bits_refused guarded_def word_gt_0)
  next
    case True
    with q assms obtain b where b: "Device_read_bits d t s q = Inr b" "wf_Bits b" "bits_count b = q"
      "\<And>i. i < unat q \<Longrightarrow> Bits_get b (of_nat i) = Device_bit d t (s + of_nat i)"
      using Device_read_bits_served by metis
    have "Bits_iter b = items (Device_bit d t) s (unat q)"
      using b(4) Bits_get_Some [OF b(2)] by (simp add: Bits_iter_eq [OF b(2)] b(3) items_def flip: b(4))
    with q m True b show ?thesis by (auto simp: guarded_def word_gt_0)
  qed
qed

lemma refine_read_registers:
  assumes "wf_Device d"
  shows "map_sum id (Word_values \<circ> Words_values) (Device_read_registers d u s q) =
     fst (guarded q MAX_READ_REGISTERS (Device_register d u) s (Word_values (items (Device_register d u) s (unat q))) x y)"
proof (cases "0 < q \<and> q \<le> MAX_READ_REGISTERS")
  case False
  then show ?thesis by (auto simp: Device_read_registers_refused guarded_def word_gt_0 not_le)
next
  case q: True
  have m: "all_mapped (Device_register d u) s (unat q) \<longleftrightarrow> mapped_run (word_block d u) s q"
    using assms q by (simp add: all_mapped_iff Device_register_def [abs_def] wf_Device_blocks word_gt_0)
  show ?thesis
  proof (cases "mapped_run (word_block d u) s q")
    case False
    with q m show ?thesis by (auto simp: Device_read_registers_refused guarded_def word_gt_0)
  next
    case True
    with q assms obtain w where w: "Device_read_registers d u s q = Inr w" "wf_Words w" "Words_count w = q"
      "\<And>i. i < unat q \<Longrightarrow> Words_get w (of_nat i) = Device_register d u (s + of_nat i)"
      using Device_read_registers_served by metis
    have n: "length (Words_values w) = unat q" using w(2,3) by auto
    have "Words_values w = items (Device_register d u) s (unat q)"
    proof (rule nth_equalityI)
      fix i assume "i < length (Words_values w)"
      with n w(2,4) Words_get_Some [OF w(2), of i] show "Words_values w ! i = items (Device_register d u) s (unat q) ! i"
        by (simp add: items_def flip: w(4))
    qed (simp add: n items_def)
    with q m True w show ?thesis by (auto simp: guarded_def word_gt_0)
  qed
qed

lemma guarded_snd: "snd (guarded q hi m s ans t t) = t"
  by (simp add: guarded_def)

lemma map_ok_sum: "map_sum id g (map_ok f m) = map_sum id (g \<circ> f) m"
  by (cases m) (simp_all add: map_ok_def)

lemma store_run_Device:
  assumes "wf_Device d"
  shows "wf_Bits b \<Longrightarrow> Device_apply d (Req_WriteMultipleCoils s b) = (Inr r, d') \<Longrightarrow>
      Device_bit d' Bit_Coils = store_run (Device_bit d Bit_Coils) s (Bits_iter b)"
    and "wf_Words w \<Longrightarrow> Device_apply d (Req_WriteMultipleRegisters s w) = (Inr r', d'') \<Longrightarrow>
      Device_register d'' Word_HoldingRegisters = store_run (Device_register d Word_HoldingRegisters) s (Words_values w)"
  using assms by (auto simp: fun_eq_iff store_run_def Device_bit_write_coils Device_register_write_registers Bits_iter_eq)

definition abs_result :: "(ExceptionCode + Response) \<times> Device \<Rightarrow> (ExceptionCode + Answer) \<times> Tables" where
  "abs_result r = (map_sum id answer_of (fst r), tables_of (snd r))"

lemma refine_read: "\<not> Request_is_write r \<Longrightarrow> wf_Device d \<Longrightarrow> abs_result (Device_apply d r) = tables_apply (tables_of d) r"
  by (cases r; simp add: abs_result_def map_ok_sum prod_eq_iff guarded_snd)
    (simp_all add: tables_of_def refine_read_bits [unfolded comp_def] refine_read_registers [unfolded comp_def] comp_def)

lemma refine_write:
  assumes "Request_is_write r" "wf_Device d" "wf_Request r"
  shows "abs_result (Device_apply d r) = tables_apply (tables_of d) r"
proof (cases r)
  case (Req_WriteSingleCoil a v)
  with assms show ?thesis
    by (auto simp: apply_writes abs_result_def guarded_def all_mapped_1 tables_of_def bits.put_look Device_set_frame)
next
  case (Req_WriteSingleRegister a v)
  with assms show ?thesis
    by (auto simp: apply_writes abs_result_def guarded_def all_mapped_1 tables_of_def registers.put_look Device_set_frame)
next
  case (Req_WriteMultipleCoils s b)
  let ?r = "Device_apply d (Req_WriteMultipleCoils s b)"
  have run: "fst ?r = Inr x \<Longrightarrow> Device_bit (snd ?r) Bit_Coils = store_run (Device_bit d Bit_Coils) s (Bits_iter b)" for x
    using store_run_Device(1) [OF assms(2), of b s x "snd ?r"] assms(3) Req_WriteMultipleCoils by (cases ?r) simp
  have frame: "Device_bit (snd ?r) Bit_DiscreteInputs = Device_bit d Bit_DiscreteInputs" "Device_register (snd ?r) u = Device_register d u" for u
    by (cases u; simp add: apply_writes Device_bit_def [abs_def] Device_register_def [abs_def])+
  have m: "q \<noteq> 0 \<Longrightarrow> all_mapped (Device_bit d Bit_Coils) s (unat q) = mapped_run (dev_coils d) s q" for q
    using assms(2) by (simp add: all_mapped_iff Device_bit_def [abs_def] wf_Device_def)
  consider (quantity) "bits_count b = 0 \<or> MAX_WRITE_BITS < bits_count b"
    | (address) "bits_count b \<noteq> 0" "\<not> MAX_WRITE_BITS < bits_count b" "\<not> mapped_run (dev_coils d) s (bits_count b)"
    | (served) "bits_count b \<noteq> 0" "\<not> MAX_WRITE_BITS < bits_count b" "mapped_run (dev_coils d) s (bits_count b)" by blast
  then show ?thesis
  proof cases
    case served
    then have ok: "fst ?r = Inr (Rsp_WriteMultipleCoils s (bits_count b))" by (simp add: apply_writes)
    with served show ?thesis
      using run [OF ok] frame m [of "bits_count b"] by (simp add: Req_WriteMultipleCoils abs_result_def tables_of_def guarded_def)
  qed (use m [of "bits_count b"] in \<open>auto simp: Req_WriteMultipleCoils apply_writes abs_result_def tables_of_def guarded_def\<close>)
next
  case (Req_WriteMultipleRegisters s w)
  let ?r = "Device_apply d (Req_WriteMultipleRegisters s w)"
  have run: "fst ?r = Inr x \<Longrightarrow> Device_register (snd ?r) Word_HoldingRegisters = store_run (Device_register d Word_HoldingRegisters) s (Words_values w)" for x
    using store_run_Device(2) [OF assms(2), of w s x "snd ?r"] assms(3) Req_WriteMultipleRegisters by (cases ?r) simp
  have frame: "Device_register (snd ?r) Word_InputRegisters = Device_register d Word_InputRegisters" "Device_bit (snd ?r) t = Device_bit d t" for t
    by (cases t; simp add: apply_writes Device_bit_def [abs_def] Device_register_def [abs_def])+
  have m: "q \<noteq> 0 \<Longrightarrow> all_mapped (Device_register d Word_HoldingRegisters) s (unat q) = mapped_run (dev_holding_registers d) s q" for q
    using assms(2) by (simp add: all_mapped_iff Device_register_def [abs_def] wf_Device_def)
  consider (quantity) "Words_count w = 0 \<or> MAX_WRITE_REGISTERS < Words_count w"
    | (address) "Words_count w \<noteq> 0" "\<not> MAX_WRITE_REGISTERS < Words_count w" "\<not> mapped_run (dev_holding_registers d) s (Words_count w)"
    | (served) "Words_count w \<noteq> 0" "\<not> MAX_WRITE_REGISTERS < Words_count w" "mapped_run (dev_holding_registers d) s (Words_count w)" by blast
  then show ?thesis
  proof cases
    case served
    then have ok: "fst ?r = Inr (Rsp_WriteMultipleRegisters s (Words_count w))" by (simp add: apply_writes)
    with served show ?thesis
      using run [OF ok] frame m [of "Words_count w"] by (simp add: Req_WriteMultipleRegisters abs_result_def tables_of_def guarded_def)
  qed (use m [of "Words_count w"] in \<open>auto simp: Req_WriteMultipleRegisters apply_writes abs_result_def tables_of_def guarded_def\<close>)
qed (use assms in simp_all)

lemma Device_read_Inr:
  assumes "wf_Device d"
  shows "Device_read_bits d t s q = Inr b \<Longrightarrow> wf_Bits b \<and> bits_count b = q"
    and "Device_read_registers d u s q = Inr w \<Longrightarrow> wf_Words w \<and> Words_count w = q"
proof -
  assume b: "Device_read_bits d t s q = Inr b"
  with Device_read_bits_refused [of q d t s] have "0 < q" "q \<le> MAX_READ_BITS" "mapped_run (bit_block d t) s q" by auto
  from Device_read_bits_served [OF assms this] b show "wf_Bits b \<and> bits_count b = q" by auto
next
  assume w: "Device_read_registers d u s q = Inr w"
  with Device_read_registers_refused [of q d u s] have "0 < q" "q \<le> MAX_READ_REGISTERS" "mapped_run (word_block d u) s q"
    by auto
  from Device_read_registers_served [OF assms this] w show "wf_Words w \<and> Words_count w = q" by auto
qed

lemma apply_answers:
  assumes "wf_Device d" "fst (Device_apply d r) = Inr rsp"
  shows "answers r rsp"
  using assms by (cases r) (auto simp: apply_writes map_ok_def Device_read_Inr split: if_splits)

section \<open>Properties\<close>

text \<open>
  Claim C5.  The device refines the abstract server: applying any request to the blocks of the device
  is applying it to the four partial maps they stand for.  A request is refused for its quantity
  before its addresses are looked at; every address of a run must be mapped for any of it to be read
  or written; a refused request and a read change nothing; a write changes the mapped run and no
  other address of any table; no other exception is possible.
\<close>
theorem device_refines_tables:
  assumes "wf_Device d" "wf_Request r"
  shows "abs_result (Device_apply d r) = tables_apply (tables_of d) r \<and> wf_Device (snd (Device_apply d r))"
  using assms refine_read refine_write apply_wf by blast

theorem device_refines_tables_witness:
  "abs_result (Device_apply (Device_with_registers Device_empty Word_HoldingRegisters 100 4) (Req_ReadHoldingRegisters 102 3)) =
     tables_apply (tables_of (Device_with_registers Device_empty Word_HoldingRegisters 100 4)) (Req_ReadHoldingRegisters 102 3) \<and>
   wf_Device (snd (Device_apply (Device_with_registers Device_empty Word_HoldingRegisters 100 4) (Req_ReadHoldingRegisters 102 3)))"
  by (rule device_refines_tables)
    (simp_all add: Device_with_registers_def Device_empty_def wf_Device_def wf_Block_def)

text \<open>
  A multi-write is the sequence of its single writes: when the device accepts a run of
  coils or of registers, the table a client sees afterwards is the one the single writes of the
  values, in order, would have left, and it is accepted exactly when each of them would be and the
  run does not pass the last address.
\<close>
theorem multi_write_is_single_writes:
  assumes "wf_Device d" "vs \<noteq> []" "length vs \<le> 123" "write_registers d s vs = Some d'"
  shows "Device_register d' Word_HoldingRegisters =
     Device_register (foldl (\<lambda>d (a, v). snd (Device_apply d (Req_WriteSingleRegister a v))) d
       (zip (map (\<lambda>i. s + of_nat i) [0..<length vs]) vs)) Word_HoldingRegisters"
proof -
  have single: "snd (Device_apply d (Req_WriteSingleRegister a v)) = snd (Device_set_register d Word_HoldingRegisters a v)" for d a v
    by (simp add: Device_apply.simps split_def Let_def)
  have "length vs \<le> unat MAX_WRITE_REGISTERS" using assms(3) by (simp add: MAX_WRITE_REGISTERS_def)
  from holding.write_run_as_puts [OF assms(1,2) this assms(4)] show ?thesis
    by (simp add: single registers.put_run_def holding.addresses_def)
qed

theorem multi_write_is_single_writes_witness:
  "\<exists>d'. write_registers (Device_with_registers Device_empty Word_HoldingRegisters 100 4) 101 [7, 8] = Some d' \<and>
    Device_register d' Word_HoldingRegisters =
     Device_register (foldl (\<lambda>d (a, v). snd (Device_apply d (Req_WriteSingleRegister a v)))
       (Device_with_registers Device_empty Word_HoldingRegisters 100 4)
       (zip (map (\<lambda>i. 101 + of_nat i) [0..<length [7 :: u16, 8]]) [7, 8])) Word_HoldingRegisters"
proof -
  let ?d = "Device_with_registers Device_empty Word_HoldingRegisters 100 4"
  have wf: "wf_Device ?d" by (simp add: Device_with_registers_def Device_empty_def wf_Device_def wf_Block_def)
  have "write_registers ?d 101 [7, 8] \<noteq> None"
    using holding.write_run_accepted [OF wf, of "[7, 8]" 101]
    by (simp add: MAX_WRITE_REGISTERS_def less_Suc_eq Device_register_def Block_get_eq Device_with_registers_def Device_empty_def)
  then obtain d' where d': "write_registers ?d 101 [7, 8] = Some d'" by blast
  from multi_write_is_single_writes [OF wf _ _ d'] d' show ?thesis by simp
qed

end
