(* ===== verification/Modbus_Tcp.thy ===== *)
theory Modbus_Tcp
  imports Modbus_Pdu Wire_Codec
begin

text \<open>
  Modbus TCP, from \<open>crates/salman-modbus/src/tcp.rs\<close>: the MBAP header and the framer that cuts a
  byte stream into application data units.  \<open>Framer_advance\<close> is one call; \<open>pump\<close> is the loop the
  module prescribes for its callers (and that \<open>serve\<close> and \<open>exchange\<close> run).  The refinement lemma
  says that pumping chunks through the bounded buffer is parsing the concatenated stream, so no
  segmentation of the stream can change what is delivered.
\<close>

section \<open>The MBAP header\<close>

definition MIN_MBAP_LENGTH :: u16 where "MIN_MBAP_LENGTH = 2"
definition MAX_MBAP_LENGTH :: u16 where "MAX_MBAP_LENGTH = 1 + of_nat MAX_PDU"

record MbapHeader =
  mbap_transaction :: u16
  mbap_protocol :: u16
  mbap_length :: u16
  mbap_unit :: u8

definition MbapHeader_for_pdu :: "u16 \<Rightarrow> u8 \<Rightarrow> nat \<Rightarrow> MbapHeader" where
  "MbapHeader_for_pdu transaction un n =
     \<lparr>mbap_transaction = transaction, mbap_protocol = 0, mbap_length = of_nat n + 1, mbap_unit = un\<rparr>"

definition MbapHeader_to_bytes :: "MbapHeader \<Rightarrow> u8 list" where
  "MbapHeader_to_bytes h =
     to_be_bytes16 (mbap_transaction h) @ to_be_bytes16 (mbap_protocol h) @
     to_be_bytes16 (mbap_length h) @ [mbap_unit h]"

text \<open>The source takes a \<open>[u8; 7]\<close>; the length of the list is that type's.\<close>

definition MbapHeader_from_bytes :: "u8 list \<Rightarrow> MbapHeader" where
  "MbapHeader_from_bytes b =
     \<lparr>mbap_transaction = from_be_bytes16 (b ! 0) (b ! 1),
      mbap_protocol = from_be_bytes16 (b ! 2) (b ! 3),
      mbap_length = from_be_bytes16 (b ! 4) (b ! 5),
      mbap_unit = b ! 6\<rparr>"

definition MbapHeader_claimed_pdu_len :: "MbapHeader \<Rightarrow> nat option" where
  "MbapHeader_claimed_pdu_len h =
     (if mbap_length h < MIN_MBAP_LENGTH \<or> mbap_length h > MAX_MBAP_LENGTH then None
      else Some (unat (mbap_length h) - 1))"

record TcpAdu =
  tcp_header :: MbapHeader
  tcp_pdu :: Pdu

definition TcpAdu_new :: "u16 \<Rightarrow> u8 \<Rightarrow> Pdu \<Rightarrow> TcpAdu" where
  "TcpAdu_new transaction un pdu =
     \<lparr>tcp_header = MbapHeader_for_pdu transaction un (pdu_len pdu), tcp_pdu = pdu\<rparr>"

definition TcpAdu_to_vec :: "TcpAdu \<Rightarrow> u8 list" where
  "TcpAdu_to_vec a = MbapHeader_to_bytes (tcp_header a) @ Pdu_as_bytes (tcp_pdu a)"

datatype FrameError =
    ProtocolNotModbus u16
  | LengthOutOfRange u16 u16 u16

fun FrameError_is_fatal :: "FrameError \<Rightarrow> bool" where
  "FrameError_is_fatal (ProtocolNotModbus _) = True"
| "FrameError_is_fatal (LengthOutOfRange _ _ _) = True"

section \<open>The framer\<close>

record Framer =
  fr_buffer :: "u8 list"
  fr_len :: nat
  fr_poisoned :: "FrameError option"

definition LENGTH_KNOWN_AT :: nat where "LENGTH_KNOWN_AT = 6"

definition Framer_new :: Framer where
  "Framer_new = \<lparr>fr_buffer = replicate MAX_TCP_ADU 0, fr_len = 0, fr_poisoned = None\<rparr>"

definition Framer_is_poisoned :: "Framer \<Rightarrow> bool" where
  "Framer_is_poisoned f \<longleftrightarrow> fr_poisoned f \<noteq> None"

definition Framer_byte :: "Framer \<Rightarrow> nat \<Rightarrow> u8" where
  "Framer_byte f index = (case get (fr_buffer f) index of Some b \<Rightarrow> b | None \<Rightarrow> 0)"

text \<open>The body of the copying loop in \<open>take\<close>, and \<open>take\<close> itself.\<close>

definition Framer_store :: "Framer \<Rightarrow> u8 \<Rightarrow> Framer" where
  "Framer_store f byte =
     (case get (fr_buffer f) (fr_len f) of
        Some _ \<Rightarrow> f\<lparr>fr_buffer := (fr_buffer f)[fr_len f := byte], fr_len := fr_len f + 1\<rparr>
      | None \<Rightarrow> f)"

definition Framer_take :: "Framer \<Rightarrow> u8 list \<Rightarrow> nat \<Rightarrow> nat \<times> Framer" where
  "Framer_take f input target =
     (if fr_len f \<ge> target then (0, f)
      else let wanted = target - fr_len f; taken = min wanted (length input)
           in (taken, foldl Framer_store f (take taken input)))"

definition Framer_poison :: "Framer \<Rightarrow> FrameError \<Rightarrow> Framer" where
  "Framer_poison f e = f\<lparr>fr_poisoned := Some e\<rparr>"

definition Framer_advance :: "Framer \<Rightarrow> u8 list \<Rightarrow> nat \<times> (FrameError + TcpAdu option) \<times> Framer" where
  "Framer_advance f input =
     (case fr_poisoned f of
        Some e \<Rightarrow> (0, Inl e, f)
      | None \<Rightarrow>
          (let (n1, f) = Framer_take f input LENGTH_KNOWN_AT in
           if fr_len f < LENGTH_KNOWN_AT then (n1, Inr None, f) else
           let protocol = from_be_bytes16 (Framer_byte f 2) (Framer_byte f 3) in
           if protocol \<noteq> 0 then
             (n1, Inl (ProtocolNotModbus protocol), Framer_poison f (ProtocolNotModbus protocol)) else
           let len = from_be_bytes16 (Framer_byte f 4) (Framer_byte f 5);
               bad = LengthOutOfRange len MIN_MBAP_LENGTH MAX_MBAP_LENGTH in
           if \<not> (MIN_MBAP_LENGTH \<le> len \<and> len \<le> MAX_MBAP_LENGTH) then (n1, Inl bad, Framer_poison f bad) else
           let total = LENGTH_KNOWN_AT + unat len;
               (n2, f) = Framer_take f (drop n1 input) total in
           if fr_len f < total then (n1 + n2, Inr None, f) else
           let header = MbapHeader_from_bytes (map (Framer_byte f) [0, 1, 2, 3, 4, 5, 6]);
               pdu = Option.bind (get_range (fr_buffer f) MBAP_HEADER total) Pdu_from_bytes;
               f = f\<lparr>fr_len := 0\<rparr> in
           case pdu of
             None \<Rightarrow> (n1 + n2, Inl bad, Framer_poison f bad)
           | Some pdu \<Rightarrow> (n1 + n2, Inr (Some \<lparr>tcp_header = header, tcp_pdu = pdu\<rparr>), f)))"

section \<open>The buffer contract\<close>

definition wf_Framer :: "Framer \<Rightarrow> bool" where
  "wf_Framer f \<longleftrightarrow> length (fr_buffer f) = MAX_TCP_ADU \<and> fr_len f \<le> MAX_TCP_ADU"

definition held :: "Framer \<Rightarrow> u8 list" where
  "held f = take (fr_len f) (fr_buffer f)"

lemma length_held: "wf_Framer f \<Longrightarrow> length (held f) = fr_len f"
  by (simp add: held_def wf_Framer_def)

interpretation framer_buffer: byte_buffer wf_Framer held MAX_TCP_ADU Framer_store
proof
  fix b :: Framer and x :: u8
  assume b: "wf_Framer b"
  then show "length (held b) \<le> MAX_TCP_ADU" by (simp add: length_held wf_Framer_def)
  from b show "wf_Framer (Framer_store b x)" by (auto simp: wf_Framer_def Framer_store_def get_def)
  show "length (held b) < MAX_TCP_ADU \<Longrightarrow> held (Framer_store b x) = held b @ [x]"
    using b by (auto simp: length_held wf_Framer_def Framer_store_def get_def held_def take_Suc_update)
  show "length (held b) = MAX_TCP_ADU \<Longrightarrow> held (Framer_store b x) = held b"
    using b by (auto simp: length_held wf_Framer_def Framer_store_def get_def held_def)
qed

lemma Framer_store_poisoned [simp]: "fr_poisoned (Framer_store f x) = fr_poisoned f"
  by (simp add: Framer_store_def split: option.split)

lemma foldl_store_poisoned [simp]: "fr_poisoned (foldl Framer_store f xs) = fr_poisoned f"
  by (induction xs arbitrary: f) simp_all

lemma Framer_take_spec:
  assumes "wf_Framer f" "target \<le> MAX_TCP_ADU" "Framer_take f input target = (n, f')"
  shows "wf_Framer f'" "held f' = held f @ take n input" "n = min (target - fr_len f) (length input)"
    "fr_poisoned f' = fr_poisoned f" "fr_len f' = fr_len f + n"
proof -
  have n: "n = min (target - fr_len f) (length input)" and f': "f' = foldl Framer_store f (take n input)"
    using assms(3) by (auto simp: Framer_take_def Let_def split: if_splits)
  have fits: "length (held f) + length (take n input) \<le> MAX_TCP_ADU"
    using assms(1,2) n by (auto simp: length_held wf_Framer_def min_def)
  show wf': "wf_Framer f'" using assms(1) f' framer_buffer.inv_push_all by simp
  show h: "held f' = held f @ take n input" using fits assms(1) f' framer_buffer.contents_push_fits by simp
  show "n = min (target - fr_len f) (length input)" by (rule n)
  show "fr_poisoned f' = fr_poisoned f" using f' by simp
  show "fr_len f' = fr_len f + n"
    using arg_cong [OF h, of length] n by (simp add: length_held wf' assms(1))
qed

lemma Framer_byte_held: "wf_Framer f \<Longrightarrow> i < fr_len f \<Longrightarrow> Framer_byte f i = held f ! i"
  by (simp add: Framer_byte_def get_def wf_Framer_def held_def)

section \<open>The stream the framer is meant to read\<close>

text \<open>
  The reference: what the first bytes of a stream are, with the whole stream in hand.  A frame is
  delivered with the number of bytes it took.
\<close>

datatype stream_head = Need_more | Lost FrameError | Frame_at TcpAdu nat

definition stream_head_of :: "u8 list \<Rightarrow> stream_head" where
  "stream_head_of s =
     (if length s < 6 then Need_more else
      let protocol = from_be_bytes16 (s ! 2) (s ! 3); len = from_be_bytes16 (s ! 4) (s ! 5) in
      if protocol \<noteq> 0 then Lost (ProtocolNotModbus protocol)
      else if len < MIN_MBAP_LENGTH \<or> len > MAX_MBAP_LENGTH
      then Lost (LengthOutOfRange len MIN_MBAP_LENGTH MAX_MBAP_LENGTH)
      else let total = 6 + unat len in
      if length s < total then Need_more
      else case Pdu_from_bytes (drop 7 (take total s)) of
          None \<Rightarrow> Lost (LengthOutOfRange len MIN_MBAP_LENGTH MAX_MBAP_LENGTH)
        | Some pdu \<Rightarrow> Frame_at \<lparr>tcp_header = MbapHeader_from_bytes (take 7 s), tcp_pdu = pdu\<rparr> total)"

lemma Frame_at_size: "stream_head_of s = Frame_at a k \<Longrightarrow> 8 \<le> k \<and> k \<le> length s \<and> k \<le> MAX_TCP_ADU"
  by (auto simp: stream_head_of_def Let_def MIN_MBAP_LENGTH_def MAX_MBAP_LENGTH_def limit_defs not_less
      word_le_nat_alt split: if_splits option.splits)

function parse_stream :: "u8 list \<Rightarrow> TcpAdu list \<times> FrameError option \<times> u8 list" where
  "parse_stream s =
     (case stream_head_of s of
        Need_more \<Rightarrow> ([], None, s)
      | Lost e \<Rightarrow> ([], Some e, s)
      | Frame_at a k \<Rightarrow> (let (as, e, rest) = parse_stream (drop k s) in (a # as, e, rest)))"
  by pat_completeness auto
termination
  by (relation "measure length") (use Frame_at_size in fastforce)+

declare parse_stream.simps [simp del]

section \<open>The loop around \<open>advance\<close>\<close>

text \<open>
  The loop the documentation of \<open>advance\<close> gives and \<open>serve\<close> runs on each block of bytes it reads:
  the frames delivered, the error that ended the loop if one did, and the framer afterwards.
\<close>

lemma Framer_take_le: "Framer_take f input t = (n, f') \<Longrightarrow> fr_len f' \<le> fr_len f + n \<and> n \<le> length input"
proof -
  have "fr_len (foldl Framer_store f xs) \<le> fr_len f + length xs" for xs
  proof (induction xs arbitrary: f)
    case (Cons x xs)
    have "fr_len (Framer_store f x) \<le> fr_len f + 1" by (simp add: Framer_store_def split: option.split)
    with Cons.IH [of "Framer_store f x"] show ?case by simp
  qed simp
  from this [of "take n input"] show "Framer_take f input t = (n, f') \<Longrightarrow> fr_len f' \<le> fr_len f + n \<and> n \<le> length input"
    by (auto simp: Framer_take_def Let_def split: if_splits)
qed

lemma Framer_advance_frame_progress:
  assumes "Framer_advance f input = (n, Inr (Some a), f')"
  shows "fr_len f' + length (drop n input) < fr_len f + length input"
proof -
  obtain n1 f1 n2 f2 where t: "Framer_take f input LENGTH_KNOWN_AT = (n1, f1)"
    "Framer_take f1 (drop n1 input) (LENGTH_KNOWN_AT + unat (from_be_bytes16 (Framer_byte f1 4) (Framer_byte f1 5))) = (n2, f2)"
    by (meson surj_pair)
  have "n = n1 + n2 \<and> fr_len f' = 0 \<and> 6 \<le> fr_len f2"
    using assms by (simp add: Framer_advance_def t Let_def split: option.splits if_splits)
      (auto simp: LENGTH_KNOWN_AT_def)
  with Framer_take_le [OF t(1)] Framer_take_le [OF t(2)] show ?thesis by simp linarith
qed

function pump :: "Framer \<Rightarrow> u8 list \<Rightarrow> TcpAdu list \<times> FrameError option \<times> Framer" where
  "pump f rest =
     (case Framer_advance f rest of
        (used, Inr (Some a), f') \<Rightarrow> (let (as, e, f'') = pump f' (drop used rest) in (a # as, e, f''))
      | (used, Inr None, f') \<Rightarrow> ([], None, f')
      | (used, Inl e, f') \<Rightarrow> ([], Some e, f'))"
  by pat_completeness auto
termination
  by (relation "measure (\<lambda>(f, rest). fr_len f + length rest)")
    (use Framer_advance_frame_progress in \<open>fastforce dest: sym\<close>)+

declare pump.simps [simp del]

fun pump_all :: "Framer \<Rightarrow> u8 list list \<Rightarrow> TcpAdu list \<times> FrameError option \<times> Framer" where
  "pump_all f [] = ([], None, f)"
| "pump_all f (c # cs) =
     (let (as, e, f') = pump f c in
      case e of Some e \<Rightarrow> (as, Some e, f')
      | None \<Rightarrow> (let (bs, e, f'') = pump_all f' cs in (as @ bs, e, f'')))"

section \<open>The framer refines the stream\<close>

text \<open>A framer between two calls: its invariant, and that what it holds is an unfinished frame.\<close>

definition mid_stream :: "Framer \<Rightarrow> bool" where
  "mid_stream f \<longleftrightarrow> wf_Framer f \<and> fr_poisoned f = None \<and> stream_head_of (held f) = Need_more"

lemma mid_stream_new [simp]: "mid_stream Framer_new" "held Framer_new = []"
  by (simp_all add: mid_stream_def wf_Framer_def Framer_new_def held_def stream_head_of_def)

lemma total_le_MAX: "len \<le> MAX_MBAP_LENGTH \<Longrightarrow> 6 + unat len \<le> MAX_TCP_ADU"
  by (simp add: MAX_MBAP_LENGTH_def limit_defs word_le_nat_alt)

lemma held_prefix_nth:
  assumes "wf_Framer f" "held f = take n s" "n = fr_len f" "i < n" "n \<le> length s"
  shows "Framer_byte f i = s ! i"
  using assms by (simp add: Framer_byte_held)

lemma held_Need_more_bound: "mid_stream f \<Longrightarrow> 6 \<le> fr_len f \<Longrightarrow>
  fr_len f < 6 + unat (from_be_bytes16 (held f ! 4) (held f ! 5))"
  by (auto simp: mid_stream_def stream_head_of_def Let_def length_held split: if_splits option.splits)

text \<open>The take that completes the length field, and the one that completes the frame, against the stream.\<close>

lemma Framer_take_stream:
  assumes "wf_Framer f" "t \<le> MAX_TCP_ADU" "Framer_take f input t = (n, f')" "fr_len f \<le> t"
  shows "wf_Framer f'" "fr_poisoned f' = fr_poisoned f"
    "fr_len f' = min t (length (held f @ input))" "held f' = take t (held f @ input)"
    "held f' @ drop n input = held f @ input" "n = fr_len f' - fr_len f"
  using assms(4) Framer_take_spec [OF assms(1-3)]
  by (auto simp: length_held assms(1) take_Cons' min_def)

lemma Framer_take_header:
  assumes "mid_stream f" "Framer_take f input LENGTH_KNOWN_AT = (n, f')"
  defines "s \<equiv> held f @ input"
  shows "wf_Framer f'" "fr_poisoned f' = None" "held f' @ drop n input = s" "n = fr_len f' - fr_len f"
    "fr_len f \<le> fr_len f'" "fr_len f' < 6 \<longleftrightarrow> length s < 6" "fr_len f' < 6 \<Longrightarrow> held f' = s"
    "6 \<le> fr_len f' \<Longrightarrow> i < 6 \<Longrightarrow> Framer_byte f' i = s ! i"
    "6 \<le> fr_len f' \<Longrightarrow> fr_len f' \<le> 6 + unat (from_be_bytes16 (s ! 4) (s ! 5))"
proof -
  have wf: "wf_Framer f" and p: "fr_poisoned f = None" using assms(1) by (auto simp: mid_stream_def)
  have "wf_Framer f' \<and> fr_poisoned f' = None \<and> held f' @ drop n input = s \<and> n = fr_len f' - fr_len f \<and>
    fr_len f \<le> fr_len f' \<and> (fr_len f' < 6 \<longleftrightarrow> length s < 6) \<and> (fr_len f' < 6 \<longrightarrow> held f' = s) \<and>
    (6 \<le> fr_len f' \<longrightarrow> fr_len f' \<le> 6 + unat (from_be_bytes16 (s ! 4) (s ! 5)))"
  proof (cases "fr_len f < 6")
    case True
    from Framer_take_stream [OF wf _ assms(2)] True p show ?thesis
      by (simp add: LENGTH_KNOWN_AT_def limit_defs s_def length_held wf min_def split: if_splits)
  next
    case False
    with assms(2) have "n = 0" "f' = f" by (auto simp: Framer_take_def LENGTH_KNOWN_AT_def)
    with False wf p held_Need_more_bound [OF assms(1)] show ?thesis
      by (auto simp: s_def length_held nth_append)
  qed
  note this [THEN conjunct1] this [THEN conjunct2, THEN conjunct1] and all = this
  then show "wf_Framer f'" "fr_poisoned f' = None" by auto
  from all show s: "held f' @ drop n input = s" and "n = fr_len f' - fr_len f"
    "fr_len f \<le> fr_len f'" "fr_len f' < 6 \<longleftrightarrow> length s < 6" "fr_len f' < 6 \<Longrightarrow> held f' = s"
    "6 \<le> fr_len f' \<Longrightarrow> fr_len f' \<le> 6 + unat (from_be_bytes16 (s ! 4) (s ! 5))" by blast+
  from all show "6 \<le> fr_len f' \<Longrightarrow> i < 6 \<Longrightarrow> Framer_byte f' i = s ! i"
    by (simp add: Framer_byte_held s [symmetric] nth_append length_held)
qed

lemma map_Framer_byte_prefix:
  assumes "wf_Framer f" "7 \<le> fr_len f"
  shows "map (Framer_byte f) [0, 1, 2, 3, 4, 5, 6] = take 7 (held f)"
  using assms by (intro nth_equalityI)
    (auto simp: length_held Framer_byte_held less_Suc_eq numeral_eq_Suc)

lemma Framer_advance_refines:
  assumes mid: "mid_stream f"
  shows "case stream_head_of (held f @ input) of
     Need_more \<Rightarrow> (\<exists>f'. Framer_advance f input = (length input, Inr None, f') \<and>
       mid_stream f' \<and> held f' = held f @ input)
   | Lost e \<Rightarrow> (\<exists>n f'. Framer_advance f input = (n, Inl e, f') \<and> wf_Framer f' \<and> fr_poisoned f' = Some e)
   | Frame_at a k \<Rightarrow> (\<exists>f'. Framer_advance f input = (k - length (held f), Inr (Some a), f') \<and>
       length (held f) < k \<and> mid_stream f' \<and> held f' = [])"
proof -
  define s where "s = held f @ input"
  have wf: "wf_Framer f" and p: "fr_poisoned f = None" using mid by (auto simp: mid_stream_def)
  obtain n1 f1 where t1: "Framer_take f input LENGTH_KNOWN_AT = (n1, f1)" by force
  note h = Framer_take_header [OF mid t1, folded s_def]
  note t1 = t1 [unfolded LENGTH_KNOWN_AT_def]
  define len where "len = from_be_bytes16 (s ! 4) (s ! 5)"
  obtain n2 f2 where t2: "Framer_take f1 (drop n1 input) (LENGTH_KNOWN_AT + unat len) = (n2, f2)" by force
  have bytes: "\<not> fr_len f1 < 6 \<Longrightarrow> i < 6 \<Longrightarrow> Framer_byte f1 i = s ! i" for i using h(8) by simp
  consider (short) "length s < 6"
    | (lost) "6 \<le> length s" "from_be_bytes16 (s ! 2) (s ! 3) \<noteq> 0 \<or> \<not> (MIN_MBAP_LENGTH \<le> len \<and> len \<le> MAX_MBAP_LENGTH)"
    | (body) "6 \<le> length s" "from_be_bytes16 (s ! 2) (s ! 3) = 0" "MIN_MBAP_LENGTH \<le> len" "len \<le> MAX_MBAP_LENGTH"
    by linarith
  then show ?thesis
  proof cases
    case short
    then have "Framer_advance f input = (length input, Inr None, f1)"
      using h(1,3,4,6,7) p length_held [OF h(1)]
      by (auto simp: Framer_advance_def t1 LENGTH_KNOWN_AT_def s_def length_held wf)
    with short h show ?thesis by (simp add: s_def [symmetric] stream_head_of_def mid_stream_def)
  next
    case lost
    with h(1,6) bytes p show ?thesis
      by (auto simp: Framer_advance_def t1 LENGTH_KNOWN_AT_def s_def [symmetric] stream_head_of_def Let_def
          len_def [symmetric] Framer_poison_def wf_Framer_def)
  next
    case body
    define total where "total = 6 + unat len"
    have total: "total \<le> MAX_TCP_ADU" "fr_len f1 \<le> total" "8 \<le> total"
      using body h(6,9) by (auto simp: total_def total_le_MAX len_def [symmetric] MIN_MBAP_LENGTH_def word_le_nat_alt)
    note b = Framer_take_stream [OF h(1) total(1) _ total(2), of "drop n1 input" n2 f2, unfolded h(3)]
    have t2': "Framer_take f1 (drop n1 input) total = (n2, f2)" using t2 by (simp add: total_def LENGTH_KNOWN_AT_def)
    note b = b [OF t2']
    have step: "Framer_advance f input =
       (if fr_len f2 < total then (n1 + n2, Inr None, f2) else
        let header = MbapHeader_from_bytes (map (Framer_byte f2) [0, 1, 2, 3, 4, 5, 6]);
            pdu = Option.bind (get_range (fr_buffer f2) MBAP_HEADER total) Pdu_from_bytes;
            f = f2\<lparr>fr_len := 0\<rparr> in
        case pdu of
             None \<Rightarrow> (n1 + n2, Inl (LengthOutOfRange len MIN_MBAP_LENGTH MAX_MBAP_LENGTH),
               Framer_poison f (LengthOutOfRange len MIN_MBAP_LENGTH MAX_MBAP_LENGTH))
           | Some pdu \<Rightarrow> (n1 + n2, Inr (Some \<lparr>tcp_header = header, tcp_pdu = pdu\<rparr>), f))"
      using body h(6) bytes p
      by (simp add: Framer_advance_def t1 LENGTH_KNOWN_AT_def Let_def len_def [symmetric]
          total_def [symmetric] t2' split del: if_split)
    have "fr_len f1 \<le> length s" using arg_cong [OF h(3), of length] by (simp add: length_held h(1))
    then have count: "n1 + n2 = fr_len f2 - fr_len f" using h(4,5) b(6) b(3) total by (auto simp: min_def)
    show ?thesis
    proof (cases "length s < total")
      case True
      with b have "held f2 = s" "fr_len f2 = length s" by simp_all
      with True step count have "Framer_advance f input = (length input, Inr None, f2)"
        by (simp add: s_def length_held wf)
      moreover have "stream_head_of s = Need_more"
        using True body by (simp add: stream_head_of_def Let_def len_def [symmetric] total_def not_less)
      ultimately show ?thesis using b h \<open>held f2 = s\<close> by (simp add: s_def [symmetric] mid_stream_def)
    next
      case False
      with b have f2: "held f2 = take total s" "fr_len f2 = total" by simp_all
      have hdr: "map (Framer_byte f2) [0, 1, 2, 3, 4, 5, 6] = take 7 s"
        using map_Framer_byte_prefix [OF b(1)] f2 total by simp
      have pdu: "get_range (fr_buffer f2) MBAP_HEADER total = Some (drop 7 (take total s))"
        using arg_cong [OF f2(1), of "drop 7"] f2(2) b(1) total
        by (simp add: get_range_def wf_Framer_def held_def MBAP_HEADER_def drop_take)
      have "Pdu_from_bytes (drop 7 (take total s)) \<noteq> None"
        using False total by (auto simp: Pdu_from_bytes_def copy_prefix_def limit_defs)
      then obtain q where q: "Pdu_from_bytes (drop 7 (take total s)) = Some q" by blast
      have "stream_head_of s = Frame_at \<lparr>tcp_header = MbapHeader_from_bytes (take 7 s), tcp_pdu = q\<rparr> total"
        using False body q by (simp add: stream_head_of_def Let_def len_def [symmetric] total_def not_less)
      moreover have "length (held f) < total"
        using h(5) total f2 held_Need_more_bound [OF mid] wf by (cases "fr_len f < 6")
          (auto simp: length_held total_def len_def s_def nth_append)
      moreover have "Framer_advance f input = (total - length (held f),
          Inr (Some \<lparr>tcp_header = MbapHeader_from_bytes (take 7 s), tcp_pdu = q\<rparr>), f2\<lparr>fr_len := 0\<rparr>)"
        using step hdr count f2(2) by (simp add: pdu q length_held wf)
      moreover have "mid_stream (f2\<lparr>fr_len := 0\<rparr>)" "held (f2\<lparr>fr_len := 0\<rparr>) = []"
        using b(1,2) h(2) by (simp_all add: mid_stream_def wf_Framer_def held_def stream_head_of_def)
      ultimately show ?thesis by (simp add: s_def [symmetric])
    qed
  qed
qed

text \<open>What has been decided about a stream does not change when more of it arrives.\<close>

lemma stream_head_of_append:
  "stream_head_of s = Lost e \<Longrightarrow> stream_head_of (s @ t) = Lost e"
  "stream_head_of s = Frame_at a k \<Longrightarrow> stream_head_of (s @ t) = Frame_at a k"
proof -
  show "stream_head_of s = Lost e \<Longrightarrow> stream_head_of (s @ t) = Lost e"
    by (auto simp: stream_head_of_def Let_def nth_append split: if_splits option.splits)
  assume a: "stream_head_of s = Frame_at a k"
  with Frame_at_size have "7 \<le> length s" by fastforce
  with a show "stream_head_of (s @ t) = Frame_at a k"
    by (auto simp: stream_head_of_def Let_def nth_append split: if_splits option.splits)
qed

lemma parse_stream_rest: "parse_stream s = (as, None, rest) \<Longrightarrow> stream_head_of rest = Need_more"
proof (induction s arbitrary: as rule: parse_stream.induct)
  case (1 s)
  from 1(2) show ?case
    by (subst (asm) parse_stream.simps) (auto split: stream_head.splits prod.splits dest: 1(1))
qed

lemma parse_stream_append:
  "parse_stream (s @ t) =
     (let (as, e, rest) = parse_stream s in
      case e of Some _ \<Rightarrow> (as, e, rest @ t)
      | None \<Rightarrow> (let (bs, e, rest) = parse_stream (rest @ t) in (as @ bs, e, rest)))"
proof (induction s rule: parse_stream.induct)
  case (1 s)
  show ?case
  proof (cases "stream_head_of s")
    case Need_more
    then show ?thesis by (subst (2) parse_stream.simps) simp
  next
    case (Lost e)
    then show ?thesis by (simp add: parse_stream.simps [of s] parse_stream.simps [of "s @ t"] stream_head_of_append)
  next
    case (Frame_at a k)
    then have "drop k (s @ t) = drop k s @ t" using Frame_at_size [of s a k] by simp
    with Frame_at 1 [OF Frame_at] show ?thesis
      by (simp add: parse_stream.simps [of s] parse_stream.simps [of "s @ t"] stream_head_of_append
          split: prod.splits option.splits)
  qed
qed

lemma pump_refines:
  assumes "mid_stream f" "parse_stream (held f @ input) = (as, e, rest)"
  shows "\<exists>f'. pump f input = (as, e, f') \<and> wf_Framer f' \<and> fr_poisoned f' = e \<and>
     (e = None \<longrightarrow> mid_stream f' \<and> held f' = rest)"
  using assms
proof (induction f input arbitrary: as rule: pump.induct)
  case (1 f input)
  note adv = Framer_advance_refines [OF 1(2), of input]
  show ?case
  proof (cases "stream_head_of (held f @ input)")
    case Need_more
    then show ?thesis using adv 1(3) by (auto simp: parse_stream.simps [of "held f @ input"] pump.simps [of f input] mid_stream_def)
  next
    case (Lost e')
    then show ?thesis using adv 1(3) by (auto simp: parse_stream.simps [of "held f @ input"] pump.simps [of f input])
  next
    case (Frame_at a k)
    with adv obtain f' where f': "Framer_advance f input = (k - length (held f), Inr (Some a), f')"
      "length (held f) < k" "mid_stream f'" "held f' = []" by auto
    from Frame_at 1(3) obtain bs where bs: "parse_stream (drop k (held f @ input)) = (bs, e, rest)" "as = a # bs"
      by (auto simp: parse_stream.simps [of "held f @ input"] split: prod.splits)
    with f' have "parse_stream (held f' @ drop (k - length (held f)) input) = (bs, e, rest)" by simp
    from 1(1) [OF f'(1) [symmetric] refl refl refl f'(3) this] f'(1) bs(2) show ?thesis
      by (auto simp: pump.simps [of f input])
  qed
qed

lemma pump_all_refines:
  assumes "mid_stream f" "parse_stream (held f @ concat cs) = (as, e, rest)"
  shows "\<exists>f'. pump_all f cs = (as, e, f') \<and> wf_Framer f' \<and> fr_poisoned f' = e \<and> (e = None \<longrightarrow> mid_stream f' \<and> held f' = rest)"
  using assms
proof (induction cs arbitrary: f as)
  case Nil
  then have "parse_stream (held f) = ([], None, held f)"
    by (subst parse_stream.simps) (simp add: mid_stream_def)
  with Nil show ?case by (auto simp: mid_stream_def)
next
  case (Cons c cs)
  obtain bs e1 r1 where p1: "parse_stream (held f @ c) = (bs, e1, r1)" by (metis prod_cases3)
  from pump_refines [OF Cons.prems(1) p1] obtain f1 where f1: "pump f c = (bs, e1, f1)" "wf_Framer f1" "fr_poisoned f1 = e1"
    "e1 = None \<Longrightarrow> mid_stream f1 \<and> held f1 = r1" by auto
  have split: "parse_stream (held f @ concat (c # cs)) = (case e1 of Some _ \<Rightarrow> (bs, e1, r1 @ concat cs)
      | None \<Rightarrow> (let (ds, e, rest) = parse_stream (r1 @ concat cs) in (bs @ ds, e, rest)))"
    using parse_stream_append [of "held f @ c" "concat cs"] p1 by simp
  show ?case
  proof (cases e1)
    case None
    with split Cons.prems(2) obtain ds where ds: "parse_stream (held f1 @ concat cs) = (ds, e, rest)" "as = bs @ ds"
      using f1(4) by (auto split: prod.splits)
    from Cons.IH [OF _ ds(1)] f1 None ds(2) show ?thesis by auto
  next
    case (Some x)
    with split Cons.prems(2) have "as = bs" "e = Some x" by simp_all
    with f1(1,2,3) Some show ?thesis by simp
  qed
qed

section \<open>Sending and receiving\<close>

text \<open>Two frames are equal when their bytes are: \<open>PartialEq for Pdu\<close> compares \<open>as_bytes\<close>.\<close>

definition Pdu_eq :: "Pdu \<Rightarrow> Pdu \<Rightarrow> bool" where
  "Pdu_eq p q \<longleftrightarrow> Pdu_as_bytes p = Pdu_as_bytes q"

definition TcpAdu_eq :: "TcpAdu \<Rightarrow> TcpAdu \<Rightarrow> bool" where
  "TcpAdu_eq a b \<longleftrightarrow> tcp_header a = tcp_header b \<and> Pdu_eq (tcp_pdu a) (tcp_pdu b)"

lemma MbapHeader_from_to_bytes: "MbapHeader_from_bytes (MbapHeader_to_bytes h) = h"
  by (simp add: MbapHeader_from_bytes_def MbapHeader_to_bytes_def to_be_bytes16_def)

lemma MbapHeader_to_bytes_nth:
  "length (MbapHeader_to_bytes h) = 7"
  "from_be_bytes16 (MbapHeader_to_bytes h ! 2) (MbapHeader_to_bytes h ! 3) = mbap_protocol h"
  "from_be_bytes16 (MbapHeader_to_bytes h ! 4) (MbapHeader_to_bytes h ! 5) = mbap_length h"
  by (simp_all add: MbapHeader_to_bytes_def to_be_bytes16_def)

text \<open>An ADU as \<open>TcpAdu::new\<close> makes it.\<close>

definition wf_TcpAdu :: "TcpAdu \<Rightarrow> bool" where
  "wf_TcpAdu a \<longleftrightarrow> wf_Pdu (tcp_pdu a) \<and> mbap_protocol (tcp_header a) = 0 \<and>
     mbap_length (tcp_header a) = of_nat (pdu_len (tcp_pdu a)) + 1"

lemma wf_TcpAdu_new [simp]: "wf_Pdu p \<Longrightarrow> wf_TcpAdu (TcpAdu_new t u p)"
  by (simp add: wf_TcpAdu_def TcpAdu_new_def MbapHeader_for_pdu_def)

lemma unat_mbap_length: "n \<le> MAX_PDU \<Longrightarrow> unat (of_nat n + 1 :: u16) = n + 1"
  using unat_of_nat_u16 [of "n + 1"] by (simp add: limit_defs add.commute)

lemma stream_head_of_sent:
  assumes "wf_TcpAdu a"
  obtains b where "TcpAdu_eq b a"
    "stream_head_of (TcpAdu_to_vec a @ rest) = Frame_at b (length (TcpAdu_to_vec a))"
proof -
  let ?h = "MbapHeader_to_bytes (tcp_header a)" and ?p = "Pdu_as_bytes (tcp_pdu a)"
  have p: "wf_Pdu (tcp_pdu a)" and h: "mbap_protocol (tcp_header a) = 0"
    "mbap_length (tcp_header a) = of_nat (pdu_len (tcp_pdu a)) + 1" using assms by (auto simp: wf_TcpAdu_def)
  have n: "1 \<le> length ?p" "length ?p \<le> MAX_PDU" "length ?p = pdu_len (tcp_pdu a)"
    using p by (auto simp: length_Pdu_as_bytes wf_Pdu_def)
  have len: "unat (mbap_length (tcp_header a)) = length ?p + 1" using n unat_mbap_length by (simp add: h)
  then have range: "\<not> mbap_length (tcp_header a) < MIN_MBAP_LENGTH" "\<not> MAX_MBAP_LENGTH < mbap_length (tcp_header a)"
    using n by (simp_all add: word_less_nat_alt MIN_MBAP_LENGTH_def MAX_MBAP_LENGTH_def limit_defs)
  from n obtain q where q: "Pdu_from_bytes ?p = Some q"
    using Pdu_from_bytes_eq_Some [of ?p] by (cases ?p) auto
  have "stream_head_of (?h @ ?p @ rest) = Frame_at \<lparr>tcp_header = tcp_header a, tcp_pdu = q\<rparr> (7 + length ?p)"
    using MbapHeader_to_bytes_nth [of "tcp_header a"] range h(1) len q
    by (simp add: stream_head_of_def Let_def nth_append MbapHeader_from_to_bytes)
  then show ?thesis
    using Pdu_from_bytes_as_bytes [OF q] that [of "\<lparr>tcp_header = tcp_header a, tcp_pdu = q\<rparr>"]
    by (simp add: TcpAdu_to_vec_def TcpAdu_eq_def Pdu_eq_def MbapHeader_to_bytes_nth)
qed

lemma parse_stream_sent:
  assumes "list_all wf_TcpAdu as"
  shows "\<exists>bs. list_all2 TcpAdu_eq bs as \<and>
     parse_stream (concat (map TcpAdu_to_vec as) @ rest) = (let (cs, e, r) = parse_stream rest in (bs @ cs, e, r))"
  using assms
proof (induction as)
  case (Cons a as)
  let ?s = "concat (map TcpAdu_to_vec (a # as)) @ rest"
  from Cons obtain bs where bs: "list_all2 TcpAdu_eq bs as"
    "parse_stream (concat (map TcpAdu_to_vec as) @ rest) = (let (cs, e, r) = parse_stream rest in (bs @ cs, e, r))" by auto
  from Cons.prems stream_head_of_sent [of a "concat (map TcpAdu_to_vec as) @ rest"] obtain b where
    b: "TcpAdu_eq b a" "stream_head_of ?s = Frame_at b (length (TcpAdu_to_vec a))" by auto
  then have "parse_stream ?s = (let (cs, e, r) = parse_stream rest in (b # bs @ cs, e, r))"
    using bs(2) by (subst parse_stream.simps) (simp split: prod.splits)
  with b(1) bs(1) show ?case by (intro exI [of _ "b # bs"]) simp
qed (simp split: prod.splits)

lemma parse_stream_Nil: "parse_stream [] = ([], None, [])"
  by (subst parse_stream.simps) (simp add: stream_head_of_def)

lemma stream_head_of_wf: "stream_head_of s = Frame_at a k \<Longrightarrow> wf_Pdu (tcp_pdu a)"
  by (auto simp: stream_head_of_def Let_def dest: Pdu_from_bytes_as_bytes split: if_splits option.splits)

lemma parse_stream_wf: "parse_stream s = (as, e, rest) \<Longrightarrow> list_all (\<lambda>a. wf_Pdu (tcp_pdu a)) as"
proof (induction s arbitrary: as rule: parse_stream.induct)
  case (1 s)
  from 1(2) show ?case
    by (subst (asm) parse_stream.simps)
      (auto split: stream_head.splits prod.splits dest: 1(1) stream_head_of_wf)
qed

section \<open>Properties\<close>

text \<open>
  Claim C12.  The framer is a parser of the byte stream, whatever the segmentation: pumping any list
  of blocks through its one-frame buffer delivers exactly the frames that parsing the concatenated
  bytes delivers, ends with the same framing error or none, and without an error holds exactly the
  bytes of the unfinished frame.
\<close>
theorem framer_refines_stream:
  "\<exists>f. pump_all Framer_new blocks = (fst (parse_stream (concat blocks)), fst (snd (parse_stream (concat blocks))), f) \<and>
     wf_Framer f \<and> fr_poisoned f = fst (snd (parse_stream (concat blocks))) \<and>
     (fr_poisoned f = None \<longrightarrow> held f = snd (snd (parse_stream (concat blocks))))"
  using pump_all_refines [OF mid_stream_new(1), of blocks] by (cases "parse_stream (concat blocks)") auto

theorem framer_refines_stream_witness:
  "\<exists>f. pump_all Framer_new [[0, 1, 0], [0, 0]] = ([], None, f) \<and> wf_Framer f \<and> fr_poisoned f = None \<and> held f = [0, 1, 0, 0, 0]"
proof -
  have "parse_stream (concat [[0, 1, 0], [0, 0]]) = ([], None, [0, 1, 0, 0, 0])"
    by (subst parse_stream.simps) (simp add: stream_head_of_def)
  with framer_refines_stream [of "[[0, 1, 0], [0, 0]]"] show ?thesis by auto
qed

text \<open>
  Application data units sent one after another are delivered one after another: for any
  segmentation of their bytes the framer delivers frames equal to those sent, in order, loses none,
  reports no error, and is left holding nothing.
\<close>
theorem framer_delivers_what_was_sent:
  assumes "list_all wf_TcpAdu adus" "concat blocks = concat (map TcpAdu_to_vec adus)"
  shows "\<exists>delivered f. pump_all Framer_new blocks = (delivered, None, f) \<and> list_all2 TcpAdu_eq delivered adus \<and> held f = []"
proof -
  from parse_stream_sent [OF assms(1), of "[]"] obtain bs where
    bs: "list_all2 TcpAdu_eq bs adus" "parse_stream (held Framer_new @ concat blocks) = (bs, None, [])"
    by (auto simp: assms(2) parse_stream_Nil)
  with pump_all_refines [OF mid_stream_new(1) bs(2)] show ?thesis by blast
qed

theorem framer_delivers_what_was_sent_witness:
  "\<exists>delivered f. pump_all Framer_new [take 3 (TcpAdu_to_vec (TcpAdu_new 7 1 (Pdu_new 3))), drop 3 (TcpAdu_to_vec (TcpAdu_new 7 1 (Pdu_new 3)))] =
     (delivered, None, f) \<and> list_all2 TcpAdu_eq delivered [TcpAdu_new 7 1 (Pdu_new 3)] \<and> held f = []"
  by (rule framer_delivers_what_was_sent) simp_all

text \<open>
  A framing error is never followed by a guess: once a framer is poisoned every further
  call consumes nothing, delivers nothing, and reports the same error again.
\<close>
theorem framer_poison_is_final:
  assumes "fr_poisoned f = Some e"
  shows "pump f block = ([], Some e, f) \<and> Framer_advance f block = (0, Inl e, f)"
  using assms by (simp add: pump.simps [of f block] Framer_advance_def)

theorem framer_poison_is_final_witness:
  "pump (Framer_poison Framer_new (ProtocolNotModbus 5)) [1, 2] = ([], Some (ProtocolNotModbus 5), Framer_poison Framer_new (ProtocolNotModbus 5)) \<and>
   Framer_advance (Framer_poison Framer_new (ProtocolNotModbus 5)) [1, 2] =
     (0, Inl (ProtocolNotModbus 5), Framer_poison Framer_new (ProtocolNotModbus 5))"
  by (rule framer_poison_is_final) (simp add: Framer_poison_def)

end
