(* ===== verification/Core_Posture.thy ===== *)
theory Core_Posture
  imports Salman_Prelude
begin

text \<open>
  The permission model, from \<open>crates/salman-core/src/posture.rs\<close>: what each posture allows, the
  confirmation a person gives, and the expiry of an armed posture.  \<open>posture_run\<close> plays a sequence
  of the three operations that change the state, so that a permission can be traced to the change
  that gave it.
\<close>

datatype Posture = Observe | Simulate | Armed

fun Posture_label :: "Posture \<Rightarrow> string" where
  "Posture_label Observe = ''OBSERVE''"
| "Posture_label Simulate = ''SIMULATE''"
| "Posture_label Armed = ''ARMED''"

datatype Effect = ReadLocalFile | ReadDevice | WriteSimulated | WriteLiveDevice | ChangeControllerMode
  | NetworkDiscovery | FirmwareOperation | CredentialGuessing | DenialOfService

definition is_categorically_refused :: "Effect \<Rightarrow> bool" where
  "is_categorically_refused e \<longleftrightarrow> e \<in> {FirmwareOperation, CredentialGuessing, DenialOfService}"

datatype DenialReason = CategoricallyRefused | PostureTooLow Posture | OutsideDeclaredScope

datatype Permit = Allowed | RequiresConfirmation | Denied DenialReason

fun is_allowed_outright :: "Permit \<Rightarrow> bool" where
  "is_allowed_outright Allowed = True"
| "is_allowed_outright _ = False"

text \<open>
  A \<open>UserConfirmation\<close> has a private field, so the only way to hold one is that \<open>ask\<close> returned it;
  the prompt is the caller's \<open>ConfirmationPrompt\<close>, a parameter.
\<close>

datatype UserConfirmation = UserConfirmation
datatype Decision = Approved | Decision_Refused

record ConfirmationRequest =
  cr_effect :: Effect
  cr_device :: string
  cr_address :: string
  cr_current_value :: "string option"
  cr_new_value :: "string option"
  cr_declared_intent :: string

definition ConfirmationRequest_ask ::
    "(ConfirmationRequest \<Rightarrow> Decision) \<Rightarrow> ConfirmationRequest \<Rightarrow> UserConfirmation option" where
  "ConfirmationRequest_ask confirm r =
     (case confirm r of Approved \<Rightarrow> Some UserConfirmation | Decision_Refused \<Rightarrow> None)"

record PostureState =
  ps_posture :: Posture
  ps_armed_until_ms :: "u64 option"

definition PostureState_new :: PostureState where
  "PostureState_new = \<lparr>ps_posture = Observe, ps_armed_until_ms = None\<rparr>"

definition PostureState_posture :: "PostureState \<Rightarrow> u64 \<Rightarrow> Posture" where
  "PostureState_posture s now_ms =
     (case (ps_posture s, ps_armed_until_ms s) of
        (Armed, Some until) \<Rightarrow> if now_ms \<ge> until then Observe else Armed
      | (p, _) \<Rightarrow> p)"

definition PostureState_simulate :: "PostureState \<Rightarrow> PostureState" where
  "PostureState_simulate s = s\<lparr>ps_posture := Simulate, ps_armed_until_ms := None\<rparr>"

text \<open>\<open>u64::saturating_add\<close>.\<close>

definition saturating_add_u64 :: "u64 \<Rightarrow> u64 \<Rightarrow> u64" where
  "saturating_add_u64 a b = (if unat a + unat b < 2 ^ 64 then a + b else - 1)"

definition PostureState_arm :: "PostureState \<Rightarrow> UserConfirmation \<Rightarrow> u64 \<Rightarrow> u64 \<Rightarrow> PostureState" where
  "PostureState_arm s _ now_ms ttl_ms =
     s\<lparr>ps_posture := Armed, ps_armed_until_ms := Some (saturating_add_u64 now_ms ttl_ms)\<rparr>"

definition PostureState_disarm :: "PostureState \<Rightarrow> PostureState" where
  "PostureState_disarm s = s\<lparr>ps_posture := Observe, ps_armed_until_ms := None\<rparr>"

definition PostureState_permits :: "PostureState \<Rightarrow> Effect \<Rightarrow> u64 \<Rightarrow> Permit" where
  "PostureState_permits s effect now_ms =
     (if is_categorically_refused effect then Denied CategoricallyRefused
      else let posture = PostureState_posture s now_ms in
      case effect of
        ReadLocalFile \<Rightarrow> Allowed
      | ReadDevice \<Rightarrow> Allowed
      | WriteSimulated \<Rightarrow>
          (case posture of Observe \<Rightarrow> Denied (PostureTooLow Simulate) | Simulate \<Rightarrow> Allowed | Armed \<Rightarrow> Allowed)
      | NetworkDiscovery \<Rightarrow> (case posture of Armed \<Rightarrow> RequiresConfirmation | _ \<Rightarrow> Denied (PostureTooLow Armed))
      | WriteLiveDevice \<Rightarrow> (case posture of Armed \<Rightarrow> RequiresConfirmation | _ \<Rightarrow> Denied (PostureTooLow Armed))
      | ChangeControllerMode \<Rightarrow> (case posture of Armed \<Rightarrow> RequiresConfirmation | _ \<Rightarrow> Denied (PostureTooLow Armed))
      | FirmwareOperation \<Rightarrow> Denied CategoricallyRefused
      | CredentialGuessing \<Rightarrow> Denied CategoricallyRefused
      | DenialOfService \<Rightarrow> Denied CategoricallyRefused)"

section \<open>Sequences of changes\<close>

datatype PostureChange = To_simulate | To_armed UserConfirmation u64 u64 | To_disarmed

fun posture_change :: "PostureState \<Rightarrow> PostureChange \<Rightarrow> PostureState" where
  "posture_change s To_simulate = PostureState_simulate s"
| "posture_change s (To_armed c now_ms ttl_ms) = PostureState_arm s c now_ms ttl_ms"
| "posture_change s To_disarmed = PostureState_disarm s"

definition posture_run :: "PostureChange list \<Rightarrow> PostureState" where
  "posture_run cs = foldl posture_change PostureState_new cs"

definition needs_armed :: "Effect \<Rightarrow> bool" where
  "needs_armed e \<longleftrightarrow> e \<in> {NetworkDiscovery, WriteLiveDevice, ChangeControllerMode}"

text \<open>The state after a run is set by its last change alone: each change writes both fields.\<close>

lemma posture_run_snoc: "posture_run (cs @ [c]) = posture_change PostureState_new c"
  by (cases c) (simp_all add: posture_run_def PostureState_new_def PostureState_simulate_def
      PostureState_arm_def PostureState_disarm_def)

lemma permits_needs_armed:
  "needs_armed e \<Longrightarrow> PostureState_permits s e now =
     (if PostureState_posture s now = Armed then RequiresConfirmation else Denied (PostureTooLow Armed))"
  by (cases e; cases "PostureState_posture s now")
    (simp_all add: needs_armed_def PostureState_permits_def is_categorically_refused_def)

lemma posture_armed_iff:
  "PostureState_posture (posture_run cs) now = Armed \<longleftrightarrow>
     (\<exists>pre c t ttl. cs = pre @ [To_armed c t ttl] \<and> now < saturating_add_u64 t ttl)"
proof (cases cs rule: rev_cases)
  case Nil
  then show ?thesis by (simp add: posture_run_def PostureState_new_def PostureState_posture_def)
next
  case (snoc pre c)
  then show ?thesis
    by (cases c) (auto simp: posture_run_snoc PostureState_new_def PostureState_posture_def
        PostureState_simulate_def PostureState_arm_def PostureState_disarm_def not_le)
qed

lemma unat_saturating_add_u64: "unat (saturating_add_u64 a b) = min (unat a + unat b) (2 ^ 64 - 1)"
proof -
  have "unat (- 1 :: u64) = 2 ^ 64 - 1" by (simp add: unsigned_minus_1_eq_mask mask_eq_exp_minus_1)
  then show ?thesis by (auto simp: saturating_add_u64_def unat_word_ariths)
qed

text \<open>
  Claim C24.  An effect that needs the armed posture (writing a live device, changing a controller's
  mode, discovering a network) is permitted, on confirmation, exactly while the window opened by the
  most recent change of posture is open: that change was an arming, made with a person's
  confirmation, and the window ends \<open>ttl\<close> after it without wrapping around.  At every other moment,
  and after every other change, it is denied.
\<close>
theorem live_effects_need_open_arming:
  assumes "needs_armed e"
  shows "PostureState_permits (posture_run cs) e now =
     (if \<exists>pre c t ttl. cs = pre @ [To_armed c t ttl] \<and> unat now < min (unat t + unat ttl) (2 ^ 64 - 1)
      then RequiresConfirmation else Denied (PostureTooLow Armed))"
  using assms posture_armed_iff [of cs now]
  by (simp add: permits_needs_armed word_less_nat_alt unat_saturating_add_u64)

theorem live_effects_need_open_arming_witness:
  "needs_armed WriteLiveDevice \<and>
   PostureState_permits (posture_run [To_simulate, To_armed UserConfirmation 5 10]) WriteLiveDevice 14 = RequiresConfirmation \<and>
   PostureState_permits (posture_run [To_simulate, To_armed UserConfirmation 5 10]) WriteLiveDevice 15 = Denied (PostureTooLow Armed)"
proof -
  have "needs_armed WriteLiveDevice" by (simp add: needs_armed_def)
  with live_effects_need_open_arming [of WriteLiveDevice "[To_simulate, To_armed UserConfirmation 5 10]"]
  show ?thesis by (simp add: Cons_eq_append_conv)
qed

end
