(* ===== verification/Modbus_Server.thy ===== *)
theory Modbus_Server
  imports Modbus_Device Modbus_Tcp Core_Posture
begin

text \<open>
  The simulator's connection handler, from \<open>crates/salman-modbus-net/src/server.rs\<close>: \<open>answer\<close> turns
  one frame into one reply, and \<open>serve\<close> runs the framer over the blocks a socket delivers and writes
  the replies.  The socket is an explicit script of what its reads return and whether its writes
  succeed; a poisoned mutex is a device that is \<open>None\<close>.  Binding is refused by the posture.
\<close>

section \<open>One frame\<close>

fun exception_for :: "DecodeError \<Rightarrow> ExceptionCode" where
  "exception_for (Dec_FunctionUnknown _) = ILLEGAL_FUNCTION"
| "exception_for (Dec_FunctionNotImplemented _) = ILLEGAL_FUNCTION"
| "exception_for (Dec_QuantityOutOfRange _ _ _) = ILLEGAL_DATA_VALUE"
| "exception_for (Dec_ByteCountDisagreesWithQuantity _ _ _) = ILLEGAL_DATA_VALUE"
| "exception_for (Dec_CoilValueNotOnOrOff _) = ILLEGAL_DATA_VALUE"
| "exception_for (Dec_Truncated _ _) = ILLEGAL_DATA_VALUE"
| "exception_for (Dec_TrailingBytes _) = ILLEGAL_DATA_VALUE"
| "exception_for (Dec_TooLong _) = ILLEGAL_DATA_VALUE"
| "exception_for Dec_Empty = ILLEGAL_DATA_VALUE"
| "exception_for (Dec_FunctionDoesNotAnswerRequest _ _) = ILLEGAL_DATA_VALUE"

definition answer :: "TcpAdu \<Rightarrow> Device option \<Rightarrow> (TcpAdu \<times> Device option) option" where
  "answer frame device =
     (let function = Pdu_function (tcp_pdu frame);
          reply = (\<lambda>response. TcpAdu_new (mbap_transaction (tcp_header frame)) (mbap_unit (tcp_header frame))
                     (Response_encode response)) in
      case Request_decode (Pdu_as_bytes (tcp_pdu frame)) of
        Inr request \<Rightarrow>
          (case device of
             None \<Rightarrow> None
           | Some d \<Rightarrow>
               (let (result, d') = Device_apply d request;
                    response = (case result of Inr response \<Rightarrow> response | Inl code \<Rightarrow> Rsp_Exception function code)
                in Some (reply response, Some d')))
      | Inl e \<Rightarrow> Some (reply (Rsp_Exception function (exception_for e)), device))"

section \<open>One connection\<close>

datatype ReadOutcome = Read_block "u8 list" | Read_quiet | Read_closed | Read_failed

record Connection =
  cn_framer :: Framer
  cn_device :: "Device option"
  cn_served :: u64
  cn_written :: "u8 list list"

text \<open>
  The inner loop over one block.  The parameter says whether the next \<open>write_all\<close> succeeds, given
  what was written so far; the flag returned is whether the connection stays open.
\<close>

function serve_block :: "(u8 list list \<Rightarrow> bool) \<Rightarrow> Connection \<Rightarrow> u8 list \<Rightarrow> bool \<times> Connection" where
  "serve_block write_ok c rest =
     (case Framer_advance (cn_framer c) rest of
        (used, Inr (Some frame), f') \<Rightarrow>
          (case answer frame (cn_device c) of
             None \<Rightarrow> (False, c\<lparr>cn_framer := f'\<rparr>)
           | Some (reply, dev) \<Rightarrow>
               (let c' = c\<lparr>cn_framer := f', cn_device := dev, cn_served := cn_served c + 1\<rparr>
                in if \<not> write_ok (cn_written c) then (False, c')
                   else serve_block write_ok (c'\<lparr>cn_written := cn_written c @ [TcpAdu_to_vec reply]\<rparr>) (drop used rest)))
      | (used, Inr None, f') \<Rightarrow> (True, c\<lparr>cn_framer := f'\<rparr>)
      | (used, Inl e, f') \<Rightarrow> (False, c\<lparr>cn_framer := f'\<rparr>))"
  by pat_completeness auto
termination
proof (relation "measure (\<lambda>(w, c, rest). fr_len (cn_framer c) + length rest)", goal_cases)
  case (2 w c rest used r f' frame_opt frame reply_dev reply dev c')
  then show ?case using Framer_advance_frame_progress [of "cn_framer c" rest used] by (auto dest!: sym [of "(_, _)"])
qed simp

declare serve_block.simps [simp del]

fun serve :: "(u8 list list \<Rightarrow> bool) \<Rightarrow> Connection \<Rightarrow> ReadOutcome list \<Rightarrow> Connection" where
  "serve write_ok c [] = c"
| "serve write_ok c (Read_block block # script) =
     (if block = [] then c
      else let (open_still, c') = serve_block write_ok c block
           in if open_still then serve write_ok c' script else c')"
| "serve write_ok c (Read_quiet # script) = serve write_ok c script"
| "serve write_ok c (Read_closed # script) = c"
| "serve write_ok c (Read_failed # script) = c"

definition Connection_new :: "Device \<Rightarrow> Connection" where
  "Connection_new d = \<lparr>cn_framer = Framer_new, cn_device = Some d, cn_served = 0, cn_written = []\<rparr>"

datatype ServerError = Server_Io | Server_Refused DenialReason | Server_DeviceUnavailable

text \<open>\<open>bind\<close> up to the socket: whether the posture lets a simulator run.\<close>

definition Server_bind_guard :: "PostureState \<Rightarrow> u64 \<Rightarrow> ServerError + unit" where
  "Server_bind_guard posture now_ms =
     (case PostureState_permits posture WriteSimulated now_ms of
        Allowed \<Rightarrow> Inr () | RequiresConfirmation \<Rightarrow> Inr () | Denied reason \<Rightarrow> Inl (Server_Refused reason))"

section \<open>What a client reads back\<close>

text \<open>The response to a request, exceptions included, as a function of the device.\<close>

definition outcome :: "Device \<Rightarrow> Request \<Rightarrow> Response" where
  "outcome d r = (case fst (Device_apply d r) of Inr rsp \<Rightarrow> rsp | Inl code \<Rightarrow> Rsp_Exception (Request_function r) code)"

lemma answers_outcome: "wf_Device d \<Longrightarrow> answers r (outcome d r)"
proof (cases "fst (Device_apply d r)")
  case (Inl e)
  then show ?thesis by (cases r) (simp_all add: outcome_def)
next
  case (Inr rsp)
  assume "wf_Device d"
  from apply_answers [OF this Inr] Inr show ?thesis by (simp add: outcome_def)
qed

lemma Pdu_function_eq: "wf_Pdu p \<Longrightarrow> Pdu_function p = hd (Pdu_as_bytes p)"
  by (cases "pdu_bytes p") (auto simp: Pdu_function_def Pdu_as_bytes_eq wf_Pdu_def limit_defs)

lemma answer_request:
  assumes "wf_Device d" "sendable r" "wf_Pdu (tcp_pdu a)" "Pdu_as_bytes (tcp_pdu a) = Request_wire r"
  shows "answer a (Some d) =
     Some (TcpAdu_new (mbap_transaction (tcp_header a)) (mbap_unit (tcp_header a)) (Response_encode (outcome d r)),
           Some (snd (Device_apply d r)))"
  using assms Request_decode_wire [OF assms(2)]
  by (simp add: answer_def Let_def split_def Pdu_function_eq outcome_def Request_wire_def)

lemma reply_bytes:
  assumes "wf_Device d"
  shows "wf_Pdu (Response_encode (outcome d r))"
    "Response_decode (Pdu_as_bytes (Response_encode (outcome d r))) r = Inr (outcome d r)"
  using Response_encode_wire [OF answers_wf [OF answers_outcome [OF assms]]]
    Response_decode_wire [OF answers_outcome [OF assms]] by simp_all

text \<open>Any frame at all gets a reply, and leaves a well-formed device well formed.\<close>

lemma answer_total:
  assumes "wf_Device d"
  obtains reply d' where "answer a (Some d) = Some (reply, Some d')" "wf_Device d'"
    "mbap_transaction (tcp_header reply) = mbap_transaction (tcp_header a)"
    "mbap_unit (tcp_header reply) = mbap_unit (tcp_header a)" "wf_TcpAdu reply"
proof (cases "Request_decode (Pdu_as_bytes (tcp_pdu a))")
  case (Inl e)
  have "wf_Pdu (Response_encode (Rsp_Exception f c))" for f c by (rule Response_encode_wire) simp
  with Inl assms that show ?thesis
    by (auto simp: answer_def Let_def TcpAdu_new_def MbapHeader_for_pdu_def wf_TcpAdu_def)
next
  case (Inr r)
  then have r: "sendable r" "wf_Request r" using Request_decode_Inr by (auto simp: sendable_def)
  let ?rsp = "case fst (Device_apply d r) of Inr rsp \<Rightarrow> rsp | Inl code \<Rightarrow> Rsp_Exception (Pdu_function (tcp_pdu a)) code"
  have "wf_Response ?rsp"
    using apply_answers [OF assms] answers_wf by (cases "fst (Device_apply d r)") auto
  from Response_encode_wire(1) [OF this] Inr apply_wf [OF assms r(2)] show ?thesis
    by (intro that [of "TcpAdu_new (mbap_transaction (tcp_header a)) (mbap_unit (tcp_header a)) (Response_encode ?rsp)"
          "snd (Device_apply d r)"])
      (simp_all add: answer_def Let_def split_def TcpAdu_new_def MbapHeader_for_pdu_def wf_TcpAdu_def)
qed

section \<open>The loop as a fold over frames\<close>

fun handle_frames :: "Connection \<Rightarrow> TcpAdu list \<Rightarrow> Connection" where
  "handle_frames c [] = c"
| "handle_frames c (a # as) =
     (case answer a (cn_device c) of
        None \<Rightarrow> c
      | Some (reply, dev) \<Rightarrow>
          handle_frames (c\<lparr>cn_device := dev, cn_served := cn_served c + 1,
            cn_written := cn_written c @ [TcpAdu_to_vec reply]\<rparr>) as)"

lemma handle_frames_framer: "handle_frames (c\<lparr>cn_framer := f\<rparr>) as = (handle_frames c as)\<lparr>cn_framer := f\<rparr>"
proof (induction as arbitrary: c)
  case (Cons a as)
  show ?case
  proof (cases "answer a (cn_device c)")
    case (Some rd)
    obtain reply dev where "rd = (reply, dev)" by force
    with Some Cons.IH [of "c\<lparr>cn_device := dev, cn_served := cn_served c + 1,
        cn_written := cn_written c @ [TcpAdu_to_vec reply]\<rparr>"] show ?thesis by (cases c) simp
  qed simp
qed simp

lemma serve_block_frames:
  assumes "cn_device c = Some d" "wf_Device d" "pump (cn_framer c) rest = (as, e, f')"
  shows "serve_block (\<lambda>_. True) c rest = (e = None, (handle_frames c as)\<lparr>cn_framer := f'\<rparr>)"
  using assms
proof (induction "cn_framer c" rest arbitrary: c d as rule: pump.induct)
  case (1 rest c)
  obtain used out f1 where adv: "Framer_advance (cn_framer c) rest = (used, out, f1)" by (metis prod_cases3)
  consider (frame) a where "out = Inr (Some a)" | (quiet) "out = Inr None" | (lost) e' where "out = Inl e'"
    by (metis option.exhaust sum.exhaust)
  then show ?case
  proof cases
    case frame
    from answer_total [OF 1(3), of a] obtain reply d' where an: "answer a (Some d) = Some (reply, Some d')" "wf_Device d'"
      by blast
    obtain bs where bs: "pump f1 (drop used rest) = (bs, e, f')" "as = a # bs"
      using 1(4) by (auto simp: pump.simps [of "cn_framer c" rest] adv frame split: prod.splits)
    let ?c = "c\<lparr>cn_framer := f1, cn_device := Some d', cn_served := cn_served c + 1,
      cn_written := cn_written c @ [TcpAdu_to_vec reply]\<rparr>"
    have "serve_block (\<lambda>_. True) ?c (drop used rest) = (e = None, (handle_frames ?c bs)\<lparr>cn_framer := f'\<rparr>)"
      by (rule 1(1) [OF adv [symmetric] _ frame refl]) (use an(2) bs(1) in simp_all)
    moreover have "serve_block (\<lambda>_. True) c rest = serve_block (\<lambda>_. True) ?c (drop used rest)"
      using 1(2) an by (simp add: serve_block.simps [of _ c rest] adv frame)
    moreover have "(handle_frames ?c bs)\<lparr>cn_framer := f'\<rparr> = (handle_frames c as)\<lparr>cn_framer := f'\<rparr>"
      using 1(2) an handle_frames_framer [of f1 "?c\<lparr>cn_framer := cn_framer c\<rparr>" bs] by (cases c) (simp add: bs(2))
    ultimately show ?thesis by simp
  qed (use 1 adv in \<open>auto simp: serve_block.simps [of _ c rest] pump.simps [of "cn_framer c" rest]\<close>)
qed

text \<open>The reads of a healthy connection: blocks, none of them empty, with pauses between.\<close>

fun blocks_of :: "ReadOutcome list \<Rightarrow> u8 list list" where
  "blocks_of [] = []"
| "blocks_of (Read_block b # script) = b # blocks_of script"
| "blocks_of (_ # script) = blocks_of script"

definition healthy :: "ReadOutcome list \<Rightarrow> bool" where
  "healthy script \<longleftrightarrow> list_all (\<lambda>e. case e of Read_block b \<Rightarrow> b \<noteq> [] | Read_quiet \<Rightarrow> True | _ \<Rightarrow> False) script"

lemma handle_frames_append:
  "cn_device c = Some d \<Longrightarrow> wf_Device d \<Longrightarrow> handle_frames c (as @ bs) = handle_frames (handle_frames c as) bs"
proof (induction as arbitrary: c d)
  case (Cons a as)
  from answer_total [OF Cons.prems(2), of a] obtain reply d' where "answer a (Some d) = Some (reply, Some d')" "wf_Device d'"
    by blast
  with Cons show ?case by simp
qed simp

lemma handle_frames_wf:
  "cn_device c = Some d \<Longrightarrow> wf_Device d \<Longrightarrow> \<exists>d'. cn_device (handle_frames c as) = Some d' \<and> wf_Device d'"
proof (induction as arbitrary: c d)
  case (Cons a as)
  from answer_total [OF Cons.prems(2), of a] obtain reply d' where "answer a (Some d) = Some (reply, Some d')" "wf_Device d'"
    by blast
  with Cons show ?case by simp
qed simp

lemma handle_frames_cn_framer [simp]: "cn_framer (handle_frames c as) = cn_framer c"
  by (induction c as rule: handle_frames.induct) (auto split: option.splits)

lemma serve_frames:
  assumes "healthy script" "cn_device c = Some d" "wf_Device d" "mid_stream (cn_framer c)"
    "pump_all (cn_framer c) (blocks_of script) = (as, e, f')"
  shows "serve (\<lambda>_. True) c script = (handle_frames c as)\<lparr>cn_framer := f'\<rparr>"
  using assms
proof (induction script arbitrary: c d as)
  case Nil
  then show ?case by simp
next
  case (Cons r script)
  show ?case
  proof (cases r)
    case (Read_block b)
    have b: "b \<noteq> []" "healthy script" using Cons.prems(1) by (simp_all add: healthy_def Read_block)
    obtain as1 e1 f1 where p1: "pump (cn_framer c) b = (as1, e1, f1)" by (metis prod_cases3)
    note sb = serve_block_frames [OF Cons.prems(2,3) p1]
    let ?c = "(handle_frames c as1)\<lparr>cn_framer := f1\<rparr>"
    show ?thesis
    proof (cases e1)
      case (Some x)
      with Cons.prems(5) p1 sb b(1) show ?thesis by (auto simp: Read_block)
    next
      case None
      from Cons.prems(5) None obtain as2 where p2: "pump_all f1 (blocks_of script) = (as2, e, f')" "as = as1 @ as2"
        by (auto simp: Read_block p1 split: prod.splits)
      obtain d1 where d1: "cn_device ?c = Some d1" "wf_Device d1" using handle_frames_wf [OF Cons.prems(2,3), of as1] by auto
      have "mid_stream f1"
      proof -
        obtain xs y z where q: "parse_stream (held (cn_framer c) @ b) = (xs, y, z)" by (metis prod_cases3)
        with pump_refines [OF Cons.prems(4) q] p1 None show ?thesis by auto
      qed
      with Cons.IH [OF b(2) d1] p2(1) have "serve (\<lambda>_. True) ?c script = (handle_frames ?c as2)\<lparr>cn_framer := f'\<rparr>" by simp
      moreover have "(handle_frames ?c as2)\<lparr>cn_framer := f'\<rparr> = (handle_frames c as)\<lparr>cn_framer := f'\<rparr>"
        by (simp add: p2(2) handle_frames_append [OF Cons.prems(2,3)] handle_frames_framer)
      ultimately show ?thesis using sb b(1) None by (simp add: Read_block)
    qed
  next
    case Read_quiet
    with Cons show ?thesis by (simp add: healthy_def)
  qed (use Cons.prems(1) in \<open>simp_all add: healthy_def\<close>)
qed

section \<open>End to end\<close>

fun outcomes :: "Device \<Rightarrow> Request list \<Rightarrow> Response list" where
  "outcomes d [] = []"
| "outcomes d (r # rs) = outcome d r # outcomes (snd (Device_apply d r)) rs"

definition applied :: "Device \<Rightarrow> Request list \<Rightarrow> Device" where
  "applied d rs = foldl (\<lambda>d r. snd (Device_apply d r)) d rs"

definition ids_of :: "TcpAdu \<Rightarrow> u16 \<times> u8" where
  "ids_of a = (mbap_transaction (tcp_header a), mbap_unit (tcp_header a))"

lemma ids_of_new [simp]: "ids_of (TcpAdu_new t u p) = (t, u)"
  by (simp add: ids_of_def TcpAdu_new_def MbapHeader_for_pdu_def)

text \<open>Frames that carry requests, and the connection after handling them.\<close>

definition carries :: "TcpAdu \<Rightarrow> (u16 \<times> u8) \<times> Request \<Rightarrow> bool" where
  "carries a ir \<longleftrightarrow> wf_Pdu (tcp_pdu a) \<and> ids_of a = fst ir \<and> sendable (snd ir) \<and>
     Pdu_as_bytes (tcp_pdu a) = Request_wire (snd ir)"

definition replies_to :: "Device \<Rightarrow> ((u16 \<times> u8) \<times> Request) list \<Rightarrow> TcpAdu list" where
  "replies_to d irs =
     map2 (\<lambda>i rsp. TcpAdu_new (fst i) (snd i) (Response_encode rsp)) (map fst irs) (outcomes d (map snd irs))"

lemma handle_requests:
  assumes "list_all2 carries as irs" "cn_device c = Some d" "wf_Device d"
  shows "handle_frames c as = c\<lparr>cn_device := Some (applied d (map snd irs)),
     cn_served := cn_served c + of_nat (length irs), cn_written := cn_written c @ map TcpAdu_to_vec (replies_to d irs)\<rparr>"
  using assms
proof (induction as irs arbitrary: c d rule: list_all2_induct)
  case Nil
  then show ?case by (cases c) (simp add: applied_def replies_to_def)
next
  case (Cons a as ir irs)
  have r: "sendable (snd ir)" "wf_Request (snd ir)" using Cons.hyps by (auto simp: carries_def sendable_def)
  let ?d = "snd (Device_apply d (snd ir))"
  let ?reply = "TcpAdu_new (fst (fst ir)) (snd (fst ir)) (Response_encode (outcome d (snd ir)))"
  let ?c = "c\<lparr>cn_device := Some ?d, cn_served := cn_served c + 1, cn_written := cn_written c @ [TcpAdu_to_vec ?reply]\<rparr>"
  have "answer a (Some d) = Some (?reply, Some ?d)"
    using answer_request [OF Cons.prems(2) r(1), of a] Cons.hyps(1) by (auto simp: carries_def ids_of_def prod_eq_iff)
  with Cons.prems have "handle_frames c (a # as) = handle_frames ?c as" by simp
  also have "\<dots> = ?c\<lparr>cn_device := Some (applied ?d (map snd irs)), cn_served := cn_served ?c + of_nat (length irs),
      cn_written := cn_written ?c @ map TcpAdu_to_vec (replies_to ?d irs)\<rparr>"
    using Cons.prems apply_wf [OF Cons.prems(2) r(2)] by (intro Cons.IH) simp_all
  finally show ?case by (cases c) (simp add: applied_def replies_to_def)
qed

lemma list_all2_wf_outcomes:
  "wf_Device d \<Longrightarrow> list_all wf_Request rs \<Longrightarrow> list_all2 (\<lambda>r rsp. wf_Pdu (Response_encode rsp) \<and>
     Response_decode (Pdu_as_bytes (Response_encode rsp)) r = Inr rsp) rs (outcomes d rs)"
  by (induction rs arbitrary: d) (simp_all add: reply_bytes apply_wf)

lemma length_outcomes [simp]: "length (outcomes d rs) = length rs"
  by (induction rs arbitrary: d) simp_all

text \<open>What the client makes of the replies: they parse into one frame per request, in order.\<close>

lemma replies_parse:
  assumes "wf_Device d" "list_all wf_Request (map snd irs)"
  shows "\<exists>as. parse_stream (concat (map TcpAdu_to_vec (replies_to d irs))) = (as, None, []) \<and> map ids_of as = map fst irs \<and>
     map2 (\<lambda>a r. Response_decode (Pdu_as_bytes (tcp_pdu a)) r) as (map snd irs) = map Inr (outcomes d (map snd irs))"
proof -
  note all = list_all2_wf_outcomes [OF assms]
  have wf: "list_all wf_TcpAdu (replies_to d irs)"
    using all by (auto simp: list_all_length replies_to_def list_all2_conv_all_nth)
  from parse_stream_sent [OF wf, of "[]"] obtain as where as: "list_all2 TcpAdu_eq as (replies_to d irs)"
    "parse_stream (concat (map TcpAdu_to_vec (replies_to d irs))) = (as, None, [])"
    by (auto simp: parse_stream_Nil)
  have len: "length as = length irs" using list_all2_lengthD [OF as(1)] by (simp add: replies_to_def)
  have nth: "TcpAdu_eq (as ! i) (TcpAdu_new (fst (fst (irs ! i))) (snd (fst (irs ! i))) (Response_encode (outcomes d (map snd irs) ! i)))"
    if "i < length irs" for i
    using list_all2_nthD [OF as(1), of i] that len by (simp add: replies_to_def)
  have "map ids_of as = map fst irs"
  proof (rule nth_equalityI)
    fix i assume "i < length (map ids_of as)"
    with nth [of i] len show "map ids_of as ! i = map fst irs ! i"
      by (simp add: TcpAdu_eq_def ids_of_def TcpAdu_new_def MbapHeader_for_pdu_def)
  qed (simp add: len)
  moreover have "map2 (\<lambda>a r. Response_decode (Pdu_as_bytes (tcp_pdu a)) r) as (map snd irs) = map Inr (outcomes d (map snd irs))"
  proof (rule nth_equalityI)
    fix i assume "i < length (map2 (\<lambda>a r. Response_decode (Pdu_as_bytes (tcp_pdu a)) r) as (map snd irs))"
    then have i: "i < length irs" by (simp add: len)
    with nth [of i] list_all2_nthD [OF all, of i] len
    show "map2 (\<lambda>a r. Response_decode (Pdu_as_bytes (tcp_pdu a)) r) as (map snd irs) ! i = map Inr (outcomes d (map snd irs)) ! i"
      by (simp add: TcpAdu_eq_def Pdu_eq_def TcpAdu_new_def)
  qed (simp add: len)
  ultimately show ?thesis using as(2) by blast
qed

text \<open>The frames a client sends for its requests.\<close>

definition sent_frames :: "(u16 \<times> u8) list \<Rightarrow> Pdu list \<Rightarrow> TcpAdu list" where
  "sent_frames ids pdus = map2 (\<lambda>i p. TcpAdu_new (fst i) (snd i) p) ids pdus"

lemma sent_pdu:
  assumes "map Request_encode reqs = map Inr pdus" "list_all wf_Request reqs" "i < length reqs"
  shows "length pdus = length reqs" "wf_Pdu (pdus ! i)" "sendable (reqs ! i)" "Pdu_as_bytes (pdus ! i) = Request_wire (reqs ! i)"
proof -
  show len: "length pdus = length reqs" using assms(1) by (metis length_map)
  have "Request_encode (reqs ! i) = Inr (pdus ! i)" "wf_Request (reqs ! i)"
    using assms len by (metis nth_map, simp add: list_all_length)
  then show "wf_Pdu (pdus ! i)" "sendable (reqs ! i)" "Pdu_as_bytes (pdus ! i) = Request_wire (reqs ! i)"
    using Request_encode_Inr_wire Request_encode_wire by fastforce+
qed

lemma sent_frames_carry:
  assumes "length ids = length reqs" "map Request_encode reqs = map Inr pdus" "list_all wf_Request reqs"
  shows "list_all wf_TcpAdu (sent_frames ids pdus)"
    and "list_all2 TcpAdu_eq as (sent_frames ids pdus) \<Longrightarrow> list_all (\<lambda>a. wf_Pdu (tcp_pdu a)) as \<Longrightarrow>
      list_all2 carries as (zip ids reqs)"
proof -
  have len: "length pdus = length reqs" using assms(2) by (metis length_map)
  note pdu = sent_pdu(2-4) [OF assms(2,3)]
  show "list_all wf_TcpAdu (sent_frames ids pdus)"
    using pdu len assms(1) by (simp add: sent_frames_def list_all_length)
  show "list_all2 TcpAdu_eq as (sent_frames ids pdus) \<Longrightarrow> list_all (\<lambda>a. wf_Pdu (tcp_pdu a)) as \<Longrightarrow>
      list_all2 carries as (zip ids reqs)"
    using pdu len assms(1)
    by (auto simp: list_all2_conv_all_nth sent_frames_def carries_def list_all_length TcpAdu_eq_def Pdu_eq_def
        ids_of_def TcpAdu_new_def MbapHeader_for_pdu_def)
qed

lemma serve_requests:
  assumes "wf_Device d" "list_all wf_Request reqs" "map Request_encode reqs = map Inr pdus" "length ids = length reqs"
    and "healthy script" "concat (blocks_of script) = concat (map TcpAdu_to_vec (sent_frames ids pdus))"
  shows "\<exists>f. serve (\<lambda>_. True) (Connection_new d) script =
     \<lparr>cn_framer = f, cn_device = Some (applied d reqs), cn_served = of_nat (length reqs),
      cn_written = map TcpAdu_to_vec (replies_to d (zip ids reqs))\<rparr>"
proof -
  note sent = sent_frames_carry [OF assms(4,3,2)]
  from parse_stream_sent [OF sent(1), of "[]"] obtain as where as: "list_all2 TcpAdu_eq as (sent_frames ids pdus)"
    "parse_stream (held Framer_new @ concat (blocks_of script)) = (as, None, [])"
    by (auto simp: assms(6) parse_stream_Nil)
  from pump_all_refines [OF mid_stream_new(1) as(2)] obtain f where f: "pump_all Framer_new (blocks_of script) = (as, None, f)"
    by blast
  have "serve (\<lambda>_. True) (Connection_new d) script = (handle_frames (Connection_new d) as)\<lparr>cn_framer := f\<rparr>"
    using f by (intro serve_frames [OF assms(5) _ assms(1)]) (simp_all add: Connection_new_def)
  also have "handle_frames (Connection_new d) as = (Connection_new d)\<lparr>cn_device := Some (applied d reqs),
     cn_served := of_nat (length reqs), cn_written := map TcpAdu_to_vec (replies_to d (zip ids reqs))\<rparr>"
    using handle_requests [OF sent(2) [OF as(1) parse_stream_wf [OF as(2)]] _ assms(1), of "Connection_new d"] assms(4)
    by (simp add: Connection_new_def)
  finally show ?thesis by (simp add: Connection_new_def)
qed

text \<open>
  Claim C16.  End to end: whatever requests a client encodes, however the network cuts their bytes
  into blocks and whatever pauses it makes, the server applies exactly those requests to the device,
  in order, and the bytes it writes back parse into one frame per request, carrying that request's
  transaction and unit identifiers and decoding to that request's outcome, exceptions included.
\<close>
theorem server_serves_every_request:
  assumes "wf_Device d" "list_all wf_Request reqs" "map Request_encode reqs = map Inr pdus" "length ids = length reqs"
    and "healthy script" "concat (blocks_of script) = concat (map TcpAdu_to_vec (sent_frames ids pdus))"
  defines "c \<equiv> serve (\<lambda>_. True) (Connection_new d) script"
  shows "cn_device c = Some (applied d reqs) \<and> cn_served c = of_nat (length reqs) \<and>
     (\<exists>replies. parse_stream (concat (cn_written c)) = (replies, None, []) \<and> map ids_of replies = ids \<and>
        map2 (\<lambda>a r. Response_decode (Pdu_as_bytes (tcp_pdu a)) r) replies reqs = map Inr (outcomes d reqs))"
  using serve_requests [OF assms(1-6)] replies_parse [OF assms(1), of "zip ids reqs"] assms(2,4) unfolding c_def by auto

theorem server_serves_every_request_witness:
  "\<exists>p. Request_encode (Req_WriteSingleRegister 3 7) = Inr p \<and>
     (let d = Device_with_registers Device_empty Word_HoldingRegisters 0 10;
          bytes = TcpAdu_to_vec (TcpAdu_new 9 1 p);
          c = serve (\<lambda>_. True) (Connection_new d) [Read_block (take 5 bytes), Read_quiet, Read_block (drop 5 bytes)]
      in cn_device c = Some (applied d [Req_WriteSingleRegister 3 7]) \<and> cn_served c = of_nat (length [Req_WriteSingleRegister 3 7]) \<and>
        (\<exists>replies. parse_stream (concat (cn_written c)) = (replies, None, []) \<and> map ids_of replies = [(9, 1)] \<and>
          map2 (\<lambda>a r. Response_decode (Pdu_as_bytes (tcp_pdu a)) r) replies [Req_WriteSingleRegister 3 7] =
            map Inr (outcomes d [Req_WriteSingleRegister 3 7])))"
proof -
  have "sendable (Req_WriteSingleRegister 3 7)" by (simp add: sendable_def)
  from Request_encode_wire [OF this] obtain p where p: "Request_encode (Req_WriteSingleRegister 3 7) = Inr p" "wf_Pdu p"
    "Pdu_as_bytes p = Request_wire (Req_WriteSingleRegister 3 7)" by blast
  let ?bytes = "TcpAdu_to_vec (TcpAdu_new 9 1 p)"
  have len: "length ?bytes = 12"
    by (simp add: TcpAdu_to_vec_def MbapHeader_to_bytes_nth TcpAdu_new_def p(3) Request_wire_def)
  then have "?bytes \<noteq> []" by auto
  have wf: "wf_Device (Device_with_registers Device_empty Word_HoldingRegisters 0 10)"
    by (simp add: Device_with_registers_def Device_empty_def wf_Device_def wf_Block_def)
  let ?script = "[Read_block (take 5 ?bytes), Read_quiet, Read_block (drop 5 ?bytes)]"
  have "healthy ?script" using len \<open>?bytes \<noteq> []\<close> by (simp add: healthy_def)
  moreover have "concat (blocks_of ?script) = concat (map TcpAdu_to_vec (sent_frames [(9, 1)] [p]))"
    by (simp add: sent_frames_def)
  ultimately show ?thesis
    using p(1) server_serves_every_request [OF wf, of "[Req_WriteSingleRegister 3 7]" "[p]" "[(9, 1)]" ?script]
    unfolding Let_def by (intro exI [of _ p]) simp
qed

end
