(* ===== verification/Modbus_Client.thy ===== *)
theory Modbus_Client
  imports Modbus_Server
begin

text \<open>
  The client, from \<open>crates/salman-modbus-net/src/client.rs\<close>: transaction numbers, the guards on reads
  and writes, and \<open>exchange\<close>, which sends one request and waits for the frame that answers it.  The
  clock is a parameter: \<open>expired n\<close> is whether the deadline has passed at the \<open>n\<close>-th look at it.  The
  socket is a script of read outcomes, as for the server.
\<close>

datatype ClientError =
    Client_Io
  | Client_ConnectionClosed
  | Client_TimedOut u64
  | Client_Framing FrameError
  | Client_Decode DecodeError
  | Client_Encode EncodeError
  | Client_Exception ExceptionCode u8
  | Client_NotARead u8
  | Client_NotAWrite u8
  | Client_Refused DenialReason

record Client =
  cl_framer :: Framer
  cl_residue :: "u8 list"
  cl_next_transaction :: u16
  cl_unmatched_responses :: u64
  cl_sent :: "u8 list list"

text \<open>\<open>from_stream\<close>, without the socket options; \<open>cl_sent\<close> records what \<open>write_all\<close> was given.\<close>

definition Client_from_stream :: Client where
  "Client_from_stream = \<lparr>cl_framer = Framer_new, cl_residue = [], cl_next_transaction = 1,
     cl_unmatched_responses = 0, cl_sent = []\<rparr>"

definition allocate_transaction :: "Client \<Rightarrow> u16 \<times> Client" where
  "allocate_transaction c =
     (let transaction = cl_next_transaction c;
          next = (if unat transaction + 1 < 65536 then transaction + 1 else 1)
      in (transaction, c\<lparr>cl_next_transaction := next\<rparr>))"

section \<open>Waiting for the answer\<close>

datatype scan = Found TcpAdu | Starved | Failed ClientError

text \<open>The inner loop over the bytes in hand.\<close>

function exchange_scan :: "(nat \<Rightarrow> bool) \<Rightarrow> u16 \<Rightarrow> Client \<Rightarrow> nat \<Rightarrow> u8 list \<Rightarrow> scan \<times> Client \<times> nat" where
  "exchange_scan expired transaction c n rest =
     (case Framer_advance (cl_framer c) rest of
        (used, Inr (Some frame), f') \<Rightarrow>
          (let rest' = drop used rest in
           if mbap_transaction (tcp_header frame) = transaction
           then (Found frame, c\<lparr>cl_framer := f', cl_residue := rest'\<rparr>, n)
           else let c' = c\<lparr>cl_framer := f', cl_unmatched_responses := cl_unmatched_responses c + 1\<rparr> in
             if expired n
             then (Failed (Client_TimedOut (cl_unmatched_responses c')), c'\<lparr>cl_residue := rest'\<rparr>, Suc n)
             else exchange_scan expired transaction c' (Suc n) rest')
      | (used, Inr None, f') \<Rightarrow> (Starved, c\<lparr>cl_framer := f'\<rparr>, n)
      | (used, Inl e, f') \<Rightarrow> (Failed (Client_Framing e), c\<lparr>cl_framer := f', cl_residue := []\<rparr>, n))"
  by pat_completeness auto
termination
proof (relation "measure (\<lambda>(x, t, c, n, rest). fr_len (cl_framer c) + length rest)", goal_cases)
  case (2 x t c n rest used r f' opt frame rest' c')
  then show ?case using Framer_advance_frame_progress [of "cl_framer c" rest used] by (auto dest!: sym [of "(_, _)"])
qed simp

declare exchange_scan.simps [simp del]

text \<open>What \<open>exchange\<close> does with the frame that carries its transaction.\<close>

definition exchange_result :: "u8 \<Rightarrow> Request \<Rightarrow> TcpAdu \<Rightarrow> ClientError + Response" where
  "exchange_result un request frame =
     (case Response_decode (Pdu_as_bytes (tcp_pdu frame)) request of
        Inl e \<Rightarrow> Inl (Client_Decode e)
      | Inr (Rsp_Exception f code) \<Rightarrow> Inl (Client_Exception code un)
      | Inr response \<Rightarrow> Inr response)"

text \<open>The outer loop.  \<open>None\<close> is a script that ended while the client still waited.\<close>

fun exchange_loop :: "(nat \<Rightarrow> bool) \<Rightarrow> u16 \<Rightarrow> u8 \<Rightarrow> Request \<Rightarrow> Client \<Rightarrow> nat \<Rightarrow> u8 list \<Rightarrow> ReadOutcome list \<Rightarrow>
    ((ClientError + Response) \<times> Client) option" where
  "exchange_loop expired transaction un request c n pending reads =
     (case exchange_scan expired transaction c n pending of
        (Found frame, c', n') \<Rightarrow> Some (exchange_result un request frame, c')
      | (Failed e, c', n') \<Rightarrow> Some (Inl e, c')
      | (Starved, c', n') \<Rightarrow>
          if expired n' then Some (Inl (Client_TimedOut (cl_unmatched_responses c')), c')
          else case reads of
              [] \<Rightarrow> None
            | Read_block block # reads' \<Rightarrow>
                if block = [] then Some (Inl Client_ConnectionClosed, c')
                else exchange_loop expired transaction un request c' (Suc n') block reads'
            | Read_closed # _ \<Rightarrow> Some (Inl Client_ConnectionClosed, c')
            | Read_quiet # _ \<Rightarrow> Some (Inl (Client_TimedOut (cl_unmatched_responses c')), c')
            | Read_failed # _ \<Rightarrow> Some (Inl Client_Io, c'))"

declare exchange_loop.simps [simp del]

definition exchange :: "bool \<Rightarrow> (nat \<Rightarrow> bool) \<Rightarrow> Client \<Rightarrow> u8 \<Rightarrow> Request \<Rightarrow> ReadOutcome list \<Rightarrow>
    ((ClientError + Response) \<times> Client) option" where
  "exchange write_ok expired c un request reads =
     (let (transaction, c) = allocate_transaction c in
      case Request_encode request of
        Inl e \<Rightarrow> Some (Inl (Client_Encode e), c)
      | Inr pdu \<Rightarrow>
          (let adu = TcpAdu_new transaction un pdu;
               c = c\<lparr>cl_sent := cl_sent c @ [TcpAdu_to_vec adu]\<rparr> in
           if \<not> write_ok then Some (Inl Client_Io, c)
           else exchange_loop expired transaction un request (c\<lparr>cl_residue := []\<rparr>) 0 (cl_residue c) reads))"

section \<open>The guarded operations\<close>

definition Client_read_from :: "bool \<Rightarrow> (nat \<Rightarrow> bool) \<Rightarrow> Client \<Rightarrow> u8 \<Rightarrow> Request \<Rightarrow> ReadOutcome list \<Rightarrow>
    ((ClientError + Response) \<times> Client) option" where
  "Client_read_from write_ok expired c un request reads =
     (if Request_is_write request then Some (Inl (Client_NotARead (Request_function request)), c)
      else exchange write_ok expired c un request reads)"

definition Client_write :: "bool \<Rightarrow> (nat \<Rightarrow> bool) \<Rightarrow> Client \<Rightarrow> u8 \<Rightarrow> Request \<Rightarrow> PostureState \<Rightarrow> u64 \<Rightarrow> UserConfirmation \<Rightarrow>
    ReadOutcome list \<Rightarrow> ((ClientError + Response) \<times> Client) option" where
  "Client_write write_ok expired c un request posture now_ms confirmation reads =
     (if \<not> Request_is_write request then Some (Inl (Client_NotAWrite (Request_function request)), c)
      else case PostureState_permits posture WriteLiveDevice now_ms of
          RequiresConfirmation \<Rightarrow> exchange write_ok expired c un request reads
        | Allowed \<Rightarrow> exchange write_ok expired c un request reads
        | Denied reason \<Rightarrow> Some (Inl (Client_Refused reason), c))"

definition Client_write_simulated :: "bool \<Rightarrow> (nat \<Rightarrow> bool) \<Rightarrow> Client \<Rightarrow> u8 \<Rightarrow> Request \<Rightarrow> ReadOutcome list \<Rightarrow>
    ((ClientError + Response) \<times> Client) option" where
  "Client_write_simulated write_ok expired c un request reads =
     (if \<not> Request_is_write request then Some (Inl (Client_NotAWrite (Request_function request)), c)
      else exchange write_ok expired c un request reads)"

section \<open>The search for the answer\<close>

definition mine :: "u16 \<Rightarrow> TcpAdu \<Rightarrow> bool" where
  "mine t a \<longleftrightarrow> mbap_transaction (tcp_header a) = t"

definition stale :: "u16 \<Rightarrow> TcpAdu list \<Rightarrow> TcpAdu list" where
  "stale t as = takeWhile (\<lambda>a. \<not> mine t a) as"

definition from_mine :: "u16 \<Rightarrow> TcpAdu list \<Rightarrow> TcpAdu list" where
  "from_mine t as = dropWhile (\<lambda>a. \<not> mine t a) as"

lemma stale_simps [simp]:
  "stale t [] = []" "from_mine t [] = []"
  "stale t (a # as) = (if mine t a then [] else a # stale t as)"
  "from_mine t (a # as) = (if mine t a then a # as else from_mine t as)"
  by (simp_all add: stale_def from_mine_def)

text \<open>While the deadline holds, the scan skips and counts the stale frames and stops at the first of its own.\<close>

definition skip_stale :: "Client \<Rightarrow> Framer \<Rightarrow> nat \<Rightarrow> Client" where
  "skip_stale c f k = c\<lparr>cl_framer := f, cl_unmatched_responses := cl_unmatched_responses c + of_nat k\<rparr>"

lemma skip_stale_step:
  "skip_stale (c\<lparr>cl_framer := f, cl_unmatched_responses := cl_unmatched_responses c + 1\<rparr>) f' k = skip_stale c f' (Suc k)"
  by (simp add: skip_stale_def add.assoc)

definition scan_ends :: "u16 \<Rightarrow> TcpAdu list \<Rightarrow> FrameError option \<Rightarrow> u8 list \<Rightarrow> Client \<Rightarrow> nat \<Rightarrow> scan \<times> Client \<times> nat \<Rightarrow> bool" where
  "scan_ends t as e r c n out \<longleftrightarrow>
     (let k = length (stale t as) in
      case from_mine t as of
        a # _ \<Rightarrow> \<exists>f' res. mid_stream f' \<and> held f' = [] \<and>
          out = (Found a, (skip_stale c f' k)\<lparr>cl_residue := res\<rparr>, n + k)
      | [] \<Rightarrow> (case e of
          None \<Rightarrow> \<exists>f'. mid_stream f' \<and> held f' = r \<and> out = (Starved, skip_stale c f' k, n + k)
        | Some x \<Rightarrow> \<exists>f'. out = (Failed (Client_Framing x), (skip_stale c f' k)\<lparr>cl_residue := []\<rparr>, n + k)))"

lemma scan_ends_step:
  assumes "\<not> mine t a" "scan_ends t as e r (c\<lparr>cl_framer := f, cl_unmatched_responses := cl_unmatched_responses c + 1\<rparr>) (Suc n) out"
  shows "scan_ends t (a # as) e r c n out"
  using assms by (simp add: scan_ends_def Let_def skip_stale_step split: list.splits option.splits)

lemma exchange_scan_spec:
  assumes "mid_stream (cl_framer c)" "parse_stream (held (cl_framer c) @ rest) = (as, e, r)"
  shows "scan_ends t as e r c n (exchange_scan (\<lambda>_. False) t c n rest)"
  using assms
proof (induction "cl_framer c" rest arbitrary: c n as rule: pump.induct)
  case (1 rest c)
  let ?s = "held (cl_framer c) @ rest"
  note adv = Framer_advance_refines [OF 1(2), of rest]
  show ?case
  proof (cases "stream_head_of ?s")
    case Need_more
    with adv obtain f' where f': "Framer_advance (cl_framer c) rest = (length rest, Inr None, f')" "mid_stream f'" "held f' = ?s"
      by auto
    have "as = []" "e = None" "r = ?s" using 1(3) Need_more by (simp_all add: parse_stream.simps [of ?s])
    with f' show ?thesis
      by (auto simp: exchange_scan.simps [of _ t c n rest] scan_ends_def skip_stale_def)
  next
    case (Lost x)
    with adv obtain k f' where f': "Framer_advance (cl_framer c) rest = (k, Inl x, f')" by auto
    have "as = []" "e = Some x" using 1(3) Lost by (simp_all add: parse_stream.simps [of ?s])
    with f' show ?thesis
      by (auto simp: exchange_scan.simps [of _ t c n rest] scan_ends_def skip_stale_def)
  next
    case (Frame_at a k)
    with adv obtain f' where f': "Framer_advance (cl_framer c) rest = (k - length (held (cl_framer c)), Inr (Some a), f')"
      "length (held (cl_framer c)) < k" "mid_stream f'" "held f' = []" by auto
    from Frame_at 1(3) obtain bs where bs: "parse_stream (drop k ?s) = (bs, e, r)" "as = a # bs"
      by (auto simp: parse_stream.simps [of ?s] split: prod.splits)
    let ?rest = "drop (k - length (held (cl_framer c))) rest"
    show ?thesis
    proof (cases "mine t a")
      case True
      with f' bs(2) show ?thesis
        by (auto simp: exchange_scan.simps [of _ t c n rest] scan_ends_def skip_stale_def mine_def)
    next
      case False
      let ?c = "c\<lparr>cl_framer := f', cl_unmatched_responses := cl_unmatched_responses c + 1\<rparr>"
      have "scan_ends t bs e r ?c (Suc n) (exchange_scan (\<lambda>_. False) t ?c (Suc n) ?rest)"
        by (rule 1(1) [OF f'(1) [symmetric] _ refl refl]) (use f' bs(1) in simp_all)
      with False have "scan_ends t as e r c n (exchange_scan (\<lambda>_. False) t ?c (Suc n) ?rest)"
        by (simp add: bs(2) scan_ends_step)
      with False f'(1) show ?thesis by (simp add: exchange_scan.simps [of _ t c n rest] mine_def)
    qed
  qed
qed

lemma stale_append:
  "from_mine t (as @ bs) = (if from_mine t as = [] then from_mine t bs else from_mine t as @ bs)"
  "stale t (as @ bs) = (if from_mine t as = [] then as @ stale t bs else stale t as)"
  "from_mine t as = [] \<Longrightarrow> stale t as = as"
  by (induction as) auto

text \<open>The client's state after an exchange that found its answer behind \<open>k\<close> stale frames.\<close>

definition found_after :: "nat \<Rightarrow> Client \<Rightarrow> Client \<Rightarrow> bool" where
  "found_after k c c' \<longleftrightarrow> cl_unmatched_responses c' = cl_unmatched_responses c + of_nat k \<and>
     mid_stream (cl_framer c') \<and> held (cl_framer c') = [] \<and> cl_sent c' = cl_sent c \<and>
     cl_next_transaction c' = cl_next_transaction c"

lemma exchange_loop_finds:
  assumes "mid_stream (cl_framer c)" "parse_stream (held (cl_framer c) @ pending @ concat blocks) = (as, e, r)"
    and "from_mine t as = a # later" "list_all (\<lambda>b. b \<noteq> []) blocks"
  shows "\<exists>c'. exchange_loop (\<lambda>_. False) t un req c n pending (map Read_block blocks) = Some (exchange_result un req a, c') \<and>
     found_after (length (stale t as)) c c'"
  using assms
proof (induction blocks arbitrary: c n pending as)
  case Nil
  from exchange_scan_spec [OF Nil(1), of pending as e r t n] Nil(2,3) obtain f res where
    "mid_stream f" "held f = []" "exchange_scan (\<lambda>_. False) t c n pending =
       (Found a, (skip_stale c f (length (stale t as)))\<lparr>cl_residue := res\<rparr>, n + length (stale t as))"
    by (auto simp: scan_ends_def Let_def)
  then show ?case by (simp add: exchange_loop.simps [of _ t un req c n pending] found_after_def skip_stale_def)
next
  case (Cons b blocks)
  obtain as1 e1 r1 where p1: "parse_stream (held (cl_framer c) @ pending) = (as1, e1, r1)" by (metis prod_cases3)
  note sc = exchange_scan_spec [OF Cons.prems(1) p1, of t n]
  have app: "(as, e, r) = (case e1 of Some _ \<Rightarrow> (as1, e1, r1 @ concat (b # blocks))
      | None \<Rightarrow> (let (bs, e, rest) = parse_stream (r1 @ concat (b # blocks)) in (as1 @ bs, e, rest)))"
    using parse_stream_append [of "held (cl_framer c) @ pending" "concat (b # blocks)"] p1 Cons.prems(2) by simp
  show ?case
  proof (cases "from_mine t as1")
    case (Cons a' l)
    with app Cons.prems(3) have a: "a' = a" "stale t as = stale t as1"
      by (auto simp: stale_append split: option.splits prod.splits)
    from sc Cons obtain f res where
      "mid_stream f" "held f = []" "exchange_scan (\<lambda>_. False) t c n pending =
         (Found a, (skip_stale c f (length (stale t as)))\<lparr>cl_residue := res\<rparr>, n + length (stale t as))"
      by (auto simp: scan_ends_def Let_def a)
    then show ?thesis by (simp add: exchange_loop.simps [of _ t un req c n pending] found_after_def skip_stale_def)
  next
    case Nil
    with app Cons.prems(3) obtain as2 where e1: "e1 = None" and
      as2: "parse_stream (r1 @ b @ concat blocks) = (as2, e, r)" "as = as1 @ as2"
      by (auto split: option.splits prod.splits)
    from sc Nil e1 obtain f where f: "mid_stream f" "held f = r1"
      "exchange_scan (\<lambda>_. False) t c n pending = (Starved, skip_stale c f (length as1), n + length as1)"
      by (auto simp: scan_ends_def Let_def stale_append(3))
    have b: "b \<noteq> []" using Cons.prems(4) by simp
    let ?c = "skip_stale c f (length as1)"
    have c: "cl_framer ?c = f" by (simp add: skip_stale_def)
    have "from_mine t as2 = a # later" using Cons.prems(3) Nil by (simp add: as2(2) stale_append)
    with Cons.IH [of ?c b as2 "Suc (n + length as1)"] as2(1) f c Cons.prems(4) obtain c' where
      c': "exchange_loop (\<lambda>_. False) t un req ?c (Suc (n + length as1)) b (map Read_block blocks) = Some (exchange_result un req a, c')"
        "found_after (length (stale t as2)) ?c c'" by auto
    have "found_after (length (stale t as)) c c'"
      using c'(2) Nil by (simp add: found_after_def skip_stale_def as2(2) stale_append add.assoc)
    with c'(1) f(3) b show ?thesis by (simp add: exchange_loop.simps [of _ t un req c n pending])
  qed
qed

text \<open>Transaction numbers: never zero, and each number waits for all the others before it is used again.\<close>

lemma allocate_transaction_nonzero:
  "cl_next_transaction c \<noteq> 0 \<Longrightarrow> fst (allocate_transaction c) \<noteq> 0 \<and> cl_next_transaction (snd (allocate_transaction c)) \<noteq> 0"
proof -
  assume "cl_next_transaction c \<noteq> 0"
  moreover have "unat t + 1 < 65536 \<Longrightarrow> t + 1 \<noteq> 0" for t :: u16
    using unat_address_u16 [of t 1] by (auto simp: unat_eq_zero [symmetric] simp del: unat_eq_zero)
  ultimately show ?thesis by (simp add: allocate_transaction_def Let_def)
qed

lemma apply_no_exception: "fst (Device_apply d r) \<noteq> Inr (Rsp_Exception f code)"
  by (cases r) (auto simp: apply_writes map_ok_def)

lemma exchange_result_outcome:
  assumes "Response_decode (Pdu_as_bytes (tcp_pdu a)) r = Inr (outcome d r)"
  shows "exchange_result un r a = (case fst (Device_apply d r) of Inr rsp \<Rightarrow> Inr rsp | Inl code \<Rightarrow> Inl (Client_Exception code un))"
  using assms apply_no_exception [of d r]
  by (auto simp: exchange_result_def outcome_def split: sum.splits Response.splits)

text \<open>The frames of a stream made of stale ADUs followed by one reply.\<close>

lemma from_mine_stale_then_reply:
  assumes "list_all2 TcpAdu_eq bs (olds @ [reply])" "list_all (\<lambda>a. \<not> mine t a) olds" "mine t reply"
  obtains b where "from_mine t bs = [b]" "TcpAdu_eq b reply" "length (stale t bs) = length olds"
proof -
  from assms(1) obtain os b where bs: "bs = os @ [b]" "list_all2 TcpAdu_eq os olds" "TcpAdu_eq b reply"
    by (auto simp: list_all2_append2 list_all2_Cons2)
  have "list_all (\<lambda>a. \<not> mine t a) os"
    using bs(2) assms(2) by (auto simp: list_all2_conv_all_nth list_all_length TcpAdu_eq_def mine_def)
  then have "from_mine t os = []" by (simp add: from_mine_def list_all_iff)
  moreover have "mine t b" using bs(3) assms(3) by (simp add: TcpAdu_eq_def mine_def)
  ultimately show ?thesis
    using bs list_all2_lengthD [OF bs(2)] by (intro that [of b]) (simp_all add: stale_append)
qed

lemma exchange_with_server:
  assumes "wf_Device d" "wf_Request r" "Request_encode r = Inr p"
    and "mid_stream (cl_framer c)" "held (cl_framer c) = []" "cl_residue c = []"
    and "list_all wf_TcpAdu olds" "list_all (\<lambda>a. \<not> mine (cl_next_transaction c) a) olds"
    and "list_all (\<lambda>b. b \<noteq> []) blocks"
    and "concat blocks = concat (map TcpAdu_to_vec olds) @
       concat (cn_written (serve (\<lambda>_. True) (Connection_new d)
         [Read_block (TcpAdu_to_vec (TcpAdu_new (cl_next_transaction c) un p))]))"
  shows "\<exists>c'. exchange True (\<lambda>_. False) c un r (map Read_block blocks) =
       Some (case fst (Device_apply d r) of Inr rsp \<Rightarrow> Inr rsp | Inl code \<Rightarrow> Inl (Client_Exception code un), c') \<and>
     cl_unmatched_responses c' = cl_unmatched_responses c + of_nat (length olds)"
proof -
  let ?t = "cl_next_transaction c" and ?c = "snd (allocate_transaction c)"
  let ?adu = "TcpAdu_new ?t un p" and ?reply = "TcpAdu_new (cl_next_transaction c) un (Response_encode (outcome d r))"
  let ?c1 = "?c\<lparr>cl_sent := cl_sent c @ [TcpAdu_to_vec ?adu], cl_residue := []\<rparr>"
  have "length (TcpAdu_to_vec ?adu) \<noteq> 0" by (simp add: TcpAdu_to_vec_def MbapHeader_to_bytes_nth)
  then have "healthy [Read_block (TcpAdu_to_vec ?adu)]" by (simp add: healthy_def)
  with serve_requests [OF assms(1), of "[r]" "[p]" "[(?t, un)]" "[Read_block (TcpAdu_to_vec ?adu)]"] assms(2,3)
  obtain f where "serve (\<lambda>_. True) (Connection_new d) [Read_block (TcpAdu_to_vec ?adu)] =
    \<lparr>cn_framer = f, cn_device = Some (applied d [r]), cn_served = 1, cn_written = [TcpAdu_to_vec ?reply]\<rparr>"
    by (auto simp: sent_frames_def replies_to_def)
  with assms(10) have blocks: "concat blocks = concat (map TcpAdu_to_vec (olds @ [?reply]))" by simp
  have "list_all wf_TcpAdu (olds @ [?reply])" using assms(7) reply_bytes(1) [OF assms(1), of r] by simp
  from parse_stream_sent [OF this, of "[]"] obtain bs where bs: "list_all2 TcpAdu_eq bs (olds @ [?reply])"
    "parse_stream (concat blocks) = (bs, None, [])" by (auto simp: blocks parse_stream_Nil)
  have mine: "mine ?t ?reply" by (simp add: mine_def TcpAdu_new_def MbapHeader_for_pdu_def)
  from from_mine_stale_then_reply [OF bs(1) assms(8) mine] obtain b where
    b: "from_mine ?t bs = [b]" "TcpAdu_eq b ?reply" "length (stale ?t bs) = length olds" by blast
  have c1: "cl_framer ?c1 = cl_framer c" "cl_unmatched_responses ?c1 = cl_unmatched_responses c"
    by (simp_all add: allocate_transaction_def Let_def)
  from exchange_loop_finds [of ?c1 "[]" blocks bs None "[]" ?t b "[]" un r 0] assms(4,5,9) bs(2) b c1
  obtain c' where c': "exchange_loop (\<lambda>_. False) ?t un r ?c1 0 [] (map Read_block blocks) = Some (exchange_result un r b, c')"
    "found_after (length olds) ?c1 c'" by auto
  have "Pdu_as_bytes (tcp_pdu b) = Pdu_as_bytes (Response_encode (outcome d r))"
    using b(2) by (simp add: TcpAdu_eq_def Pdu_eq_def TcpAdu_new_def)
  with reply_bytes(2) [OF assms(1), of r] have res: "exchange_result un r b =
      (case fst (Device_apply d r) of Inr rsp \<Rightarrow> Inr rsp | Inl code \<Rightarrow> Inl (Client_Exception code un))"
    by (intro exchange_result_outcome) simp
  have "exchange True (\<lambda>_. False) c un r (map Read_block blocks) =
      exchange_loop (\<lambda>_. False) ?t un r ?c1 0 [] (map Read_block blocks)"
    using assms(3,6) by (simp add: exchange_def allocate_transaction_def Let_def)
  with c' res c1 show ?thesis by (auto simp: found_after_def)
qed

definition example_device :: Device where
  "example_device = Device_with_registers Device_empty Word_HoldingRegisters 0 10"

lemma example_exchange:
  obtains p bytes c' where "Request_encode (Req_WriteSingleRegister 3 7) = Inr p" "wf_Device example_device"
    "bytes = concat (cn_written (serve (\<lambda>_. True) (Connection_new example_device)
       [Read_block (TcpAdu_to_vec (TcpAdu_new (cl_next_transaction Client_from_stream) 1 p))]))" "bytes \<noteq> []"
    "exchange True (\<lambda>_. False) Client_from_stream 1 (Req_WriteSingleRegister 3 7) [Read_block bytes] =
       Some (Inr (Rsp_WriteSingleRegister 3 7), c')"
proof -
  let ?r = "Req_WriteSingleRegister 3 7" and ?d = example_device
  have "sendable ?r" by (simp add: sendable_def)
  from Request_encode_wire [OF this] obtain p where p: "Request_encode ?r = Inr p" by blast
  let ?adu = "TcpAdu_to_vec (TcpAdu_new (cl_next_transaction Client_from_stream) 1 p)"
  let ?bytes = "concat (cn_written (serve (\<lambda>_. True) (Connection_new ?d) [Read_block ?adu]))"
  have wf: "wf_Device ?d"
    by (simp add: example_device_def Device_with_registers_def Device_empty_def wf_Device_def wf_Block_def)
  have "length (TcpAdu_to_vec a) \<noteq> 0" for a by (simp add: TcpAdu_to_vec_def MbapHeader_to_bytes_nth)
  then have ne: "TcpAdu_to_vec a \<noteq> []" for a by auto
  with serve_requests [OF wf, of "[?r]" "[p]" "[(cl_next_transaction Client_from_stream, 1)]" "[Read_block ?adu]"] p
  have b: "?bytes \<noteq> []" by (auto simp: healthy_def sent_frames_def replies_to_def)
  have "fst (Device_apply ?d ?r) = Inr (Rsp_WriteSingleRegister 3 7)"
    by (simp add: apply_writes Device_register_def Block_get_eq example_device_def Device_with_registers_def Device_empty_def)
  with b p exchange_with_server [OF wf, of ?r p Client_from_stream "[]" "[?bytes]" 1] that [OF p wf refl b]
  show ?thesis by (auto simp: Client_from_stream_def)
qed

text \<open>
  Claim C1.  The client and the server together: a request the client sends on an idle connection
  to the server comes back as the result of applying it to the device, a refusal by the device
  comes back as its exception code, and answers to earlier requests that arrive late are skipped
  and counted, however the network cuts the bytes.
\<close>
theorem client_server_round_trip:
  assumes "wf_Device d" "wf_Request r" "Request_encode r = Inr p"
    and "mid_stream (cl_framer c)" "held (cl_framer c) = []" "cl_residue c = []"
    and "list_all wf_TcpAdu olds" "list_all (\<lambda>a. \<not> mine (cl_next_transaction c) a) olds"
    and "list_all (\<lambda>b. b \<noteq> []) blocks"
    and "concat blocks = concat (map TcpAdu_to_vec olds) @
       concat (cn_written (serve (\<lambda>_. True) (Connection_new d)
         [Read_block (TcpAdu_to_vec (TcpAdu_new (cl_next_transaction c) un p))]))"
  shows "\<exists>c'. exchange True (\<lambda>_. False) c un r (map Read_block blocks) =
       Some (case fst (Device_apply d r) of Inr rsp \<Rightarrow> Inr rsp | Inl code \<Rightarrow> Inl (Client_Exception code un), c') \<and>
     cl_unmatched_responses c' = cl_unmatched_responses c + of_nat (length olds)"
  using assms by (rule exchange_with_server)

theorem client_server_round_trip_witness:
  "\<exists>p bytes c'. Request_encode (Req_WriteSingleRegister 3 7) = Inr p \<and>
     exchange True (\<lambda>_. False) Client_from_stream 1 (Req_WriteSingleRegister 3 7) (map Read_block [bytes]) =
       Some (case fst (Device_apply example_device (Req_WriteSingleRegister 3 7)) of Inr rsp \<Rightarrow> Inr rsp | Inl code \<Rightarrow> Inl (Client_Exception code 1), c') \<and>
     cl_unmatched_responses c' = cl_unmatched_responses Client_from_stream + of_nat (length ([] :: TcpAdu list))"
proof -
  obtain p bytes where p: "Request_encode (Req_WriteSingleRegister 3 7) = Inr p" "wf_Device example_device" "bytes \<noteq> []"
    "bytes = concat (cn_written (serve (\<lambda>_. True) (Connection_new example_device)
       [Read_block (TcpAdu_to_vec (TcpAdu_new (cl_next_transaction Client_from_stream) 1 p))]))"
    by (rule example_exchange)
  have c: "mid_stream (cl_framer Client_from_stream)" "held (cl_framer Client_from_stream) = []" "cl_residue Client_from_stream = []"
    by (simp_all add: Client_from_stream_def)
  have "\<exists>c'. exchange True (\<lambda>_. False) Client_from_stream 1 (Req_WriteSingleRegister 3 7) (map Read_block [bytes]) =
       Some (case fst (Device_apply example_device (Req_WriteSingleRegister 3 7)) of Inr rsp \<Rightarrow> Inr rsp | Inl code \<Rightarrow> Inl (Client_Exception code 1), c') \<and>
     cl_unmatched_responses c' = cl_unmatched_responses Client_from_stream + of_nat (length ([] :: TcpAdu list))"
    by (rule client_server_round_trip [OF p(2) _ p(1) c]) (use p(3,4) in simp_all)
  with p(1) show ?thesis by blast
qed

fun is_Rsp_Exception :: "Response \<Rightarrow> bool" where
  "is_Rsp_Exception (Rsp_Exception _ _) = True"
| "is_Rsp_Exception _ = False"

text \<open>What a successful exchange returns is an answer to the request it sent, and never an exception.\<close>

lemma exchange_result_Inr: "exchange_result un r a = Inr rsp \<Longrightarrow> answers r rsp \<and> \<not> is_Rsp_Exception rsp"
  by (auto simp: exchange_result_def dest: Response_decode_Inr split: sum.splits Response.splits)

lemma exchange_scan_sent: "snd (exchange_scan ex t c n rest) = (c', n') \<Longrightarrow> cl_sent c' = cl_sent c"
proof (induction ex t c n rest rule: exchange_scan.induct)
  case (1 ex t c n rest)
  then show ?case
    by (subst (asm) (2) exchange_scan.simps)
      (auto simp: Let_def split: prod.splits sum.splits option.splits if_splits)
qed

lemma exchange_loop_Inr:
  "exchange_loop ex t un r c n pending reads = Some (Inr rsp, c') \<Longrightarrow> answers r rsp \<and> \<not> is_Rsp_Exception rsp"
proof (induction reads arbitrary: c n pending)
  case Nil
  then show ?case
    by (subst (asm) exchange_loop.simps) (auto dest: exchange_result_Inr split: prod.splits scan.splits if_splits)
next
  case (Cons x reads)
  from Cons.prems show ?case
    by (subst (asm) exchange_loop.simps)
      (auto dest: exchange_result_Inr Cons.IH split: prod.splits scan.splits if_splits ReadOutcome.splits)
qed

lemma exchange_Inr:
  "exchange w ex c un r reads = Some (Inr rsp, c') \<Longrightarrow> answers r rsp \<and> \<not> is_Rsp_Exception rsp"
  by (auto simp: exchange_def Let_def dest: exchange_loop_Inr split: prod.splits sum.splits if_splits)

text \<open>
  A response the client hands back is always an answer to the request it was asked to
  send: of that request's kind, with that request's quantity, and never an exception.
\<close>
theorem client_ok_answers_request:
  assumes "exchange write_ok expired c un r reads = Some (Inr rsp, c')"
  shows "answers r rsp \<and> \<not> is_Rsp_Exception rsp"
  using assms by (rule exchange_Inr)

theorem client_ok_answers_request_witness:
  "\<exists>reads rsp c'. exchange True (\<lambda>_. False) Client_from_stream 1 (Req_WriteSingleRegister 3 7) reads = Some (Inr rsp, c') \<and>
     answers (Req_WriteSingleRegister 3 7) rsp \<and> \<not> is_Rsp_Exception rsp"
proof -
  obtain reads rsp c' where e: "exchange True (\<lambda>_. False) Client_from_stream 1 (Req_WriteSingleRegister 3 7) reads = Some (Inr rsp, c')"
    using example_exchange by metis
  with client_ok_answers_request [OF e] show ?thesis by blast
qed

text \<open>
  No byte of a write leaves for a live device unless the request changes the device and
  the posture is armed at that moment, and \<open>read_from\<close> never sends a request that changes the device.
\<close>
theorem client_write_needs_armed:
  assumes "Client_write write_ok expired c un r posture now_ms confirmation reads = Some (res, c')"
    "cl_sent c' \<noteq> cl_sent c"
  shows "Request_is_write r \<and> PostureState_posture posture now_ms = Armed"
proof (rule ccontr)
  assume "\<not> (Request_is_write r \<and> PostureState_posture posture now_ms = Armed)"
  moreover have "needs_armed WriteLiveDevice" by (simp add: needs_armed_def)
  ultimately have "c' = c" using assms(1) by (auto simp: Client_write_def permits_needs_armed split: if_splits)
  with assms(2) show False by simp
qed

theorem client_write_needs_armed_witness:
  "\<exists>reads c'. Client_write False (\<lambda>_. False) Client_from_stream 1 (Req_WriteSingleRegister 3 7)
       (posture_run [To_armed UserConfirmation 5 10]) 7 UserConfirmation reads = Some (Inl Client_Io, c') \<and>
     Request_is_write (Req_WriteSingleRegister 3 7) \<and>
     PostureState_posture (posture_run [To_armed UserConfirmation 5 10]) 7 = Armed"
proof -
  let ?ps = "posture_run [To_armed UserConfirmation 5 10]"
  obtain p where p: "Request_encode (Req_WriteSingleRegister 3 7) = Inr p" using example_exchange by metis
  have "PostureState_permits ?ps WriteLiveDevice 7 = RequiresConfirmation"
    by (simp add: permits_needs_armed needs_armed_def posture_run_def PostureState_posture_def PostureState_arm_def
        PostureState_new_def saturating_add_u64_def)
  then obtain c' where w: "Client_write False (\<lambda>_. False) Client_from_stream 1 (Req_WriteSingleRegister 3 7) ?ps 7 UserConfirmation [] =
      Some (Inl Client_Io, c')" "cl_sent c' \<noteq> cl_sent Client_from_stream"
    using p by (simp add: Client_write_def exchange_def allocate_transaction_def Let_def)
  from client_write_needs_armed [OF w] w(1) show ?thesis by blast
qed

end
