(* ===== verification/Modbus_Crc.thy ===== *)
theory Modbus_Crc
  imports Salman_Prelude
begin

unbundle bit_operations_syntax

text \<open>
  CRC-16/MODBUS, from \<open>crates/salman-modbus/src/crc.rs\<close>: the register loop of \<open>Crc16::of\<close>, the
  low-byte-first wire order, and the residue test.  The lemmas show that the register map is
  injective, hence that the residue test accepts exactly the frames whose stored checksum is the
  computed one, and that every corruption confined to a single byte is detected.
\<close>

section \<open>The register loop\<close>

definition crc_INIT :: u16 where "crc_INIT = 0xFFFF"

definition crc_POLY :: u16 where "crc_POLY = 0xA001"

text \<open>The body of the inner \<open>while bit < 8\<close> loop, and the loop.\<close>

definition crc_bit :: "u16 \<Rightarrow> u16" where
  "crc_bit crc = (if crc AND 1 = 1 then drop_bit 1 crc XOR crc_POLY else drop_bit 1 crc)"

fun crc_bits :: "nat \<Rightarrow> u16 \<Rightarrow> u16" where
  "crc_bits 0 crc = crc"
| "crc_bits (Suc n) crc = crc_bits n (crc_bit crc)"

definition crc_byte :: "u16 \<Rightarrow> u8 \<Rightarrow> u16" where
  "crc_byte crc b = crc_bits 8 (crc XOR ucast b)"

definition crc_of :: "u8 list \<Rightarrow> u16" where
  "crc_of bytes = foldl crc_byte crc_INIT bytes"

definition crc_to_wire :: "u16 \<Rightarrow> u8 list" where
  "crc_to_wire crc = [ucast (crc AND 0x00FF), ucast (drop_bit 8 crc)]"

definition crc_from_wire :: "u8 \<Rightarrow> u8 \<Rightarrow> u16" where
  "crc_from_wire lo hi = ucast lo OR push_bit 8 (ucast hi)"

definition crc_residue_ok :: "u8 list \<Rightarrow> bool" where
  "crc_residue_ok frame \<longleftrightarrow> length frame \<ge> 2 \<and> crc_of frame = 0"

section \<open>The wire order\<close>

lemma ucast_low_byte: "ucast (c AND 0x00FF :: u16) = (ucast c :: u8)"
proof -
  have "(0x00FF :: u16) = mask 8" by (simp add: mask_eq_exp_minus_1)
  then have "bit (0x00FF :: u16) n" if "n < 8" for n
    using that by (simp only: bit_mask_iff) simp
  then show ?thesis by (intro bit_word_eqI) (auto simp: bit_simps)
qed

lemma crc_to_wire_alt: "crc_to_wire c = [ucast c, ucast (drop_bit 8 c)]"
  by (simp add: crc_to_wire_def ucast_low_byte)

lemma crc_from_to_wire: "crc_to_wire c = [lo, hi] \<Longrightarrow> crc_from_wire lo hi = c"
  unfolding crc_to_wire_alt crc_from_wire_def
  by (auto intro!: bit_word_eqI simp: bit_simps)

lemma crc_from_wire_inj: "crc_from_wire a b = crc_from_wire c d \<Longrightarrow> a = c \<and> b = d"
proof -
  assume eq: "crc_from_wire a b = crc_from_wire c d"
  have lo: "ucast (crc_from_wire x y) = x" for x y
    by (rule bit_word_eqI) (auto simp: crc_from_wire_def bit_simps)
  have hi: "ucast (drop_bit 8 (crc_from_wire x y)) = y" for x y
    by (rule bit_word_eqI) (auto simp: crc_from_wire_def bit_simps dest: bit_imp_le_length)
  show ?thesis using eq lo [of a b] lo [of c d] hi [of a b] hi [of c d] by simp
qed

lemma crc_to_wire_from_wire: "crc_to_wire (crc_from_wire lo hi) = [lo, hi]"
proof -
  obtain a b where ab: "crc_to_wire (crc_from_wire lo hi) = [a, b]"
    by (simp add: crc_to_wire_def)
  with crc_from_wire_inj [OF crc_from_to_wire [OF ab]] show ?thesis by simp
qed

section \<open>The register map is injective\<close>

lemma and_1_eq_1: "(w AND 1 = (1 :: u16)) = bit w 0"
  by (simp add: bit_0 odd_iff_mod_2_eq_one and_one_eq)

text \<open>Bit 15 of a shifted register is clear and bit 15 of the polynomial is set.\<close>

lemma crc_bit_15: "bit (crc_bit c) 15 = bit c 0"
  by (auto simp: crc_bit_def and_1_eq_1 crc_POLY_def bit_simps dest: bit_imp_le_length)

lemma crc_bit_inj: "crc_bit c = crc_bit d \<Longrightarrow> c = d"
proof -
  assume eq: "crc_bit c = crc_bit d"
  then have b0: "bit c 0 = bit d 0" using crc_bit_15 by metis
  then have "drop_bit 1 c = drop_bit 1 d"
    using eq by (auto simp: crc_bit_def and_1_eq_1 split: if_splits) (metis xor.right_neutral xor_self_eq xor.assoc)
  then have "bit c (Suc n) = bit d (Suc n)" for n
    by (metis bit_drop_bit_eq comp_apply plus_1_eq_Suc)
  with b0 have "bit c n = bit d n" for n by (cases n) auto
  then show ?thesis by (intro bit_word_eqI) auto
qed

lemma crc_bits_inj: "crc_bits n c = crc_bits n d \<Longrightarrow> c = d"
  by (induction n arbitrary: c d) (auto dest: crc_bit_inj)

lemma crc_byte_inj: "crc_byte c b = crc_byte d b \<Longrightarrow> c = d"
  unfolding crc_byte_def by (drule crc_bits_inj) (metis xor.assoc xor_self_eq xor.right_neutral)

lemma ucast_inj_up: "(ucast (a :: u8) :: u16) = ucast b \<Longrightarrow> a = b"
proof -
  assume eq: "(ucast a :: u16) = ucast b"
  have "ucast (ucast x :: u16) = x" for x :: u8
    by (rule bit_word_eqI) (simp add: bit_simps)
  with eq show "a = b" by metis
qed

lemma crc_byte_inj_byte: "crc_byte c a = crc_byte c b \<Longrightarrow> a = b"
proof -
  assume "crc_byte c a = crc_byte c b"
  then have "c XOR ucast a = c XOR ucast b" unfolding crc_byte_def by (rule crc_bits_inj)
  then have "(ucast a :: u16) = ucast b" by (metis xor.assoc xor_self_eq xor.left_neutral)
  then show "a = b" by (simp add: ucast_inj_up)
qed

lemma foldl_crc_byte_inj: "foldl crc_byte c bs = foldl crc_byte d bs \<Longrightarrow> c = d"
  by (induction bs arbitrary: c d) (auto dest: crc_byte_inj)

section \<open>The residue\<close>

text \<open>A register whose low \<open>n\<close> bits are clear is only shifted by \<open>n\<close> rounds.\<close>

lemma crc_bits_shift: "(\<And>i. i < n \<Longrightarrow> \<not> bit c i) \<Longrightarrow> crc_bits n c = drop_bit n c"
proof (induction n arbitrary: c)
  case 0
  then show ?case by simp
next
  case (Suc n)
  have "\<not> bit c 0" using Suc.prems by simp
  then have "crc_bit c = drop_bit 1 c" by (simp add: crc_bit_def and_1_eq_1)
  moreover have "\<not> bit (drop_bit 1 c) i" if "i < n" for i
    using Suc.prems [of "Suc i"] that by (simp add: bit_simps)
  ultimately show ?case using Suc.IH [of "drop_bit 1 c"] by (simp add: drop_bit_drop_bit)
qed

lemma crc_byte_own_low: "crc_byte c (ucast c) = drop_bit 8 c"
proof -
  have "crc_bits 8 (c XOR ucast (ucast c :: u8)) = drop_bit 8 (c XOR ucast (ucast c :: u8))"
    by (rule crc_bits_shift) (simp add: bit_simps)
  also have "\<dots> = drop_bit 8 c"
    by (rule bit_word_eqI) (auto simp: bit_simps)
  finally show ?thesis by (simp add: crc_byte_def)
qed

lemma crc_byte_zero: "crc_byte (ucast b) b = 0"
  by (simp add: crc_byte_def crc_bits_shift)

lemma ucast_drop_bit_8: "ucast (ucast (drop_bit 8 (c :: u16)) :: u8) = drop_bit 8 c"
  by (rule bit_word_eqI) (auto simp: bit_simps dest: bit_imp_le_length)

lemma crc_residue_own: "foldl crc_byte c (crc_to_wire c) = 0"
  using crc_byte_zero [of "ucast (drop_bit 8 c)"]
  by (simp add: crc_to_wire_alt crc_byte_own_low ucast_drop_bit_8)

lemma crc_residue_iff: "foldl crc_byte c [lo, hi] = 0 \<longleftrightarrow> c = crc_from_wire lo hi"
proof -
  have zero: "foldl crc_byte (crc_from_wire lo hi) [lo, hi] = 0"
    using crc_residue_own [of "crc_from_wire lo hi"] by (simp add: crc_to_wire_from_wire)
  then show ?thesis using foldl_crc_byte_inj by metis
qed

lemma crc_residue_split: "crc_residue_ok (body @ [lo, hi]) \<longleftrightarrow> crc_of body = crc_from_wire lo hi"
  by (simp add: crc_residue_ok_def crc_of_def crc_residue_iff [simplified])

lemma crc_of_detects: "a \<noteq> b \<Longrightarrow> crc_of (pre @ a # post) \<noteq> crc_of (pre @ b # post)"
  by (auto simp: crc_of_def dest!: foldl_crc_byte_inj crc_byte_inj_byte)

section \<open>Properties\<close>

text \<open>
  The two ways of checking a CRC agree: running the CRC over a frame together with its two
  check bytes, low byte first, leaves zero exactly when the check bytes are the CRC of the frame;
  and two frames that differ in one byte never have the same CRC.
\<close>
theorem crc_check_is_residue_check:
  "(crc_residue_ok (body @ [lo, hi]) \<longleftrightarrow> crc_of body = crc_from_wire lo hi) \<and>
   (crc_of (pre @ a # post) = crc_of (pre @ b # post) \<longleftrightarrow> a = b)"
  using crc_residue_split [of body lo hi] crc_of_detects [of a b pre post] by auto

end
