(* ===== verification/Modbus_Rtu.thy ===== *)
theory Modbus_Rtu
  imports Modbus_Tcp Modbus_Crc
begin

text \<open>
  Modbus RTU, from \<open>crates/salman-modbus/src/rtu.rs\<close>: the serial application data unit with its CRC,
  the classification of addresses, and the silences that delimit frames.  A decoded frame is one
  whose length is legal and whose CRC matches; nothing else is accepted, and no legal frame is
  refused.
\<close>

section \<open>The serial application data unit\<close>

definition RTU_BROADCAST :: u8 where "RTU_BROADCAST = 0"
definition MAX_DEVICE_ADDRESS :: u8 where "MAX_DEVICE_ADDRESS = 247"

record RtuAdu =
  rtu_address :: u8
  rtu_pdu :: Pdu

definition RtuAdu_is_broadcast :: "RtuAdu \<Rightarrow> bool" where
  "RtuAdu_is_broadcast a \<longleftrightarrow> rtu_address a = RTU_BROADCAST"

definition RtuAdu_to_vec :: "RtuAdu \<Rightarrow> u8 list" where
  "RtuAdu_to_vec a = (let bytes = [rtu_address a] @ Pdu_as_bytes (rtu_pdu a) in bytes @ crc_to_wire (crc_of bytes))"

datatype RtuError =
    Rtu_TooShort nat
  | Rtu_TooLong nat
  | Rtu_CrcMismatch u16 u16
  | Rtu_PduLength nat

definition RtuAdu_decode :: "u8 list \<Rightarrow> RtuError + RtuAdu" where
  "RtuAdu_decode frame =
     (if length frame < 4 then Inl (Rtu_TooShort (length frame)) else
      if length frame > MAX_RTU_ADU then Inl (Rtu_TooLong (length frame)) else
      let split = length frame - 2; body = take split frame; crc_bytes = drop split frame in
      case crc_bytes of
        [low, high] \<Rightarrow>
          (let found = crc_from_wire low high; computed = crc_of body in
           if computed \<noteq> found then Inl (Rtu_CrcMismatch computed found) else
           case body of
             [] \<Rightarrow> Inl (Rtu_TooShort (length frame))
           | address # pdu_bs \<Rightarrow>
               and_then (ok_or (Pdu_from_bytes pdu_bs) (Rtu_PduLength (length pdu_bs)))
                 (\<lambda>pdu. Inr \<lparr>rtu_address = address, rtu_pdu = pdu\<rparr>))
      | _ \<Rightarrow> Inl (Rtu_TooShort (length frame)))"

fun RtuError_requires_silence :: "RtuError \<Rightarrow> bool" where
  "RtuError_requires_silence (Rtu_CrcMismatch _ _) = True"
| "RtuError_requires_silence (Rtu_TooShort _) = True"
| "RtuError_requires_silence (Rtu_TooLong _) = True"
| "RtuError_requires_silence (Rtu_PduLength _) = True"

section \<open>Addresses and silences\<close>

datatype AddressKind = Broadcast | Device_address | Reserved

definition classify_address :: "u8 \<Rightarrow> AddressKind" where
  "classify_address address =
     (if address = RTU_BROADCAST then Broadcast
      else if 1 \<le> address \<and> address \<le> MAX_DEVICE_ADDRESS then Device_address
      else Reserved)"

record Timing =
  inter_frame_ns :: u64
  inter_character_ns :: u64
  baud_rate :: u32

definition BITS_PER_CHARACTER :: u64 where "BITS_PER_CHARACTER = 11"
definition FIXED_ABOVE_BAUD :: u32 where "FIXED_ABOVE_BAUD = 19200"
definition FIXED_INTER_FRAME_NS :: u64 where "FIXED_INTER_FRAME_NS = 1750000"
definition FIXED_INTER_CHARACTER_NS :: u64 where "FIXED_INTER_CHARACTER_NS = 750000"

definition Timing_for_baud :: "u32 \<Rightarrow> Timing option" where
  "Timing_for_baud baud =
     (if baud = 0 then None else
      if baud > FIXED_ABOVE_BAUD then
        Some \<lparr>inter_frame_ns = FIXED_INTER_FRAME_NS, inter_character_ns = FIXED_INTER_CHARACTER_NS,
              baud_rate = baud\<rparr>
      else let bit_rate = ucast baud * 10 in
        Some \<lparr>inter_frame_ns = 1000000000 * 385 div bit_rate,
              inter_character_ns = 1000000000 * 165 div bit_rate, baud_rate = baud\<rparr>)"

definition Timing_is_recommended :: "Timing \<Rightarrow> bool" where
  "Timing_is_recommended t \<longleftrightarrow> baud_rate t > FIXED_ABOVE_BAUD"

section \<open>What decoding accepts\<close>

lemma split_last_two: "2 \<le> length xs \<Longrightarrow> \<exists>body lo hi. xs = body @ [lo, hi]"
  by (cases xs rule: rev_cases; cases "butlast xs" rule: rev_cases) auto

text \<open>On a frame of legal length the decoder is decided by the CRC alone.\<close>

lemma RtuAdu_decode_legal:
  assumes "4 \<le> length (body @ [lo, hi])" "length (body @ [lo, hi]) \<le> MAX_RTU_ADU"
  shows "RtuAdu_decode (body @ [lo, hi]) =
     (if crc_of body \<noteq> crc_from_wire lo hi then Inl (Rtu_CrcMismatch (crc_of body) (crc_from_wire lo hi))
      else Inr \<lparr>rtu_address = hd body, rtu_pdu = the (Pdu_from_bytes (tl body))\<rparr>)"
    and "Pdu_from_bytes (tl body) \<noteq> None"
proof -
  from assms(1) obtain a p ps where body: "body = a # p # ps"
    by (cases body; cases "tl body") auto
  with assms(2) have "length (p # ps) \<le> MAX_PDU" by (simp add: limit_defs)
  then show some: "Pdu_from_bytes (tl body) \<noteq> None"
    using Pdu_from_bytes_eq_Some [of "p # ps"] by (auto simp: body)
  then show "RtuAdu_decode (body @ [lo, hi]) =
     (if crc_of body \<noteq> crc_from_wire lo hi then Inl (Rtu_CrcMismatch (crc_of body) (crc_from_wire lo hi))
      else Inr \<lparr>rtu_address = hd body, rtu_pdu = the (Pdu_from_bytes (tl body))\<rparr>)"
    using assms by (auto simp: RtuAdu_decode_def Let_def body)
qed

lemma RtuAdu_decode_sum:
  assumes "4 \<le> length frame" "length frame \<le> MAX_RTU_ADU"
  shows "(\<exists>a. RtuAdu_decode frame = Inr a) \<longleftrightarrow> crc_residue_ok frame"
    and "\<not> crc_residue_ok frame \<Longrightarrow> \<exists>c d. c \<noteq> d \<and> RtuAdu_decode frame = Inl (Rtu_CrcMismatch c d)"
proof -
  from assms split_last_two [of frame] obtain body lo hi where f: "frame = body @ [lo, hi]" by auto
  note d = RtuAdu_decode_legal(1) [of body lo hi]
  show "(\<exists>a. RtuAdu_decode frame = Inr a) \<longleftrightarrow> crc_residue_ok frame"
    "\<not> crc_residue_ok frame \<Longrightarrow> \<exists>c d. c \<noteq> d \<and> RtuAdu_decode frame = Inl (Rtu_CrcMismatch c d)"
    using assms d unfolding f crc_residue_split by auto
qed

definition RtuAdu_eq :: "RtuAdu \<Rightarrow> RtuAdu \<Rightarrow> bool" where
  "RtuAdu_eq a b \<longleftrightarrow> rtu_address a = rtu_address b \<and> Pdu_eq (rtu_pdu a) (rtu_pdu b)"

lemma RtuAdu_to_vec_split:
  "\<exists>lo hi. RtuAdu_to_vec a = (rtu_address a # Pdu_as_bytes (rtu_pdu a)) @ [lo, hi] \<and>
     crc_from_wire lo hi = crc_of (rtu_address a # Pdu_as_bytes (rtu_pdu a))"
  using crc_from_to_wire [of "crc_of (rtu_address a # Pdu_as_bytes (rtu_pdu a))"]
  by (auto simp: RtuAdu_to_vec_def Let_def crc_to_wire_def)

lemma length_RtuAdu_to_vec:
  "wf_Pdu (rtu_pdu a) \<Longrightarrow> 4 \<le> length (RtuAdu_to_vec a) \<and> length (RtuAdu_to_vec a) \<le> MAX_RTU_ADU"
  by (auto simp: RtuAdu_to_vec_def Let_def crc_to_wire_def length_Pdu_as_bytes wf_Pdu_def limit_defs)

lemma RtuAdu_decode_to_vec:
  assumes "wf_Pdu (rtu_pdu a)"
  shows "\<exists>b. RtuAdu_decode (RtuAdu_to_vec a) = Inr b \<and> RtuAdu_eq b a"
proof -
  let ?body = "rtu_address a # Pdu_as_bytes (rtu_pdu a)"
  from RtuAdu_to_vec_split [of a] obtain lo hi where
    v: "RtuAdu_to_vec a = ?body @ [lo, hi]" "crc_from_wire lo hi = crc_of ?body" by blast
  with length_RtuAdu_to_vec [OF assms] have len: "4 \<le> length (?body @ [lo, hi])" "length (?body @ [lo, hi]) \<le> MAX_RTU_ADU"
    by simp_all
  from RtuAdu_decode_legal [OF len] v Pdu_from_bytes_as_bytes [of "Pdu_as_bytes (rtu_pdu a)"] show ?thesis
    by (auto simp: RtuAdu_eq_def Pdu_eq_def)
qed

lemma RtuAdu_decode_Inr:
  assumes "RtuAdu_decode frame = Inr a"
  shows "RtuAdu_to_vec a = frame" "wf_Pdu (rtu_pdu a)" "4 \<le> length frame" "length frame \<le> MAX_RTU_ADU"
proof -
  from assms show len: "4 \<le> length frame" "length frame \<le> MAX_RTU_ADU"
    by (auto simp: RtuAdu_decode_def split: if_splits)
  then obtain body lo hi where f: "frame = body @ [lo, hi]" using split_last_two [of frame] by auto
  note d = RtuAdu_decode_legal [OF len [unfolded f]]
  from d(2) obtain p where p: "Pdu_from_bytes (tl body) = Some p" by blast
  with d(1) assms f have c: "crc_of body = crc_from_wire lo hi"
    and a: "a = \<lparr>rtu_address = hd body, rtu_pdu = p\<rparr>" by (auto split: if_splits)
  have b: "hd body # tl body = body" using len f by (cases body) auto
  have w: "wf_Pdu p" "Pdu_as_bytes p = tl body" using Pdu_from_bytes_as_bytes [OF p] by auto
  then show "wf_Pdu (rtu_pdu a)" by (simp add: a)
  show "RtuAdu_to_vec a = frame"
    by (simp add: RtuAdu_to_vec_def a w b c crc_to_wire_from_wire Let_def f)
qed

text \<open>Timing: exact to the nanosecond, and nothing in it can overflow or divide by zero.\<close>

lemma unat_bit_rate: "unat (ucast (b :: u32) * 10 :: u64) = unat b * 10"
proof -
  have b: "unat b < 2 ^ 32" using unsigned_less [of b] by simp
  then have "unat (ucast b :: u64) = unat b" by (simp add: unsigned_ucast_eq take_bit_nat_eq_self_iff flip: take_bit_eq_mod)
  with b show ?thesis by (simp add: unat_word_ariths)
qed

lemma Timing_for_baud_exact:
  assumes "Timing_for_baud b = Some t" "b \<le> FIXED_ABOVE_BAUD"
  shows "unat (inter_frame_ns t) = 1000000000 * 385 div (10 * unat b)"
    "unat (inter_character_ns t) = 1000000000 * 165 div (10 * unat b)"
  using assms by (auto simp: Timing_for_baud_def Let_def unat_div unat_bit_rate mult.commute not_less split: if_splits)

definition wf_RtuAdu :: "RtuAdu \<Rightarrow> bool" where
  "wf_RtuAdu a \<longleftrightarrow> Pdu_from_bytes (Pdu_as_bytes (rtu_pdu a)) = Some (rtu_pdu a)"

lemma RtuAdu_decode_canonical:
  assumes "RtuAdu_decode frame = Inr a"
  shows "wf_RtuAdu a"
proof -
  have len: "4 \<le> length frame" "length frame \<le> MAX_RTU_ADU" using RtuAdu_decode_Inr [OF assms] by auto
  then obtain body lo hi where f: "frame = body @ [lo, hi]" using split_last_two [of frame] by auto
  note d = RtuAdu_decode_legal [OF len [unfolded f]]
  from d(2) obtain p where p: "Pdu_from_bytes (tl body) = Some p" by blast
  with d(1) assms f have "rtu_pdu a = p" by (auto split: if_splits)
  with p Pdu_from_bytes_as_bytes [OF p] show ?thesis by (simp add: wf_RtuAdu_def)
qed

interpretation rtu_codec: wire_codec wf_RtuAdu RtuAdu_to_vec RtuAdu_decode
proof
  fix a :: RtuAdu
  assume wf: "wf_RtuAdu a"
  then have p: "wf_Pdu (rtu_pdu a)" using Pdu_from_bytes_as_bytes by (auto simp: wf_RtuAdu_def)
  from RtuAdu_decode_to_vec [OF p] obtain b where b: "RtuAdu_decode (RtuAdu_to_vec a) = Inr b" "RtuAdu_eq b a" by blast
  from RtuAdu_decode_canonical [OF b(1)] b(2) wf have "b = a"
    by (simp add: wf_RtuAdu_def RtuAdu_eq_def Pdu_eq_def)
  with b(1) show "RtuAdu_decode (RtuAdu_to_vec a) = Inr a" by simp
qed (rule RtuAdu_decode_canonical)

section \<open>Properties\<close>

text \<open>
  Which serial frames are accepted: exactly those of four to 256 bytes whose CRC residue is
  right.  Every other frame is refused for its length or for its CRC, in that order; the error for a
  PDU of illegal length cannot occur; and an accepted frame encodes back to the bytes received.
\<close>
theorem rtu_accepts_exactly_valid_frames:
  "case RtuAdu_decode frame of
     Inr a \<Rightarrow> 4 \<le> length frame \<and> length frame \<le> 256 \<and> crc_residue_ok frame \<and> RtuAdu_to_vec a = frame
   | Inl (Rtu_TooShort n) \<Rightarrow> n = length frame \<and> length frame < 4
   | Inl (Rtu_TooLong n) \<Rightarrow> n = length frame \<and> 256 < length frame
   | Inl (Rtu_CrcMismatch c d) \<Rightarrow> 4 \<le> length frame \<and> length frame \<le> 256 \<and> \<not> crc_residue_ok frame \<and> c \<noteq> d
   | Inl (Rtu_PduLength n) \<Rightarrow> False"
proof -
  consider (short) "length frame < 4" | (long) "MAX_RTU_ADU < length frame"
    | (legal) "4 \<le> length frame" "length frame \<le> MAX_RTU_ADU" by linarith
  then show ?thesis
  proof cases
    case legal
    note sum = RtuAdu_decode_sum [OF legal]
    show ?thesis
    proof (cases "crc_residue_ok frame")
      case True
      with sum(1) obtain a where "RtuAdu_decode frame = Inr a" by blast
      with True legal RtuAdu_decode_Inr(1) [OF this] show ?thesis by (simp add: limit_defs)
    next
      case False
      with sum(2) legal show ?thesis by (auto simp: limit_defs)
    qed
  qed (simp_all add: RtuAdu_decode_def limit_defs)
qed

text \<open>
  Sending and receiving: every ADU a serial device sends is accepted and read back as the
  same address and the same PDU bytes.
\<close>
theorem rtu_round_trip:
  assumes "wf_Pdu (rtu_pdu a)"
  shows "\<exists>b. RtuAdu_decode (RtuAdu_to_vec a) = Inr b \<and> RtuAdu_eq b a"
  using assms by (rule RtuAdu_decode_to_vec)

theorem rtu_round_trip_witness:
  "\<exists>b. RtuAdu_decode (RtuAdu_to_vec \<lparr>rtu_address = 17, rtu_pdu = Pdu_new 3\<rparr>) = Inr b \<and>
     RtuAdu_eq b \<lparr>rtu_address = 17, rtu_pdu = Pdu_new 3\<rparr>"
  by (rule rtu_round_trip) simp

text \<open>
  Claim C28.  A corrupted byte is never acted on: changing any one byte of the address or PDU of a
  frame on the wire makes the receiver refuse it with a CRC mismatch, to which silence is required.
\<close>
theorem rtu_detects_corrupted_byte:
  assumes "wf_Pdu (rtu_pdu a)" "i < length (RtuAdu_to_vec a) - 2" "b \<noteq> RtuAdu_to_vec a ! i"
  shows "\<exists>c d. RtuAdu_decode ((RtuAdu_to_vec a)[i := b]) = Inl (Rtu_CrcMismatch c d) \<and>
     RtuError_requires_silence (Rtu_CrcMismatch c d)"
proof -
  let ?body = "rtu_address a # Pdu_as_bytes (rtu_pdu a)"
  from RtuAdu_to_vec_split [of a] obtain lo hi where
    v: "RtuAdu_to_vec a = ?body @ [lo, hi]" "crc_from_wire lo hi = crc_of ?body" by blast
  have i: "i < length ?body" using assms(2) by (simp add: v(1))
  have upd: "(RtuAdu_to_vec a)[i := b] = ?body[i := b] @ [lo, hi]" unfolding v(1) using i by (rule list_update_append1)
  have "crc_of (?body[i := b]) \<noteq> crc_of ?body" 
    using crc_of_detects [of b "?body ! i" "take i ?body" "drop (Suc i) ?body"] assms(3) i
    by (simp only: id_take_nth_drop [OF i, symmetric] upd_conv_take_nth_drop [OF i, symmetric] v(1) nth_append if_True list_update_id not_False_eq_True)
  moreover have "4 \<le> length (?body[i := b] @ [lo, hi])" "length (?body[i := b] @ [lo, hi]) \<le> MAX_RTU_ADU"
    using length_RtuAdu_to_vec [OF assms(1)] by (simp_all add: v(1) del: list_update.simps)
  note RtuAdu_decode_legal(1) [OF this]
  ultimately show ?thesis unfolding upd using v(2) by simp
qed

theorem rtu_detects_corrupted_byte_witness:
  "\<exists>c d. RtuAdu_decode ((RtuAdu_to_vec \<lparr>rtu_address = 17, rtu_pdu = Pdu_new 3\<rparr>)[1 := 4]) = Inl (Rtu_CrcMismatch c d) \<and>
     RtuError_requires_silence (Rtu_CrcMismatch c d)"
  by (rule rtu_detects_corrupted_byte) (simp_all add: RtuAdu_to_vec_def Let_def crc_to_wire_def)

text \<open>
  The silences are exact: up to 19200 baud they are the integer part of 3.5 and 1.5
  characters of eleven bits in nanoseconds (the sixty-four bit product does not wrap), and the
  silence between frames is always longer than the one within a frame.
\<close>
theorem rtu_timing_exact:
  assumes "Timing_for_baud baud = Some t"
  shows "0 < unat baud \<and> baud_rate t = baud \<and> inter_character_ns t < inter_frame_ns t \<and>
    (baud \<le> FIXED_ABOVE_BAUD \<longrightarrow>
      unat (inter_frame_ns t) = 1000000000 * 7 * 11 div (2 * unat baud) \<and>
      unat (inter_character_ns t) = 1000000000 * 3 * 11 div (2 * unat baud)) \<and>
    (Timing_is_recommended t \<longleftrightarrow> FIXED_ABOVE_BAUD < baud)"
proof (cases "baud \<le> FIXED_ABOVE_BAUD")
  case True
  have b: "0 < unat baud" "baud_rate t = baud" using assms by (auto simp: Timing_for_baud_def Let_def unat_gt_0 split: if_splits)
  have u: "unat baud \<le> 19200" using True by (simp add: FIXED_ABOVE_BAUD_def word_le_nat_alt)
  note ns = Timing_for_baud_exact [OF assms True]
  have half: "1000000000 * 385 div (10 * n) = 1000000000 * 7 * 11 div (2 * n)"
    "1000000000 * 165 div (10 * n) = 1000000000 * 3 * 11 div (2 * n)" for n :: nat
    using div_mult_mult1 [of 5 "1000000000 * 77" "2 * n"] div_mult_mult1 [of 5 "1000000000 * 33" "2 * n"] by simp_all
  have "1000000000 * 3 * 11 div (2 * unat baud) < 1000000000 * 7 * 11 div (2 * unat baud)"
  proof -
    have "Suc (16500000000 div unat baud) = (16500000000 + unat baud) div unat baud"
      using div_add_self2 [of "unat baud" 16500000000] b(1) by linarith
    also have "\<dots> \<le> 38500000000 div unat baud" by (rule div_le_mono) (use u in simp)
    finally show ?thesis by simp
  qed
  with b ns half True show ?thesis by (simp add: word_less_nat_alt Timing_is_recommended_def word_le_nat_alt)
next
  case False
  with assms show ?thesis
    by (auto simp: Timing_for_baud_def Let_def Timing_is_recommended_def FIXED_INTER_FRAME_NS_def
        FIXED_INTER_CHARACTER_NS_def unat_gt_0 split: if_splits)
qed

theorem rtu_timing_exact_witness:
  "\<exists>t. Timing_for_baud 9600 = Some t \<and> unat (inter_frame_ns t) = 4010416 \<and> unat (inter_character_ns t) = 1718750"
proof -
  obtain t where t: "Timing_for_baud 9600 = Some t" by (simp add: Timing_for_baud_def FIXED_ABOVE_BAUD_def Let_def)
  from rtu_timing_exact [OF t] t show ?thesis by (simp add: FIXED_ABOVE_BAUD_def)
qed

end
