(* ===== verification/Iec_Time.thy ===== *)
theory Iec_Time
  imports Salman_Prelude
begin

text \<open>
  Times and dates, from \<open>crates/salman-core/src/time.rs\<close>.  A \<open>Duration\<close> is its count of nanoseconds,
  an \<open>i64\<close> kept as an \<open>int\<close> with the range checks the code makes written out; a \<open>Date\<close> is its count of
  days, an \<open>i32\<close>.  The civil calendar conversions are shown to be inverse to each other, and the
  canonical literal of a duration to carry exactly its value.
\<close>

section \<open>Durations\<close>

type_synonym Duration = int

definition NS_PER_US :: int where "NS_PER_US = 1000"
definition NS_PER_MS :: int where "NS_PER_MS = 1000000"
definition NS_PER_S :: int where "NS_PER_S = 1000000000"
definition NS_PER_MIN :: int where "NS_PER_MIN = 60 * NS_PER_S"
definition NS_PER_HOUR :: int where "NS_PER_HOUR = 60 * NS_PER_MIN"
definition NS_PER_DAY :: int where "NS_PER_DAY = 24 * NS_PER_HOUR"

lemmas ns_defs = NS_PER_US_def NS_PER_MS_def NS_PER_S_def NS_PER_MIN_def NS_PER_HOUR_def NS_PER_DAY_def

definition Duration_from_millis :: "int \<Rightarrow> Duration option" where
  "Duration_from_millis millis = checked_i64 (millis * NS_PER_MS)"

definition Duration_from_secs :: "int \<Rightarrow> Duration option" where
  "Duration_from_secs secs = checked_i64 (secs * NS_PER_S)"

record DurationParts =
  dp_negative :: bool
  dp_days :: u64
  dp_hours :: u64
  dp_minutes :: u64
  dp_seconds :: u64
  dp_millis :: u64
  dp_micros :: u64
  dp_nanos :: u64

text \<open>The accumulating loop of \<open>from_parts\<close>: each component is converted, scaled and added, all checked.\<close>

fun from_parts_loop :: "int \<Rightarrow> (u64 \<times> int) list \<Rightarrow> int option" where
  "from_parts_loop acc [] = Some acc"
| "from_parts_loop acc ((value, scale) # rest) =
     Option.bind (checked_i64 (uint value)) (\<lambda>v.
     Option.bind (checked_i64 (v * scale)) (\<lambda>scaled.
     Option.bind (checked_i64 (acc + scaled)) (\<lambda>acc. from_parts_loop acc rest)))"

definition Duration_from_parts :: "DurationParts \<Rightarrow> Duration option" where
  "Duration_from_parts p =
     Option.bind (from_parts_loop 0
       [(dp_days p, NS_PER_DAY), (dp_hours p, NS_PER_HOUR), (dp_minutes p, NS_PER_MIN), (dp_seconds p, NS_PER_S),
        (dp_millis p, NS_PER_MS), (dp_micros p, NS_PER_US), (dp_nanos p, 1)]) (\<lambda>acc.
     if dp_negative p then checked_i64 (- acc) else Some acc)"

definition Duration_as_millis :: "Duration \<Rightarrow> int" where
  "Duration_as_millis d = tdiv d NS_PER_MS"

definition Duration_is_negative :: "Duration \<Rightarrow> bool" where
  "Duration_is_negative d \<longleftrightarrow> d < 0"

definition Duration_checked_add :: "Duration \<Rightarrow> Duration \<Rightarrow> Duration option" where
  "Duration_checked_add a b = checked_i64 (a + b)"

definition Duration_checked_sub :: "Duration \<Rightarrow> Duration \<Rightarrow> Duration option" where
  "Duration_checked_sub a b = checked_i64 (a - b)"

definition Duration_saturating_add :: "Duration \<Rightarrow> Duration \<Rightarrow> Duration" where
  "Duration_saturating_add a b = saturate_i64 (a + b)"

definition Duration_checked_mul :: "Duration \<Rightarrow> int \<Rightarrow> Duration option" where
  "Duration_checked_mul a factor = checked_i64 (a * factor)"

definition Duration_checked_div :: "Duration \<Rightarrow> int \<Rightarrow> Duration option" where
  "Duration_checked_div a divisor = (if divisor = 0 then None else checked_i64 (tdiv a divisor))"

section \<open>The canonical literal\<close>

text \<open>\<open>write!(out, "{units}")\<close>: decimal digits without leading zeros.\<close>

definition digit_char :: "nat \<Rightarrow> char" where
  "digit_char d = char_of (48 + d)"

fun show_nat :: "nat \<Rightarrow> string" where
  "show_nat n = (if n < 10 then [digit_char n] else show_nat (n div 10) @ [digit_char (n mod 10)])"

declare show_nat.simps [simp del]

definition literal_units :: "(int \<times> string) list" where
  "literal_units = [(NS_PER_DAY, ''d''), (NS_PER_HOUR, ''h''), (NS_PER_MIN, ''m''), (NS_PER_S, ''s''),
     (NS_PER_MS, ''ms''), (NS_PER_US, ''us''), (1, ''ns'')]"

fun literal_loop :: "int \<Rightarrow> (int \<times> string) list \<Rightarrow> string" where
  "literal_loop rest [] = ''''"
| "literal_loop rest ((scale, suffix) # more_units) =
     (let units = rest div scale in
      if units > 0 then show_nat (nat units) @ suffix @ literal_loop (rest - units * scale) more_units
      else literal_loop rest more_units)"

definition Duration_to_iec_literal :: "Duration \<Rightarrow> string" where
  "Duration_to_iec_literal d =
     (if d = 0 then ''T#0s''
      else ''T#'' @ (if d < 0 then ''-'' else '''') @ literal_loop \<bar>d\<bar> literal_units)"

section \<open>Dates\<close>

definition i32_MIN :: int where "i32_MIN = - (2 ^ 31)"
definition i32_MAX :: int where "i32_MAX = 2 ^ 31 - 1"

definition checked_i32 :: "int \<Rightarrow> int option" where
  "checked_i32 x = (if i32_MIN \<le> x \<and> x \<le> i32_MAX then Some x else None)"

lemma checked_i32_eq_Some [simp]: "(checked_i32 x = Some y) = (i32_MIN \<le> x \<and> x \<le> i32_MAX \<and> y = x)"
  by (auto simp: checked_i32_def)

definition is_leap_year :: "int \<Rightarrow> bool" where
  "is_leap_year year \<longleftrightarrow> (trem year 4 = 0 \<and> trem year 100 \<noteq> 0) \<or> trem year 400 = 0"

definition days_in_month :: "int \<Rightarrow> nat \<Rightarrow> nat" where
  "days_in_month year month =
     (if month \<in> {1, 3, 5, 7, 8, 10, 12} then 31
      else if month \<in> {4, 6, 9, 11} then 30
      else if month = 2 \<and> is_leap_year year then 29
      else if month = 2 then 28
      else 0)"

text \<open>
  The arithmetic between the checked operations is done without bounds here: for every \<open>i32\<close> year its
  intermediate values fit, except \<open>y - 399\<close> for the 399 most negative years, whose results the
  checked multiplication rejects in any case.
\<close>

definition days_from_civil :: "int \<Rightarrow> nat \<Rightarrow> nat \<Rightarrow> int option" where
  "days_from_civil year month day =
     Option.bind (if month \<le> 2 then checked_i32 (year - 1) else Some year) (\<lambda>y.
     let era = tdiv (if y \<ge> 0 then y else y - 399) 400;
         yoe = y - era * 400;
         m = int month; d = int day;
         doy = tdiv (153 * (if m > 2 then m - 3 else m + 9) + 2) 5 + d - 1;
         doe = yoe * 365 + tdiv yoe 4 - tdiv yoe 100 + doy
     in Option.bind (checked_i32 (era * 146097)) (\<lambda>a.
        Option.bind (checked_i32 (a + doe)) (\<lambda>b. checked_i32 (b - 719468))))"

definition civil_from_days :: "int \<Rightarrow> int \<times> nat \<times> nat" where
  "civil_from_days days =
     (let z = max i32_MIN (min i32_MAX (days + 719468));
          era = tdiv (if z \<ge> 0 then z else z - 146096) 146097;
          doe = z - era * 146097;
          yoe = tdiv (doe - tdiv doe 1460 + tdiv doe 36524 - tdiv doe 146096) 365;
          y = yoe + era * 400;
          doy = doe - (365 * yoe + tdiv yoe 4 - tdiv yoe 100);
          mp = tdiv (5 * doy + 2) 153;
          d = doy - tdiv (153 * mp + 2) 5 + 1;
          m = (if mp < 10 then mp + 3 else mp - 9);
          year = (if m \<le> 2 then y + 1 else y)
      in (year, nat m, nat d))"

definition Date_from_ymd :: "int \<Rightarrow> nat \<Rightarrow> nat \<Rightarrow> int option" where
  "Date_from_ymd year month day =
     (if \<not> (1 \<le> month \<and> month \<le> 12) \<or> day < 1 \<or> day > days_in_month year month then None
      else days_from_civil year month day)"

definition Date_to_ymd :: "int \<Rightarrow> int \<times> nat \<times> nat" where
  "Date_to_ymd days = civil_from_days days"

section \<open>Times of day and instants\<close>

definition TimeOfDay_from_hms_nano :: "nat \<Rightarrow> nat \<Rightarrow> nat \<Rightarrow> nat \<Rightarrow> int option" where
  "TimeOfDay_from_hms_nano hour minute second nano =
     (if hour > 23 \<or> minute > 59 \<or> second > 59 \<or> nano > 999999999 then None
      else Some (int hour * NS_PER_HOUR + int minute * NS_PER_MIN + int second * NS_PER_S + int nano))"

definition TimeOfDay_to_hms_nano :: "int \<Rightarrow> int \<times> int \<times> int \<times> int" where
  "TimeOfDay_to_hms_nano t =
     (let hour = t div NS_PER_HOUR; rest = t mod NS_PER_HOUR;
          minute = rest div NS_PER_MIN; rest = rest mod NS_PER_MIN;
          second = rest div NS_PER_S; nano = rest mod NS_PER_S
      in (hour, minute, second, nano))"

definition DateTime_from_date_time :: "int \<Rightarrow> int \<Rightarrow> int option" where
  "DateTime_from_date_time date time =
     Option.bind (checked_i64 (date * NS_PER_DAY)) (\<lambda>base.
     Option.bind (checked_i64 time) (\<lambda>nanos. checked_i64 (base + nanos)))"

text \<open>\<open>div_euclid\<close> and \<open>rem_euclid\<close> by a positive number are HOL's \<open>div\<close> and \<open>mod\<close>.\<close>

definition DateTime_split :: "int \<Rightarrow> int \<times> int" where
  "DateTime_split t =
     (let days = t div NS_PER_DAY; rest = t mod NS_PER_DAY;
          days = (case checked_i32 days of Some d \<Rightarrow> d | None \<Rightarrow> if days < 0 then i32_MIN else i32_MAX)
      in (days, \<bar>rest\<bar>))"

section \<open>The civil calendar\<close>

text \<open>Truncating division of the shifted value is division rounding down.\<close>

lemma tdiv_floor:
  assumes "0 < k"
  shows "tdiv (if 0 \<le> y then y else y - (k - 1)) k = y div k"
proof (cases "0 \<le> y")
  case False
  have "k - 1 - y = k * (- (y div k)) + (k - 1 - y mod k)"
    using mult_div_mod_eq [of k y] by (simp add: algebra_simps)
  moreover have "0 \<le> k - 1 - y mod k" "k - 1 - y mod k < k"
    using pos_mod_bound [OF assms, of y] pos_mod_sign [OF assms, of y] by linarith+
  ultimately have "(k - 1 - y) div k = - (y div k)" by (rule int_div_pos_eq)
  with False assms show ?thesis by (simp add: tdiv_def)
qed (use assms in simp)

text \<open>Years of an era of four centuries, counted from March: their first day, and the year of a day.\<close>

definition year_start :: "int \<Rightarrow> int" where
  "year_start y = 365 * y + y div 4 - y div 100 + y div 400"

definition year_of :: "int \<Rightarrow> int" where
  "year_of doe = (doe - doe div 1460 + doe div 36524 - doe div 146096) div 365"

definition shifted :: "int \<Rightarrow> int" where
  "shifted doe = doe - doe div 1460 + doe div 36524 - doe div 146096"

lemma year_ends_check:
  "list_all (\<lambda>y. 365 * y \<le> shifted (year_start y) \<and> shifted (year_start (y + 1) - 1) < 365 * (y + 1)) [0..399]"
  by code_simp

lemma shifted_mono: "a \<le> b \<Longrightarrow> shifted a \<le> shifted b"
proof (induction b rule: int_ge_induct)
  case (step b)
  have "shifted b \<le> shifted (b + 1)"
  proof -
    have "(b + 1) div 1460 \<le> b div 1460 + 1" "b div 36524 \<le> (b + 1) div 36524" "(b + 1) div 146096 \<le> b div 146096 + 1"
      by linarith+
    moreover have "(b + 1) div 146096 = b div 146096 \<or> (b + 1) div 36524 = b div 36524 + 1"
    proof -
      have "x div 146096 = x div 36524 div 4" for x :: int using zdiv_zmult2_eq [of 4 x 36524] by simp
      moreover have "b div 36524 \<le> (b + 1) div 36524" "(b + 1) div 36524 \<le> b div 36524 + 1" by linarith+
      ultimately show ?thesis by (cases "(b + 1) div 36524 = b div 36524") auto
    qed
    ultimately show ?thesis unfolding shifted_def by linarith
  qed
  with step show ?case by linarith
qed simp

lemma year_of_day:
  assumes "0 \<le> y" "y \<le> 399" "year_start y \<le> doe" "doe < year_start (y + 1)"
  shows "year_of doe = y"
proof -
  have s: "0 \<le> year_start y" using assms(1) by (simp add: year_start_def)
  from year_ends_check assms(1,2) have e: "365 * y \<le> shifted (year_start y)" "shifted (year_start (y + 1) - 1) < 365 * (y + 1)"
    by (auto simp: list_all_iff)
  have "365 * y \<le> shifted doe" using e(1) shifted_mono [OF assms(3)] by linarith
  moreover have "shifted doe < 365 * (y + 1)"
    using e(2) shifted_mono [of doe "year_start (y + 1) - 1"] s assms(3,4) by linarith
  ultimately have "shifted doe div 365 = y" by (intro int_div_pos_eq [of _ _ _ "shifted doe - 365 * y"]) (simp_all add: algebra_simps)
  then show ?thesis by (simp add: year_of_def shifted_def)
qed

lemma year_of_exists:
  assumes "0 \<le> doe" "doe < 146097"
  shows "\<exists>y. 0 \<le> y \<and> y \<le> 399 \<and> year_start y \<le> doe \<and> doe < year_start (y + 1)"
proof -
  have "doe < year_start (int n) \<Longrightarrow> \<exists>y. 0 \<le> y \<and> y < int n \<and> year_start y \<le> doe \<and> doe < year_start (y + 1)" for n
  proof (induction n)
    case 0
    with assms(1) show ?case by (simp add: year_start_def)
  next
    case (Suc n)
    show ?case
    proof (cases "doe < year_start (int n)")
      case True
      with Suc.IH obtain y where "0 \<le> y" "y < int n" "year_start y \<le> doe" "doe < year_start (y + 1)" by blast
      then show ?thesis by (intro exI [of _ y]) simp
    next
      case False
      with Suc.prems show ?thesis by (intro exI [of _ "int n"]) (simp add: add.commute)
    qed
  qed
  from this [of 400] assms(2) obtain y where "0 \<le> y" "y < 400" "year_start y \<le> doe" "doe < year_start (y + 1)"
    by (auto simp: year_start_def [of 400])
  then show ?thesis by (intro exI [of _ y]) simp
qed

text \<open>Months, counted from March, within a year.\<close>

definition month_index :: "int \<Rightarrow> int" where
  "month_index m = (if m > 2 then m - 3 else m + 9)"

definition day_of_year :: "int \<Rightarrow> int \<Rightarrow> int" where
  "day_of_year m d = (153 * month_index m + 2) div 5 + d - 1"

definition month_day :: "int \<Rightarrow> int \<times> int" where
  "month_day doy = (let mp = (5 * doy + 2) div 153 in
     (if mp < 10 then mp + 3 else mp - 9, doy - (153 * mp + 2) div 5 + 1))"

definition month_days :: "int \<Rightarrow> int" where
  "month_days m = (if m \<in> {4, 6, 9, 11} then 30 else if m = 2 then 29 else 31)"

lemma month_day_check:
  "list_all (\<lambda>doy. let (m, d) = month_day doy in 1 \<le> m \<and> m \<le> 12 \<and> 1 \<le> d \<and> d \<le> month_days m \<and> day_of_year m d = doy \<and>
     (doy = 365 \<longleftrightarrow> m = 2 \<and> d = 29)) [0..365]"
  by code_simp

lemma day_of_year_check:
  "list_all (\<lambda>m. list_all (\<lambda>d. 0 \<le> day_of_year m d \<and> day_of_year m d \<le> 365 \<and> month_day (day_of_year m d) = (m, d) \<and>
     (day_of_year m d = 365 \<longrightarrow> m = 2 \<and> d = 29)) [1..month_days m]) [1..12]"
  by code_simp

text \<open>Leap years, and the length of a year counted from March.\<close>

lemma trem_neg: "y < 0 \<Longrightarrow> 0 < k \<Longrightarrow> trem y k = - ((- y) mod k)"
  by (simp add: trem_def tdiv_def minus_mult_div_eq_mod [symmetric])

lemma trem_0_iff: "0 < k \<Longrightarrow> trem y k = 0 \<longleftrightarrow> k dvd y"
  by (cases "0 \<le> y") (simp_all add: trem_neg dvd_eq_mod_eq_0 [symmetric] not_le flip: dvd_eq_mod_eq_0)

lemma is_leap_year_dvd: "is_leap_year y \<longleftrightarrow> (4 dvd y \<and> \<not> 100 dvd y) \<or> 400 dvd y"
  by (simp add: is_leap_year_def trem_0_iff)

lemma div_succ: "0 < k \<Longrightarrow> (y + 1) div k = y div k + (if k dvd y + 1 then 1 else 0)" for y k :: int
proof -
  assume k: "0 < k"
  show ?thesis
  proof (cases "k dvd y + 1")
    case True
    then obtain q where q: "y + 1 = k * q" by blast
    then have "y = k * (q - 1) + (k - 1)" by (simp add: algebra_simps)
    then have "y div k = q - 1" using k by (intro int_div_pos_eq [of y k "q - 1" "k - 1"]) simp_all
    with True q k show ?thesis by simp
  next
    case False
    have "y + 1 = k * (y div k) + (y mod k + 1)" using mult_div_mod_eq [of k y] by linarith
    moreover have "y mod k + 1 \<noteq> k" using False calculation by (metis distrib_left dvd_triv_left mult.right_neutral)
    ultimately have "(y + 1) div k = y div k"
      using pos_mod_bound [OF k, of y] pos_mod_sign [OF k, of y]
      by (intro int_div_pos_eq [of "y + 1" k "y div k" "y mod k + 1"]) linarith+
    with False show ?thesis by simp
  qed
qed

lemma year_length: "year_start (y + 1) = year_start y + (if is_leap_year (y + 1) then 366 else 365)"
proof -
  have "400 dvd y + 1 \<Longrightarrow> 100 dvd y + 1" "100 dvd y + 1 \<Longrightarrow> 4 dvd y + 1"
    by (rule dvd_trans [of _ 400], simp, simp) (rule dvd_trans [of _ 100], simp, simp)
  then show ?thesis by (auto simp: year_start_def is_leap_year_dvd div_succ)
qed

lemma is_leap_year_era: "is_leap_year (y + era * 400) \<longleftrightarrow> is_leap_year y"
proof -
  have "k dvd y + era * 400 \<longleftrightarrow> k dvd y" if "k dvd 400" for k :: int
    using that by (metis dvd_add_left_iff dvd_mult)
  then show ?thesis by (simp add: is_leap_year_dvd)
qed

text \<open>The two conversions, in terms of era, year of era and day of year.\<close>

lemma tdiv_400: "tdiv (if 0 \<le> y then y else y - 399) 400 = y div 400"
  using tdiv_floor [of 400 y] by (cases "0 \<le> y") simp_all

lemma tdiv_146097: "tdiv (if 0 \<le> y then y else y - 146096) 146097 = y div 146097"
  using tdiv_floor [of 146097 y] by (cases "0 \<le> y") simp_all

definition day_number :: "int \<Rightarrow> int \<Rightarrow> int \<Rightarrow> int" where
  "day_number era yoe doy = era * 146097 + year_start yoe + doy"

lemma civil_from_day_number:
  assumes "0 \<le> yoe" "yoe \<le> 399" "0 \<le> doy" "doy \<le> 365" "doy = 365 \<Longrightarrow> is_leap_year (yoe + 1)"
    and "i32_MIN \<le> day_number era yoe doy" "day_number era yoe doy \<le> i32_MAX"
  shows "civil_from_days (day_number era yoe doy - 719468) =
    (let (m, d) = month_day doy in (yoe + era * 400 + (if m \<le> 2 then 1 else 0), nat m, nat d))"
proof -
  define z where "z = day_number era yoe doy"
  define doe where "doe = year_start yoe + doy"
  have below: "doe < year_start (yoe + 1)" using assms(3-5)
    by (cases "is_leap_year (yoe + 1)") (auto simp: doe_def year_length less_le)
  have s0: "0 \<le> year_start yoe" using assms(1) by (simp add: year_start_def)
  have "year_start (yoe + 1) \<le> 146097"
  proof -
    have "list_all (\<lambda>y. year_start (y + 1) \<le> 146097) [0..399]" by code_simp
    with assms(1,2) show ?thesis by (auto simp: list_all_iff)
  qed
  with below s0 assms(3) have doe: "0 \<le> doe" "doe < 146097" by (auto simp: doe_def)
  have z: "z = era * 146097 + doe" by (simp add: z_def day_number_def doe_def)
  then have e: "z div 146097 = era" "z - era * 146097 = doe" using doe by simp_all
  have y: "year_of doe = yoe" using assms(1-3) below by (intro year_of_day) (auto simp: doe_def)
  have zmax: "max i32_MIN (min i32_MAX (z - 719468 + 719468)) = z" using assms(6,7) by (simp add: z_def)
  have yoe: "tdiv (doe - tdiv doe 1460 + tdiv doe 36524 - tdiv doe 146096) 365 = yoe"
  proof -
    have "0 \<le> shifted doe" using shifted_mono [OF doe(1)] by (simp add: shifted_def)
    with doe(1) y show ?thesis by (simp add: shifted_def year_of_def)
  qed
  have doy: "doe - (365 * yoe + tdiv yoe 4 - tdiv yoe 100) = doy"
    using assms(1,2) by (simp add: doe_def year_start_def)
  have mp: "tdiv (5 * doy + 2) 153 = (5 * doy + 2) div 153" "0 \<le> (5 * doy + 2) div 153" using assms(3) by simp_all
  then have md: "tdiv (153 * ((5 * doy + 2) div 153) + 2) 5 = (153 * ((5 * doy + 2) div 153) + 2) div 5" by simp
  have "civil_from_days (z - 719468) = (let (m, d) = month_day doy in (yoe + era * 400 + (if m \<le> 2 then 1 else 0), nat m, nat d))"
    unfolding civil_from_days_def Let_def zmax tdiv_146097 e yoe doy mp(1) md month_day_def by simp
  then show ?thesis by (simp add: z_def)
qed

lemma era_split: "0 \<le> y mod 400" "y mod 400 \<le> 399" "y = y mod 400 + y div 400 * 400" for y :: int
  using pos_mod_bound [of 400 y] by simp_all

lemma days_from_civil_parts:
  fixes year :: int and m d :: nat
  assumes "1 \<le> m" "m \<le> 12"
  shows "days_from_civil year m d =
     Option.bind (if m \<le> 2 then checked_i32 (year - 1) else Some year) (\<lambda>y.
     Option.bind (checked_i32 (y div 400 * 146097)) (\<lambda>a.
     Option.bind (checked_i32 (a + (year_start (y mod 400) + day_of_year (int m) (int d)))) (\<lambda>b. checked_i32 (b - 719468))))"
proof -
  have m: "tdiv (153 * (if int m > 2 then int m - 3 else int m + 9) + 2) 5 = (153 * month_index (int m) + 2) div 5"
    using assms by (simp add: month_index_def)
  have d: "(y - y div 400 * 400) * 365 + tdiv (y - y div 400 * 400) 4 - tdiv (y - y div 400 * 400) 100 +
      (tdiv (153 * (if int m > 2 then int m - 3 else int m + 9) + 2) 5 + int d - 1) =
      year_start (y mod 400) + day_of_year (int m) (int d)" for y
  proof -
    have "y - y div 400 * 400 = y mod 400" using era_split(3) [of y] by linarith
    moreover have "y mod 400 div 400 = 0" using era_split(1,2) [of y] by simp
    ultimately show ?thesis unfolding m using era_split(1) [of y] by (simp add: year_start_def day_of_year_def)
  qed
  show ?thesis unfolding days_from_civil_def Let_def tdiv_400 d ..
qed

lemma days_from_civil_eq:
  fixes year r :: int and m d :: nat
  assumes "1 \<le> m" "m \<le> 12"
  defines "y \<equiv> (if m \<le> 2 then year - 1 else year)"
  defines "n \<equiv> day_number (y div 400) (y mod 400) (day_of_year (int m) (int d))"
  shows "days_from_civil year m d = Some r \<longleftrightarrow>
     (m \<le> 2 \<longrightarrow> i32_MIN \<le> year - 1 \<and> year - 1 \<le> i32_MAX) \<and>
     i32_MIN \<le> y div 400 * 146097 \<and> y div 400 * 146097 \<le> i32_MAX \<and>
     i32_MIN \<le> n \<and> n \<le> i32_MAX \<and> i32_MIN \<le> n - 719468 \<and> n - 719468 \<le> i32_MAX \<and> r = n - 719468"
  unfolding days_from_civil_parts [OF assms(1,2)] n_def y_def day_number_def
  by (cases "m \<le> 2") (auto simp: bind_eq_Some_conv add.assoc)

text \<open>A date the calendar has, and what \<open>day_of_year\<close> and \<open>month_day\<close> make of it.\<close>

lemma days_in_month_bound: "1 \<le> m \<Longrightarrow> m \<le> 12 \<Longrightarrow> d \<le> days_in_month y m \<longleftrightarrow>
    int d \<le> month_days (int m) \<and> (m = 2 \<and> d = 29 \<longrightarrow> is_leap_year y)"
proof -
  assume "1 \<le> m" "m \<le> 12"
  then have "m = 1 \<or> m = 2 \<or> m = 3 \<or> m = 4 \<or> m = 5 \<or> m = 6 \<or> m = 7 \<or> m = 8 \<or> m = 9 \<or> m = 10 \<or> m = 11 \<or> m = 12"
    by presburger
  then show ?thesis by (elim disjE) (auto simp: days_in_month_def month_days_def)
qed

lemma day_of_year_props:
  assumes "1 \<le> m" "m \<le> 12" "1 \<le> d" "d \<le> month_days m"
  shows "0 \<le> day_of_year m d" "day_of_year m d \<le> 365" "month_day (day_of_year m d) = (m, d)"
    "day_of_year m d = 365 \<Longrightarrow> m = 2 \<and> d = 29"
  using day_of_year_check assms by (auto simp: list_all_iff)

lemma month_day_props:
  assumes "0 \<le> doy" "doy \<le> 365" "month_day doy = (m, d)"
  shows "1 \<le> m" "m \<le> 12" "1 \<le> d" "d \<le> month_days m" "day_of_year m d = doy" "doy = 365 \<longleftrightarrow> m = 2 \<and> d = 29"
  using month_day_check assms by (auto simp: list_all_iff split: prod.splits)

lemma civil_of_date:
  assumes "Date_from_ymd year m d = Some n"
  shows "Date_to_ymd n = (year, m, d)"
proof -
  define y where "y = (if m \<le> 2 then year - 1 else year)"
  have v: "1 \<le> m" "m \<le> 12" "1 \<le> d" "d \<le> days_in_month year m" "days_from_civil year m d = Some n"
    using assms by (auto simp: Date_from_ymd_def split: if_splits)
  let ?doy = "day_of_year (int m) (int d)"
  have md: "int d \<le> month_days (int m)" "m = 2 \<and> d = 29 \<longrightarrow> is_leap_year year" using v days_in_month_bound by auto
  have p: "0 \<le> ?doy" "?doy \<le> 365" "month_day ?doy = (int m, int d)" "?doy = 365 \<Longrightarrow> int m = 2 \<and> int d = 29"
    using v md(1) day_of_year_props [of "int m" "int d"] by auto
  have e: "y mod 400 + y div 400 * 400 = y" by simp
  have leap: "is_leap_year (y mod 400 + 1)" if "?doy = 365"
  proof -
    have "year = (y mod 400 + 1) + y div 400 * 400" "is_leap_year year" using p(4) [OF that] md(2) e by (auto simp: y_def)
    then show ?thesis using is_leap_year_era by metis
  qed
  let ?n = "day_number (y div 400) (y mod 400) ?doy"
  from v(5) [unfolded days_from_civil_eq [OF v(1,2)], folded y_def]
  have n: "n = ?n - 719468" and r: "i32_MIN \<le> ?n" "?n \<le> i32_MAX" by blast+
  from civil_from_day_number [OF era_split(1,2) p(1,2) leap r] show ?thesis
    unfolding Date_to_ymd_def n using p(3) e by (auto simp: y_def)
qed

lemma date_of_civil:
  assumes "i32_MIN \<le> n" "n \<le> i32_MAX - 719468" "Date_to_ymd n = (year, m, d)"
  shows "Date_from_ymd year m d = Some n"
proof -
  define z where "z = n + 719468"
  define era where "era = z div 146097"
  have zr: "i32_MIN + 719468 \<le> z" "z \<le> i32_MAX" using assms(1,2) by (auto simp: z_def)
  have "0 \<le> z mod 146097" "z mod 146097 < 146097" by simp_all
  then obtain yoe where yoe: "0 \<le> yoe" "yoe \<le> 399" "year_start yoe \<le> z mod 146097" "z mod 146097 < year_start (yoe + 1)"
    using year_of_exists by blast
  define doy where "doy = z mod 146097 - year_start yoe"
  have doy: "0 \<le> doy" "doy \<le> 365" "doy = 365 \<Longrightarrow> is_leap_year (yoe + 1)"
    using yoe(3,4) by (auto simp: doy_def year_length split: if_splits)
  have zn: "z = day_number era yoe doy" by (simp add: day_number_def doy_def era_def)
  obtain mi di where md: "month_day doy = (mi, di)" by force
  note p = month_day_props [OF doy(1,2) md]
  have r: "i32_MIN \<le> day_number era yoe doy" "day_number era yoe doy \<le> i32_MAX" using zr zn by auto
  have "n = day_number era yoe doy - 719468" using zn by (simp add: z_def)
  with civil_from_day_number [OF yoe(1,2) doy r] md assms(3)
  have ymd: "year = yoe + era * 400 + (if mi \<le> 2 then 1 else 0)" "m = nat mi" "d = nat di"
    by (auto simp: Date_to_ymd_def)
  have y: "(if m \<le> 2 then year - 1 else year) = yoe + era * 400" using p(1) by (auto simp: ymd)
  have q: "(yoe + era * 400) div 400 = era" "(yoe + era * 400) mod 400 = yoe" using yoe(1,2) by simp_all
  have "mi = 2 \<and> di = 29 \<Longrightarrow> is_leap_year year"
    using doy(3) p(6) is_leap_year_era [of "yoe + 1" era] by (auto simp: ymd(1) algebra_simps)
  then have valid: "1 \<le> m" "m \<le> 12" "1 \<le> d" "d \<le> days_in_month year m"
    using p days_in_month_bound [of m d year] by (auto simp: ymd(2,3))
  have b: "year_start yoe \<le> 146096" using yoe(3) pos_mod_bound [of 146097 z] by linarith
  have s0: "0 \<le> year_start yoe" using yoe(1) by (simp add: year_start_def)
  have era: "i32_MIN \<le> era * 146097" "era * 146097 \<le> i32_MAX" "- 14700 \<le> era" "era \<le> 14700"
    using zr zn doy(1,2) b s0 by (auto simp: day_number_def i32_MIN_def i32_MAX_def)
  have dy: "day_of_year (int m) (int d) = doy" using p(1,3,5) by (simp add: ymd(2,3))
  have "m \<le> 2 \<longrightarrow> i32_MIN \<le> year - 1 \<and> year - 1 \<le> i32_MAX"
    using y era(3,4) yoe(1,2) by (auto simp: i32_MIN_def i32_MAX_def)
  then have "days_from_civil year m d = Some n"
    unfolding days_from_civil_eq [OF valid(1,2)] y q dy zn [symmetric]
    using era(1,2) zr assms(1,2) by (simp add: z_def)
  with valid show ?thesis by (simp add: Date_from_ymd_def)
qed

section \<open>Properties\<close>

text \<open>
  Claim C29.  The calendar conversions are inverse: a date the constructor accepts is read back as the
  same year, month and day; every day number below the last 719468 is read as a date the constructor
  accepts and turns back into that number; and for those last 719468 day numbers, where the code
  saturates, all are read as one and the same date.
\<close>
theorem date_round_trip:
  "(Date_from_ymd y m d = Some n \<longrightarrow> Date_to_ymd n = (y, m, d)) \<and>
   (i32_MIN \<le> n \<and> n \<le> i32_MAX - 719468 \<and> Date_to_ymd n = (y, m, d) \<longrightarrow> Date_from_ymd y m d = Some n) \<and>
   (i32_MAX - 719468 \<le> k \<and> k \<le> i32_MAX \<longrightarrow> Date_to_ymd k = Date_to_ymd (i32_MAX - 719468))"
proof (intro conjI impI)
  show "Date_from_ymd y m d = Some n \<Longrightarrow> Date_to_ymd n = (y, m, d)" by (rule civil_of_date)
  show "i32_MIN \<le> n \<and> n \<le> i32_MAX - 719468 \<and> Date_to_ymd n = (y, m, d) \<Longrightarrow> Date_from_ymd y m d = Some n"
    by (rule date_of_civil) auto
  assume k: "i32_MAX - 719468 \<le> k \<and> k \<le> i32_MAX"
  then have "max i32_MIN (min i32_MAX (k + 719468)) = max i32_MIN (min i32_MAX (i32_MAX - 719468 + 719468))" by simp
  then show "Date_to_ymd k = Date_to_ymd (i32_MAX - 719468)" by (simp only: Date_to_ymd_def civil_from_days_def)
qed

theorem date_round_trip_witness:
  "Date_from_ymd 2024 2 29 = Some 19782 \<and> Date_to_ymd 19782 = (2024, 2, 29) \<and> Date_from_ymd 2023 2 29 = None"
proof -
  have "Date_from_ymd 2024 2 29 = Some 19782" "Date_from_ymd 2023 2 29 = None"
    by (simp_all add: Date_from_ymd_def days_in_month_def is_leap_year_def trem_def days_from_civil_def Let_def checked_i32_def
        i32_MIN_def i32_MAX_def)
  with date_round_trip [of 2024 2 29 19782] show ?thesis by simp
qed

lemma NS_PER_DAY_eq: "NS_PER_DAY = 86400000000000" by (simp add: ns_defs)

text \<open>
  An instant splits into a date and a time of day from which it is rebuilt exactly, negative
  instants included, unless it lies in the first, incomplete day of the 64-bit range, whose midnight
  is not representable: there the rebuilding reports overflow.  The time of day is within the day,
  and its hours, minutes, seconds and nanoseconds are in range and give it back.
\<close>
theorem datetime_split_round_trip:
  assumes "in_i64 t"
  shows "case DateTime_split t of (date, time) \<Rightarrow>
     DateTime_from_date_time date time = (if t < - 106751 * NS_PER_DAY then None else Some t) \<and> 0 \<le> time \<and> time < NS_PER_DAY \<and>
     (case TimeOfDay_to_hms_nano time of (h, mi, s, n) \<Rightarrow>
        TimeOfDay_from_hms_nano (nat h) (nat mi) (nat s) (nat n) = Some time)"
proof -
  define days where "days = t div NS_PER_DAY"
  define time where "time = t mod NS_PER_DAY"
  have t: "days * NS_PER_DAY + time = t" by (simp add: days_def time_def)
  have time: "0 \<le> time" "time < NS_PER_DAY" by (simp_all add: time_def NS_PER_DAY_eq)
  have days: "- 106752 \<le> days" "days \<le> 106751"
    using assms by (auto simp: days_def NS_PER_DAY_eq i64_bounds)
  then have split: "DateTime_split t = (days, time)"
    using time(1) by (simp add: DateTime_split_def Let_def days_def [symmetric] time_def [symmetric] checked_i32_def i32_MIN_def i32_MAX_def)
  have "DateTime_from_date_time days time = (if t < - 106751 * NS_PER_DAY then None else Some t)"
  proof (cases "t < - 106751 * NS_PER_DAY")
    case True
    then have "days = - 106752" using t time days by (auto simp: NS_PER_DAY_eq)
    with True show ?thesis by (simp add: DateTime_from_date_time_def NS_PER_DAY_eq checked_i64_def i64_bounds)
  next
    case False
    then have "- 106751 \<le> days" using t time by (auto simp: NS_PER_DAY_eq)
    with False show ?thesis
      using assms days time t by (auto simp: DateTime_from_date_time_def bind_eq_Some_conv NS_PER_DAY_eq i64_bounds)
  qed
  moreover
  have h: "0 \<le> time div NS_PER_HOUR" "time div NS_PER_HOUR \<le> 23"
    using time by (auto simp: ns_defs)
  have "0 \<le> time mod NS_PER_HOUR" "time mod NS_PER_HOUR < NS_PER_HOUR" by (simp_all add: ns_defs)
  then have mi: "0 \<le> time mod NS_PER_HOUR div NS_PER_MIN" "time mod NS_PER_HOUR div NS_PER_MIN \<le> 59" by (auto simp: ns_defs)
  have "0 \<le> time mod NS_PER_HOUR mod NS_PER_MIN" "time mod NS_PER_HOUR mod NS_PER_MIN < NS_PER_MIN" by (simp_all add: ns_defs)
  then have s: "0 \<le> time mod NS_PER_HOUR mod NS_PER_MIN div NS_PER_S" "time mod NS_PER_HOUR mod NS_PER_MIN div NS_PER_S \<le> 59"
    by (auto simp: ns_defs)
  have n: "0 \<le> time mod NS_PER_HOUR mod NS_PER_MIN mod NS_PER_S" "time mod NS_PER_HOUR mod NS_PER_MIN mod NS_PER_S \<le> 999999999"
    using pos_mod_bound [of NS_PER_S "time mod NS_PER_HOUR mod NS_PER_MIN"] by (simp_all add: NS_PER_S_def)
  have sum: "time div NS_PER_HOUR * NS_PER_HOUR + time mod NS_PER_HOUR div NS_PER_MIN * NS_PER_MIN +
      time mod NS_PER_HOUR mod NS_PER_MIN div NS_PER_S * NS_PER_S + time mod NS_PER_HOUR mod NS_PER_MIN mod NS_PER_S = time"
    by (simp add: add.assoc)
  have "case TimeOfDay_to_hms_nano time of (h, mi, s, n) \<Rightarrow> TimeOfDay_from_hms_nano (nat h) (nat mi) (nat s) (nat n) = Some time"
    using h mi s n sum by (simp add: TimeOfDay_to_hms_nano_def TimeOfDay_from_hms_nano_def Let_def not_less nat_le_iff)
  ultimately show ?thesis using split time by simp
qed

theorem datetime_split_round_trip_witness:
  "case DateTime_split (- 1) of (date, time) \<Rightarrow>
     DateTime_from_date_time date time = (if - 1 < - 106751 * NS_PER_DAY then None else Some (- 1)) \<and> 0 \<le> time \<and> time < NS_PER_DAY \<and>
     (case TimeOfDay_to_hms_nano time of (h, mi, s, n) \<Rightarrow>
        TimeOfDay_from_hms_nano (nat h) (nat mi) (nat s) (nat n) = Some time)"
  by (rule datetime_split_round_trip) (simp add: i64_bounds)

end
