(* ===== verification/Ascii.thy ===== *)
theory Ascii
  imports Main
begin

text \<open>
  The character classes and the case folding of \<open>u8\<close> and \<open>str\<close> the lexer and the name lookups use.
\<close>

definition code :: "char \<Rightarrow> nat" where
  "code c = of_char c"

definition is_ascii_digit :: "char \<Rightarrow> bool" where
  "is_ascii_digit c \<longleftrightarrow> 48 \<le> code c \<and> code c \<le> 57"

definition is_ascii_lowercase :: "char \<Rightarrow> bool" where
  "is_ascii_lowercase c \<longleftrightarrow> 97 \<le> code c \<and> code c \<le> 122"

definition is_ascii_uppercase :: "char \<Rightarrow> bool" where
  "is_ascii_uppercase c \<longleftrightarrow> 65 \<le> code c \<and> code c \<le> 90"

definition is_ascii_alphabetic :: "char \<Rightarrow> bool" where
  "is_ascii_alphabetic c \<longleftrightarrow> is_ascii_lowercase c \<or> is_ascii_uppercase c"

definition is_ascii_alphanumeric :: "char \<Rightarrow> bool" where
  "is_ascii_alphanumeric c \<longleftrightarrow> is_ascii_digit c \<or> is_ascii_alphabetic c"

definition to_ascii_lowercase :: "char \<Rightarrow> char" where
  "to_ascii_lowercase c = (if is_ascii_uppercase c then char_of (code c + 32) else c)"

definition eq_ignore_ascii_case :: "string \<Rightarrow> string \<Rightarrow> bool" where
  "eq_ignore_ascii_case a b \<longleftrightarrow> map to_ascii_lowercase a = map to_ascii_lowercase b"

lemma eq_ignore_ascii_case_refl [simp]: "eq_ignore_ascii_case a a"
  by (simp add: eq_ignore_ascii_case_def)

text \<open>Among names without lower-case letters, folding the case changes nothing.\<close>

lemma lowercase_inject:
  assumes "\<not> is_ascii_lowercase c" "\<not> is_ascii_lowercase d"
  shows "to_ascii_lowercase c = to_ascii_lowercase d \<longleftrightarrow> c = d"
proof
  assume eq: "to_ascii_lowercase c = to_ascii_lowercase d"
  have l: "code (to_ascii_lowercase x) = (if is_ascii_uppercase x then code x + 32 else code x)" for x
    by (auto simp: to_ascii_lowercase_def code_def is_ascii_uppercase_def)
  have "code (to_ascii_lowercase c) = code (to_ascii_lowercase d)" using eq by simp
  then have "code c = code d" using assms by (auto simp: l is_ascii_lowercase_def is_ascii_uppercase_def split: if_splits)
  then show "c = d" by (simp add: code_def of_char_eq_iff)
qed simp

lemma eq_ignore_ascii_case_upper:
  assumes "list_all (\<lambda>c. \<not> is_ascii_lowercase c) a" "list_all (\<lambda>c. \<not> is_ascii_lowercase c) b"
  shows "eq_ignore_ascii_case a b \<longleftrightarrow> a = b"
  unfolding eq_ignore_ascii_case_def
  using assms by (auto simp: list_all_iff lowercase_inject dest!: map_inj_on intro!: inj_onI)

end
