(* ===== verification/Lexer_Literals.thy ===== *)
theory Lexer_Literals
  imports Iec_Time Ascii
begin

text \<open>
  The literals of times and dates, from \<open>crates/salman-lang/src/lexer.rs\<close>: digits with separators,
  duration, date, time-of-day and date-and-time literals.  A lexer state is the text not yet read and
  the diagnostics reported; a diagnostic is its code, its spans and wording being left out.
\<close>

section \<open>The lexer's cursor\<close>

datatype LexCode = E_MISPLACED_UNDERSCORE | E_BAD_DIGIT | E_LITERAL_OUT_OF_RANGE | E_DIALECT_REJECTS
  | E_BAD_DURATION | E_BAD_DATE_TIME | W_DURATION_TRUNCATED

record Lx =
  lx_rest :: string
  lx_diags :: "LexCode list"

definition digit_value :: "char \<Rightarrow> nat option" where
  "digit_value b =
     (if is_ascii_digit b then Some (code b - 48)
      else if is_ascii_lowercase b then Some (code b - 97 + 10)
      else if is_ascii_uppercase b then Some (code b - 65 + 10)
      else None)"

definition is_digit_in :: "char \<Rightarrow> nat \<Rightarrow> bool" where
  "is_digit_in b radix \<longleftrightarrow> (case digit_value b of Some d \<Rightarrow> d < radix | None \<Rightarrow> False)"

fun peek :: "string \<Rightarrow> char option" where
  "peek [] = None"
| "peek (c # _) = Some c"

definition peek_is :: "(char \<Rightarrow> bool) \<Rightarrow> string \<Rightarrow> bool" where
  "peek_is p s = (case peek s of Some c \<Rightarrow> p c | None \<Rightarrow> False)"

definition Lx_error :: "LexCode \<Rightarrow> Lx \<Rightarrow> Lx" where
  "Lx_error e lx = lx\<lparr>lx_diags := lx_diags lx @ [e]\<rparr>"

section \<open>Digits\<close>

definition u128_MAX :: nat where "u128_MAX = 2 ^ 128 - 1"
definition u64_MAX :: nat where "u64_MAX = 2 ^ 64 - 1"

record digits_state =
  dg_value :: nat
  dg_overflowed :: bool
  dg_any :: bool
  dg_last_was_digit :: bool
  dg_diags :: "LexCode list"

text \<open>
  The scanning loop; it returns the accumulator and the text after the digits.  \<open>lower\<close> is the
  dialect's \<open>lowercase_hex_digits\<close>.
\<close>

definition digits_push :: "nat \<Rightarrow> bool \<Rightarrow> char \<Rightarrow> nat \<Rightarrow> digits_state \<Rightarrow> digits_state" where
  "digits_push radix lower b digit st =
     (let st = (if radix = 16 \<and> is_ascii_lowercase b \<and> \<not> lower
                then st\<lparr>dg_diags := dg_diags st @ [E_DIALECT_REJECTS]\<rparr> else st);
          v = dg_value st * radix + digit;
          st = (if dg_value st * radix > u128_MAX \<or> v > u128_MAX then st\<lparr>dg_overflowed := True\<rparr>
                else st\<lparr>dg_value := v\<rparr>)
      in st\<lparr>dg_any := True, dg_last_was_digit := True\<rparr>)"

fun read_digits_loop :: "nat \<Rightarrow> bool \<Rightarrow> digits_state \<Rightarrow> string \<Rightarrow> digits_state \<times> string" where
  "read_digits_loop radix lower st [] = (st, [])"
| "read_digits_loop radix lower st (b # cs) =
     (if b = CHR ''_'' then
        (if \<not> dg_last_was_digit st \<or> \<not> peek_is (\<lambda>n. is_digit_in n radix) cs
         then read_digits_loop radix lower
                (st\<lparr>dg_diags := dg_diags st @ [E_MISPLACED_UNDERSCORE], dg_last_was_digit := False\<rparr>) cs
         else read_digits_loop radix lower (st\<lparr>dg_last_was_digit := False\<rparr>) cs)
      else if \<not> is_ascii_alphanumeric b then (st, b # cs)
      else case digit_value b of
          None \<Rightarrow> (st, b # cs)
        | Some digit \<Rightarrow>
            if digit \<ge> radix then
              (if is_ascii_digit b
               then read_digits_loop radix lower
                 (st\<lparr>dg_diags := dg_diags st @ [E_BAD_DIGIT], dg_any := True, dg_last_was_digit := True\<rparr>) cs
               else (st, b # cs))
            else read_digits_loop radix lower (digits_push radix lower b digit st) cs)"

definition read_digits :: "nat \<Rightarrow> bool \<Rightarrow> Lx \<Rightarrow> nat option \<times> Lx" where
  "read_digits radix lower lx =
     (let (st, rest) = read_digits_loop radix lower
        \<lparr>dg_value = 0, dg_overflowed = False, dg_any = False, dg_last_was_digit = False, dg_diags = lx_diags lx\<rparr> (lx_rest lx)
      in if \<not> dg_any st then (None, lx\<lparr>lx_diags := dg_diags st\<rparr>)
         else if dg_overflowed st \<or> dg_value st > u64_MAX
         then (Some u64_MAX, Lx_error E_LITERAL_OUT_OF_RANGE \<lparr>lx_rest = rest, lx_diags = dg_diags st\<rparr>)
         else (Some (dg_value st), \<lparr>lx_rest = rest, lx_diags = dg_diags st\<rparr>))"

section \<open>Durations\<close>

definition i128_MAX :: int where "i128_MAX = 2 ^ 127 - 1"
definition i128_MIN :: int where "i128_MIN = - (2 ^ 127)"

definition checked_i128 :: "int \<Rightarrow> int option" where
  "checked_i128 x = (if i128_MIN \<le> x \<and> x \<le> i128_MAX then Some x else None)"

definition saturate_i128 :: "int \<Rightarrow> int" where
  "saturate_i128 x = max i128_MIN (min i128_MAX x)"

definition UNITS :: "(string \<times> int) list" where
  "UNITS = [(''d'', 86400000000000), (''h'', 3600000000000), (''m'', 60000000000), (''s'', 1000000000),
     (''ms'', 1000000), (''us'', 1000), (''ns'', 1)]"

text \<open>\<open>position\<close> of the unit whose name matches without regard to case.\<close>

fun unit_position :: "string \<Rightarrow> (string \<times> int) list \<Rightarrow> nat option" where
  "unit_position text [] = None"
| "unit_position text ((name, _) # us) =
     (if map to_ascii_lowercase text = name then Some 0 else map_option Suc (unit_position text us))"

definition unit_limit :: "nat \<Rightarrow> nat option" where
  "unit_limit i = (if i = 1 then Some 24 else if i = 2 \<or> i = 3 then Some 60 else if 4 \<le> i \<and> i \<le> 6 then Some 1000 else None)"

fun fraction_loop :: "int \<Rightarrow> int \<Rightarrow> string \<Rightarrow> int \<times> int" where
  "fraction_loop numerator denominator [] = (numerator, denominator)"
| "fraction_loop numerator denominator (d # ds) =
     fraction_loop (saturate_i128 (saturate_i128 (numerator * 10) + int (code d - 48))) (saturate_i128 (denominator * 10)) ds"

datatype unit_outcome = Unit_break Lx | Unit_fail Lx | Unit_next Lx int nat bool

text \<open>One turn of the loop, from the digits of a unit to the state for the next.\<close>

definition duration_unit :: "Lx \<Rightarrow> int \<Rightarrow> nat \<Rightarrow> nat \<Rightarrow> bool \<Rightarrow> unit_outcome" where
  "duration_unit lx acc next_unit count truncated =
     (case read_digits 10 True lx of
        (None, lx) \<Rightarrow> Unit_break lx
      | (Some whole, lx) \<Rightarrow>
          (let fractional = peek (lx_rest lx) = Some (CHR ''.'') \<and> peek_is is_ascii_digit (tl (lx_rest lx));
               fraction_digits = (if fractional then takeWhile is_ascii_digit (tl (lx_rest lx)) else []);
               after = (if fractional then dropWhile is_ascii_digit (tl (lx_rest lx)) else lx_rest lx);
               unit_text = takeWhile is_ascii_alphabetic after;
               lx = lx\<lparr>lx_rest := dropWhile is_ascii_alphabetic after\<rparr> in
           case unit_position unit_text UNITS of
             None \<Rightarrow> Unit_fail (Lx_error E_BAD_DURATION lx)
           | Some unit_index \<Rightarrow>
               (let scale = snd (UNITS ! unit_index) in
                if unit_index < next_unit then Unit_fail (Lx_error E_BAD_DURATION lx)
                else if count > 0 \<and> (case unit_limit unit_index of Some limit \<Rightarrow> whole \<ge> limit | None \<Rightarrow> whole \<ge> u128_MAX)
                then Unit_fail (Lx_error E_BAD_DURATION lx)
                else case Option.bind (checked_i128 (int whole)) (\<lambda>w. checked_i128 (w * scale)) of
                    None \<Rightarrow> Unit_fail (Lx_error E_BAD_DURATION lx)
                  | Some whole_ns \<Rightarrow>
                      (case checked_i128 (acc + whole_ns) of
                         None \<Rightarrow> Unit_fail (Lx_error E_BAD_DURATION lx)
                       | Some acc \<Rightarrow>
                           if fraction_digits = [] then Unit_next lx acc (unit_index + 1) truncated
                           else (let (numerator, denominator) = fraction_loop 0 1 fraction_digits;
                                     scaled = saturate_i128 (scale * numerator);
                                     contribution = tdiv scaled denominator;
                                     truncated = (truncated \<or> trem scaled denominator \<noteq> 0);
                                     acc = saturate_i128 (acc + contribution) in
                                 if peek_is (\<lambda>c. is_ascii_digit c \<or> c = CHR ''_'') (lx_rest lx)
                                 then Unit_fail (Lx_error E_BAD_DURATION lx)
                                 else Unit_next lx acc (unit_index + 1) truncated)))))"

lemma read_digits_loop_le: "length (snd (read_digits_loop radix lower st cs)) \<le> length cs"
  by (induction radix lower st cs rule: read_digits_loop.induct) (auto split: option.splits)

lemma read_digits_loop_any: "dg_any (fst (read_digits_loop radix lower st cs)) \<Longrightarrow> \<not> dg_any st \<Longrightarrow>
  length (snd (read_digits_loop radix lower st cs)) < length cs"
proof (induction radix lower st cs rule: read_digits_loop.induct)
  case (2 radix lower st b cs)
  then show ?case
    using read_digits_loop_le [of radix lower _ cs]
    by (auto simp: le_imp_less_Suc split: option.splits if_splits)
qed simp

lemma read_digits_shorter: "read_digits radix lower lx = (Some v, lx') \<Longrightarrow> length (lx_rest lx') < length (lx_rest lx)"
  using read_digits_loop_any [of radix lower "\<lparr>dg_value = 0, dg_overflowed = False, dg_any = False, dg_last_was_digit = False,
      dg_diags = lx_diags lx\<rparr>" "lx_rest lx"]
  by (auto simp: read_digits_def Let_def Lx_error_def split: prod.splits if_splits)

lemma duration_unit_shorter:
  assumes "duration_unit lx acc next_unit count truncated = Unit_next lx' acc' next' truncated'"
  shows "length (lx_rest lx') < length (lx_rest lx)"
proof -
  obtain v lx1 where r: "read_digits 10 True lx = (Some v, lx1)"
    using assms by (cases "read_digits 10 True lx"; cases "fst (read_digits 10 True lx)") (auto simp: duration_unit_def)
  have "lx_rest lx' = dropWhile is_ascii_alphabetic (lx_rest lx1) \<or>
      lx_rest lx' = dropWhile is_ascii_alphabetic (dropWhile is_ascii_digit (tl (lx_rest lx1)))"
    using assms by (auto simp: duration_unit_def r Let_def split: option.splits if_splits prod.splits)
  moreover have "length (dropWhile is_ascii_alphabetic cs) \<le> length cs" "length (dropWhile is_ascii_digit (tl cs)) \<le> length cs" for cs
    using length_dropWhile_le [of is_ascii_alphabetic cs] length_dropWhile_le [of is_ascii_digit "tl cs"] by auto
  ultimately have "length (lx_rest lx') \<le> length (lx_rest lx1)" by (metis order.trans)
  with read_digits_shorter [OF r] show ?thesis by simp
qed

text \<open>The loop over units.  \<open>None\<close> means that a diagnostic ended the literal.\<close>

function duration_loop :: "Lx \<Rightarrow> int \<Rightarrow> nat \<Rightarrow> nat \<Rightarrow> bool \<Rightarrow> (int \<times> nat \<times> bool) option \<times> Lx" where
  "duration_loop lx acc next_unit count truncated =
     (let lx = (if peek (lx_rest lx) = Some (CHR ''_'') \<and> count > 0 then lx\<lparr>lx_rest := tl (lx_rest lx)\<rparr> else lx) in
      if \<not> peek_is is_ascii_digit (lx_rest lx) then (Some (acc, count, truncated), lx)
      else case duration_unit lx acc next_unit count truncated of
          Unit_break lx \<Rightarrow> (Some (acc, count, truncated), lx)
        | Unit_fail lx \<Rightarrow> (None, lx)
        | Unit_next lx acc next_unit truncated \<Rightarrow> duration_loop lx acc next_unit (count + 1) truncated)"
  by pat_completeness auto
termination
proof (relation "measure (\<lambda>(lx, s, n, c, t). length (lx_rest lx))", goal_cases)
  case (2 lx acc next_unit count truncated lx1 lx2 s n t)
  then have "length (lx_rest lx1) \<le> length (lx_rest lx)" by auto
  with duration_unit_shorter [OF 2(3)] show ?case by simp
qed simp

declare duration_loop.simps [simp del]

text \<open>
  \<open>duration_literal\<close> after the prefix and its \<open>#\<close>: the value pushed, or none.  The first parameter is
  the dialect's \<open>signed_duration_literals\<close>.
\<close>

definition duration_literal :: "bool \<Rightarrow> Lx \<Rightarrow> Duration option \<times> Lx" where
  "duration_literal sign_ok lx =
     (let (negative, lx) =
        (case lx_rest lx of
           c # cs \<Rightarrow>
             if c = CHR ''-'' then
               (True, if sign_ok then lx\<lparr>lx_rest := cs\<rparr> else Lx_error E_DIALECT_REJECTS (lx\<lparr>lx_rest := cs\<rparr>))
             else if c = CHR ''+'' then (False, lx\<lparr>lx_rest := cs\<rparr>)
             else (False, lx)
         | [] \<Rightarrow> (False, lx)) in
      case duration_loop lx 0 0 0 False of
        (None, lx) \<Rightarrow> (None, lx)
      | (Some (acc, count, truncated), lx) \<Rightarrow>
          (if count = 0 then (None, Lx_error E_BAD_DURATION lx)
           else let lx = (if truncated then Lx_error W_DURATION_TRUNCATED lx else lx);
                    acc = (if negative then - acc else acc)
                in (case checked_i64 acc of
                      None \<Rightarrow> (None, Lx_error E_BAD_DURATION lx)
                    | Some nanos \<Rightarrow> (Some nanos, lx))))"

section \<open>Reading what was printed\<close>

lemma code_digit_char: "d < 10 \<Longrightarrow> code (digit_char d) = 48 + d"
  by (simp add: code_def digit_char_def)

lemma is_digit_digit_char: "d < 10 \<Longrightarrow> is_ascii_digit (digit_char d)"
  by (simp add: is_ascii_digit_def code_digit_char)

definition digits_value :: "nat \<Rightarrow> string \<Rightarrow> nat" where
  "digits_value v ds = foldl (\<lambda>v c. v * 10 + (code c - 48)) v ds"

lemma digits_value_ge: "v \<le> digits_value v ds"
proof (induction ds arbitrary: v)
  case (Cons d ds)
  from Cons [of "v * 10 + (code d - 48)"] show ?case by (simp add: digits_value_def)
qed (simp add: digits_value_def)

lemma show_nat_induct:
  "(\<And>n. n < 10 \<Longrightarrow> P n) \<Longrightarrow> (\<And>n. 10 \<le> n \<Longrightarrow> P (n div 10) \<Longrightarrow> P n) \<Longrightarrow> P n" for n :: nat
  by (induction n rule: less_induct) (metis div_less_dividend less_numeral_extra(1) linorder_not_less one_less_numeral_iff
      order_less_le_trans semiring_norm(76) zero_less_numeral)

lemma show_nat_value: "digits_value 0 (show_nat n) = n"
proof (induction n rule: show_nat_induct)
  case (2 n)
  then have "digits_value 0 (show_nat n) = n div 10 * 10 + (code (digit_char (n mod 10)) - 48)"
    by (subst show_nat.simps) (simp add: digits_value_def)
  then show ?case by (simp add: code_digit_char)
qed (simp add: show_nat.simps digits_value_def code_digit_char)

lemma show_nat_digits: "list_all is_ascii_digit (show_nat n)" "show_nat n \<noteq> []"
proof (induction n rule: show_nat_induct)
  case (2 n)
  case 1
  from 2 show ?case by (subst show_nat.simps) (simp add: is_digit_digit_char)
  case 2
  show ?case by (subst show_nat.simps) simp
qed (simp_all add: show_nat.simps is_digit_digit_char)

lemma digit_is_alnum: "is_ascii_digit c \<Longrightarrow> is_ascii_alphanumeric c \<and> c \<noteq> CHR ''_'' \<and> digit_value c = Some (code c - 48) \<and> code c - 48 < 10"
  by (auto simp: is_ascii_alphanumeric_def digit_value_def is_ascii_digit_def code_def)

lemma read_digits_loop_digits:
  assumes "list_all is_ascii_digit ds" "digits_value (dg_value st) ds \<le> u128_MAX" "ds \<noteq> []"
  shows "read_digits_loop 10 lower st (ds @ cs) =
    read_digits_loop 10 lower (st\<lparr>dg_value := digits_value (dg_value st) ds, dg_any := True, dg_last_was_digit := True\<rparr>) cs"
  using assms
proof (induction ds arbitrary: st)
  case (Cons d ds)
  let ?v = "dg_value st * 10 + (code d - 48)"
  have v: "?v \<le> u128_MAX" using digits_value_ge [of ?v ds] Cons.prems(2) by (simp add: digits_value_def)
  have d: "is_ascii_alphanumeric d" "d \<noteq> CHR ''_''" "digit_value d = Some (code d - 48)" "code d - 48 < 10"
    using digit_is_alnum [of d] Cons.prems(1) by auto
  have step: "read_digits_loop 10 lower st (d # ds @ cs) =
      read_digits_loop 10 lower (st\<lparr>dg_value := ?v, dg_any := True, dg_last_was_digit := True\<rparr>) (ds @ cs)"
    using d v by (simp add: digits_push_def)
  show ?case
  proof (cases "ds = []")
    case True
    with step show ?thesis by (simp add: digits_value_def)
  next
    case False
    with Cons.IH [of "st\<lparr>dg_value := ?v, dg_any := True, dg_last_was_digit := True\<rparr>"] Cons.prems step show ?thesis
      by (simp add: digits_value_def)
  qed
qed simp

definition ends_number :: "string \<Rightarrow> bool" where
  "ends_number cs \<longleftrightarrow> \<not> peek_is (\<lambda>c. is_ascii_digit c \<or> c = CHR ''_'') cs"

lemma read_digits_loop_stop: "ends_number cs \<Longrightarrow> read_digits_loop 10 lower st cs = (st, cs)"
  by (cases cs) (auto simp: ends_number_def peek_is_def digit_value_def split: option.splits)

lemma read_digits_show:
  assumes "n \<le> u64_MAX" "ends_number cs"
  shows "read_digits 10 lower \<lparr>lx_rest = show_nat n @ cs, lx_diags = ds\<rparr> = (Some n, \<lparr>lx_rest = cs, lx_diags = ds\<rparr>)"
proof -
  have "n \<le> u128_MAX" using assms(1) by (simp add: u64_MAX_def u128_MAX_def)
  with read_digits_loop_digits [OF show_nat_digits(1), of "\<lparr>dg_value = 0, dg_overflowed = False, dg_any = False,
      dg_last_was_digit = False, dg_diags = ds\<rparr>" n lower cs] assms show ?thesis
    by (simp add: read_digits_def show_nat_value show_nat_digits(2) read_digits_loop_stop)
qed

text \<open>What may follow a unit: nothing that the unit's name, a number or a separator could continue.\<close>

definition ends_unit :: "string \<Rightarrow> bool" where
  "ends_unit cs \<longleftrightarrow> \<not> peek_is (\<lambda>c. is_ascii_alphabetic c) cs"

lemma UNITS_names:
  assumes "i < 7"
  shows "list_all is_ascii_alphabetic (fst (UNITS ! i))" "fst (UNITS ! i) \<noteq> []"
    "unit_position (fst (UNITS ! i)) UNITS = Some i" "ends_number (fst (UNITS ! i) @ cs)"
    "peek (fst (UNITS ! i) @ cs) \<noteq> Some (CHR ''.'')" "0 < snd (UNITS ! i)" "snd (UNITS ! i) \<le> 86400000000000"
proof -
  have i: "i = 0 \<or> i = 1 \<or> i = 2 \<or> i = 3 \<or> i = 4 \<or> i = 5 \<or> i = 6" using assms by presburger
  have "list_all is_ascii_alphabetic (fst (UNITS ! i)) \<and> fst (UNITS ! i) \<noteq> [] \<and>
    unit_position (fst (UNITS ! i)) UNITS = Some i \<and> 0 < snd (UNITS ! i) \<and> snd (UNITS ! i) \<le> 86400000000000"
    using i by (elim disjE) (simp_all add: UNITS_def is_ascii_alphabetic_def is_ascii_lowercase_def is_ascii_uppercase_def
        code_def to_ascii_lowercase_def)
  then show "list_all is_ascii_alphabetic (fst (UNITS ! i))" "fst (UNITS ! i) \<noteq> []"
    "unit_position (fst (UNITS ! i)) UNITS = Some i" "0 < snd (UNITS ! i)" "snd (UNITS ! i) \<le> 86400000000000" by blast+
  then show "ends_number (fst (UNITS ! i) @ cs)" "peek (fst (UNITS ! i) @ cs) \<noteq> Some (CHR ''.'')"
    by (cases "fst (UNITS ! i)"; auto simp: ends_number_def peek_is_def is_ascii_alphabetic_def is_ascii_digit_def
        is_ascii_lowercase_def is_ascii_uppercase_def code_def)+
qed

lemma take_drop_unit:
  assumes "list_all p name" "\<not> peek_is p cs"
  shows "takeWhile p (name @ cs) = name" "dropWhile p (name @ cs) = cs"
proof -
  have "takeWhile p cs = []" "dropWhile p cs = cs" using assms(2) by (cases cs; simp add: peek_is_def)+
  with assms(1) show "takeWhile p (name @ cs) = name" "dropWhile p (name @ cs) = cs"
    by (simp_all add: list_all_iff takeWhile_append dropWhile_append)
qed

lemma duration_unit_show:
  assumes i: "i < 7" "next_unit \<le> i" and w: "w \<le> u64_MAX" "count = 0 \<or> (\<exists>l. unit_limit i = Some l \<and> w < l)"
    and acc: "0 \<le> acc" "acc + int w * snd (UNITS ! i) \<le> 2 ^ 63" and cs: "ends_unit cs"
  shows "duration_unit \<lparr>lx_rest = show_nat w @ fst (UNITS ! i) @ cs, lx_diags = ds\<rparr> acc next_unit count False =
    Unit_next \<lparr>lx_rest = cs, lx_diags = ds\<rparr> (acc + int w * snd (UNITS ! i)) (i + 1) False"
proof -
  note u = UNITS_names(1-3) [OF i(1)] UNITS_names(4,5) [OF i(1), of cs] UNITS_names(6,7) [OF i(1)]
  have "0 \<le> int w * snd (UNITS ! i)" using u(6) by simp
  moreover have "int w \<le> 18446744073709551615" using w(1) by (simp add: u64_MAX_def)
  ultimately have c: "checked_i128 (int w) = Some (int w)" "checked_i128 (int w * snd (UNITS ! i)) = Some (int w * snd (UNITS ! i))"
    "checked_i128 (acc + int w * snd (UNITS ! i)) = Some (acc + int w * snd (UNITS ! i))"
    using acc by (auto simp: checked_i128_def i128_MIN_def i128_MAX_def)
  have t: "takeWhile is_ascii_alphabetic (fst (UNITS ! i) @ cs) = fst (UNITS ! i)" "dropWhile is_ascii_alphabetic (fst (UNITS ! i) @ cs) = cs"
    using take_drop_unit [OF u(1), of cs] cs by (simp_all add: ends_unit_def)
  have "\<not> (count > 0 \<and> (case unit_limit i of Some limit \<Rightarrow> w \<ge> limit | None \<Rightarrow> w \<ge> u128_MAX))" using w(2) by auto
  with i(2) u(3,5) c t show ?thesis
    by (simp add: duration_unit_def read_digits_show [OF w(1) u(4)] Let_def)
qed

lemma show_nat_peek: "peek_is is_ascii_digit (show_nat n @ cs)" "peek (show_nat n @ cs) \<noteq> Some (CHR ''_'')"
  using show_nat_digits [of n] by (cases "show_nat n"; auto simp: peek_is_def dest: digit_is_alnum)+

lemma duration_loop_show:
  assumes "i < 7" "next_unit \<le> i" "w \<le> u64_MAX" "count = 0 \<or> (\<exists>l. unit_limit i = Some l \<and> w < l)"
    and "0 \<le> acc" "acc + int w * snd (UNITS ! i) \<le> 2 ^ 63" "ends_unit cs"
  shows "duration_loop \<lparr>lx_rest = show_nat w @ fst (UNITS ! i) @ cs, lx_diags = ds\<rparr> acc next_unit count False =
    duration_loop \<lparr>lx_rest = cs, lx_diags = ds\<rparr> (acc + int w * snd (UNITS ! i)) (i + 1) (count + 1) False"
  using show_nat_peek [of w "fst (UNITS ! i) @ cs"] duration_unit_show [OF assms, of ds]
  by (subst duration_loop.simps) simp

text \<open>What ends a whole literal.\<close>

definition ends_literal :: "string \<Rightarrow> bool" where
  "ends_literal cs \<longleftrightarrow> \<not> peek_is (\<lambda>c. is_ascii_alphanumeric c \<or> c = CHR ''_'') cs"

lemma ends_literalD: "ends_literal cs \<Longrightarrow> ends_unit cs" "ends_literal cs \<Longrightarrow> \<not> peek_is is_ascii_digit cs"
    "ends_literal cs \<Longrightarrow> peek cs \<noteq> Some (CHR ''_'')"
  by (cases cs; auto simp: ends_literal_def ends_unit_def peek_is_def is_ascii_alphanumeric_def)+

lemma literal_units_UNITS: "literal_units = map (\<lambda>(n, s). (s, n)) UNITS"
  by (simp add: literal_units_def UNITS_def ns_defs)

lemma literal_loop_ends_unit: "ends_unit cs \<Longrightarrow> ends_unit (literal_loop r us @ cs)"
proof (induction r us rule: literal_loop.induct)
  case (2 rest scale suffix us)
  show ?case
  proof (cases "rest div scale > 0")
    case True
    have "\<not> is_ascii_alphabetic c" if "is_ascii_digit c" for c
      using that by (auto simp: is_ascii_alphabetic_def is_ascii_digit_def is_ascii_lowercase_def is_ascii_uppercase_def)
    with show_nat_digits [of "nat (rest div scale)"] True show ?thesis
      by (cases "show_nat (nat (rest div scale))") (auto simp: ends_unit_def peek_is_def Let_def)
  qed (use 2 in \<open>simp add: Let_def\<close>)
qed simp

lemma unit_ratio: "1 \<le> i \<Longrightarrow> i < 7 \<Longrightarrow> \<exists>l. unit_limit i = Some l \<and> snd (UNITS ! (i - 1)) = int l * snd (UNITS ! i)"
proof -
  assume "1 \<le> i" "i < 7"
  then have "i = 1 \<or> i = 2 \<or> i = 3 \<or> i = 4 \<or> i = 5 \<or> i = 6" by presburger
  then show ?thesis by (elim disjE) (simp_all add: UNITS_def unit_limit_def)
qed

text \<open>The printed units, read back: the loop adds exactly what the printer took away.\<close>

lemma duration_loop_literal:
  assumes "k \<le> 7" "next_unit \<le> k" "0 \<le> r" "0 \<le> acc" "acc + r \<le> 2 ^ 63"
    and "if k = 0 then count = 0 else r < snd (UNITS ! (k - 1))" and cs: "ends_literal cs"
  shows "\<exists>n. duration_loop \<lparr>lx_rest = literal_loop r (drop k literal_units) @ cs, lx_diags = ds\<rparr> acc next_unit count False =
     (Some (acc + r, count + n, False), \<lparr>lx_rest = cs, lx_diags = ds\<rparr>) \<and> (0 < r \<longrightarrow> 0 < n)"
  using assms(1-6)
proof (induction "7 - k" arbitrary: k next_unit r acc count)
  case 0
  then have "k = 7" "r = 0" by (auto simp: UNITS_def)
  then show ?case
    using ends_literalD [OF cs] by (subst duration_loop.simps) (simp add: literal_units_UNITS UNITS_def)
next
  case (Suc j)
  then have k: "k < 7" and j: "j = 6 - k" by simp_all
  define scale where "scale = snd (UNITS ! k)"
  define w where "w = nat (r div scale)"
  have scale: "0 < scale" using UNITS_names(6) [OF k] by (simp add: scale_def)
  have len: "k < length UNITS" using k by (simp add: UNITS_def)
  then have "literal_units ! k = (scale, fst (UNITS ! k))" by (simp add: literal_units_UNITS scale_def split_def)
  then have us: "drop k literal_units = (scale, fst (UNITS ! k)) # drop (Suc k) literal_units"
    using Cons_nth_drop_Suc [of k literal_units] len by (simp add: literal_units_UNITS)
  have m: "r mod scale = r - r div scale * scale" "0 \<le> r mod scale" "r mod scale < scale"
    using scale minus_div_mult_eq_mod [of r scale] by simp_all
  show ?case
  proof (cases "r div scale > 0")
    case False
    then have "r < scale" using scale Suc.prems(3) by (metis not_less pos_imp_zdiv_pos_iff)
    with Suc.hyps(1) [of "Suc k" next_unit r acc count] Suc.hyps(2) Suc.prems k False show ?thesis
      by (simp add: us Let_def scale_def)
  next
    case True
    have le: "r div scale * scale \<le> r" using m by linarith
    have w: "int w = r div scale" using True by (simp add: w_def)
    have "r div scale \<le> r" using le True scale by (metis mult_le_cancel_left1 mult.commute int_one_le_iff_zero_less
          not_less order.trans order_less_imp_le)
    with Suc.prems(4,5) w have wmax: "w \<le> u64_MAX" by (simp add: u64_MAX_def)
    have lim: "count = 0 \<or> (\<exists>l. unit_limit k = Some l \<and> w < l)"
    proof (cases "k = 0")
      case False
      with unit_ratio [of k] k obtain l where l: "unit_limit k = Some l" "snd (UNITS ! (k - 1)) = int l * scale"
        by (auto simp: scale_def)
      with False Suc.prems(6) have "r < int l * scale" by simp
      then have "r div scale < int l" using m(1,2) scale by (smt (verit) mult_less_cancel_right)
      with l w show ?thesis by auto
    qed (use Suc.prems(6) in simp)
    let ?cs = "literal_loop (r mod scale) (drop (Suc k) literal_units) @ cs"
    have acc: "acc + int w * snd (UNITS ! k) \<le> 2 ^ 63" using le Suc.prems(5) by (simp add: w scale_def [symmetric])
    have "duration_loop \<lparr>lx_rest = show_nat w @ fst (UNITS ! k) @ ?cs, lx_diags = ds\<rparr> acc next_unit count False =
        duration_loop \<lparr>lx_rest = ?cs, lx_diags = ds\<rparr> (acc + int w * snd (UNITS ! k)) (k + 1) (count + 1) False"
      using duration_loop_show [OF k Suc.prems(2) wmax lim Suc.prems(4) acc] literal_loop_ends_unit [OF ends_literalD(1) [OF cs]] by blast
    moreover have "literal_loop r (drop k literal_units) @ cs = show_nat w @ fst (UNITS ! k) @ ?cs"
      using True by (simp add: us Let_def w_def m(1))
    moreover from Suc.hyps(1) [of "Suc k" "k + 1" "r mod scale" "acc + int w * snd (UNITS ! k)" "count + 1"] j k m acc w Suc.prems(4,5) le
    obtain n where "duration_loop \<lparr>lx_rest = ?cs, lx_diags = ds\<rparr> (acc + int w * snd (UNITS ! k)) (k + 1) (count + 1) False =
        (Some (acc + int w * snd (UNITS ! k) + r mod scale, count + 1 + n, False), \<lparr>lx_rest = cs, lx_diags = ds\<rparr>)"
      by (auto simp: scale_def [symmetric])
    ultimately show ?thesis using w m(1) by (intro exI [of _ "Suc n"]) (simp add: scale_def [symmetric])
  qed
qed

lemma duration_loop_canonical:
  assumes "0 < r" "r \<le> 2 ^ 63" "ends_literal cs"
  shows "\<exists>n. duration_loop \<lparr>lx_rest = literal_loop r literal_units @ cs, lx_diags = ds\<rparr> 0 0 0 False =
     (Some (r, Suc n, False), \<lparr>lx_rest = cs, lx_diags = ds\<rparr>)"
  using duration_loop_literal [of 0 0 r 0 0 cs ds] assms by (auto simp: gr0_conv_Suc)

lemma literal_loop_sign:
  assumes "0 < r"
  shows "peek (literal_loop r literal_units @ cs) \<noteq> Some (CHR ''-'')" "peek (literal_loop r literal_units @ cs) \<noteq> Some (CHR ''+'')"
proof -
  have "\<exists>c cs. literal_loop r us = c # cs \<and> is_ascii_digit c" if "0 < r" "(1, x) \<in> set us" "\<forall>(s, _) \<in> set us. 0 < s" for us x
    using that
  proof (induction r us rule: literal_loop.induct)
    case (2 rest scale suffix us)
    show ?case
    proof (cases "rest div scale > 0")
      case True
      with show_nat_digits [of "nat (rest div scale)"] show ?thesis
        by (cases "show_nat (nat (rest div scale))") (auto simp: Let_def)
    next
      case False
      with 2 show ?thesis by (auto simp: Let_def)
    qed
  qed simp
  from this [of "''ns''" literal_units] assms obtain c t where "literal_loop r literal_units = c # t" "is_ascii_digit c"
    by (auto simp: literal_units_def ns_defs)
  then show "peek (literal_loop r literal_units @ cs) \<noteq> Some (CHR ''-'')" "peek (literal_loop r literal_units @ cs) \<noteq> Some (CHR ''+'')"
    by (auto simp: is_ascii_digit_def code_def)
qed

lemma duration_loop_zero:
  assumes "ends_literal cs"
  shows "duration_loop \<lparr>lx_rest = ''0s'' @ cs, lx_diags = ds\<rparr> 0 0 0 False = (Some (0, 1, False), \<lparr>lx_rest = cs, lx_diags = ds\<rparr>)"
proof -
  have u: "fst (UNITS ! 3) = ''s''" by (simp add: UNITS_def)
  have z: "show_nat 0 = ''0''" by (simp add: show_nat.simps digit_char_def char_of_def bit_simps)
  from duration_loop_show [of 3 0 0 0 0 cs ds] assms have "duration_loop \<lparr>lx_rest = ''0s'' @ cs, lx_diags = ds\<rparr> 0 0 0 False =
      duration_loop \<lparr>lx_rest = cs, lx_diags = ds\<rparr> 0 4 1 False"
    by (simp add: u z ends_literalD)
  also have "\<dots> = (Some (0, 1, False), \<lparr>lx_rest = cs, lx_diags = ds\<rparr>)"
    using ends_literalD [OF assms] by (subst duration_loop.simps) simp
  finally show ?thesis .
qed

text \<open>
  Claim C30.  A duration printed as its canonical literal is read back by the lexer as the same
  duration with nothing left of the literal, in every dialect, for every duration there is, the most
  negative one included, and whatever text that cannot continue a literal follows.  A dialect that
  takes signed durations reports nothing; one that does not reports exactly one error, that the
  dialect rejects the sign, for a negative duration, and nothing for any other.
\<close>
theorem duration_literal_round_trip:
  assumes "in_i64 d" "ends_literal cs"
  shows "Duration_to_iec_literal d = ''T#'' @ drop 2 (Duration_to_iec_literal d) \<and>
    duration_literal sign_ok \<lparr>lx_rest = drop 2 (Duration_to_iec_literal d) @ cs, lx_diags = ds\<rparr> =
      (Some d, \<lparr>lx_rest = cs, lx_diags = (if d < 0 \<and> \<not> sign_ok then ds @ [E_DIALECT_REJECTS] else ds)\<rparr>)"
proof (cases d "0 :: int" rule: linorder_cases)
  case equal
  then show ?thesis
    using duration_loop_zero [OF assms(2), of ds] by (simp add: Duration_to_iec_literal_def duration_literal_def checked_i64_def i64_bounds)
next
  case greater
  then have r: "0 < d" "d \<le> 2 ^ 63" using assms(1) by (auto simp: i64_bounds)
  let ?s = "literal_loop d literal_units @ cs"
  obtain n where n: "duration_loop \<lparr>lx_rest = ?s, lx_diags = ds\<rparr> 0 0 0 False = (Some (d, Suc n, False), \<lparr>lx_rest = cs, lx_diags = ds\<rparr>)"
    using duration_loop_canonical [OF r assms(2)] by blast
  have "duration_literal sign_ok \<lparr>lx_rest = ?s, lx_diags = ds\<rparr> = (Some d, \<lparr>lx_rest = cs, lx_diags = ds\<rparr>)"
    using literal_loop_sign [OF r(1), of cs] n assms(1)
    by (cases ?s) (simp_all add: duration_literal_def checked_i64_def in_i64_def)
  with greater show ?thesis by (simp add: Duration_to_iec_literal_def)
next
  case less
  then have r: "0 < - d" "- d \<le> 2 ^ 63" using assms(1) by (auto simp: i64_bounds)
  let ?ds = "if sign_ok then ds else ds @ [E_DIALECT_REJECTS]"
  obtain n where "duration_loop \<lparr>lx_rest = literal_loop (- d) literal_units @ cs, lx_diags = ?ds\<rparr> 0 0 0 False =
      (Some (- d, Suc n, False), \<lparr>lx_rest = cs, lx_diags = ?ds\<rparr>)"
    using duration_loop_canonical [OF r assms(2)] by blast
  with less assms(1) show ?thesis
    by (cases sign_ok) (simp_all add: Duration_to_iec_literal_def duration_literal_def checked_i64_def in_i64_def Lx_error_def)
qed

theorem duration_literal_round_trip_witness:
  "duration_literal True \<lparr>lx_rest = drop 2 (Duration_to_iec_literal (- 93784005006007)) @ '' ;'', lx_diags = []\<rparr> =
     (Some (- 93784005006007), \<lparr>lx_rest = '' ;'', lx_diags = []\<rparr>) \<and>
   duration_literal False \<lparr>lx_rest = drop 2 (Duration_to_iec_literal (- 93784005006007)) @ '' ;'', lx_diags = []\<rparr> =
     (Some (- 93784005006007), \<lparr>lx_rest = '' ;'', lx_diags = [E_DIALECT_REJECTS]\<rparr>)"
proof -
  have "in_i64 (- 93784005006007)" "ends_literal '' ;''"
    by (simp_all add: i64_bounds ends_literal_def peek_is_def is_ascii_alphanumeric_def is_ascii_digit_def is_ascii_alphabetic_def
      is_ascii_lowercase_def is_ascii_uppercase_def code_def)
  from duration_literal_round_trip [OF this, of True "[]"] duration_literal_round_trip [OF this, of False "[]"]
  show ?thesis by simp
qed

section \<open>Fractions\<close>

lemma digits_value_bound: "list_all is_ascii_digit ds \<Longrightarrow> digits_value v ds < (v + 1) * 10 ^ length ds"
proof (induction ds arbitrary: v)
  case (Cons d ds)
  have "code d - 48 < 10" using Cons.prems digit_is_alnum [of d] by simp
  then have "(v * 10 + (code d - 48) + 1) * 10 ^ length ds \<le> (v + 1) * 10 * 10 ^ length ds" by (intro mult_right_mono) simp_all
  moreover have "digits_value v (d # ds) = digits_value (v * 10 + (code d - 48)) ds" by (simp add: digits_value_def)
  ultimately show ?case using Cons.IH [of "v * 10 + (code d - 48)"] Cons.prems
    by (simp add: algebra_simps)
qed (simp add: digits_value_def)

lemma saturate_i128_id: "i128_MIN \<le> x \<Longrightarrow> x \<le> i128_MAX \<Longrightarrow> saturate_i128 x = x"
  by (simp add: saturate_i128_def)

lemma fraction_loop_exact:
  assumes "list_all is_ascii_digit ds" "int (v + 1) * 10 ^ length ds \<le> 10 ^ 37" "d * 10 ^ length ds \<le> 10 ^ 37" "0 < d"
  shows "fraction_loop (int v) d ds = (int (digits_value v ds), d * 10 ^ length ds)"
  using assms
proof (induction ds arbitrary: v d)
  case (Cons c ds)
  let ?v = "v * 10 + (code c - 48)"
  have c: "code c - 48 < 10" using Cons.prems(1) digit_is_alnum [of c] by simp
  have one: "(1 :: int) \<le> 10 ^ length ds" by simp
  have step: "int (?v + 1) * 10 ^ length ds \<le> 10 ^ 37"
  proof -
    have "int (?v + 1) * 10 ^ length ds \<le> int ((v + 1) * 10) * 10 ^ length ds" using c by (intro mult_right_mono) simp_all
    also have "\<dots> = int (v + 1) * 10 ^ length (c # ds)" by simp
    finally show ?thesis using Cons.prems(2) by linarith
  qed
  have "int (?v + 1) * 1 \<le> 10 ^ 37" by (rule order.trans [OF mult_left_mono [OF one of_nat_0_le_iff] step])
  then have n: "saturate_i128 (saturate_i128 (int v * 10) + int (code c - 48)) = int ?v"
    by (simp add: saturate_i128_id i128_MIN_def i128_MAX_def)
  have dd: "d * 10 * 10 ^ length ds \<le> 10 ^ 37" and "0 \<le> d * 10" using Cons.prems(3,4) by simp_all
  then have "d * 10 * 1 \<le> 10 ^ 37" by (intro order.trans [OF mult_left_mono [OF one] dd])
  then have m: "saturate_i128 (d * 10) = d * 10" using Cons.prems(4) by (simp add: saturate_i128_id i128_MIN_def i128_MAX_def)
  show ?case
    using Cons.IH [of ?v "d * 10"] Cons.prems step n m by (simp add: digits_value_def mult.assoc)
qed (simp add: digits_value_def)

lemma fraction_of_a_day:
  assumes ds: "list_all is_ascii_digit ds" "ds \<noteq> []" and f: "fraction_loop 0 1 ds = (10 ^ 25 - 1, 10 ^ 25)"
  shows "duration_literal True \<lparr>lx_rest = ''0.'' @ ds @ ''d'', lx_diags = []\<rparr> =
    (Some 17014118346046, \<lparr>lx_rest = [], lx_diags = [W_DURATION_TRUNCATED]\<rparr>)"
proof -
  have z: "show_nat 0 = ''0''" by (simp add: show_nat.simps digit_char_def char_of_def bit_simps)
  have "\<not> peek_is is_ascii_digit ''d''" by (simp add: is_ascii_digit_def code_def peek_is_def)
  note t = take_drop_unit [OF ds(1) this]
  have p: "peek_is is_ascii_digit (ds @ ''d'')" using ds by (cases ds) (simp_all add: peek_is_def)
  have r: "read_digits 10 True \<lparr>lx_rest = ''0.'' @ ds @ ''d'', lx_diags = []\<rparr> = (Some 0, \<lparr>lx_rest = ''.'' @ ds @ ''d'', lx_diags = []\<rparr>)"
    using read_digits_show [of 0 "''.'' @ ds @ ''d''" True "[]"] z by (simp add: ends_number_def peek_is_def is_ascii_digit_def code_def)
  have u: "is_ascii_alphabetic (CHR ''d'')" "unit_position ''d'' UNITS = Some 0"
      "snd (UNITS ! 0) = 86400000000000"
    by (simp_all add: is_ascii_alphabetic_def is_ascii_lowercase_def is_ascii_uppercase_def code_def UNITS_def to_ascii_lowercase_def)
  have s: "saturate_i128 (86400000000000 * (10 ^ 25 - 1)) = i128_MAX" "tdiv i128_MAX (10 ^ 25) = 17014118346046"
      "trem i128_MAX (10 ^ 25) \<noteq> 0" "saturate_i128 17014118346046 = 17014118346046" "checked_i128 0 = Some 0"
    by (simp_all add: saturate_i128_def checked_i128_def i128_MIN_def i128_MAX_def trem_def)
  have "duration_unit \<lparr>lx_rest = ''0.'' @ ds @ ''d'', lx_diags = []\<rparr> 0 0 0 False = Unit_next \<lparr>lx_rest = [], lx_diags = []\<rparr> 17014118346046 1 True"
    unfolding duration_unit_def r using p ds(2) s by (simp add: t f u peek_is_def)
  moreover have "duration_loop \<lparr>lx_rest = [], lx_diags = []\<rparr> a n c b = (Some (a, c, b), \<lparr>lx_rest = [], lx_diags = []\<rparr>)" for a n c b
    by (subst duration_loop.simps) (simp add: peek_is_def)
  ultimately have "duration_loop \<lparr>lx_rest = ''0.'' @ ds @ ''d'', lx_diags = []\<rparr> 0 0 0 False = (Some (17014118346046, 1, True), \<lparr>lx_rest = [], lx_diags = []\<rparr>)"
    by (subst duration_loop.simps) (simp add: peek_is_def is_ascii_digit_def code_def)
  then show ?thesis by (simp add: duration_literal_def Lx_error_def checked_i64_def i64_bounds)
qed

lemma many_nines: "duration_literal True \<lparr>lx_rest = ''0.9999999999999999999999999d'', lx_diags = []\<rparr> =
    (Some 17014118346046, \<lparr>lx_rest = [], lx_diags = [W_DURATION_TRUNCATED]\<rparr>)"
proof -
  let ?ds = "''9999999999999999999999999''"
  have nines: "list_all is_ascii_digit ?ds" "length ?ds = 25" by (simp_all add: is_ascii_digit_def code_def)
  moreover have "fraction_loop 0 1 ?ds = (10 ^ 25 - 1, 10 ^ 25)"
    using fraction_loop_exact [of ?ds 0 1] nines by (simp add: digits_value_def code_def)
  ultimately show ?thesis using fraction_of_a_day [of ?ds] by simp
qed

text \<open>
  The fraction of a duration literal contributes exactly the whole nanoseconds of the unit's
  fraction when it has at most 24 digits, whatever the unit.  With 25 digits the saturating
  multiplication of the code loses the value: 25 nines of a day contribute 17014118346046 nanoseconds,
  not 86399999999999.
\<close>
theorem duration_fraction_exact:
  "(list_all is_ascii_digit ds \<and> length ds \<le> 24 \<and> i < 7 \<longrightarrow>
     (case fraction_loop 0 1 ds of (numerator, denominator) \<Rightarrow>
        tdiv (saturate_i128 (snd (UNITS ! i) * numerator)) denominator =
        snd (UNITS ! i) * int (digits_value 0 ds) div 10 ^ length ds)) \<and>
   duration_literal True \<lparr>lx_rest = ''0.9999999999999999999999999d'', lx_diags = []\<rparr> =
     (Some 17014118346046, \<lparr>lx_rest = [], lx_diags = [W_DURATION_TRUNCATED]\<rparr>) \<and>
   86400000000000 * (10 ^ 25 - 1) div 10 ^ 25 = (86399999999999 :: int)"
proof (intro conjI impI)
  assume ds: "list_all is_ascii_digit ds \<and> length ds \<le> 24 \<and> i < 7"
  have p: "(10 :: int) ^ length ds \<le> 10 ^ 24" using ds by (intro power_increasing) auto
  have v: "int (digits_value 0 ds) < 10 ^ length ds" using ds digits_value_bound [of ds 0] by (metis add_0 mult_1 of_nat_less_iff of_nat_numeral of_nat_power)
  have u: "0 < snd (UNITS ! i)" "snd (UNITS ! i) \<le> 86400000000000" using ds UNITS_names(6,7) by auto
  have f: "fraction_loop 0 1 ds = (int (digits_value 0 ds), 10 ^ length ds)"
    using fraction_loop_exact [of ds 0 1] ds p by (simp add: order.trans)
  have "int (digits_value 0 ds) \<le> 10 ^ 24" using v p by linarith
  then have "snd (UNITS ! i) * int (digits_value 0 ds) \<le> 86400000000000 * 10 ^ 24"
    using u by (intro mult_mono) simp_all
  moreover have "0 \<le> snd (UNITS ! i) * int (digits_value 0 ds)" using u by simp
  ultimately show "case fraction_loop 0 1 ds of (numerator, denominator) \<Rightarrow>
        tdiv (saturate_i128 (snd (UNITS ! i) * numerator)) denominator =
        snd (UNITS ! i) * int (digits_value 0 ds) div 10 ^ length ds"
    by (simp add: f saturate_i128_id i128_MIN_def i128_MAX_def)
next
  show "duration_literal True \<lparr>lx_rest = ''0.9999999999999999999999999d'', lx_diags = []\<rparr> =
     (Some 17014118346046, \<lparr>lx_rest = [], lx_diags = [W_DURATION_TRUNCATED]\<rparr>)"
    by (rule many_nines)
qed simp

theorem duration_fraction_exact_witness:
  "case fraction_loop 0 1 ''125'' of (numerator, denominator) \<Rightarrow>
     tdiv (saturate_i128 (snd (UNITS ! 3) * numerator)) denominator = snd (UNITS ! 3) * int (digits_value 0 ''125'') div 10 ^ 3"
  using duration_fraction_exact [of "''125''" 3] by (simp add: is_ascii_digit_def code_def)

end
