(* ===== verification/Ieee_Float.thy ===== *)
theory Ieee_Float
  imports Salman_Prelude
begin

text \<open>
  The binary floating point of \<open>f32\<close> and \<open>f64\<close>, as far as the runtime uses it: classification, the four
  operations and the remainder, comparison, and the conversions of the \<open>as\<close> operator, all on bit
  patterns.  A finite number is an integer count of the format's smallest subnormal, so every operation
  is exact integer arithmetic followed by one rounding to nearest, ties to even.  Every NaN an operation
  makes is the quiet one with a zero payload; the code makes it so itself before it stores one.
\<close>

record float_format =
  frac_bits :: nat
  exp_bits :: nat

definition F32 :: float_format where "F32 = \<lparr>frac_bits = 23, exp_bits = 8\<rparr>"
definition F64 :: float_format where "F64 = \<lparr>frac_bits = 52, exp_bits = 11\<rparr>"

lemma F32_simps [simp]: "frac_bits F32 = 23" "exp_bits F32 = 8" by (simp_all add: F32_def)
lemma F64_simps [simp]: "frac_bits F64 = 52" "exp_bits F64 = 11" by (simp_all add: F64_def)

section \<open>Patterns\<close>

definition sign_bit :: "float_format \<Rightarrow> nat" where
  "sign_bit f = 2 ^ (frac_bits f + exp_bits f)"

text \<open>The pattern without its sign, and that of infinity and of the quiet NaN.\<close>

definition fl_mag :: "float_format \<Rightarrow> nat \<Rightarrow> nat" where
  "fl_mag f x = x mod sign_bit f"

definition fl_neg :: "float_format \<Rightarrow> nat \<Rightarrow> bool" where
  "fl_neg f x \<longleftrightarrow> sign_bit f \<le> x"

definition inf_mag :: "float_format \<Rightarrow> nat" where
  "inf_mag f = (2 ^ exp_bits f - 1) * 2 ^ frac_bits f"

definition fl_nan :: "float_format \<Rightarrow> nat" where
  "fl_nan f = inf_mag f + 2 ^ (frac_bits f - 1)"

definition fl_is_nan :: "float_format \<Rightarrow> nat \<Rightarrow> bool" where
  "fl_is_nan f x \<longleftrightarrow> inf_mag f < fl_mag f x"

definition fl_is_inf :: "float_format \<Rightarrow> nat \<Rightarrow> bool" where
  "fl_is_inf f x \<longleftrightarrow> fl_mag f x = inf_mag f"

definition fl_make :: "float_format \<Rightarrow> bool \<Rightarrow> nat \<Rightarrow> nat" where
  "fl_make f neg mag = (if neg then sign_bit f + mag else mag)"

definition fl_negate :: "float_format \<Rightarrow> nat \<Rightarrow> nat" where
  "fl_negate f x = fl_make f (\<not> fl_neg f x) (fl_mag f x)"

text \<open>The value of a finite magnitude, in units of the smallest subnormal.\<close>

definition mag_units :: "float_format \<Rightarrow> nat \<Rightarrow> nat" where
  "mag_units f m =
     (let e = m div 2 ^ frac_bits f; fr = m mod 2 ^ frac_bits f
      in if e = 0 then fr else (fr + 2 ^ frac_bits f) * 2 ^ (e - 1))"

definition fl_units :: "float_format \<Rightarrow> nat \<Rightarrow> nat" where
  "fl_units f x = mag_units f (fl_mag f x)"

definition fl_val :: "float_format \<Rightarrow> nat \<Rightarrow> int" where
  "fl_val f x = (if fl_neg f x then - int (fl_units f x) else int (fl_units f x))"

text \<open>One over the smallest subnormal is \<open>2 ^ unit_scale\<close>.\<close>

definition unit_scale :: "float_format \<Rightarrow> nat" where
  "unit_scale f = 2 ^ (exp_bits f - 1) - 2 + frac_bits f"

section \<open>Rounding\<close>

fun ilog2 :: "nat \<Rightarrow> nat" where
  "ilog2 n = (if n < 2 then 0 else Suc (ilog2 (n div 2)))"

declare ilog2.simps [simp del]

definition round_half_even :: "nat \<Rightarrow> nat \<Rightarrow> nat" where
  "round_half_even n d =
     (let q = n div d; r = n mod d in if 2 * r > d \<or> (2 * r = d \<and> odd q) then q + 1 else q)"

text \<open>The magnitude nearest to \<open>n / d\<close> units; too large becomes infinity.\<close>

definition fl_round :: "float_format \<Rightarrow> nat \<Rightarrow> nat \<Rightarrow> nat" where
  "fl_round f n d =
     (let k = ilog2 (n div d) - frac_bits f;
          m = k * 2 ^ frac_bits f + round_half_even n (d * 2 ^ k)
      in if inf_mag f \<le> m then inf_mag f else m)"

section \<open>Operations\<close>

definition fl_add :: "float_format \<Rightarrow> nat \<Rightarrow> nat \<Rightarrow> nat" where
  "fl_add f a b =
     (if fl_is_nan f a \<or> fl_is_nan f b then fl_nan f
      else if fl_is_inf f a then (if fl_is_inf f b \<and> fl_neg f a \<noteq> fl_neg f b then fl_nan f else a)
      else if fl_is_inf f b then b
      else let v = fl_val f a + fl_val f b
           in fl_make f (if v = 0 then fl_neg f a \<and> fl_neg f b else v < 0) (fl_round f (nat \<bar>v\<bar>) 1))"

definition fl_sub :: "float_format \<Rightarrow> nat \<Rightarrow> nat \<Rightarrow> nat" where
  "fl_sub f a b = (if fl_is_nan f b then fl_nan f else fl_add f a (fl_negate f b))"

definition fl_mul :: "float_format \<Rightarrow> nat \<Rightarrow> nat \<Rightarrow> nat" where
  "fl_mul f a b =
     (let neg = (fl_neg f a \<noteq> fl_neg f b) in
      if fl_is_nan f a \<or> fl_is_nan f b then fl_nan f
      else if fl_is_inf f a \<or> fl_is_inf f b
      then (if fl_mag f a = 0 \<or> fl_mag f b = 0 then fl_nan f else fl_make f neg (inf_mag f))
      else fl_make f neg (fl_round f (fl_units f a * fl_units f b) (2 ^ unit_scale f)))"

definition fl_div :: "float_format \<Rightarrow> nat \<Rightarrow> nat \<Rightarrow> nat" where
  "fl_div f a b =
     (let neg = (fl_neg f a \<noteq> fl_neg f b) in
      if fl_is_nan f a \<or> fl_is_nan f b then fl_nan f
      else if fl_is_inf f a then (if fl_is_inf f b then fl_nan f else fl_make f neg (inf_mag f))
      else if fl_is_inf f b then fl_make f neg 0
      else if fl_mag f b = 0 then (if fl_mag f a = 0 then fl_nan f else fl_make f neg (inf_mag f))
      else fl_make f neg (fl_round f (fl_units f a * 2 ^ unit_scale f) (fl_units f b)))"

text \<open>\<open>%\<close>: the exact remainder with the sign of the dividend.\<close>

definition fl_rem :: "float_format \<Rightarrow> nat \<Rightarrow> nat \<Rightarrow> nat" where
  "fl_rem f a b =
     (if fl_is_nan f a \<or> fl_is_nan f b \<or> fl_is_inf f a \<or> fl_mag f b = 0 then fl_nan f
      else if fl_is_inf f b then a
      else fl_make f (fl_neg f a) (fl_round f (fl_units f a mod fl_units f b) 1))"

text \<open>\<open>partial_cmp\<close>: the sign of the result; \<open>None\<close> when a NaN takes part.\<close>

definition fl_cmp :: "float_format \<Rightarrow> nat \<Rightarrow> nat \<Rightarrow> int option" where
  "fl_cmp f a b =
     (if fl_is_nan f a \<or> fl_is_nan f b then None
      else let key = (\<lambda>x. if fl_neg f x then - int (fl_mag f x) else int (fl_mag f x))
           in Some (sgn (key a - key b)))"

section \<open>Conversions\<close>

definition fl_of_int :: "float_format \<Rightarrow> int \<Rightarrow> nat" where
  "fl_of_int f i = fl_make f (i < 0) (fl_round f (nat \<bar>i\<bar> * 2 ^ unit_scale f) 1)"

text \<open>\<open>as\<close> to an integer type with the given bounds: toward zero, saturating, NaN to zero.\<close>

definition fl_to_int :: "float_format \<Rightarrow> int \<Rightarrow> int \<Rightarrow> nat \<Rightarrow> int" where
  "fl_to_int f lo hi x =
     (if fl_is_nan f x then 0
      else if fl_is_inf f x then (if fl_neg f x then lo else hi)
      else let t = int (fl_units f x div 2 ^ unit_scale f)
           in max lo (min hi (if fl_neg f x then - t else t)))"

definition f32_to_f64 :: "nat \<Rightarrow> nat" where
  "f32_to_f64 x =
     (if fl_is_nan F32 x then fl_nan F64
      else fl_make F64 (fl_neg F32 x)
        (if fl_is_inf F32 x then inf_mag F64
         else fl_round F64 (fl_units F32 x * 2 ^ (unit_scale F64 - unit_scale F32)) 1))"

definition f64_to_f32 :: "nat \<Rightarrow> nat" where
  "f64_to_f32 x =
     (if fl_is_nan F64 x then fl_nan F32
      else fl_make F32 (fl_neg F64 x)
        (if fl_is_inf F64 x then inf_mag F32
         else fl_round F32 (fl_units F64 x) (2 ^ (unit_scale F64 - unit_scale F32))))"

end
