(* ===== verification/Plc_Value.thy ===== *)
theory Plc_Value
  imports Ieee_Float Iec_Time
begin

text \<open>
  Elementary types and runtime values, from \<open>crates/salman-core/src/value.rs\<close>.  A signed or unsigned
  integer and a bit string is a word of its width, read signed where the type is; a float is its bit
  pattern; times and dates are the counts of \<open>Iec_Time\<close>.  Shown here: which values are well formed, that
  every constructor of the code keeps them so, and that the canonical bytes determine the value.
\<close>

section \<open>Elementary types\<close>

datatype ElementaryType =
    E_Bool | E_Sint | E_Int | E_Dint | E_Lint | E_Usint | E_Uint | E_Udint
  | E_Ulint | E_Byte | E_Word | E_Dword | E_Lword | E_Real | E_Lreal | E_Time
  | E_LTime | E_Date | E_TimeOfDay | E_DateAndTime | E_String | E_WString

fun ElementaryType_name :: "ElementaryType \<Rightarrow> string" where
  "ElementaryType_name E_Bool = ''BOOL''"
| "ElementaryType_name E_Sint = ''SINT''"
| "ElementaryType_name E_Int = ''INT''"
| "ElementaryType_name E_Dint = ''DINT''"
| "ElementaryType_name E_Lint = ''LINT''"
| "ElementaryType_name E_Usint = ''USINT''"
| "ElementaryType_name E_Uint = ''UINT''"
| "ElementaryType_name E_Udint = ''UDINT''"
| "ElementaryType_name E_Ulint = ''ULINT''"
| "ElementaryType_name E_Byte = ''BYTE''"
| "ElementaryType_name E_Word = ''WORD''"
| "ElementaryType_name E_Dword = ''DWORD''"
| "ElementaryType_name E_Lword = ''LWORD''"
| "ElementaryType_name E_Real = ''REAL''"
| "ElementaryType_name E_Lreal = ''LREAL''"
| "ElementaryType_name E_Time = ''TIME''"
| "ElementaryType_name E_LTime = ''LTIME''"
| "ElementaryType_name E_Date = ''DATE''"
| "ElementaryType_name E_TimeOfDay = ''TIME_OF_DAY''"
| "ElementaryType_name E_DateAndTime = ''DATE_AND_TIME''"
| "ElementaryType_name E_String = ''STRING''"
| "ElementaryType_name E_WString = ''WSTRING''"

definition ElementaryType_all :: "ElementaryType list" where
  "ElementaryType_all =
     [E_Bool, E_Sint, E_Int, E_Dint, E_Lint, E_Usint, E_Uint, E_Udint,
      E_Ulint, E_Byte, E_Word, E_Dword, E_Lword, E_Real, E_Lreal, E_Time,
      E_LTime, E_Date, E_TimeOfDay, E_DateAndTime, E_String, E_WString]"

fun bit_width :: "ElementaryType \<Rightarrow> nat option" where
  "bit_width E_Bool = Some 1"
| "bit_width E_Sint = Some 8"
| "bit_width E_Int = Some 16"
| "bit_width E_Dint = Some 32"
| "bit_width E_Lint = Some 64"
| "bit_width E_Usint = Some 8"
| "bit_width E_Uint = Some 16"
| "bit_width E_Udint = Some 32"
| "bit_width E_Ulint = Some 64"
| "bit_width E_Byte = Some 8"
| "bit_width E_Word = Some 16"
| "bit_width E_Dword = Some 32"
| "bit_width E_Lword = Some 64"
| "bit_width E_Real = Some 32"
| "bit_width E_Lreal = Some 64"
| "bit_width E_Time = Some 64"
| "bit_width E_LTime = Some 64"
| "bit_width E_Date = Some 32"
| "bit_width E_TimeOfDay = Some 64"
| "bit_width E_DateAndTime = Some 64"
| "bit_width E_String = None"
| "bit_width E_WString = None"

datatype GenericType = Any | AnyElementary | AnyMagnitude | AnyNum | AnyReal | AnyInt | AnySigned | AnyUnsigned
  | AnyDuration | AnyBit | AnyChars | AnyString | AnyDate

text \<open>The \<open>contains\<close> of a node asks the nodes below it; each is therefore a definition of its own.\<close>

definition any_real :: "ElementaryType \<Rightarrow> bool" where
  "any_real ty \<longleftrightarrow> ty \<in> {E_Real, E_Lreal}"

definition any_signed :: "ElementaryType \<Rightarrow> bool" where
  "any_signed ty \<longleftrightarrow> ty \<in> {E_Sint, E_Int, E_Dint, E_Lint}"

definition any_unsigned :: "ElementaryType \<Rightarrow> bool" where
  "any_unsigned ty \<longleftrightarrow> ty \<in> {E_Usint, E_Uint, E_Udint, E_Ulint}"

definition any_int :: "ElementaryType \<Rightarrow> bool" where
  "any_int ty \<longleftrightarrow> any_signed ty \<or> any_unsigned ty"

definition any_num :: "ElementaryType \<Rightarrow> bool" where
  "any_num ty \<longleftrightarrow> any_int ty \<or> any_real ty"

definition any_duration :: "ElementaryType \<Rightarrow> bool" where
  "any_duration ty \<longleftrightarrow> ty \<in> {E_Time, E_LTime}"

definition any_bit :: "ElementaryType \<Rightarrow> bool" where
  "any_bit ty \<longleftrightarrow> ty \<in> {E_Bool, E_Byte, E_Word, E_Dword, E_Lword}"

definition any_string :: "ElementaryType \<Rightarrow> bool" where
  "any_string ty \<longleftrightarrow> ty \<in> {E_String, E_WString}"

definition any_date :: "ElementaryType \<Rightarrow> bool" where
  "any_date ty \<longleftrightarrow> ty \<in> {E_Date, E_TimeOfDay, E_DateAndTime}"

fun GenericType_contains :: "GenericType \<Rightarrow> ElementaryType \<Rightarrow> bool" where
  "GenericType_contains Any ty = True"
| "GenericType_contains AnyElementary ty = True"
| "GenericType_contains AnyMagnitude ty = (any_num ty \<or> any_duration ty)"
| "GenericType_contains AnyNum ty = any_num ty"
| "GenericType_contains AnyReal ty = any_real ty"
| "GenericType_contains AnyInt ty = any_int ty"
| "GenericType_contains AnySigned ty = any_signed ty"
| "GenericType_contains AnyUnsigned ty = any_unsigned ty"
| "GenericType_contains AnyDuration ty = any_duration ty"
| "GenericType_contains AnyBit ty = any_bit ty"
| "GenericType_contains AnyChars ty = any_string ty"
| "GenericType_contains AnyString ty = any_string ty"
| "GenericType_contains AnyDate ty = any_date ty"

section \<open>Values\<close>

datatype Value =
    V_Bool bool
  | V_Sint u8
  | V_Int u16
  | V_Dint u32
  | V_Lint u64
  | V_Usint u8
  | V_Uint u16
  | V_Udint u32
  | V_Ulint u64
  | V_Byte u8
  | V_Word u16
  | V_Dword u32
  | V_Lword u64
  | V_Real u32
  | V_Lreal u64
  | V_Time Duration
  | V_LTime Duration
  | V_Date int
  | V_TimeOfDay int
  | V_DateAndTime int
  | V_String "u8 list"
  | V_WString "u16 list"

fun type_of :: "Value \<Rightarrow> ElementaryType" where
  "type_of (V_Bool _) = E_Bool"
| "type_of (V_Sint _) = E_Sint"
| "type_of (V_Int _) = E_Int"
| "type_of (V_Dint _) = E_Dint"
| "type_of (V_Lint _) = E_Lint"
| "type_of (V_Usint _) = E_Usint"
| "type_of (V_Uint _) = E_Uint"
| "type_of (V_Udint _) = E_Udint"
| "type_of (V_Ulint _) = E_Ulint"
| "type_of (V_Byte _) = E_Byte"
| "type_of (V_Word _) = E_Word"
| "type_of (V_Dword _) = E_Dword"
| "type_of (V_Lword _) = E_Lword"
| "type_of (V_Real _) = E_Real"
| "type_of (V_Lreal _) = E_Lreal"
| "type_of (V_Time _) = E_Time"
| "type_of (V_LTime _) = E_LTime"
| "type_of (V_Date _) = E_Date"
| "type_of (V_TimeOfDay _) = E_TimeOfDay"
| "type_of (V_DateAndTime _) = E_DateAndTime"
| "type_of (V_String _) = E_String"
| "type_of (V_WString _) = E_WString"

fun default_value :: "ElementaryType \<Rightarrow> Value" where
  "default_value E_Bool = V_Bool False"
| "default_value E_Sint = V_Sint 0"
| "default_value E_Int = V_Int 0"
| "default_value E_Dint = V_Dint 0"
| "default_value E_Lint = V_Lint 0"
| "default_value E_Usint = V_Usint 0"
| "default_value E_Uint = V_Uint 0"
| "default_value E_Udint = V_Udint 0"
| "default_value E_Ulint = V_Ulint 0"
| "default_value E_Byte = V_Byte 0"
| "default_value E_Word = V_Word 0"
| "default_value E_Dword = V_Dword 0"
| "default_value E_Lword = V_Lword 0"
| "default_value E_Real = V_Real 0"
| "default_value E_Lreal = V_Lreal 0"
| "default_value E_Time = V_Time 0"
| "default_value E_LTime = V_LTime 0"
| "default_value E_Date = V_Date 0"
| "default_value E_TimeOfDay = V_TimeOfDay 0"
| "default_value E_DateAndTime = V_DateAndTime 0"
| "default_value E_String = V_String []"
| "default_value E_WString = V_WString []"

definition MAX_STRING_LEN :: nat where "MAX_STRING_LEN = 65535"

definition canonical_f32 :: "u32 \<Rightarrow> u32" where
  "canonical_f32 x = (if fl_is_nan F32 (unat x) then 0x7fc00000 else x)"

definition canonical_f64 :: "u64 \<Rightarrow> u64" where
  "canonical_f64 x = (if fl_is_nan F64 (unat x) then 0x7ff8000000000000 else x)"

definition Value_real :: "u32 \<Rightarrow> Value" where
  "Value_real x = V_Real (canonical_f32 x)"

definition Value_lreal :: "u64 \<Rightarrow> Value" where
  "Value_lreal x = V_Lreal (canonical_f64 x)"

definition Value_string :: "u8 list \<Rightarrow> Value" where
  "Value_string bytes = V_String (take MAX_STRING_LEN bytes)"

definition Value_wstring :: "u16 list \<Rightarrow> Value" where
  "Value_wstring units = V_WString (take MAX_STRING_LEN units)"

fun as_bool :: "Value \<Rightarrow> bool option" where
  "as_bool (V_Bool b) = Some b"
| "as_bool _ = None"

fun as_i64 :: "Value \<Rightarrow> int option" where
  "as_i64 (V_Sint v) = Some (sint v)"
| "as_i64 (V_Int v) = Some (sint v)"
| "as_i64 (V_Dint v) = Some (sint v)"
| "as_i64 (V_Lint v) = Some (sint v)"
| "as_i64 (V_Usint v) = Some (uint v)"
| "as_i64 (V_Byte v) = Some (uint v)"
| "as_i64 (V_Uint v) = Some (uint v)"
| "as_i64 (V_Word v) = Some (uint v)"
| "as_i64 (V_Udint v) = Some (uint v)"
| "as_i64 (V_Dword v) = Some (uint v)"
| "as_i64 (V_Ulint v) = checked_i64 (uint v)"
| "as_i64 (V_Lword v) = checked_i64 (uint v)"
| "as_i64 _ = None"

text \<open>The \<open>f64\<close> is its bit pattern.\<close>

fun as_f64 :: "Value \<Rightarrow> nat option" where
  "as_f64 (V_Real v) = Some (f32_to_f64 (unat v))"
| "as_f64 (V_Lreal v) = Some (unat v)"
| "as_f64 _ = None"

fun as_duration :: "Value \<Rightarrow> Duration option" where
  "as_duration (V_Time d) = Some d"
| "as_duration (V_LTime d) = Some d"
| "as_duration _ = None"

section \<open>Canonical bytes\<close>

definition to_le_bytes :: "'a::len word \<Rightarrow> u8 list" where
  "to_le_bytes w = map (\<lambda>i. ucast (drop_bit (8 * i) w)) [0..<LENGTH('a) div 8]"

text \<open>\<open>self.type_of() as u8\<close>: the position of the constructor in the declaration.\<close>

fun type_tag :: "ElementaryType \<Rightarrow> u8" where
  "type_tag E_Bool = 0"
| "type_tag E_Sint = 1"
| "type_tag E_Int = 2"
| "type_tag E_Dint = 3"
| "type_tag E_Lint = 4"
| "type_tag E_Usint = 5"
| "type_tag E_Uint = 6"
| "type_tag E_Udint = 7"
| "type_tag E_Ulint = 8"
| "type_tag E_Byte = 9"
| "type_tag E_Word = 10"
| "type_tag E_Dword = 11"
| "type_tag E_Lword = 12"
| "type_tag E_Real = 13"
| "type_tag E_Lreal = 14"
| "type_tag E_Time = 15"
| "type_tag E_LTime = 16"
| "type_tag E_Date = 17"
| "type_tag E_TimeOfDay = 18"
| "type_tag E_DateAndTime = 19"
| "type_tag E_String = 20"
| "type_tag E_WString = 21"

fun canonical_payload :: "Value \<Rightarrow> u8 list" where
  "canonical_payload (V_Bool v) = [if v then 1 else 0]"
| "canonical_payload (V_Sint v) = to_le_bytes v"
| "canonical_payload (V_Int v) = to_le_bytes v"
| "canonical_payload (V_Dint v) = to_le_bytes v"
| "canonical_payload (V_Lint v) = to_le_bytes v"
| "canonical_payload (V_Usint v) = to_le_bytes v"
| "canonical_payload (V_Uint v) = to_le_bytes v"
| "canonical_payload (V_Udint v) = to_le_bytes v"
| "canonical_payload (V_Ulint v) = to_le_bytes v"
| "canonical_payload (V_Byte v) = to_le_bytes v"
| "canonical_payload (V_Word v) = to_le_bytes v"
| "canonical_payload (V_Dword v) = to_le_bytes v"
| "canonical_payload (V_Lword v) = to_le_bytes v"
| "canonical_payload (V_Real v) = to_le_bytes (canonical_f32 v)"
| "canonical_payload (V_Lreal v) = to_le_bytes (canonical_f64 v)"
| "canonical_payload (V_Time v) = to_le_bytes (word_of_int v :: u64)"
| "canonical_payload (V_LTime v) = to_le_bytes (word_of_int v :: u64)"
| "canonical_payload (V_Date v) = to_le_bytes (word_of_int v :: u32)"
| "canonical_payload (V_TimeOfDay v) = to_le_bytes (word_of_int v :: u64)"
| "canonical_payload (V_DateAndTime v) = to_le_bytes (word_of_int v :: u64)"
| "canonical_payload (V_String v) = to_le_bytes (of_nat (length v) :: u32) @ v"
| "canonical_payload (V_WString v) = to_le_bytes (of_nat (length v) :: u32) @ concat (map to_le_bytes v)"

definition write_canonical_bytes :: "Value \<Rightarrow> u8 list \<Rightarrow> u8 list" where
  "write_canonical_bytes v out = out @ type_tag (type_of v) # canonical_payload v"

section \<open>Well-formed values\<close>

text \<open>
  What the Rust types guarantee of the counts, with the policy of the module: a stored NaN is the
  canonical one, and a string is no longer than the ceiling.
\<close>

fun wf_value :: "Value \<Rightarrow> bool" where
  "wf_value (V_Real x) = (canonical_f32 x = x)"
| "wf_value (V_Lreal x) = (canonical_f64 x = x)"
| "wf_value (V_Time d) = in_i64 d"
| "wf_value (V_LTime d) = in_i64 d"
| "wf_value (V_Date d) = (i32_MIN \<le> d \<and> d \<le> i32_MAX)"
| "wf_value (V_TimeOfDay d) = (0 \<le> d \<and> d < 2 ^ 64)"
| "wf_value (V_DateAndTime d) = in_i64 d"
| "wf_value (V_String bytes) = (length bytes \<le> MAX_STRING_LEN)"
| "wf_value (V_WString units) = (length units \<le> MAX_STRING_LEN)"
| "wf_value _ = True"

lemma canonical_idem [simp]: "canonical_f32 (canonical_f32 x) = canonical_f32 x" "canonical_f64 (canonical_f64 y) = canonical_f64 y"
  by (simp_all add: canonical_f32_def canonical_f64_def)

lemma canonical_zero [simp]: "canonical_f32 0 = 0" "canonical_f64 0 = 0"
  by (simp_all add: canonical_f32_def canonical_f64_def fl_is_nan_def fl_mag_def)

lemma wf_default [simp, wf_intros]: "wf_value (default_value ty)"
  by (cases ty) (simp_all add: i64_bounds i32_MIN_def i32_MAX_def)

lemma type_of_default [simp]: "type_of (default_value ty) = ty"
  by (cases ty) simp_all

lemma wf_constructors [simp, wf_intros]: "wf_value (Value_real x)" "wf_value (Value_lreal y)"
    "wf_value (Value_string bytes)" "wf_value (Value_wstring units)"
  by (simp_all add: Value_real_def Value_lreal_def Value_string_def Value_wstring_def)

lemma type_of_constructors [simp]: "type_of (Value_real x) = E_Real" "type_of (Value_lreal y) = E_Lreal"
    "type_of (Value_string bytes) = E_String" "type_of (Value_wstring units) = E_WString"
  by (simp_all add: Value_real_def Value_lreal_def Value_string_def Value_wstring_def)

lemma sint_in_i64: "LENGTH('a) \<le> 64 \<Longrightarrow> in_i64 (sint (w :: 'a::len word))"
proof -
  assume "LENGTH('a) \<le> 64"
  then have "(2 :: int) ^ (LENGTH('a) - 1) \<le> 2 ^ 63" by (intro power_increasing) simp_all
  with sint_ge [of w] sint_lt [of w] show ?thesis unfolding i64_bounds by linarith
qed

lemma uint_in_i64: "LENGTH('a) \<le> 63 \<Longrightarrow> in_i64 (uint (w :: 'a::len word))"
proof -
  assume "LENGTH('a) \<le> 63"
  then have "(2 :: int) ^ LENGTH('a) \<le> 2 ^ 63" by (intro power_increasing) simp_all
  with unsigned_less [of w, where ?'a = int] unsigned_greater_eq [of w, where ?'a = int] show ?thesis unfolding i64_bounds by linarith
qed

lemma as_i64_range: "as_i64 v = Some i \<Longrightarrow> in_i64 i"
  by (cases v) (auto simp: sint_in_i64 uint_in_i64)

section \<open>The canonical bytes determine the value\<close>

lemma length_to_le_bytes [simp]: "length (to_le_bytes (w :: 'a::len word)) = LENGTH('a) div 8"
  by (simp add: to_le_bytes_def)

lemma to_le_bytes_inject:
  fixes v w :: "'a::len word"
  assumes "8 dvd LENGTH('a)" "to_le_bytes v = to_le_bytes w"
  shows "v = w"
proof (rule bit_word_eqI)
  fix n assume n: "n < LENGTH('a)"
  then have i: "n div 8 < LENGTH('a) div 8" using assms(1) by (auto elim!: dvdE simp: less_mult_imp_div_less)
  have "to_le_bytes v ! (n div 8) = to_le_bytes w ! (n div 8)" by (simp add: assms(2))
  with i have "(ucast (drop_bit (8 * (n div 8)) v) :: u8) = ucast (drop_bit (8 * (n div 8)) w)"
    by (simp add: to_le_bytes_def)
  then have "bit (ucast (drop_bit (8 * (n div 8)) v) :: u8) (n mod 8) = bit (ucast (drop_bit (8 * (n div 8)) w) :: u8) (n mod 8)" by simp
  then show "bit v n = bit w n" using n by (simp add: bit_simps)
qed

lemma to_le_bytes_append:
  fixes v w :: "'a::len word"
  assumes "8 dvd LENGTH('a)"
  shows "to_le_bytes v @ xs = to_le_bytes w @ ys \<longleftrightarrow> v = w \<and> xs = ys"
  using to_le_bytes_inject [OF assms] by (auto simp: append_eq_append_conv)

lemma to_le_bytes_eq [simp]:
  "to_le_bytes (v :: u8) = to_le_bytes v' \<longleftrightarrow> v = v'" "to_le_bytes (w :: u16) = to_le_bytes w' \<longleftrightarrow> w = w'"
  "to_le_bytes (x :: u32) = to_le_bytes x' \<longleftrightarrow> x = x'" "to_le_bytes (y :: u64) = to_le_bytes y' \<longleftrightarrow> y = y'"
  using to_le_bytes_inject [of v v'] to_le_bytes_inject [of w w'] to_le_bytes_inject [of x x'] to_le_bytes_inject [of y y'] by auto

lemma concat_units_append:
  "length us = length vs \<Longrightarrow> concat (map to_le_bytes us) @ xs = concat (map to_le_bytes vs) @ ys \<longleftrightarrow> us = vs \<and> xs = ys"
  for us vs :: "u16 list"
  by (induction us vs rule: list_induct2) (auto simp: to_le_bytes_append)

lemma type_tag_inject [simp]: "type_tag s = type_tag t \<longleftrightarrow> s = t"
  by (cases s; cases t) simp_all

lemma sint_of_i64: "in_i64 a \<Longrightarrow> sint (word_of_int a :: u64) = a"
  by (simp add: signed_of_int signed_take_bit_int_eq_self i64_bounds)

lemma sint_of_i32: "i32_MIN \<le> a \<Longrightarrow> a \<le> i32_MAX \<Longrightarrow> sint (word_of_int a :: u32) = a"
  by (simp add: signed_of_int signed_take_bit_int_eq_self i32_MIN_def i32_MAX_def)

lemma uint_of_u64: "0 \<le> a \<Longrightarrow> a < 2 ^ 64 \<Longrightarrow> uint (word_of_int a :: u64) = a"
  by (simp add: unsigned_of_int take_bit_int_eq_self)

lemma counts_inject:
  "in_i64 a \<Longrightarrow> in_i64 b \<Longrightarrow> (word_of_int a :: u64) = word_of_int b \<longleftrightarrow> a = b"
  "i32_MIN \<le> a \<and> a \<le> i32_MAX \<Longrightarrow> i32_MIN \<le> b \<and> b \<le> i32_MAX \<Longrightarrow> (word_of_int a :: u32) = word_of_int b \<longleftrightarrow> a = b"
  "0 \<le> a \<and> a < 2 ^ 64 \<Longrightarrow> 0 \<le> b \<and> b < 2 ^ 64 \<Longrightarrow> (word_of_int a :: u64) = word_of_int b \<longleftrightarrow> a = b"
  using sint_of_i64 [of a] sint_of_i64 [of b] sint_of_i32 [of a] sint_of_i32 [of b] uint_of_u64 [of a] uint_of_u64 [of b]
  by metis+

lemma length_word_inject:
  assumes "m \<le> MAX_STRING_LEN" "n \<le> MAX_STRING_LEN"
  shows "(of_nat m :: u32) = of_nat n \<longleftrightarrow> m = n"
proof -
  have "unat (of_nat m :: u32) = m" "unat (of_nat n :: u32) = n"
    using assms by (simp_all add: MAX_STRING_LEN_def unat_of_nat take_bit_nat_eq_self)
  then show ?thesis by metis
qed

lemma payload_append:
  assumes "wf_value v" "wf_value w" "type_of v = type_of w" "canonical_payload v @ xs = canonical_payload w @ ys"
  shows "v = w \<and> xs = ys"
  using assms by (cases v; cases w) (auto simp: to_le_bytes_append counts_inject length_word_inject concat_units_append split: if_splits)

text \<open>
  The canonical bytes over which traces are fingerprinted determine the value and where it
  ends: two well-formed values whose encodings agree, whatever bytes follow each, are the same value of
  the same type followed by the same bytes.
\<close>
theorem canonical_bytes_determine_value:
  assumes "wf_value v" "wf_value w" "write_canonical_bytes v out @ xs = write_canonical_bytes w out @ ys"
  shows "v = w \<and> xs = ys"
  using assms payload_append [of v w xs ys] by (simp add: write_canonical_bytes_def)

theorem canonical_bytes_determine_value_witness:
  "write_canonical_bytes (V_String [65]) [] @ [1] = write_canonical_bytes (V_String [65]) [] @ [1] \<and>
   (V_String [65] = V_String [65] \<and> [1 :: u8] = [1]) \<and> write_canonical_bytes (V_Int 1) [] \<noteq> write_canonical_bytes (V_Word 1) []"
  using canonical_bytes_determine_value [of "V_String [65]" "V_String [65]" "[]" "[1]" "[1]"]
    canonical_bytes_determine_value [of "V_Int 1" "V_Word 1" "[]" "[]" "[]"]
  by (auto simp: MAX_STRING_LEN_def)

end
