(* ===== verification/Ordered_Map.thy ===== *)
theory Ordered_Map
  imports Salman_Prelude
begin

text \<open>
  The standard library's \<open>BTreeMap\<close>, as the code uses it: look up, insert, remove and the entry with
  the least key. The contract is a locale, so that a client's reasoning never sees the
  representation; the model represents a map by an association list in ascending order of keys.
\<close>

section \<open>The contract\<close>

locale ordered_map =
  fixes inv :: "'m \<Rightarrow> bool"
    and empty :: 'm
    and lookup :: "'m \<Rightarrow> 'k::linorder \<Rightarrow> 'v option"
    and insert_at :: "'k \<Rightarrow> 'v \<Rightarrow> 'm \<Rightarrow> 'm"
    and remove_at :: "'k \<Rightarrow> 'm \<Rightarrow> 'm"
    and first :: "'m \<Rightarrow> ('k \<times> 'v) option"
  assumes inv_empty [simp]: "inv empty"
    and inv_insert [simp]: "inv m \<Longrightarrow> inv (insert_at k v m)"
    and inv_remove [simp]: "inv m \<Longrightarrow> inv (remove_at k m)"
    and lookup_empty [simp]: "lookup empty = Map.empty"
    and lookup_insert [simp]: "inv m \<Longrightarrow> lookup (insert_at k v m) = (lookup m)(k \<mapsto> v)"
    and lookup_remove [simp]: "inv m \<Longrightarrow> lookup (remove_at k m) = (lookup m)(k := None)"
    and finite_keys: "inv m \<Longrightarrow> finite (dom (lookup m))"
    and first_None: "inv m \<Longrightarrow> first m = None \<Longrightarrow> lookup m = Map.empty"
    and first_Some: "inv m \<Longrightarrow> first m = Some (k, v) \<Longrightarrow> lookup m k = Some v \<and> (\<forall>j \<in> dom (lookup m). k \<le> j)"
begin

text \<open>Every entry is at or after the first.\<close>

lemma first_least: "inv m \<Longrightarrow> first m = Some (k, v) \<Longrightarrow> lookup m j = Some w \<Longrightarrow> k \<le> j"
  using first_Some by blast

text \<open>A measure summed over the entries, and what insertion and removal do to it.\<close>

definition total :: "('v \<Rightarrow> nat) \<Rightarrow> 'm \<Rightarrow> nat" where
  "total f m = (\<Sum>k \<in> dom (lookup m). f (the (lookup m k)))"

lemma total_empty [simp]: "total f empty = 0"
  by (simp add: total_def)

lemma total_remove:
  assumes "inv m" "lookup m k = Some v"
  shows "total f (remove_at k m) + f v = total f m"
proof -
  have "total f (remove_at k m) = (\<Sum>j \<in> dom (lookup m) - {k}. f (the (lookup m j)))"
    using assms by (auto simp: total_def intro!: sum.cong)
  moreover have "total f m = f v + (\<Sum>j \<in> dom (lookup m) - {k}. f (the (lookup m j)))"
    using assms finite_keys [OF assms(1)] by (auto simp: total_def intro!: sum.remove [of _ k, THEN trans])
  ultimately show ?thesis by simp
qed

lemma total_insert_new:
  assumes "inv m" "lookup m k = None"
  shows "total f (insert_at k v m) = total f m + f v"
proof -
  have "k \<notin> dom (lookup m)" using assms by (simp add: domIff)
  moreover from this have "(\<Sum>j \<in> dom (lookup m). f (the (((lookup m)(k \<mapsto> v)) j))) = total f m"
    by (auto simp: total_def intro!: sum.cong)
  ultimately show ?thesis using assms finite_keys [OF assms(1)] by (simp add: total_def)
qed

lemma total_insert_old:
  assumes "inv m" "lookup m k = Some u"
  shows "total f (insert_at k v m) + f u = total f m + f v"
proof -
  have "total f (insert_at k v m) = f v + (\<Sum>j \<in> dom (lookup m) - {k}. f (the (lookup m j)))"
    using assms finite_keys [OF assms(1)] by (simp add: total_def sum.insert_remove)
  moreover have "total f m = f u + (\<Sum>j \<in> dom (lookup m) - {k}. f (the (lookup m j)))"
    using assms finite_keys [OF assms(1)] by (auto simp: total_def intro!: sum.remove [of _ k, THEN trans])
  ultimately show ?thesis by simp
qed

end

section \<open>The representation\<close>

type_synonym ('k, 'v) btree = "('k \<times> 'v) list"

definition btree_ok :: "('k::linorder, 'v) btree \<Rightarrow> bool" where
  "btree_ok m = sorted_wrt (<) (map fst m)"

fun btree_insert :: "'k::linorder \<Rightarrow> 'v \<Rightarrow> ('k, 'v) btree \<Rightarrow> ('k, 'v) btree" where
  "btree_insert k v [] = [(k, v)]"
| "btree_insert k v ((k', v') # m) =
     (if k < k' then (k, v) # (k', v') # m else if k = k' then (k, v) # m else (k', v') # btree_insert k v m)"

definition btree_remove :: "'k \<Rightarrow> ('k, 'v) btree \<Rightarrow> ('k, 'v) btree" where
  "btree_remove k m = filter (\<lambda>e. fst e \<noteq> k) m"

fun first_key_value :: "('k, 'v) btree \<Rightarrow> ('k \<times> 'v) option" where
  "first_key_value [] = None"
| "first_key_value (e # m) = Some e"

lemma map_of_btree_insert [simp]: "map_of (btree_insert k v m) = (map_of m)(k \<mapsto> v)"
  by (induction k v m rule: btree_insert.induct) (auto simp: fun_eq_iff)

lemma map_of_btree_remove [simp]: "map_of (btree_remove k m) = (map_of m)(k := None)"
  by (induction m) (auto simp: btree_remove_def fun_eq_iff)

lemma fst_set_btree_insert: "fst ` set (btree_insert k v m) = insert k (fst ` set m)"
  by (induction k v m rule: btree_insert.induct) (simp_all add: insert_commute)

lemma set_btree_insert: "e \<in> set (btree_insert k v m) \<Longrightarrow> e = (k, v) \<or> e \<in> set m"
  by (induction k v m rule: btree_insert.induct) (auto split: if_splits)

lemma sorted_btree_insert: "sorted_wrt (<) (map fst m) \<Longrightarrow> sorted_wrt (<) (map fst (btree_insert k v m))"
proof (induction k v m rule: btree_insert.induct)
  case (2 k v k' v' m)
  then show ?case using fst_set_btree_insert [of k v m] by auto
qed simp

lemma sorted_btree_remove: "sorted_wrt (<) (map fst m) \<Longrightarrow> sorted_wrt (<) (map fst (btree_remove k m))"
  by (induction m) (auto simp: btree_remove_def)

lemma length_btree_remove_first: "first_key_value m = Some (k, v) \<Longrightarrow> length (btree_remove k m) < length m"
  by (cases m) (auto simp: btree_remove_def less_Suc_eq_le)

interpretation btree: ordered_map btree_ok "[]" map_of btree_insert btree_remove first_key_value
proof unfold_locales
  fix m :: "('k::linorder, 'v) btree" and k v
  assume "btree_ok m" "first_key_value m = Some (k, v)"
  then show "map_of m k = Some v \<and> (\<forall>j \<in> dom (map_of m). k \<le> j)"
    by (cases m) (auto simp: btree_ok_def dom_map_of_conv_image_fst less_imp_le)
next
  fix m :: "('k::linorder, 'v) btree"
  show "first_key_value m = None \<Longrightarrow> map_of m = Map.empty" by (cases m) auto
qed (simp_all add: btree_ok_def sorted_btree_insert sorted_btree_remove finite_dom_map_of)

end
