(* ===== verification/Plc_Memory.thy ===== *)
theory Plc_Memory
  imports Plc_Value Ordered_Map
begin

text \<open>
  Direct addresses and the program memory, from \<open>crates/salman-lang/src/address.rs\<close> and
  \<open>crates/salman-vm/src/memory.rs\<close>: resolving a written address, the byte-addressed process images, the
  variable slots, the force list, and restarts.  Thirty-two-bit indices are naturals; where the code
  narrows to \<open>u32\<close> the check is written out.  The force list is the ordered map of \<open>Ordered_Map\<close>.
\<close>

section \<open>Addresses\<close>

datatype AddressLocation = Input | Output | Memory_location

fun AddressLocation_letter :: "AddressLocation \<Rightarrow> char" where
  "AddressLocation_letter Input = CHR ''I''"
| "AddressLocation_letter Output = CHR ''Q''"
| "AddressLocation_letter Memory_location = CHR ''M''"

datatype AddressSize = BitSize | ByteSize | WordSize | DoubleWordSize | LongWordSize

fun AddressSize_letter :: "AddressSize \<Rightarrow> char" where
  "AddressSize_letter BitSize = CHR ''X''"
| "AddressSize_letter ByteSize = CHR ''B''"
| "AddressSize_letter WordSize = CHR ''W''"
| "AddressSize_letter DoubleWordSize = CHR ''D''"
| "AddressSize_letter LongWordSize = CHR ''L''"

fun AddressSize_bits :: "AddressSize \<Rightarrow> nat" where
  "AddressSize_bits BitSize = 1"
| "AddressSize_bits ByteSize = 8"
| "AddressSize_bits WordSize = 16"
| "AddressSize_bits DoubleWordSize = 32"
| "AddressSize_bits LongWordSize = 64"

record DirectAddress =
  da_location :: AddressLocation
  da_size :: AddressSize
  da_size_letter_written :: bool
  da_path :: "nat list option"

fun path_string :: "nat list \<Rightarrow> string" where
  "path_string [] = ''''"
| "path_string [n] = show_nat n"
| "path_string (n # ns) = show_nat n @ ''.'' @ path_string ns"

definition DirectAddress_to_string :: "DirectAddress \<Rightarrow> string" where
  "DirectAddress_to_string a =
     ''%'' @ [AddressLocation_letter (da_location a)] @
     (if da_size_letter_written a then [AddressSize_letter (da_size a)] else '''') @
     (case da_path a of None \<Rightarrow> ''*'' | Some indices \<Rightarrow> path_string indices)"

section \<open>Process images\<close>

datatype AddressGranularity = ElementIndex | ByteOffset

datatype ImageByteOrder = LittleEndian | BigEndian

record ImageLayout =
  il_granularity :: AddressGranularity
  il_byte_order :: ImageByteOrder

datatype AddressError =
    OutOfRange string nat nat
  | BitOutOfRange string nat
  | PartlySpecified string
  | UnsupportedDepth string nat

record ImagePosition =
  ip_byte :: nat
  ip_bit :: nat
  ip_size :: AddressSize

record ProcessImage =
  pi_bytes :: "u8 list"
  pi_layout :: ImageLayout

definition ProcessImage_new :: "nat \<Rightarrow> ImageLayout \<Rightarrow> ProcessImage" where
  "ProcessImage_new len layout = \<lparr>pi_bytes = replicate len 0, pi_layout = layout\<rparr>"

definition ProcessImage_clear :: "ProcessImage \<Rightarrow> ProcessImage" where
  "ProcessImage_clear im = im\<lparr>pi_bytes := replicate (length (pi_bytes im)) 0\<rparr>"

definition copy_from :: "ProcessImage \<Rightarrow> ProcessImage \<Rightarrow> ProcessImage" where
  "copy_from im other =
     (let n = min (length (pi_bytes im)) (length (pi_bytes other))
      in im\<lparr>pi_bytes := take n (pi_bytes other) @ drop n (pi_bytes im)\<rparr>)"

definition width_bytes :: "AddressSize \<Rightarrow> nat" where
  "width_bytes sz = max ((AddressSize_bits sz + 7) div 8) 1"

definition resolve :: "ProcessImage \<Rightarrow> DirectAddress \<Rightarrow> AddressError + ImagePosition" where
  "resolve im a =
     (let written = DirectAddress_to_string a in
      case da_path a of
        None \<Rightarrow> Inl (PartlySpecified written)
      | Some path \<Rightarrow>
          (case (da_size a, path) of
             (BitSize, [byte, bitno]) \<Rightarrow>
               if bitno > 7 then Inl (BitOutOfRange written bitno)
               else Inr \<lparr>ip_byte = byte, ip_bit = bitno, ip_size = BitSize\<rparr>
           | (BitSize, [idx]) \<Rightarrow> Inr \<lparr>ip_byte = idx div 8, ip_bit = idx mod 8, ip_size = BitSize\<rparr>
           | (sz, [idx]) \<Rightarrow>
               (let byte = (case il_granularity (pi_layout im) of
                              ElementIndex \<Rightarrow> idx * width_bytes sz
                            | ByteOffset \<Rightarrow> idx)
                in if byte \<ge> 2 ^ 32 then Inl (OutOfRange written byte (length (pi_bytes im)))
                   else Inr \<lparr>ip_byte = byte, ip_bit = 0, ip_size = sz\<rparr>)
           | (_, path) \<Rightarrow> Inl (UnsupportedDepth written (length path))))"

definition from_le_bytes :: "u8 list \<Rightarrow> 'a::len word" where
  "from_le_bytes bs = foldr (\<lambda>b w. push_bit 8 w OR ucast b) bs 0"

text \<open>\<open>start.checked_add(N)\<close> cannot overflow here: a start is a \<open>u32\<close> and an address space is larger.\<close>

definition read_array :: "ProcessImage \<Rightarrow> nat \<Rightarrow> nat \<Rightarrow> u8 list option" where
  "read_array im n start =
     map_option (\<lambda>bs. if il_byte_order (pi_layout im) = BigEndian then rev bs else bs)
       (get_range (pi_bytes im) start (start + n))"

definition write_array :: "ProcessImage \<Rightarrow> nat \<Rightarrow> u8 list \<Rightarrow> bool \<times> ProcessImage" where
  "write_array im start value =
     (if start + length value \<le> length (pi_bytes im)
      then (True, im\<lparr>pi_bytes := take start (pi_bytes im) @ value @ drop (start + length value) (pi_bytes im)\<rparr>)
      else (False, im))"

definition to_image_order :: "ProcessImage \<Rightarrow> 'a::len word \<Rightarrow> u8 list" where
  "to_image_order im v = (if il_byte_order (pi_layout im) = BigEndian then rev (to_le_bytes v) else to_le_bytes v)"

definition ProcessImage_read :: "ProcessImage \<Rightarrow> ImagePosition \<Rightarrow> Value option" where
  "ProcessImage_read im p =
     (let start = ip_byte p in
      case ip_size p of
        BitSize \<Rightarrow> map_option (\<lambda>byte. V_Bool (drop_bit (ip_bit p) byte AND 1 = 1)) (get (pi_bytes im) start)
      | ByteSize \<Rightarrow> map_option V_Byte (get (pi_bytes im) start)
      | WordSize \<Rightarrow> map_option (\<lambda>bs. V_Word (from_le_bytes bs)) (read_array im 2 start)
      | DoubleWordSize \<Rightarrow> map_option (\<lambda>bs. V_Dword (from_le_bytes bs)) (read_array im 4 start)
      | LongWordSize \<Rightarrow> map_option (\<lambda>bs. V_Lword (from_le_bytes bs)) (read_array im 8 start))"

definition update_byte :: "ProcessImage \<Rightarrow> nat \<Rightarrow> (u8 \<Rightarrow> u8) \<Rightarrow> bool \<times> ProcessImage" where
  "update_byte im start g =
     (case get (pi_bytes im) start of
        None \<Rightarrow> (False, im)
      | Some byte \<Rightarrow> (True, im\<lparr>pi_bytes := (pi_bytes im)[start := g byte]\<rparr>))"

definition ProcessImage_write :: "ProcessImage \<Rightarrow> ImagePosition \<Rightarrow> Value \<Rightarrow> bool \<times> ProcessImage" where
  "ProcessImage_write im p value =
     (let start = ip_byte p in
      case (ip_size p, value) of
        (BitSize, V_Bool v) \<Rightarrow>
          update_byte im start (\<lambda>byte. let mask = push_bit (ip_bit p) 1 in if v then byte OR mask else byte AND NOT mask)
      | (ByteSize, V_Byte v) \<Rightarrow> update_byte im start (\<lambda>_. v)
      | (ByteSize, V_Usint v) \<Rightarrow> update_byte im start (\<lambda>_. v)
      | (WordSize, V_Word v) \<Rightarrow> write_array im start (to_image_order im v)
      | (WordSize, V_Uint v) \<Rightarrow> write_array im start (to_image_order im v)
      | (DoubleWordSize, V_Dword v) \<Rightarrow> write_array im start (to_image_order im v)
      | (DoubleWordSize, V_Udint v) \<Rightarrow> write_array im start (to_image_order im v)
      | (LongWordSize, V_Lword v) \<Rightarrow> write_array im start (to_image_order im v)
      | (LongWordSize, V_Ulint v) \<Rightarrow> write_array im start (to_image_order im v)
      | _ \<Rightarrow> (False, im))"

section \<open>Memory\<close>

datatype Persistence = Volatile | Retain | Persistent

record Force =
  force_slot :: nat
  force_value :: Value
  force_suppressed_write :: "Value option"

record Memory =
  mem_slots :: "Value list"
  mem_initial :: "Value list"
  mem_persistence :: "Persistence list"
  mem_physical_inputs :: ProcessImage
  mem_input_image :: ProcessImage
  mem_output_image :: ProcessImage
  mem_physical_outputs :: ProcessImage
  mem_markers :: ProcessImage
  mem_forces :: "(nat \<times> Force) list"
  mem_image_initial :: "(DirectAddress \<times> Value) list"

definition Memory_new :: "ElementaryType list \<Rightarrow> nat \<Rightarrow> ImageLayout \<Rightarrow> Memory" where
  "Memory_new slot_types image_bytes layout =
     (let initial = map default_value slot_types; im = ProcessImage_new image_bytes layout in
      \<lparr>mem_slots = initial, mem_initial = initial, mem_persistence = replicate (length slot_types) Volatile,
       mem_physical_inputs = im, mem_input_image = im, mem_output_image = im, mem_physical_outputs = im,
       mem_markers = im, mem_forces = [], mem_image_initial = []\<rparr>)"

text \<open>Updating a list out of range leaves it as it is, as the \<open>if let Some(cell)\<close> of the code does.\<close>

definition set_initial :: "nat \<Rightarrow> Value \<Rightarrow> Memory \<Rightarrow> Memory" where
  "set_initial slot value m =
     m\<lparr>mem_initial := (mem_initial m)[slot := value], mem_slots := (mem_slots m)[slot := value]\<rparr>"

definition set_persistence :: "nat \<Rightarrow> Persistence \<Rightarrow> Memory \<Rightarrow> Memory" where
  "set_persistence slot p m = m\<lparr>mem_persistence := (mem_persistence m)[slot := p]\<rparr>"

definition read_slot :: "Memory \<Rightarrow> nat \<Rightarrow> Value option" where
  "read_slot m slot =
     (case map_of (mem_forces m) slot of
        Some f \<Rightarrow> Some (force_value f)
      | None \<Rightarrow> get (mem_slots m) slot)"

definition read_slot_unforced :: "Memory \<Rightarrow> nat \<Rightarrow> Value option" where
  "read_slot_unforced m slot = get (mem_slots m) slot"

definition write_slot :: "Memory \<Rightarrow> nat \<Rightarrow> Value \<Rightarrow> bool \<times> Memory" where
  "write_slot m slot value =
     (case map_of (mem_forces m) slot of
        Some f \<Rightarrow> (True, m\<lparr>mem_forces := btree_insert slot (f\<lparr>force_suppressed_write := Some value\<rparr>) (mem_forces m)\<rparr>)
      | None \<Rightarrow> if slot < length (mem_slots m) then (True, m\<lparr>mem_slots := (mem_slots m)[slot := value]\<rparr>) else (False, m))"

definition force :: "Memory \<Rightarrow> nat \<Rightarrow> Value \<Rightarrow> bool \<times> Memory" where
  "force m slot value =
     (if slot \<ge> length (mem_slots m) then (False, m)
      else (True, m\<lparr>mem_forces := btree_insert slot
              \<lparr>force_slot = slot, force_value = value, force_suppressed_write = None\<rparr> (mem_forces m)\<rparr>))"

definition release :: "Memory \<Rightarrow> nat \<Rightarrow> bool \<times> Memory" where
  "release m slot = (map_of (mem_forces m) slot \<noteq> None, m\<lparr>mem_forces := btree_remove slot (mem_forces m)\<rparr>)"

definition release_all :: "Memory \<Rightarrow> Memory" where
  "release_all m = m\<lparr>mem_forces := []\<rparr>"

definition forces :: "Memory \<Rightarrow> Force list" where
  "forces m = map snd (mem_forces m)"

definition force_count :: "Memory \<Rightarrow> nat" where
  "force_count m = length (mem_forces m)"

definition drive_input :: "Memory \<Rightarrow> DirectAddress \<Rightarrow> Value \<Rightarrow> AddressError + (bool \<times> Memory)" where
  "drive_input m a value =
     and_then (resolve (mem_physical_inputs m) a) (\<lambda>position.
     let (ok, im) = ProcessImage_write (mem_physical_inputs m) position value
     in Inr (ok, m\<lparr>mem_physical_inputs := im\<rparr>))"

definition latch_inputs :: "Memory \<Rightarrow> Memory" where
  "latch_inputs m = m\<lparr>mem_input_image := copy_from (mem_input_image m) (mem_physical_inputs m)\<rparr>"

definition publish_outputs :: "Memory \<Rightarrow> Memory" where
  "publish_outputs m = m\<lparr>mem_physical_outputs := copy_from (mem_physical_outputs m) (mem_output_image m)\<rparr>"

fun area_for :: "Memory \<Rightarrow> AddressLocation \<Rightarrow> ProcessImage" where
  "area_for m Input = mem_input_image m"
| "area_for m Output = mem_output_image m"
| "area_for m Memory_location = mem_markers m"

definition read_address :: "Memory \<Rightarrow> DirectAddress \<Rightarrow> AddressError + Value option" where
  "read_address m a =
     (let area = area_for m (da_location a)
      in and_then (resolve area a) (\<lambda>position. Inr (ProcessImage_read area position)))"

definition write_address :: "Memory \<Rightarrow> DirectAddress \<Rightarrow> Value \<Rightarrow> AddressError + (bool \<times> Memory)" where
  "write_address m a value =
     (if da_location a = Input then Inr (False, m)
      else and_then (resolve (area_for m (da_location a)) a) (\<lambda>position.
        case da_location a of
          Output \<Rightarrow> (let (ok, im) = ProcessImage_write (mem_output_image m) position value
                     in Inr (ok, m\<lparr>mem_output_image := im\<rparr>))
        | Memory_location \<Rightarrow> (let (ok, im) = ProcessImage_write (mem_markers m) position value
                     in Inr (ok, m\<lparr>mem_markers := im\<rparr>))
        | Input \<Rightarrow> Inr (False, m)))"

text \<open>The pair of \<open>set_initial_at\<close> is its result and the memory it leaves, also when it reports an error.\<close>

definition set_initial_at :: "Memory \<Rightarrow> DirectAddress \<Rightarrow> Value \<Rightarrow> (AddressError + bool) \<times> Memory" where
  "set_initial_at m a value =
     (let m = m\<lparr>mem_image_initial := mem_image_initial m @ [(a, value)]\<rparr>
      in case write_address m a value of
           Inl e \<Rightarrow> (Inl e, m)
         | Inr (ok, m) \<Rightarrow> (Inr ok, m))"

datatype Restart = Warm | Cold

definition keeps :: "Restart \<Rightarrow> Persistence \<Rightarrow> bool" where
  "keeps kind p \<longleftrightarrow> p = Persistent \<or> (kind = Warm \<and> p = Retain)"

definition persistence_at :: "Memory \<Rightarrow> nat \<Rightarrow> Persistence" where
  "persistence_at m i = (case get (mem_persistence m) i of Some p \<Rightarrow> p | None \<Rightarrow> Volatile)"

definition restart_slots :: "Restart \<Rightarrow> Memory \<Rightarrow> Value list" where
  "restart_slots kind m =
     map (\<lambda>i. if keeps kind (persistence_at m i) then mem_slots m ! i
              else case get (mem_initial m) i of Some v \<Rightarrow> v | None \<Rightarrow> mem_slots m ! i) [0..<length (mem_slots m)]"

definition put_back :: "(DirectAddress \<times> Value) list \<Rightarrow> Memory \<Rightarrow> Memory" where
  "put_back avs m = fold (\<lambda>(a, v) m. case write_address m a v of Inl _ \<Rightarrow> m | Inr (_, m') \<Rightarrow> m') avs m"

definition restart :: "Restart \<Rightarrow> Memory \<Rightarrow> Memory" where
  "restart kind m =
     put_back (mem_image_initial m)
       (m\<lparr>mem_slots := restart_slots kind m,
          mem_input_image := ProcessImage_clear (mem_input_image m),
          mem_output_image := ProcessImage_clear (mem_output_image m),
          mem_physical_outputs := ProcessImage_clear (mem_physical_outputs m),
          mem_markers := (if kind = Cold then ProcessImage_clear (mem_markers m) else mem_markers m),
          mem_forces := []\<rparr>)"

end
