(* ===== verification/Slot_Store.thy ===== *)
theory Slot_Store
  imports Main
begin

text \<open>
  The contract of a store of numbered slots, some of which may be pinned from outside: a write to a
  slot that exists and is not pinned is what the next read sees and touches nothing else; a write to a
  pinned slot is accepted and changes nothing that can be read.  The standard function blocks and the
  interpreter rely on no more than this of the program memory.
\<close>

locale slot_store =
  fixes inv :: "'m \<Rightarrow> bool"
    and rd :: "'m \<Rightarrow> nat \<Rightarrow> 'v option"
    and wr :: "'m \<Rightarrow> nat \<Rightarrow> 'v \<Rightarrow> bool \<times> 'm"
    and pinned :: "'m \<Rightarrow> nat \<Rightarrow> bool"
  assumes wr_inv: "inv m \<Longrightarrow> inv (snd (wr m s v))"
    and wr_accepted: "inv m \<Longrightarrow> fst (wr m s v) \<longleftrightarrow> rd m s \<noteq> None"
    and rd_wr: "inv m \<Longrightarrow> rd (snd (wr m s v)) t = (if s = t \<and> rd m s \<noteq> None \<and> \<not> pinned m s then Some v else rd m t)"
    and pinned_wr: "inv m \<Longrightarrow> pinned (snd (wr m s v)) = pinned m"
begin

text \<open>A run of writes, all accepted when every slot exists.\<close>

fun wr_all :: "'m \<Rightarrow> (nat \<times> 'v) list \<Rightarrow> 'm" where
  "wr_all m [] = m"
| "wr_all m ((s, v) # ws) = wr_all (snd (wr m s v)) ws"

lemma wr_all_inv: "inv m \<Longrightarrow> inv (wr_all m ws)"
  by (induction m ws rule: wr_all.induct) (simp_all add: wr_inv)

lemma wr_all_pinned: "inv m \<Longrightarrow> pinned (wr_all m ws) = pinned m"
  by (induction m ws rule: wr_all.induct) (simp_all add: wr_inv pinned_wr)

lemma wr_dom: "inv m \<Longrightarrow> dom (rd (snd (wr m s v))) = dom (rd m)"
  by (auto simp: rd_wr dom_def)

lemma wr_all_dom: "inv m \<Longrightarrow> dom (rd (wr_all m ws)) = dom (rd m)"
  by (induction m ws rule: wr_all.induct) (simp_all add: wr_inv wr_dom)

lemma wr_all_rd_pinned: "inv m \<Longrightarrow> pinned m t \<Longrightarrow> rd (wr_all m ws) t = rd m t"
  by (induction m ws rule: wr_all.induct) (auto simp: wr_inv rd_wr pinned_wr)

text \<open>The last write to an unpinned slot is what is read; a slot not written keeps its value.\<close>

lemma wr_all_rd:
  assumes "inv m" "\<not> pinned m t" "rd m t \<noteq> None"
  shows "rd (wr_all m ws) t = (case map_of (rev ws) t of Some v \<Rightarrow> Some v | None \<Rightarrow> rd m t)"
  using assms
proof (induction m ws rule: wr_all.induct)
  case (2 m s v ws)
  have "rd (snd (wr m s v)) t \<noteq> None" using 2(2,4) by (simp add: rd_wr)
  with 2 have "rd (wr_all (snd (wr m s v)) ws) t =
      (case map_of (rev ws) t of Some v \<Rightarrow> Some v | None \<Rightarrow> rd (snd (wr m s v)) t)"
    by (intro "2.IH") (simp_all add: wr_inv pinned_wr)
  with 2(2,3,4) show ?case by (auto simp: rd_wr map_add_def split: option.splits)
qed simp

lemma wr_all_untouched: "inv m \<Longrightarrow> t \<notin> fst ` set ws \<Longrightarrow> rd (wr_all m ws) t = rd m t"
  by (induction m ws rule: wr_all.induct) (auto simp: wr_inv rd_wr)

end

end
