(* ===== verification/Memory_Steps.thy ===== *)
theory Memory_Steps
  imports Plc_Memory Slot_Store
begin

text \<open>
  The invariant of the program memory over all its operations, the memory as a slot store, what forces
  and restarts do, and the two kinds of write a program can make, closed under repetition: what such
  writes cannot change bounds what any program can do.
\<close>

section \<open>The invariant\<close>

definition mem_inv :: "Memory \<Rightarrow> bool" where
  "mem_inv m \<longleftrightarrow>
     length (mem_initial m) = length (mem_slots m) \<and>
     length (mem_persistence m) = length (mem_slots m) \<and>
     (\<forall>(k, f) \<in> set (mem_forces m). k < length (mem_slots m) \<and> force_slot f = k) \<and>
     sorted_wrt (<) (map fst (mem_forces m)) \<and>
     (\<forall>im \<in> {mem_physical_inputs m, mem_input_image m, mem_output_image m, mem_physical_outputs m}.
        length (pi_bytes im) = length (pi_bytes (mem_markers m)))"

lemma length_copy_from [simp]: "length (pi_bytes (copy_from im other)) = length (pi_bytes im)"
  by (simp add: copy_from_def Let_def)

lemma copy_from_same: "length (pi_bytes im) = length (pi_bytes other) \<Longrightarrow> pi_bytes (copy_from im other) = pi_bytes other"
  by (simp add: copy_from_def)

lemma length_clear [simp]: "length (pi_bytes (ProcessImage_clear im)) = length (pi_bytes im)"
  by (simp add: ProcessImage_clear_def)

lemma write_keeps_length [simp]: "length (pi_bytes (snd (ProcessImage_write im p v))) = length (pi_bytes im)"
  by (auto simp: ProcessImage_write_def write_array_def update_byte_def Let_def
      split: AddressSize.splits Value.splits option.splits)

lemma write_keeps_layout [simp]: "pi_layout (snd (ProcessImage_write im p v)) = pi_layout im"
  by (auto simp: ProcessImage_write_def write_array_def update_byte_def Let_def
      split: AddressSize.splits Value.splits option.splits)

text \<open>A successful write through an address touches the output image or the markers and nothing else.\<close>

lemma write_address_cases:
  assumes "write_address m a v = Inr (ok, m')"
  obtains (refused) "m' = m" "\<not> ok"
    | (to_output) p where "da_location a = Output" "m' = m\<lparr>mem_output_image := snd (ProcessImage_write (mem_output_image m) p v)\<rparr>"
    | (to_marker) p where "da_location a = Memory_location" "m' = m\<lparr>mem_markers := snd (ProcessImage_write (mem_markers m) p v)\<rparr>"
  using assms by (cases "da_location a") (auto simp: write_address_def case_prod_unfold Let_def)

lemma write_address_inv:
  assumes "mem_inv m" "write_address m a v = Inr (ok, m')"
  shows "mem_inv m'"
  using assms(2) by (cases rule: write_address_cases) (use assms(1) in \<open>auto simp: mem_inv_def\<close>)

lemma mem_inv_forces:
  "mem_inv m \<Longrightarrow> k < length (mem_slots m) \<Longrightarrow> force_slot f = k \<Longrightarrow> mem_inv (m\<lparr>mem_forces := btree_insert k f (mem_forces m)\<rparr>)"
  by (auto simp: mem_inv_def sorted_btree_insert dest!: set_btree_insert)

lemma write_slot_inv: "mem_inv m \<Longrightarrow> mem_inv (snd (write_slot m s v))"
proof (cases "map_of (mem_forces m) s")
  case (Some f)
  assume inv: "mem_inv m"
  from Some have "(s, f) \<in> set (mem_forces m)" by (rule map_of_SomeD)
  with inv have "s < length (mem_slots m)" "force_slot f = s" by (auto simp: mem_inv_def)
  with inv Some show ?thesis by (simp add: write_slot_def mem_inv_forces)
qed (auto simp: write_slot_def mem_inv_def)

lemma put_back_inv: "mem_inv m \<Longrightarrow> mem_inv (put_back avs m)"
proof (induction avs arbitrary: m)
  case (Cons av avs)
  obtain a v where av: "av = (a, v)" by force
  show ?case
  proof (cases "write_address m a v")
    case (Inr r)
    then show ?thesis using Cons write_address_inv by (cases r) (auto simp: put_back_def av)
  qed (use Cons in \<open>simp add: put_back_def av\<close>)
qed (simp add: put_back_def)

text \<open>
  The methods that change a process image.  The memory hands out three of its images for change, and
  whoever holds one changes it through these.
\<close>

inductive image_step :: "ProcessImage \<Rightarrow> ProcessImage \<Rightarrow> bool" where
  image_write: "image_step im (snd (ProcessImage_write im p v))"
| image_clear: "image_step im (ProcessImage_clear im)"
| image_copy: "image_step im (copy_from im other)"

lemma image_step_length: "image_step im im' \<Longrightarrow> length (pi_bytes im') = length (pi_bytes im)"
  by (induction rule: image_step.induct) simp_all

text \<open>Every operation the memory offers, as one step.\<close>

inductive memory_step :: "Memory \<Rightarrow> Memory \<Rightarrow> bool" where
  step_write_slot: "memory_step m (snd (write_slot m s v))"
| step_write_address: "write_address m a v = Inr (ok, m') \<Longrightarrow> memory_step m m'"
| step_set_initial: "memory_step m (set_initial s v m)"
| step_set_initial_at: "memory_step m (snd (set_initial_at m a v))"
| step_set_persistence: "memory_step m (set_persistence s p m)"
| step_force: "memory_step m (snd (force m s v))"
| step_release: "memory_step m (snd (release m s))"
| step_release_all: "memory_step m (release_all m)"
| step_drive_input: "drive_input m a v = Inr (ok, m') \<Longrightarrow> memory_step m m'"
| step_latch: "memory_step m (latch_inputs m)"
| step_publish: "memory_step m (publish_outputs m)"
| step_restart: "memory_step m (restart kind m)"
| step_physical_inputs_mut: "image_step (mem_physical_inputs m) im \<Longrightarrow> memory_step m (m\<lparr>mem_physical_inputs := im\<rparr>)"
| step_output_image_mut: "image_step (mem_output_image m) im \<Longrightarrow> memory_step m (m\<lparr>mem_output_image := im\<rparr>)"
| step_marker_memory_mut: "image_step (mem_markers m) im \<Longrightarrow> memory_step m (m\<lparr>mem_markers := im\<rparr>)"

lemma memory_step_inv: "memory_step m m' \<Longrightarrow> mem_inv m \<Longrightarrow> mem_inv m'"
proof (induction rule: memory_step.induct)
  case (step_write_slot m s v)
  then show ?case by (rule write_slot_inv)
next
  case (step_write_address m a v ok m')
  then show ?case using write_address_inv by blast
next
  case (step_set_initial_at m a v)
  let ?m = "m\<lparr>mem_image_initial := mem_image_initial m @ [(a, v)]\<rparr>"
  from step_set_initial_at have "mem_inv ?m" by (simp add: mem_inv_def)
  then show ?case using write_address_inv by (auto simp: set_initial_at_def Let_def split: sum.splits)
next
  case (step_force m s v)
  then show ?case by (simp add: force_def mem_inv_forces)
next
  case (step_release m s)
  then show ?case using sorted_btree_remove [of "mem_forces m" s] by (auto simp: mem_inv_def release_def) (auto simp: btree_remove_def)
next
  case (step_drive_input m a v ok m')
  then obtain p where "m' = m\<lparr>mem_physical_inputs := snd (ProcessImage_write (mem_physical_inputs m) p v)\<rparr>"
    by (auto simp: drive_input_def case_prod_unfold Let_def)
  with step_drive_input show ?case by (auto simp: mem_inv_def)
next
  case (step_restart m kind)
  then show ?case unfolding restart_def by (intro put_back_inv) (auto simp: mem_inv_def restart_slots_def)
qed (auto simp: mem_inv_def set_initial_def set_persistence_def release_all_def latch_inputs_def
    publish_outputs_def image_step_length)

lemma mem_inv_new: "mem_inv (Memory_new tys n layout)"
  by (simp add: mem_inv_def Memory_new_def Let_def)

text \<open>
  Claim C22.  From a new memory, whatever operations follow: every forced slot exists, the force list
  is in slot order with one entry per forced slot, so the count an interface shows is the number of
  slots whose reads are being overridden; and the five image areas keep one common length, so the
  input snapshot and the output flush are complete copies.
\<close>
theorem memory_invariant:
  assumes "memory_step\<^sup>*\<^sup>* (Memory_new tys n layout) m"
  shows "mem_inv m \<and> force_count m = card (dom (map_of (mem_forces m))) \<and>
    dom (map_of (mem_forces m)) \<subseteq> {..<length (mem_slots m)} \<and>
    pi_bytes (mem_input_image (latch_inputs m)) = pi_bytes (mem_physical_inputs m) \<and>
    pi_bytes (mem_physical_outputs (publish_outputs m)) = pi_bytes (mem_output_image m)"
proof -
  from assms have inv: "mem_inv m"
    by (induction rule: rtranclp_induct) (auto simp: mem_inv_new memory_step_inv)
  then have dist: "distinct (map fst (mem_forces m))" by (simp add: mem_inv_def strict_sorted_iff)
  have "force_count m = card (dom (map_of (mem_forces m)))"
    using distinct_card [OF dist] by (simp add: force_count_def dom_map_of_conv_image_fst)
  moreover have "dom (map_of (mem_forces m)) \<subseteq> {..<length (mem_slots m)}"
    using inv by (auto simp: mem_inv_def dom_map_of_conv_image_fst)
  moreover have "pi_bytes (mem_input_image (latch_inputs m)) = pi_bytes (mem_physical_inputs m)"
    "pi_bytes (mem_physical_outputs (publish_outputs m)) = pi_bytes (mem_output_image m)"
    using inv by (auto simp: latch_inputs_def publish_outputs_def mem_inv_def copy_from_same)
  ultimately show ?thesis using inv by blast
qed

theorem memory_invariant_witness:
  "let m = snd (force (Memory_new [E_Bool, E_Int] 2 \<lparr>il_granularity = ElementIndex, il_byte_order = LittleEndian\<rparr>) 1 (V_Int 7))
   in mem_inv m \<and> force_count m = 1"
  using memory_invariant [of "[E_Bool, E_Int]" 2 "\<lparr>il_granularity = ElementIndex, il_byte_order = LittleEndian\<rparr>",
      OF r_into_rtranclp [of memory_step, OF step_force [of _ 1 "V_Int 7"]]]
  by (simp add: force_def Memory_new_def force_count_def Let_def)

section \<open>The memory as a slot store\<close>

definition forced :: "Memory \<Rightarrow> nat \<Rightarrow> bool" where
  "forced m s \<longleftrightarrow> map_of (mem_forces m) s \<noteq> None"

lemma read_slot_write:
  "read_slot (snd (write_slot m s v)) t = (if s = t \<and> s < length (mem_slots m) \<and> \<not> forced m s then Some v else read_slot m t)"
  by (auto simp: read_slot_def write_slot_def forced_def get_update split: option.splits)

lemma read_slot_exists: "mem_inv m \<Longrightarrow> read_slot m s \<noteq> None \<longleftrightarrow> s < length (mem_slots m)"
  by (auto simp: read_slot_def mem_inv_def dest!: map_of_SomeD split: option.splits)

interpretation slots: slot_store mem_inv read_slot write_slot forced
proof
  fix m s v t
  assume inv: "mem_inv m"
  show "mem_inv (snd (write_slot m s v))" by (rule write_slot_inv [OF inv])
  show "fst (write_slot m s v) \<longleftrightarrow> read_slot m s \<noteq> None"
    using read_slot_exists [OF inv, of s] by (auto simp: write_slot_def read_slot_def split: option.splits)
  show "read_slot (snd (write_slot m s v)) t = (if s = t \<and> read_slot m s \<noteq> None \<and> \<not> forced m s then Some v else read_slot m t)"
    using read_slot_exists [OF inv, of s] by (simp add: read_slot_write)
  show "forced (snd (write_slot m s v)) = forced m"
    by (auto simp: forced_def write_slot_def fun_eq_iff split: option.splits)
qed

text \<open>What lies under the forces: writes to a forced slot do not reach it.\<close>

lemma unforced_write:
  "read_slot_unforced (snd (write_slot m s v)) t =
     (if s = t \<and> s < length (mem_slots m) \<and> \<not> forced m s then Some v else read_slot_unforced m t)"
  by (auto simp: read_slot_unforced_def write_slot_def forced_def get_update split: option.splits)

lemma unforced_wr_all: "mem_inv m \<Longrightarrow> forced m t \<Longrightarrow> read_slot_unforced (slots.wr_all m ws) t = read_slot_unforced m t"
  by (induction m ws rule: slots.wr_all.induct) (auto simp: slots.wr_inv slots.pinned_wr unforced_write)

lemma force_facts:
  assumes "mem_inv m" "s < length (mem_slots m)"
  shows "mem_inv (snd (force m s v))" "forced (snd (force m s v)) t \<longleftrightarrow> t = s \<or> forced m t"
    "read_slot (snd (force m s v)) t = (if t = s then Some v else read_slot m t)"
    "read_slot_unforced (snd (force m s v)) t = read_slot_unforced m t"
proof -
  show "mem_inv (snd (force m s v))" by (rule memory_step_inv [OF step_force assms(1)])
qed (use assms(2) in \<open>auto simp: force_def forced_def read_slot_def read_slot_unforced_def split: option.splits\<close>)

lemma release_facts:
  "read_slot (snd (release m s)) t = (if t = s then read_slot_unforced m s else read_slot m t)"
  by (auto simp: release_def read_slot_def read_slot_unforced_def split: option.splits)

text \<open>
  The operations during which a force on slot \<open>s\<close> has to hold: all of them but forcing or releasing that
  very slot, releasing every force, and restarting.  The flag says whether \<open>set_initial\<close> on the slot
  itself is among them: it is the one operation that replaces the value under a force.
\<close>

inductive holding_step :: "nat \<Rightarrow> bool \<Rightarrow> Memory \<Rightarrow> Memory \<Rightarrow> bool" for s reinit where
  hold_write_slot: "holding_step s reinit m (snd (write_slot m t v))"
| hold_write_address: "write_address m a v = Inr (ok, m') \<Longrightarrow> holding_step s reinit m m'"
| hold_set_initial: "reinit \<or> t \<noteq> s \<Longrightarrow> holding_step s reinit m (set_initial t v m)"
| hold_set_initial_at: "holding_step s reinit m (snd (set_initial_at m a v))"
| hold_set_persistence: "holding_step s reinit m (set_persistence t p m)"
| hold_force: "t \<noteq> s \<Longrightarrow> holding_step s reinit m (snd (force m t v))"
| hold_release: "t \<noteq> s \<Longrightarrow> holding_step s reinit m (snd (release m t))"
| hold_drive_input: "drive_input m a v = Inr (ok, m') \<Longrightarrow> holding_step s reinit m m'"
| hold_latch: "holding_step s reinit m (latch_inputs m)"
| hold_publish: "holding_step s reinit m (publish_outputs m)"
| hold_physical_inputs_mut: "image_step (mem_physical_inputs m) im \<Longrightarrow> holding_step s reinit m (m\<lparr>mem_physical_inputs := im\<rparr>)"
| hold_output_image_mut: "image_step (mem_output_image m) im \<Longrightarrow> holding_step s reinit m (m\<lparr>mem_output_image := im\<rparr>)"
| hold_marker_memory_mut: "image_step (mem_markers m) im \<Longrightarrow> holding_step s reinit m (m\<lparr>mem_markers := im\<rparr>)"

text \<open>Nothing else is left out.\<close>

lemma memory_step_holds:
  assumes "memory_step m m'"
  shows "holding_step s True m m' \<or> (\<exists>v. m' = snd (force m s v)) \<or> m' = snd (release m s) \<or> m' = release_all m \<or>
    (\<exists>kind. m' = restart kind m)"
  using assms
proof (cases rule: memory_step.cases)
  case (step_force t v)
  then show ?thesis using hold_force by (cases "t = s") blast+
next
  case (step_release t)
  then show ?thesis using hold_release by (cases "t = s") blast+
qed (auto intro: holding_step.intros)

lemma write_address_forces: "write_address m a v = Inr (ok, m') \<Longrightarrow> mem_forces m' = mem_forces m \<and> mem_slots m' = mem_slots m"
  by (erule write_address_cases) simp_all

text \<open>What the force of a slot shows, and what lies under it.\<close>

definition pinned :: "Memory \<Rightarrow> nat \<Rightarrow> Value option" where
  "pinned m s = map_option force_value (map_of (mem_forces m) s)"

lemma pinned_read: "pinned m s = Some v \<Longrightarrow> read_slot m s = Some v \<and> forced m s"
  by (auto simp: pinned_def read_slot_def forced_def)

lemma holding_step_pinned:
  assumes "holding_step s reinit m m'" "pinned m s = Some v"
  shows "pinned m' s = Some v \<and> (reinit \<or> read_slot_unforced m' s = read_slot_unforced m s)"
  using assms
proof (induction rule: holding_step.induct)
  case (hold_write_slot m t w)
  then show ?case by (auto simp: pinned_def write_slot_def read_slot_unforced_def get_update split: option.splits)
next
  case (hold_write_address m a w ok m')
  then show ?case by (auto simp: pinned_def read_slot_unforced_def dest: write_address_forces)
next
  case (hold_set_initial_at m a w)
  let ?m = "m\<lparr>mem_image_initial := mem_image_initial m @ [(a, w)]\<rparr>"
  have "mem_forces (snd (set_initial_at m a w)) = mem_forces m \<and> mem_slots (snd (set_initial_at m a w)) = mem_slots m"
    using write_address_forces [of ?m a w] by (cases "write_address ?m a w") (auto simp: set_initial_at_def Let_def)
  with hold_set_initial_at show ?case by (simp add: pinned_def read_slot_unforced_def)
next
  case (hold_drive_input m a w ok m')
  then show ?case by (auto simp: pinned_def read_slot_unforced_def drive_input_def case_prod_unfold Let_def)
qed (auto simp: pinned_def read_slot_unforced_def set_initial_def set_persistence_def force_def release_def latch_inputs_def
    publish_outputs_def get_update)

lemma holding_run_pinned:
  "(holding_step s reinit)\<^sup>*\<^sup>* m m' \<Longrightarrow> pinned m s = Some v \<Longrightarrow>
   pinned m' s = Some v \<and> (reinit \<or> read_slot_unforced m' s = read_slot_unforced m s)"
proof (induction rule: rtranclp_induct)
  case (step n n')
  from holding_step_pinned [OF step(2), of v] step(3,4) show ?case by auto
qed simp

lemma force_pinned: "s < length (mem_slots m) \<Longrightarrow> pinned (snd (force m s v)) s = Some v"
  by (simp add: force_def pinned_def)

text \<open>What the other slots see of a force while the program runs: nothing.\<close>

lemma force_is_local:
  assumes "mem_inv m" "s < length (mem_slots m)" "t \<noteq> s"
  shows "read_slot (slots.wr_all (snd (force m s v)) ws) t = read_slot (slots.wr_all m ws) t"
proof (cases "forced m t \<or> read_slot m t = None")
  case True
  note f = force_facts [OF assms(1,2), of v]
  have none: "read_slot n t = None \<Longrightarrow> mem_inv n \<Longrightarrow> read_slot (slots.wr_all n ws) t = None" for n
    using slots.wr_all_dom [of n ws] by (metis domIff)
  from True show ?thesis
  proof
    assume "forced m t"
    with f(1) f(2) [of t] f(3) [of t] assms show ?thesis by (simp add: slots.wr_all_rd_pinned)
  qed (use none [of m] none [of "snd (force m s v)"] f(1,3) assms in simp)
next
  case False
  with force_facts [OF assms(1,2), of v] assms show ?thesis by (simp add: slots.wr_all_rd split: option.splits)
qed

text \<open>
  Claim C23.  A force holds until it is released.  After forcing a slot, reading it gives the forced value
  through every sequence of the memory's operations - writes to that slot and to any other, located
  writes, driven inputs, both halves of a scan, changes made to an image, new initial values, forces
  and releases of other slots - that does not force that slot again, release it, release every force
  or restart; and these last four are the only operations left out.  Releasing the slot then uncovers the value it had before
  it was forced, none of the suppressed writes having reached it, unless \<open>set_initial\<close> replaced that
  value meanwhile.  While the program writes, every other slot reads as if the slot had not been forced.
\<close>
theorem force_holds_until_release:
  assumes "mem_inv m" "s < length (mem_slots m)" "\<not> forced m s"
  shows "(\<forall>m'. (holding_step s True)\<^sup>*\<^sup>* (snd (force m s v)) m' \<longrightarrow> read_slot m' s = Some v \<and> forced m' s) \<and>
    (\<forall>m'. (holding_step s False)\<^sup>*\<^sup>* (snd (force m s v)) m' \<longrightarrow>
       read_slot (snd (release m' s)) s = read_slot m s \<and> \<not> forced (snd (release m' s)) s) \<and>
    (\<forall>n n'. memory_step n n' \<longrightarrow> holding_step s True n n' \<or> (\<exists>w. n' = snd (force n s w)) \<or> n' = snd (release n s) \<or>
       n' = release_all n \<or> (\<exists>kind. n' = restart kind n)) \<and>
    (\<forall>ws t. t \<noteq> s \<longrightarrow> read_slot (slots.wr_all (snd (force m s v)) ws) t = read_slot (slots.wr_all m ws) t)"
proof (intro conjI allI impI)
  fix m' assume "(holding_step s True)\<^sup>*\<^sup>* (snd (force m s v)) m'"
  from holding_run_pinned [OF this force_pinned [OF assms(2)]] show "read_slot m' s = Some v" "forced m' s"
    using pinned_read by blast+
next
  fix m' assume "(holding_step s False)\<^sup>*\<^sup>* (snd (force m s v)) m'"
  from holding_run_pinned [OF this force_pinned [OF assms(2)]]
  have "read_slot_unforced m' s = read_slot_unforced m s" using force_facts(4) [OF assms(1,2)] by simp
  with assms(3) show "read_slot (snd (release m' s)) s = read_slot m s"
    by (simp add: release_facts) (simp add: read_slot_def read_slot_unforced_def forced_def)
  show "\<not> forced (snd (release m' s)) s" by (simp add: release_def forced_def)
qed (use memory_step_holds force_is_local [OF assms(1,2)] in blast)+

text \<open>A forced slot through an operator's scan: inputs latched, the slot written, outputs published.\<close>

theorem force_holds_until_release_witness:
  "let f = snd (force (Memory_new [E_Int] 0 \<lparr>il_granularity = ElementIndex, il_byte_order = LittleEndian\<rparr>) 0 (V_Int 5));
       m' = publish_outputs (snd (write_slot (latch_inputs f) 0 (V_Int 9)))
   in read_slot m' 0 = Some (V_Int 5) \<and> read_slot (snd (release m' 0)) 0 = Some (V_Int 0)"
proof -
  define m where "m = Memory_new [E_Int] 0 \<lparr>il_granularity = ElementIndex, il_byte_order = LittleEndian\<rparr>"
  let ?f = "snd (force m 0 (V_Int 5))"
  let ?m' = "publish_outputs (snd (write_slot (latch_inputs ?f) 0 (V_Int 9)))"
  have run: "(holding_step 0 reinit)\<^sup>*\<^sup>* ?f ?m'" for reinit
    by (rule rtranclp.rtrancl_into_rtrancl [OF rtranclp.rtrancl_into_rtrancl [OF r_into_rtranclp]])
      (rule hold_latch hold_write_slot hold_publish)+
  have "mem_inv m" "0 < length (mem_slots m)" "\<not> forced m 0" "read_slot m 0 = Some (V_Int 0)"
    by (simp_all add: m_def mem_inv_new) (simp_all add: Memory_new_def forced_def read_slot_def Let_def)
  then show ?thesis using force_holds_until_release [of m 0 "V_Int 5"] run by (simp add: Let_def m_def)
qed

section \<open>What a program can write\<close>

inductive program_write :: "Memory \<Rightarrow> Memory \<Rightarrow> bool" where
  write_to_slot: "program_write m (snd (write_slot m s v))"
| write_to_address: "write_address m a v = Inr (ok, m') \<Longrightarrow> program_write m m'"

text \<open>Everything outside the slots, the recorded attempts, the output image and the markers.\<close>

definition untouchable :: "Memory \<Rightarrow> Value list \<times> Persistence list \<times> ProcessImage \<times> ProcessImage \<times> ProcessImage \<times>
    (nat \<times> Value) list \<times> (DirectAddress \<times> Value) list \<times> nat" where
  "untouchable m = (mem_initial m, mem_persistence m, mem_physical_inputs m, mem_input_image m, mem_physical_outputs m,
     map (\<lambda>(k, f). (k, force_value f)) (mem_forces m), mem_image_initial m, length (mem_slots m))"

lemma btree_insert_suppressed:
  "sorted_wrt (<) (map fst m) \<Longrightarrow> map_of m k = Some f \<Longrightarrow> force_value g = force_value f \<Longrightarrow>
   map (\<lambda>(k, f). (k, force_value f)) (btree_insert k g m) = map (\<lambda>(k, f). (k, force_value f)) m"
proof (induction m)
  case (Cons e m)
  obtain k' f' where e: "e = (k', f')" by force
  show ?case
  proof (cases "k = k'")
    case False
    then have "map_of m k = Some f" using Cons.prems(2) by (simp add: e)
    then have "k \<in> fst ` set m" by (metis map_of_eq_None_iff option.distinct(1))
    with Cons.prems(1) have "k' < k" by (auto simp: e)
    with Cons False show ?thesis by (simp add: e)
  qed (use Cons in \<open>simp add: e\<close>)
qed simp

lemma program_write_untouchable:
  assumes "program_write m m'" "mem_inv m"
  shows "mem_inv m' \<and> untouchable m' = untouchable m"
  using assms
proof (cases rule: program_write.cases)
  case (write_to_slot s v)
  have "untouchable (snd (write_slot m s v)) = untouchable m"
    using assms(2) btree_insert_suppressed [of "mem_forces m" s]
    by (auto simp: write_slot_def untouchable_def mem_inv_def split: option.splits)
  then show ?thesis using write_to_slot write_slot_inv [OF assms(2)] by simp
next
  case (write_to_address a v ok)
  from this(1) have "untouchable m' = untouchable m" by (cases rule: write_address_cases) (simp_all add: untouchable_def)
  then show ?thesis using write_address_inv [OF assms(2) write_to_address(1)] by simp
qed

lemma program_writes_untouchable:
  "program_write\<^sup>*\<^sup>* m m' \<Longrightarrow> mem_inv m \<Longrightarrow> mem_inv m' \<and> untouchable m' = untouchable m"
  by (induction rule: rtranclp_induct) (auto simp: program_write_untouchable)

end
