(* ===== verification/Image_Bits.thy ===== *)
theory Image_Bits
  imports Memory_Steps
begin

text \<open>
  The process image as a row of bits: which bits a position covers, that a read looks at those and a
  write changes those only, that what is written is what is read back in either byte order, and how
  addresses of different widths overlay each other.
\<close>

section \<open>Bytes and words\<close>

lemma bit_from_le_bytes:
  "bit (from_le_bytes bs :: 'a::len word) n \<longleftrightarrow> n < LENGTH('a) \<and> n div 8 < length bs \<and> bit (bs ! (n div 8)) (n mod 8)"
proof (induction bs arbitrary: n)
  case (Cons b bs)
  have "bit (from_le_bytes (b # bs) :: 'a word) n \<longleftrightarrow>
      n < LENGTH('a) \<and> (8 \<le> n \<and> bit (from_le_bytes bs :: 'a word) (n - 8) \<or> bit b n)"
    by (auto simp: from_le_bytes_def bit_simps dest: bit_imp_le_length)
  moreover have "bit b n \<Longrightarrow> n < 8" by (drule bit_imp_le_length) simp
  ultimately show ?case
  proof (cases "8 \<le> n")
    case True
    then obtain k where k: "n = k + 8" using le_Suc_ex by (metis add.commute)
    then have "n div 8 = Suc (k div 8)" "n mod 8 = k mod 8" by simp_all
    with True show ?thesis
      using \<open>bit b n \<Longrightarrow> n < 8\<close> \<open>bit (from_le_bytes (b # bs) :: 'a word) n \<longleftrightarrow> _\<close> by (auto simp: Cons k)
  qed (auto simp: Cons)
qed (simp add: from_le_bytes_def)

lemma nth_to_le_bytes: "i < LENGTH('a) div 8 \<Longrightarrow> to_le_bytes (w :: 'a::len word) ! i = ucast (drop_bit (8 * i) w)"
  by (simp add: to_le_bytes_def)

lemma from_to_le_bytes:
  assumes "8 dvd LENGTH('a)"
  shows "from_le_bytes (to_le_bytes (w :: 'a::len word)) = w"
proof (rule bit_word_eqI)
  fix n assume n: "n < LENGTH('a)"
  then have i: "n div 8 < LENGTH('a) div 8" using assms by (auto elim!: dvdE simp: less_mult_imp_div_less)
  with n show "bit (from_le_bytes (to_le_bytes w) :: 'a word) n = bit w n"
    by (simp add: bit_from_le_bytes nth_to_le_bytes bit_simps)
qed

section \<open>Footprints\<close>

definition image_bit :: "ProcessImage \<Rightarrow> nat \<Rightarrow> bool" where
  "image_bit im n \<longleftrightarrow> bit (pi_bytes im ! (n div 8)) (n mod 8)"

definition footprint :: "ImagePosition \<Rightarrow> nat set" where
  "footprint p =
     (if ip_size p = BitSize then {8 * ip_byte p + ip_bit p}
      else {8 * ip_byte p ..< 8 * (ip_byte p + width_bytes (ip_size p))})"

lemma width_bytes_simps [simp]: "width_bytes ByteSize = 1" "width_bytes WordSize = 2" "width_bytes DoubleWordSize = 4"
    "width_bytes LongWordSize = 8"
  by (simp_all add: width_bytes_def)

lemma byte_eq_bits: "(b :: u8) = c \<longleftrightarrow> (\<forall>k < 8. bit b k = bit c k)"
  by (simp add: word_eq_bits_iff)

lemma bytes_eq_bits:
  assumes "\<forall>n \<in> {8 * i ..< 8 * i + 8}. image_bit im n = image_bit im' n"
  shows "pi_bytes im ! i = pi_bytes im' ! i"
proof -
  have "bit (pi_bytes im ! i) k = bit (pi_bytes im' ! i) k" if "k < 8" for k
    using assms that by (auto simp: image_bit_def dest!: bspec [of _ _ "8 * i + k"])
  then show ?thesis by (simp add: byte_eq_bits)
qed

lemma range_eq_bits:
  assumes "length (pi_bytes im) = length (pi_bytes im')" "\<forall>n \<in> {8 * s ..< 8 * (s + w)}. image_bit im n = image_bit im' n"
  shows "get_range (pi_bytes im) s (s + w) = get_range (pi_bytes im') s (s + w)"
proof -
  have "pi_bytes im ! (s + i) = pi_bytes im' ! (s + i)" if "i < w" for i
    using assms(2) that by (intro bytes_eq_bits) auto
  then have "s + w \<le> length (pi_bytes im) \<Longrightarrow> take w (drop s (pi_bytes im)) = take w (drop s (pi_bytes im'))"
    using assms(1) by (intro nth_equalityI) auto
  with assms(1) show ?thesis by (auto simp: get_range_def)
qed

lemma array_eq_bits:
  "length (pi_bytes im) = length (pi_bytes im') \<Longrightarrow> pi_layout im = pi_layout im' \<Longrightarrow>
   \<forall>n \<in> {8 * s ..< 8 * (s + w)}. image_bit im n = image_bit im' n \<Longrightarrow> read_array im w s = read_array im' w s"
  by (simp only: read_array_def range_eq_bits)

text \<open>A read is a function of the bits its position covers.\<close>

lemma read_depends:
  assumes "length (pi_bytes im) = length (pi_bytes im')" "pi_layout im = pi_layout im'"
    and "\<forall>n \<in> footprint p. image_bit im n = image_bit im' n" "ip_bit p < 8"
  shows "ProcessImage_read im p = ProcessImage_read im' p"
proof (cases "ip_size p")
  case BitSize
  have b: "(drop_bit k b AND 1 = 1) = bit b k" for b :: u8 and k
    by (simp add: and_one_eq bit_iff_odd_drop_bit odd_iff_mod_2_eq_one)
  from BitSize assms(3,4) have "bit (pi_bytes im ! ip_byte p) (ip_bit p) = bit (pi_bytes im' ! ip_byte p) (ip_bit p)"
    by (simp add: footprint_def image_bit_def)
  with BitSize assms(1) show ?thesis by (simp add: ProcessImage_read_def b get_def Let_def)
next
  case ByteSize
  with assms(3) have "pi_bytes im ! ip_byte p = pi_bytes im' ! ip_byte p" by (intro bytes_eq_bits) (simp add: footprint_def)
  with ByteSize assms(1) show ?thesis by (simp add: ProcessImage_read_def get_def Let_def)
next
  case WordSize
  with assms array_eq_bits [of im im' "ip_byte p" 2] show ?thesis by (simp add: ProcessImage_read_def footprint_def)
next
  case DoubleWordSize
  with assms array_eq_bits [of im im' "ip_byte p" 4] show ?thesis by (simp add: ProcessImage_read_def footprint_def)
next
  case LongWordSize
  with assms array_eq_bits [of im im' "ip_byte p" 8] show ?thesis by (simp add: ProcessImage_read_def footprint_def)
qed

section \<open>Writing\<close>

text \<open>What a read of the same position gives back: the unsigned integers are read as bit strings.\<close>

fun image_value :: "Value \<Rightarrow> Value" where
  "image_value (V_Usint v) = V_Byte v"
| "image_value (V_Uint v) = V_Word v"
| "image_value (V_Udint v) = V_Dword v"
| "image_value (V_Ulint v) = V_Lword v"
| "image_value v = v"

lemma write_array_read:
  assumes "write_array im s bs = (True, im')"
  shows "get_range (pi_bytes im') s (s + length bs) = Some bs" "pi_layout im' = pi_layout im"
    "i \<notin> {s ..< s + length bs} \<Longrightarrow> pi_bytes im' ! i = pi_bytes im ! i"
proof -
  have len: "s + length bs \<le> length (pi_bytes im)" and im': "im' = im\<lparr>pi_bytes := take s (pi_bytes im) @ bs @ drop (s + length bs) (pi_bytes im)\<rparr>"
    using assms by (auto simp: write_array_def split: if_splits)
  from len show "get_range (pi_bytes im') s (s + length bs) = Some bs" "pi_layout im' = pi_layout im" by (simp_all add: im')
  assume "i \<notin> {s ..< s + length bs}"
  with len show "pi_bytes im' ! i = pi_bytes im ! i" by (auto simp: im' nth_append)
qed

lemma update_byte_read:
  assumes "update_byte im s g = (True, im')"
  shows "s < length (pi_bytes im)" "im' = im\<lparr>pi_bytes := (pi_bytes im)[s := g (pi_bytes im ! s)]\<rparr>"
  using assms by (auto simp: update_byte_def split: option.splits)

text \<open>The writes that are accepted, by width.\<close>

lemma write_cases:
  assumes "ProcessImage_write im p v = (True, im')"
  obtains (bit) b where "ip_size p = BitSize" "v = V_Bool b"
      "update_byte im (ip_byte p) (\<lambda>byte. if b then byte OR 2 ^ ip_bit p else byte AND NOT (2 ^ ip_bit p)) = (True, im')"
    | (byte) w where "ip_size p = ByteSize" "image_value v = V_Byte w" "update_byte im (ip_byte p) (\<lambda>_. w) = (True, im')"
    | (word) w where "ip_size p = WordSize" "image_value v = V_Word w" "write_array im (ip_byte p) (to_image_order im w) = (True, im')"
    | (dword) w where "ip_size p = DoubleWordSize" "image_value v = V_Dword w" "write_array im (ip_byte p) (to_image_order im w) = (True, im')"
    | (lword) w where "ip_size p = LongWordSize" "image_value v = V_Lword w" "write_array im (ip_byte p) (to_image_order im w) = (True, im')"
  using assms by (cases "ip_size p"; cases v) (auto simp: ProcessImage_write_def Let_def)

lemma length_to_image_order [simp]: "length (to_image_order im (w :: 'a::len word)) = LENGTH('a) div 8"
  by (simp add: to_image_order_def)

lemma read_array_written:
  assumes "write_array im s (to_image_order im (w :: 'a::len word)) = (True, im')" "8 dvd LENGTH('a)"
  shows "map_option from_le_bytes (read_array im' (LENGTH('a) div 8) s) = Some w"
proof -
  have "get_range (pi_bytes im') s (s + LENGTH('a) div 8) = Some (to_image_order im w)" "pi_layout im' = pi_layout im"
    using write_array_read(1,2) [OF assms(1)] by (simp_all del: get_range_eq_Some)
  then show ?thesis
    using assms(2) by (simp add: read_array_def to_image_order_def from_to_le_bytes del: get_range_eq_Some)
qed

lemma read_written:
  assumes "ProcessImage_write im p v = (True, im')" "ip_bit p < 8"
  shows "ProcessImage_read im' p = Some (image_value v)"
  using assms(1)
proof (cases rule: write_cases)
  case (bit b)
  have "(drop_bit k x AND 1 = 1) = bit x k" for x :: u8 and k
    by (simp add: and_one_eq bit_iff_odd_drop_bit odd_iff_mod_2_eq_one)
  then show ?thesis using bit(1,2) update_byte_read [OF bit(3)] assms(2)
    by (simp add: ProcessImage_read_def get_def Let_def bit_simps)
next
  case (byte w)
  then show ?thesis using update_byte_read [OF byte(3)] by (simp add: ProcessImage_read_def get_def)
next
  case (word w)
  then show ?thesis using read_array_written [OF word(3)] by (auto simp: ProcessImage_read_def)
next
  case (dword w)
  then show ?thesis using read_array_written [OF dword(3)] by (auto simp: ProcessImage_read_def)
next
  case (lword w)
  then show ?thesis using read_array_written [OF lword(3)] by (auto simp: ProcessImage_read_def)
qed

lemma array_frame:
  assumes "write_array im s bs = (True, im')" "n \<notin> {8 * s ..< 8 * (s + length bs)}"
  shows "image_bit im' n = image_bit im n"
proof -
  have "n div 8 \<notin> {s ..< s + length bs}" using assms(2) by (auto simp: less_eq_div_iff_mult_less_eq div_less_iff_less_mult)
  then show ?thesis using write_array_read(3) [OF assms(1), of "n div 8"] by (simp add: image_bit_def)
qed

lemma write_frame:
  assumes "ProcessImage_write im p v = (True, im')" "n \<notin> footprint p" "ip_bit p < 8"
  shows "image_bit im' n = image_bit im n"
  using assms(1)
proof (cases rule: write_cases)
  case (bit b)
  note u = update_byte_read [OF bit(3)]
  have "n div 8 = ip_byte p \<Longrightarrow> n mod 8 \<noteq> ip_bit p"
    using assms(2) bit(1) mult_div_mod_eq [of 8 n] by (auto simp: footprint_def)
  then show ?thesis using u by (auto simp: image_bit_def bit_simps nth_list_update)
next
  case (byte w)
  then have "n div 8 \<noteq> ip_byte p" using assms(2) by (auto simp: footprint_def)
  then show ?thesis using update_byte_read [OF byte(3)] by (simp add: image_bit_def)
next
  case (word w)
  then show ?thesis using assms(2) array_frame [OF word(3), of n] by (simp add: footprint_def)
next
  case (dword w)
  then show ?thesis using assms(2) array_frame [OF dword(3), of n] by (simp add: footprint_def)
next
  case (lword w)
  then show ?thesis using assms(2) array_frame [OF lword(3), of n] by (simp add: footprint_def)
qed

lemma write_refused: "ProcessImage_write im p v = (False, im') \<Longrightarrow> im' = im"
  by (auto simp: ProcessImage_write_def write_array_def update_byte_def Let_def
      split: AddressSize.splits Value.splits option.splits if_splits)

lemma overlap_word:
  assumes "Suc s < length (pi_bytes im)"
  shows "ProcessImage_read im \<lparr>ip_byte = s, ip_bit = 0, ip_size = WordSize\<rparr> =
    Some (V_Word (from_le_bytes (if il_byte_order (pi_layout im) = BigEndian
      then [pi_bytes im ! Suc s, pi_bytes im ! s] else [pi_bytes im ! s, pi_bytes im ! Suc s])))"
proof -
  have "take 2 (drop s (pi_bytes im)) = [pi_bytes im ! s, pi_bytes im ! Suc s]"
    using assms by (simp add: numeral_2_eq_2 Cons_nth_drop_Suc [symmetric])
  with assms show ?thesis by (simp add: ProcessImage_read_def read_array_def get_range_def)
qed

text \<open>
  Claim C32.  The process image behaves as one row of bits.  A write that is accepted is read back at
  the same position, in either byte order, and every position sharing no bit with it reads as before; a
  write that is refused changes nothing.  A word overlays its two bytes and a byte its eight bits.
\<close>
theorem image_read_after_write:
  assumes "ip_bit p < 8" "ip_bit q < 8"
  shows "(case ProcessImage_write im p v of (ok, im') \<Rightarrow>
      (if ok then ProcessImage_read im' p = Some (image_value v) \<and>
        (footprint p \<inter> footprint q = {} \<longrightarrow> ProcessImage_read im' q = ProcessImage_read im q)
       else im' = im)) \<and>
    (Suc s < length (pi_bytes im) \<longrightarrow>
      ProcessImage_read im \<lparr>ip_byte = s, ip_bit = 0, ip_size = WordSize\<rparr> =
      Some (V_Word (from_le_bytes (if il_byte_order (pi_layout im) = BigEndian
        then [pi_bytes im ! Suc s, pi_bytes im ! s] else [pi_bytes im ! s, pi_bytes im ! Suc s])))) \<and>
    (s < length (pi_bytes im) \<longrightarrow>
      ProcessImage_read im \<lparr>ip_byte = s, ip_bit = ip_bit q, ip_size = BitSize\<rparr> = Some (V_Bool (bit (pi_bytes im ! s) (ip_bit q))))"
proof (intro conjI impI)
  obtain ok im' where w: "ProcessImage_write im p v = (ok, im')" by force
  show "case ProcessImage_write im p v of (ok, im') \<Rightarrow>
      (if ok then ProcessImage_read im' p = Some (image_value v) \<and>
        (footprint p \<inter> footprint q = {} \<longrightarrow> ProcessImage_read im' q = ProcessImage_read im q)
       else im' = im)"
  proof (cases ok)
    case True
    with w have t: "ProcessImage_write im p v = (True, im')" by simp
    have "footprint p \<inter> footprint q = {} \<longrightarrow> ProcessImage_read im' q = ProcessImage_read im q"
      using write_frame [OF t _ assms(1)] write_keeps_length [of im p v] write_keeps_layout [of im p v] assms(2)
      by (auto simp: t intro!: read_depends)
    with True w read_written [OF t assms(1)] show ?thesis by simp
  qed (use w write_refused in auto)
next
  assume "s < length (pi_bytes im)"
  then show "ProcessImage_read im \<lparr>ip_byte = s, ip_bit = ip_bit q, ip_size = BitSize\<rparr> = Some (V_Bool (bit (pi_bytes im ! s) (ip_bit q)))"
    by (simp add: ProcessImage_read_def get_def and_one_eq bit_iff_odd_drop_bit odd_iff_mod_2_eq_one)
qed (rule overlap_word)

theorem image_read_after_write_witness:
  "let im = ProcessImage_new 4 \<lparr>il_granularity = ElementIndex, il_byte_order = BigEndian\<rparr>;
       p = \<lparr>ip_byte = 0, ip_bit = 0, ip_size = WordSize\<rparr>
   in case ProcessImage_write im p (V_Word 0x1234) of (ok, im') \<Rightarrow>
      (if ok then ProcessImage_read im' p = Some (image_value (V_Word 0x1234)) else im' = im)"
  using image_read_after_write [of "\<lparr>ip_byte = 0, ip_bit = 0, ip_size = WordSize\<rparr>" "\<lparr>ip_byte = 2, ip_bit = 0, ip_size = WordSize\<rparr>"
      "V_Word 0x1234" "ProcessImage_new 4 \<lparr>il_granularity = ElementIndex, il_byte_order = BigEndian\<rparr>"]
  by (auto simp: Let_def split: prod.splits if_splits)

section \<open>Restarts\<close>

lemma resolve_bit: "resolve im a = Inr p \<Longrightarrow> ip_bit p < 8"
  by (auto simp: resolve_def Let_def split: option.splits AddressSize.splits list.splits if_splits AddressGranularity.splits)

lemma resolve_cong: "pi_layout im = pi_layout im' \<Longrightarrow> length (pi_bytes im) = length (pi_bytes im') \<Longrightarrow> resolve im a = resolve im' a"
  by (simp only: resolve_def)

lemma accepted_cong: "length (pi_bytes im) = length (pi_bytes im') \<Longrightarrow> fst (ProcessImage_write im p v) = fst (ProcessImage_write im' p v)"
  by (auto simp: ProcessImage_write_def write_array_def update_byte_def Let_def to_image_order_def
      split: AddressSize.splits Value.splits option.splits)

text \<open>Two memories whose images have the same shape accept the same located writes.\<close>

definition same_shape :: "Memory \<Rightarrow> Memory \<Rightarrow> bool" where
  "same_shape m m' \<longleftrightarrow> (\<forall>l. pi_layout (area_for m l) = pi_layout (area_for m' l) \<and>
     length (pi_bytes (area_for m l)) = length (pi_bytes (area_for m' l)))"

lemma all_locations: "(\<forall>l. P l) \<longleftrightarrow> P Input \<and> P Output \<and> P Memory_location"
  by (metis AddressLocation.exhaust)

lemma same_shape_trans: "same_shape m m' \<Longrightarrow> same_shape m' m'' \<Longrightarrow> same_shape m m''"
  by (simp add: same_shape_def)

lemma write_address_accepted:
  assumes "write_address m a v = Inr (True, m1)" "same_shape m m'"
  shows "\<exists>m2. write_address m' a v = Inr (True, m2) \<and> read_address m2 a = Inr (Some (image_value v))"
proof -
  let ?im = "area_for m (da_location a)" and ?im' = "area_for m' (da_location a)"
  have shape: "pi_layout ?im = pi_layout ?im'" "length (pi_bytes ?im) = length (pi_bytes ?im')"
    using assms(2) by (simp_all add: same_shape_def)
  from assms(1) obtain p where p: "da_location a \<noteq> Input" "resolve ?im a = Inr p" "fst (ProcessImage_write ?im p v)"
    by (cases "da_location a") (auto simp: write_address_def case_prod_unfold Let_def)
  then have ok: "resolve ?im' a = Inr p" "fst (ProcessImage_write ?im' p v)"
    using resolve_cong [OF shape] accepted_cong [OF shape(2)] by simp_all
  then obtain im2 where w: "ProcessImage_write ?im' p v = (True, im2)" by (metis prod.collapse)
  have "resolve im2 a = Inr p"
    using ok(1) resolve_cong [of im2 ?im'] write_keeps_layout [of ?im' p v] write_keeps_length [of ?im' p v] by (simp add: w)
  moreover have "ProcessImage_read im2 p = Some (image_value v)" by (rule read_written [OF w resolve_bit [OF ok(1)]])
  ultimately show ?thesis
    using p(1) ok(1) w by (cases "da_location a") (auto simp: write_address_def read_address_def)
qed

lemma write_address_shape: "write_address m a v = Inr (ok, m') \<Longrightarrow> same_shape m m'"
  by (erule write_address_cases) (simp_all add: same_shape_def all_locations)

lemma put_back_append: "put_back (avs @ [(a, v)]) m = (case write_address (put_back avs m) a v of Inl _ \<Rightarrow> put_back avs m | Inr (_, m') \<Rightarrow> m')"
  unfolding put_back_def by simp

lemma put_back_frame:
  "same_shape m (put_back avs m) \<and> mem_slots (put_back avs m) = mem_slots m \<and> mem_forces (put_back avs m) = mem_forces m \<and>
   mem_physical_inputs (put_back avs m) = mem_physical_inputs m \<and> mem_input_image (put_back avs m) = mem_input_image m \<and>
   mem_physical_outputs (put_back avs m) = mem_physical_outputs m \<and> mem_initial (put_back avs m) = mem_initial m \<and>
   mem_image_initial (put_back avs m) = mem_image_initial m"
proof (induction avs rule: rev_induct)
  case (snoc av avs)
  obtain a v where av: "av = (a, v)" by force
  show ?case
  proof (cases "write_address (put_back avs m) a v")
    case (Inr r)
    obtain ok m' where r: "r = (ok, m')" by force
    note w = Inr [unfolded r]
    from w have "mem_slots m' = mem_slots (put_back avs m)" "mem_forces m' = mem_forces (put_back avs m)"
      "mem_physical_inputs m' = mem_physical_inputs (put_back avs m)" "mem_input_image m' = mem_input_image (put_back avs m)"
      "mem_physical_outputs m' = mem_physical_outputs (put_back avs m)" "mem_initial m' = mem_initial (put_back avs m)"
      "mem_image_initial m' = mem_image_initial (put_back avs m)"
      by (cases rule: write_address_cases; simp)+
    with snoc w write_address_shape [OF w] show ?thesis by (auto simp: av put_back_append elim: same_shape_trans)
  qed (use snoc in \<open>simp add: av put_back_append\<close>)
qed (simp add: put_back_def same_shape_def)

text \<open>The bits of an area that a list of located values covers.\<close>

definition covered :: "Memory \<Rightarrow> (DirectAddress \<times> Value) list \<Rightarrow> AddressLocation \<Rightarrow> nat \<Rightarrow> bool" where
  "covered m avs l n \<longleftrightarrow> (\<exists>a \<in> fst ` set avs. da_location a = l \<and>
     (case resolve (area_for m l) a of Inr p \<Rightarrow> n \<in> footprint p | Inl _ \<Rightarrow> False))"

lemma covered_shape: "same_shape m m' \<Longrightarrow> covered m avs l n = covered m' avs l n"
  unfolding covered_def same_shape_def by (metis resolve_cong)

lemma write_address_bits:
  assumes "write_address m a v = Inr (ok, m')" "\<not> covered m [(a, v)] l n"
  shows "image_bit (area_for m' l) n = image_bit (area_for m l) n"
proof -
  have written: "image_bit (snd (ProcessImage_write im p v)) n = image_bit im n" if "resolve im a = Inr p" "n \<notin> footprint p" for im p
    using write_frame [of im p v, OF _ that(2) resolve_bit [OF that(1)]] write_refused [of im p v]
    by (cases "ProcessImage_write im p v") auto
  show ?thesis using assms
    by (cases "da_location a"; cases l)
      (auto simp: write_address_def covered_def case_prod_unfold Let_def written)
qed

lemma put_back_bits: "\<not> covered m avs l n \<Longrightarrow> image_bit (area_for (put_back avs m) l) n = image_bit (area_for m l) n"
proof (induction avs rule: rev_induct)
  case (snoc av avs)
  obtain a v where av: "av = (a, v)" by force
  have rest: "\<not> covered m avs l n" "\<not> covered m [(a, v)] l n" using snoc.prems by (auto simp: covered_def av)
  then have "\<not> covered (put_back avs m) [(a, v)] l n"
    using covered_shape [of m "put_back avs m"] put_back_frame [of m avs] by simp
  with snoc.IH rest(1) show ?case
    using write_address_bits [of "put_back avs m" a v _ _ l n] by (auto simp: put_back_append av split: sum.splits)
qed (simp add: put_back_def)

lemma put_back_split: "put_back (avs @ bvs) m = put_back bvs (put_back avs m)"
  by (simp add: put_back_def)

lemma put_back_read:
  assumes "write_address m a v = Inr (True, m1)" "same_shape m m0" "resolve (area_for m (da_location a)) a = Inr p"
    and "\<forall>n \<in> footprint p. \<not> covered m bvs (da_location a) n"
  shows "read_address (put_back (avs @ (a, v) # bvs) m0) a = Inr (Some (image_value v))"
proof -
  let ?l = "da_location a"
  have shape: "same_shape m (put_back avs m0)" using assms(2) put_back_frame [of m0 avs] by (blast intro: same_shape_trans)
  from write_address_accepted [OF assms(1) shape] obtain m2
    where m2: "write_address (put_back avs m0) a v = Inr (True, m2)" "read_address m2 a = Inr (Some (image_value v))" by blast
  let ?m3 = "put_back bvs m2"
  have "put_back (avs @ (a, v) # bvs) m0 = ?m3" using m2(1) by (simp add: put_back_split) (simp add: put_back_def)
  moreover have s2: "same_shape m m2" "same_shape m2 ?m3"
    using shape write_address_shape [OF m2(1)] put_back_frame [of m2 bvs] by (blast intro: same_shape_trans)+
  then have p: "resolve (area_for m2 ?l) a = Inr p" "resolve (area_for ?m3 ?l) a = Inr p"
    using assms(3) resolve_cong unfolding same_shape_def by metis+
  have "ProcessImage_read (area_for ?m3 ?l) p = ProcessImage_read (area_for m2 ?l) p"
    using s2 assms(4) covered_shape [OF s2(1)] put_back_bits [of m2 bvs ?l]
    by (intro read_depends resolve_bit [OF p(1)]) (auto simp: same_shape_def)
  ultimately show ?thesis using m2(2) p by (simp add: read_address_def)
qed

text \<open>
  Claim C33.  A restart, slot by slot and bit by bit.  A persistent slot has the value the program left
  under any force; a retained one that value after a warm restart and its initial value after a cold
  one; every other slot its initial value.  No force survives; the physical inputs are untouched, the
  input snapshot and the physical outputs are zero.  Outside the located initial values every bit
  of the output image is zero, and every bit of the markers is what it was after a warm restart and
  zero after a cold one.  A located initial value is what its address reads afterwards, if no later
  one overlaps it, after a warm restart as after a cold one: a marker with an initialiser loses the
  value it retained.  The initial values stay declared for the next restart.
\<close>
theorem restart_behaviour:
  assumes "mem_inv m"
  shows "let m' = restart kind m in
    (\<forall>i < length (mem_slots m). read_slot m' i =
       Some (case (mem_persistence m ! i, kind) of
           (Persistent, _) \<Rightarrow> mem_slots m ! i
         | (Retain, Warm) \<Rightarrow> mem_slots m ! i
         | (Retain, Cold) \<Rightarrow> mem_initial m ! i
         | (Volatile, _) \<Rightarrow> mem_initial m ! i)) \<and>
    forces m' = [] \<and> mem_physical_inputs m' = mem_physical_inputs m \<and>
    pi_bytes (mem_input_image m') = replicate (length (pi_bytes (mem_input_image m))) 0 \<and>
    pi_bytes (mem_physical_outputs m') = replicate (length (pi_bytes (mem_physical_outputs m))) 0 \<and>
    (\<forall>n < 8 * length (pi_bytes (mem_output_image m)). \<not> covered m (mem_image_initial m) Output n \<longrightarrow>
       \<not> image_bit (mem_output_image m') n) \<and>
    (\<forall>n < 8 * length (pi_bytes (mem_markers m)). \<not> covered m (mem_image_initial m) Memory_location n \<longrightarrow>
       image_bit (mem_markers m') n = (case kind of Warm \<Rightarrow> image_bit (mem_markers m) n | Cold \<Rightarrow> False)) \<and>
    (\<forall>avs a v bvs m1 p. mem_image_initial m = avs @ (a, v) # bvs \<and> write_address m a v = Inr (True, m1) \<and>
       resolve (area_for m (da_location a)) a = Inr p \<and> (\<forall>n \<in> footprint p. \<not> covered m bvs (da_location a) n) \<longrightarrow>
       read_address m' a = Inr (Some (image_value v))) \<and>
    mem_initial m' = mem_initial m \<and> mem_image_initial m' = mem_image_initial m"
proof -
  define m0 where "m0 = m\<lparr>mem_slots := restart_slots kind m,
          mem_input_image := ProcessImage_clear (mem_input_image m),
          mem_output_image := ProcessImage_clear (mem_output_image m),
          mem_physical_outputs := ProcessImage_clear (mem_physical_outputs m),
          mem_markers := (if kind = Cold then ProcessImage_clear (mem_markers m) else mem_markers m),
          mem_forces := []\<rparr>"
  have r: "restart kind m = put_back (mem_image_initial m) m0" by (simp add: restart_def m0_def)
  note f = put_back_frame [of m0 "mem_image_initial m"]
  have shape: "same_shape m m0"
    by (simp add: same_shape_def all_locations m0_def ProcessImage_clear_def)
  have slot: "read_slot (restart kind m) i = Some (case (mem_persistence m ! i, kind) of
        (Persistent, _) \<Rightarrow> mem_slots m ! i | (Retain, Warm) \<Rightarrow> mem_slots m ! i
      | (Retain, Cold) \<Rightarrow> mem_initial m ! i | (Volatile, _) \<Rightarrow> mem_initial m ! i)" if "i < length (mem_slots m)" for i
    using that f assms unfolding r
    by (cases "mem_persistence m ! i"; cases kind)
      (auto simp: read_slot_def m0_def restart_slots_def persistence_at_def mem_inv_def get_def keeps_def)
  have zero: "\<not> image_bit (ProcessImage_clear im) n" if "n < 8 * length (pi_bytes im)" for im n
    using that by (simp add: image_bit_def ProcessImage_clear_def less_mult_imp_div_less mult.commute)
  have bits: "image_bit (area_for (restart kind m) l) n = image_bit (area_for m0 l) n"
    if "\<not> covered m (mem_image_initial m) l n" for l n
    using that put_back_bits [of m0 "mem_image_initial m" l n] covered_shape [OF shape] unfolding r by simp
  have "\<not> image_bit (mem_output_image (restart kind m)) n"
    if "n < 8 * length (pi_bytes (mem_output_image m))" "\<not> covered m (mem_image_initial m) Output n" for n
    using bits [OF that(2)] zero [OF that(1)] by (simp add: m0_def)
  moreover have "image_bit (mem_markers (restart kind m)) n = (case kind of Warm \<Rightarrow> image_bit (mem_markers m) n | Cold \<Rightarrow> False)"
    if "n < 8 * length (pi_bytes (mem_markers m))" "\<not> covered m (mem_image_initial m) Memory_location n" for n
    using bits [OF that(2)] zero [OF that(1)] by (cases kind) (simp_all add: m0_def)
  moreover have "read_address (restart kind m) a = Inr (Some (image_value v))"
    if "mem_image_initial m = avs @ (a, v) # bvs" "write_address m a v = Inr (True, m1)"
      "resolve (area_for m (da_location a)) a = Inr p" "\<forall>n \<in> footprint p. \<not> covered m bvs (da_location a) n" for avs a v bvs m1 p
    unfolding r that(1) by (rule put_back_read [OF that(2) shape that(3,4)])
  moreover have "forces (restart kind m) = []" "mem_physical_inputs (restart kind m) = mem_physical_inputs m"
    "pi_bytes (mem_input_image (restart kind m)) = replicate (length (pi_bytes (mem_input_image m))) 0"
    "pi_bytes (mem_physical_outputs (restart kind m)) = replicate (length (pi_bytes (mem_physical_outputs m))) 0"
    "mem_initial (restart kind m) = mem_initial m" "mem_image_initial (restart kind m) = mem_image_initial m"
    using f unfolding r by (simp_all add: forces_def m0_def ProcessImage_clear_def)
  ultimately show ?thesis using slot unfolding Let_def by blast
qed

text \<open>
  Three slots, one of each persistence, and two marker bytes, the first with an initial value and the
  second without, the program having changed all of them.
\<close>

definition plant :: Memory where
  "plant = \<lparr>mem_slots = [V_Int 1, V_Int 2, V_Int 3], mem_initial = [V_Int 0, V_Int 0, V_Int 0],
     mem_persistence = [Volatile, Retain, Persistent],
     mem_physical_inputs = \<lparr>pi_bytes = [9, 9], pi_layout = \<lparr>il_granularity = ElementIndex, il_byte_order = LittleEndian\<rparr>\<rparr>,
     mem_input_image = \<lparr>pi_bytes = [9, 9], pi_layout = \<lparr>il_granularity = ElementIndex, il_byte_order = LittleEndian\<rparr>\<rparr>,
     mem_output_image = \<lparr>pi_bytes = [5, 6], pi_layout = \<lparr>il_granularity = ElementIndex, il_byte_order = LittleEndian\<rparr>\<rparr>,
     mem_physical_outputs = \<lparr>pi_bytes = [5, 6], pi_layout = \<lparr>il_granularity = ElementIndex, il_byte_order = LittleEndian\<rparr>\<rparr>,
     mem_markers = \<lparr>pi_bytes = [3, 1], pi_layout = \<lparr>il_granularity = ElementIndex, il_byte_order = LittleEndian\<rparr>\<rparr>,
     mem_forces = [],
     mem_image_initial = [(\<lparr>da_location = Memory_location, da_size = ByteSize, da_size_letter_written = True, da_path = Some [0]\<rparr>, V_Byte 7)]\<rparr>"

theorem restart_behaviour_witness:
  "let a = \<lparr>da_location = Memory_location, da_size = ByteSize, da_size_letter_written = True, da_path = Some [0]\<rparr>;
       w = restart Warm plant; c = restart Cold plant
   in map (read_slot w) [0, 1, 2] = [Some (V_Int 0), Some (V_Int 2), Some (V_Int 3)] \<and>
      map (read_slot c) [0, 1, 2] = [Some (V_Int 0), Some (V_Int 0), Some (V_Int 3)] \<and>
      image_bit (mem_markers w) 8 \<and> \<not> image_bit (mem_markers c) 8 \<and> \<not> image_bit (mem_output_image w) 0 \<and>
      read_address w a = Inr (Some (V_Byte 7)) \<and> read_address c a = Inr (Some (V_Byte 7))"
proof -
  define a where "a = \<lparr>da_location = Memory_location, da_size = ByteSize, da_size_letter_written = True, da_path = Some [0]\<rparr>"
  have inv: "mem_inv plant" by (simp add: mem_inv_def plant_def)
  have at: "resolve (area_for plant Memory_location) a = Inr \<lparr>ip_byte = 0, ip_bit = 0, ip_size = ByteSize\<rparr>"
    by (simp add: plant_def a_def resolve_def Let_def)
  then have w: "\<exists>m1. write_address plant a (V_Byte 7) = Inr (True, m1)"
    by (simp add: write_address_def a_def ProcessImage_write_def update_byte_def get_def) (simp add: plant_def)
  have at': "resolve (area_for plant (da_location a)) a = Inr \<lparr>ip_byte = 0, ip_bit = 0, ip_size = ByteSize\<rparr>"
    using at by (simp add: a_def)
  have last: "\<forall>n \<in> footprint \<lparr>ip_byte = 0, ip_bit = 0, ip_size = ByteSize\<rparr>. \<not> covered plant [] (da_location a) n"
    by (simp add: covered_def)
  have init: "mem_image_initial plant = [] @ (a, V_Byte 7) # []" by (simp add: plant_def a_def)
  have free: "\<not> covered plant (mem_image_initial plant) Output 0" "\<not> covered plant (mem_image_initial plant) Memory_location 8"
    unfolding init using at by (simp_all add: covered_def a_def footprint_def)
  have sizes: "8 < 8 * length (pi_bytes (mem_markers plant))" "0 < 8 * length (pi_bytes (mem_output_image plant))"
    "image_bit (mem_markers plant) 8"
    by (simp_all add: plant_def image_bit_def)
  have slots: "0 < length (mem_slots plant)" "1 < length (mem_slots plant)" "2 < length (mem_slots plant)"
    "mem_persistence plant ! 0 = Volatile" "mem_persistence plant ! 1 = Retain" "mem_persistence plant ! 2 = Persistent"
    "mem_slots plant ! 1 = V_Int 2" "mem_slots plant ! 2 = V_Int 3" "mem_initial plant ! 0 = V_Int 0" "mem_initial plant ! 1 = V_Int 0"
    by (simp_all add: plant_def)
  note rb = restart_behaviour [OF inv, unfolded Let_def]
  have "read_slot (restart kind plant) 0 = Some (V_Int 0)"
    "read_slot (restart kind plant) 1 = Some (case kind of Warm \<Rightarrow> V_Int 2 | Cold \<Rightarrow> V_Int 0)"
    "read_slot (restart kind plant) 2 = Some (V_Int 3)" for kind
    using rb [of kind, THEN conjunct1, rule_format] slots by (simp_all split: Restart.splits)
  moreover have "image_bit (mem_markers (restart kind plant)) 8 = (case kind of Warm \<Rightarrow> True | Cold \<Rightarrow> False)" for kind
    using rb [of kind] free(2) sizes by (cases kind) auto
  moreover have "\<not> image_bit (mem_output_image (restart kind plant)) 0" for kind
    using rb [of kind] free(1) sizes by blast
  moreover have "read_address (restart kind plant) a = Inr (Some (V_Byte 7))" for kind
    using rb [of kind] w init at' last by force
  ultimately show ?thesis by (simp add: Let_def a_def)
qed

end
