(* ===== verification/Error_State.thy ===== *)
theory Error_State
  imports Main
begin

text \<open>
  Computations that thread a state and may fail: a \<open>Result\<close> beside the state the computation leaves,
  whether it failed or not.  This is how a Rust method behaves that takes \<open>&mut self\<close>, returns a
  \<open>Result\<close> and propagates errors with \<open>?\<close>: what was changed before the error stays changed.
\<close>

type_synonym ('s, 'e, 'a) es = "'s \<Rightarrow> ('e + 'a) \<times> 's"

definition es_return :: "'a \<Rightarrow> ('s, 'e, 'a) es" where
  "es_return x s = (Inr x, s)"

definition es_fail :: "'e \<Rightarrow> ('s, 'e, 'a) es" where
  "es_fail e s = (Inl e, s)"

definition es_bind :: "('s, 'e, 'a) es \<Rightarrow> ('a \<Rightarrow> ('s, 'e, 'b) es) \<Rightarrow> ('s, 'e, 'b) es" where
  "es_bind f g s = (case f s of (Inl e, s) \<Rightarrow> (Inl e, s) | (Inr x, s) \<Rightarrow> g x s)"

text \<open>A result that does not touch the state, and one computed from it.\<close>

definition es_of :: "'e + 'a \<Rightarrow> ('s, 'e, 'a) es" where
  "es_of r s = (r, s)"

definition es_read :: "('s \<Rightarrow> 'e + 'a) \<Rightarrow> ('s, 'e, 'a) es" where
  "es_read f s = (f s, s)"

lemmas es_defs = es_return_def es_fail_def es_bind_def es_of_def es_read_def

lemma es_bind_eq: "f s = (Inr x, t) \<Longrightarrow> es_bind f g s = g x t"
  by (simp add: es_bind_def)

lemma es_bind_Inr: "es_bind f g s = (Inr y, s') \<longleftrightarrow> (\<exists>x s1. f s = (Inr x, s1) \<and> g x s1 = (Inr y, s'))"
  by (auto simp: es_bind_def split: prod.splits sum.splits)

text \<open>
  A relation between the state before and after, reflexive and transitive, that every step of a
  computation keeps: the contract the component proofs state once per operation.
\<close>

definition es_rel :: "('s \<Rightarrow> 's \<Rightarrow> bool) \<Rightarrow> ('s, 'e, 'a) es \<Rightarrow> bool" where
  "es_rel R f \<longleftrightarrow> (\<forall>s. R s (snd (f s)))"

locale state_relation =
  fixes R :: "'s \<Rightarrow> 's \<Rightarrow> bool"
  assumes R_refl: "R s s"
    and R_trans: "R s t \<Longrightarrow> R t u \<Longrightarrow> R s u"
begin

lemma rel_return: "es_rel R (es_return x)"
  by (simp add: es_rel_def es_return_def R_refl)

lemma rel_fail: "es_rel R (es_fail e)"
  by (simp add: es_rel_def es_fail_def R_refl)

lemma rel_of: "es_rel R (es_of r)"
  by (simp add: es_rel_def es_of_def R_refl)

lemma rel_read: "es_rel R (es_read f)"
  by (simp add: es_rel_def es_read_def R_refl)

lemma rel_bind: "es_rel R f \<Longrightarrow> (\<And>x. es_rel R (g x)) \<Longrightarrow> es_rel R (es_bind f g)"
  unfolding es_rel_def es_bind_def
proof (intro allI)
  fix s
  assume f: "\<forall>s. R s (snd (f s))" and g: "\<And>x. \<forall>s. R s (snd (g x s))"
  obtain r t where t: "f s = (r, t)" by force
  then have "R s t" using f by (metis snd_conv)
  with g t show "R s (snd (case f s of (Inl e, s) \<Rightarrow> (Inl e, s) | (Inr x, s) \<Rightarrow> g x s))"
    by (cases r) (auto intro: R_trans)
qed

lemma rel_if: "es_rel R f \<Longrightarrow> es_rel R g \<Longrightarrow> es_rel R (if b then f else g)"
  by simp

lemma rel_case_option: "es_rel R f \<Longrightarrow> (\<And>x. es_rel R (g x)) \<Longrightarrow> es_rel R (case opt of None \<Rightarrow> f | Some x \<Rightarrow> g x)"
  by (cases opt) simp_all

lemma rel_case_prod: "(\<And>x y. es_rel R (f x y)) \<Longrightarrow> es_rel R (case p of (x, y) \<Rightarrow> f x y)"
  by (cases p) simp

lemmas rel_intros = rel_return rel_fail rel_of rel_read rel_bind rel_if rel_case_option rel_case_prod

end

text \<open>A computation that cannot fail where an invariant holds, and keeps the invariant.\<close>

definition es_ok :: "('s \<Rightarrow> bool) \<Rightarrow> ('s, 'e, 'a) es \<Rightarrow> bool" where
  "es_ok I f \<longleftrightarrow> (\<forall>s. I s \<longrightarrow> (\<exists>x t. f s = (Inr x, t) \<and> I t))"

lemma ok_return: "es_ok I (es_return x)"
  by (simp add: es_ok_def es_return_def)

lemma ok_bind: "es_ok I f \<Longrightarrow> (\<And>x. es_ok I (g x)) \<Longrightarrow> es_ok I (es_bind f g)"
  by (fastforce simp: es_ok_def es_bind_def)

lemma ok_if: "(b \<Longrightarrow> es_ok I f) \<Longrightarrow> (\<not> b \<Longrightarrow> es_ok I g) \<Longrightarrow> es_ok I (if b then f else g)"
  by simp

lemma ok_case_prod: "(\<And>x y. es_ok I (f x y)) \<Longrightarrow> es_ok I (case p of (x, y) \<Rightarrow> f x y)"
  by (cases p) simp

lemmas ok_intros = ok_return ok_bind ok_if ok_case_prod

end
