(* ===== verification/Std_Blocks.thy ===== *)
theory Std_Blocks
  imports Image_Bits Ascii Error_State
begin

text \<open>
  The standard function blocks: their fields, from \<open>crates/salman-lang/src/stdlib.rs\<close>, the simulation
  clock, from \<open>crates/salman-vm/src/clock.rs\<close>, and their behaviour, from \<open>crates/salman-vm/src/stdfb.rs\<close>,
  as computations on the program memory.  The fault kinds of \<open>crates/salman-vm/src/exec.rs\<close> are declared
  here because the blocks report them.
\<close>

section \<open>Faults\<close>

datatype FaultKind =
    DivisionByZero
  | StackUnderflow
  | StackOverflow
  | TypeMismatch ElementaryType ElementaryType
  | SlotOutOfRange nat
  | ConstantOutOfRange nat
  | Address_fault string
  | SubrangeViolation string int int int
  | EnumViolation string int "int list"
  | ArrayIndexOutOfRange int int int
  | JumpOutOfRange nat
  | RoutineOutOfRange nat
  | CallDepthExceeded nat
  | InstructionBudgetExceeded nat
  | Unsupported string

section \<open>The clock\<close>

datatype ClockMode = Virtual | RealTime

record Clock =
  ck_mode :: ClockMode
  ck_elapsed_ns :: int
  ck_epoch :: int
  ck_max_advance_ns :: int
  ck_advances :: nat
  ck_total_advance_ns :: int

definition Clock_virtual_from :: "int \<Rightarrow> Clock" where
  "Clock_virtual_from epoch = \<lparr>ck_mode = Virtual, ck_elapsed_ns = 0, ck_epoch = epoch, ck_max_advance_ns = 0,
     ck_advances = 0, ck_total_advance_ns = 0\<rparr>"

definition Clock_virtual_default :: Clock where
  "Clock_virtual_default = Clock_virtual_from 0"

definition Clock_real_time_from :: "int \<Rightarrow> Clock" where
  "Clock_real_time_from epoch = (Clock_virtual_from epoch)\<lparr>ck_mode := RealTime\<rparr>"

definition is_deterministic :: "Clock \<Rightarrow> bool" where
  "is_deterministic c \<longleftrightarrow> ck_mode c = Virtual"

definition wall_clock :: "Clock \<Rightarrow> int" where
  "wall_clock c = saturate_i64 (ck_epoch c + ck_elapsed_ns c)"

definition saturating_u64 :: "nat \<Rightarrow> nat" where
  "saturating_u64 n = min (2 ^ 64 - 1) n"

definition saturating_i128 :: "int \<Rightarrow> int" where
  "saturating_i128 x = max (- (2 ^ 127)) (min (2 ^ 127 - 1) x)"

definition Clock_advance :: "Duration \<Rightarrow> Clock \<Rightarrow> Clock" where
  "Clock_advance delta c =
     (if delta \<le> 0 then c
      else c\<lparr>ck_elapsed_ns := saturate_i64 (ck_elapsed_ns c + delta),
             ck_max_advance_ns := (if delta > ck_max_advance_ns c then delta else ck_max_advance_ns c),
             ck_advances := saturating_u64 (ck_advances c + 1),
             ck_total_advance_ns := saturating_i128 (ck_total_advance_ns c + delta)\<rparr>)"

text \<open>\<open>elapsed_ns - self.elapsed_ns\<close> cannot overflow: the elapsed time is never negative.\<close>

definition Clock_advance_to_ns :: "int \<Rightarrow> Clock \<Rightarrow> Clock" where
  "Clock_advance_to_ns elapsed_ns c =
     (if elapsed_ns > ck_elapsed_ns c then Clock_advance (elapsed_ns - ck_elapsed_ns c) c else c)"

definition mean_advance :: "Clock \<Rightarrow> Duration" where
  "mean_advance c =
     (if ck_advances c = 0 then 0
      else case checked_i64 (tdiv (ck_total_advance_ns c) (int (ck_advances c))) of Some mean \<Rightarrow> mean | None \<Rightarrow> i64_MAX)"

section \<open>Blocks and their fields\<close>

datatype NativeBlock = Sr | Rs | RTrig | FTrig | Ctu | Ctd | Ctud | Tp | Ton | Tof | Sema

fun NativeBlock_name :: "NativeBlock \<Rightarrow> string" where
  "NativeBlock_name Sr = ''SR''"
| "NativeBlock_name Rs = ''RS''"
| "NativeBlock_name RTrig = ''R_TRIG''"
| "NativeBlock_name FTrig = ''F_TRIG''"
| "NativeBlock_name Ctu = ''CTU''"
| "NativeBlock_name Ctd = ''CTD''"
| "NativeBlock_name Ctud = ''CTUD''"
| "NativeBlock_name Tp = ''TP''"
| "NativeBlock_name Ton = ''TON''"
| "NativeBlock_name Tof = ''TOF''"
| "NativeBlock_name Sema = ''SEMA''"

definition is_iec_standard :: "NativeBlock \<Rightarrow> bool" where
  "is_iec_standard b \<longleftrightarrow> b \<noteq> Sema"

definition NativeBlock_all :: "NativeBlock list" where
  "NativeBlock_all = [Sr, Rs, RTrig, FTrig, Ctu, Ctd, Ctud, Tp, Ton, Tof, Sema]"

definition NativeBlock_lookup :: "string \<Rightarrow> NativeBlock option" where
  "NativeBlock_lookup name = find (\<lambda>b. eq_ignore_ascii_case (NativeBlock_name b) name) NativeBlock_all"

datatype FieldRole = Input_role | Output_role | Internal

record BlockField =
  bf_name :: string
  bf_ty :: ElementaryType
  bf_role :: FieldRole

definition field :: "string \<Rightarrow> ElementaryType \<Rightarrow> FieldRole \<Rightarrow> BlockField" where
  "field name ty role = \<lparr>bf_name = name, bf_ty = ty, bf_role = role\<rparr>"

definition SR_FIELDS :: "BlockField list" where
  "SR_FIELDS = [field ''S1'' E_Bool Input_role, field ''R'' E_Bool Input_role, field ''Q1'' E_Bool Output_role]"

definition RS_FIELDS :: "BlockField list" where
  "RS_FIELDS = [field ''S'' E_Bool Input_role, field ''R1'' E_Bool Input_role, field ''Q1'' E_Bool Output_role]"

definition TRIG_FIELDS :: "BlockField list" where
  "TRIG_FIELDS = [field ''CLK'' E_Bool Input_role, field ''Q'' E_Bool Output_role, field ''M'' E_Bool Internal]"

definition CTU_FIELDS :: "BlockField list" where
  "CTU_FIELDS = [field ''CU'' E_Bool Input_role, field ''R'' E_Bool Input_role, field ''PV'' E_Int Input_role,
     field ''Q'' E_Bool Output_role, field ''CV'' E_Int Output_role, field ''CU_M'' E_Bool Internal]"

definition CTD_FIELDS :: "BlockField list" where
  "CTD_FIELDS = [field ''CD'' E_Bool Input_role, field ''LD'' E_Bool Input_role, field ''PV'' E_Int Input_role,
     field ''Q'' E_Bool Output_role, field ''CV'' E_Int Output_role, field ''CD_M'' E_Bool Internal]"

definition CTUD_FIELDS :: "BlockField list" where
  "CTUD_FIELDS = [field ''CU'' E_Bool Input_role, field ''CD'' E_Bool Input_role, field ''R'' E_Bool Input_role,
     field ''LD'' E_Bool Input_role, field ''PV'' E_Int Input_role, field ''QU'' E_Bool Output_role,
     field ''QD'' E_Bool Output_role, field ''CV'' E_Int Output_role, field ''CU_M'' E_Bool Internal,
     field ''CD_M'' E_Bool Internal]"

definition TIMER_FIELDS :: "BlockField list" where
  "TIMER_FIELDS = [field ''IN'' E_Bool Input_role, field ''PT'' E_Time Input_role, field ''Q'' E_Bool Output_role,
     field ''ET'' E_Time Output_role, field ''PHASE'' E_Byte Internal, field ''START'' E_LTime Internal,
     field ''PREV_IN'' E_Bool Internal]"

definition SEMA_FIELDS :: "BlockField list" where
  "SEMA_FIELDS = [field ''CLAIM'' E_Bool Input_role, field ''RELEASE'' E_Bool Input_role,
     field ''BUSY'' E_Bool Output_role, field ''X'' E_Bool Internal]"

fun layout :: "NativeBlock \<Rightarrow> BlockField list" where
  "layout Sr = SR_FIELDS"
| "layout Rs = RS_FIELDS"
| "layout RTrig = TRIG_FIELDS"
| "layout FTrig = TRIG_FIELDS"
| "layout Ctu = CTU_FIELDS"
| "layout Ctd = CTD_FIELDS"
| "layout Ctud = CTUD_FIELDS"
| "layout Tp = TIMER_FIELDS"
| "layout Ton = TIMER_FIELDS"
| "layout Tof = TIMER_FIELDS"
| "layout Sema = SEMA_FIELDS"

definition slot_count :: "NativeBlock \<Rightarrow> nat" where
  "slot_count b = length (layout b)"

fun field_position :: "string \<Rightarrow> BlockField list \<Rightarrow> nat option" where
  "field_position name [] = None"
| "field_position name (f # fs) =
     (if eq_ignore_ascii_case (bf_name f) name then Some 0 else map_option Suc (field_position name fs))"

definition field_offset :: "NativeBlock \<Rightarrow> string \<Rightarrow> nat option" where
  "field_offset b name = field_position name (layout b)"

section \<open>One instance\<close>

text \<open>\<open>u32::saturating_add\<close>.\<close>

definition slot_add :: "nat \<Rightarrow> nat \<Rightarrow> nat" where
  "slot_add base off = min (2 ^ 32 - 1) (base + off)"

type_synonym 'a fb = "(Memory, FaultKind, 'a) es"

record Instance =
  in_block :: NativeBlock
  in_base :: nat

definition Instance_slot :: "Instance \<Rightarrow> string \<Rightarrow> FaultKind + nat" where
  "Instance_slot i name =
     (case field_offset (in_block i) name of
        None \<Rightarrow> Inl (Unsupported (''field '' @ name @ '' of '' @ NativeBlock_name (in_block i)))
      | Some off \<Rightarrow> Inr (slot_add (in_base i) off))"

definition Instance_read :: "Instance \<Rightarrow> string \<Rightarrow> Value fb" where
  "Instance_read i name = es_bind (es_of (Instance_slot i name)) (\<lambda>slot.
     es_read (\<lambda>m. ok_or (read_slot m slot) (SlotOutOfRange slot)))"

definition Instance_write :: "Instance \<Rightarrow> string \<Rightarrow> Value \<Rightarrow> unit fb" where
  "Instance_write i name value = es_bind (es_of (Instance_slot i name)) (\<lambda>slot m.
     case write_slot m slot value of (ok, m) \<Rightarrow> (if ok then Inr () else Inl (SlotOutOfRange slot), m))"

definition Instance_as :: "(Value \<Rightarrow> 'a option) \<Rightarrow> ElementaryType \<Rightarrow> Instance \<Rightarrow> string \<Rightarrow> 'a fb" where
  "Instance_as conv expected i name = es_bind (Instance_read i name) (\<lambda>value.
     es_of (ok_or (conv value) (TypeMismatch expected (type_of value))))"

definition Instance_bool :: "Instance \<Rightarrow> string \<Rightarrow> bool fb" where
  "Instance_bool = Instance_as as_bool E_Bool"

definition Instance_int :: "Instance \<Rightarrow> string \<Rightarrow> int fb" where
  "Instance_int = Instance_as as_i64 E_Int"

definition Instance_duration :: "Instance \<Rightarrow> string \<Rightarrow> Duration fb" where
  "Instance_duration = Instance_as as_duration E_Time"

definition Instance_byte :: "Instance \<Rightarrow> string \<Rightarrow> u8 fb" where
  "Instance_byte = Instance_as (\<lambda>v. case v of V_Byte b \<Rightarrow> Some b | _ \<Rightarrow> None) E_Byte"

definition Instance_set_bool :: "Instance \<Rightarrow> string \<Rightarrow> bool \<Rightarrow> unit fb" where
  "Instance_set_bool i name value = Instance_write i name (V_Bool value)"

section \<open>Bistables and edges\<close>

definition sr :: "Instance \<Rightarrow> unit fb" where
  "sr i = es_bind (Instance_bool i ''S1'') (\<lambda>set.
     es_bind (Instance_bool i ''R'') (\<lambda>reset.
     es_bind (Instance_bool i ''Q1'') (\<lambda>held.
     Instance_set_bool i ''Q1'' (set \<or> (\<not> reset \<and> held)))))"

definition rs :: "Instance \<Rightarrow> unit fb" where
  "rs i = es_bind (Instance_bool i ''S'') (\<lambda>set.
     es_bind (Instance_bool i ''R1'') (\<lambda>reset.
     es_bind (Instance_bool i ''Q1'') (\<lambda>held.
     Instance_set_bool i ''Q1'' (\<not> reset \<and> (set \<or> held)))))"

definition r_trig :: "Instance \<Rightarrow> unit fb" where
  "r_trig i = es_bind (Instance_bool i ''CLK'') (\<lambda>clk.
     es_bind (Instance_bool i ''M'') (\<lambda>memory.
     es_bind (Instance_set_bool i ''Q'' (clk \<and> \<not> memory)) (\<lambda>_.
     Instance_set_bool i ''M'' clk)))"

definition f_trig :: "Instance \<Rightarrow> unit fb" where
  "f_trig i = es_bind (Instance_bool i ''CLK'') (\<lambda>clk.
     es_bind (Instance_bool i ''M'') (\<lambda>memory.
     es_bind (Instance_set_bool i ''Q'' (\<not> clk \<and> \<not> memory)) (\<lambda>_.
     Instance_set_bool i ''M'' (\<not> clk))))"

section \<open>Counters\<close>

definition CV_MIN :: int where "CV_MIN = - 32768"
definition CV_MAX :: int where "CV_MAX = 32767"

definition rising :: "Instance \<Rightarrow> string \<Rightarrow> string \<Rightarrow> bool fb" where
  "rising i input memory = es_bind (Instance_bool i input) (\<lambda>now.
     es_bind (Instance_bool i memory) (\<lambda>before.
     es_bind (Instance_set_bool i memory now) (\<lambda>_.
     es_return (now \<and> \<not> before))))"

definition ctu :: "Instance \<Rightarrow> unit fb" where
  "ctu i = es_bind (rising i ''CU'' ''CU_M'') (\<lambda>count_edge.
     es_bind (Instance_bool i ''R'') (\<lambda>reset.
     es_bind (Instance_int i ''PV'') (\<lambda>preset.
     es_bind (Instance_int i ''CV'') (\<lambda>count.
     let count = (if reset then 0 else if count_edge \<and> count < CV_MAX then count + 1 else count) in
     es_bind (Instance_write i ''CV'' (V_Int (word_of_int count))) (\<lambda>_.
     Instance_set_bool i ''Q'' (count \<ge> preset))))))"

definition ctd :: "Instance \<Rightarrow> unit fb" where
  "ctd i = es_bind (rising i ''CD'' ''CD_M'') (\<lambda>count_edge.
     es_bind (Instance_bool i ''LD'') (\<lambda>load.
     es_bind (Instance_int i ''PV'') (\<lambda>preset.
     es_bind (Instance_int i ''CV'') (\<lambda>count.
     let count = (if load then preset else if count_edge \<and> count > CV_MIN then count - 1 else count) in
     es_bind (Instance_write i ''CV'' (V_Int (word_of_int count))) (\<lambda>_.
     Instance_set_bool i ''Q'' (count \<le> 0))))))"

definition ctud :: "Instance \<Rightarrow> unit fb" where
  "ctud i = es_bind (rising i ''CU'' ''CU_M'') (\<lambda>up_edge.
     es_bind (rising i ''CD'' ''CD_M'') (\<lambda>down_edge.
     es_bind (Instance_bool i ''R'') (\<lambda>reset.
     es_bind (Instance_bool i ''LD'') (\<lambda>load.
     es_bind (Instance_int i ''PV'') (\<lambda>preset.
     es_bind (Instance_int i ''CV'') (\<lambda>count.
     let count = (if reset then 0
                  else if load then preset
                  else if \<not> (up_edge \<and> down_edge) then
                    (if up_edge \<and> count < CV_MAX then count + 1
                     else if down_edge \<and> count > CV_MIN then count - 1 else count)
                  else count) in
     es_bind (Instance_write i ''CV'' (V_Int (word_of_int count))) (\<lambda>_.
     es_bind (Instance_set_bool i ''QU'' (count \<ge> preset)) (\<lambda>_.
     Instance_set_bool i ''QD'' (count \<le> 0)))))))))"

section \<open>Timers\<close>

definition IDLE :: u8 where "IDLE = 0"
definition TIMING :: u8 where "TIMING = 1"
definition COMPLETE :: u8 where "COMPLETE = 2"

datatype TimerKind = Pulse | OnDelay | OffDelay

text \<open>The closure \<open>restart\<close>: the start instant is stored, the phase and the elapsed time are reset.\<close>

definition timer_restart :: "Instance \<Rightarrow> Duration \<Rightarrow> (u8 \<times> Duration) fb" where
  "timer_restart i now = es_bind (Instance_write i ''START'' (V_LTime now)) (\<lambda>_. es_return (TIMING, 0))"

definition on_delay :: "Instance \<Rightarrow> bool \<Rightarrow> Duration \<Rightarrow> Duration \<Rightarrow> u8 \<Rightarrow> Duration \<Rightarrow> (u8 \<times> bool \<times> Duration) fb" where
  "on_delay i input preset now state since =
     (if input then
        es_bind (if state = IDLE then timer_restart i now else es_return (state, since)) (\<lambda>(state, since).
        es_return (if since \<ge> preset then (COMPLETE, True, preset) else (TIMING, False, since)))
      else es_return (IDLE, False, 0))"

definition off_delay :: "Instance \<Rightarrow> bool \<Rightarrow> bool \<Rightarrow> Duration \<Rightarrow> Duration \<Rightarrow> u8 \<Rightarrow> Duration \<Rightarrow> (u8 \<times> bool \<times> Duration) fb" where
  "off_delay i input falling_edge preset now state since =
     (if input then es_return (IDLE, True, 0)
      else
        es_bind (if falling_edge then timer_restart i now else es_return (state, since)) (\<lambda>(state, since).
        es_return (if state = IDLE then (state, False, 0)
                   else if since \<ge> preset then (COMPLETE, False, preset)
                   else (TIMING, True, since))))"

definition pulse :: "Instance \<Rightarrow> bool \<Rightarrow> bool \<Rightarrow> Duration \<Rightarrow> Duration \<Rightarrow> u8 \<Rightarrow> Duration \<Rightarrow> (u8 \<times> bool \<times> Duration) fb" where
  "pulse i input rising_edge preset now state since =
     (let state = (if state = TIMING \<and> since \<ge> preset then COMPLETE else state);
          state = (if state = COMPLETE \<and> since < preset then TIMING else state);
          state = (if state = COMPLETE \<and> \<not> input then IDLE else state)
      in es_bind (if state \<noteq> TIMING \<and> rising_edge then timer_restart i now else es_return (state, since)) (\<lambda>(state, since).
         es_return (if state = TIMING then (state, True, if since < preset then since else preset)
                    else if state = COMPLETE then (state, False, preset)
                    else (state, False, 0))))"

definition timer :: "Instance \<Rightarrow> TimerKind \<Rightarrow> Clock \<Rightarrow> unit fb" where
  "timer i kind clock =
     es_bind (Instance_bool i ''IN'') (\<lambda>input.
     es_bind (Instance_duration i ''PT'') (\<lambda>preset.
     es_bind (Instance_bool i ''PREV_IN'') (\<lambda>previous_input.
     es_bind (Instance_byte i ''PHASE'') (\<lambda>state.
     let now = ck_elapsed_ns clock in
     if Duration_is_negative preset then
       es_fail (Unsupported (''a negative preset time ('' @ Duration_to_iec_literal preset @ '') on a '' @
         NativeBlock_name (in_block i) @ '' instance; salman refuses it rather than producing an implementer-specific result''))
     else
       let rising_edge = (input \<and> \<not> previous_input); falling_edge = (\<not> input \<and> previous_input) in
       es_bind (if state = IDLE then es_return 0
                else es_bind (Instance_duration i ''START'') (\<lambda>start.
                  es_return (case Duration_checked_sub now start of Some d \<Rightarrow> d | None \<Rightarrow> 0))) (\<lambda>since.
       es_bind (case kind of
                  OnDelay \<Rightarrow> on_delay i input preset now state since
                | OffDelay \<Rightarrow> off_delay i input falling_edge preset now state since
                | Pulse \<Rightarrow> pulse i input rising_edge preset now state since) (\<lambda>(state, out, elapsed).
       es_bind (Instance_write i ''PHASE'' (V_Byte state)) (\<lambda>_.
       es_bind (Instance_set_bool i ''PREV_IN'' input) (\<lambda>_.
       es_bind (Instance_set_bool i ''Q'' out) (\<lambda>_.
       Instance_write i ''ET'' (V_Time elapsed))))))))))"

section \<open>The semaphore, and the dispatch\<close>

definition sema :: "Instance \<Rightarrow> unit fb" where
  "sema i = es_bind (Instance_bool i ''CLAIM'') (\<lambda>claim.
     es_bind (Instance_bool i ''RELEASE'') (\<lambda>released.
     es_bind (Instance_bool i ''X'') (\<lambda>held.
     let (busy, state) = (if claim then (held, True) else if released then (False, False) else (held, held)) in
     es_bind (Instance_set_bool i ''BUSY'' busy) (\<lambda>_.
     Instance_set_bool i ''X'' state))))"

definition fb_step :: "NativeBlock \<Rightarrow> nat \<Rightarrow> Clock \<Rightarrow> unit fb" where
  "fb_step block base clock =
     (let i = \<lparr>in_block = block, in_base = base\<rparr> in
      case block of
        Sr \<Rightarrow> sr i
      | Rs \<Rightarrow> rs i
      | RTrig \<Rightarrow> r_trig i
      | FTrig \<Rightarrow> f_trig i
      | Ctu \<Rightarrow> ctu i
      | Ctd \<Rightarrow> ctd i
      | Ctud \<Rightarrow> ctud i
      | Tp \<Rightarrow> timer i Pulse clock
      | Ton \<Rightarrow> timer i OnDelay clock
      | Tof \<Rightarrow> timer i OffDelay clock
      | Sema \<Rightarrow> sema i)"

end
