(* ===== verification/Block_Steps.thy ===== *)
theory Block_Steps
  imports Std_Blocks
begin

text \<open>
  What one invocation of a standard function block can do: it only makes program writes, it keeps the
  types of its fields, it touches no other slot, and nothing but a negative preset makes it fault.
\<close>

section \<open>Offsets\<close>

lemmas layout_defs = SR_FIELDS_def RS_FIELDS_def TRIG_FIELDS_def CTU_FIELDS_def CTD_FIELDS_def CTUD_FIELDS_def
  TIMER_FIELDS_def SEMA_FIELDS_def field_def

lemmas offset_simps = field_offset_def layout_defs eq_ignore_ascii_case_upper is_ascii_lowercase_def code_def

lemma bistable_offsets [simp]:
  "field_offset Sr ''S1'' = Some 0" "field_offset Sr ''R'' = Some 1" "field_offset Sr ''Q1'' = Some 2"
  "field_offset Rs ''S'' = Some 0" "field_offset Rs ''R1'' = Some 1" "field_offset Rs ''Q1'' = Some 2"
  "field_offset Sema ''CLAIM'' = Some 0" "field_offset Sema ''RELEASE'' = Some 1" "field_offset Sema ''BUSY'' = Some 2"
  "field_offset Sema ''X'' = Some 3"
  by (simp_all add: offset_simps)

lemma trigger_offsets [simp]:
  "b = RTrig \<or> b = FTrig \<Longrightarrow> field_offset b ''CLK'' = Some 0"
  "b = RTrig \<or> b = FTrig \<Longrightarrow> field_offset b ''Q'' = Some 1"
  "b = RTrig \<or> b = FTrig \<Longrightarrow> field_offset b ''M'' = Some 2"
  by (elim disjE; simp add: offset_simps)+

lemma counter_offsets [simp]:
  "field_offset Ctu ''CU'' = Some 0" "field_offset Ctu ''R'' = Some 1" "field_offset Ctu ''PV'' = Some 2"
  "field_offset Ctu ''Q'' = Some 3" "field_offset Ctu ''CV'' = Some 4" "field_offset Ctu ''CU_M'' = Some 5"
  "field_offset Ctd ''CD'' = Some 0" "field_offset Ctd ''LD'' = Some 1" "field_offset Ctd ''PV'' = Some 2"
  "field_offset Ctd ''Q'' = Some 3" "field_offset Ctd ''CV'' = Some 4" "field_offset Ctd ''CD_M'' = Some 5"
  "field_offset Ctud ''CU'' = Some 0" "field_offset Ctud ''CD'' = Some 1" "field_offset Ctud ''R'' = Some 2"
  "field_offset Ctud ''LD'' = Some 3" "field_offset Ctud ''PV'' = Some 4" "field_offset Ctud ''QU'' = Some 5"
  "field_offset Ctud ''QD'' = Some 6" "field_offset Ctud ''CV'' = Some 7" "field_offset Ctud ''CU_M'' = Some 8"
  "field_offset Ctud ''CD_M'' = Some 9"
  by (simp_all add: offset_simps)

definition is_timer :: "NativeBlock \<Rightarrow> bool" where
  "is_timer b \<longleftrightarrow> b = Tp \<or> b = Ton \<or> b = Tof"

lemma timer_layout: "is_timer b \<Longrightarrow> layout b = TIMER_FIELDS"
  by (auto simp: is_timer_def)

lemma timer_positions:
  "field_position ''IN'' TIMER_FIELDS = Some 0" "field_position ''PT'' TIMER_FIELDS = Some 1"
  "field_position ''Q'' TIMER_FIELDS = Some 2" "field_position ''ET'' TIMER_FIELDS = Some 3"
  "field_position ''PHASE'' TIMER_FIELDS = Some 4" "field_position ''START'' TIMER_FIELDS = Some 5"
  "field_position ''PREV_IN'' TIMER_FIELDS = Some 6"
  by (simp_all add: offset_simps)

lemma timer_offsets [simp]:
  assumes "is_timer b"
  shows "field_offset b ''IN'' = Some 0" "field_offset b ''PT'' = Some 1" "field_offset b ''Q'' = Some 2"
    "field_offset b ''ET'' = Some 3" "field_offset b ''PHASE'' = Some 4" "field_offset b ''START'' = Some 5"
    "field_offset b ''PREV_IN'' = Some 6"
  by (simp_all add: field_offset_def timer_layout [OF assms] timer_positions)

section \<open>Only program writes\<close>

interpretation writes: state_relation "program_write\<^sup>*\<^sup>*"
  by unfold_locales auto

lemma Instance_read_writes: "es_rel program_write\<^sup>*\<^sup>* (Instance_read i name)"
  unfolding Instance_read_def by (intro writes.rel_intros)

lemma Instance_write_writes: "es_rel program_write\<^sup>*\<^sup>* (Instance_write i name v)"
proof -
  have "es_rel program_write\<^sup>*\<^sup>* (\<lambda>m. case write_slot m slot v of (ok, m) \<Rightarrow> (if ok then Inr () else Inl (SlotOutOfRange slot), m))" for slot
    by (auto simp: es_rel_def case_prod_unfold intro: program_write.write_to_slot)
  then show ?thesis unfolding Instance_write_def by (intro writes.rel_bind writes.rel_of)
qed

lemma Instance_as_writes: "es_rel program_write\<^sup>*\<^sup>* (Instance_as conv ty i name)"
  unfolding Instance_as_def by (intro writes.rel_intros Instance_read_writes)

lemmas access_writes = Instance_as_writes Instance_write_writes

lemma fb_step_writes: "es_rel program_write\<^sup>*\<^sup>* (fb_step block base clock)"
proof -
  note defs = Instance_bool_def Instance_int_def Instance_duration_def Instance_byte_def Instance_set_bool_def
  note intros = writes.rel_intros access_writes
  have counts: "es_rel program_write\<^sup>*\<^sup>* (rising i a b)" "es_rel program_write\<^sup>*\<^sup>* (timer_restart i now)" for i a b now
    unfolding rising_def timer_restart_def defs by (intro intros)+
  have "es_rel program_write\<^sup>*\<^sup>* (sr i)" "es_rel program_write\<^sup>*\<^sup>* (rs i)" "es_rel program_write\<^sup>*\<^sup>* (r_trig i)"
    "es_rel program_write\<^sup>*\<^sup>* (f_trig i)" "es_rel program_write\<^sup>*\<^sup>* (sema i)" "es_rel program_write\<^sup>*\<^sup>* (ctu i)"
    "es_rel program_write\<^sup>*\<^sup>* (ctd i)" "es_rel program_write\<^sup>*\<^sup>* (ctud i)" for i
    unfolding sr_def rs_def r_trig_def f_trig_def sema_def ctu_def ctd_def ctud_def Let_def defs
    by (intro intros counts)+
  moreover have delays: "es_rel program_write\<^sup>*\<^sup>* (on_delay i b p now st d)" "es_rel program_write\<^sup>*\<^sup>* (off_delay i b e p now st d)"
    "es_rel program_write\<^sup>*\<^sup>* (pulse i b e p now st d)" for i b e p now st d
    unfolding on_delay_def off_delay_def pulse_def Let_def by (intro intros counts)+
  have "es_rel program_write\<^sup>*\<^sup>* (timer i kind clock)" for i kind
    unfolding timer_def Let_def defs by (cases kind; simp only: TimerKind.case; intro intros delays)
  ultimately show ?thesis unfolding fb_step_def Let_def by (cases block) simp_all
qed

section \<open>Types\<close>

text \<open>An instance: its slots exist and read as values of the declared types, whether forced or not.\<close>

definition instance_typed :: "NativeBlock \<Rightarrow> nat \<Rightarrow> Memory \<Rightarrow> bool" where
  "instance_typed block base m \<longleftrightarrow> mem_inv m \<and> base + slot_count block < 2 ^ 32 \<and>
     (\<forall>k < slot_count block. \<exists>v. read_slot m (base + k) = Some v \<and> type_of v = bf_ty (layout block ! k))"

definition outside :: "NativeBlock \<Rightarrow> nat \<Rightarrow> Memory \<Rightarrow> Memory \<Rightarrow> bool" where
  "outside block base m0 m \<longleftrightarrow> (\<forall>s. s < base \<or> base + slot_count block \<le> s \<longrightarrow> read_slot m s = read_slot m0 s)"

definition instance_in :: "NativeBlock \<Rightarrow> nat \<Rightarrow> Memory \<Rightarrow> Memory \<Rightarrow> bool" where
  "instance_in block base m0 m \<longleftrightarrow> instance_typed block base m \<and> outside block base m0 m"

lemma field_position_bound: "field_position name fs = Some k \<Longrightarrow> k < length fs"
  by (induction fs arbitrary: k) (auto split: if_splits)

lemma field_offset_bound: "field_offset b name = Some k \<Longrightarrow> k < slot_count b"
  by (simp add: field_offset_def slot_count_def field_position_bound)

lemma Instance_slot_eq:
  assumes "instance_typed b base m" "field_offset b name = Some k"
  shows "Instance_slot \<lparr>in_block = b, in_base = base\<rparr> name = Inr (base + k)"
  using assms field_offset_bound [OF assms(2)] by (simp add: Instance_slot_def slot_add_def instance_typed_def)

lemma Instance_as_ok:
  assumes "field_offset b name = Some k" "\<And>v. type_of v = bf_ty (layout b ! k) \<Longrightarrow> conv v \<noteq> None"
  shows "es_ok (instance_in b base m0) (Instance_as conv ty \<lparr>in_block = b, in_base = base\<rparr> name)"
  unfolding es_ok_def
proof (intro allI impI)
  fix m assume m: "instance_in b base m0 m"
  then have t: "instance_typed b base m" by (simp add: instance_in_def)
  then obtain v where v: "read_slot m (base + k) = Some v" "type_of v = bf_ty (layout b ! k)"
    using field_offset_bound [OF assms(1)] by (auto simp: instance_typed_def)
  with assms(2) obtain x where "conv v = Some x" by blast
  with v m Instance_slot_eq [OF t assms(1)]
  show "\<exists>x m'. Instance_as conv ty \<lparr>in_block = b, in_base = base\<rparr> name m = (Inr x, m') \<and> instance_in b base m0 m'"
    by (simp add: Instance_as_def Instance_read_def es_defs)
qed

lemma write_slot_in:
  assumes "instance_in b base m0 m" "k < slot_count b" "type_of v = bf_ty (layout b ! k)"
  shows "fst (write_slot m (base + k) v) \<and> instance_in b base m0 (snd (write_slot m (base + k) v))"
proof -
  have inv: "mem_inv m" and ex: "read_slot m (base + k) \<noteq> None"
    using assms(1,2) by (auto simp: instance_in_def instance_typed_def)
  have "\<exists>w. read_slot (snd (write_slot m (base + k) v)) (base + j) = Some w \<and> type_of w = bf_ty (layout b ! j)" if "j < slot_count b" for j
    using assms(1,3) that ex by (auto simp: slots.rd_wr [OF inv] instance_in_def instance_typed_def)
  moreover have "outside b base m0 (snd (write_slot m (base + k) v))"
    using assms(1,2) by (auto simp: outside_def instance_in_def slots.rd_wr [OF inv])
  ultimately show ?thesis
    using assms(1) ex inv by (simp add: instance_in_def instance_typed_def slots.wr_accepted slots.wr_inv)
qed

lemma Instance_write_ok:
  assumes "field_offset b name = Some k" "type_of v = bf_ty (layout b ! k)"
  shows "es_ok (instance_in b base m0) (Instance_write \<lparr>in_block = b, in_base = base\<rparr> name v)"
  unfolding es_ok_def
proof (intro allI impI)
  fix m assume m: "instance_in b base m0 m"
  then have "instance_typed b base m" by (simp add: instance_in_def)
  from Instance_slot_eq [OF this assms(1)] write_slot_in [OF m field_offset_bound [OF assms(1)] assms(2)]
  show "\<exists>x m'. Instance_write \<lparr>in_block = b, in_base = base\<rparr> name v m = (Inr x, m') \<and> instance_in b base m0 m'"
    by (cases "write_slot m (base + k) v") (simp add: Instance_write_def es_defs)
qed

lemma conversions:
  "type_of v = E_Bool \<Longrightarrow> as_bool v \<noteq> None" "type_of v = E_Int \<Longrightarrow> as_i64 v \<noteq> None"
  "type_of v = E_Time \<or> type_of v = E_LTime \<Longrightarrow> as_duration v \<noteq> None"
  "type_of v = E_Byte \<Longrightarrow> (case v of V_Byte b \<Rightarrow> Some b | _ \<Rightarrow> None) \<noteq> None"
  by (cases v; simp)+

text \<open>The type a field of that name has in a block.\<close>

definition field_type :: "NativeBlock \<Rightarrow> string \<Rightarrow> ElementaryType option" where
  "field_type b name = map_option (\<lambda>k. bf_ty (layout b ! k)) (field_offset b name)"

lemma typed_access_ok:
  assumes "field_type b name = Some t" "\<And>v. type_of v = t \<Longrightarrow> conv v \<noteq> None"
  shows "es_ok (instance_in b base m0) (Instance_as conv ty \<lparr>in_block = b, in_base = base\<rparr> name)"
  using assms by (auto simp: field_type_def intro: Instance_as_ok)

lemma typed_write_ok:
  "field_type b name = Some (type_of v) \<Longrightarrow> es_ok (instance_in b base m0) (Instance_write \<lparr>in_block = b, in_base = base\<rparr> name v)"
  by (auto simp: field_type_def intro: Instance_write_ok)

lemma accessors_ok:
  "field_type b name = Some E_Bool \<Longrightarrow> es_ok (instance_in b base m0) (Instance_bool \<lparr>in_block = b, in_base = base\<rparr> name)"
  "field_type b name = Some E_Int \<Longrightarrow> es_ok (instance_in b base m0) (Instance_int \<lparr>in_block = b, in_base = base\<rparr> name)"
  "t \<in> {E_Time, E_LTime} \<Longrightarrow> field_type b name = Some t \<Longrightarrow>
     es_ok (instance_in b base m0) (Instance_duration \<lparr>in_block = b, in_base = base\<rparr> name)"
  "field_type b name = Some E_Byte \<Longrightarrow> es_ok (instance_in b base m0) (Instance_byte \<lparr>in_block = b, in_base = base\<rparr> name)"
  "field_type b name = Some E_Bool \<Longrightarrow> es_ok (instance_in b base m0) (Instance_set_bool \<lparr>in_block = b, in_base = base\<rparr> name x)"
  unfolding Instance_bool_def Instance_int_def Instance_duration_def Instance_byte_def Instance_set_bool_def
  by (erule typed_access_ok typed_write_ok; use conversions in auto; fail | (rule typed_write_ok; simp))+

lemma field_types [simp]:
  "field_type Sr ''S1'' = Some E_Bool" "field_type Sr ''R'' = Some E_Bool" "field_type Sr ''Q1'' = Some E_Bool"
  "field_type Rs ''S'' = Some E_Bool" "field_type Rs ''R1'' = Some E_Bool" "field_type Rs ''Q1'' = Some E_Bool"
  "field_type Sema ''CLAIM'' = Some E_Bool" "field_type Sema ''RELEASE'' = Some E_Bool" "field_type Sema ''BUSY'' = Some E_Bool"
  "field_type Sema ''X'' = Some E_Bool"
  "field_type RTrig ''CLK'' = Some E_Bool" "field_type RTrig ''Q'' = Some E_Bool" "field_type RTrig ''M'' = Some E_Bool"
  "field_type FTrig ''CLK'' = Some E_Bool" "field_type FTrig ''Q'' = Some E_Bool" "field_type FTrig ''M'' = Some E_Bool"
  "field_type Ctu ''CU'' = Some E_Bool" "field_type Ctu ''R'' = Some E_Bool" "field_type Ctu ''PV'' = Some E_Int"
  "field_type Ctu ''Q'' = Some E_Bool" "field_type Ctu ''CV'' = Some E_Int" "field_type Ctu ''CU_M'' = Some E_Bool"
  "field_type Ctd ''CD'' = Some E_Bool" "field_type Ctd ''LD'' = Some E_Bool" "field_type Ctd ''PV'' = Some E_Int"
  "field_type Ctd ''Q'' = Some E_Bool" "field_type Ctd ''CV'' = Some E_Int" "field_type Ctd ''CD_M'' = Some E_Bool"
  "field_type Ctud ''CU'' = Some E_Bool" "field_type Ctud ''CD'' = Some E_Bool" "field_type Ctud ''R'' = Some E_Bool"
  "field_type Ctud ''LD'' = Some E_Bool" "field_type Ctud ''PV'' = Some E_Int" "field_type Ctud ''QU'' = Some E_Bool"
  "field_type Ctud ''QD'' = Some E_Bool" "field_type Ctud ''CV'' = Some E_Int" "field_type Ctud ''CU_M'' = Some E_Bool"
  "field_type Ctud ''CD_M'' = Some E_Bool"
  by (simp_all add: field_type_def layout_defs)

lemma timer_types [simp]:
  assumes "is_timer b"
  shows "field_type b ''IN'' = Some E_Bool" "field_type b ''PT'' = Some E_Time" "field_type b ''Q'' = Some E_Bool"
    "field_type b ''ET'' = Some E_Time" "field_type b ''PHASE'' = Some E_Byte" "field_type b ''START'' = Some E_LTime"
    "field_type b ''PREV_IN'' = Some E_Bool"
  by (simp_all add: field_type_def timer_layout [OF assms] assms layout_defs)

lemma simple_blocks_ok:
  "es_ok (instance_in Sr base m0) (sr \<lparr>in_block = Sr, in_base = base\<rparr>)"
  "es_ok (instance_in Rs base m0) (rs \<lparr>in_block = Rs, in_base = base\<rparr>)"
  "es_ok (instance_in RTrig base m0) (r_trig \<lparr>in_block = RTrig, in_base = base\<rparr>)"
  "es_ok (instance_in FTrig base m0) (f_trig \<lparr>in_block = FTrig, in_base = base\<rparr>)"
  "es_ok (instance_in Sema base m0) (sema \<lparr>in_block = Sema, in_base = base\<rparr>)"
  "es_ok (instance_in Ctu base m0) (ctu \<lparr>in_block = Ctu, in_base = base\<rparr>)"
  "es_ok (instance_in Ctd base m0) (ctd \<lparr>in_block = Ctd, in_base = base\<rparr>)"
  "es_ok (instance_in Ctud base m0) (ctud \<lparr>in_block = Ctud, in_base = base\<rparr>)"
  unfolding sr_def rs_def r_trig_def f_trig_def sema_def ctu_def ctd_def ctud_def rising_def Let_def
  by (intro ok_intros accessors_ok typed_write_ok; simp)+

text \<open>The four reads a timer makes first, then the rest of its invocation for a preset that is not negative.\<close>

definition timer_rest :: "Instance \<Rightarrow> TimerKind \<Rightarrow> Duration \<Rightarrow> bool \<Rightarrow> Duration \<Rightarrow> bool \<Rightarrow> u8 \<Rightarrow> unit fb" where
  "timer_rest i kind now input preset previous_input state =
     (let rising_edge = (input \<and> \<not> previous_input); falling_edge = (\<not> input \<and> previous_input) in
       es_bind (if state = IDLE then es_return 0
                else es_bind (Instance_duration i ''START'') (\<lambda>start.
                  es_return (case Duration_checked_sub now start of Some d \<Rightarrow> d | None \<Rightarrow> 0))) (\<lambda>since.
       es_bind (case kind of
                  OnDelay \<Rightarrow> on_delay i input preset now state since
                | OffDelay \<Rightarrow> off_delay i input falling_edge preset now state since
                | Pulse \<Rightarrow> pulse i input rising_edge preset now state since) (\<lambda>(state, out, elapsed).
       es_bind (Instance_write i ''PHASE'' (V_Byte state)) (\<lambda>_.
       es_bind (Instance_set_bool i ''PREV_IN'' input) (\<lambda>_.
       es_bind (Instance_set_bool i ''Q'' out) (\<lambda>_.
       Instance_write i ''ET'' (V_Time elapsed)))))))"

lemma timer_rest_ok:
  assumes "is_timer b"
  shows "es_ok (instance_in b base m0) (timer_rest \<lparr>in_block = b, in_base = base\<rparr> kind now input preset prev state)"
  unfolding timer_rest_def on_delay_def off_delay_def pulse_def timer_restart_def Let_def
  by (cases kind; simp only: TimerKind.case; intro ok_intros accessors_ok(1,2,4,5) accessors_ok(3) [of E_LTime] typed_write_ok; simp add: assms)

lemma read_field:
  assumes "instance_typed b base m" "field_offset b name = Some k" "read_slot m (base + k) = Some v" "conv v = Some x"
  shows "Instance_as conv ty \<lparr>in_block = b, in_base = base\<rparr> name m = (Inr x, m)"
  using assms(3,4) Instance_slot_eq [OF assms(1,2)] by (simp add: Instance_as_def Instance_read_def es_defs)

lemma timer_split:
  assumes "is_timer b" "instance_typed b base m" "read_slot m base = Some (V_Bool inp)" "read_slot m (base + 1) = Some (V_Time pt)"
    "read_slot m (base + 6) = Some (V_Bool prev)" "read_slot m (base + 4) = Some (V_Byte st)"
  shows "timer \<lparr>in_block = b, in_base = base\<rparr> kind clock m =
    (if pt < 0 then (Inl (Unsupported (''a negative preset time ('' @ Duration_to_iec_literal pt @ '') on a '' @
         NativeBlock_name b @ '' instance; salman refuses it rather than producing an implementer-specific result'')), m)
     else timer_rest \<lparr>in_block = b, in_base = base\<rparr> kind (ck_elapsed_ns clock) inp pt prev st m)"
proof -
  note o = timer_offsets [OF assms(1)]
  have reads: "Instance_bool \<lparr>in_block = b, in_base = base\<rparr> ''IN'' m = (Inr inp, m)"
    "Instance_duration \<lparr>in_block = b, in_base = base\<rparr> ''PT'' m = (Inr pt, m)"
    "Instance_bool \<lparr>in_block = b, in_base = base\<rparr> ''PREV_IN'' m = (Inr prev, m)"
    "Instance_byte \<lparr>in_block = b, in_base = base\<rparr> ''PHASE'' m = (Inr st, m)"
    unfolding Instance_bool_def Instance_duration_def Instance_byte_def
    using read_field [OF assms(2) o(1), of "V_Bool inp" as_bool inp E_Bool] read_field [OF assms(2) o(2), of "V_Time pt" as_duration pt E_Time]
      read_field [OF assms(2) o(7), of "V_Bool prev" as_bool prev E_Bool] read_field [OF assms(2) o(5), of "V_Byte st" _ st E_Byte] assms(3-6)
    by simp_all
  show ?thesis
    by (simp add: timer_def es_bind_eq reads) (simp add: Duration_is_negative_def es_fail_def timer_rest_def Let_def)
qed

lemma typed_values:
  assumes "instance_typed b base m" "k < slot_count b"
  shows "bf_ty (layout b ! k) = E_Bool \<Longrightarrow> \<exists>x. read_slot m (base + k) = Some (V_Bool x)"
    "bf_ty (layout b ! k) = E_Time \<Longrightarrow> \<exists>x. read_slot m (base + k) = Some (V_Time x)"
    "bf_ty (layout b ! k) = E_Byte \<Longrightarrow> \<exists>x. read_slot m (base + k) = Some (V_Byte x)"
proof -
  obtain v where v: "read_slot m (base + k) = Some v" "type_of v = bf_ty (layout b ! k)" using assms by (auto simp: instance_typed_def)
  show "bf_ty (layout b ! k) = E_Bool \<Longrightarrow> \<exists>x. read_slot m (base + k) = Some (V_Bool x)"
    "bf_ty (layout b ! k) = E_Time \<Longrightarrow> \<exists>x. read_slot m (base + k) = Some (V_Time x)"
    "bf_ty (layout b ! k) = E_Byte \<Longrightarrow> \<exists>x. read_slot m (base + k) = Some (V_Byte x)"
    using v by (cases v; simp)+
qed

lemma fresh_typed: "instance_typed b 0 (Memory_new (map bf_ty (layout b)) n ly)"
proof -
  have "length (layout b) < 2 ^ 32" by (cases b) (simp_all add: layout_defs)
  moreover have "read_slot (Memory_new tys n ly) k = Some (default_value (tys ! k))" if "k < length tys" for tys k
    using that by (simp add: Memory_new_def read_slot_def Let_def get_def)
  ultimately show ?thesis by (simp add: instance_typed_def slot_count_def mem_inv_new)
qed

text \<open>
  Claim C31.  A standard function block invoked on an instance whose slots have the declared types never
  finds a value of the wrong type and never leaves the instance: the slots keep their types, every slot
  outside the instance reads as before, and the only fault is that of a timer whose preset is negative,
  which changes nothing.
\<close>
theorem block_step_type_safe:
  assumes "instance_typed block base m"
  shows "case fb_step block base clock m of (r, m') \<Rightarrow>
    instance_typed block base m' \<and> outside block base m m' \<and>
    (r = Inr () \<or> (is_timer block \<and> m' = m \<and> (\<exists>pt. read_slot m (base + 1) = Some (V_Time pt) \<and> pt < 0)))"
proof -
  let ?i = "\<lparr>in_block = block, in_base = base\<rparr>"
  have m: "instance_in block base m m" using assms by (simp add: instance_in_def outside_def)
  have fin: "case f m of (r, m') \<Rightarrow> instance_typed block base m' \<and> outside block base m m' \<and> r = Inr ()"
    if "es_ok (instance_in block base m) f" for f :: "unit fb"
    using that m by (auto simp: es_ok_def instance_in_def split: prod.splits)
  show ?thesis
  proof (cases "is_timer block")
    case True
    obtain kind where k: "fb_step block base clock = timer ?i kind clock" using True by (auto simp: is_timer_def fb_step_def)
    have n: "slot_count block = 7" "layout block = TIMER_FIELDS" using timer_layout [OF True] by (simp_all add: slot_count_def layout_defs)
    obtain inp pt prev st where v: "read_slot m base = Some (V_Bool inp)" "read_slot m (base + 1) = Some (V_Time pt)"
      "read_slot m (base + 6) = Some (V_Bool prev)" "read_slot m (base + 4) = Some (V_Byte st)"
      using typed_values [OF assms, of 0] typed_values [OF assms, of 1] typed_values [OF assms, of 6] typed_values [OF assms, of 4]
      by (auto simp: n layout_defs)
    note s = timer_split [OF True assms v, of kind clock]
    show ?thesis
    proof (cases "pt < 0")
      case True
      then show ?thesis using assms v(2) \<open>is_timer block\<close> by (simp add: k s outside_def)
    next
      case False
      then show ?thesis using fin [OF timer_rest_ok [OF \<open>is_timer block\<close>], of kind "ck_elapsed_ns clock" inp pt prev st]
        by (auto simp: k s split: prod.splits)
    qed
  next
    case False
    then have "es_ok (instance_in block base m) (fb_step block base clock)"
      using simple_blocks_ok by (cases block) (simp_all add: fb_step_def is_timer_def)
    from fin [OF this] show ?thesis by (auto split: prod.splits)
  qed
qed

theorem block_step_type_safe_witness:
  "instance_typed Ton 0 (Memory_new (map bf_ty (layout Ton)) 0 \<lparr>il_granularity = ElementIndex, il_byte_order = LittleEndian\<rparr>) \<and>
   instance_typed Ton 0 (snd (fb_step Ton 0 Clock_virtual_default
     (Memory_new (map bf_ty (layout Ton)) 0 \<lparr>il_granularity = ElementIndex, il_byte_order = LittleEndian\<rparr>)))"
  using block_step_type_safe [OF fresh_typed [of Ton 0 "\<lparr>il_granularity = ElementIndex, il_byte_order = LittleEndian\<rparr>"],
      of Clock_virtual_default] fresh_typed [of Ton 0 "\<lparr>il_granularity = ElementIndex, il_byte_order = LittleEndian\<rparr>"]
  by (auto simp del: layout.simps split: prod.splits)

end
