(* ===== verification/Block_Fields.thy ===== *)
theory Block_Fields
  imports Block_Steps
begin

text \<open>
  A block instance none of whose slots is forced, seen as the list of its field values: what the
  accesses of an invocation do to that list, and from it what one invocation of each block computes.
\<close>

section \<open>The field list\<close>

definition unforced :: "NativeBlock \<Rightarrow> nat \<Rightarrow> Memory \<Rightarrow> bool" where
  "unforced b base m \<longleftrightarrow> mem_inv m \<and> base + slot_count b < 2 ^ 32 \<and>
     (\<forall>k < slot_count b. base + k < length (mem_slots m) \<and> \<not> forced m (base + k))"

definition fields :: "NativeBlock \<Rightarrow> nat \<Rightarrow> Memory \<Rightarrow> Value list" where
  "fields b base m = map (\<lambda>k. the (read_slot m (base + k))) [0..<slot_count b]"

definition put :: "nat \<Rightarrow> nat \<Rightarrow> Value \<Rightarrow> Memory \<Rightarrow> Memory" where
  "put base k v m = snd (write_slot m (base + k) v)"

lemma slot_exists: "mem_inv m \<Longrightarrow> s < length (mem_slots m) \<Longrightarrow> \<exists>v. read_slot m s = Some v"
  using read_slot_exists [of m s] by auto

lemma length_fields [simp]: "length (fields b base m) = slot_count b"
  by (simp add: fields_def)

lemma put_slots: "length (mem_slots (put base k v m)) = length (mem_slots m)"
  by (auto simp: put_def write_slot_def split: option.splits)

lemma unforced_put [simp]: "unforced b base m \<Longrightarrow> unforced b base (put base k v m)"
  using put_slots [of base k v m] by (simp add: unforced_def put_def slots.wr_inv slots.pinned_wr)

lemma fields_put [simp]:
  assumes "unforced b base m" "k < slot_count b"
  shows "fields b base (put base k v m) = (fields b base m)[k := v]"
proof (rule nth_equalityI)
  have inv: "mem_inv m" and ex: "\<And>j. j < slot_count b \<Longrightarrow> read_slot m (base + j) \<noteq> None"
    using assms(1) by (auto simp: unforced_def dest: slot_exists)
  fix j assume "j < length (fields b base (put base k v m))"
  then show "fields b base (put base k v m) ! j = (fields b base m)[k := v] ! j"
    using assms ex [OF assms(2)] by (auto simp: fields_def put_def slots.rd_wr [OF inv] unforced_def nth_list_update)
qed simp

lemma slot_eq:
  assumes "unforced b base m" "field_offset b name = Some k"
  shows "Instance_slot \<lparr>in_block = b, in_base = base\<rparr> name = Inr (base + k)"
  using assms field_offset_bound [OF assms(2)] by (simp add: Instance_slot_def slot_add_def unforced_def)

lemma access_field:
  assumes "unforced b base m" "field_offset b name = Some k"
  shows "Instance_as conv ty \<lparr>in_block = b, in_base = base\<rparr> name m =
    (ok_or (conv (fields b base m ! k)) (TypeMismatch ty (type_of (fields b base m ! k))), m)"
proof -
  have k: "k < slot_count b" by (rule field_offset_bound [OF assms(2)])
  with assms(1) obtain v where "read_slot m (base + k) = Some v"
    using read_slot_exists [of m "base + k"] by (auto simp: unforced_def)
  with k slot_eq [OF assms] show ?thesis by (simp add: Instance_as_def Instance_read_def es_defs fields_def)
qed

lemma write_field:
  assumes "unforced b base m" "field_offset b name = Some k"
  shows "Instance_write \<lparr>in_block = b, in_base = base\<rparr> name v m = (Inr (), put base k v m)"
proof -
  have "k < slot_count b" by (rule field_offset_bound [OF assms(2)])
  with assms(1) have "fst (write_slot m (base + k) v)" by (auto simp: unforced_def slots.wr_accepted dest: slot_exists)
  with slot_eq [OF assms] show ?thesis
    by (cases "write_slot m (base + k) v") (simp add: Instance_write_def es_defs put_def)
qed

lemmas access_defs = Instance_bool_def Instance_int_def Instance_duration_def Instance_byte_def Instance_set_bool_def

lemma slot_counts [simp]: "slot_count Sr = 3" "slot_count Rs = 3" "slot_count RTrig = 3" "slot_count FTrig = 3"
    "slot_count Ctu = 6" "slot_count Ctd = 6" "slot_count Ctud = 10" "slot_count Sema = 4"
    "is_timer b \<Longrightarrow> slot_count b = 7"
  by (simp_all add: slot_count_def layout_defs timer_layout)

text \<open>What an invocation leaves in the field list.\<close>

definition leaves :: "NativeBlock \<Rightarrow> nat \<Rightarrow> Clock \<Rightarrow> Memory \<Rightarrow> Value list \<Rightarrow> bool" where
  "leaves b base clock m vs \<longleftrightarrow>
     (\<exists>m'. fb_step b base clock m = (Inr (), m') \<and> unforced b base m' \<and> fields b base m' = vs)"

lemma leavesI: "fb_step b base clock m = (Inr (), m') \<Longrightarrow> unforced b base m' \<Longrightarrow> fields b base m' = vs \<Longrightarrow> leaves b base clock m vs"
  by (auto simp: leaves_def)

lemmas run_simps = fb_step_def access_defs access_field write_field es_bind_eq es_return_def es_of_def Let_def

section \<open>Bistables, edges and the semaphore\<close>

lemma sr_leaves: "unforced Sr base m \<Longrightarrow> fields Sr base m = [V_Bool s1, V_Bool reset, V_Bool held] \<Longrightarrow>
   leaves Sr base clock m [V_Bool s1, V_Bool reset, V_Bool (s1 \<or> (\<not> reset \<and> held))]"
  by (simp add: leaves_def run_simps sr_def)

lemma rs_leaves: "unforced Rs base m \<Longrightarrow> fields Rs base m = [V_Bool s, V_Bool r1, V_Bool held] \<Longrightarrow>
   leaves Rs base clock m [V_Bool s, V_Bool r1, V_Bool (\<not> r1 \<and> (s \<or> held))]"
  by (simp add: leaves_def run_simps rs_def)

lemma r_trig_leaves: "unforced RTrig base m \<Longrightarrow> fields RTrig base m = [V_Bool clk, q, V_Bool memory] \<Longrightarrow>
   leaves RTrig base clock m [V_Bool clk, V_Bool (clk \<and> \<not> memory), V_Bool clk]"
  by (simp add: leaves_def run_simps r_trig_def)

lemma f_trig_leaves: "unforced FTrig base m \<Longrightarrow> fields FTrig base m = [V_Bool clk, q, V_Bool memory] \<Longrightarrow>
   leaves FTrig base clock m [V_Bool clk, V_Bool (\<not> clk \<and> \<not> memory), V_Bool (\<not> clk)]"
  by (simp add: leaves_def run_simps f_trig_def)

lemma sema_leaves: "unforced Sema base m \<Longrightarrow> fields Sema base m = [V_Bool claim, V_Bool rel, busy, V_Bool held] \<Longrightarrow>
   leaves Sema base clock m
     [V_Bool claim, V_Bool rel, V_Bool (held \<and> (claim \<or> \<not> rel)), V_Bool (claim \<or> (held \<and> \<not> rel))]"
  by (cases claim; cases rel) (simp_all add: leaves_def run_simps sema_def)

section \<open>Counters\<close>

definition up_count :: "bool \<Rightarrow> bool \<Rightarrow> int \<Rightarrow> int" where
  "up_count reset edge count = (if reset then 0 else if edge \<and> count < CV_MAX then count + 1 else count)"

lemma ctu_leaves: "unforced Ctu base m \<Longrightarrow> fields Ctu base m = [V_Bool cu, V_Bool r, V_Int pv, q, V_Int cv, V_Bool cu_m] \<Longrightarrow>
   leaves Ctu base clock m
     [V_Bool cu, V_Bool r, V_Int pv, V_Bool (up_count r (cu \<and> \<not> cu_m) (sint cv) \<ge> sint pv),
      V_Int (word_of_int (up_count r (cu \<and> \<not> cu_m) (sint cv))), V_Bool cu]"
  by (simp add: leaves_def run_simps ctu_def rising_def up_count_def)

definition down_count :: "bool \<Rightarrow> int \<Rightarrow> bool \<Rightarrow> int \<Rightarrow> int" where
  "down_count load preset edge count = (if load then preset else if edge \<and> count > CV_MIN then count - 1 else count)"

lemma ctd_leaves: "unforced Ctd base m \<Longrightarrow> fields Ctd base m = [V_Bool cd, V_Bool ld, V_Int pv, q, V_Int cv, V_Bool cd_m] \<Longrightarrow>
   leaves Ctd base clock m
     [V_Bool cd, V_Bool ld, V_Int pv, V_Bool (down_count ld (sint pv) (cd \<and> \<not> cd_m) (sint cv) \<le> 0),
      V_Int (word_of_int (down_count ld (sint pv) (cd \<and> \<not> cd_m) (sint cv))), V_Bool cd]"
  by (simp add: leaves_def run_simps ctd_def rising_def down_count_def)

definition up_down_count :: "bool \<Rightarrow> bool \<Rightarrow> int \<Rightarrow> bool \<Rightarrow> bool \<Rightarrow> int \<Rightarrow> int" where
  "up_down_count reset load preset up down count =
     (if reset then 0 else if load then preset
      else if up \<and> down then count
      else if up \<and> count < CV_MAX then count + 1
      else if down \<and> count > CV_MIN then count - 1 else count)"

lemma ctud_leaves:
  "unforced Ctud base m \<Longrightarrow>
   fields Ctud base m = [V_Bool cu, V_Bool cd, V_Bool r, V_Bool ld, V_Int pv, qu, qd, V_Int cv, V_Bool cu_m, V_Bool cd_m] \<Longrightarrow>
   count = up_down_count r ld (sint pv) (cu \<and> \<not> cu_m) (cd \<and> \<not> cd_m) (sint cv) \<Longrightarrow>
   leaves Ctud base clock m
     [V_Bool cu, V_Bool cd, V_Bool r, V_Bool ld, V_Int pv, V_Bool (count \<ge> sint pv), V_Bool (count \<le> 0),
      V_Int (word_of_int count), V_Bool cu, V_Bool cd]"
  by (simp add: leaves_def run_simps ctud_def rising_def up_down_count_def)

section \<open>Timers\<close>

text \<open>The elapsed time, then the new phase, start instant, output and elapsed output of each timer.\<close>

definition elapsed_since :: "u8 \<Rightarrow> Duration \<Rightarrow> Duration \<Rightarrow> Duration" where
  "elapsed_since ph now st = (if ph = IDLE then 0 else case Duration_checked_sub now st of Some d \<Rightarrow> d | None \<Rightarrow> 0)"

fun timer_next :: "TimerKind \<Rightarrow> Duration \<Rightarrow> bool \<Rightarrow> Duration \<Rightarrow> u8 \<Rightarrow> Duration \<Rightarrow> bool \<Rightarrow> u8 \<times> Duration \<times> bool \<times> Duration" where
  "timer_next OnDelay now inp pt ph st prev =
     (if \<not> inp then (IDLE, st, False, 0)
      else let since = elapsed_since ph now st; st = (if ph = IDLE then now else st) in
           if since \<ge> pt then (COMPLETE, st, True, pt) else (TIMING, st, False, since))"
| "timer_next OffDelay now inp pt ph st prev =
     (if inp then (IDLE, st, True, 0)
      else if prev then (if 0 \<ge> pt then (COMPLETE, now, False, pt) else (TIMING, now, True, 0))
      else if ph = IDLE then (IDLE, st, False, 0)
      else let since = elapsed_since ph now st in
           if since \<ge> pt then (COMPLETE, st, False, pt) else (TIMING, st, True, since))"
| "timer_next Pulse now inp pt ph st prev =
     (let since = elapsed_since ph now st;
          ph = (if ph = TIMING \<and> since \<ge> pt then COMPLETE else ph);
          ph = (if ph = COMPLETE \<and> since < pt then TIMING else ph);
          ph = (if ph = COMPLETE \<and> \<not> inp then IDLE else ph)
      in if ph \<noteq> TIMING \<and> inp \<and> \<not> prev then (TIMING, now, True, min 0 pt)
         else if ph = TIMING then (TIMING, st, True, min since pt)
         else if ph = COMPLETE then (COMPLETE, st, False, pt)
         else (ph, st, False, 0))"

fun timer_kind :: "NativeBlock \<Rightarrow> TimerKind" where
  "timer_kind Ton = OnDelay"
| "timer_kind Tof = OffDelay"
| "timer_kind _ = Pulse"

definition timer_choice :: "Instance \<Rightarrow> TimerKind \<Rightarrow> Duration \<Rightarrow> bool \<Rightarrow> Duration \<Rightarrow> bool \<Rightarrow> u8 \<Rightarrow> Duration \<Rightarrow> (u8 \<times> bool \<times> Duration) fb" where
  "timer_choice i kind now input preset previous_input state since =
     (case kind of
        OnDelay \<Rightarrow> on_delay i input preset now state since
      | OffDelay \<Rightarrow> off_delay i input (\<not> input \<and> previous_input) preset now state since
      | Pulse \<Rightarrow> pulse i input (input \<and> \<not> previous_input) preset now state since)"

lemma phases_distinct [simp]: "IDLE \<noteq> TIMING" "IDLE \<noteq> COMPLETE" "TIMING \<noteq> COMPLETE" "TIMING \<noteq> IDLE" "COMPLETE \<noteq> IDLE" "COMPLETE \<noteq> TIMING"
  by (simp_all add: IDLE_def TIMING_def COMPLETE_def)

lemma timer_restart_run:
  "is_timer b \<Longrightarrow> unforced b base m \<Longrightarrow>
   timer_restart \<lparr>in_block = b, in_base = base\<rparr> now m = (Inr (TIMING, 0), put base 5 (V_LTime now) m)"
  by (simp add: timer_restart_def write_field es_bind_eq es_return_def)

lemma timer_choice_run:
  assumes "is_timer b" "unforced b base m" "fields b base m = [V_Bool inp, V_Time pt, q, et, V_Byte ph, V_LTime st, V_Bool prev]"
    and "timer_next kind now inp pt ph st prev = (ph', st', q', et')"
  shows "\<exists>m'. timer_choice \<lparr>in_block = b, in_base = base\<rparr> kind now inp pt prev ph (elapsed_since ph now st) m = (Inr (ph', q', et'), m') \<and>
    unforced b base m' \<and> fields b base m' = [V_Bool inp, V_Time pt, q, et, V_Byte ph, V_LTime st', V_Bool prev]"
proof (cases kind)
  case OnDelay
  with assms timer_restart_run [OF assms(1,2), of now] show ?thesis
    by (cases "ph = IDLE") (auto simp: timer_choice_def on_delay_def es_bind_eq es_return_def elapsed_since_def Let_def split: if_splits)
next
  case OffDelay
  with assms timer_restart_run [OF assms(1,2), of now] show ?thesis
    by (cases prev; cases inp) (auto simp: timer_choice_def off_delay_def es_bind_eq es_return_def elapsed_since_def Let_def split: if_splits)
next
  case Pulse
  with assms timer_restart_run [OF assms(1,2), of now] show ?thesis
    by (auto simp: timer_choice_def pulse_def es_bind_eq es_return_def Let_def min_def split: if_splits)
qed

lemma timer_since_run:
  assumes "is_timer b" "unforced b base m" "fields b base m = [V_Bool inp, V_Time pt, q, et, V_Byte ph, V_LTime st, V_Bool prev]"
  shows "(if ph = IDLE then es_return 0
          else es_bind (Instance_duration \<lparr>in_block = b, in_base = base\<rparr> ''START'') (\<lambda>start.
            es_return (case Duration_checked_sub now start of Some d \<Rightarrow> d | None \<Rightarrow> 0))) m = (Inr (elapsed_since ph now st), m)"
  using assms by (simp add: es_return_def elapsed_since_def es_bind_eq Instance_duration_def access_field)

lemma timer_run:
  assumes "is_timer b" "unforced b base m"
    and "fields b base m = [V_Bool inp, V_Time pt, q, et, V_Byte ph, V_LTime st, V_Bool prev]" "0 \<le> pt"
    and "timer_next kind (ck_elapsed_ns clock) inp pt ph st prev = (ph', st', q', et')"
  shows "\<exists>m'. timer \<lparr>in_block = b, in_base = base\<rparr> kind clock m = (Inr (), m') \<and> unforced b base m' \<and>
    fields b base m' = [V_Bool inp, V_Time pt, V_Bool q', V_Time et', V_Byte ph', V_LTime st', V_Bool inp]"
proof -
  let ?i = "\<lparr>in_block = b, in_base = base\<rparr>" and ?now = "ck_elapsed_ns clock"
  obtain m1 where m1: "timer_choice ?i kind ?now inp pt prev ph (elapsed_since ph ?now st) m = (Inr (ph', q', et'), m1)"
    "unforced b base m1" "fields b base m1 = [V_Bool inp, V_Time pt, q, et, V_Byte ph, V_LTime st', V_Bool prev]"
    using timer_choice_run [OF assms(1-3,5)] by blast
  have "timer ?i kind clock m =
      es_bind (if ph = IDLE then es_return 0
               else es_bind (Instance_duration ?i ''START'') (\<lambda>start.
                 es_return (case Duration_checked_sub ?now start of Some d \<Rightarrow> d | None \<Rightarrow> 0))) (\<lambda>since.
      es_bind (timer_choice ?i kind ?now inp pt prev ph since) (\<lambda>(state, out, elapsed).
      es_bind (Instance_write ?i ''PHASE'' (V_Byte state)) (\<lambda>_.
      es_bind (Instance_set_bool ?i ''PREV_IN'' inp) (\<lambda>_.
      es_bind (Instance_set_bool ?i ''Q'' out) (\<lambda>_.
      Instance_write ?i ''ET'' (V_Time elapsed)))))) m"
    using assms(1-4)
    by (simp add: timer_def access_defs access_field es_bind_eq Duration_is_negative_def timer_choice_def Let_def)
  also have "\<dots> = es_bind (timer_choice ?i kind ?now inp pt prev ph (elapsed_since ph ?now st)) (\<lambda>(state, out, elapsed).
      es_bind (Instance_write ?i ''PHASE'' (V_Byte state)) (\<lambda>_.
      es_bind (Instance_set_bool ?i ''PREV_IN'' inp) (\<lambda>_.
      es_bind (Instance_set_bool ?i ''Q'' out) (\<lambda>_.
      Instance_write ?i ''ET'' (V_Time elapsed))))) m"
    by (rule es_bind_eq) (rule timer_since_run [OF assms(1-3)])
  also have "\<dots> = (Inr (), put base 3 (V_Time et') (put base 2 (V_Bool q') (put base 6 (V_Bool inp) (put base 4 (V_Byte ph') m1))))"
    using m1 assms(1) by (simp add: access_defs write_field es_bind_eq)
  finally show ?thesis using m1 assms(1) by simp
qed

lemma timer_leaves:
  assumes "is_timer b" "unforced b base m"
    and "fields b base m = [V_Bool inp, V_Time pt, q, et, V_Byte ph, V_LTime st, V_Bool prev]" "0 \<le> pt"
    and "timer_next (timer_kind b) (ck_elapsed_ns clock) inp pt ph st prev = (ph', st', q', et')"
  shows "leaves b base clock m [V_Bool inp, V_Time pt, V_Bool q', V_Time et', V_Byte ph', V_LTime st', V_Bool inp]"
proof -
  have "fb_step b base clock = timer \<lparr>in_block = b, in_base = base\<rparr> (timer_kind b) clock"
    using assms(1) by (auto simp: is_timer_def fb_step_def)
  with timer_run [OF assms] show ?thesis by (auto simp: leaves_def)
qed

end
