(* ===== verification/Block_Traces.thy ===== *)
theory Block_Traces
  imports Block_Fields
begin

text \<open>
  Timers and counters over whole histories.  A history is the list of invocations, each with the time
  of the clock and the level of the input; the outputs after the last one are characterised by the
  history alone, which is what the timing diagrams of the standard do.
\<close>

section \<open>Histories of a timer\<close>

type_synonym history = "(int \<times> bool) list"

definition clock_at :: "int \<Rightarrow> Clock" where
  "clock_at t = Clock_virtual_default\<lparr>ck_elapsed_ns := t\<rparr>"

lemma clock_at_elapsed [simp]: "ck_elapsed_ns (clock_at t) = t"
  by (simp add: clock_at_def)

text \<open>One invocation: the caller sets the input, then the block runs; a fault ends the run.\<close>

fun run_timer :: "NativeBlock \<Rightarrow> nat \<Rightarrow> history \<Rightarrow> Memory \<Rightarrow> Memory option" where
  "run_timer b base [] m = Some m"
| "run_timer b base ((t, inp) # h) m =
     (case fb_step b base (clock_at t) (put base 0 (V_Bool inp) m) of
        (Inl _, _) \<Rightarrow> None
      | (Inr _, m') \<Rightarrow> run_timer b base h m')"

lemma run_timer_append:
  "run_timer b base (h @ h') m = Option.bind (run_timer b base h m) (run_timer b base h')"
  by (induction b base h m rule: run_timer.induct) (auto split: prod.splits sum.splits)

text \<open>The clock never runs backwards and stays in range; the preset is not negative.\<close>

definition valid_history :: "int \<Rightarrow> history \<Rightarrow> bool" where
  "valid_history pt h \<longleftrightarrow> 0 \<le> pt \<and> sorted (map fst h) \<and> (\<forall>(t, _) \<in> set h. 0 \<le> t \<and> t \<le> i64_MAX)"

text \<open>A timer that has not run yet: inputs and outputs at their defaults, the preset given.\<close>

definition fresh_timer :: "NativeBlock \<Rightarrow> nat \<Rightarrow> int \<Rightarrow> Memory \<Rightarrow> bool" where
  "fresh_timer b base pt m \<longleftrightarrow> unforced b base m \<and>
     fields b base m = [V_Bool False, V_Time pt, V_Bool False, V_Time 0, V_Byte IDLE, V_LTime 0, V_Bool False]"

lemma fresh_fields: "unforced b 0 (Memory_new (map bf_ty (layout b)) n ly) \<and>
    fields b 0 (Memory_new (map bf_ty (layout b)) n ly) = map (default_value \<circ> bf_ty) (layout b)"
proof -
  have "length (layout b) < 2 ^ 32" by (cases b) (simp_all add: layout_defs)
  moreover have "read_slot (Memory_new tys n ly) k = Some (default_value (tys ! k))" if "k < length tys" for tys k
    using that by (simp add: Memory_new_def read_slot_def Let_def get_def)
  moreover have "length (mem_slots (Memory_new tys n ly)) = length tys" "\<not> forced (Memory_new tys n ly) k" for tys k
    by (simp_all add: Memory_new_def forced_def Let_def)
  ultimately show ?thesis
    by (auto simp: unforced_def fields_def slot_count_def mem_inv_new intro!: nth_equalityI)
qed

lemma fresh_new:
  assumes "is_timer b"
  shows "fresh_timer b 0 pt (put 0 1 (V_Time pt) (Memory_new (map bf_ty (layout b)) n ly))"
  using fresh_fields [of b n ly] assms by (simp add: fresh_timer_def) (simp add: timer_layout layout_defs IDLE_def)

text \<open>
  A specification of a timer: a relation between a history and the phase, start instant, output and
  elapsed output after it that holds at the start and that every invocation keeps.
\<close>

locale timer_spec =
  fixes b :: NativeBlock
    and I :: "int \<Rightarrow> history \<Rightarrow> u8 \<Rightarrow> int \<Rightarrow> bool \<Rightarrow> int \<Rightarrow> bool"
  assumes timer: "is_timer b"
    and start: "0 \<le> pt \<Longrightarrow> I pt [] IDLE 0 False 0"
    and sample: "valid_history pt (h @ [(t, inp)]) \<Longrightarrow> I pt h ph st q et \<Longrightarrow>
      timer_next (timer_kind b) t inp pt ph st (h \<noteq> [] \<and> snd (last h)) = (ph', st', q', et') \<Longrightarrow> I pt (h @ [(t, inp)]) ph' st' q' et'"
begin

lemma run_keeps:
  assumes "fresh_timer b base pt m" "valid_history pt h"
  shows "\<exists>m' inp q et ph st. run_timer b base h m = Some m' \<and> unforced b base m' \<and> I pt h ph st q et \<and>
    fields b base m' = [V_Bool inp, V_Time pt, V_Bool q, V_Time et, V_Byte ph, V_LTime st, V_Bool (h \<noteq> [] \<and> snd (last h))]"
  using assms(2)
proof (induction h rule: rev_induct)
  case Nil
  with assms(1) start [of pt] show ?case by (auto simp: fresh_timer_def valid_history_def)
next
  case (snoc s h)
  obtain t inp where s: "s = (t, inp)" by force
  from snoc.prems have v: "valid_history pt h" "0 \<le> pt" by (auto simp: valid_history_def sorted_append)
  with snoc.IH obtain m1 i1 q et ph st where m1: "run_timer b base h m = Some m1" "unforced b base m1" "I pt h ph st q et"
    "fields b base m1 = [V_Bool i1, V_Time pt, V_Bool q, V_Time et, V_Byte ph, V_LTime st, V_Bool (h \<noteq> [] \<and> snd (last h))]"
    by blast
  obtain ph' st' q' et' where n: "timer_next (timer_kind b) t inp pt ph st (h \<noteq> [] \<and> snd (last h)) = (ph', st', q', et')"
    by (metis prod_cases4)
  let ?m = "put base 0 (V_Bool inp) m1"
  have f: "unforced b base ?m"
    "fields b base ?m = [V_Bool inp, V_Time pt, V_Bool q, V_Time et, V_Byte ph, V_LTime st, V_Bool (h \<noteq> [] \<and> snd (last h))]"
    using m1 timer by simp_all
  have "leaves b base (clock_at t) ?m [V_Bool inp, V_Time pt, V_Bool q', V_Time et', V_Byte ph', V_LTime st', V_Bool inp]"
    by (rule timer_leaves [OF timer f v(2)]) (simp add: n)
  then obtain m' where m': "fb_step b base (clock_at t) ?m = (Inr (), m')" "unforced b base m'"
    "fields b base m' = [V_Bool inp, V_Time pt, V_Bool q', V_Time et', V_Byte ph', V_LTime st', V_Bool inp]"
    by (auto simp: leaves_def)
  have "run_timer b base (h @ [s]) m = Some m'" using m1(1) m'(1) by (simp add: s run_timer_append)
  with m' sample [OF _ m1(3) n] snoc.prems show ?case by (auto simp: s)
qed

end

text \<open>A start instant recorded earlier: the difference fits, so the elapsed time is what has passed.\<close>

lemma elapsed_exact: "0 \<le> st \<Longrightarrow> st \<le> t \<Longrightarrow> t \<le> i64_MAX \<Longrightarrow> ph \<noteq> IDLE \<Longrightarrow> elapsed_since ph t st = t - st"
  by (simp add: elapsed_since_def Duration_checked_sub_def checked_i64_def in_i64_def i64_MIN_def i64_MAX_def)

lemma valid_snoc:
  "valid_history pt (h @ [(t, inp)]) \<longleftrightarrow> valid_history pt h \<and> 0 \<le> t \<and> t \<le> i64_MAX \<and> (\<forall>s \<in> set h. fst s \<le> t)"
  by (auto simp: valid_history_def sorted_append)

lemma valid_nth: "valid_history pt h \<Longrightarrow> j < length h \<Longrightarrow> 0 \<le> fst (h ! j)"
  by (simp add: valid_history_def case_prod_unfold)

section \<open>On delay\<close>

text \<open>The input has been true from the \<open>j\<close>-th invocation to the last, and was not true just before.\<close>

definition on_from :: "history \<Rightarrow> nat \<Rightarrow> bool" where
  "on_from h j \<longleftrightarrow> j < length h \<and> (\<forall>k. j \<le> k \<and> k < length h \<longrightarrow> snd (h ! k)) \<and> (j = 0 \<or> \<not> snd (h ! (j - 1)))"

definition now_of :: "history \<Rightarrow> int" where
  "now_of h = fst (last h)"

definition ton_spec :: "int \<Rightarrow> history \<Rightarrow> bool \<Rightarrow> int \<Rightarrow> bool" where
  "ton_spec pt h q et \<longleftrightarrow>
     (if h \<noteq> [] \<and> snd (last h)
      then \<exists>j. on_from h j \<and> (q \<longleftrightarrow> now_of h - fst (h ! j) \<ge> pt) \<and> et = min pt (now_of h - fst (h ! j))
      else \<not> q \<and> et = 0)"

definition ton_inv :: "int \<Rightarrow> history \<Rightarrow> u8 \<Rightarrow> int \<Rightarrow> bool \<Rightarrow> int \<Rightarrow> bool" where
  "ton_inv pt h ph st q et \<longleftrightarrow> ton_spec pt h q et \<and>
     (if h \<noteq> [] \<and> snd (last h) then ph \<noteq> IDLE \<and> (\<exists>j. on_from h j \<and> st = fst (h ! j)) else ph = IDLE)"

lemma on_from_snoc_stay: "on_from h j \<Longrightarrow> on_from (h @ [(t, True)]) j"
  by (auto simp: on_from_def nth_append)

lemma on_from_snoc_start: "h = [] \<or> \<not> snd (last h) \<Longrightarrow> on_from (h @ [(t, True)]) (length h)"
  by (cases "h = []") (auto simp: on_from_def nth_append last_conv_nth)

interpretation ton: timer_spec Ton ton_inv
proof
  show "is_timer Ton" by (simp add: is_timer_def)
  show "0 \<le> pt \<Longrightarrow> ton_inv pt [] IDLE 0 False 0" for pt by (simp add: ton_inv_def ton_spec_def)
  fix pt h t inp ph st q et ph' st' q' et'
  assume v: "valid_history pt (h @ [(t, inp)])" and i: "ton_inv pt h ph st q et"
    and n: "timer_next (timer_kind Ton) t inp pt ph st (h \<noteq> [] \<and> snd (last h)) = (ph', st', q', et')"
  show "ton_inv pt (h @ [(t, inp)]) ph' st' q' et'"
  proof (cases inp)
    case False
    with n show ?thesis by (auto simp: ton_inv_def ton_spec_def)
  next
    case True
    show ?thesis
    proof (cases "h \<noteq> [] \<and> snd (last h)")
      case on: True
      with i obtain j where j: "on_from h j" "st = fst (h ! j)" "ph \<noteq> IDLE" by (auto simp: ton_inv_def)
      then have "elapsed_since ph t st = t - st"
        using v valid_nth [of pt h j] by (intro elapsed_exact) (auto simp: valid_snoc on_from_def)
      moreover have "(h @ [(t, True)]) ! j = h ! j" using j(1) by (simp add: on_from_def nth_append)
      ultimately show ?thesis using n True j on_from_snoc_stay [OF j(1), of t]
        by (auto simp: ton_inv_def ton_spec_def now_of_def Let_def split: if_splits)
    next
      case off: False
      with i have ph: "ph = IDLE" by (auto simp: ton_inv_def)
      have "on_from (h @ [(t, True)]) (length h)" using off by (intro on_from_snoc_start) auto
      with n True ph v show ?thesis
        by (auto simp: ton_inv_def ton_spec_def now_of_def elapsed_since_def valid_history_def Let_def split: if_splits)
    qed
  qed
qed

text \<open>
  Claim C6.  \<open>TON\<close> over any history of invocations: it never faults, and after the last invocation its
  output is true exactly when the input is true and has been for at least the preset since the
  invocation that found it risen; the elapsed output is that time, held at the preset, and zero while
  the input is false.
\<close>
theorem ton_follows_its_diagram:
  assumes "fresh_timer Ton base pt m" "valid_history pt h"
  shows "\<exists>m' q et. run_timer Ton base h m = Some m' \<and> ton_spec pt h q et \<and>
    fields Ton base m' ! 2 = V_Bool q \<and> fields Ton base m' ! 3 = V_Time et"
  using ton.run_keeps [OF assms] by (auto simp: ton_inv_def)

theorem ton_follows_its_diagram_witness:
  "\<exists>m' q et. run_timer Ton 0 [(0, True), (5, True), (10, True)]
      (put 0 1 (V_Time 10) (Memory_new (map bf_ty (layout Ton)) 0 \<lparr>il_granularity = ElementIndex, il_byte_order = LittleEndian\<rparr>)) = Some m' \<and>
    ton_spec 10 [(0, True), (5, True), (10, True)] q et \<and> fields Ton 0 m' ! 2 = V_Bool q \<and> fields Ton 0 m' ! 3 = V_Time et"
  by (rule ton_follows_its_diagram [OF fresh_new]) (simp_all add: is_timer_def valid_history_def i64_MAX_def)

section \<open>Off delay\<close>

text \<open>The input fell at the \<open>j\<close>-th invocation and has been false since.\<close>

definition off_from :: "history \<Rightarrow> nat \<Rightarrow> bool" where
  "off_from h j \<longleftrightarrow> 0 < j \<and> j < length h \<and> snd (h ! (j - 1)) \<and> (\<forall>k. j \<le> k \<and> k < length h \<longrightarrow> \<not> snd (h ! k))"

definition tof_spec :: "int \<Rightarrow> history \<Rightarrow> bool \<Rightarrow> int \<Rightarrow> bool" where
  "tof_spec pt h q et \<longleftrightarrow>
     (if h \<noteq> [] \<and> snd (last h) then q \<and> et = 0
      else if \<exists>s \<in> set h. snd s
      then \<exists>j. off_from h j \<and> (q \<longleftrightarrow> now_of h - fst (h ! j) < pt) \<and> et = min pt (now_of h - fst (h ! j))
      else \<not> q \<and> et = 0)"

definition tof_inv :: "int \<Rightarrow> history \<Rightarrow> u8 \<Rightarrow> int \<Rightarrow> bool \<Rightarrow> int \<Rightarrow> bool" where
  "tof_inv pt h ph st q et \<longleftrightarrow> tof_spec pt h q et \<and>
     (if h = [] \<or> snd (last h) then ph = IDLE
      else if \<exists>s \<in> set h. snd s then ph \<noteq> IDLE \<and> (\<exists>j. off_from h j \<and> st = fst (h ! j))
      else ph = IDLE)"

lemma off_from_snoc_stay: "off_from h j \<Longrightarrow> off_from (h @ [(t, False)]) j"
  by (auto simp: off_from_def nth_append)

lemma off_from_snoc_start: "h \<noteq> [] \<Longrightarrow> snd (last h) \<Longrightarrow> off_from (h @ [(t, False)]) (length h)"
  by (auto simp: off_from_def nth_append last_conv_nth)

interpretation tof: timer_spec Tof tof_inv
proof
  show "is_timer Tof" by (simp add: is_timer_def)
  show "0 \<le> pt \<Longrightarrow> tof_inv pt [] IDLE 0 False 0" for pt by (simp add: tof_inv_def tof_spec_def)
  fix pt h t inp ph st q et ph' st' q' et'
  assume v: "valid_history pt (h @ [(t, inp)])" and i: "tof_inv pt h ph st q et"
    and n: "timer_next (timer_kind Tof) t inp pt ph st (h \<noteq> [] \<and> snd (last h)) = (ph', st', q', et')"
  show "tof_inv pt (h @ [(t, inp)]) ph' st' q' et'"
  proof (cases inp)
    case True
    with n show ?thesis by (auto simp: tof_inv_def tof_spec_def)
  next
    case False
    consider (fell) "h \<noteq> []" "snd (last h)" | (off) "h \<noteq> []" "\<not> snd (last h)" "\<exists>s \<in> set h. snd s" | (never) "\<not> (\<exists>s \<in> set h. snd s)"
      by fastforce
    then show ?thesis
    proof cases
      case fell
      then have "\<exists>s \<in> set h. snd s" by (meson last_in_set)
      with n False fell v off_from_snoc_start [OF fell, of t] show ?thesis
        by (auto simp: tof_inv_def tof_spec_def now_of_def valid_history_def split: if_splits)
    next
      case off
      with i obtain j where j: "off_from h j" "st = fst (h ! j)" "ph \<noteq> IDLE" by (auto simp: tof_inv_def)
      then have "elapsed_since ph t st = t - st"
        using v valid_nth [of pt h j] by (intro elapsed_exact) (auto simp: valid_snoc off_from_def)
      moreover have "(h @ [(t, False)]) ! j = h ! j" using j(1) by (simp add: off_from_def nth_append)
      ultimately show ?thesis using n False off j off_from_snoc_stay [OF j(1), of t]
        by (auto simp: tof_inv_def tof_spec_def now_of_def Let_def split: if_splits)
    next
      case never
      then have "h = [] \<or> \<not> snd (last h)" by (metis last_in_set)
      with i never have "ph = IDLE" by (auto simp: tof_inv_def split: if_splits)
      with n False never \<open>h = [] \<or> \<not> snd (last h)\<close> show ?thesis by (auto simp: tof_inv_def tof_spec_def)
    qed
  qed
qed

text \<open>
  Claim C21.  \<open>TOF\<close> over any history of invocations: the output is true while the input is, and after
  the input has fallen until the preset has passed since the invocation that found it fallen; an
  instance whose input has never been true has never turned on, so no program starts with a phantom
  pulse.
\<close>
theorem tof_follows_its_diagram:
  assumes "fresh_timer Tof base pt m" "valid_history pt h"
  shows "\<exists>m' q et. run_timer Tof base h m = Some m' \<and> tof_spec pt h q et \<and>
    fields Tof base m' ! 2 = V_Bool q \<and> fields Tof base m' ! 3 = V_Time et"
  using tof.run_keeps [OF assms] by (auto simp: tof_inv_def)

theorem tof_follows_its_diagram_witness:
  "\<exists>m' q et. run_timer Tof 0 [(0, True), (5, False), (9, False)]
      (put 0 1 (V_Time 10) (Memory_new (map bf_ty (layout Tof)) 0 \<lparr>il_granularity = ElementIndex, il_byte_order = LittleEndian\<rparr>)) = Some m' \<and>
    tof_spec 10 [(0, True), (5, False), (9, False)] q et \<and>
    fields Tof 0 m' ! 2 = V_Bool q \<and> fields Tof 0 m' ! 3 = V_Time et"
  by (rule tof_follows_its_diagram [OF fresh_new]) (simp_all add: is_timer_def valid_history_def i64_MAX_def)

section \<open>Pulse\<close>

text \<open>
  The instants at which a pulse starts: a rising edge while no earlier pulse is running.  This is what
  makes a pulse neither retriggerable nor truncatable.
\<close>

fun pulse_starts :: "int \<Rightarrow> int list \<Rightarrow> bool \<Rightarrow> history \<Rightarrow> int list" where
  "pulse_starts pt ss prev [] = ss"
| "pulse_starts pt ss prev ((t, inp) # h) =
     pulse_starts pt (if inp \<and> \<not> prev \<and> (\<forall>s \<in> set ss. t - s \<ge> pt) then ss @ [t] else ss) inp h"

lemma pulse_starts_snoc:
  "pulse_starts pt ss prev (h @ [(t, inp)]) =
     (let ss' = pulse_starts pt ss prev h in
      if inp \<and> \<not> (if h = [] then prev else snd (last h)) \<and> (\<forall>s \<in> set ss'. t - s \<ge> pt) then ss' @ [t] else ss')"
  by (induction pt ss prev h rule: pulse_starts.induct) (auto simp: Let_def)

definition starts :: "int \<Rightarrow> history \<Rightarrow> int list" where
  "starts pt h = pulse_starts pt [] False h"

text \<open>A pulse starts at the last invocation; some pulse is still running there.\<close>

definition starts_now :: "int \<Rightarrow> history \<Rightarrow> bool" where
  "starts_now pt h \<longleftrightarrow> h \<noteq> [] \<and> starts pt h \<noteq> starts pt (butlast h)"

definition pulse_running :: "int \<Rightarrow> history \<Rightarrow> bool" where
  "pulse_running pt h \<longleftrightarrow> (\<exists>s \<in> set (starts pt h). now_of h - s < pt)"

definition rises :: "history \<Rightarrow> bool \<Rightarrow> bool" where
  "rises h inp \<longleftrightarrow> inp \<and> \<not> (h \<noteq> [] \<and> snd (last h))"

lemma starts_snoc:
  "starts pt (h @ [(t, inp)]) =
     (if rises h inp \<and> (\<forall>s \<in> set (starts pt h). t - s \<ge> pt) then starts pt h @ [t] else starts pt h)"
  by (auto simp: starts_def pulse_starts_snoc rises_def Let_def)

lemma starts_nil [simp]: "starts pt [] = []"
  by (simp add: starts_def)

definition tp_inv :: "int \<Rightarrow> history \<Rightarrow> u8 \<Rightarrow> int \<Rightarrow> bool \<Rightarrow> int \<Rightarrow> bool" where
  "tp_inv pt h ph st q et \<longleftrightarrow>
     (q \<longleftrightarrow> starts_now pt h \<or> pulse_running pt h) \<and> 0 \<le> et \<and> et \<le> pt \<and>
     set (starts pt h) \<subseteq> fst ` set h \<and>
     (ph = IDLE \<and> \<not> q \<or>
      ph = TIMING \<and> q \<and> starts pt h \<noteq> [] \<and> st = last (starts pt h) \<and>
        (\<forall>s \<in> set (butlast (starts pt h)). now_of h - s \<ge> pt) \<or>
      ph = COMPLETE \<and> \<not> q \<and> starts pt h \<noteq> [] \<and> st = last (starts pt h))"

lemma now_of_snoc [simp]: "now_of (h @ [(t, inp)]) = t"
  by (simp add: now_of_def)

lemma starts_now_snoc: "starts_now pt (h @ [(t, inp)]) \<longleftrightarrow> rises h inp \<and> (\<forall>s \<in> set (starts pt h). t - s \<ge> pt)"
  by (simp add: starts_now_def starts_snoc)

text \<open>Once no pulse runs, whatever the phase says, the next rising edge starts one.\<close>

lemma tp_quiet:
  assumes "\<forall>s \<in> set (starts pt h). t - s \<ge> pt" "0 \<le> pt" "set (starts pt h) \<subseteq> fst ` set h"
  shows "rises h inp \<Longrightarrow> tp_inv pt (h @ [(t, inp)]) TIMING t True (min 0 pt)"
    "\<not> rises h inp \<Longrightarrow> tp_inv pt (h @ [(t, inp)]) IDLE st False 0"
    "\<not> rises h inp \<Longrightarrow> starts pt h \<noteq> [] \<Longrightarrow> st = last (starts pt h) \<Longrightarrow> tp_inv pt (h @ [(t, inp)]) COMPLETE st False pt"
  using assms by (auto simp: tp_inv_def starts_now_snoc pulse_running_def starts_snoc not_le [symmetric])

lemma tp_running:
  assumes "starts pt h \<noteq> []" "st = last (starts pt h)" "t - st < pt" "0 \<le> t - st" "0 \<le> pt"
    "\<forall>s \<in> set (butlast (starts pt h)). t - s \<ge> pt" "set (starts pt h) \<subseteq> fst ` set h"
  shows "tp_inv pt (h @ [(t, inp)]) TIMING st True (min (t - st) pt)"
proof -
  have l: "last (starts pt h) \<in> set (starts pt h)" using assms(1) by simp
  then have s: "starts pt (h @ [(t, inp)]) = starts pt h" using assms(2,3) by (auto simp: starts_snoc not_le)
  then have "pulse_running pt (h @ [(t, inp)])" using assms(2,3) l by (auto simp: pulse_running_def)
  then show ?thesis using assms s by (auto simp: tp_inv_def)
qed

interpretation tp: timer_spec Tp tp_inv
proof
  show "is_timer Tp" by (simp add: is_timer_def)
  show "0 \<le> pt \<Longrightarrow> tp_inv pt [] IDLE 0 False 0" for pt
    by (simp add: tp_inv_def starts_now_def pulse_running_def)
  fix pt h t inp ph st q et ph' st' q' et'
  assume v: "valid_history pt (h @ [(t, inp)])" and i: "tp_inv pt h ph st q et"
    and n: "timer_next (timer_kind Tp) t inp pt ph st (h \<noteq> [] \<and> snd (last h)) = (ph', st', q', et')"
  have pt: "0 \<le> pt" and mono: "\<And>s. s \<in> set h \<Longrightarrow> fst s \<le> t \<and> 0 \<le> fst s" and tmax: "t \<le> i64_MAX"
    using v by (auto simp: valid_history_def sorted_append)
  have sub: "set (starts pt h) \<subseteq> fst ` set h" using i by (simp add: tp_inv_def)
  have now: "now_of h \<le> t" if "h \<noteq> []" using that mono [of "last h"] by (simp add: now_of_def)
  have quiet: "\<forall>s \<in> set (starts pt h). t - s \<ge> pt" if "\<not> q"
    using that i now by (cases "h = []") (force simp: tp_inv_def pulse_running_def)+
  have st: "ph \<noteq> IDLE \<Longrightarrow> elapsed_since ph t st = t - st \<and> 0 \<le> t - st \<and> starts pt h \<noteq> [] \<and> st = last (starts pt h)"
  proof -
    assume ph: "ph \<noteq> IDLE"
    with i have l: "starts pt h \<noteq> []" "st = last (starts pt h)" by (auto simp: tp_inv_def)
    then have "st \<in> fst ` set h" using sub last_in_set by blast
    then have "0 \<le> st" "st \<le> t" using mono by auto
    with l ph tmax show ?thesis by (simp add: elapsed_exact)
  qed
  have nx: "timer_next Pulse t inp pt ph st (h \<noteq> [] \<and> snd (last h)) = (ph', st', q', et')" using n by simp
  have complete: "t - st \<ge> pt" if "ph = COMPLETE"
  proof -
    have "\<not> q" "ph \<noteq> IDLE" using that i by (auto simp: tp_inv_def)
    with st have "st \<in> set (starts pt h)" by simp
    with quiet [OF \<open>\<not> q\<close>] show ?thesis by simp
  qed
  consider (idle) "ph = IDLE" "\<not> q" | (running) "ph = TIMING" "t - st < pt" | (over) "ph = TIMING \<or> ph = COMPLETE" "t - st \<ge> pt"
    using i complete by (cases "ph = IDLE"; cases "t - st < pt") (auto simp: tp_inv_def)
  then show "tp_inv pt (h @ [(t, inp)]) ph' st' q' et'"
  proof cases
    case idle
    from nx show ?thesis
      using tp_quiet(1,2) [OF quiet [OF idle(2)] pt sub] by (auto simp: idle(1) rises_def Let_def elapsed_since_def split: if_splits)
  next
    case running
    with i now have "\<forall>s \<in> set (butlast (starts pt h)). t - s \<ge> pt" by (cases "h = []") (force simp: tp_inv_def)+
    from tp_running [OF _ _ running(2) _ pt this sub] st running nx show ?thesis by (auto simp: Let_def)
  next
    case over
    have "\<forall>s \<in> set (butlast (starts pt h)). t - s \<ge> pt \<Longrightarrow> \<forall>s \<in> set (starts pt h). t - s \<ge> pt"
      using st over append_butlast_last_id [of "starts pt h"]
      by (metis Un_iff empty_iff insert_iff list.set(1) list.set(2) phases_distinct(4,5) set_append)
    moreover have "ph = TIMING \<Longrightarrow> \<forall>s \<in> set (butlast (starts pt h)). t - s \<ge> pt"
      using i now by (cases "h = []") (force simp: tp_inv_def)+
    moreover have "ph = COMPLETE \<Longrightarrow> \<not> q" using i by (auto simp: tp_inv_def)
    ultimately have quiet': "\<forall>s \<in> set (starts pt h). t - s \<ge> pt" using over(1) quiet by blast
    note tq = tp_quiet [OF quiet' pt sub]
    from st over nx show ?thesis
      using tq by (cases inp) (auto simp: Let_def rises_def split: if_splits)
  qed
qed

text \<open>
  Claim C20.  \<open>TP\<close> over any history of invocations: the output is true exactly while a pulse runs, that
  is for less than the preset after an instant at which the input rose with no earlier pulse running,
  and at that instant itself.  A pulse is neither prolonged by a second rise nor cut short by a fall.
  With a preset of zero every rise still gives one invocation of output.
\<close>
theorem tp_follows_its_diagram:
  assumes "fresh_timer Tp base pt m" "valid_history pt h"
  shows "\<exists>m' q et. run_timer Tp base h m = Some m' \<and> (q \<longleftrightarrow> starts_now pt h \<or> pulse_running pt h) \<and> 0 \<le> et \<and> et \<le> pt \<and>
    fields Tp base m' ! 2 = V_Bool q \<and> fields Tp base m' ! 3 = V_Time et"
  using tp.run_keeps [OF assms] by (auto simp: tp_inv_def)

theorem tp_follows_its_diagram_witness:
  "\<exists>m' q et. run_timer Tp 0 [(0, True), (5, False), (7, True), (10, True)]
      (put 0 1 (V_Time 10) (Memory_new (map bf_ty (layout Tp)) 0 \<lparr>il_granularity = ElementIndex, il_byte_order = LittleEndian\<rparr>)) = Some m' \<and>
    (q \<longleftrightarrow> starts_now 10 [(0, True), (5, False), (7, True), (10, True)] \<or> pulse_running 10 [(0, True), (5, False), (7, True), (10, True)]) \<and>
    0 \<le> et \<and> et \<le> 10 \<and> fields Tp 0 m' ! 2 = V_Bool q \<and> fields Tp 0 m' ! 3 = V_Time et"
  by (rule tp_follows_its_diagram [OF fresh_new]) (simp_all add: is_timer_def valid_history_def i64_MAX_def)

section \<open>Counting up\<close>

text \<open>A history of a counter: the count input and the reset at each invocation.\<close>

fun run_ctu :: "nat \<Rightarrow> (bool \<times> bool) list \<Rightarrow> Memory \<Rightarrow> Memory option" where
  "run_ctu base [] m = Some m"
| "run_ctu base ((cu, reset) # h) m =
     (case fb_step Ctu base (clock_at 0) (put base 1 (V_Bool reset) (put base 0 (V_Bool cu) m)) of
        (Inl _, _) \<Rightarrow> None
      | (Inr _, m') \<Rightarrow> run_ctu base h m')"

lemma run_ctu_append: "run_ctu base (h @ h') m = Option.bind (run_ctu base h m) (run_ctu base h')"
  by (induction base h m rule: run_ctu.induct) (auto split: prod.splits sum.splits)

text \<open>The invocations that found the input risen, with no reset there or later.\<close>

definition counted :: "(bool \<times> bool) list \<Rightarrow> nat set" where
  "counted h = {j. j < length h \<and> fst (h ! j) \<and> (j = 0 \<or> \<not> fst (h ! (j - 1))) \<and> (\<forall>k. j \<le> k \<and> k < length h \<longrightarrow> \<not> snd (h ! k))}"

lemma counted_finite: "finite (counted h)"
  by (rule finite_subset [of _ "{..<length h}"]) (auto simp: counted_def)

lemma counted_snoc:
  "counted (h @ [(cu, reset)]) =
     (if reset then {} else if cu \<and> \<not> (h \<noteq> [] \<and> fst (last h)) then insert (length h) (counted h) else counted h)"
proof -
  have "j \<in> counted (h @ [(cu, reset)]) \<longleftrightarrow> \<not> reset \<and> (j \<in> counted h \<or> (j = length h \<and> cu \<and> \<not> (h \<noteq> [] \<and> fst (last h))))" for j
  proof (cases "j < length h")
    case True
    have "(\<forall>k. j \<le> k \<and> k < length (h @ [(cu, reset)]) \<longrightarrow> \<not> snd ((h @ [(cu, reset)]) ! k)) \<longleftrightarrow>
        \<not> reset \<and> (\<forall>k. j \<le> k \<and> k < length h \<longrightarrow> \<not> snd (h ! k))"
      using True by (auto simp: nth_append less_Suc_eq)
    with True show ?thesis by (auto simp: counted_def nth_append)
  next
    case False
    show ?thesis
    proof (cases "j = length h")
      case True
      then have "(\<forall>k. j \<le> k \<and> k < length (h @ [(cu, reset)]) \<longrightarrow> \<not> snd ((h @ [(cu, reset)]) ! k)) \<longleftrightarrow> \<not> reset"
        by (auto simp: nth_append)
      moreover have "h \<noteq> [] \<Longrightarrow> (h @ [(cu, reset)]) ! (length h - 1) = last h"
        by (simp add: nth_append last_conv_nth)
      ultimately show ?thesis using True by (cases "h = []") (simp_all add: counted_def conj_ac)
    qed (use False in \<open>simp add: counted_def\<close>)
  qed
  note member = this
  show ?thesis by (rule set_eqI) (simp add: member, blast)
qed

lemma sint_count: "0 \<le> c \<Longrightarrow> c \<le> 32767 \<Longrightarrow> sint (word_of_int c :: u16) = c"
  by (simp add: signed_of_int signed_take_bit_int_eq_self)

definition fresh_ctu :: "nat \<Rightarrow> u16 \<Rightarrow> Memory \<Rightarrow> bool" where
  "fresh_ctu base pv m \<longleftrightarrow> unforced Ctu base m \<and>
     fields Ctu base m = [V_Bool False, V_Bool False, V_Int pv, V_Bool False, V_Int 0, V_Bool False]"

lemma up_count_snoc:
  "up_count reset (cu \<and> \<not> (h \<noteq> [] \<and> fst (last h))) (min 32767 (int (card (counted h)))) = min 32767 (int (card (counted (h @ [(cu, reset)]))))"
proof -
  have "length h \<notin> counted h" by (simp add: counted_def)
  then have "card (insert (length h) (counted h)) = Suc (card (counted h))" using counted_finite by simp
  then show ?thesis by (auto simp: counted_snoc up_count_def CV_MAX_def)
qed

lemma ctu_run:
  assumes "fresh_ctu base pv m"
  shows "\<exists>m' cu r q. run_ctu base h m = Some m' \<and> unforced Ctu base m' \<and>
    fields Ctu base m' = [V_Bool cu, V_Bool r, V_Int pv, V_Bool q, V_Int (word_of_int (min 32767 (int (card (counted h))))), V_Bool (h \<noteq> [] \<and> fst (last h))] \<and>
    (h \<noteq> [] \<longrightarrow> (q \<longleftrightarrow> min 32767 (int (card (counted h))) \<ge> sint pv))"
proof (induction h rule: rev_induct)
  case Nil
  have "counted [] = {}" by (simp add: counted_def)
  with assms show ?case by (simp add: fresh_ctu_def) blast
next
  case (snoc s h)
  obtain cu r where s: "s = (cu, r)" by force
  let ?c = "min 32767 (int (card (counted h)))"
  from snoc obtain m1 cu1 r1 q1 where m1: "run_ctu base h m = Some m1" "unforced Ctu base m1"
    "fields Ctu base m1 = [V_Bool cu1, V_Bool r1, V_Int pv, V_Bool q1, V_Int (word_of_int ?c), V_Bool (h \<noteq> [] \<and> fst (last h))]" by blast
  let ?m = "put base 1 (V_Bool r) (put base 0 (V_Bool cu) m1)"
  have f: "unforced Ctu base ?m"
    "fields Ctu base ?m = [V_Bool cu, V_Bool r, V_Int pv, V_Bool q1, V_Int (word_of_int ?c), V_Bool (h \<noteq> [] \<and> fst (last h))]"
    using m1 by simp_all
  have c: "sint (word_of_int ?c :: u16) = ?c" by (intro sint_count) simp_all
  from ctu_leaves [OF f, of "clock_at 0"] obtain m' where m': "fb_step Ctu base (clock_at 0) ?m = (Inr (), m')" "unforced Ctu base m'"
    "fields Ctu base m' = [V_Bool cu, V_Bool r, V_Int pv,
       V_Bool (min 32767 (int (card (counted (h @ [(cu, r)])))) \<ge> sint pv),
       V_Int (word_of_int (min 32767 (int (card (counted (h @ [(cu, r)])))))), V_Bool cu]"
    unfolding c up_count_snoc by (auto simp: leaves_def)
  moreover have "run_ctu base (h @ [s]) m = Some m'" using m1(1) m'(1) by (simp add: s run_ctu_append)
  ultimately show ?case by (auto simp: s)
qed

text \<open>
  \<open>CTU\<close> over any history of invocations: its count is the number of rising edges since the
  last reset, stopping at 32767 and not at the preset, and its output tells whether the count has
  reached the preset.  An input that is already true at the very first invocation counts as an edge.
\<close>
theorem ctu_counts_edges:
  assumes "fresh_ctu base pv m" "h \<noteq> []"
  shows "\<exists>m'. run_ctu base h m = Some m' \<and>
    fields Ctu base m' ! 4 = V_Int (word_of_int (min 32767 (int (card (counted h))))) \<and>
    fields Ctu base m' ! 3 = V_Bool (min 32767 (int (card (counted h))) \<ge> sint pv)"
  using ctu_run [OF assms(1), of h] assms(2) by auto

theorem ctu_counts_edges_witness:
  "\<exists>m'. run_ctu 0 [(True, False)]
      (put 0 2 (V_Int 1) (Memory_new (map bf_ty (layout Ctu)) 0 \<lparr>il_granularity = ElementIndex, il_byte_order = LittleEndian\<rparr>)) = Some m' \<and>
    fields Ctu 0 m' ! 4 = V_Int 1 \<and> fields Ctu 0 m' ! 3 = V_Bool True"
proof -
  let ?m = "put 0 2 (V_Int 1) (Memory_new (map bf_ty (layout Ctu)) 0 \<lparr>il_granularity = ElementIndex, il_byte_order = LittleEndian\<rparr>)"
  have "fresh_ctu 0 1 ?m"
    using fresh_fields [of Ctu 0 "\<lparr>il_granularity = ElementIndex, il_byte_order = LittleEndian\<rparr>"]
    by (simp add: fresh_ctu_def del: layout.simps) (simp add: layout_defs)
  moreover have "counted [(True, False)] = {0}" by (auto simp: counted_def)
  ultimately show ?thesis using ctu_counts_edges [of 0 1 ?m "[(True, False)]"] by simp
qed

end
