(* ===== verification/Vm_Values.thy ===== *)
theory Vm_Values
  imports Std_Blocks
begin

text \<open>
  The operations of the interpreter on values, from \<open>crates/salman-vm/src/exec.rs\<close>, with the operation
  names of \<open>crates/salman-vm/src/bytecode.rs\<close>: arithmetic, bit strings, comparison and conversion, and
  the faults they report.  An \<open>i128\<close> is an \<open>int\<close> with its wrap-around written out; a float is a bit
  pattern.
\<close>

section \<open>Operations\<close>

datatype BinOp = Add | Sub | Mul | Div | Mod | Pow | And | Or | Xor | Eq | Ne | Lt | Le | Gt | Ge

definition is_comparison :: "BinOp \<Rightarrow> bool" where
  "is_comparison op \<longleftrightarrow> op \<in> {Eq, Ne, Lt, Le, Gt, Ge}"

datatype UnOp = Neg | Not_op

text \<open>The derived \<open>Debug\<close> form, as the messages print it.\<close>

fun BinOp_debug :: "BinOp \<Rightarrow> string" where
  "BinOp_debug Add = ''Add''"
| "BinOp_debug Sub = ''Sub''"
| "BinOp_debug Mul = ''Mul''"
| "BinOp_debug Div = ''Div''"
| "BinOp_debug Mod = ''Mod''"
| "BinOp_debug Pow = ''Pow''"
| "BinOp_debug And = ''And''"
| "BinOp_debug Or = ''Or''"
| "BinOp_debug Xor = ''Xor''"
| "BinOp_debug Eq = ''Eq''"
| "BinOp_debug Ne = ''Ne''"
| "BinOp_debug Lt = ''Lt''"
| "BinOp_debug Le = ''Le''"
| "BinOp_debug Gt = ''Gt''"
| "BinOp_debug Ge = ''Ge''"

definition unsupported_on :: "BinOp \<Rightarrow> ElementaryType \<Rightarrow> FaultKind" where
  "unsupported_on op ty = Unsupported (BinOp_debug op @ '' on '' @ ElementaryType_name ty)"

section \<open>Integers\<close>

definition wrapping_i128 :: "int \<Rightarrow> int" where
  "wrapping_i128 x = sint (word_of_int x :: 128 word)"

definition wide_integer :: "Value \<Rightarrow> int option" where
  "wide_integer value =
     (case value of
        V_Ulint number \<Rightarrow> Some (uint number)
      | V_Lword number \<Rightarrow> Some (uint number)
      | other \<Rightarrow> as_i64 other)"

definition expect_i128 :: "Value \<Rightarrow> ElementaryType \<Rightarrow> FaultKind + int" where
  "expect_i128 value ty = ok_or (as_i64 value) (TypeMismatch ty (type_of value))"

definition expect_f64 :: "Value \<Rightarrow> ElementaryType \<Rightarrow> FaultKind + nat" where
  "expect_f64 value ty = ok_or (as_f64 value) (TypeMismatch ty (type_of value))"

fun wrap_int :: "int \<Rightarrow> ElementaryType \<Rightarrow> FaultKind + Value" where
  "wrap_int value E_Sint = Inr (V_Sint (word_of_int value))"
| "wrap_int value E_Int = Inr (V_Int (word_of_int value))"
| "wrap_int value E_Dint = Inr (V_Dint (word_of_int value))"
| "wrap_int value E_Lint = Inr (V_Lint (word_of_int value))"
| "wrap_int value E_Usint = Inr (V_Usint (word_of_int value))"
| "wrap_int value E_Uint = Inr (V_Uint (word_of_int value))"
| "wrap_int value E_Udint = Inr (V_Udint (word_of_int value))"
| "wrap_int value E_Ulint = Inr (V_Ulint (word_of_int value))"
| "wrap_int value E_Byte = Inr (V_Byte (word_of_int value))"
| "wrap_int value E_Word = Inr (V_Word (word_of_int value))"
| "wrap_int value E_Dword = Inr (V_Dword (word_of_int value))"
| "wrap_int value E_Lword = Inr (V_Lword (word_of_int value))"
| "wrap_int value E_Bool = Inr (V_Bool (value AND 1 = 1))"
| "wrap_int value ty = Inl (Unsupported (''integer result of type '' @ ElementaryType_name ty))"

definition bitwise_i128 :: "BinOp \<Rightarrow> ElementaryType \<Rightarrow> int \<Rightarrow> int \<Rightarrow> FaultKind + Value" where
  "bitwise_i128 op ty a b =
     (case op of
        And \<Rightarrow> wrap_int (a AND b) ty
      | Or \<Rightarrow> wrap_int (a OR b) ty
      | Xor \<Rightarrow> wrap_int (a XOR b) ty
      | _ \<Rightarrow> Inl (unsupported_on op ty))"

definition integer_arith :: "BinOp \<Rightarrow> ElementaryType \<Rightarrow> int \<Rightarrow> int \<Rightarrow> FaultKind + Value" where
  "integer_arith op ty a b =
     (case op of
        Add \<Rightarrow> wrap_int (wrapping_i128 (a + b)) ty
      | Sub \<Rightarrow> wrap_int (wrapping_i128 (a - b)) ty
      | Mul \<Rightarrow> wrap_int (wrapping_i128 (a * b)) ty
      | Div \<Rightarrow> if b = 0 then Inl DivisionByZero else wrap_int (wrapping_i128 (tdiv a b)) ty
      | Mod \<Rightarrow> if b = 0 then Inl DivisionByZero else wrap_int (wrapping_i128 (trem a b)) ty
      | And \<Rightarrow> bitwise_i128 op ty a b
      | Or \<Rightarrow> bitwise_i128 op ty a b
      | Xor \<Rightarrow> bitwise_i128 op ty a b
      | Pow \<Rightarrow> Inl (Unsupported ''exponentiation on integers; the compiler converts to a real first'')
      | _ \<Rightarrow> Inl (unsupported_on op ty))"

definition signed_arith :: "BinOp \<Rightarrow> ElementaryType \<Rightarrow> Value \<Rightarrow> Value \<Rightarrow> FaultKind + Value" where
  "signed_arith op ty lhs rhs =
     and_then (expect_i128 lhs ty) (\<lambda>a. and_then (expect_i128 rhs ty) (\<lambda>b. integer_arith op ty a b))"

definition unsigned_arith :: "BinOp \<Rightarrow> ElementaryType \<Rightarrow> Value \<Rightarrow> Value \<Rightarrow> FaultKind + Value" where
  "unsigned_arith op ty lhs rhs =
     and_then (expect_i128 lhs ty) (\<lambda>a. and_then (expect_i128 rhs ty) (\<lambda>b. integer_arith op ty a b))"

definition bitwise :: "BinOp \<Rightarrow> ElementaryType \<Rightarrow> Value \<Rightarrow> Value \<Rightarrow> FaultKind + Value" where
  "bitwise op ty lhs rhs =
     (if ty = E_Bool then
        (case (lhs, rhs) of
           (V_Bool a, V_Bool b) \<Rightarrow>
             (case op of
                And \<Rightarrow> Inr (V_Bool (a \<and> b))
              | Or \<Rightarrow> Inr (V_Bool (a \<or> b))
              | Xor \<Rightarrow> Inr (V_Bool (a \<noteq> b))
              | _ \<Rightarrow> Inl (Unsupported (BinOp_debug op @ '' on BOOL'')))
         | _ \<Rightarrow> Inl (TypeMismatch E_Bool (type_of lhs)))
      else and_then (expect_i128 lhs ty) (\<lambda>a. and_then (expect_i128 rhs ty) (\<lambda>b. bitwise_i128 op ty a b)))"

section \<open>Reals and durations\<close>

text \<open>The result as the type's value: \<open>result as f32\<close> for a \<open>REAL\<close>.\<close>

definition real_value :: "ElementaryType \<Rightarrow> nat \<Rightarrow> Value" where
  "real_value ty result = (if ty = E_Real then Value_real (of_nat (f64_to_f32 result)) else Value_lreal (of_nat result))"

definition real_arith :: "BinOp \<Rightarrow> ElementaryType \<Rightarrow> Value \<Rightarrow> Value \<Rightarrow> FaultKind + Value" where
  "real_arith op ty lhs rhs =
     and_then (expect_f64 lhs ty) (\<lambda>a. and_then (expect_f64 rhs ty) (\<lambda>b.
       case op of
         Add \<Rightarrow> Inr (real_value ty (fl_add F64 a b))
       | Sub \<Rightarrow> Inr (real_value ty (fl_sub F64 a b))
       | Mul \<Rightarrow> Inr (real_value ty (fl_mul F64 a b))
       | Div \<Rightarrow> Inr (real_value ty (fl_div F64 a b))
       | Mod \<Rightarrow> Inr (real_value ty (fl_rem F64 a b))
       | Pow \<Rightarrow> Inl (Unsupported ''exponentiation; salman implements no transcendental functions in this version'')
       | _ \<Rightarrow> Inl (unsupported_on op ty)))"

definition duration_value :: "ElementaryType \<Rightarrow> Duration \<Rightarrow> Value" where
  "duration_value ty d = (if ty = E_Time then V_Time d else V_LTime d)"

definition unwrap_or :: "'a option \<Rightarrow> 'a \<Rightarrow> 'a" where
  "unwrap_or opt d = (case opt of Some x \<Rightarrow> x | None \<Rightarrow> d)"

definition duration_arith :: "BinOp \<Rightarrow> ElementaryType \<Rightarrow> Value \<Rightarrow> Value \<Rightarrow> FaultKind + Value" where
  "duration_arith op ty lhs rhs =
     (let make = duration_value ty in
      case (op, as_duration lhs, as_duration rhs) of
        (Add, Some a, Some b) \<Rightarrow> Inr (make (Duration_saturating_add a b))
      | (Sub, Some a, Some b) \<Rightarrow> Inr (make (unwrap_or (Duration_checked_sub a b) (if a > b then i64_MAX else i64_MIN)))
      | (Mul, Some a, None) \<Rightarrow>
          and_then (ok_or (as_i64 rhs) (TypeMismatch E_Lint (type_of rhs))) (\<lambda>factor.
          Inr (make (unwrap_or (Duration_checked_mul a factor) i64_MAX)))
      | (Mul, None, Some b) \<Rightarrow>
          and_then (ok_or (as_i64 lhs) (TypeMismatch E_Lint (type_of lhs))) (\<lambda>factor.
          Inr (make (unwrap_or (Duration_checked_mul b factor) i64_MAX)))
      | (Div, Some a, None) \<Rightarrow>
          and_then (ok_or (as_i64 rhs) (TypeMismatch E_Lint (type_of rhs))) (\<lambda>divisor.
          if divisor = 0 then Inl DivisionByZero
          else Inr (make (unwrap_or (Duration_checked_div a divisor) 0)))
      | _ \<Rightarrow> Inl (unsupported_on op ty))"

section \<open>Comparison\<close>

datatype Ordering = Less | Equal | Greater

definition cmp_int :: "int \<Rightarrow> int \<Rightarrow> Ordering" where
  "cmp_int a b = (if a < b then Less else if a = b then Equal else Greater)"

definition cmp_bool :: "bool \<Rightarrow> bool \<Rightarrow> Ordering" where
  "cmp_bool a b = (if a = b then Equal else if b then Less else Greater)"

text \<open>Slices compare element by element, a prefix being less.\<close>

fun cmp_slice :: "'a::len word list \<Rightarrow> 'a word list \<Rightarrow> Ordering" where
  "cmp_slice [] [] = Equal"
| "cmp_slice [] (y # ys) = Less"
| "cmp_slice (x # xs) [] = Greater"
| "cmp_slice (x # xs) (y # ys) = (case cmp_int (uint x) (uint y) of Equal \<Rightarrow> cmp_slice xs ys | o' \<Rightarrow> o')"

definition ordering_result :: "BinOp \<Rightarrow> Ordering \<Rightarrow> FaultKind + Value" where
  "ordering_result op o' =
     (case op of
        Eq \<Rightarrow> Inr (V_Bool (o' = Equal))
      | Ne \<Rightarrow> Inr (V_Bool (o' \<noteq> Equal))
      | Lt \<Rightarrow> Inr (V_Bool (o' = Less))
      | Le \<Rightarrow> Inr (V_Bool (o' \<noteq> Greater))
      | Gt \<Rightarrow> Inr (V_Bool (o' = Greater))
      | Ge \<Rightarrow> Inr (V_Bool (o' \<noteq> Less))
      | _ \<Rightarrow> Inl (Unsupported (BinOp_debug op @ '' as a comparison'')))"

definition compare_numbers :: "BinOp \<Rightarrow> Value \<Rightarrow> Value \<Rightarrow> FaultKind + Value" where
  "compare_numbers op lhs rhs =
     (case (as_duration lhs, as_duration rhs) of
        (Some a, Some b) \<Rightarrow> ordering_result op (cmp_int a b)
      | _ \<Rightarrow>
        (case (as_i64 lhs, as_i64 rhs) of
           (Some a, Some b) \<Rightarrow> ordering_result op (cmp_int a b)
         | _ \<Rightarrow>
           (case (as_f64 lhs, as_f64 rhs) of
              (Some a, Some b) \<Rightarrow>
                (case fl_cmp F64 a b of
                   Some s \<Rightarrow> ordering_result op (cmp_int s 0)
                 | None \<Rightarrow> Inr (V_Bool (op = Ne)))
            | _ \<Rightarrow> Inl (TypeMismatch (type_of lhs) (type_of rhs)))))"

definition compare :: "BinOp \<Rightarrow> Value \<Rightarrow> Value \<Rightarrow> FaultKind + Value" where
  "compare op lhs rhs =
     (case (lhs, rhs) of
        (V_Bool a, V_Bool b) \<Rightarrow> ordering_result op (cmp_bool a b)
      | (V_String a, V_String b) \<Rightarrow> ordering_result op (cmp_slice a b)
      | (V_WString a, V_WString b) \<Rightarrow> ordering_result op (cmp_slice a b)
      | (V_Date a, V_Date b) \<Rightarrow> ordering_result op (cmp_int a b)
      | (V_TimeOfDay a, V_TimeOfDay b) \<Rightarrow> ordering_result op (cmp_int a b)
      | (V_DateAndTime a, V_DateAndTime b) \<Rightarrow> ordering_result op (cmp_int a b)
      | _ \<Rightarrow> compare_numbers op lhs rhs)"

section \<open>Dispatch\<close>

definition binary :: "BinOp \<Rightarrow> ElementaryType \<Rightarrow> Value \<Rightarrow> Value \<Rightarrow> FaultKind + Value" where
  "binary op ty lhs rhs =
     (if is_comparison op then compare op lhs rhs
      else if ty \<in> {E_Bool, E_Byte, E_Word, E_Dword, E_Lword} then bitwise op ty lhs rhs
      else if ty \<in> {E_Sint, E_Int, E_Dint, E_Lint} then signed_arith op ty lhs rhs
      else if ty \<in> {E_Usint, E_Uint, E_Udint, E_Ulint} then unsigned_arith op ty lhs rhs
      else if ty \<in> {E_Real, E_Lreal} then real_arith op ty lhs rhs
      else if ty \<in> {E_Time, E_LTime} then duration_arith op ty lhs rhs
      else Inl (unsupported_on op ty))"

definition negate :: "ElementaryType \<Rightarrow> Value \<Rightarrow> FaultKind + Value" where
  "negate ty operand =
     (if ty \<in> {E_Real, E_Lreal} then
        and_then (expect_f64 operand ty) (\<lambda>v. Inr (real_value ty (fl_negate F64 v)))
      else if ty \<in> {E_Time, E_LTime} then
        and_then (ok_or (as_duration operand) (TypeMismatch ty (type_of operand))) (\<lambda>d.
        Inr (duration_value ty (unwrap_or (Duration_checked_sub 0 d) i64_MAX)))
      else and_then (expect_i128 operand ty) (\<lambda>v. wrap_int (wrapping_i128 (- v)) ty))"

definition complement :: "Value \<Rightarrow> FaultKind + Value" where
  "complement operand =
     (case operand of
        V_Bool v \<Rightarrow> Inr (V_Bool (\<not> v))
      | V_Byte v \<Rightarrow> Inr (V_Byte (NOT v))
      | V_Word v \<Rightarrow> Inr (V_Word (NOT v))
      | V_Dword v \<Rightarrow> Inr (V_Dword (NOT v))
      | V_Lword v \<Rightarrow> Inr (V_Lword (NOT v))
      | other \<Rightarrow> Inl (TypeMismatch E_Bool (type_of other)))"

definition unary :: "UnOp \<Rightarrow> ElementaryType \<Rightarrow> Value \<Rightarrow> FaultKind + Value" where
  "unary op ty operand = (case op of Neg \<Rightarrow> negate ty operand | Not_op \<Rightarrow> complement operand)"

section \<open>Conversion\<close>

text \<open>\<open>value as i8\<close> and its kin.\<close>

definition to_signed :: "nat \<Rightarrow> nat \<Rightarrow> int" where
  "to_signed w value = fl_to_int F64 (- (2 ^ (w - 1))) (2 ^ (w - 1) - 1) value"

definition to_unsigned :: "nat \<Rightarrow> nat \<Rightarrow> int" where
  "to_unsigned w value = fl_to_int F64 0 (2 ^ w - 1) value"

fun float_to_int :: "nat \<Rightarrow> ElementaryType \<Rightarrow> FaultKind + Value" where
  "float_to_int value E_Sint = Inr (V_Sint (word_of_int (to_signed 8 value)))"
| "float_to_int value E_Int = Inr (V_Int (word_of_int (to_signed 16 value)))"
| "float_to_int value E_Dint = Inr (V_Dint (word_of_int (to_signed 32 value)))"
| "float_to_int value E_Lint = Inr (V_Lint (word_of_int (to_signed 64 value)))"
| "float_to_int value E_Usint = Inr (V_Usint (word_of_int (to_unsigned 8 value)))"
| "float_to_int value E_Uint = Inr (V_Uint (word_of_int (to_unsigned 16 value)))"
| "float_to_int value E_Udint = Inr (V_Udint (word_of_int (to_unsigned 32 value)))"
| "float_to_int value E_Ulint = Inr (V_Ulint (word_of_int (to_unsigned 64 value)))"
| "float_to_int value E_Byte = Inr (V_Byte (word_of_int (to_unsigned 8 value)))"
| "float_to_int value E_Word = Inr (V_Word (word_of_int (to_unsigned 16 value)))"
| "float_to_int value E_Dword = Inr (V_Dword (word_of_int (to_unsigned 32 value)))"
| "float_to_int value E_Lword = Inr (V_Lword (word_of_int (to_unsigned 64 value)))"
| "float_to_int value E_Bool = Inr (V_Bool (fl_cmp F64 value 0 \<noteq> Some 0))"
| "float_to_int value ty = Inl (Unsupported (''converting a real to '' @ ElementaryType_name ty))"

definition cannot_convert :: "Value \<Rightarrow> string \<Rightarrow> FaultKind" where
  "cannot_convert value to = Unsupported (''converting '' @ ElementaryType_name (type_of value) @ '' to '' @ to)"

definition convert :: "Value \<Rightarrow> ElementaryType \<Rightarrow> FaultKind + Value" where
  "convert value to =
     (if type_of value = to then Inr value
      else if to \<in> {E_Real, E_Lreal} then
        (case as_i64 value of
           Some i \<Rightarrow> Inr (real_value to (fl_of_int F64 i))
         | None \<Rightarrow>
           (case as_f64 value of
              Some f \<Rightarrow> Inr (real_value to f)
            | None \<Rightarrow>
              (case as_duration value of
                 Some d \<Rightarrow> Inr (real_value to (fl_of_int F64 d))
               | None \<Rightarrow> Inl (cannot_convert value (ElementaryType_name to)))))
      else if to = E_LTime then ok_or (map_option V_LTime (as_duration value)) (cannot_convert value ''LTIME'')
      else if to = E_Time then ok_or (map_option V_Time (as_duration value)) (cannot_convert value ''TIME'')
      else if to = E_Bool then
        (case as_i64 value of
           Some i \<Rightarrow> Inr (V_Bool (i \<noteq> 0))
         | None \<Rightarrow> Inl (cannot_convert value ''BOOL''))
      else
        (case as_i64 value of
           Some i \<Rightarrow> wrap_int i to
         | None \<Rightarrow>
           (case as_f64 value of
              Some f \<Rightarrow> float_to_int f to
            | None \<Rightarrow> Inl (cannot_convert value (ElementaryType_name to)))))"

end
