(* ===== verification/Ieee_Exact.thy ===== *)
theory Ieee_Exact
  imports Ieee_Float
begin

text \<open>
  Where the floating point of \<open>Ieee_Float\<close> does not round: a count of units whose significant bits fit
  the fraction is a pattern, integers below \<open>2 ^ 53\<close> survive the way into \<open>f64\<close> and back, and every
  \<open>f32\<close> survives widening and narrowing.
\<close>

lemma ilog2_bounds: "0 < n \<Longrightarrow> 2 ^ ilog2 n \<le> n \<and> n < 2 ^ Suc (ilog2 n)"
proof (induction n rule: ilog2.induct)
  case (1 n)
  show ?case
  proof (cases "n < 2")
    case True
    with 1(2) have "n = 1" by simp
    then show ?thesis by (simp add: ilog2.simps)
  next
    case False
    with 1 have "2 ^ ilog2 (n div 2) \<le> n div 2" "n div 2 < 2 ^ Suc (ilog2 (n div 2))" by simp_all
    then have "2 * 2 ^ ilog2 (n div 2) \<le> n \<and> n < 4 * 2 ^ ilog2 (n div 2)"
      by (simp add: less_eq_div_iff_mult_less_eq div_less_iff_less_mult mult.commute)
    then show ?thesis using False by (simp add: ilog2.simps [of n])
  qed
qed

lemma ilog2_eqI: "2 ^ k \<le> n \<Longrightarrow> n < 2 ^ Suc k \<Longrightarrow> ilog2 n = k"
proof -
  assume n: "2 ^ k \<le> n" "n < 2 ^ Suc k"
  then have "0 < n" by (metis gr0I not_less zero_less_numeral zero_less_power)
  then have b: "2 ^ ilog2 n \<le> n" "n < 2 ^ Suc (ilog2 n)" using ilog2_bounds by blast+
  have "(2::nat) ^ k < 2 ^ Suc (ilog2 n)" "(2::nat) ^ ilog2 n < 2 ^ Suc k" using n b by linarith+
  then have "k < Suc (ilog2 n)" "ilog2 n < Suc k" by (simp_all only: power_strict_increasing_iff one_less_numeral_iff semiring_norm)
  then show ?thesis by simp
qed

lemma ilog2_shift: "0 < n \<Longrightarrow> ilog2 (n * 2 ^ k) = ilog2 n + k"
  using ilog2_bounds [of n] by (intro ilog2_eqI) (simp_all add: power_add)

lemma ilog2_zero [simp]: "ilog2 0 = 0"
  by (simp add: ilog2.simps)

lemma round_half_even_exact: "0 < d \<Longrightarrow> round_half_even (q * d) d = q"
  by (simp add: round_half_even_def)

text \<open>The significand and the shift of a count of units.\<close>

definition fits :: "float_format \<Rightarrow> nat \<Rightarrow> bool" where
  "fits f n \<longleftrightarrow> 2 ^ (ilog2 n - frac_bits f) dvd n"

definition units_mag :: "float_format \<Rightarrow> nat \<Rightarrow> nat" where
  "units_mag f n = (let k = ilog2 n - frac_bits f in k * 2 ^ frac_bits f + n div 2 ^ k)"

lemma mag_units_inverse:
  assumes "fits f n"
  shows "mag_units f (units_mag f n) = n"
proof -
  let ?F = "2 ^ frac_bits f :: nat"
  let ?k = "ilog2 n - frac_bits f"
  from assms obtain q where q: "n = 2 ^ ?k * q" unfolding fits_def by (elim dvdE)
  have "n div 2 ^ ?k = q" by (subst q) simp
  then have m: "units_mag f n = ?k * ?F + q" by (simp add: units_mag_def Let_def)
  show ?thesis
  proof (cases "n < ?F")
    case True
    then have "?k = 0" using ilog2_bounds [of n]
      by (cases "n = 0") (auto simp: not_le dest!: le_less_trans [of "2 ^ ilog2 n" n ?F])
    then show ?thesis using m q True by (simp add: mag_units_def)
  next
    case False
    then have n: "0 < n" using gr0I by fastforce
    have "frac_bits f \<le> ilog2 n"
    proof (rule ccontr)
      assume "\<not> ?thesis"
      then have "(2::nat) ^ Suc (ilog2 n) \<le> ?F" by (intro power_increasing) simp_all
      with ilog2_bounds [OF n] False show False by linarith
    qed
    then have two: "(2::nat) ^ ilog2 n = 2 ^ ?k * ?F" by (simp flip: power_add)
    have "2 ^ ?k * ?F \<le> 2 ^ ?k * q" "2 ^ ?k * q < 2 ^ ?k * (2 * ?F)"
      using ilog2_bounds [OF n] unfolding two power_Suc by (simp_all flip: q add: mult.left_commute)
    then have b: "?F \<le> q" "q < 2 * ?F" by simp_all
    then obtain r where r: "q = ?F + r" "r < ?F" using le_iff_add by auto
    have "units_mag f n = r + Suc ?k * ?F" by (simp add: m r)
    then have "units_mag f n div ?F = Suc ?k" "units_mag f n mod ?F = r" using r(2) by (simp_all del: mult_Suc)
    then show ?thesis using q r by (simp add: mag_units_def mult.commute add.commute)
  qed
qed

lemma fl_round_exact:
  assumes "fits f n" "units_mag f n < inf_mag f" "0 < d"
  shows "fl_round f (n * d) d = units_mag f n"
proof -
  let ?k = "ilog2 n - frac_bits f"
  from assms(1) obtain q where q: "n = q * 2 ^ ?k" unfolding fits_def by (metis dvdE mult.commute)
  have "n div 2 ^ ?k = q" by (subst q) simp
  moreover have "round_half_even (n * d) (d * 2 ^ ?k) = q"
    using round_half_even_exact [of "d * 2 ^ ?k" q] assms(3) by (subst q) (simp add: mult.assoc mult.commute mult.left_commute)
  ultimately show ?thesis using assms(2,3) by (simp add: fl_round_def Let_def units_mag_def)
qed

text \<open>Every finite pattern is the pattern of its own units.\<close>

lemma units_mag_inverse: "fits f (mag_units f m) \<and> units_mag f (mag_units f m) = m"
proof -
  let ?F = "2 ^ frac_bits f :: nat"
  let ?e = "m div ?F" and ?r = "m mod ?F"
  have m: "m = ?e * ?F + ?r" by (rule div_mult_mod_eq [symmetric])
  have r: "?r < ?F" by simp
  show ?thesis
  proof (cases "?e = 0")
    case True
    then have u: "mag_units f m = m" "m < ?F" using m r by (simp_all add: mag_units_def div_eq_0_iff)
    then have "ilog2 m - frac_bits f = 0"
      using ilog2_bounds [of m] power_less_imp_less_exp [of "2::nat" "ilog2 m" "frac_bits f"]
      by (cases "m = 0") (auto dest: le_less_trans)
    then show ?thesis by (simp add: u(1) fits_def units_mag_def)
  next
    case False
    then obtain e where e: "?e = Suc e" using not0_implies_Suc by blast
    have u: "mag_units f m = (?r + ?F) * 2 ^ e" by (simp add: mag_units_def e)
    have "ilog2 (?r + ?F) = frac_bits f" using r by (intro ilog2_eqI) simp_all
    then have "ilog2 (mag_units f m) = frac_bits f + e" unfolding u by (subst ilog2_shift) simp_all
    then have k: "ilog2 (mag_units f m) - frac_bits f = e" by simp
    have "units_mag f (mag_units f m) = e * ?F + (?r + ?F)" by (simp add: units_mag_def k Let_def) (simp add: u)
    also have "\<dots> = Suc e * ?F + ?r" by simp
    finally show ?thesis unfolding fits_def k using m e by (simp add: u)
  qed
qed

lemma units_mag_bound: "units_mag f n < (ilog2 n - frac_bits f + 2) * 2 ^ frac_bits f"
proof -
  let ?k = "ilog2 n - frac_bits f"
  have "n < 2 ^ (?k + Suc (frac_bits f))"
  proof (cases "n = 0")
    case False
    then have "n < 2 ^ Suc (ilog2 n)" using ilog2_bounds by blast
    also have "\<dots> \<le> 2 ^ (?k + Suc (frac_bits f))" by (intro power_increasing) simp_all
    finally show ?thesis .
  qed simp
  then have "n div 2 ^ ?k < 2 * 2 ^ frac_bits f"
    by (simp add: div_less_iff_less_mult power_add mult.commute mult.left_commute)
  then show ?thesis by (simp add: units_mag_def Let_def algebra_simps)
qed

section \<open>Signs\<close>

lemma inf_mag_less: "inf_mag f < sign_bit f"
  by (simp add: inf_mag_def sign_bit_def power_add)

lemma fl_make_parts [simp]:
  assumes "m < sign_bit f"
  shows "fl_mag f (fl_make f b m) = m" "fl_neg f (fl_make f b m) = b"
  using assms by (simp_all add: fl_make_def fl_mag_def fl_neg_def)

lemma fl_make_bound: "m < sign_bit f \<Longrightarrow> fl_make f b m < 2 * sign_bit f"
  by (simp add: fl_make_def)

lemma fl_make_eta: "x < 2 * sign_bit f \<Longrightarrow> fl_make f (fl_neg f x) (fl_mag f x) = x"
  by (simp add: fl_make_def fl_neg_def fl_mag_def le_mod_geq not_le)

lemma finite_make:
  assumes "m < inf_mag f"
  shows "\<not> fl_is_nan f (fl_make f b m)" "\<not> fl_is_inf f (fl_make f b m)" "fl_units f (fl_make f b m) = mag_units f m"
    "fl_neg f (fl_make f b m) = b" "fl_make f b m < 2 * sign_bit f"
  using assms inf_mag_less [of f] by (simp_all add: fl_is_nan_def fl_is_inf_def fl_units_def fl_make_bound)

section \<open>Integers\<close>

lemma unit_scale_F64: "unit_scale F64 = 1074" and unit_scale_F32: "unit_scale F32 = 149"
  by (simp_all add: unit_scale_def)

lemma integer_units:
  assumes "n < 2 ^ 53"
  shows "fits F64 (n * 2 ^ 1074) \<and> units_mag F64 (n * 2 ^ 1074) < inf_mag F64"
proof (cases "n = 0")
  case True
  then show ?thesis by (simp add: fits_def units_mag_def inf_mag_def)
next
  case False
  let ?n = "n * 2 ^ 1074"
  have "(2::nat) ^ ilog2 n < 2 ^ 53" using ilog2_bounds [of n] False assms by linarith
  then have l: "ilog2 n < 53" by (rule power_less_imp_less_exp [rotated]) simp
  have k: "ilog2 ?n = ilog2 n + 1074" using False by (intro ilog2_shift) simp
  have "fits F64 ?n" unfolding fits_def k using l by (intro dvd_mult le_imp_power_dvd) simp
  moreover have "(ilog2 ?n - 52 + 2) * 2 ^ 52 \<le> 1076 * (2 ^ 52 :: nat)" using l unfolding k by (intro mult_right_mono) simp_all
  then have "units_mag F64 ?n < 1076 * 2 ^ 52" using units_mag_bound [of F64 ?n] by (simp only: F64_simps)
  ultimately show ?thesis by (simp add: inf_mag_def)
qed

lemma fl_of_int_exact:
  assumes "\<bar>i\<bar> < 2 ^ 53"
  shows "\<exists>m. fl_of_int F64 i = fl_make F64 (i < 0) m \<and> m < inf_mag F64 \<and> mag_units F64 m = nat \<bar>i\<bar> * 2 ^ 1074"
proof -
  have n: "nat \<bar>i\<bar> < 2 ^ 53" using assms by simp
  note u = integer_units [OF n]
  have "fl_round F64 (nat \<bar>i\<bar> * 2 ^ 1074) 1 = units_mag F64 (nat \<bar>i\<bar> * 2 ^ 1074)"
    using fl_round_exact [of F64 "nat \<bar>i\<bar> * 2 ^ 1074" 1] u by (simp only: mult_1_right zero_less_one)
  then show ?thesis using u mag_units_inverse [of F64 "nat \<bar>i\<bar> * 2 ^ 1074"]
    by (intro exI [of _ "units_mag F64 (nat \<bar>i\<bar> * 2 ^ 1074)"]) (simp only: fl_of_int_def unit_scale_F64 simp_thms)
qed

lemma fl_to_int_of_int:
  assumes "\<bar>i\<bar> < 2 ^ 53" "lo \<le> i" "i \<le> hi"
  shows "fl_to_int F64 lo hi (fl_of_int F64 i) = i"
proof -
  from fl_of_int_exact [OF assms(1)] obtain m where m: "fl_of_int F64 i = fl_make F64 (i < 0) m" "m < inf_mag F64"
    "mag_units F64 m = nat \<bar>i\<bar> * 2 ^ 1074" by blast
  have "nat \<bar>i\<bar> * 2 ^ 1074 div 2 ^ 1074 = nat \<bar>i\<bar>" by (rule nonzero_mult_div_cancel_right) simp
  then have "fl_units F64 (fl_of_int F64 i) div 2 ^ unit_scale F64 = nat \<bar>i\<bar>"
    unfolding m(1) finite_make(3) [OF m(2)] m(3) unit_scale_F64 .
  then show ?thesis unfolding fl_to_int_def Let_def
    using finite_make [OF m(2), of "i < 0"] assms(2,3) by (simp only: m(1) if_False) auto
qed

section \<open>Widening and narrowing\<close>

lemma widened_units:
  assumes "m < inf_mag F32"
  shows "fits F64 (mag_units F32 m * 2 ^ 925) \<and> units_mag F64 (mag_units F32 m * 2 ^ 925) < inf_mag F64"
proof (cases "mag_units F32 m = 0")
  case True
  then show ?thesis by (simp add: fits_def units_mag_def inf_mag_def)
next
  case False
  let ?u = "mag_units F32 m"
  define l where "l = ilog2 ?u - 23"
  have u: "2 ^ l dvd ?u" "units_mag F32 ?u = m" using units_mag_inverse [of F32 m] by (simp_all add: fits_def l_def)
  have "l * 2 ^ 23 \<le> units_mag F32 ?u" by (simp add: units_mag_def l_def Let_def)
  then have l: "l < 255" using assms u(2) by (simp add: inf_mag_def)
  have k: "ilog2 (?u * 2 ^ 925) = ilog2 ?u + 925" using False by (intro ilog2_shift) simp
  have "ilog2 ?u + 925 - 52 \<le> l + 925" by (simp add: l_def)
  then have "(2::nat) ^ (ilog2 ?u + 925 - 52) dvd 2 ^ (l + 925)" by (rule le_imp_power_dvd)
  moreover have "2 ^ (l + 925) dvd ?u * 2 ^ 925" using u(1) by (simp only: power_add mult_dvd_mono dvd_refl)
  ultimately have "fits F64 (?u * 2 ^ 925)" unfolding fits_def k F64_simps by (rule dvd_trans)
  moreover have "(ilog2 (?u * 2 ^ 925) - 52 + 2) * 2 ^ 52 \<le> 1182 * (2 ^ 52 :: nat)"
    using l unfolding k l_def by (intro mult_right_mono) simp_all
  then have "units_mag F64 (?u * 2 ^ 925) < 1182 * 2 ^ 52"
    using units_mag_bound [of F64 "?u * 2 ^ 925"] by (simp only: F64_simps)
  ultimately show ?thesis by (simp add: inf_mag_def)
qed

lemma f32_through_f64:
  assumes "x < 2 ^ 32" "\<not> fl_is_nan F32 x"
  shows "f64_to_f32 (f32_to_f64 x) = x"
proof (cases "fl_is_inf F32 x")
  case True
  then have "f32_to_f64 x = fl_make F64 (fl_neg F32 x) (inf_mag F64)" using assms(2) by (simp add: f32_to_f64_def)
  then show ?thesis using True assms fl_make_eta [of x F32] inf_mag_less [of F64]
    by (simp add: f64_to_f32_def fl_is_nan_def fl_is_inf_def sign_bit_def)
next
  case False
  let ?m = "fl_mag F32 x"
  let ?u = "mag_units F32 ?m"
  have m: "?m < inf_mag F32" using False assms(2) by (simp add: fl_is_nan_def fl_is_inf_def)
  note w = widened_units [OF m]
  have s: "unit_scale F64 - unit_scale F32 = 925" by (simp add: unit_scale_F64 unit_scale_F32)
  have "fl_round F64 (?u * 2 ^ 925) 1 = units_mag F64 (?u * 2 ^ 925)"
    using fl_round_exact [of F64 "?u * 2 ^ 925" 1] w by (simp only: mult_1_right zero_less_one)
  then have wide: "f32_to_f64 x = fl_make F64 (fl_neg F32 x) (units_mag F64 (?u * 2 ^ 925))"
    using False assms(2) by (simp only: f32_to_f64_def fl_units_def s if_False)
  have units: "fl_units F64 (f32_to_f64 x) = ?u * 2 ^ 925"
    unfolding wide using finite_make(3) [of _ F64] w mag_units_inverse [of F64 "?u * 2 ^ 925"] by (simp only:)
  have "fl_round F32 (?u * 2 ^ 925) (2 ^ 925) = ?m"
    using fl_round_exact [of F32 ?u "2 ^ 925"] units_mag_inverse [of F32 ?m] m by (simp only: zero_less_power zero_less_numeral)
  then have "f64_to_f32 (f32_to_f64 x) = fl_make F32 (fl_neg F32 x) ?m"
    unfolding f64_to_f32_def s units using finite_make [of "units_mag F64 (?u * 2 ^ 925)" F64 "fl_neg F32 x"] w
    by (simp only: wide if_False)
  then show ?thesis using fl_make_eta [of x F32] assms(1) by (simp add: sign_bit_def)
qed

lemma fl_round_le: "fl_round f n d \<le> inf_mag f"
  by (simp add: fl_round_def Let_def)

lemma widened_number: "\<not> fl_is_nan F32 x \<Longrightarrow> \<not> fl_is_nan F64 (f32_to_f64 x) \<and> f32_to_f64 x < 2 ^ 64"
proof -
  assume "\<not> fl_is_nan F32 x"
  then obtain b m where m: "f32_to_f64 x = fl_make F64 b m" "m \<le> inf_mag F64"
    unfolding f32_to_f64_def using fl_round_le by (metis order_refl)
  then have "m < sign_bit F64" using inf_mag_less [of F64] by simp
  with m show ?thesis using fl_make_bound [of m F64 b] by (simp add: fl_is_nan_def sign_bit_def)
qed

end
