(* ===== verification/Vm_Arith.thy ===== *)
theory Vm_Arith
  imports Vm_Values Ieee_Exact
begin

text \<open>
  What the value operations of \<open>Vm_Values\<close> do: the types of their results and the only faults correctly
  typed operands can meet, integer arithmetic as arithmetic modulo the width of the type, and the exact
  conversions between integers and reals.
\<close>

section \<open>Wrapping\<close>

lemma dvd_sint_word: "2 ^ LENGTH('a) dvd sint (word_of_int x :: 'a::len word) - x"
proof -
  have "(word_of_int (sint (word_of_int x :: 'a word)) :: 'a word) = word_of_int x" by simp
  then have "take_bit LENGTH('a) (sint (word_of_int x :: 'a word)) = take_bit LENGTH('a) x"
    by (simp only: word_of_int_eq_iff)
  then show ?thesis by (simp add: take_bit_eq_mod mod_eq_dvd_iff)
qed

lemma dvd_uint_word: "2 ^ LENGTH('a) dvd uint (word_of_int x :: 'a::len word) - x"
  by (simp add: unsigned_of_int take_bit_eq_mod flip: mod_eq_dvd_iff)

definition type_bits :: "ElementaryType \<Rightarrow> nat" where
  "type_bits ty = (case bit_width ty of Some w \<Rightarrow> w | None \<Rightarrow> 0)"

text \<open>The integer of the type that is congruent to \<open>x\<close> modulo its width.\<close>

definition represents :: "ElementaryType \<Rightarrow> Value \<Rightarrow> int \<Rightarrow> bool" where
  "represents ty v x \<longleftrightarrow> type_of v = ty \<and>
     (\<exists>y. wide_integer v = Some y \<and> 2 ^ type_bits ty dvd y - x \<and>
          (if any_signed ty then - (2 ^ (type_bits ty - 1)) \<le> y \<and> y < 2 ^ (type_bits ty - 1)
           else 0 \<le> y \<and> y < 2 ^ type_bits ty))"

definition integral :: "ElementaryType \<Rightarrow> bool" where
  "integral ty \<longleftrightarrow> any_int ty \<or> ty \<in> {E_Byte, E_Word, E_Dword, E_Lword}"

lemmas type_sets = any_int_def any_signed_def any_unsigned_def any_real_def any_duration_def any_bit_def integral_def

lemma sint_word_range:
  "- (2 ^ (LENGTH('a) - 1)) \<le> sint (w :: 'a::len word)" "sint w < 2 ^ (LENGTH('a) - 1)"
  using sint_ge [of w] sint_lt [of w] by simp_all

lemma wrap_int_represents:
  assumes "integral ty"
  shows "\<exists>v. wrap_int x ty = Inr v \<and> represents ty v x \<and> wf_value v"
proof -
  note s = dvd_sint_word [where ?'a = 8, of x] dvd_sint_word [where ?'a = 16, of x] dvd_sint_word [where ?'a = 32, of x] dvd_sint_word [where ?'a = 64, of x]
    dvd_uint_word [where ?'a = 8, of x] dvd_uint_word [where ?'a = 16, of x] dvd_uint_word [where ?'a = 32, of x] dvd_uint_word [where ?'a = 64, of x]
  note r = sint_word_range [of "word_of_int x :: u8"] sint_word_range [of "word_of_int x :: u16"]
    sint_word_range [of "word_of_int x :: u32"] sint_word_range [of "word_of_int x :: u64"]
    unsigned_less [of "word_of_int x :: u8", where ?'a = int] unsigned_less [of "word_of_int x :: u16", where ?'a = int]
    unsigned_less [of "word_of_int x :: u32", where ?'a = int] unsigned_less [of "word_of_int x :: u64", where ?'a = int]
  show ?thesis using assms s r
    by (cases ty) (simp_all add: type_sets represents_def type_bits_def wide_integer_def del: signed_of_int unsigned_of_int)
qed

lemma wrapping_i128_id: "- (2 ^ 127) \<le> x \<Longrightarrow> x < 2 ^ 127 \<Longrightarrow> wrapping_i128 x = x"
  by (simp add: wrapping_i128_def signed_of_int signed_take_bit_int_eq_self)

lemma tdiv_bound: "\<bar>tdiv a b\<bar> \<le> \<bar>a\<bar>"
proof -
  have "\<bar>a\<bar> div \<bar>b\<bar> \<le> \<bar>a\<bar>" using zdiv_mono2 [of "\<bar>a\<bar>" 1 "\<bar>b\<bar>"] by (cases "b = 0") simp_all
  moreover have "0 \<le> \<bar>a\<bar> div \<bar>b\<bar>" by (cases "b = 0") (simp_all add: pos_imp_zdiv_nonneg_iff)
  ultimately show ?thesis by (auto simp: tdiv_def abs_mult abs_sgn_eq)
qed

text \<open>The exact result of an operation on integers; none where the code refuses the operation.\<close>

definition exact_result :: "BinOp \<Rightarrow> int \<Rightarrow> int \<Rightarrow> int option" where
  "exact_result op a b =
     (case op of
        Add \<Rightarrow> Some (a + b) | Sub \<Rightarrow> Some (a - b) | Mul \<Rightarrow> Some (a * b)
      | Div \<Rightarrow> if b = 0 then None else Some (tdiv a b)
      | Mod \<Rightarrow> if b = 0 then None else Some (trem a b)
      | And \<Rightarrow> Some (a AND b) | Or \<Rightarrow> Some (a OR b) | Xor \<Rightarrow> Some (a XOR b)
      | _ \<Rightarrow> None)"

lemma exact_result_fits:
  assumes "in_i64 a" "in_i64 b" "op \<notin> {And, Or, Xor}" "exact_result op a b = Some x"
  shows "wrapping_i128 x = x"
proof (rule wrapping_i128_id)
  have a: "\<bar>a\<bar> \<le> 2 ^ 63" and b: "\<bar>b\<bar> \<le> 2 ^ 63" using assms(1,2) by (auto simp: i64_bounds)
  have "\<bar>a * b\<bar> \<le> 2 ^ 63 * 2 ^ 63" unfolding abs_mult by (rule mult_mono) (use a b in simp_all)
  moreover have "\<bar>b * tdiv a b\<bar> \<le> 2 ^ 63 * 2 ^ 63" unfolding abs_mult
    by (rule mult_mono) (use a b tdiv_bound [of a b] in simp_all)
  ultimately have "\<bar>x\<bar> \<le> 2 ^ 126 + 2 ^ 63" using assms(3,4) a b tdiv_bound [of a b]
    by (auto simp: exact_result_def trem_def split: BinOp.splits if_splits)
  then show "- (2 ^ 127) \<le> x" "x < 2 ^ 127" by simp_all
qed

lemma integer_arith_exact:
  assumes "in_i64 a" "in_i64 b" "exact_result op a b = Some x"
  shows "integer_arith op ty a b = wrap_int x ty"
proof (cases "op \<in> {And, Or, Xor}")
  case True
  then show ?thesis using assms(3) by (auto simp: integer_arith_def bitwise_i128_def exact_result_def)
next
  case False
  with exact_result_fits [OF assms(1,2) False assms(3)] assms(3) show ?thesis
    by (auto simp: integer_arith_def exact_result_def split: BinOp.splits if_splits)
qed

lemma binary_integer:
  "any_int ty \<Longrightarrow> \<not> is_comparison op \<Longrightarrow> binary op ty l r =
     and_then (expect_i128 l ty) (\<lambda>a. and_then (expect_i128 r ty) (\<lambda>b. integer_arith op ty a b))"
  by (auto simp: binary_def type_sets signed_arith_def unsigned_arith_def)

lemma binary_bit_string:
  "ty \<in> {E_Byte, E_Word, E_Dword, E_Lword} \<Longrightarrow> \<not> is_comparison op \<Longrightarrow> binary op ty l r =
     and_then (expect_i128 l ty) (\<lambda>a. and_then (expect_i128 r ty) (\<lambda>b. bitwise_i128 op ty a b))"
  by (auto simp: binary_def bitwise_def)

lemma exact_not_comparison: "exact_result op a b = Some x \<Longrightarrow> \<not> is_comparison op"
  by (auto simp: exact_result_def is_comparison_def split: BinOp.splits)

text \<open>
  Claim C17.  Integer arithmetic wraps.  For operands the interpreter can read as 64-bit integers, every
  integer operation yields the value of the instruction's type that is congruent to the exact result
  modulo the width of the type; a division or remainder by zero is a fault; and an operand of \<open>ULINT\<close>
  above the 64-bit signed range is refused as a type mismatch rather than computed with.
\<close>
theorem integer_arithmetic_wraps:
  assumes "any_int ty" "as_i64 l = Some a"
  shows "(\<forall>b x. as_i64 r = Some b \<and> exact_result op a b = Some x \<longrightarrow> (\<exists>v. binary op ty l r = Inr v \<and> represents ty v x)) \<and>
    (as_i64 r = Some 0 \<and> op \<in> {Div, Mod} \<longrightarrow> binary op ty l r = Inl DivisionByZero) \<and>
    (\<forall>w. r = V_Ulint w \<and> 2 ^ 63 \<le> uint w \<and> \<not> is_comparison op \<longrightarrow> binary op ty l r = Inl (TypeMismatch ty E_Ulint))"
proof (intro conjI allI impI)
  fix b x assume b: "as_i64 r = Some b \<and> exact_result op a b = Some x"
  then have "\<not> is_comparison op" using exact_not_comparison by blast
  with b have "binary op ty l r = wrap_int x ty"
    using assms integer_arith_exact [OF as_i64_range as_i64_range, of l a r b op x ty]
    by (simp add: binary_integer expect_i128_def)
  then show "\<exists>v. binary op ty l r = Inr v \<and> represents ty v x"
    using wrap_int_represents [of ty x] assms(1) by (auto simp: integral_def)
next
  assume "as_i64 r = Some 0 \<and> op \<in> {Div, Mod}"
  then show "binary op ty l r = Inl DivisionByZero"
    using assms by (auto simp: binary_integer is_comparison_def expect_i128_def integer_arith_def)
next
  fix w assume "r = V_Ulint w \<and> 2 ^ 63 \<le> uint w \<and> \<not> is_comparison op"
  then show "binary op ty l r = Inl (TypeMismatch ty E_Ulint)"
    using assms by (auto simp: binary_integer expect_i128_def checked_i64_def i64_bounds)
qed

theorem integer_arithmetic_wraps_witness:
  "(\<exists>v. binary Add E_Dint (V_Dint 2147483647) (V_Dint 1) = Inr v \<and> represents E_Dint v 2147483648) \<and>
   binary Mod E_Dint (V_Dint 2147483647) (V_Dint 0) = Inl DivisionByZero"
proof
  show "\<exists>v. binary Add E_Dint (V_Dint 2147483647) (V_Dint 1) = Inr v \<and> represents E_Dint v 2147483648"
    using integer_arithmetic_wraps [of E_Dint "V_Dint 2147483647" 2147483647 "V_Dint 1" Add]
    by (simp add: type_sets exact_result_def)
  show "binary Mod E_Dint (V_Dint 2147483647) (V_Dint 0) = Inl DivisionByZero"
    using integer_arithmetic_wraps [of E_Dint "V_Dint 2147483647" 2147483647 "V_Dint 0" Mod] by (simp add: type_sets)
qed

section \<open>Types of results\<close>

lemma represents_type: "represents ty v x \<Longrightarrow> type_of v = ty"
  by (simp add: represents_def)

lemma wrap_int_typed: "wrap_int x ty = Inr v \<Longrightarrow> type_of v = ty \<and> wf_value v"
  by (cases ty) auto

lemma real_value_typed [simp]: "any_real ty \<Longrightarrow> type_of (real_value ty x) = ty" "wf_value (real_value ty x)"
  by (auto simp: real_value_def any_real_def)

lemma duration_value_typed [simp]:
  "any_duration ty \<Longrightarrow> type_of (duration_value ty d) = ty" "wf_value (duration_value ty d) = in_i64 d"
  by (auto simp: duration_value_def any_duration_def)

lemma unwrap_or_in_i64 [simp]: "in_i64 d \<Longrightarrow> in_i64 (unwrap_or (checked_i64 x) d)"
  by (simp add: unwrap_or_def checked_i64_def)

lemma extremes_in_i64 [simp]: "in_i64 i64_MAX" "in_i64 i64_MIN" "in_i64 0"
  by (simp_all add: i64_bounds)

lemma float_to_int_typed: "float_to_int x ty = Inr v \<Longrightarrow> type_of v = ty \<and> wf_value v"
  by (cases ty) auto

lemma ordering_result_typed: "ordering_result op o' = Inr v \<Longrightarrow> type_of v = E_Bool \<and> wf_value v"
  by (auto simp: ordering_result_def split: BinOp.splits)

lemma ordering_result_comparison: "is_comparison op \<Longrightarrow> \<exists>b. ordering_result op o' = Inr (V_Bool b)"
  by (auto simp: is_comparison_def ordering_result_def)

text \<open>The operations the interpreter implements for two operands of one type.\<close>

definition supported :: "BinOp \<Rightarrow> ElementaryType \<Rightarrow> bool" where
  "supported op ty \<longleftrightarrow> is_comparison op \<or>
     (any_int ty \<and> op \<in> {Add, Sub, Mul, Div, Mod, And, Or, Xor}) \<or> (any_bit ty \<and> op \<in> {And, Or, Xor}) \<or>
     (any_real ty \<and> op \<in> {Add, Sub, Mul, Div, Mod}) \<or> (any_duration ty \<and> op \<in> {Add, Sub})"

definition readable :: "Value \<Rightarrow> bool" where
  "readable v \<longleftrightarrow> (integral (type_of v) \<longrightarrow> as_i64 v \<noteq> None)"

lemma readable_iff: "readable v \<longleftrightarrow> (\<forall>w. v = V_Ulint w \<or> v = V_Lword w \<longrightarrow> uint w < 2 ^ 63)"
proof -
  have "in_i64 (uint w) \<longleftrightarrow> uint w < 2 ^ 63" for w :: u64
    using unsigned_greater_eq [of w, where ?'a = int] unfolding i64_bounds by linarith
  then show ?thesis by (cases v) (auto simp: readable_def type_sets checked_i64_def)
qed

lemma compare_typed:
  assumes "type_of l = type_of r" "is_comparison op" "readable l" "readable r"
  shows "\<exists>b. compare op l r = Inr (V_Bool b)"
  using assms ordering_result_comparison [OF assms(2)]
  by (cases l; cases r) (auto simp: compare_def compare_numbers_def readable_def type_sets split: option.splits)

lemma integer_operands:
  assumes "integral (type_of l)" "type_of r = type_of l" "readable l" "readable r"
  obtains a b where "as_i64 l = Some a" "as_i64 r = Some b"
  using assms by (auto simp: readable_def)

lemma unreadable_mismatch:
  assumes "integral ty" "type_of l = ty" "type_of r = ty" "\<not> (readable l \<and> readable r)" "\<not> is_comparison op"
  shows "binary op ty l r = Inl (TypeMismatch ty ty)"
proof -
  have none: "as_i64 l = None \<or> as_i64 r = None" using assms(4) by (auto simp: readable_def)
  have "(\<exists>f. binary op ty l r = and_then (expect_i128 l ty) (\<lambda>a. and_then (expect_i128 r ty) (\<lambda>b. f a b)))"
    using assms(1,5) binary_integer binary_bit_string unfolding integral_def by blast
  then show ?thesis using none assms(2,3) by (cases "as_i64 l"; cases "as_i64 r") (auto simp: expect_i128_def)
qed

lemma binary_integral_ok:
  assumes "integral ty" "type_of l = ty" "type_of r = ty" "readable l" "readable r" "supported op ty" "\<not> is_comparison op"
    "op \<in> {Div, Mod} \<longrightarrow> as_i64 r \<noteq> Some 0"
  shows "\<exists>v x. binary op ty l r = Inr v \<and> represents ty v x \<and> wf_value v"
proof -
  obtain a b where ab: "as_i64 l = Some a" "as_i64 r = Some b"
    using integer_operands [of l r] assms by metis
  have ok: "any_int ty \<and> op \<in> {Add, Sub, Mul, Div, Mod, And, Or, Xor} \<or> ty \<in> {E_Byte, E_Word, E_Dword, E_Lword} \<and> op \<in> {And, Or, Xor}"
    using assms(1,6,7) by (auto simp: supported_def type_sets)
  then obtain x where x: "exact_result op a b = Some x" using assms(8) ab by (auto simp: exact_result_def)
  have "binary op ty l r = wrap_int x ty"
    using ok
  proof (elim disjE conjE)
    assume "any_int ty"
    then show ?thesis using integer_arith_exact [OF as_i64_range as_i64_range x, OF ab] ab assms(7)
      by (simp add: binary_integer expect_i128_def)
  next
    assume "ty \<in> {E_Byte, E_Word, E_Dword, E_Lword}" "op \<in> {And, Or, Xor}"
    then show ?thesis using x ab assms(7) by (auto simp: binary_bit_string expect_i128_def bitwise_i128_def exact_result_def)
  qed
  then show ?thesis using wrap_int_represents [OF assms(1), of x] by auto
qed

lemma as_duration_wf: "wf_value v \<Longrightarrow> as_duration v = Some d \<Longrightarrow> in_i64 d"
  by (cases v) auto

lemma binary_other_ok:
  assumes "\<not> integral ty" "type_of l = ty" "type_of r = ty" "supported op ty" "\<not> is_comparison op"
  shows "\<exists>v. binary op ty l r = Inr v \<and> type_of v = ty \<and> wf_value v"
proof -
  have ty: "ty = E_Bool \<and> op \<in> {And, Or, Xor} \<or> any_real ty \<and> op \<in> {Add, Sub, Mul, Div, Mod} \<or> any_duration ty \<and> op \<in> {Add, Sub}"
    using assms(1,4,5) by (auto simp: supported_def type_sets)
  then show ?thesis
  proof (elim disjE conjE)
    assume "ty = E_Bool" "op \<in> {And, Or, Xor}"
    then show ?thesis using assms(2,3,5) by (cases l; cases r) (auto simp: binary_def bitwise_def)
  next
    assume t: "any_real ty" "op \<in> {Add, Sub, Mul, Div, Mod}"
    then have "binary op ty l r = real_arith op ty l r" using assms(5) by (auto simp: binary_def type_sets)
    moreover obtain x y where "as_f64 l = Some x" "as_f64 r = Some y"
      using t(1) assms(2,3) by (cases l; cases r) (auto simp: type_sets)
    ultimately show ?thesis using t by (auto simp: real_arith_def expect_f64_def)
  next
    assume t: "any_duration ty" "op \<in> {Add, Sub}"
    then have "binary op ty l r = duration_arith op ty l r" using assms(5) by (auto simp: binary_def type_sets)
    moreover obtain x y where "as_duration l = Some x" "as_duration r = Some y"
      using t(1) assms(2,3) by (cases l; cases r) (auto simp: type_sets)
    ultimately show ?thesis using t
      by (auto simp: duration_arith_def Duration_saturating_add_def Duration_checked_sub_def)
  qed
qed

text \<open>
  Claim C18.  Two operands of the instruction's type never surprise the interpreter.  For every operation it
  implements on that type the result exists, is well formed and has the type the operation promises,
  with two exceptions: an integer division or remainder by zero is the fault of that name, and an
  operand of \<open>ULINT\<close> or \<open>LWORD\<close> at or above \<open>2 ^ 63\<close> is reported as a type mismatch.
\<close>
theorem binary_type_safe:
  assumes "type_of l = ty" "type_of r = ty" "supported op ty"
  shows "(\<not> (readable l \<and> readable r) \<longrightarrow> binary op ty l r = Inl (TypeMismatch ty ty)) \<and>
    (readable l \<and> readable r \<and> op \<in> {Div, Mod} \<and> as_i64 r = Some 0 \<longrightarrow> binary op ty l r = Inl DivisionByZero) \<and>
    (readable l \<and> readable r \<and> \<not> (op \<in> {Div, Mod} \<and> as_i64 r = Some 0) \<longrightarrow>
       (\<exists>v. binary op ty l r = Inr v \<and> wf_value v \<and> type_of v = (if is_comparison op then E_Bool else ty)))"
proof (intro conjI impI)
  assume nr: "\<not> (readable l \<and> readable r)"
  then have "integral ty" using assms(1,2) by (auto simp: readable_def)
  show "binary op ty l r = Inl (TypeMismatch ty ty)"
  proof (cases "is_comparison op")
    case True
    with nr assms(1,2) show ?thesis
      by (cases l; cases r) (auto simp: binary_def compare_def compare_numbers_def readable_def type_sets split: option.splits)
  qed (use unreadable_mismatch [OF \<open>integral ty\<close> assms(1,2) nr] in simp)
next
  assume z: "readable l \<and> readable r \<and> op \<in> {Div, Mod} \<and> as_i64 r = Some 0"
  then have "integral ty" using assms(2) by (cases r) (auto simp: type_sets)
  then have "any_int ty" using assms(3) z by (auto simp: supported_def type_sets is_comparison_def)
  moreover obtain a where "as_i64 l = Some a" using z assms(1) \<open>integral ty\<close> by (auto simp: readable_def)
  moreover have "\<not> is_comparison op" using z by (auto simp: is_comparison_def)
  ultimately show "binary op ty l r = Inl DivisionByZero"
    using z by (auto simp: binary_integer expect_i128_def integer_arith_def)
next
  assume ok: "readable l \<and> readable r \<and> \<not> (op \<in> {Div, Mod} \<and> as_i64 r = Some 0)"
  show "\<exists>v. binary op ty l r = Inr v \<and> wf_value v \<and> type_of v = (if is_comparison op then E_Bool else ty)"
  proof (cases "is_comparison op")
    case True
    with compare_typed [of l r op] ok assms show ?thesis by (auto simp: binary_def)
  next
    case False
    with ok assms binary_integral_ok [of ty l r op] binary_other_ok [of ty l r op] show ?thesis
      by (cases "integral ty") (auto dest: represents_type)
  qed
qed

theorem binary_type_safe_witness:
  "\<exists>v. binary Sub E_Time (V_Time (- (2 ^ 63))) (V_Time 1) = Inr v \<and> wf_value v \<and> type_of v = E_Time"
  using binary_type_safe [of "V_Time (- (2 ^ 63))" E_Time "V_Time 1" Sub]
  by (simp add: supported_def readable_def type_sets is_comparison_def)

section \<open>Conversions\<close>

lemma convert_typed: "convert v to = Inr w \<Longrightarrow> type_of w = to \<and> (wf_value v \<longrightarrow> wf_value w)"
proof -
  assume c: "convert v to = Inr w"
  consider "type_of v = to" | "type_of v \<noteq> to" "any_real to" | "type_of v \<noteq> to" "any_duration to"
    | "type_of v \<noteq> to" "\<not> any_real to" "\<not> any_duration to" by blast
  then show ?thesis
  proof cases
    case 2
    with c show ?thesis by (auto simp: convert_def any_real_def split: option.splits)
  next
    case 3
    with c show ?thesis using as_duration_wf [of v] by (auto simp: convert_def any_duration_def)
  next
    case 4
    with c show ?thesis
      by (auto simp: convert_def type_sets dest: wrap_int_typed float_to_int_typed split: option.splits if_splits)
  qed (use c in \<open>simp add: convert_def\<close>)
qed

lemma lreal_of_int:
  assumes "\<bar>i\<bar> < 2 ^ 53"
  shows "real_value E_Lreal (fl_of_int F64 i) = V_Lreal (of_nat (fl_of_int F64 i))"
    "unat (of_nat (fl_of_int F64 i) :: u64) = fl_of_int F64 i"
proof -
  from fl_of_int_exact [OF assms] obtain m where m: "fl_of_int F64 i = fl_make F64 (i < 0) m" "m < inf_mag F64" by blast
  have "fl_of_int F64 i < 2 ^ 64" using finite_make(5) [OF m(2)] by (simp add: m(1) sign_bit_def)
  then show u: "unat (of_nat (fl_of_int F64 i) :: u64) = fl_of_int F64 i" by (simp add: unat_of_nat take_bit_nat_eq_self)
  show "real_value E_Lreal (fl_of_int F64 i) = V_Lreal (of_nat (fl_of_int F64 i))"
    using finite_make(1) [OF m(2)] by (simp add: real_value_def Value_lreal_def canonical_f64_def u [unfolded m(1)] m(1))
qed

lemma signed_back:
  assumes "\<bar>sint (w :: 'a::len word)\<bar> < 2 ^ 53"
  shows "word_of_int (to_signed LENGTH('a) (fl_of_int F64 (sint w))) = w"
proof -
  have "to_signed LENGTH('a) (fl_of_int F64 (sint w)) = sint w"
    unfolding to_signed_def using assms sint_word_range [of w] by (intro fl_to_int_of_int) simp_all
  then show ?thesis by simp
qed

lemma unsigned_back:
  assumes "uint (w :: 'a::len word) < 2 ^ 53"
  shows "word_of_int (to_unsigned LENGTH('a) (fl_of_int F64 (uint w))) = w"
proof -
  have "to_unsigned LENGTH('a) (fl_of_int F64 (uint w)) = uint w"
    unfolding to_unsigned_def using assms unsigned_less [of w, where ?'a = int] by (intro fl_to_int_of_int) simp_all
  then show ?thesis by simp
qed

lemmas word_back = signed_back [where ?'a = 8] signed_back [where ?'a = 16] signed_back [where ?'a = 32] signed_back [where ?'a = 64]
  unsigned_back [where ?'a = 8] unsigned_back [where ?'a = 16] unsigned_back [where ?'a = 32] unsigned_back [where ?'a = 64]

lemma float_to_int_back:
  "integral (type_of v) \<Longrightarrow> as_i64 v = Some i \<Longrightarrow> \<bar>i\<bar> < 2 ^ 53 \<Longrightarrow> float_to_int (fl_of_int F64 i) (type_of v) = Inr v"
  using word_back by (cases v) (auto simp: type_sets)

text \<open>
  Claim C35.  Conversions.  Whatever \<open>convert\<close> returns has the type asked for and is well formed; an integer
  converted to an integer type keeps its value modulo the width; every integer below \<open>2 ^ 53\<close> survives
  the way to \<open>LREAL\<close> and back, and every \<open>REAL\<close> that is not a NaN the way to \<open>LREAL\<close> and back.
\<close>
theorem conversions_exact:
  "(convert v to = Inr w \<longrightarrow> type_of w = to \<and> (wf_value v \<longrightarrow> wf_value w)) \<and>
   (as_i64 v = Some i \<and> integral to \<longrightarrow> (\<exists>w. convert v to = Inr w \<and> represents to w i)) \<and>
   (integral (type_of v) \<and> as_i64 v = Some i \<and> \<bar>i\<bar> < 2 ^ 53 \<longrightarrow>
      (\<exists>f. convert v E_Lreal = Inr f \<and> convert f (type_of v) = Inr v)) \<and>
   (\<not> fl_is_nan F32 (unat x) \<longrightarrow> (\<exists>f. convert (V_Real x) E_Lreal = Inr f \<and> convert f E_Real = Inr (V_Real x)))"
proof (intro conjI impI)
  assume c: "convert v to = Inr w"
  show "type_of w = to" using convert_typed [OF c] by simp
  assume "wf_value v" then show "wf_value w" using convert_typed [OF c] by simp
next
  assume a: "as_i64 v = Some i \<and> integral to"
  show "\<exists>w. convert v to = Inr w \<and> represents to w i"
  proof (cases "type_of v = to")
    case True
    then have "convert v to = Inr v" by (simp add: convert_def)
    moreover have "wrap_int i to = Inr v" using a True by (cases v) (auto simp: type_sets)
    ultimately show ?thesis using wrap_int_represents [of to i] a by auto
  next
    case False
    then have "convert v to = wrap_int i to" using a by (auto simp: convert_def type_sets)
    then show ?thesis using wrap_int_represents [of to i] a by auto
  qed
next
  assume a: "integral (type_of v) \<and> as_i64 v = Some i \<and> \<bar>i\<bar> < 2 ^ 53"
  then have t: "type_of v \<noteq> E_Lreal" "type_of v \<notin> {E_Real, E_LTime, E_Time, E_Bool}" by (auto simp: type_sets)
  let ?f = "V_Lreal (of_nat (fl_of_int F64 i))"
  have "convert v E_Lreal = Inr ?f" using a t lreal_of_int(1) [of i] by (simp add: convert_def)
  moreover have "convert ?f (type_of v) = Inr v"
    using a t lreal_of_int(2) [of i] float_to_int_back [of v i] by (auto simp: convert_def)
  ultimately show "\<exists>f. convert v E_Lreal = Inr f \<and> convert f (type_of v) = Inr v" by blast
next
  assume n: "\<not> fl_is_nan F32 (unat x)"
  let ?y = "f32_to_f64 (unat x)"
  have y: "f64_to_f32 ?y = unat x" "unat (of_nat ?y :: u64) = ?y" "\<not> fl_is_nan F64 ?y"
    using f32_through_f64 [of "unat x"] widened_number [OF n] n unsigned_less [of x, where ?'a = nat]
    by (simp_all add: unat_of_nat take_bit_nat_eq_self)
  then have "convert (V_Real x) E_Lreal = Inr (V_Lreal (of_nat ?y))"
    by (simp add: convert_def real_value_def Value_lreal_def canonical_f64_def)
  moreover have "convert (V_Lreal (of_nat ?y)) E_Real = Inr (V_Real x)"
    using y n by (simp add: convert_def real_value_def Value_real_def canonical_f32_def)
  ultimately show "\<exists>f. convert (V_Real x) E_Lreal = Inr f \<and> convert f E_Real = Inr (V_Real x)" by blast
qed

theorem conversions_exact_witness:
  "(\<exists>f. convert (V_Dint 7) E_Lreal = Inr f \<and> convert f E_Dint = Inr (V_Dint 7)) \<and>
   (\<exists>f. convert (V_Real 1) E_Lreal = Inr f \<and> convert f E_Real = Inr (V_Real 1)) \<and>
   (\<exists>w. convert (V_Dint 7) E_Sint = Inr w \<and> represents E_Sint w 7)"
  using conversions_exact [of "V_Dint 7" E_Sint "V_Sint 7" 7 1]
  by (simp add: type_sets fl_is_nan_def fl_mag_def inf_mag_def sign_bit_def)

end
