(* ===== verification/Vm_Exec.thy ===== *)
theory Vm_Exec
  imports Vm_Values Block_Steps
begin

text \<open>
  The bytecode and its interpreter, from \<open>crates/salman-vm/src/bytecode.rs\<close> and
  \<open>crates/salman-vm/src/exec.rs\<close>.  One instruction is a computation on the state of the interpreter that
  tells where to go on; \<open>run_body\<close> and \<open>run\<close> are the loop and the call, mutually recursive as in the code.
  The operand stack is a list with its top first.  What an execution only reads, the program, the clock
  and the limits, is kept apart from the state it changes.
\<close>

section \<open>Programs\<close>

datatype Op =
    Const nat
  | Pop
  | Dup
  | LoadSlot nat
  | StoreSlot nat
  | LoadLocal nat
  | StoreLocal nat
  | LoadAddress nat
  | StoreAddress nat
  | LoadIndexed nat nat int
  | LoadIndexedLocal nat nat int
  | StoreIndexedLocal nat nat int
  | StoreIndexed nat nat int
  | BoundsCheck int int
  | CheckRange int int nat
  | CheckEnum nat nat
  | TruncateString nat
  | Binary BinOp ElementaryType
  | Unary UnOp ElementaryType
  | Convert ElementaryType
  | Jump nat
  | JumpIfFalse nat
  | JumpIfTrue nat
  | Call nat nat
  | CallLocal nat nat
  | CallNative NativeBlock nat
  | CallNativeLocal NativeBlock nat
  | Return

record Routine =
  ro_name :: string
  ro_code :: "Op list"
  ro_result_slot :: "nat option"
  ro_frame_size :: nat
  ro_max_stack :: nat

record Program =
  pr_routines :: "Routine list"
  pr_constants :: "Value list"
  pr_messages :: "string list"
  pr_enum_sets :: "int list list"
  pr_addresses :: "DirectAddress list"
  pr_slot_types :: "ElementaryType list"
  pr_slot_names :: "string list"
  pr_image_bytes :: nat

definition Program_new :: Program where
  "Program_new = \<lparr>pr_routines = [], pr_constants = [], pr_messages = [], pr_enum_sets = [], pr_addresses = [],
     pr_slot_types = [], pr_slot_names = [], pr_image_bytes = 0\<rparr>"

definition Program_routine :: "Program \<Rightarrow> nat \<Rightarrow> Routine option" where
  "Program_routine p idx = get (pr_routines p) idx"

fun name_position :: "string \<Rightarrow> string list \<Rightarrow> nat option" where
  "name_position name [] = None"
| "name_position name (n # ns) = (if eq_ignore_ascii_case n name then Some 0 else map_option Suc (name_position name ns))"

definition u32_try_from :: "nat \<Rightarrow> nat option" where
  "u32_try_from n = (if n < 2 ^ 32 then Some n else None)"

definition routine_index :: "Program \<Rightarrow> string \<Rightarrow> nat option" where
  "routine_index p name = Option.bind (name_position name (map ro_name (pr_routines p))) u32_try_from"

definition slot_index :: "Program \<Rightarrow> string \<Rightarrow> nat option" where
  "slot_index p name = Option.bind (name_position name (pr_slot_names p)) u32_try_from"

section \<open>Faults and limits\<close>

record Fault =
  fault_kind :: FaultKind
  fault_routine :: string
  fault_pc :: nat

record ExecLimits =
  el_max_instructions :: nat
  el_max_stack :: nat
  el_max_call_depth :: nat

definition ExecLimits_default :: ExecLimits where
  "ExecLimits_default = \<lparr>el_max_instructions = 10000000, el_max_stack = 1024, el_max_call_depth = 64\<rparr>"

record Executed =
  ed_instructions :: nat
  ed_peak_stack :: nat

section \<open>The state of the interpreter\<close>

record Env =
  env_program :: Program
  env_clock :: Clock
  env_limits :: ExecLimits

record Exec =
  ex_memory :: Memory
  ex_stack :: "Value list"
  ex_instructions :: nat
  ex_peak_stack :: nat
  ex_depth :: nat
  ex_base :: nat

type_synonym 'a ex = "(Exec, FaultKind, 'a) es"

definition push :: "Env \<Rightarrow> Value \<Rightarrow> unit ex" where
  "push env value s =
     (if length (ex_stack s) \<ge> el_max_stack (env_limits env) then (Inl StackOverflow, s)
      else (Inr (), s\<lparr>ex_stack := value # ex_stack s,
             ex_peak_stack := (if length (ex_stack s) + 1 > ex_peak_stack s then length (ex_stack s) + 1 else ex_peak_stack s)\<rparr>))"

definition pop :: "Value ex" where
  "pop s = (case ex_stack s of [] \<Rightarrow> (Inl StackUnderflow, s) | value # rest \<Rightarrow> (Inr value, s\<lparr>ex_stack := rest\<rparr>))"

definition peek :: "Value ex" where
  "peek = es_read (\<lambda>s. case ex_stack s of [] \<Rightarrow> Inl StackUnderflow | value # _ \<Rightarrow> Inr value)"

text \<open>A computation on the memory, run inside the interpreter.\<close>

definition on_memory :: "(Memory, FaultKind, 'a) es \<Rightarrow> 'a ex" where
  "on_memory f s = (case f (ex_memory s) of (r, m) \<Rightarrow> (r, s\<lparr>ex_memory := m\<rparr>))"

text \<open>\<open>self.base.saturating_add(offset)\<close>, handed to what comes next.\<close>

definition at_base :: "nat \<Rightarrow> (nat \<Rightarrow> 'a ex) \<Rightarrow> 'a ex" where
  "at_base offset f s = f (slot_add (ex_base s) offset) s"

definition indexed_slot :: "nat \<Rightarrow> nat \<Rightarrow> int \<Rightarrow> nat ex" where
  "indexed_slot base len low =
     es_bind pop (\<lambda>index_value.
     case as_i64 index_value of
       None \<Rightarrow> es_fail (TypeMismatch E_Dint (type_of index_value))
     | Some idx \<Rightarrow>
         let high = saturate_i64 (saturate_i64 (low + int len) - 1) in
         if idx < low \<or> idx > high then es_fail (ArrayIndexOutOfRange idx low high)
         else
           let offset = saturate_i64 (idx - low) in
           if offset < 0 \<or> offset \<ge> 2 ^ 32 then es_fail (ArrayIndexOutOfRange idx low high)
           else es_return (slot_add base (nat offset)))"

definition load_slot :: "Env \<Rightarrow> nat \<Rightarrow> unit ex" where
  "load_slot env slot =
     es_bind (es_read (\<lambda>s. ok_or (read_slot (ex_memory s) slot) (SlotOutOfRange slot))) (push env)"

definition store_slot :: "nat \<Rightarrow> Value \<Rightarrow> unit ex" where
  "store_slot slot value =
     on_memory (\<lambda>m. case write_slot m slot value of (ok, m) \<Rightarrow> (if ok then Inr () else Inl (SlotOutOfRange slot), m))"

section \<open>Address instructions\<close>

fun AddressError_to_string :: "AddressError \<Rightarrow> string" where
  "AddressError_to_string (OutOfRange address byte area_len) =
     address @ '' resolves to byte '' @ show_nat byte @ '', past the end of a '' @ show_nat area_len @ '' byte area''"
| "AddressError_to_string (BitOutOfRange address bitno) =
     address @ '' names bit '' @ show_nat bitno @ ''; a byte has bits 0 to 7''"
| "AddressError_to_string (PartlySpecified address) =
     address @ '' is partly specified and must be given a location by the configuration''"
| "AddressError_to_string (UnsupportedDepth address depth) =
     address @ '' is '' @ show_nat depth @ '' levels deep; salman resolves one level, or two for a bit''"

definition load_address :: "Env \<Rightarrow> nat \<Rightarrow> unit ex" where
  "load_address env i =
     es_bind (es_of (ok_or (get (pr_addresses (env_program env)) i) (ConstantOutOfRange i))) (\<lambda>address.
     es_bind (es_read (\<lambda>s.
       case read_address (ex_memory s) address of
         Inl e \<Rightarrow> Inl (Address_fault (AddressError_to_string e))
       | Inr None \<Rightarrow> Inl (Address_fault (DirectAddress_to_string address @ '' is outside the process image''))
       | Inr (Some value) \<Rightarrow> Inr value)) (push env))"

definition store_address :: "Env \<Rightarrow> nat \<Rightarrow> unit ex" where
  "store_address env i =
     es_bind pop (\<lambda>value.
     es_bind (es_of (ok_or (get (pr_addresses (env_program env)) i) (ConstantOutOfRange i))) (\<lambda>address.
     on_memory (\<lambda>m.
       case write_address m address value of
         Inl e \<Rightarrow> (Inl (Address_fault (AddressError_to_string e)), m)
       | Inr (written, m) \<Rightarrow>
           (if written then Inr () else Inl (Address_fault (DirectAddress_to_string address @ '' could not be written'')), m))))"

section \<open>Run-time checks\<close>

definition message_or :: "Env \<Rightarrow> nat \<Rightarrow> string \<Rightarrow> string" where
  "message_or env name fallback = unwrap_or (get (pr_messages (env_program env)) name) fallback"

definition bounds_check :: "int \<Rightarrow> int \<Rightarrow> unit ex" where
  "bounds_check low high =
     es_bind peek (\<lambda>value.
     case as_i64 value of
       None \<Rightarrow> es_fail (TypeMismatch E_Dint (type_of value))
     | Some idx \<Rightarrow> if idx < low \<or> idx > high then es_fail (ArrayIndexOutOfRange idx low high) else es_return ())"

definition check_subrange :: "Env \<Rightarrow> int \<Rightarrow> int \<Rightarrow> nat \<Rightarrow> unit ex" where
  "check_subrange env low high name =
     es_bind peek (\<lambda>value.
     case wide_integer value of
       None \<Rightarrow> es_fail (TypeMismatch E_Dint (type_of value))
     | Some number \<Rightarrow>
         if number < low \<or> number > high
         then es_fail (SubrangeViolation (message_or env name ''a subrange variable'') number low high)
         else es_return ())"

definition check_enum :: "Env \<Rightarrow> nat \<Rightarrow> nat \<Rightarrow> unit ex" where
  "check_enum env sets name =
     es_bind peek (\<lambda>value.
     case as_i64 value of
       None \<Rightarrow> es_fail (TypeMismatch E_Dint (type_of value))
     | Some number \<Rightarrow>
         let permitted = unwrap_or (get (pr_enum_sets (env_program env)) sets) [] in
         if number \<notin> set permitted
         then es_fail (EnumViolation (message_or env name ''an enumeration variable'') number permitted)
         else es_return ())"

definition truncated :: "nat \<Rightarrow> Value \<Rightarrow> Value" where
  "truncated n value =
     (case value of
        V_String bytes \<Rightarrow> if length bytes > n then V_String (take n bytes) else value
      | V_WString units \<Rightarrow> if length units > n then V_WString (take n units) else value
      | other \<Rightarrow> other)"

section \<open>One instruction\<close>

datatype Flow = Goto nat | Enter nat nat | Leave

definition jump_if :: "bool \<Rightarrow> nat \<Rightarrow> nat \<Rightarrow> nat \<Rightarrow> Flow ex" where
  "jump_if want target code_len next_pc =
     (if target > code_len then es_fail (JumpOutOfRange target)
      else es_bind pop (\<lambda>value.
        case as_bool value of
          Some condition \<Rightarrow> es_return (Goto (if condition = want then target else next_pc))
        | None \<Rightarrow> es_fail (TypeMismatch E_Bool (type_of value))))"

text \<open>The instructions that go on to the next one.\<close>

definition exec_plain :: "Env \<Rightarrow> Op \<Rightarrow> unit ex" where
  "exec_plain env op =
     (case op of
        Const i \<Rightarrow> es_bind (es_of (ok_or (get (pr_constants (env_program env)) i) (ConstantOutOfRange i))) (push env)
      | Pop \<Rightarrow> es_bind pop (\<lambda>_. es_return ())
      | Dup \<Rightarrow> es_bind peek (push env)
      | LoadLocal offset \<Rightarrow> at_base offset (load_slot env)
      | StoreLocal offset \<Rightarrow> at_base offset (\<lambda>slot. es_bind pop (store_slot slot))
      | LoadIndexedLocal base len low \<Rightarrow> at_base base (\<lambda>base. es_bind (indexed_slot base len low) (load_slot env))
      | StoreIndexedLocal base len low \<Rightarrow>
          at_base base (\<lambda>base. es_bind pop (\<lambda>value. es_bind (indexed_slot base len low) (\<lambda>slot. store_slot slot value)))
      | LoadSlot slot \<Rightarrow> load_slot env slot
      | StoreSlot slot \<Rightarrow> es_bind pop (store_slot slot)
      | LoadAddress i \<Rightarrow> load_address env i
      | StoreAddress i \<Rightarrow> store_address env i
      | LoadIndexed base len low \<Rightarrow> es_bind (indexed_slot base len low) (load_slot env)
      | StoreIndexed base len low \<Rightarrow>
          es_bind pop (\<lambda>value. es_bind (indexed_slot base len low) (\<lambda>slot. store_slot slot value))
      | BoundsCheck low high \<Rightarrow> bounds_check low high
      | CheckRange low high name \<Rightarrow> check_subrange env low high name
      | CheckEnum sets name \<Rightarrow> check_enum env sets name
      | TruncateString n \<Rightarrow> es_bind pop (\<lambda>value. push env (truncated n value))
      | Binary bop ty \<Rightarrow>
          es_bind pop (\<lambda>rhs. es_bind pop (\<lambda>lhs. es_bind (es_of (binary bop ty lhs rhs)) (push env)))
      | Unary uop ty \<Rightarrow> es_bind pop (\<lambda>operand. es_bind (es_of (unary uop ty operand)) (push env))
      | Convert to \<Rightarrow> es_bind pop (\<lambda>operand. es_bind (es_of (convert operand to)) (push env))
      | CallNative block base \<Rightarrow> on_memory (fb_step block base (env_clock env))
      | CallNativeLocal block offset \<Rightarrow> at_base offset (\<lambda>base. on_memory (fb_step block base (env_clock env)))
      | _ \<Rightarrow> es_return ())"

definition exec_op :: "Env \<Rightarrow> nat \<Rightarrow> nat \<Rightarrow> Op \<Rightarrow> Flow ex" where
  "exec_op env code_len next_pc op =
     (case op of
        Jump target \<Rightarrow> if target > code_len then es_fail (JumpOutOfRange target) else es_return (Goto target)
      | JumpIfFalse target \<Rightarrow> jump_if False target code_len next_pc
      | JumpIfTrue target \<Rightarrow> jump_if True target code_len next_pc
      | Call routine base \<Rightarrow> es_return (Enter routine base)
      | CallLocal routine offset \<Rightarrow> at_base offset (\<lambda>base. es_return (Enter routine base))
      | Return \<Rightarrow> es_return Leave
      | plain \<Rightarrow> es_bind (exec_plain env plain) (\<lambda>_. es_return (Goto next_pc)))"

section \<open>What one instruction may change\<close>

definition stack_ok :: "Env \<Rightarrow> Exec \<Rightarrow> bool" where
  "stack_ok env s \<longleftrightarrow> length (ex_stack s) \<le> ex_peak_stack s \<and> ex_peak_stack s \<le> el_max_stack (env_limits env)"

definition op_rel :: "Env \<Rightarrow> Exec \<Rightarrow> Exec \<Rightarrow> bool" where
  "op_rel env s t \<longleftrightarrow> ex_instructions t = ex_instructions s \<and> ex_depth t = ex_depth s \<and> ex_base t = ex_base s \<and>
     program_write\<^sup>*\<^sup>* (ex_memory s) (ex_memory t) \<and> (stack_ok env s \<longrightarrow> stack_ok env t)"

interpretation op: state_relation "op_rel env" for env
  by unfold_locales (auto simp: op_rel_def)

lemma push_rel: "es_rel (op_rel env) (push env v)"
  by (auto simp: es_rel_def push_def op_rel_def stack_ok_def)

lemma pop_rel: "es_rel (op_rel env) pop"
  by (auto simp: es_rel_def pop_def op_rel_def stack_ok_def split: list.splits)

lemma peek_rel: "es_rel (op_rel env) peek"
  unfolding peek_def by (rule op.rel_read)

lemma on_memory_rel: "es_rel program_write\<^sup>*\<^sup>* f \<Longrightarrow> es_rel (op_rel env) (on_memory f)"
  unfolding es_rel_def
proof
  fix s :: Exec assume "\<forall>m. program_write\<^sup>*\<^sup>* m (snd (f m))"
  then have "program_write\<^sup>*\<^sup>* (ex_memory s) (snd (f (ex_memory s)))" by blast
  then show "op_rel env s (snd (on_memory f s))" by (auto simp: on_memory_def op_rel_def stack_ok_def split: prod.splits)
qed

lemma at_base_rel: "(\<And>base. es_rel R (f base)) \<Longrightarrow> es_rel R (at_base offset f)"
  by (simp add: es_rel_def at_base_def)

lemma store_slot_rel: "es_rel (op_rel env) (store_slot slot v)"
  unfolding store_slot_def
proof (rule on_memory_rel)
  show "es_rel program_write\<^sup>*\<^sup>* (\<lambda>m. case write_slot m slot v of (ok, m) \<Rightarrow> (if ok then Inr () else Inl (SlotOutOfRange slot), m))"
    using write_to_slot [of _ slot v] by (auto simp: es_rel_def split: prod.splits) (metis r_into_rtranclp snd_conv)
qed

lemma store_address_rel: "es_rel (op_rel env) (store_address env i)"
proof -
  have "es_rel program_write\<^sup>*\<^sup>* (\<lambda>m. case write_address m a v of Inl e \<Rightarrow> (Inl (Address_fault (AddressError_to_string e)), m)
       | Inr (written, m) \<Rightarrow> (if written then Inr () else Inl (Address_fault (DirectAddress_to_string a @ '' could not be written'')), m))" for a v
    by (auto simp: es_rel_def split: sum.splits prod.splits) (blast intro: write_to_address)+
  then show ?thesis unfolding store_address_def by (intro op.rel_intros pop_rel on_memory_rel)
qed

lemma load_slot_rel: "es_rel (op_rel env) (load_slot env slot)"
  unfolding load_slot_def by (intro op.rel_intros push_rel)

lemma indexed_slot_rel: "es_rel (op_rel env) (indexed_slot base len low)"
  unfolding indexed_slot_def Let_def by (intro op.rel_intros pop_rel)

lemmas exec_rels = push_rel pop_rel peek_rel at_base_rel store_slot_rel store_address_rel load_slot_rel indexed_slot_rel
  on_memory_rel fb_step_writes

lemma exec_plain_rel: "es_rel (op_rel env) (exec_plain env op)"
  by (cases op) (simp_all add: exec_plain_def load_address_def bounds_check_def check_subrange_def check_enum_def Let_def
      op.rel_intros exec_rels)

lemma exec_op_rel: "es_rel (op_rel env) (exec_op env len next_pc op)"
  by (cases op) (simp_all add: exec_op_def jump_if_def op.rel_intros exec_plain_rel pop_rel at_base_rel)

lemma exec_op_keeps: "exec_op env len next_pc op s = (r, t) \<Longrightarrow> op_rel env s t"
  using exec_op_rel [of env len next_pc op] by (metis es_rel_def snd_conv)

section \<open>The loop and the call\<close>

definition fault_at :: "FaultKind \<Rightarrow> string \<Rightarrow> nat \<Rightarrow> Fault" where
  "fault_at kind routine pc = \<lparr>fault_kind = kind, fault_routine = routine, fault_pc = pc\<rparr>"

definition tick :: "Exec \<Rightarrow> Exec" where
  "tick s = s\<lparr>ex_instructions := ex_instructions s + 1\<rparr>"

definition wrapping_u32 :: "nat \<Rightarrow> nat" where
  "wrapping_u32 n = n mod 2 ^ 32"

text \<open>
  One turn of the loop: fetch, count, and execute.  It either ends the routine, or goes on in it, or
  calls another one and goes on after the call.
\<close>

datatype Turn = Ends "Fault + unit" Exec | Goes_on nat Exec | Calls nat nat nat Exec

definition turn :: "Env \<Rightarrow> nat \<Rightarrow> nat \<Rightarrow> Exec \<Rightarrow> Turn" where
  "turn env idx pc s =
     (case Program_routine (env_program env) idx of
        None \<Rightarrow> Ends (Inl (fault_at (RoutineOutOfRange idx) ''<unknown>'' pc)) s
      | Some routine \<Rightarrow>
          (case get (ro_code routine) pc of
             None \<Rightarrow> Ends (Inr ()) s
           | Some op \<Rightarrow>
               if ex_instructions (tick s) > el_max_instructions (env_limits env)
               then Ends (Inl (fault_at (InstructionBudgetExceeded (el_max_instructions (env_limits env))) (ro_name routine) pc)) (tick s)
               else
                 (case exec_op env (wrapping_u32 (length (ro_code routine))) (wrapping_u32 (pc + 1)) op (tick s) of
                    (Inl kind, t) \<Rightarrow> Ends (Inl (fault_at kind (ro_name routine) pc)) t
                  | (Inr (Goto next_pc), t) \<Rightarrow> Goes_on next_pc t
                  | (Inr Leave, t) \<Rightarrow> Ends (Inr ()) t
                  | (Inr (Enter callee base), t) \<Rightarrow> Calls callee base (wrapping_u32 (pc + 1)) t)))"

function run :: "Env \<Rightarrow> nat \<Rightarrow> nat \<Rightarrow> Exec \<Rightarrow> (Fault + unit) \<times> Exec"
  and run_body :: "Env \<Rightarrow> nat \<Rightarrow> nat \<Rightarrow> Exec \<Rightarrow> (Fault + unit) \<times> Exec"
where
  "run env idx base s =
     (case Program_routine (env_program env) idx of
        None \<Rightarrow> (Inl (fault_at (RoutineOutOfRange idx) ''<unknown>'' 0), s)
      | Some routine \<Rightarrow>
          if ex_depth s \<ge> el_max_call_depth (env_limits env)
          then (Inl (fault_at (CallDepthExceeded (el_max_call_depth (env_limits env))) (ro_name routine) 0), s)
          else
            let saved = ex_base s;
                (result, t) = run_body env idx 0 (s\<lparr>ex_depth := ex_depth s + 1, ex_base := base\<rparr>)
            in (result, t\<lparr>ex_base := saved, ex_depth := ex_depth t - 1\<rparr>))"
| "run_body env idx pc s =
     (case turn env idx pc s of
        Ends result t \<Rightarrow> (result, t)
      | Goes_on next_pc t \<Rightarrow> run_body env idx next_pc t
      | Calls callee base next_pc t \<Rightarrow>
          (case run env callee base t of
             (Inl f, u) \<Rightarrow> (Inl f, u)
           | (Inr _, u) \<Rightarrow> run_body env idx next_pc u))"
  by pat_completeness auto

text \<open>What a turn does to the state: it counts at most one instruction, within the budget if it goes on.\<close>

lemma turn_keeps:
  "turn env idx pc s = Ends r t \<Longrightarrow> t = s \<or> op_rel env (tick s) t"
  "turn env idx pc s = Goes_on n t \<Longrightarrow> op_rel env (tick s) t \<and> ex_instructions s < el_max_instructions (env_limits env)"
  "turn env idx pc s = Calls c b n t \<Longrightarrow> op_rel env (tick s) t \<and> ex_instructions s < el_max_instructions (env_limits env)"
  by (auto simp: turn_def tick_def op.R_refl split: option.splits if_splits prod.splits sum.splits Flow.splits dest: exec_op_keeps)

lemma op_rel_spent: "op_rel env (tick s) t \<Longrightarrow> ex_instructions t = Suc (ex_instructions s)"
  by (simp add: op_rel_def tick_def)

text \<open>The instruction counter never goes back, which is what ends the recursion.\<close>

lemma run_spent_partial:
  "run_run_body_dom (Inl (env, idx, base, s)) \<Longrightarrow> ex_instructions s \<le> ex_instructions (snd (run env idx base s))"
  "run_run_body_dom (Inr (env, idx, pc, s)) \<Longrightarrow> ex_instructions s \<le> ex_instructions (snd (run_body env idx pc s))"
proof (induction rule: run_run_body.pinduct)
  case (1 env idx base s)
  then show ?case by (auto simp: run.psimps split: option.splits prod.splits)
next
  case (2 env idx pc s)
  show ?case
  proof (cases "turn env idx pc s")
    case (Ends r t)
    then have "ex_instructions s \<le> ex_instructions t" using turn_keeps(1) op_rel_spent by fastforce
    with Ends 2(1) show ?thesis by (simp add: run_body.psimps)
  next
    case (Goes_on n t)
    then have "ex_instructions s \<le> ex_instructions t" using turn_keeps(2) op_rel_spent by fastforce
    with Goes_on 2(1) 2(2) [OF Goes_on] show ?thesis by (simp add: run_body.psimps)
  next
    case (Calls c b n t)
    then have "ex_instructions s \<le> ex_instructions t" using turn_keeps(3) op_rel_spent by fastforce
    with Calls 2(1) 2(3) [OF Calls] 2(4) [OF Calls] show ?thesis
      by (auto simp: run_body.psimps split: prod.splits sum.splits)
  qed
qed

termination run
proof (relation "measure (\<lambda>x. case x of
     Inl (env, idx, base, s) \<Rightarrow> 2 * (el_max_instructions (env_limits env) - ex_instructions s) + 1
   | Inr (env, idx, pc, s) \<Rightarrow> 2 * (el_max_instructions (env_limits env) - ex_instructions s))", goal_cases)
  case (3 env idx pc s n t)
  with turn_keeps(2) [OF 3] op_rel_spent [of env s t] show ?case by (simp, linarith)
next
  case (4 env idx pc s c b n t)
  with turn_keeps(3) [OF 4] op_rel_spent [of env s t] show ?case by (simp, linarith)
next
  case (5 env idx pc s c b n t r u x)
  then have "ex_instructions t \<le> ex_instructions u" using run_spent_partial(1) [of env c b t] by (metis snd_conv)
  with turn_keeps(3) [OF 5(1)] op_rel_spent [of env s t] show ?case by (simp, linarith)
qed simp_all

declare run.simps [simp del] run_body.simps [simp del]

definition execute :: "Env \<Rightarrow> nat \<Rightarrow> nat \<Rightarrow> Memory \<Rightarrow> (Fault + Executed) \<times> Memory" where
  "execute env routine base memory =
     (case run env routine base \<lparr>ex_memory = memory, ex_stack = [], ex_instructions = 0, ex_peak_stack = 0, ex_depth = 0, ex_base = 0\<rparr> of
        (Inl f, s) \<Rightarrow> (Inl f, ex_memory s)
      | (Inr _, s) \<Rightarrow> (Inr \<lparr>ed_instructions = ex_instructions s, ed_peak_stack = ex_peak_stack s\<rparr>, ex_memory s))"

end
