(* ===== verification/Vm_Safety.thy ===== *)
theory Vm_Safety
  imports Vm_Exec
begin

text \<open>
  What an execution of \<open>Vm_Exec\<close> can do, for every program: it is the run of a small-step machine with an
  explicit call stack, it ends within a number of steps fixed by the instruction budget, at no step is
  an instruction, operand or call beyond its limit, and it changes the memory only through the writes
  a program has.
\<close>

section \<open>What a run keeps\<close>

definition run_rel :: "Env \<Rightarrow> Fault + unit \<Rightarrow> Exec \<Rightarrow> Exec \<Rightarrow> bool" where
  "run_rel env r s t \<longleftrightarrow> ex_depth t = ex_depth s \<and> ex_base t = ex_base s \<and> ex_instructions s \<le> ex_instructions t \<and>
     program_write\<^sup>*\<^sup>* (ex_memory s) (ex_memory t) \<and> (stack_ok env s \<longrightarrow> stack_ok env t) \<and>
     (ex_instructions s \<le> el_max_instructions (env_limits env) \<longrightarrow>
        ex_instructions t \<le> el_max_instructions (env_limits env) + (case r of Inl _ \<Rightarrow> 1 | Inr _ \<Rightarrow> 0))"

lemma run_rel_refl: "run_rel env r s s"
  by (simp add: run_rel_def split: sum.splits)

lemma tick_run_rel: "op_rel env (tick s) t \<Longrightarrow> ex_instructions s < el_max_instructions (env_limits env) \<Longrightarrow> run_rel env (Inr ()) s t"
  by (auto simp: run_rel_def op_rel_def tick_def stack_ok_def)

lemma run_rel_trans: "run_rel env (Inr x) s t \<Longrightarrow> run_rel env r t u \<Longrightarrow> run_rel env r s u"
  by (auto simp: run_rel_def intro: rtranclp_trans)

lemma turn_ends_rel: "turn env idx pc s = Ends r t \<Longrightarrow> run_rel env r s t"
proof -
  assume e: "turn env idx pc s = Ends r t"
  then consider "t = s" | "op_rel env (tick s) t" "r = Inr () \<longrightarrow> ex_instructions s < el_max_instructions (env_limits env)"
    by (auto simp: turn_def tick_def op.R_refl split: option.splits if_splits prod.splits sum.splits Flow.splits dest: exec_op_keeps)
  then show ?thesis
    by cases (auto simp: run_rel_refl, auto simp: run_rel_def op_rel_def tick_def stack_ok_def split: sum.splits)
qed

lemma run_stays:
  "run_rel env (fst (run env idx base s)) s (snd (run env idx base s))"
  "run_rel env (fst (run_body env idx pc s)) s (snd (run_body env idx pc s))"
proof (induction env idx base s and env idx pc s rule: run_run_body.induct)
  case (1 env idx base s)
  then show ?case
    by (auto simp: run.simps [of env idx base s] run_rel_def stack_ok_def split: option.splits prod.splits)
next
  case (2 env idx pc s)
  show ?case
  proof (cases "turn env idx pc s")
    case (Ends r t)
    then show ?thesis using turn_ends_rel by (simp add: run_body.simps)
  next
    case (Goes_on n t)
    with turn_keeps(2) [OF Goes_on] have "run_rel env (Inr ()) s t" by (simp add: tick_run_rel)
    with Goes_on 2(1) [OF Goes_on] show ?thesis by (simp add: run_body.simps [of env idx pc s] run_rel_trans)
  next
    case (Calls c b n t)
    with turn_keeps(3) [OF Calls] have st: "run_rel env (Inr ()) s t" by (simp add: tick_run_rel)
    obtain r u where ru: "run env c b t = (r, u)" by force
    with 2(2) [OF Calls] st have "run_rel env r s u" by (auto intro: run_rel_trans)
    with Calls ru 2(3) [OF Calls] show ?thesis
      by (cases r) (auto simp: run_body.simps [of env idx pc s] intro: run_rel_trans)
  qed
qed

section \<open>The machine\<close>

text \<open>
  A frame is a routine, the instruction to run next in it, and the instance base to restore when it is
  left.  A step is one turn of the loop, with the call and the return made explicit.
\<close>

type_synonym Frame = "nat \<times> nat \<times> nat"

datatype Config = Running "Frame list" Exec | Halted "Fault + unit" Exec

definition leave :: "nat \<Rightarrow> Exec \<Rightarrow> Exec" where
  "leave saved t = t\<lparr>ex_base := saved, ex_depth := ex_depth t - 1\<rparr>"

definition returned :: "Frame list \<Rightarrow> Exec \<Rightarrow> Config" where
  "returned fs t = (case fs of [] \<Rightarrow> Halted (Inr ()) t | _ \<Rightarrow> Running fs t)"

definition call_fault :: "Env \<Rightarrow> nat \<Rightarrow> Exec \<Rightarrow> Fault option" where
  "call_fault env idx s =
     (case Program_routine (env_program env) idx of
        None \<Rightarrow> Some (fault_at (RoutineOutOfRange idx) ''<unknown>'' 0)
      | Some routine \<Rightarrow>
          if ex_depth s \<ge> el_max_call_depth (env_limits env)
          then Some (fault_at (CallDepthExceeded (el_max_call_depth (env_limits env))) (ro_name routine) 0) else None)"

definition entered :: "nat \<Rightarrow> Exec \<Rightarrow> Exec" where
  "entered base s = s\<lparr>ex_depth := ex_depth s + 1, ex_base := base\<rparr>"

inductive vm_step :: "Env \<Rightarrow> Config \<Rightarrow> Config \<Rightarrow> bool" for env where
  go: "turn env idx pc s = Goes_on n t \<Longrightarrow> vm_step env (Running ((idx, pc, sv) # fs) s) (Running ((idx, n, sv) # fs) t)"
| call: "turn env idx pc s = Calls c b n t \<Longrightarrow> call_fault env c t = None \<Longrightarrow>
    vm_step env (Running ((idx, pc, sv) # fs) s) (Running ((c, 0, ex_base t) # (idx, n, sv) # fs) (entered b t))"
| refused: "turn env idx pc s = Calls c b n t \<Longrightarrow> call_fault env c t = Some f \<Longrightarrow>
    vm_step env (Running ((idx, pc, sv) # fs) s) (Halted (Inl f) t)"
| return: "turn env idx pc s = Ends (Inr ()) t \<Longrightarrow> vm_step env (Running ((idx, pc, sv) # fs) s) (returned fs (leave sv t))"
| fault: "turn env idx pc s = Ends (Inl f) t \<Longrightarrow> vm_step env (Running ((idx, pc, sv) # fs) s) (Halted (Inl f) t)"

inductive_simps vm_step_Running: "vm_step env (Running (f # fs) s) c"
inductive_cases vm_step_HaltedE: "vm_step env (Halted r s) c"

lemma vm_step_deterministic: "vm_step env c d \<Longrightarrow> vm_step env c d' \<Longrightarrow> d = d'"
  by (induction rule: vm_step.induct) (auto simp: vm_step_Running)

text \<open>What a fault leaves, apart from the registers the unwinding restores.\<close>

definition residue :: "Exec \<Rightarrow> Memory \<times> Value list \<times> nat \<times> nat" where
  "residue s = (ex_memory s, ex_stack s, ex_instructions s, ex_peak_stack s)"

lemma residue_leave [simp]: "residue (leave sv t) = residue t" "residue (entered b t) = residue t"
  by (simp_all add: residue_def leave_def entered_def)

definition reaches :: "Env \<Rightarrow> Config \<Rightarrow> nat \<Rightarrow> Config \<Rightarrow> bool" where
  "reaches env c n d \<longleftrightarrow> (\<exists>m \<le> n. (vm_step env ^^ m) c d)"

lemma reaches_step: "vm_step env c d \<Longrightarrow> reaches env d n e \<Longrightarrow> Suc n \<le> m \<Longrightarrow> reaches env c m e"
  unfolding reaches_def by (meson Suc_le_mono order_trans relpowp_Suc_I2)

lemma reaches_trans: "reaches env c m d \<Longrightarrow> reaches env d n e \<Longrightarrow> m + n \<le> k \<Longrightarrow> reaches env c k e"
  unfolding reaches_def by (meson add_mono order_trans relpowp_trans)

lemma reaches_refl: "reaches env c n c"
  unfolding reaches_def by (rule exI [of _ 0]) simp

text \<open>How a run shows in the machine: a fault halts it, a return goes on with the frames below.\<close>

definition halts :: "Env \<Rightarrow> Config \<Rightarrow> nat \<Rightarrow> Frame list \<Rightarrow> Fault + unit \<Rightarrow> Exec \<Rightarrow> bool" where
  "halts env c n fs r t \<longleftrightarrow> (case r of
      Inl f \<Rightarrow> \<exists>t'. reaches env c n (Halted (Inl f) t') \<and> residue t' = residue t
    | Inr _ \<Rightarrow> reaches env c n (returned fs t))"

lemma halts_step: "vm_step env c d \<Longrightarrow> halts env d n fs r t \<Longrightarrow> Suc n \<le> m \<Longrightarrow> halts env c m fs r t"
  by (cases r) (simp_all add: halts_def, (meson reaches_step)+)

lemma halts_append:
  "halts env c m (f # fs) (Inr ()) t \<Longrightarrow> halts env (Running (f # fs) t) n fs' r u \<Longrightarrow> m + n \<le> k \<Longrightarrow> halts env c k fs' r u"
  by (cases r) (simp_all add: halts_def returned_def, (meson reaches_trans)+)

lemma halts_fault: "halts env c n fs (Inl f) t \<Longrightarrow> residue t = residue u \<Longrightarrow> halts env c n fs' (Inl f) u"
  by (simp add: halts_def)

lemma halts_once: "vm_step env c (Halted (Inl f) t) \<Longrightarrow> residue t = residue u \<Longrightarrow> halts env c (Suc n) fs (Inl f) u"
  unfolding halts_def using reaches_step reaches_refl by fastforce

lemma run_call:
  "run env idx base s = (case call_fault env idx s of
     Some f \<Rightarrow> (Inl f, s)
   | None \<Rightarrow> (case run_body env idx 0 (entered base s) of (r, t) \<Rightarrow> (r, leave (ex_base s) t)))"
  by (simp add: run.simps [of env idx base s] call_fault_def entered_def leave_def split: option.splits)

definition cost :: "Exec \<Rightarrow> Exec \<Rightarrow> nat" where
  "cost s t = 2 * (ex_instructions t - ex_instructions s) + 1"

lemma call_halts:
  assumes Calls: "turn env idx pc s = Calls c b n t"
    and callee: "\<And>fs. call_fault env c t = None \<Longrightarrow> halts env (Running ((c, 0, ex_base t) # fs) (entered b t)) (cost t (snd (run env c b t))) fs
      (fst (run env c b t)) (snd (run env c b t))"
    and rest: "\<And>u x. run env c b t = (Inr x, u) \<Longrightarrow> halts env (Running ((idx, n, sv) # fs) u) (cost u (snd (run_body env idx n u))) fs
      (fst (run_body env idx n u)) (leave sv (snd (run_body env idx n u)))"
  shows "halts env (Running ((idx, pc, sv) # fs) s) (cost s (snd (run_body env idx pc s))) fs
     (fst (run_body env idx pc s)) (leave sv (snd (run_body env idx pc s)))"
proof -
  have spent: "ex_instructions t = Suc (ex_instructions s)" using turn_keeps(3) [OF Calls] op_rel_spent [of env s t] by simp
  obtain r u where ru: "run env c b t = (r, u)" by force
  show ?thesis
  proof (cases "call_fault env c t")
    case (Some f)
    then have "run_body env idx pc s = (Inl f, t)" using Calls by (simp add: run_body.simps [of env idx pc s] run_call)
    then show ?thesis using halts_once [OF vm_step.refused [OF Calls Some]] by (simp add: cost_def)
  next
    case None
    from callee [OF None, of "(idx, n, sv) # fs"] ru
    have h: "halts env (Running ((c, 0, ex_base t) # (idx, n, sv) # fs) (entered b t)) (cost t u) ((idx, n, sv) # fs) r u" by simp
    have tu: "ex_instructions t \<le> ex_instructions u" using run_stays(1) [of env c b t] ru by (simp add: run_rel_def)
    show ?thesis
    proof (cases r)
      case (Inl f)
      then have "run_body env idx pc s = (Inl f, u)" using Calls ru by (simp add: run_body.simps [of env idx pc s])
      moreover have "Suc (cost t u) \<le> cost s u" using spent tu by (simp add: cost_def)
      ultimately show ?thesis using halts_fault [OF halts_step [OF vm_step.call [OF Calls None] h [unfolded Inl]], of "cost s u" "leave sv u" fs]
        by simp
    next
      case (Inr x)
      let ?v = "snd (run_body env idx n u)"
      have uv: "ex_instructions u \<le> ex_instructions ?v" using run_stays(2) [of env idx n u] by (simp add: run_rel_def)
      have "run_body env idx pc s = run_body env idx n u" using Calls ru Inr by (simp add: run_body.simps [of env idx pc s])
      moreover have "Suc (cost t u) + cost u ?v \<le> cost s ?v" using spent tu uv by (simp add: cost_def)
      moreover have "halts env (Running ((idx, pc, sv) # fs) s) (Suc (cost t u)) ((idx, n, sv) # fs) (Inr ()) u"
        using halts_step [OF vm_step.call [OF Calls None] h, of "Suc (cost t u)"] Inr by simp
      ultimately show ?thesis
        using halts_append [OF _ rest [OF ru [unfolded Inr]]] by simp
    qed
  qed
qed

lemma body_halts:
  "call_fault env idx s = None \<Longrightarrow> halts env (Running ((idx, 0, ex_base s) # fs) (entered base s)) (cost s (snd (run env idx base s))) fs
     (fst (run env idx base s)) (snd (run env idx base s))"
  "halts env (Running ((idx, pc, sv) # fs) s) (cost s (snd (run_body env idx pc s))) fs
     (fst (run_body env idx pc s)) (leave sv (snd (run_body env idx pc s)))"
proof (induction env idx base s and env idx pc s arbitrary: fs and fs sv rule: run_run_body.induct)
  case (1 env idx base s)
  obtain r t where t: "run_body env idx 0 (entered base s) = (r, t)" by force
  obtain routine where "Program_routine (env_program env) idx = Some routine" "\<not> ex_depth s \<ge> el_max_call_depth (env_limits env)"
    using 1(2) by (auto simp: call_fault_def split: option.splits if_splits)
  from 1(1) [OF this refl, where fs = fs and sv = "ex_base s"] t
  have "halts env (Running ((idx, 0, ex_base s) # fs) (entered base s)) (cost s t) fs r (leave (ex_base s) t)"
    by (simp add: entered_def cost_def)
  with t 1(2) show ?case by (simp add: run_call cost_def leave_def)
next
  case (2 env idx pc s)
  show ?case
  proof (cases "turn env idx pc s")
    case (Ends r t)
    then show ?thesis
      by (cases r) (auto simp: run_body.simps [of env idx pc s] cost_def intro!: halts_once vm_step.fault,
        auto simp: halts_def intro!: reaches_step [OF vm_step.return reaches_refl [of _ _ 0]])
  next
    case (Goes_on n t)
    let ?u = "snd (run_body env idx n t)"
    have "Suc (ex_instructions s) = ex_instructions t" "ex_instructions t \<le> ex_instructions ?u"
      using turn_keeps(2) [OF Goes_on] op_rel_spent [of env s t] run_stays(2) [of env idx n t] by (simp_all add: run_rel_def)
    then have "Suc (cost t ?u) \<le> cost s ?u" by (simp add: cost_def)
    with Goes_on halts_step [OF vm_step.go [OF Goes_on] 2(1) [OF Goes_on, where fs = fs and sv = sv]] show ?thesis
      by (simp add: run_body.simps [of env idx pc s])
  next
    case (Calls c b n t)
    show ?thesis by (rule call_halts [OF Calls]) (use 2(2,3) [OF Calls] in auto)
  qed
qed

section \<open>Executions\<close>

definition initial :: "Memory \<Rightarrow> Exec" where
  "initial m = \<lparr>ex_memory = m, ex_stack = [], ex_instructions = 0, ex_peak_stack = 0, ex_depth = 0, ex_base = 0\<rparr>"

definition forget :: "Fault + Executed \<Rightarrow> Fault + unit" where
  "forget r = map_sum id (\<lambda>_. ()) r"

definition measured :: "Exec \<Rightarrow> Executed" where
  "measured s = \<lparr>ed_instructions = ex_instructions s, ed_peak_stack = ex_peak_stack s\<rparr>"

lemma execute_run:
  "execute env idx base m = (case run env idx base (initial m) of
     (Inl f, s) \<Rightarrow> (Inl f, ex_memory s) | (Inr _, s) \<Rightarrow> (Inr (measured s), ex_memory s))"
  by (simp add: execute_def initial_def measured_def split: prod.splits sum.splits)

lemma run_budget: "ex_instructions (snd (run env idx base (initial m))) \<le> el_max_instructions (env_limits env) + 1"
  using run_stays(1) [of env idx base "initial m"]
  by (auto simp: run_rel_def initial_def split: sum.splits)

lemma execute_halts:
  assumes "call_fault env idx (initial m) = None"
  shows "\<exists>n s. n \<le> 2 * el_max_instructions (env_limits env) + 3 \<and>
    (vm_step env ^^ n) (Running [(idx, 0, 0)] (entered base (initial m))) (Halted (forget (fst (execute env idx base m))) s) \<and>
    snd (execute env idx base m) = ex_memory s \<and> (case fst (execute env idx base m) of Inr e \<Rightarrow> e = measured s | Inl _ \<Rightarrow> True)"
proof -
  obtain r t where t: "run env idx base (initial m) = (r, t)" by force
  from body_halts(1) [OF assms, where fs = "[]" and base = base] t
  have "halts env (Running [(idx, 0, 0)] (entered base (initial m))) (cost (initial m) t) [] r t" by (simp add: initial_def)
  then obtain s where s: "reaches env (Running [(idx, 0, 0)] (entered base (initial m))) (cost (initial m) t) (Halted r s)"
    "residue s = residue t" by (cases r) (auto simp: halts_def returned_def)
  moreover have "cost (initial m) t \<le> 2 * el_max_instructions (env_limits env) + 3"
    using run_budget [of env idx base m] t by (simp add: cost_def initial_def)
  moreover have "forget (fst (execute env idx base m)) = r" "snd (execute env idx base m) = ex_memory s"
    "(case fst (execute env idx base m) of Inr e \<Rightarrow> e = measured s | Inl _ \<Rightarrow> True)"
    using t s(2) by (cases r; simp add: execute_run forget_def measured_def residue_def)+
  ultimately show ?thesis unfolding reaches_def by (auto intro: order_trans)
qed

lemma execute_refused: "call_fault env idx (initial m) = Some f \<Longrightarrow> execute env idx base m = (Inl f, m)"
  by (simp add: execute_run run_call) (simp add: initial_def)

text \<open>
  Claim C4.  The interpreter is the machine, and it always ends.  From every program and memory, the
  machine that starts in the called routine halts within \<open>2 * budget + 3\<close> steps with the result, the
  memory and the counts \<open>execute\<close> returns, whether the routine returned or faulted; and a call that is
  refused at once leaves the memory as it was.
\<close>
theorem interpreter_refines_machine:
  "case call_fault env idx (initial m) of
     Some f \<Rightarrow> execute env idx base m = (Inl f, m)
   | None \<Rightarrow> (\<exists>n s. n \<le> 2 * el_max_instructions (env_limits env) + 3 \<and>
       (vm_step env ^^ n) (Running [(idx, 0, 0)] (entered base (initial m))) (Halted (forget (fst (execute env idx base m))) s) \<and>
       snd (execute env idx base m) = ex_memory s \<and> (case fst (execute env idx base m) of Inr e \<Rightarrow> e = measured s | Inl _ \<Rightarrow> True))"
  using execute_halts execute_refused by (cases "call_fault env idx (initial m)") simp_all

lemma execute_writes: "program_write\<^sup>*\<^sup>* m (snd (execute env idx base m))"
  using run_stays(1) [of env idx base "initial m"]
  by (auto simp: execute_run run_rel_def initial_def split: prod.splits sum.splits)

section \<open>Limits at every step\<close>

text \<open>
  What a configuration may hold.  While it runs there is one frame for each routine entered and not
  left, and neither the frames nor the operands nor the instructions run are more than the limits; the
  instruction that goes over the budget is counted when the machine halts on that fault.
\<close>

fun within_limits :: "ExecLimits \<Rightarrow> Config \<Rightarrow> bool" where
  "within_limits l (Running fs s) \<longleftrightarrow>
     length fs = ex_depth s \<and> length fs \<le> el_max_call_depth l \<and>
     length (ex_stack s) \<le> ex_peak_stack s \<and> ex_peak_stack s \<le> el_max_stack l \<and> ex_instructions s \<le> el_max_instructions l"
| "within_limits l (Halted r s) \<longleftrightarrow>
     length (ex_stack s) \<le> ex_peak_stack s \<and> ex_peak_stack s \<le> el_max_stack l \<and>
     ex_instructions s \<le> el_max_instructions l + (case r of Inl _ \<Rightarrow> 1 | Inr _ \<Rightarrow> 0)"

fun config_memory :: "Config \<Rightarrow> Memory" where
  "config_memory (Running fs s) = ex_memory s"
| "config_memory (Halted r s) = ex_memory s"

lemma call_fault_None: "call_fault env c t = None \<Longrightarrow> ex_depth t < el_max_call_depth (env_limits env)"
  by (auto simp: call_fault_def split: option.splits if_splits)

lemma turn_run_rel:
  "turn env idx pc s = Goes_on n t \<Longrightarrow> run_rel env (Inr ()) s t"
  "turn env idx pc s = Calls c b n t \<Longrightarrow> run_rel env (Inr ()) s t"
  using turn_keeps(2,3) tick_run_rel by blast+

lemma vm_step_within:
  assumes "vm_step env c d" "within_limits (env_limits env) c"
  shows "within_limits (env_limits env) d \<and> program_write\<^sup>*\<^sup>* (config_memory c) (config_memory d)"
  using assms
proof (induction rule: vm_step.induct)
  case (go idx pc s n t sv fs)
  with turn_run_rel(1) [OF go(1)] show ?case by (auto simp: run_rel_def stack_ok_def)
next
  case (call idx pc s c b n t sv fs)
  with turn_run_rel(2) [OF call(1)] call_fault_None [OF call(2)] show ?case by (auto simp: run_rel_def stack_ok_def entered_def)
next
  case (refused idx pc s c b n t f sv fs)
  with turn_run_rel(2) [OF refused(1)] show ?case by (auto simp: run_rel_def stack_ok_def)
next
  case (return idx pc s t sv fs)
  with turn_ends_rel [OF return(1)] show ?case
    by (cases fs) (auto simp: run_rel_def stack_ok_def returned_def leave_def)
next
  case (fault idx pc s f t sv fs)
  with turn_ends_rel [OF fault(1)] show ?case by (auto simp: run_rel_def stack_ok_def)
qed

lemma vm_steps_within:
  "(vm_step env)\<^sup>*\<^sup>* c d \<Longrightarrow> within_limits (env_limits env) c \<Longrightarrow>
   within_limits (env_limits env) d \<and> program_write\<^sup>*\<^sup>* (config_memory c) (config_memory d)"
  by (induction rule: rtranclp_induct) (use vm_step_within in \<open>auto intro: rtranclp_trans\<close>)

lemma start_within:
  "call_fault env idx (initial m) = None \<Longrightarrow> within_limits (env_limits env) (Running [(idx, 0, 0)] (entered base (initial m)))"
  using call_fault_None [of env idx "initial m"] by (simp add: entered_def initial_def)

text \<open>
  Claim C7.  No program can leave its confines.  Whatever the bytecode is and whether it returns or faults,
  an execution keeps the memory's invariant and leaves untouched the physical inputs and outputs, the
  latched input image, the declared initial values, the persistence classes, the forced values and the
  number of slots, and so does every step on the way.  At every step of the machine whose end is the
  result of \<open>execute\<close>, the routines entered and not left, the operands stacked and the instructions run
  are within the three limits, the instruction that faults by exceeding its budget being the only one
  over; a call at the depth limit faults with that limit and changes nothing, and a routine that
  returns reports counts within the limits.
\<close>
theorem execution_is_confined:
  assumes "mem_inv m" "execute env idx base m = (r, m')"
  shows "mem_inv m' \<and> untouchable m' = untouchable m \<and>
    (\<forall>e. r = Inr e \<longrightarrow> ed_instructions e \<le> el_max_instructions (env_limits env) \<and> ed_peak_stack e \<le> el_max_stack (env_limits env)) \<and>
    (case call_fault env idx (initial m) of
       Some f \<Rightarrow> r = Inl f \<and> m' = m
     | None \<Rightarrow>
         (\<exists>s. (vm_step env)\<^sup>*\<^sup>* (Running [(idx, 0, 0)] (entered base (initial m))) (Halted (forget r) s) \<and> ex_memory s = m') \<and>
         (\<forall>c. (vm_step env)\<^sup>*\<^sup>* (Running [(idx, 0, 0)] (entered base (initial m))) c \<longrightarrow>
            within_limits (env_limits env) c \<and> mem_inv (config_memory c) \<and> untouchable (config_memory c) = untouchable m)) \<and>
    (\<forall>callee b s routine. Program_routine (env_program env) callee = Some routine \<and> el_max_call_depth (env_limits env) \<le> ex_depth s \<longrightarrow>
       run env callee b s = (Inl (fault_at (CallDepthExceeded (el_max_call_depth (env_limits env))) (ro_name routine) 0), s))"
proof (intro conjI)
  have "program_write\<^sup>*\<^sup>* m m'" using execute_writes [of m env idx base] assms(2) by simp
  from program_writes_untouchable [OF this assms(1)] show "mem_inv m'" "untouchable m' = untouchable m" by simp_all
  show "\<forall>e. r = Inr e \<longrightarrow> ed_instructions e \<le> el_max_instructions (env_limits env) \<and> ed_peak_stack e \<le> el_max_stack (env_limits env)"
    using run_stays(1) [of env idx base "initial m"] assms(2)
    by (auto simp: execute_run run_rel_def initial_def stack_ok_def measured_def split: prod.splits sum.splits)
  show "\<forall>callee b s routine. Program_routine (env_program env) callee = Some routine \<and> el_max_call_depth (env_limits env) \<le> ex_depth s \<longrightarrow>
       run env callee b s = (Inl (fault_at (CallDepthExceeded (el_max_call_depth (env_limits env))) (ro_name routine) 0), s)"
    by (simp add: run.simps)
  let ?start = "Running [(idx, 0, 0)] (entered base (initial m))"
  show "case call_fault env idx (initial m) of
       Some f \<Rightarrow> r = Inl f \<and> m' = m
     | None \<Rightarrow> (\<exists>s. (vm_step env)\<^sup>*\<^sup>* ?start (Halted (forget r) s) \<and> ex_memory s = m') \<and>
         (\<forall>c. (vm_step env)\<^sup>*\<^sup>* ?start c \<longrightarrow>
            within_limits (env_limits env) c \<and> mem_inv (config_memory c) \<and> untouchable (config_memory c) = untouchable m)"
  proof (cases "call_fault env idx (initial m)")
    case None
    have "within_limits (env_limits env) c \<and> mem_inv (config_memory c) \<and> untouchable (config_memory c) = untouchable m"
      if "(vm_step env)\<^sup>*\<^sup>* ?start c" for c
    proof -
      have w: "within_limits (env_limits env) c" "program_write\<^sup>*\<^sup>* m (config_memory c)"
        using vm_steps_within [OF that start_within [OF None]] by (simp_all add: entered_def initial_def)
      from w(1) program_writes_untouchable [OF w(2) assms(1)] show ?thesis by blast
    qed
    moreover have "\<exists>s. (vm_step env)\<^sup>*\<^sup>* ?start (Halted (forget r) s) \<and> ex_memory s = m'"
      using execute_halts [OF None, of base] assms(2) by (auto dest: relpowp_imp_rtranclp)
    ultimately show ?thesis using None by simp
  qed (use execute_refused [of env idx m] assms(2) in simp)
qed

text \<open>A routine that jumps to itself, with a budget of three instructions.\<close>

definition endless :: Env where
  "endless = \<lparr>env_program = Program_new\<lparr>pr_routines := [\<lparr>ro_name = ''P'', ro_code = [Jump 0], ro_result_slot = None,
       ro_frame_size = 0, ro_max_stack = 0\<rparr>]\<rparr>,
     env_clock = Clock_virtual_default, env_limits = \<lparr>el_max_instructions = 3, el_max_stack = 4, el_max_call_depth = 2\<rparr>\<rparr>"

definition nothing :: Memory where
  "nothing = Memory_new [] 0 \<lparr>il_granularity = ElementIndex, il_byte_order = LittleEndian\<rparr>"

lemma endless_run: "execute endless 0 0 nothing = (Inl (fault_at (InstructionBudgetExceeded 3) ''P'' 0), nothing)"
  by (simp add: execute_def run.simps run_body.simps endless_def turn_def Program_routine_def Program_new_def get_def
      tick_def exec_op_def es_return_def)

theorem interpreter_refines_machine_witness:
  "\<exists>n s. n \<le> 9 \<and> (vm_step endless ^^ n) (Running [(0, 0, 0)] (entered 0 (initial nothing)))
     (Halted (Inl (fault_at (InstructionBudgetExceeded 3) ''P'' 0)) s) \<and> ex_memory s = nothing"
proof -
  have "call_fault endless 0 (initial nothing) = None"
    by (simp add: call_fault_def endless_def Program_routine_def Program_new_def get_def initial_def)
  moreover have "2 * el_max_instructions (env_limits endless) + 3 = 9" by (simp add: endless_def)
  ultimately show ?thesis using interpreter_refines_machine [where env = endless and idx = 0 and base = 0 and m = nothing]
    by (simp add: endless_run forget_def eq_commute [of nothing])
qed

text \<open>A routine that sets its only variable.\<close>

definition setting :: Env where
  "setting = endless\<lparr>env_program := Program_new\<lparr>pr_routines := [\<lparr>ro_name = ''P'', ro_code = [Const 0, StoreSlot 0, Return],
       ro_result_slot = None, ro_frame_size = 1, ro_max_stack = 1\<rparr>], pr_constants := [V_Bool True]\<rparr>\<rparr>"

definition one_flag :: Memory where
  "one_flag = Memory_new [E_Bool] 0 \<lparr>il_granularity = ElementIndex, il_byte_order = LittleEndian\<rparr>"

lemma setting_run: "execute setting 0 0 one_flag = (Inr \<lparr>ed_instructions = 3, ed_peak_stack = 1\<rparr>, one_flag\<lparr>mem_slots := [V_Bool True]\<rparr>)"
  by (simp add: execute_def run.simps run_body.simps setting_def endless_def turn_def Program_routine_def Program_new_def get_def
      tick_def exec_op_def exec_plain_def es_defs push_def pop_def store_slot_def on_memory_def write_slot_def one_flag_def
      Memory_new_def Let_def wrapping_u32_def nth_Cons')

text \<open>A routine that calls itself, with a call depth of two: the third call is refused.\<close>

definition diving :: Env where
  "diving = endless\<lparr>env_program := Program_new\<lparr>pr_routines := [\<lparr>ro_name = ''P'', ro_code = [Call 0 0], ro_result_slot = None,
       ro_frame_size = 0, ro_max_stack = 0\<rparr>]\<rparr>\<rparr>"

lemma diving_run: "execute diving 0 0 nothing = (Inl (fault_at (CallDepthExceeded 2) ''P'' 0), nothing)"
  by (simp add: execute_def run.simps run_body.simps diving_def endless_def turn_def Program_routine_def Program_new_def get_def
      tick_def exec_op_def es_return_def)

theorem execution_is_confined_witness:
  "mem_inv (one_flag\<lparr>mem_slots := [V_Bool True]\<rparr>) \<and> untouchable (one_flag\<lparr>mem_slots := [V_Bool True]\<rparr>) = untouchable one_flag \<and>
   (\<exists>s. (vm_step diving)\<^sup>*\<^sup>* (Running [(0, 0, 0)] (entered 0 (initial nothing))) (Halted (Inl (fault_at (CallDepthExceeded 2) ''P'' 0)) s) \<and>
      ex_instructions s \<le> 4) \<and>
   \<not> (\<exists>fs s. (vm_step diving)\<^sup>*\<^sup>* (Running [(0, 0, 0)] (entered 0 (initial nothing))) (Running fs s) \<and> 2 < length fs)"
proof -
  have none: "call_fault diving 0 (initial nothing) = None"
    by (simp add: call_fault_def diving_def endless_def Program_routine_def Program_new_def get_def initial_def)
  have limits: "el_max_call_depth (env_limits diving) = 2" "el_max_instructions (env_limits diving) = 3"
    by (simp_all add: diving_def endless_def)
  have "mem_inv nothing" "mem_inv one_flag" by (simp_all add: nothing_def one_flag_def mem_inv_new)
  note d = execution_is_confined [OF this(1) diving_run, unfolded none option.case forget_def map_sum.simps id_apply]
    and c = execution_is_confined [OF this(2) setting_run]
  from d have inside: "within_limits (env_limits diving) c"
    if "(vm_step diving)\<^sup>*\<^sup>* (Running [(0, 0, 0)] (entered 0 (initial nothing))) c" for c using that by blast
  from d obtain s where s:
    "(vm_step diving)\<^sup>*\<^sup>* (Running [(0, 0, 0)] (entered 0 (initial nothing))) (Halted (Inl (fault_at (CallDepthExceeded 2) ''P'' 0)) s)" by blast
  then have "ex_instructions s \<le> 4" using inside [OF s] by (simp add: limits)
  moreover have "length fs \<le> 2" if "(vm_step diving)\<^sup>*\<^sup>* (Running [(0, 0, 0)] (entered 0 (initial nothing))) (Running fs t)" for fs t
    using inside [OF that] by (simp add: limits)
  ultimately show ?thesis using s c by (meson linorder_not_less)
qed

section \<open>Arrays\<close>

definition in_array :: "nat \<Rightarrow> nat \<Rightarrow> int \<Rightarrow> bool" where
  "in_array base len low \<longleftrightarrow> 0 < len \<and> base + len \<le> 2 ^ 32 \<and> i64_MIN \<le> low \<and> low + int len \<le> i64_MAX"

lemma indexed_slot_eq:
  assumes "in_array base len low" "ex_stack s = v # rest" "as_i64 v = Some i"
  shows "indexed_slot base len low s =
    (if low \<le> i \<and> i < low + int len then Inr (base + nat (i - low)) else Inl (ArrayIndexOutOfRange i low (low + int len - 1)),
     s\<lparr>ex_stack := rest\<rparr>)"
proof -
  have high: "saturate_i64 (saturate_i64 (low + int len) - 1) = low + int len - 1"
    using assms(1) by (simp add: in_array_def i64_bounds)
  have "low \<le> i \<and> i < low + int len \<Longrightarrow> saturate_i64 (i - low) = i - low"
    using assms(1) by (simp add: in_array_def i64_bounds)
  then show ?thesis using assms
    by (auto simp: indexed_slot_def es_defs pop_def high Let_def in_array_def slot_add_def min_def)
qed

text \<open>
  An array access touches the element it names or nothing.  With the array inside the address
  range, a load pushes the element at the subscript, a store writes that one slot, and a subscript
  outside the declared bounds is a fault that names the bounds and leaves the memory alone.
\<close>
theorem array_access_in_bounds:
  assumes "in_array base len low" "as_i64 iv = Some i"
  shows "(ex_stack s = v # iv # rest \<longrightarrow> exec_plain env (StoreIndexed base len low) s =
      (if low \<le> i \<and> i < low + int len
       then on_memory (\<lambda>m. case write_slot m (base + nat (i - low)) v of (ok, m) \<Rightarrow> (if ok then Inr () else Inl (SlotOutOfRange (base + nat (i - low))), m))
              (s\<lparr>ex_stack := rest\<rparr>)
       else (Inl (ArrayIndexOutOfRange i low (low + int len - 1)), s\<lparr>ex_stack := rest\<rparr>))) \<and>
    (ex_stack s = iv # rest \<longrightarrow> exec_plain env (LoadIndexed base len low) s =
      (if low \<le> i \<and> i < low + int len then load_slot env (base + nat (i - low)) (s\<lparr>ex_stack := rest\<rparr>)
       else (Inl (ArrayIndexOutOfRange i low (low + int len - 1)), s\<lparr>ex_stack := rest\<rparr>)))"
  using indexed_slot_eq [OF assms(1) _ assms(2)]
  by (simp add: exec_plain_def es_bind_def pop_def store_slot_def)

theorem array_access_in_bounds_witness:
  "exec_plain endless (StoreIndexed 4 3 1) ((initial nothing)\<lparr>ex_stack := [V_Bool True, V_Int 4]\<rparr>) =
     (Inl (ArrayIndexOutOfRange 4 1 3), initial nothing)"
  using array_access_in_bounds [of 4 3 1 "V_Int 4" 4 "(initial nothing)\<lparr>ex_stack := [V_Bool True, V_Int 4]\<rparr>" "V_Bool True" "[]" endless]
  by (simp add: in_array_def i64_bounds initial_def)

end
