(* ===== verification/Vm_Task.thy ===== *)
theory Vm_Task
  imports Vm_Safety
begin

text \<open>
  Traces and the scan scheduler, from \<open>crates/salman-vm/src/trace.rs\<close> and \<open>crates/salman-vm/src/task.rs\<close>:
  what releases a task, one scan of one task, the choice of the next task, and the loops that run a
  configuration.  A loop that need not end is a partial function into \<open>option\<close>.
\<close>

section \<open>Traces\<close>

datatype SignalSource = Slot_source nat | Address_source DirectAddress

record Signal =
  sg_source :: SignalSource
  sg_name :: string

record Sample =
  sa_scan :: nat
  sa_time :: Duration
  sa_task :: nat
  sa_values :: "Value list"

record TraceHeader =
  th_salman_version :: string
  th_seed :: u64
  th_deterministic :: bool

record Trace =
  tr_header :: TraceHeader
  tr_signals :: "Signal list"
  tr_samples :: "Sample list"

text \<open>The version the build compiled in is an argument.\<close>

definition Trace_new :: "string \<Rightarrow> Signal list \<Rightarrow> u64 \<Rightarrow> bool \<Rightarrow> Trace" where
  "Trace_new version signals seed deterministic =
     \<lparr>tr_header = \<lparr>th_salman_version = version, th_seed = seed, th_deterministic = deterministic\<rparr>,
      tr_signals = signals, tr_samples = []\<rparr>"

definition Trace_push :: "Sample \<Rightarrow> Trace \<Rightarrow> Trace" where
  "Trace_push sample t = t\<lparr>tr_samples := tr_samples t @ [sample]\<rparr>"

section \<open>Tasks\<close>

datatype TaskTrigger = Cyclic Duration | Event nat | Freewheeling

definition FREEWHEEL_DEFAULT_SCAN :: Duration where "FREEWHEEL_DEFAULT_SCAN = 1000000"

record ProgramBinding =
  pb_routine :: nat
  pb_base :: nat

record TaskConfig =
  tc_name :: string
  tc_trigger :: TaskTrigger
  tc_priority :: nat
  tc_programs :: "ProgramBinding list"
  tc_execution_time :: Duration

definition TaskConfig_cyclic :: "string \<Rightarrow> Duration \<Rightarrow> nat \<Rightarrow> TaskConfig" where
  "TaskConfig_cyclic name interval priority =
     \<lparr>tc_name = name, tc_trigger = Cyclic interval, tc_priority = priority, tc_programs = [], tc_execution_time = 0\<rparr>"

definition period :: "TaskConfig \<Rightarrow> Duration option" where
  "period task =
     (case tc_trigger task of
        Cyclic interval \<Rightarrow> Some interval
      | Freewheeling \<Rightarrow> Some (if tc_execution_time task > 0 then tc_execution_time task else FREEWHEEL_DEFAULT_SCAN)
      | Event _ \<Rightarrow> None)"

record TaskStats =
  st_scans :: nat
  st_overruns :: nat
  st_min_instructions :: nat
  st_max_instructions :: nat
  st_total_instructions :: nat

definition TaskStats_default :: TaskStats where
  "TaskStats_default = \<lparr>st_scans = 0, st_overruns = 0, st_min_instructions = 0, st_max_instructions = 0, st_total_instructions = 0\<rparr>"

definition mean_instructions :: "TaskStats \<Rightarrow> nat" where
  "mean_instructions st = (if st_scans st = 0 then 0 else st_total_instructions st div st_scans st)"

record TaskFault =
  tf_task :: nat
  tf_scan :: nat
  tf_time :: Duration
  tf_fault :: Fault

record TaskState =
  ts_next_release_ns :: int
  ts_previous_trigger :: bool
  ts_stopped :: bool

datatype StepOutcome = Ran nat | Idle

record Runtime =
  rt_program :: Program
  rt_memory :: Memory
  rt_clock :: Clock
  rt_tasks :: "TaskConfig list"
  rt_state :: "TaskState list"
  rt_stats :: "TaskStats list"
  rt_limits :: ExecLimits
  rt_scan :: nat
  rt_faults :: "TaskFault list"
  rt_trace :: "Trace option"
  rt_seed :: u64

definition Runtime_new :: "Program \<Rightarrow> Memory \<Rightarrow> Clock \<Rightarrow> TaskConfig list \<Rightarrow> Runtime" where
  "Runtime_new program memory clock tasks =
     \<lparr>rt_program = program, rt_memory = memory, rt_clock = clock, rt_tasks = tasks,
      rt_state = replicate (length tasks) \<lparr>ts_next_release_ns = 0, ts_previous_trigger = False, ts_stopped = False\<rparr>,
      rt_stats = replicate (length tasks) TaskStats_default,
      rt_limits = ExecLimits_default, rt_scan = 0, rt_faults = [], rt_trace = None, rt_seed = 0\<rparr>"

definition with_limits :: "ExecLimits \<Rightarrow> Runtime \<Rightarrow> Runtime" where
  "with_limits limits rt = rt\<lparr>rt_limits := limits\<rparr>"

definition with_seed :: "u64 \<Rightarrow> Runtime \<Rightarrow> Runtime" where
  "with_seed seed rt = rt\<lparr>rt_seed := seed\<rparr>"

definition Runtime_record :: "string \<Rightarrow> Signal list \<Rightarrow> Runtime \<Rightarrow> Runtime" where
  "Runtime_record version signals rt =
     rt\<lparr>rt_trace := Some (Trace_new version signals (rt_seed rt) (is_deterministic (rt_clock rt)))\<rparr>"

definition has_faulted :: "Runtime \<Rightarrow> bool" where
  "has_faulted rt \<longleftrightarrow> rt_faults rt \<noteq> []"

section \<open>One scan\<close>

definition sample_value :: "Memory \<Rightarrow> Signal \<Rightarrow> Value" where
  "sample_value m signal =
     (case sg_source signal of
        Slot_source slot \<Rightarrow> unwrap_or (read_slot m slot) (V_Bool False)
      | Address_source address \<Rightarrow>
          (case read_address m address of Inr (Some v) \<Rightarrow> v | _ \<Rightarrow> V_Bool False))"

definition sample :: "nat \<Rightarrow> Duration \<Rightarrow> Runtime \<Rightarrow> Runtime" where
  "sample task time rt =
     (case rt_trace rt of
        None \<Rightarrow> rt
      | Some trace \<Rightarrow>
          rt\<lparr>rt_trace := Some (Trace_push
            \<lparr>sa_scan = rt_scan rt, sa_time = time, sa_task = task, sa_values = map (sample_value (rt_memory rt)) (tr_signals trace)\<rparr> trace)\<rparr>)"

text \<open>The programs of a task, in order, until one faults.\<close>

fun run_programs :: "Env \<Rightarrow> ProgramBinding list \<Rightarrow> nat \<Rightarrow> Memory \<Rightarrow> nat \<times> Fault option \<times> Memory" where
  "run_programs env [] instructions m = (instructions, None, m)"
| "run_programs env (b # bs) instructions m =
     (case execute env (pb_routine b) (pb_base b) m of
        (Inr completed, m) \<Rightarrow> run_programs env bs (instructions + ed_instructions completed) m
      | (Inl e, m) \<Rightarrow> (instructions, Some e, m))"

definition runtime_env :: "Runtime \<Rightarrow> Env" where
  "runtime_env rt = \<lparr>env_program = rt_program rt, env_clock = rt_clock rt, env_limits = rt_limits rt\<rparr>"

definition count_scan :: "nat \<Rightarrow> TaskStats \<Rightarrow> TaskStats" where
  "count_scan instructions st =
     st\<lparr>st_scans := st_scans st + 1,
        st_total_instructions := saturating_u64 (st_total_instructions st + instructions),
        st_min_instructions := (if st_scans st + 1 = 1 \<or> instructions < st_min_instructions st then instructions else st_min_instructions st),
        st_max_instructions := (if instructions > st_max_instructions st then instructions else st_max_instructions st)\<rparr>"

text \<open>Changing an element that may not be there, as \<open>if let Some(x) = v.get_mut(i)\<close> does.\<close>

definition update_at :: "nat \<Rightarrow> ('a \<Rightarrow> 'a) \<Rightarrow> 'a list \<Rightarrow> 'a list" where
  "update_at i f xs = (if i < length xs then xs[i := f (xs ! i)] else xs)"

text \<open>The next release of a periodic task, and whether the scan overran it.\<close>

definition reschedule :: "nat \<Rightarrow> TaskConfig \<Rightarrow> Duration \<Rightarrow> Runtime \<Rightarrow> Runtime" where
  "reschedule idx task now rt =
     (case (period task, get (rt_state rt) idx) of
        (Some p, Some state) \<Rightarrow>
          let next_ns = saturate_i64 (ts_next_release_ns state + max p 1) in
          rt\<lparr>rt_stats := (if next_ns \<le> now then update_at idx (\<lambda>st. st\<lparr>st_overruns := st_overruns st + 1\<rparr>) (rt_stats rt) else rt_stats rt),
             rt_state := (rt_state rt)[idx := state\<lparr>ts_next_release_ns := max next_ns now\<rparr>]\<rparr>
      | _ \<Rightarrow> rt)"

definition record_fault :: "nat \<Rightarrow> Duration \<Rightarrow> Fault option \<Rightarrow> Runtime \<Rightarrow> Runtime" where
  "record_fault idx now fault rt =
     (case fault of
        None \<Rightarrow> rt
      | Some f \<Rightarrow>
          rt\<lparr>rt_state := update_at idx (\<lambda>state. state\<lparr>ts_stopped := True\<rparr>) (rt_state rt),
             rt_faults := rt_faults rt @ [\<lparr>tf_task = idx, tf_scan = rt_scan rt, tf_time = now, tf_fault = f\<rparr>]\<rparr>)"

definition run_task :: "nat \<Rightarrow> Runtime \<Rightarrow> Runtime" where
  "run_task idx rt =
     (case get (rt_tasks rt) idx of
        None \<Rightarrow> rt
      | Some task \<Rightarrow>
          let (instructions, fault, m) = run_programs (runtime_env rt) (tc_programs task) 0 (latch_inputs (rt_memory rt));
              rt = rt\<lparr>rt_memory := publish_outputs m,
                      rt_clock := (if tc_execution_time task > 0 then Clock_advance (tc_execution_time task) (rt_clock rt) else rt_clock rt),
                      rt_scan := rt_scan rt + 1,
                      rt_stats := update_at idx (count_scan instructions) (rt_stats rt)\<rparr>;
              now = ck_elapsed_ns (rt_clock rt)
          in sample idx now (record_fault idx now fault (reschedule idx task now rt)))"

section \<open>The scheduler\<close>

text \<open>\<open>u16::try_from(index).unwrap_or(u16::MAX)\<close>.\<close>

definition task_id :: "nat \<Rightarrow> nat" where
  "task_id i = (if i < 2 ^ 16 then i else 2 ^ 16 - 1)"

definition trigger_level :: "Memory \<Rightarrow> nat \<Rightarrow> bool" where
  "trigger_level m slot = unwrap_or (Option.bind (read_slot m slot) as_bool) False"

fun pending_loop :: "Memory \<Rightarrow> nat \<Rightarrow> TaskConfig list \<Rightarrow> TaskState list \<Rightarrow> (nat \<times> nat) option \<Rightarrow> (nat \<times> nat) option \<times> TaskState list" where
  "pending_loop m i [] states best = (best, states)"
| "pending_loop m i (task # tasks) states best =
     (case (tc_trigger task, get states i) of
        (Event slot, Some state) \<Rightarrow>
          if ts_stopped state then pending_loop m (Suc i) tasks states best
          else
            let level = trigger_level m slot;
                rose = (level \<and> \<not> ts_previous_trigger state);
                states = states[i := state\<lparr>ts_previous_trigger := level\<rparr>];
                better = (case best of None \<Rightarrow> True | Some (p, _) \<Rightarrow> tc_priority task < p)
            in pending_loop m (Suc i) tasks states (if rose \<and> better then Some (tc_priority task, task_id i) else best)
      | _ \<Rightarrow> pending_loop m (Suc i) tasks states best)"

definition pending_event :: "Runtime \<Rightarrow> nat option \<times> Runtime" where
  "pending_event rt =
     (case pending_loop (rt_memory rt) 0 (rt_tasks rt) (rt_state rt) None of
        (best, states) \<Rightarrow> (map_option snd best, rt\<lparr>rt_state := states\<rparr>))"

definition key_less :: "int \<times> nat \<times> nat \<Rightarrow> int \<times> nat \<times> nat \<Rightarrow> bool" where
  "key_less a b \<longleftrightarrow>
     (case (a, b) of ((r, p, i), (r', p', i')) \<Rightarrow> r < r' \<or> (r = r' \<and> (p < p' \<or> (p = p' \<and> i < i'))))"

fun release_loop :: "nat \<Rightarrow> TaskConfig list \<Rightarrow> TaskState list \<Rightarrow> (int \<times> nat \<times> nat) option \<Rightarrow> (int \<times> nat \<times> nat) option" where
  "release_loop i [] states best = best"
| "release_loop i (task # tasks) states best =
     (case (period task, get states i) of
        (Some _, Some state) \<Rightarrow>
          if ts_stopped state then release_loop (Suc i) tasks states best
          else
            let key = (ts_next_release_ns state, tc_priority task, task_id i)
            in release_loop (Suc i) tasks states
                 (case best of None \<Rightarrow> Some key | Some current \<Rightarrow> if key_less key current then Some key else best)
      | _ \<Rightarrow> release_loop (Suc i) tasks states best)"

definition next_periodic_release :: "Runtime \<Rightarrow> (nat \<times> int) option" where
  "next_periodic_release rt = map_option (\<lambda>(release_ns, _, idx). (idx, release_ns)) (release_loop 0 (rt_tasks rt) (rt_state rt) None)"

definition step :: "Runtime \<Rightarrow> StepOutcome \<times> Runtime" where
  "step rt =
     (case pending_event rt of
        (Some idx, rt) \<Rightarrow> (Ran idx, run_task idx rt)
      | (None, rt) \<Rightarrow>
          (case next_periodic_release rt of
             None \<Rightarrow> (Idle, rt)
           | Some (idx, release_ns) \<Rightarrow> (Ran idx, run_task idx (rt\<lparr>rt_clock := Clock_advance_to_ns release_ns (rt_clock rt)\<rparr>))))"

partial_function (option) run_until_loop :: "Duration \<Rightarrow> Runtime \<Rightarrow> Runtime option" where
  "run_until_loop deadline rt =
     (case next_periodic_release rt of
        None \<Rightarrow>
          (case pending_event rt of
             (None, rt) \<Rightarrow> Some rt
           | (Some _, rt) \<Rightarrow> run_until_loop deadline (snd (step rt)))
      | Some (_, release_ns) \<Rightarrow>
          (case (if release_ns > deadline then pending_event rt else (Some 0, rt)) of
             (None, rt) \<Rightarrow> Some rt
           | (Some _, rt) \<Rightarrow>
               (case step rt of
                  (Idle, rt) \<Rightarrow> Some rt
                | (Ran _, rt) \<Rightarrow> run_until_loop deadline rt)))"

definition run_until :: "Duration \<Rightarrow> Runtime \<Rightarrow> (nat \<times> Runtime) option" where
  "run_until deadline rt =
     map_option (\<lambda>rt'. let rt' = rt'\<lparr>rt_clock := Clock_advance_to_ns deadline (rt_clock rt')\<rparr> in (rt_scan rt' - rt_scan rt, rt'))
       (run_until_loop deadline rt)"

fun run_scans_loop :: "nat \<Rightarrow> Runtime \<Rightarrow> Runtime" where
  "run_scans_loop 0 rt = rt"
| "run_scans_loop (Suc n) rt = (case step rt of (Idle, rt) \<Rightarrow> rt | (Ran _, rt) \<Rightarrow> run_scans_loop n rt)"

definition run_scans :: "nat \<Rightarrow> Runtime \<Rightarrow> nat \<times> Runtime" where
  "run_scans scans rt = (let rt' = run_scans_loop scans rt in (rt_scan rt' - rt_scan rt, rt'))"

end
