(* ===== verification/Vm_Schedule.thy ===== *)
theory Vm_Schedule
  imports Vm_Task "HOL-Library.Product_Lexorder"
begin

text \<open>
  What the scheduler of \<open>Vm_Task\<close> guarantees: which task runs next, what a scan changes, the invariant of
  every reachable runtime, that a run to a deadline ends when all tasks are periodic, and what becomes of
  configurations that have event tasks only.
\<close>

section \<open>The choice of the next task\<close>

lemma key_less_less: "key_less a b \<longleftrightarrow> a < b"
  by (auto simp: key_less_def less_prod_def' split: prod.splits)

definition due :: "TaskConfig list \<Rightarrow> TaskState list \<Rightarrow> nat \<Rightarrow> bool" where
  "due tasks states i \<longleftrightarrow> i < length tasks \<and> i < length states \<and> period (tasks ! i) \<noteq> None \<and> \<not> ts_stopped (states ! i)"

definition task_key :: "TaskConfig list \<Rightarrow> TaskState list \<Rightarrow> nat \<Rightarrow> int \<times> nat \<times> nat" where
  "task_key tasks states i = (ts_next_release_ns (states ! i), tc_priority (tasks ! i), task_id i)"

lemma ex_zero_or_Suc: "(\<exists>j. P j) \<longleftrightarrow> P 0 \<or> (\<exists>j. P (Suc j))"
  by (metis not0_implies_Suc)

text \<open>The loop from task \<open>i\<close> on, over the tasks that are left.\<close>

definition keys_from :: "nat \<Rightarrow> TaskConfig list \<Rightarrow> TaskState list \<Rightarrow> (int \<times> nat \<times> nat) set" where
  "keys_from i tasks states = {(ts_next_release_ns (states ! (i + j)), tc_priority (tasks ! j), task_id (i + j)) | j.
     j < length tasks \<and> i + j < length states \<and> period (tasks ! j) \<noteq> None \<and> \<not> ts_stopped (states ! (i + j))}"

lemma keys_from_Nil [simp]: "keys_from i [] states = {}"
  by (simp add: keys_from_def)

lemma keys_from_Cons:
  "keys_from i (task # tasks) states =
     (if period task \<noteq> None \<and> i < length states \<and> \<not> ts_stopped (states ! i)
      then insert (ts_next_release_ns (states ! i), tc_priority task, task_id i) (keys_from (Suc i) tasks states)
      else keys_from (Suc i) tasks states)"
proof -
  have "k \<in> keys_from i (task # tasks) states \<longleftrightarrow>
      (period task \<noteq> None \<and> i < length states \<and> \<not> ts_stopped (states ! i) \<and> k = (ts_next_release_ns (states ! i), tc_priority task, task_id i)) \<or>
      k \<in> keys_from (Suc i) tasks states" for k
    unfolding keys_from_def mem_Collect_eq by (subst ex_zero_or_Suc) auto
  then show ?thesis by auto
qed

lemma finite_keys_from: "finite (keys_from i tasks states)"
  by (induction tasks arbitrary: i) (simp_all add: keys_from_Cons)

lemma Min_better:
  fixes k :: "'a::linorder"
  assumes "finite S"
  shows "Min (set_option (case best of None \<Rightarrow> Some k | Some c \<Rightarrow> if k < c then Some k else best) \<union> S) = Min (insert k (set_option best \<union> S))"
proof (cases best)
  case (Some c)
  show ?thesis
  proof (cases "S = {}")
    case False
    have "k < c \<Longrightarrow> min k (min c (Min S)) = min k (Min S)" "\<not> k < c \<Longrightarrow> min k (min c (Min S)) = min c (Min S)"
      by (metis min.absorb3 min.assoc, metis min.absorb2 min.assoc not_less)
    with assms Some False show ?thesis by simp
  qed (auto simp: Some min_def)
qed simp

lemma release_loop_Min:
  "release_loop i tasks states best =
     (let S = set_option best \<union> keys_from i tasks states in if S = {} then None else Some (Min S))"
proof (induction i tasks states best rule: release_loop.induct)
  case (1 i states best)
  then show ?case by (cases best) simp_all
next
  case (2 i task tasks states best)
  let ?key = "(ts_next_release_ns (states ! i), tc_priority task, task_id i)"
  show ?case
  proof (cases "period task \<noteq> None \<and> i < length states \<and> \<not> ts_stopped (states ! i)")
    case True
    let ?best = "case best of None \<Rightarrow> Some ?key | Some current \<Rightarrow> if key_less ?key current then Some ?key else best"
    have "release_loop i (task # tasks) states best = release_loop (Suc i) tasks states ?best"
      using True by (auto simp: get_def Let_def)
    also have "\<dots> = Some (Min (set_option ?best \<union> keys_from (Suc i) tasks states))"
      using 2 True by (auto simp: get_def Let_def split: option.splits if_splits)
    also have "Min (set_option ?best \<union> keys_from (Suc i) tasks states) = Min (insert ?key (set_option best \<union> keys_from (Suc i) tasks states))"
      unfolding key_less_less by (rule Min_better) (rule finite_keys_from)
    finally show ?thesis using True by (simp add: keys_from_Cons)
  next
    case False
    then have "release_loop i (task # tasks) states best = release_loop (Suc i) tasks states best"
      by (auto simp: get_def split: option.splits)
    moreover have "release_loop (Suc i) tasks states best =
        (let S = set_option best \<union> keys_from (Suc i) tasks states in if S = {} then None else Some (Min S))"
      using 2 False by (cases "period task"; cases "i < length states") (auto simp: get_def)
    ultimately show ?thesis using False by (simp only: keys_from_Cons if_False)
  qed
qed

text \<open>Two configurations of the same size as the code counts them: an index is its own identifier.\<close>

definition few_tasks :: "Runtime \<Rightarrow> bool" where
  "few_tasks rt \<longleftrightarrow> length (rt_tasks rt) < 2 ^ 16"

abbreviation due_now :: "Runtime \<Rightarrow> nat \<Rightarrow> bool" where
  "due_now rt \<equiv> due (rt_tasks rt) (rt_state rt)"

lemma keys_from_0: "keys_from 0 tasks states = task_key tasks states ` {i. due tasks states i}"
  by (auto simp: keys_from_def task_key_def due_def)

lemma next_release_None: "next_periodic_release rt = None \<longleftrightarrow> (\<forall>i. \<not> due_now rt i)"
  by (auto simp: next_periodic_release_def release_loop_Min keys_from_0 Let_def)

lemma next_release_Some:
  assumes "next_periodic_release rt = Some (idx, r)" "few_tasks rt"
  shows "due_now rt idx \<and> r = ts_next_release_ns (rt_state rt ! idx) \<and>
    (\<forall>j. due_now rt j \<longrightarrow> task_key (rt_tasks rt) (rt_state rt) idx \<le> task_key (rt_tasks rt) (rt_state rt) j)"
proof -
  let ?S = "task_key (rt_tasks rt) (rt_state rt) ` {i. due_now rt i}"
  have ne: "?S \<noteq> {}" and m: "map_option (\<lambda>(release_ns, _, idx). (idx, release_ns)) (Some (Min ?S)) = Some (idx, r)"
    using assms(1) by (auto simp: next_periodic_release_def release_loop_Min keys_from_0 Let_def split: if_splits)
  have fin: "finite ?S" using finite_keys_from [of 0] unfolding keys_from_0 .
  from Min_in [OF fin ne] obtain i where i: "due_now rt i" "Min ?S = task_key (rt_tasks rt) (rt_state rt) i" by auto
  then have "i < 2 ^ 16" using assms(2) by (simp add: due_def few_tasks_def)
  then have "idx = i" "r = ts_next_release_ns (rt_state rt ! i)" using m unfolding i(2) by (auto simp: task_key_def task_id_def)
  moreover have "due_now rt j \<Longrightarrow> task_key (rt_tasks rt) (rt_state rt) i \<le> task_key (rt_tasks rt) (rt_state rt) j" for j
    using Min_le [OF fin] i(2) by simp
  ultimately show ?thesis using i(1) by blast
qed

section \<open>Events\<close>

definition watched :: "TaskConfig \<Rightarrow> TaskState list \<Rightarrow> nat \<Rightarrow> nat option" where
  "watched task states i =
     (case tc_trigger task of Event slot \<Rightarrow> (if i < length states \<and> \<not> ts_stopped (states ! i) then Some slot else None) | _ \<Rightarrow> None)"

definition mark :: "nat \<Rightarrow> bool \<Rightarrow> TaskState list \<Rightarrow> TaskState list" where
  "mark i level states = states[i := (states ! i)\<lparr>ts_previous_trigger := level\<rparr>]"

lemma pending_watched:
  "watched task states i = Some slot \<Longrightarrow> pending_loop m i (task # tasks) states best =
     pending_loop m (Suc i) tasks (mark i (trigger_level m slot) states)
       (if trigger_level m slot \<and> \<not> ts_previous_trigger (states ! i) \<and> (case best of None \<Rightarrow> True | Some (p, _) \<Rightarrow> tc_priority task < p)
        then Some (tc_priority task, task_id i) else best)"
  by (auto simp: watched_def mark_def get_def Let_def split: TaskTrigger.splits if_splits)

lemma pending_unwatched:
  "watched task states i = None \<Longrightarrow> pending_loop m i (task # tasks) states best = pending_loop m (Suc i) tasks states best"
  by (auto simp: watched_def get_def split: TaskTrigger.splits if_splits)

declare pending_loop.simps(2) [simp del]

lemma pending_loop_below: "j < i \<Longrightarrow> snd (pending_loop m i tasks states best) ! j = states ! j"
proof (induction tasks arbitrary: i states best)
  case (Cons task tasks)
  then show ?case
    by (cases "watched task states i") (simp_all add: pending_watched pending_unwatched mark_def)
qed simp

text \<open>Looking for an edge only moves the remembered levels.\<close>

definition same_schedule :: "TaskState list \<Rightarrow> TaskState list \<Rightarrow> bool" where
  "same_schedule states states' \<longleftrightarrow> length states' = length states \<and>
     (\<forall>i < length states. ts_next_release_ns (states' ! i) = ts_next_release_ns (states ! i) \<and> ts_stopped (states' ! i) = ts_stopped (states ! i))"

lemma same_schedule_mark: "same_schedule states (mark i b states)"
  by (cases "i < length states") (auto simp: same_schedule_def mark_def nth_list_update)

lemma same_schedule_trans: "same_schedule s t \<Longrightarrow> same_schedule t u \<Longrightarrow> same_schedule s u"
  by (simp add: same_schedule_def)

lemma pending_loop_schedule: "same_schedule states (snd (pending_loop m i tasks states best))"
proof (induction tasks arbitrary: i states best)
  case (Cons task tasks)
  show ?case
  proof (cases "watched task states i")
    case (Some slot)
    then show ?thesis using same_schedule_trans [OF same_schedule_mark Cons] by (simp add: pending_watched)
  qed (simp add: pending_unwatched Cons)
qed (simp add: same_schedule_def)

text \<open>An edge is seen once: looking again at once finds nothing and changes nothing.\<close>

lemma pending_again:
  "pending_loop m i tasks (snd (pending_loop m i tasks states best)) None = (None, snd (pending_loop m i tasks states best))"
proof (induction tasks arbitrary: i states best)
  case (Cons task tasks)
  show ?case
  proof (cases "watched task states i")
    case None
    let ?st = "snd (pending_loop m (Suc i) tasks states best)"
    have "?st ! i = states ! i" "length ?st = length states"
      using pending_loop_below pending_loop_schedule unfolding same_schedule_def by (blast, metis)
    with None have "watched task ?st i = None" by (simp add: watched_def split: TaskTrigger.splits if_splits)
    with None Cons show ?thesis by (simp add: pending_unwatched)
  next
    case (Some slot)
    then have i: "i < length states" "tc_trigger task = Event slot" "\<not> ts_stopped (states ! i)"
      by (auto simp: watched_def split: TaskTrigger.splits if_splits)
    let ?st1 = "mark i (trigger_level m slot) states"
    obtain b where b: "pending_loop m i (task # tasks) states best = pending_loop m (Suc i) tasks ?st1 b"
      using Some by (simp add: pending_watched)
    let ?st = "snd (pending_loop m (Suc i) tasks ?st1 b)"
    have st: "?st ! i = ?st1 ! i" "length ?st = length ?st1"
      using pending_loop_below pending_loop_schedule unfolding same_schedule_def by (blast, metis)
    with i have w: "watched task ?st i = Some slot" "ts_previous_trigger (?st ! i) = trigger_level m slot" "mark i (trigger_level m slot) ?st = ?st"
      by (simp_all add: watched_def mark_def list_update_same_conv)
    then show ?thesis unfolding b using Cons by (simp add: pending_watched)
  qed
qed simp

lemma pending_event_cases:
  obtains e states where "pending_event rt = (e, rt\<lparr>rt_state := states\<rparr>)" "same_schedule (rt_state rt) states"
    "pending_event (rt\<lparr>rt_state := states\<rparr>) = (None, rt\<lparr>rt_state := states\<rparr>)"
proof -
  obtain b states where b: "pending_loop (rt_memory rt) 0 (rt_tasks rt) (rt_state rt) None = (b, states)" by force
  show ?thesis
  proof (rule that)
    show "pending_event rt = (map_option snd b, rt\<lparr>rt_state := states\<rparr>)" by (simp add: pending_event_def b)
    show "same_schedule (rt_state rt) states" using pending_loop_schedule b by (metis snd_conv)
    show "pending_event (rt\<lparr>rt_state := states\<rparr>) = (None, rt\<lparr>rt_state := states\<rparr>)"
      using pending_again [of "rt_memory rt" 0 "rt_tasks rt" "rt_state rt" None] by (simp add: pending_event_def b)
  qed
qed

lemma due_same: "same_schedule states states' \<Longrightarrow> due tasks states' i = due tasks states i"
  by (auto simp: due_def same_schedule_def)

definition event_only :: "Runtime \<Rightarrow> bool" where
  "event_only rt \<longleftrightarrow> (\<forall>task \<in> set (rt_tasks rt). \<exists>slot. tc_trigger task = Event slot)"

lemma event_only_not_due: "event_only rt \<Longrightarrow> \<not> due_now rt i"
  by (auto simp: event_only_def due_def period_def dest: nth_mem split: TaskTrigger.splits) (metis TaskTrigger.distinct nth_mem)+

lemma event_only_loop:
  assumes "event_only rt"
  shows "\<exists>states. run_until_loop deadline rt = Some (rt\<lparr>rt_state := states\<rparr>)"
proof -
  obtain e states where e: "pending_event rt = (e, rt\<lparr>rt_state := states\<rparr>)" and
    again: "pending_event (rt\<lparr>rt_state := states\<rparr>) = (None, rt\<lparr>rt_state := states\<rparr>)"
    by (rule pending_event_cases)
  let ?rt = "rt\<lparr>rt_state := states\<rparr>"
  have "event_only ?rt" using assms by (simp add: event_only_def)
  then have none: "next_periodic_release rt = None" "next_periodic_release ?rt = None"
    using assms event_only_not_due unfolding next_release_None by blast+
  have "step ?rt = (Idle, ?rt)" using again none by (simp add: step_def)
  moreover have "run_until_loop deadline ?rt = Some ?rt" using again none by (simp add: run_until_loop.simps)
  ultimately have "run_until_loop deadline rt = Some ?rt"
    using e none(1) by (cases e) (simp_all add: run_until_loop.simps [of deadline rt])
  then show ?thesis by blast
qed

section \<open>One scan\<close>

lemma sample_fields [simp]:
  "rt_tasks (sample i now rt) = rt_tasks rt" "rt_memory (sample i now rt) = rt_memory rt" "rt_clock (sample i now rt) = rt_clock rt"
  "rt_state (sample i now rt) = rt_state rt" "rt_stats (sample i now rt) = rt_stats rt" "rt_scan (sample i now rt) = rt_scan rt"
  "rt_faults (sample i now rt) = rt_faults rt"
  by (simp_all add: sample_def split: option.splits)

lemma record_fault_fields [simp]:
  "rt_tasks (record_fault i now f rt) = rt_tasks rt" "rt_memory (record_fault i now f rt) = rt_memory rt"
  "rt_clock (record_fault i now f rt) = rt_clock rt" "rt_stats (record_fault i now f rt) = rt_stats rt"
  "rt_scan (record_fault i now f rt) = rt_scan rt"
  by (simp_all add: record_fault_def split: option.splits)

lemma reschedule_fields [simp]:
  "rt_tasks (reschedule i task now rt) = rt_tasks rt" "rt_memory (reschedule i task now rt) = rt_memory rt"
  "rt_clock (reschedule i task now rt) = rt_clock rt" "rt_scan (reschedule i task now rt) = rt_scan rt"
  "rt_faults (reschedule i task now rt) = rt_faults rt"
  by (simp_all add: reschedule_def Let_def split: option.splits)

lemma reschedule_scans [simp]: "map st_scans (rt_stats (reschedule i task now rt)) = map st_scans (rt_stats rt)"
  by (auto simp: reschedule_def Let_def update_at_def map_update split: option.splits)
    (metis list_update_id nth_map)+

text \<open>The scheduling state a scan leaves, and the clock at its end.\<close>

definition next_state :: "TaskConfig \<Rightarrow> Duration \<Rightarrow> bool \<Rightarrow> TaskState \<Rightarrow> TaskState" where
  "next_state task now faulted st =
     st\<lparr>ts_next_release_ns := (case period task of
          Some p \<Rightarrow> max (saturate_i64 (ts_next_release_ns st + max p 1)) now | None \<Rightarrow> ts_next_release_ns st),
        ts_stopped := ts_stopped st \<or> faulted\<rparr>"

definition end_clock :: "TaskConfig \<Rightarrow> Clock \<Rightarrow> Clock" where
  "end_clock task c = (if tc_execution_time task > 0 then Clock_advance (tc_execution_time task) c else c)"

lemma reschedule_state:
  "i < length (rt_state rt) \<Longrightarrow> rt_state (reschedule i task now rt) = (rt_state rt)[i := next_state task now False (rt_state rt ! i)]"
  by (simp add: reschedule_def next_state_def get_def Let_def split: option.splits)

lemma record_fault_state:
  "i < length (rt_state rt) \<Longrightarrow>
   rt_state (record_fault i now f rt) = (rt_state rt)[i := (rt_state rt ! i)\<lparr>ts_stopped := ts_stopped (rt_state rt ! i) \<or> f \<noteq> None\<rparr>]"
  by (simp add: record_fault_def update_at_def split: option.splits)

lemma record_fault_faults:
  "rt_faults (record_fault i now f rt) = rt_faults rt @
     (case f of None \<Rightarrow> [] | Some e \<Rightarrow> [\<lparr>tf_task = i, tf_scan = rt_scan rt, tf_time = now, tf_fault = e\<rparr>])"
  by (simp add: record_fault_def split: option.splits)

lemma run_task_fields:
  assumes "i < length (rt_tasks rt)" "length (rt_state rt) = length (rt_tasks rt)" "length (rt_stats rt) = length (rt_tasks rt)"
    and run: "run_programs (runtime_env rt) (tc_programs (rt_tasks rt ! i)) 0 (latch_inputs (rt_memory rt)) = (n, fault, m)"
  defines "now \<equiv> ck_elapsed_ns (end_clock (rt_tasks rt ! i) (rt_clock rt))"
  shows "rt_tasks (run_task i rt) = rt_tasks rt" "rt_memory (run_task i rt) = publish_outputs m"
    "rt_clock (run_task i rt) = end_clock (rt_tasks rt ! i) (rt_clock rt)" "rt_scan (run_task i rt) = Suc (rt_scan rt)"
    "rt_state (run_task i rt) = (rt_state rt)[i := next_state (rt_tasks rt ! i) now (fault \<noteq> None) (rt_state rt ! i)]"
    "map st_scans (rt_stats (run_task i rt)) = (map st_scans (rt_stats rt))[i := Suc (st_scans (rt_stats rt ! i))]"
    "rt_faults (run_task i rt) = rt_faults rt @ (case fault of None \<Rightarrow> [] | Some f \<Rightarrow> [\<lparr>tf_task = i, tf_scan = Suc (rt_scan rt), tf_time = now, tf_fault = f\<rparr>])"
proof -
  define rt1 where "rt1 = rt\<lparr>rt_memory := publish_outputs m, rt_clock := end_clock (rt_tasks rt ! i) (rt_clock rt), rt_scan := rt_scan rt + 1,
     rt_stats := update_at i (count_scan n) (rt_stats rt)\<rparr>"
  have eq: "run_task i rt = sample i now (record_fault i now fault (reschedule i (rt_tasks rt ! i) now rt1))"
    using assms(1) run unfolding now_def rt1_def end_clock_def by (simp add: run_task_def get_def Let_def)
  have f: "rt_tasks rt1 = rt_tasks rt" "rt_memory rt1 = publish_outputs m" "rt_clock rt1 = end_clock (rt_tasks rt ! i) (rt_clock rt)"
    "rt_scan rt1 = Suc (rt_scan rt)" "rt_state rt1 = rt_state rt" "rt_stats rt1 = update_at i (count_scan n) (rt_stats rt)"
    "rt_faults rt1 = rt_faults rt" by (simp_all add: rt1_def)
  show "rt_tasks (run_task i rt) = rt_tasks rt" "rt_memory (run_task i rt) = publish_outputs m"
    "rt_clock (run_task i rt) = end_clock (rt_tasks rt ! i) (rt_clock rt)" "rt_scan (run_task i rt) = Suc (rt_scan rt)"
    by (simp_all add: eq f)
  show "rt_state (run_task i rt) = (rt_state rt)[i := next_state (rt_tasks rt ! i) now (fault \<noteq> None) (rt_state rt ! i)]"
    using assms(1,2) by (simp add: eq f reschedule_state record_fault_state next_state_def)
  show "map st_scans (rt_stats (run_task i rt)) = (map st_scans (rt_stats rt))[i := Suc (st_scans (rt_stats rt ! i))]"
    using assms(1,3) by (simp add: eq f update_at_def map_update count_scan_def)
  show "rt_faults (run_task i rt) = rt_faults rt @ (case fault of None \<Rightarrow> [] | Some f \<Rightarrow> [\<lparr>tf_task = i, tf_scan = Suc (rt_scan rt), tf_time = now, tf_fault = f\<rparr>])"
    by (simp add: eq f record_fault_faults split: option.splits)
qed

section \<open>The invariant\<close>

definition rt_inv :: "Runtime \<Rightarrow> bool" where
  "rt_inv rt \<longleftrightarrow>
     length (rt_state rt) = length (rt_tasks rt) \<and> length (rt_stats rt) = length (rt_tasks rt) \<and> mem_inv (rt_memory rt) \<and>
     0 \<le> ck_elapsed_ns (rt_clock rt) \<and> ck_elapsed_ns (rt_clock rt) \<le> i64_MAX \<and>
     (\<forall>i < length (rt_tasks rt). 0 \<le> ts_next_release_ns (rt_state rt ! i) \<and> ts_next_release_ns (rt_state rt ! i) \<le> i64_MAX) \<and>
     rt_scan rt = sum_list (map st_scans (rt_stats rt)) \<and>
     (\<forall>i < length (rt_tasks rt). ts_stopped (rt_state rt ! i) \<longleftrightarrow> i \<in> tf_task ` set (rt_faults rt)) \<and>
     distinct (map tf_task (rt_faults rt)) \<and>
     (\<forall>f \<in> set (rt_faults rt). tf_task f < length (rt_tasks rt) \<and> tf_scan f \<le> rt_scan rt \<and> tf_time f \<le> ck_elapsed_ns (rt_clock rt))"

lemma advance_elapsed:
  "0 \<le> ck_elapsed_ns c \<Longrightarrow> ck_elapsed_ns c \<le> i64_MAX \<Longrightarrow>
     ck_elapsed_ns c \<le> ck_elapsed_ns (Clock_advance d c) \<and> ck_elapsed_ns (Clock_advance d c) \<le> i64_MAX"
  by (auto simp: Clock_advance_def saturate_i64_def i64_MIN_def i64_MAX_def)

lemma advance_to_elapsed:
  assumes "0 \<le> ck_elapsed_ns c" "ck_elapsed_ns c \<le> i64_MAX" "t \<le> i64_MAX"
  shows "ck_elapsed_ns (Clock_advance_to_ns t c) = max t (ck_elapsed_ns c)"
  using assms by (auto simp: Clock_advance_to_ns_def Clock_advance_def saturate_i64_def i64_MIN_def i64_MAX_def)

lemma run_programs_writes: "program_write\<^sup>*\<^sup>* m (snd (snd (run_programs env bs n m)))"
proof (induction env bs n m rule: run_programs.induct)
  case (2 env b bs n m)
  then show ?case using execute_writes [of m env "pb_routine b" "pb_base b"]
    by (auto split: prod.splits sum.splits intro: rtranclp_trans)
qed simp

lemma sum_list_count: "i < length xs \<Longrightarrow> sum_list (xs[i := Suc (xs ! i)]) = Suc (sum_list xs)"
  by (simp add: sum_list_update)

lemma saturate_le: "saturate_i64 x \<le> i64_MAX"
  by (simp add: saturate_i64_def i64_MIN_def i64_MAX_def)

lemma run_task_inv:
  assumes "rt_inv rt" "i < length (rt_tasks rt)" "\<not> ts_stopped (rt_state rt ! i)"
  shows "rt_inv (run_task i rt) \<and> ck_elapsed_ns (rt_clock rt) \<le> ck_elapsed_ns (rt_clock (run_task i rt))"
proof -
  note inv = assms(1) [unfolded rt_inv_def]
  obtain n fault m where run: "run_programs (runtime_env rt) (tc_programs (rt_tasks rt ! i)) 0 (latch_inputs (rt_memory rt)) = (n, fault, m)"
    by (metis prod_cases3)
  define now where "now = ck_elapsed_ns (end_clock (rt_tasks rt ! i) (rt_clock rt))"
  note f = run_task_fields [OF assms(2) _ _ run, folded now_def]
  have lens: "length (rt_state rt) = length (rt_tasks rt)" "length (rt_stats rt) = length (rt_tasks rt)" using inv by simp_all
  note f = f [OF lens]
  have "mem_inv (latch_inputs (rt_memory rt))" using inv memory_step_inv step_latch by blast
  then have "mem_inv m" using program_writes_untouchable run_programs_writes [of "latch_inputs (rt_memory rt)" "runtime_env rt"] run
    by (metis snd_conv)
  then have mem: "mem_inv (publish_outputs m)" using memory_step_inv step_publish by blast
  have now: "ck_elapsed_ns (rt_clock rt) \<le> now" "now \<le> i64_MAX" "0 \<le> now"
    using advance_elapsed [of "rt_clock rt" "tc_execution_time (rt_tasks rt ! i)"] inv by (auto simp: now_def end_clock_def)
  have release: "0 \<le> ts_next_release_ns (next_state (rt_tasks rt ! i) now b (rt_state rt ! i)) \<and>
      ts_next_release_ns (next_state (rt_tasks rt ! i) now b (rt_state rt ! i)) \<le> i64_MAX" for b
    using now inv assms(2) saturate_le by (auto simp: next_state_def split: option.splits)
  have "length (rt_stats (run_task i rt)) = length (rt_stats rt)" using f(6) by (metis length_list_update length_map)
  moreover have "sum_list (map st_scans (rt_stats (run_task i rt))) = Suc (sum_list (map st_scans (rt_stats rt)))"
    using f(6) sum_list_count [of i "map st_scans (rt_stats rt)"] lens assms(2) by simp
  moreover have "i \<notin> tf_task ` set (rt_faults rt)" using inv assms(2,3) by blast
  moreover have el: "ck_elapsed_ns (rt_clock (run_task i rt)) = now" using f(3) by (simp add: now_def)
  moreover have "\<forall>f \<in> set (rt_faults rt). tf_scan f \<le> Suc (rt_scan rt) \<and> tf_time f \<le> now" using inv now(1) by fastforce
  ultimately have "rt_inv (run_task i rt)"
    unfolding rt_inv_def f(1,2,4,5,7) el using inv lens assms(2,3) mem now release
    by (auto simp: nth_list_update next_state_def split: option.splits)
  then show ?thesis using now el by simp
qed

lemma watched_mark [simp]: "watched task (mark i b states) j = watched task states j"
  by (cases "i < length states") (auto simp: watched_def mark_def nth_list_update split: TaskTrigger.splits)

lemma watched_active: "watched task states i \<noteq> None \<Longrightarrow> i < length states \<and> \<not> ts_stopped (states ! i)"
  by (auto simp: watched_def split: TaskTrigger.splits if_splits)

lemma pending_loop_found:
  "fst (pending_loop m i tasks states best) = Some (p, t) \<Longrightarrow>
   best = Some (p, t) \<or> (\<exists>j < length tasks. watched (tasks ! j) states (i + j) \<noteq> None \<and> t = task_id (i + j))"
proof (induction tasks arbitrary: i states best)
  case (Cons task tasks)
  show ?case
  proof (cases "watched task states i")
    case None
    then show ?thesis using Cons.IH [of "Suc i" states best] Cons.prems by (auto simp: pending_unwatched intro: exI [of _ "Suc _"])
  next
    case (Some slot)
    let ?best = "if trigger_level m slot \<and> \<not> ts_previous_trigger (states ! i) \<and> (case best of None \<Rightarrow> True | Some (p, _) \<Rightarrow> tc_priority task < p)
        then Some (tc_priority task, task_id i) else best"
    from Cons.prems Some have "?best = Some (p, t) \<or> (\<exists>j < length tasks. watched (tasks ! j) states (Suc i + j) \<noteq> None \<and> t = task_id (Suc i + j))"
      using Cons.IH [of "Suc i" "mark i (trigger_level m slot) states" ?best] by (simp add: pending_watched)
    then show ?thesis
    proof
      assume "?best = Some (p, t)"
      then show ?thesis using Some by (auto split: if_splits)
    next
      assume "\<exists>j < length tasks. watched (tasks ! j) states (Suc i + j) \<noteq> None \<and> t = task_id (Suc i + j)"
      then obtain j where "j < length tasks" "watched (tasks ! j) states (Suc i + j) \<noteq> None" "t = task_id (Suc i + j)" by blast
      then show ?thesis by (intro disjI2 exI [of _ "Suc j"]) simp
    qed
  qed
qed simp

lemma pending_event_found:
  assumes "pending_event rt = (Some i, rt')" "few_tasks rt"
  shows "i < length (rt_tasks rt) \<and> i < length (rt_state rt) \<and> \<not> ts_stopped (rt_state rt ! i)"
proof -
  obtain p where "fst (pending_loop (rt_memory rt) 0 (rt_tasks rt) (rt_state rt) None) = Some (p, i)"
    using assms(1) by (auto simp: pending_event_def split: prod.splits)
  from pending_loop_found [OF this] obtain j where j: "j < length (rt_tasks rt)" "watched (rt_tasks rt ! j) (rt_state rt) j \<noteq> None" "i = task_id j"
    by auto
  then have "i = j" using assms(2) by (simp add: few_tasks_def task_id_def)
  with j(1) watched_active [OF j(2)] show ?thesis by simp
qed

lemma rt_inv_schedule: "rt_inv rt \<Longrightarrow> same_schedule (rt_state rt) states \<Longrightarrow> rt_inv (rt\<lparr>rt_state := states\<rparr>)"
  by (auto simp: rt_inv_def same_schedule_def)

lemma rt_inv_clock:
  assumes "rt_inv rt" "t \<le> i64_MAX"
  shows "rt_inv (rt\<lparr>rt_clock := Clock_advance_to_ns t (rt_clock rt)\<rparr>)"
proof -
  have "ck_elapsed_ns (Clock_advance_to_ns t (rt_clock rt)) = max t (ck_elapsed_ns (rt_clock rt))"
    using assms by (intro advance_to_elapsed) (simp_all add: rt_inv_def)
  with assms show ?thesis by (auto simp: rt_inv_def)
qed

definition later :: "Runtime \<Rightarrow> Runtime \<Rightarrow> bool" where
  "later rt rt' \<longleftrightarrow> rt_inv rt' \<and> rt_tasks rt' = rt_tasks rt \<and> ck_elapsed_ns (rt_clock rt) \<le> ck_elapsed_ns (rt_clock rt') \<and> rt_scan rt \<le> rt_scan rt' \<and>
     (\<forall>j < length (rt_tasks rt). ts_stopped (rt_state rt ! j) \<longrightarrow> ts_stopped (rt_state rt' ! j) \<and> st_scans (rt_stats rt' ! j) = st_scans (rt_stats rt ! j))"

lemma later_trans: "later rt rt' \<Longrightarrow> later rt' rt'' \<Longrightarrow> later rt rt''"
  by (simp add: later_def)

lemma scans_update:
  assumes "map st_scans xs = (map st_scans ys)[i := n]" "j \<noteq> i" "j < length ys"
  shows "st_scans (xs ! j) = st_scans (ys ! j)"
  using assms by (metis length_list_update length_map nth_list_update_neq nth_map)

lemma run_task_later:
  assumes "rt_inv rt" "i < length (rt_tasks rt)" "\<not> ts_stopped (rt_state rt ! i)"
  shows "later rt (run_task i rt)" "rt_scan (run_task i rt) = Suc (rt_scan rt)"
proof -
  obtain n fault m where run: "run_programs (runtime_env rt) (tc_programs (rt_tasks rt ! i)) 0 (latch_inputs (rt_memory rt)) = (n, fault, m)"
    by (metis prod_cases3)
  have l: "length (rt_state rt) = length (rt_tasks rt)" "length (rt_stats rt) = length (rt_tasks rt)" using assms(1) by (simp_all add: rt_inv_def)
  note f = run_task_fields [OF assms(2) l run]
  have "ts_stopped (rt_state (run_task i rt) ! j) \<and> st_scans (rt_stats (run_task i rt) ! j) = st_scans (rt_stats rt ! j)"
    if "j < length (rt_tasks rt)" "ts_stopped (rt_state rt ! j)" for j
    using that assms(3) f(5) scans_update [OF f(6), of j] l by (cases "j = i") auto
  with f(1,4) run_task_inv [OF assms] show "later rt (run_task i rt)" "rt_scan (run_task i rt) = Suc (rt_scan rt)" by (simp_all add: later_def)
qed

lemma advance_later: "rt_inv rt \<Longrightarrow> t \<le> i64_MAX \<Longrightarrow> later rt (rt\<lparr>rt_clock := Clock_advance_to_ns t (rt_clock rt)\<rparr>)"
proof -
  assume r: "rt_inv rt" "t \<le> i64_MAX"
  then have "ck_elapsed_ns (Clock_advance_to_ns t (rt_clock rt)) = max t (ck_elapsed_ns (rt_clock rt))"
    by (intro advance_to_elapsed) (simp_all add: rt_inv_def)
  with rt_inv_clock [OF r] show ?thesis by (simp add: later_def)
qed

lemma step_later:
  assumes "rt_inv rt" "few_tasks rt" "step rt = (out, rt')"
  shows "later rt rt' \<and> (case out of Ran _ \<Rightarrow> rt_scan rt' = Suc (rt_scan rt) | Idle \<Rightarrow> rt_scan rt' = rt_scan rt)"
proof -
  obtain e states where e: "pending_event rt = (e, rt\<lparr>rt_state := states\<rparr>)" and same: "same_schedule (rt_state rt) states"
    by (rule pending_event_cases)
  let ?rt = "rt\<lparr>rt_state := states\<rparr>"
  have inv: "rt_inv ?rt" using rt_inv_schedule [OF assms(1) same] .
  moreover have "length (rt_state rt) = length (rt_tasks rt)" using assms(1) by (simp add: rt_inv_def)
  ultimately have l: "later rt ?rt" using same by (simp add: later_def same_schedule_def)
  show ?thesis
  proof (cases e)
    case (Some i)
    from pending_event_found [OF e [unfolded Some] assms(2)] same
    have "i < length (rt_tasks ?rt)" "\<not> ts_stopped (rt_state ?rt ! i)" by (auto simp: same_schedule_def)
    from run_task_later [OF inv this] show ?thesis using assms(3) e Some l by (auto simp: step_def intro: later_trans)
  next
    case None
    show ?thesis
    proof (cases "next_periodic_release ?rt")
      case None
      with assms(3) e \<open>e = None\<close> l show ?thesis by (auto simp: step_def)
    next
      case (Some ir)
      obtain i r where ir: "ir = (i, r)" by force
      have "few_tasks ?rt" using assms(2) by (simp add: few_tasks_def)
      from next_release_Some [OF Some [unfolded ir] this] have due: "due_now ?rt i" "r = ts_next_release_ns (rt_state ?rt ! i)" by blast+
      then have "r \<le> i64_MAX" using inv by (simp add: rt_inv_def due_def)
      with inv have a: "later ?rt (?rt\<lparr>rt_clock := Clock_advance_to_ns r (rt_clock ?rt)\<rparr>)" by (rule advance_later)
      with due run_task_later [of "?rt\<lparr>rt_clock := Clock_advance_to_ns r (rt_clock ?rt)\<rparr>" i] assms(3) e \<open>e = None\<close> Some ir l
      show ?thesis by (auto simp: step_def due_def later_def)
    qed
  qed
qed

section \<open>Running to a deadline\<close>

definition periodic_only :: "Runtime \<Rightarrow> bool" where
  "periodic_only rt \<longleftrightarrow> (\<forall>task \<in> set (rt_tasks rt). \<forall>slot. tc_trigger task \<noteq> Event slot)"

lemma pending_loop_periodic:
  "\<forall>task \<in> set tasks. \<forall>slot. tc_trigger task \<noteq> Event slot \<Longrightarrow> pending_loop m i tasks states best = (best, states)"
proof (induction tasks arbitrary: i)
  case (Cons task tasks)
  then have "watched task states i = None" by (auto simp: watched_def split: TaskTrigger.splits)
  with Cons show ?case by (simp add: pending_unwatched)
qed simp

lemma pending_event_periodic: "periodic_only rt \<Longrightarrow> pending_event rt = (None, rt)"
  by (simp add: pending_event_def periodic_only_def pending_loop_periodic)

definition release_task :: "nat \<Rightarrow> int \<Rightarrow> Runtime \<Rightarrow> Runtime" where
  "release_task i r rt = run_task i (rt\<lparr>rt_clock := Clock_advance_to_ns r (rt_clock rt)\<rparr>)"

lemma step_periodic:
  "periodic_only rt \<Longrightarrow> next_periodic_release rt = Some (i, r) \<Longrightarrow> step rt = (Ran i, release_task i r rt)"
  by (simp add: step_def pending_event_periodic release_task_def)

lemma release_task_fields:
  assumes "rt_inv rt" "i < length (rt_tasks rt)" "r \<le> i64_MAX"
  defines "now \<equiv> ck_elapsed_ns (rt_clock (release_task i r rt))"
  shows "\<exists>faulted. rt_state (release_task i r rt) = (rt_state rt)[i := next_state (rt_tasks rt ! i) now faulted (rt_state rt ! i)]"
    "rt_tasks (release_task i r rt) = rt_tasks rt"
    "map st_scans (rt_stats (release_task i r rt)) = (map st_scans (rt_stats rt))[i := Suc (st_scans (rt_stats rt ! i))]"
    "tc_execution_time (rt_tasks rt ! i) \<le> 0 \<Longrightarrow> now = max r (ck_elapsed_ns (rt_clock rt))"
proof -
  let ?rt = "rt\<lparr>rt_clock := Clock_advance_to_ns r (rt_clock rt)\<rparr>"
  obtain n fault m where run: "run_programs (runtime_env ?rt) (tc_programs (rt_tasks ?rt ! i)) 0 (latch_inputs (rt_memory ?rt)) = (n, fault, m)"
    by (metis prod_cases3)
  have l: "i < length (rt_tasks ?rt)" "length (rt_state ?rt) = length (rt_tasks ?rt)" "length (rt_stats ?rt) = length (rt_tasks ?rt)"
    using assms(1,2) by (simp_all add: rt_inv_def)
  note f = run_task_fields [OF l run]
  have now: "now = ck_elapsed_ns (end_clock (rt_tasks rt ! i) (rt_clock ?rt))" using f(3) by (simp add: now_def release_task_def)
  show "\<exists>faulted. rt_state (release_task i r rt) = (rt_state rt)[i := next_state (rt_tasks rt ! i) now faulted (rt_state rt ! i)]"
    using f(5) now by (auto simp: release_task_def)
  show "rt_tasks (release_task i r rt) = rt_tasks rt" using f(1) by (simp add: release_task_def)
  show "map st_scans (rt_stats (release_task i r rt)) = (map st_scans (rt_stats rt))[i := Suc (st_scans (rt_stats rt ! i))]"
    using f(6) by (simp add: release_task_def)
  show "tc_execution_time (rt_tasks rt ! i) \<le> 0 \<Longrightarrow> now = max r (ck_elapsed_ns (rt_clock rt))"
    using now advance_to_elapsed [of "rt_clock rt" r] assms(1,3) by (simp add: end_clock_def rt_inv_def)
qed

text \<open>How much of the way to the deadline is left, over all tasks that still run.\<close>

definition way_left :: "int \<Rightarrow> Runtime \<Rightarrow> nat \<Rightarrow> nat" where
  "way_left d rt j = (if due_now rt j then nat (d + 1 - ts_next_release_ns (rt_state rt ! j)) else 0)"

definition remaining :: "int \<Rightarrow> Runtime \<Rightarrow> nat" where
  "remaining d rt = sum (way_left d rt) {..<length (rt_tasks rt)}"

lemma remaining_decreases:
  assumes "rt_inv rt" "few_tasks rt" "next_periodic_release rt = Some (i, r)" "r \<le> d" "d < i64_MAX"
  shows "remaining d (release_task i r rt) < remaining d rt"
proof -
  let ?rt = "release_task i r rt"
  have due: "due_now rt i" and r: "r = ts_next_release_ns (rt_state rt ! i)"
    using next_release_Some [OF assms(3,2)] by blast+
  have i: "i < length (rt_tasks rt)" "length (rt_state rt) = length (rt_tasks rt)" using due assms(1) by (simp_all add: due_def rt_inv_def)
  obtain now faulted where st: "rt_state ?rt = (rt_state rt)[i := next_state (rt_tasks rt ! i) now faulted (rt_state rt ! i)]"
    using release_task_fields(1) [OF assms(1) i(1), of r] assms(4,5) by fastforce
  have t: "rt_tasks ?rt = rt_tasks rt" using release_task_fields(2) [OF assms(1) i(1), of r] assms(4,5) by simp
  obtain p where p: "period (rt_tasks rt ! i) = Some p" using due by (auto simp: due_def)
  have "0 \<le> r" using assms(1) i(1) r by (simp add: rt_inv_def)
  then have "r < saturate_i64 (r + max p 1)" using assms(4,5) by (auto simp: saturate_i64_def i64_MIN_def i64_MAX_def)
  then have new: "r < ts_next_release_ns (rt_state ?rt ! i)" using st p r i by (simp add: next_state_def)
  have same: "j \<noteq> i \<Longrightarrow> rt_state ?rt ! j = rt_state rt ! j" for j using st by simp
  have less: "way_left d ?rt i < way_left d rt i" using new due r assms(4) by (simp add: way_left_def)
  have "way_left d ?rt j \<le> way_left d rt j" for j
  proof (cases "j = i")
    case False
    then have "due_now ?rt j = due_now rt j" unfolding due_def using same st t by simp
    then show ?thesis using same [OF False] by (simp add: way_left_def)
  qed (use less in simp)
  then have "sum (way_left d ?rt) {..<length (rt_tasks rt)} < sum (way_left d rt) {..<length (rt_tasks rt)}"
    using i(1) less by (intro sum_strict_mono_ex1) auto
  then show ?thesis by (simp add: remaining_def t)
qed

lemma run_until_loop_ends:
  assumes "rt_inv rt" "few_tasks rt" "periodic_only rt" "d < i64_MAX" "I rt"
    and "\<And>rt i r. rt_inv rt \<Longrightarrow> few_tasks rt \<Longrightarrow> I rt \<Longrightarrow> next_periodic_release rt = Some (i, r) \<Longrightarrow> r \<le> d \<Longrightarrow> I (release_task i r rt)"
  shows "\<exists>rt'. run_until_loop d rt = Some rt' \<and> later rt rt' \<and> I rt' \<and> (\<forall>i. due_now rt' i \<longrightarrow> d < ts_next_release_ns (rt_state rt' ! i))"
  using assms(1-3,5)
proof (induction "remaining d rt" arbitrary: rt rule: less_induct)
  case less
  have quiet: "pending_event rt = (None, rt)" using less(4) by (rule pending_event_periodic)
  show ?case
  proof (cases "next_periodic_release rt")
    case None
    then have "run_until_loop d rt = Some rt" using quiet by (simp add: run_until_loop.simps [of d rt])
    moreover have "\<not> due_now rt i" for i using None by (simp add: next_release_None)
    ultimately show ?thesis using less(2,5) by (auto simp: later_def)
  next
    case (Some ir)
    obtain i r where ir: "ir = (i, r)" by force
    note n = Some [unfolded ir]
    show ?thesis
    proof (cases "r \<le> d")
      case True
      let ?rt = "release_task i r rt"
      have st: "step rt = (Ran i, ?rt)" using step_periodic [OF less(4) n] .
      have l: "later rt ?rt" using step_later [OF less(2,3) st] by simp
      then have "rt_inv ?rt" "few_tasks ?rt" "periodic_only ?rt" using less(3,4) by (simp_all add: later_def few_tasks_def periodic_only_def)
      with less(1) [OF remaining_decreases [OF less(2,3) n True assms(4)]] assms(6) [OF less(2,3,5) n True]
      obtain rt' where "run_until_loop d ?rt = Some rt'" "later ?rt rt'" "I rt'" "\<forall>i. due_now rt' i \<longrightarrow> d < ts_next_release_ns (rt_state rt' ! i)"
        by blast
      then show ?thesis using n st True l by (auto simp: run_until_loop.simps [of d rt] intro: later_trans)
    next
      case False
      have "d < ts_next_release_ns (rt_state rt ! j)" if "due_now rt j" for j
        using next_release_Some [OF n less(3)] that False by (fastforce simp: task_key_def less_eq_prod_def)
      then show ?thesis using n quiet False less(2,5) by (auto simp: run_until_loop.simps [of d rt] later_def)
    qed
  qed
qed

lemma run_until_ends:
  assumes "run_until_loop d rt = Some rt1" "later rt rt1" "d \<le> i64_MAX"
  shows "\<exists>rt'. run_until d rt = Some (rt_scan rt1 - rt_scan rt, rt') \<and> later rt1 rt' \<and> rt_scan rt' = rt_scan rt1 \<and>
    rt_stats rt' = rt_stats rt1 \<and> rt_state rt' = rt_state rt1 \<and> ck_elapsed_ns (rt_clock rt') = max d (ck_elapsed_ns (rt_clock rt1))"
proof -
  have inv: "rt_inv rt1" using assms(2) by (simp add: later_def)
  then have "ck_elapsed_ns (Clock_advance_to_ns d (rt_clock rt1)) = max d (ck_elapsed_ns (rt_clock rt1))"
    using assms(3) by (intro advance_to_elapsed) (simp_all add: rt_inv_def)
  then show ?thesis using assms(1) advance_later [OF inv assms(3)] by (simp add: run_until_def Let_def)
qed

text \<open>
  Claim C14.  A run to a deadline ends.  In every configuration of periodic tasks, whatever their programs do
  and however long their scans are modelled to take, \<open>run_until\<close> returns; no task that still runs is then
  due at or before the deadline, the clock stands at the deadline or later, and the number returned is
  the number of scans made.
\<close>
theorem run_until_completes:
  assumes "rt_inv rt" "few_tasks rt" "periodic_only rt" "deadline < i64_MAX"
  shows "\<exists>n rt'. run_until deadline rt = Some (n, rt') \<and> rt_inv rt' \<and> rt_scan rt' = rt_scan rt + n \<and> deadline \<le> ck_elapsed_ns (rt_clock rt') \<and>
    (\<forall>i. due_now rt' i \<longrightarrow> deadline < ts_next_release_ns (rt_state rt' ! i))"
proof -
  obtain rt1 where rt1: "run_until_loop deadline rt = Some rt1" "later rt rt1" "\<forall>i. due_now rt1 i \<longrightarrow> deadline < ts_next_release_ns (rt_state rt1 ! i)"
    using run_until_loop_ends [OF assms, of "\<lambda>_. True"] by blast
  moreover obtain rt' where "run_until deadline rt = Some (rt_scan rt1 - rt_scan rt, rt')" "later rt1 rt'" "rt_scan rt' = rt_scan rt1"
    "rt_state rt' = rt_state rt1" "ck_elapsed_ns (rt_clock rt') = max deadline (ck_elapsed_ns (rt_clock rt1))"
    using run_until_ends [OF rt1(1,2)] assms(4) by auto
  ultimately show ?thesis by (auto simp: later_def)
qed

section \<open>Punctuality\<close>

definition punctual :: "int \<Rightarrow> Runtime \<Rightarrow> bool" where
  "punctual d rt \<longleftrightarrow> (\<forall>task \<in> set (rt_tasks rt). tc_execution_time task \<le> 0 \<and> (\<exists>p. period task = Some p \<and> 1 \<le> p \<and> d + p \<le> i64_MAX))"

lemma punctual_periodic: "punctual d rt \<Longrightarrow> periodic_only rt"
  by (fastforce simp: punctual_def periodic_only_def period_def)

definition on_schedule :: "int \<Rightarrow> Runtime \<Rightarrow> bool" where
  "on_schedule d rt \<longleftrightarrow> ck_elapsed_ns (rt_clock rt) \<le> d \<and> (\<forall>i < length (rt_tasks rt). \<not> ts_stopped (rt_state rt ! i) \<longrightarrow>
     ts_next_release_ns (rt_state rt ! i) = int (st_scans (rt_stats rt ! i)) * the (period (rt_tasks rt ! i)) \<and>
     (int (st_scans (rt_stats rt ! i)) - 1) * the (period (rt_tasks rt ! i)) \<le> d \<and>
     ck_elapsed_ns (rt_clock rt) \<le> ts_next_release_ns (rt_state rt ! i))"

lemma on_schedule_step:
  assumes "rt_inv rt" "few_tasks rt" "punctual d rt" "on_schedule d rt" "next_periodic_release rt = Some (i, r)" "r \<le> d"
  shows "on_schedule d (release_task i r rt)"
proof -
  let ?rt = "release_task i r rt"
  have due: "due_now rt i" and r: "r = ts_next_release_ns (rt_state rt ! i)"
    and least: "\<And>j. due_now rt j \<Longrightarrow> r \<le> ts_next_release_ns (rt_state rt ! j)"
    using next_release_Some [OF assms(5,2)] by (auto simp: task_key_def less_eq_prod_def)
  have i: "i < length (rt_tasks rt)" "length (rt_state rt) = length (rt_tasks rt)" "length (rt_stats rt) = length (rt_tasks rt)"
    using due assms(1) by (simp_all add: due_def rt_inv_def)
  have "rt_tasks rt ! i \<in> set (rt_tasks rt)" using i(1) by simp
  then obtain p where p: "period (rt_tasks rt ! i) = Some p" "1 \<le> p" "d + p \<le> i64_MAX" "tc_execution_time (rt_tasks rt ! i) \<le> 0"
    using assms(3) unfolding punctual_def by blast
  have r64: "r \<le> i64_MAX" using p(2,3) assms(6) by simp
  note f = release_task_fields [OF assms(1) i(1) r64]
  have "ck_elapsed_ns (rt_clock rt) \<le> r" using assms(4) i(1) due unfolding on_schedule_def due_def r by blast
  then have now: "ck_elapsed_ns (rt_clock ?rt) = r" using f(4) p(4) by simp
  obtain faulted where st: "rt_state ?rt = (rt_state rt)[i := next_state (rt_tasks rt ! i) r faulted (rt_state rt ! i)]"
    using f(1) now by auto
  have "0 \<le> r" using assms(1) i(1) r by (simp add: rt_inv_def)
  then have "saturate_i64 (r + max p 1) = r + p" using p(2,3) assms(6) by (simp add: saturate_i64_def i64_MIN_def)
  then have rel: "ts_next_release_ns (rt_state ?rt ! i) = r + p" using st p r i by (simp add: next_state_def)
  have scans: "st_scans (rt_stats ?rt ! j) = (if j = i then Suc (st_scans (rt_stats rt ! i)) else st_scans (rt_stats rt ! j))" if "j < length (rt_tasks rt)" for j
  proof -
    have "length (rt_stats ?rt) = length (rt_stats rt)" using f(3) by (metis length_list_update length_map)
    then have "st_scans (rt_stats ?rt ! j) = map st_scans (rt_stats ?rt) ! j" using that i by simp
    then show ?thesis using f(3) that i by (simp add: nth_list_update)
  qed
  have "due_now rt j" if "j < length (rt_tasks rt)" "\<not> ts_stopped (rt_state rt ! j)" for j
    using that i assms(3) nth_mem [OF that(1)] unfolding due_def punctual_def by fastforce
  note others = least [OF this]
  show ?thesis unfolding on_schedule_def now f(2)
  proof (intro conjI allI impI)
    fix j assume j: "j < length (rt_tasks rt)" "\<not> ts_stopped (rt_state ?rt ! j)"
    show "ts_next_release_ns (rt_state ?rt ! j) = int (st_scans (rt_stats ?rt ! j)) * the (period (rt_tasks rt ! j))"
      "(int (st_scans (rt_stats ?rt ! j)) - 1) * the (period (rt_tasks rt ! j)) \<le> d" "r \<le> ts_next_release_ns (rt_state ?rt ! j)"
      using assms(4,6) j i st rel scans [OF j(1)] others [OF j(1)] r p due
      by (cases "j = i"; force simp: on_schedule_def due_def algebra_simps)+
  qed (rule assms(6))
qed

lemma whole_periods:
  assumes "(int k - 1) * p \<le> d" "d < int k * p" "0 \<le> d" "1 \<le> p"
  shows "k = nat (d div p) + 1"
proof -
  have "d div p = int k - 1" using assms by (intro int_div_pos_eq [of _ _ _ "d - (int k - 1) * p"]) (simp_all add: algebra_simps)
  moreover have "k \<noteq> 0" using assms(2,3) by (intro notI) simp
  ultimately show ?thesis by simp
qed

lemma on_schedule_count:
  assumes "rt_inv rt" "on_schedule d rt" "punctual d rt" "\<forall>i. due_now rt i \<longrightarrow> d < ts_next_release_ns (rt_state rt ! i)" "0 \<le> d"
    and i: "i < length (rt_tasks rt)" "\<not> ts_stopped (rt_state rt ! i)"
  shows "st_scans (rt_stats rt ! i) = nat (d div the (period (rt_tasks rt ! i))) + 1"
proof -
  have "rt_tasks rt ! i \<in> set (rt_tasks rt)" using i(1) by simp
  then obtain p where p: "period (rt_tasks rt ! i) = Some p" "1 \<le> p" using assms(3) unfolding punctual_def by auto
  then have "due_now rt i" using i assms(1) by (simp add: due_def rt_inv_def)
  then have "d < ts_next_release_ns (rt_state rt ! i)" using assms(4) by blast
  moreover have "ts_next_release_ns (rt_state rt ! i) = int (st_scans (rt_stats rt ! i)) * p"
    "(int (st_scans (rt_stats rt ! i)) - 1) * p \<le> d"
    using assms(2) i p by (auto simp: on_schedule_def)
  ultimately show ?thesis using p assms(5) whole_periods [of "st_scans (rt_stats rt ! i)" p d] by simp
qed

lemma rt_inv_new:
  "mem_inv m \<Longrightarrow> 0 \<le> ck_elapsed_ns clock \<Longrightarrow> ck_elapsed_ns clock \<le> i64_MAX \<Longrightarrow> rt_inv (Runtime_new program m clock tasks)"
  by (simp add: rt_inv_def Runtime_new_def TaskStats_default_def sum_list_replicate i64_MAX_def)

lemma rt_inv_limits [simp]: "rt_inv (with_limits limits rt) = rt_inv rt"
  by (simp add: rt_inv_def with_limits_def)

text \<open>
  Claim C13.  Periodic tasks run on schedule.  When no scan is modelled to take time, a new runtime run to
  the deadline ends with its clock exactly there, and every task that did not fault has been scanned
  once at time zero and once for every whole period up to the deadline.
\<close>
theorem periodic_tasks_run_on_schedule:
  assumes "mem_inv m" "ck_elapsed_ns clock = 0" "length tasks < 2 ^ 16" "0 \<le> deadline" "deadline < i64_MAX"
    and "punctual deadline (Runtime_new program m clock tasks)"
  shows "\<exists>n rt'. run_until deadline (with_limits limits (Runtime_new program m clock tasks)) = Some (n, rt') \<and>
    ck_elapsed_ns (rt_clock rt') = deadline \<and> n = sum_list (map st_scans (rt_stats rt')) \<and>
    (\<forall>i < length tasks. \<not> ts_stopped (rt_state rt' ! i) \<longrightarrow>
       st_scans (rt_stats rt' ! i) = nat (deadline div the (period (tasks ! i))) + 1)"
proof -
  let ?rt = "with_limits limits (Runtime_new program m clock tasks)"
  let ?I = "\<lambda>rt. on_schedule deadline rt \<and> punctual deadline rt \<and> rt_tasks rt = tasks"
  have inv: "rt_inv ?rt" using assms(1,2) rt_inv_new [of m clock] by (simp add: i64_MAX_def)
  have few: "few_tasks ?rt" using assms(3) by (simp add: few_tasks_def with_limits_def Runtime_new_def)
  have pun: "punctual deadline ?rt" using assms(6) by (simp add: punctual_def with_limits_def Runtime_new_def)
  have per: "periodic_only ?rt" using punctual_periodic [OF pun] .
  have "?I ?rt" using assms(2,4) pun
    by (auto simp: on_schedule_def with_limits_def Runtime_new_def TaskStats_default_def punctual_def dest!: nth_mem)
  moreover have "?I (release_task i r rt)" if "rt_inv rt" "few_tasks rt" "?I rt" "next_periodic_release rt = Some (i, r)" "r \<le> deadline" for rt i r
  proof -
    have "i < length (rt_tasks rt)" using next_release_Some [OF that(4,2)] by (simp add: due_def)
    from release_task_fields(2) [OF that(1) this, of r] that(5) assms(5) have "rt_tasks (release_task i r rt) = rt_tasks rt" by simp
    with on_schedule_step [OF that(1,2) _ _ that(4,5)] that(3) show ?thesis by (simp add: punctual_def)
  qed
  ultimately obtain rt1 where rt1: "run_until_loop deadline ?rt = Some rt1" "later ?rt rt1" "?I rt1"
      "\<forall>i. due_now rt1 i \<longrightarrow> deadline < ts_next_release_ns (rt_state rt1 ! i)"
    using run_until_loop_ends [OF inv few per assms(5), of ?I] by blast
  obtain rt' where rt': "run_until deadline ?rt = Some (rt_scan rt1 - rt_scan ?rt, rt')" "rt_inv rt'" "rt_stats rt' = rt_stats rt1"
    "rt_state rt' = rt_state rt1" "ck_elapsed_ns (rt_clock rt') = max deadline (ck_elapsed_ns (rt_clock rt1))" "rt_scan rt' = rt_scan rt1"
    using run_until_ends [OF rt1(1,2)] assms(5) by (auto simp: later_def)
  have "st_scans (rt_stats rt1 ! i) = nat (deadline div the (period (tasks ! i))) + 1" if "i < length tasks" "\<not> ts_stopped (rt_state rt1 ! i)" for i
    using on_schedule_count [of rt1 deadline i] rt1 that assms(4) by (auto simp: later_def)
  moreover have "rt_scan ?rt = 0" by (simp add: with_limits_def Runtime_new_def)
  moreover have "rt_scan rt' = sum_list (map st_scans (rt_stats rt'))" using rt'(2) by (simp add: rt_inv_def)
  ultimately show ?thesis using rt' rt1(3) by (auto simp: on_schedule_def)
qed

text \<open>One task without programs, released every ten nanoseconds.\<close>

definition metronome :: "TaskConfig list" where
  "metronome = [TaskConfig_cyclic ''A'' 10 0]"

theorem periodic_tasks_run_on_schedule_witness:
  "\<exists>n rt'. run_until 25 (with_limits ExecLimits_default (Runtime_new Program_new nothing Clock_virtual_default metronome)) = Some (n, rt') \<and>
     ck_elapsed_ns (rt_clock rt') = 25 \<and> (\<not> ts_stopped (rt_state rt' ! 0) \<longrightarrow> st_scans (rt_stats rt' ! 0) = 3)"
  using periodic_tasks_run_on_schedule [of nothing Clock_virtual_default metronome 25 Program_new ExecLimits_default]
  by (simp add: mem_inv_new nothing_def metronome_def TaskConfig_cyclic_def punctual_def Runtime_new_def period_def i64_MAX_def
      Clock_virtual_default_def Clock_virtual_from_def) blast

theorem run_until_completes_witness:
  "\<exists>n rt'. run_until 25 (Runtime_new Program_new nothing Clock_virtual_default metronome) = Some (n, rt') \<and> rt_inv rt'"
proof -
  let ?rt = "Runtime_new Program_new nothing Clock_virtual_default metronome"
  have "rt_inv ?rt" by (rule rt_inv_new) (simp_all add: nothing_def mem_inv_new Clock_virtual_default_def Clock_virtual_from_def i64_MAX_def)
  moreover have "few_tasks ?rt" "periodic_only ?rt"
    by (simp_all add: few_tasks_def periodic_only_def Runtime_new_def metronome_def TaskConfig_cyclic_def)
  ultimately show ?thesis using run_until_completes [of ?rt 25] by (auto simp: i64_MAX_def)
qed

text \<open>
  Claim C34.  A configuration whose tasks are all event tasks never runs under \<open>run_until\<close>.  The loop asks for
  a pending edge before it steps, the question forgets the edge, and the step then finds nothing to do:
  whatever has risen, the run returns with no scan made, the memory and the statistics as they were and
  the clock at the deadline.
\<close>
theorem event_tasks_never_run_until:
  assumes "event_only rt"
  shows "\<exists>rt'. run_until deadline rt = Some (0, rt') \<and> rt_scan rt' = rt_scan rt \<and> rt_memory rt' = rt_memory rt \<and>
    rt_stats rt' = rt_stats rt \<and> rt_clock rt' = Clock_advance_to_ns deadline (rt_clock rt)"
proof -
  obtain states where "run_until_loop deadline rt = Some (rt\<lparr>rt_state := states\<rparr>)" using event_only_loop [OF assms] by blast
  then show ?thesis by (simp add: run_until_def Let_def)
qed

text \<open>The trigger has risen, and the task of it is not scanned.\<close>

theorem event_tasks_never_run_until_witness:
  "\<exists>rt'. run_until 25 (Runtime_new Program_new (one_flag\<lparr>mem_slots := [V_Bool True]\<rparr>) Clock_virtual_default
      [TaskConfig_cyclic ''A'' 10 0\<lparr>tc_trigger := Event 0\<rparr>]) = Some (0, rt') \<and> rt_scan rt' = 0"
  using event_tasks_never_run_until [of "Runtime_new Program_new (one_flag\<lparr>mem_slots := [V_Bool True]\<rparr>) Clock_virtual_default
      [TaskConfig_cyclic ''A'' 10 0\<lparr>tc_trigger := Event 0\<rparr>]" 25]
  by (auto simp: event_only_def Runtime_new_def)

section \<open>Reachable runtimes\<close>

lemma run_scans_later: "rt_inv rt \<Longrightarrow> few_tasks rt \<Longrightarrow> later rt (run_scans_loop n rt)"
proof (induction n rt rule: run_scans_loop.induct)
  case (1 rt)
  then show ?case by (simp add: later_def)
next
  case (2 n rt)
  obtain out rt' where st: "step rt = (out, rt')" by force
  have l: "later rt rt'" using step_later [OF 2(2,3) st] by simp
  then have "rt_inv rt'" "few_tasks rt'" using 2(3) by (simp_all add: later_def few_tasks_def)
  then show ?case using 2(1) [OF st [symmetric]] l st by (cases out) (auto intro: later_trans)
qed

lemma pending_later:
  assumes "rt_inv rt" "pending_event rt = (e, rt')"
  shows "later rt rt'"
proof -
  obtain states where "rt' = rt\<lparr>rt_state := states\<rparr>" "same_schedule (rt_state rt) states"
    using assms(2) pending_event_cases [of rt] by (metis prod.inject)
  moreover have "length (rt_state rt) = length (rt_tasks rt)" using assms(1) by (simp add: rt_inv_def)
  ultimately show ?thesis using rt_inv_schedule [OF assms(1)] by (simp add: later_def same_schedule_def)
qed

lemma later_few: "later rt rt' \<Longrightarrow> few_tasks rt \<Longrightarrow> rt_inv rt' \<and> few_tasks rt'"
  by (simp add: later_def few_tasks_def)

lemma run_until_loop_later:
  assumes "run_until_loop d rt = Some rt'"
  shows "rt_inv rt \<longrightarrow> few_tasks rt \<longrightarrow> later rt rt'"
proof (rule run_until_loop.raw_induct [OF _ assms, where P = "\<lambda>d rt rt'. rt_inv rt \<longrightarrow> few_tasks rt \<longrightarrow> later rt rt'"], goal_cases)
  case (1 loop d rt rt')
  show ?case
  proof (intro impI)
    assume inv: "rt_inv rt" "few_tasks rt"
    have loop: "later rt r \<Longrightarrow> loop d r = Some rt' \<Longrightarrow> later rt rt'" for r
      using 1(1) later_few [OF _ inv(2)] later_trans by blast
    obtain e rt1 where e: "pending_event rt = (e, rt1)" by force
    have l1: "later rt rt1" using pending_later [OF inv(1) e] .
    have steps: "later rt (snd (step r))" if "later rt r" for r
      using step_later [of r "fst (step r)" "snd (step r)"] later_few [OF that inv(2)] later_trans [OF that] by simp
    have self: "later rt rt" using inv(1) by (simp add: later_def)
    show "later rt rt'"
    proof (cases "next_periodic_release rt")
      case None
      then show ?thesis using 1(2) e l1 loop steps by (cases e) auto
    next
      case (Some ir)
      have go: "later rt r \<Longrightarrow> (case step r of (Idle, rt) \<Rightarrow> Some rt | (Ran _, rt) \<Rightarrow> loop d rt) = Some rt' \<Longrightarrow> later rt rt'" for r
        using steps [of r] loop by (auto split: prod.splits StepOutcome.splits)
      show ?thesis using 1(2) Some e l1 self go by (cases e) (auto split: prod.splits if_splits)
    qed
  qed
qed

text \<open>Whatever can happen to a runtime: a step, the loops, and what its owner does with the memory.\<close>

inductive runtime_step :: "Runtime \<Rightarrow> Runtime \<Rightarrow> bool" where
  rs_step: "runtime_step rt (snd (step rt))"
| rs_scans: "runtime_step rt (snd (run_scans n rt))"
| rs_until: "run_until d rt = Some (n, rt') \<Longrightarrow> d \<le> i64_MAX \<Longrightarrow> runtime_step rt rt'"
| rs_memory: "memory_step (rt_memory rt) m \<Longrightarrow> runtime_step rt (rt\<lparr>rt_memory := m\<rparr>)"
| rs_record: "runtime_step rt (Runtime_record version signals rt)"
| rs_limits: "runtime_step rt (with_limits limits rt)"
| rs_seed: "runtime_step rt (with_seed seed rt)"

lemma runtime_step_later:
  assumes "runtime_step rt rt'" "rt_inv rt" "few_tasks rt"
  shows "later rt rt'"
  using assms
proof (induction rule: runtime_step.induct)
  case (rs_step rt)
  then show ?case using step_later [of rt "fst (step rt)" "snd (step rt)"] by simp
next
  case (rs_scans rt n)
  then show ?case by (simp add: run_scans_def Let_def run_scans_later)
next
  case (rs_until d rt n rt')
  then obtain rt1 where "run_until_loop d rt = Some rt1" "rt' = rt1\<lparr>rt_clock := Clock_advance_to_ns d (rt_clock rt1)\<rparr>"
    by (auto simp: run_until_def Let_def)
  then show ?case using rs_until run_until_loop_later [of d rt rt1] advance_later [of rt1 d] later_trans by (simp add: later_def)
next
  case (rs_memory rt m)
  then have "mem_inv m" using memory_step_inv by (auto simp: rt_inv_def)
  with rs_memory(2) show ?case by (auto simp: later_def rt_inv_def)
qed (auto simp: later_def rt_inv_def Runtime_record_def with_limits_def with_seed_def)

text \<open>
  Claim C15.  The scheduler's invariant.  In every runtime reached from a new one, by any sequence of steps,
  runs, memory operations and settings, the scan count is the sum of the tasks' scan counts; a task is
  stopped exactly if it has faulted, no task faults twice and a stopped task is never scanned again;
  release times and the clock stay in range, the clock and the scan count never go back, and the memory
  keeps its invariant.
\<close>
theorem scheduler_invariant:
  assumes "mem_inv m" "0 \<le> ck_elapsed_ns clock" "ck_elapsed_ns clock \<le> i64_MAX" "length tasks < 2 ^ 16"
    and "runtime_step\<^sup>*\<^sup>* (Runtime_new program m clock tasks) rt" "runtime_step\<^sup>*\<^sup>* rt rt'"
  shows "rt_inv rt' \<and> later rt rt'"
proof -
  have all: "rt_inv a \<Longrightarrow> few_tasks a \<Longrightarrow> later a b" if "runtime_step\<^sup>*\<^sup>* a b" for a b
    using that
  proof (induction rule: rtranclp_induct)
    case base
    then show ?case by (simp add: later_def)
  next
    case (step b c)
    then show ?case using runtime_step_later [of b c] later_few [of a b] later_trans by blast
  qed
  let ?new = "Runtime_new program m clock tasks"
  have "rt_inv ?new" "few_tasks ?new" using rt_inv_new [OF assms(1-3)] assms(4) by (simp_all add: few_tasks_def Runtime_new_def)
  with all [OF assms(5)] all [OF assms(6)] later_few show ?thesis unfolding later_def by blast
qed

theorem scheduler_invariant_witness:
  "rt_inv (snd (step (Runtime_new Program_new nothing Clock_virtual_default metronome)))"
proof -
  let ?rt = "Runtime_new Program_new nothing Clock_virtual_default metronome"
  have "runtime_step ?rt (snd (step ?rt))" by (rule rs_step)
  then have "runtime_step\<^sup>*\<^sup>* ?rt (snd (step ?rt))" by (rule r_into_rtranclp)
  then show ?thesis
    using scheduler_invariant [of nothing Clock_virtual_default metronome Program_new ?rt "snd (step ?rt)"]
    by (simp add: nothing_def mem_inv_new Clock_virtual_default_def Clock_virtual_from_def i64_MAX_def metronome_def)
qed

text \<open>
  The most urgent task runs first.  When no edge is pending, a step runs the task with the
  earliest release, of those the one with the smallest priority number, of those the first declared; the
  clock is first moved to that release and never back.  A step is idle only when every periodic task
  has stopped.
\<close>
theorem most_urgent_task_runs:
  assumes "rt_inv rt" "few_tasks rt" "pending_event rt = (None, rt0)"
  shows "case fst (step rt) of
      Idle \<Rightarrow> (\<forall>i. \<not> due_now rt i) \<and> snd (step rt) = rt0
    | Ran i \<Rightarrow> due_now rt i \<and>
        (\<forall>j. due_now rt j \<longrightarrow> (ts_next_release_ns (rt_state rt ! i), tc_priority (rt_tasks rt ! i), i) \<le>
           (ts_next_release_ns (rt_state rt ! j), tc_priority (rt_tasks rt ! j), j)) \<and>
        snd (step rt) = run_task i (rt0\<lparr>rt_clock := Clock_advance_to_ns (ts_next_release_ns (rt_state rt ! i)) (rt_clock rt)\<rparr>)"
proof -
  obtain states where rt0: "rt0 = rt\<lparr>rt_state := states\<rparr>" and same: "same_schedule (rt_state rt) states"
    using assms(3) pending_event_cases [of rt] by (metis prod.inject)
  have due: "due_now rt0 = due_now rt" using due_same [OF same] rt0 by auto
  have few: "few_tasks rt0" using assms(2) by (simp add: few_tasks_def rt0)
  show ?thesis
  proof (cases "next_periodic_release rt0")
    case None
    then have "step rt = (Idle, rt0)" using assms(3) by (simp add: step_def)
    then show ?thesis using None due by (simp add: next_release_None)
  next
    case (Some ir)
    obtain i r where ir: "ir = (i, r)" by force
    from next_release_Some [OF Some [unfolded ir] few]
    have i: "due_now rt i" "r = ts_next_release_ns (rt_state rt0 ! i)"
      and least: "\<And>j. due_now rt j \<Longrightarrow> task_key (rt_tasks rt0) (rt_state rt0) i \<le> task_key (rt_tasks rt0) (rt_state rt0) j" by (simp_all add: due)
    have key: "task_key (rt_tasks rt0) (rt_state rt0) j = (ts_next_release_ns (rt_state rt ! j), tc_priority (rt_tasks rt ! j), j)" if "due_now rt j" for j
      using that same assms(2) by (simp add: task_key_def task_id_def due_def few_tasks_def same_schedule_def rt0)
    have "r = ts_next_release_ns (rt_state rt ! i)" using i same by (simp add: due_def same_schedule_def rt0)
    then have "step rt = (Ran i, run_task i (rt0\<lparr>rt_clock := Clock_advance_to_ns (ts_next_release_ns (rt_state rt ! i)) (rt_clock rt)\<rparr>))"
      using assms(3) Some ir by (simp add: step_def rt0)
    moreover have "(ts_next_release_ns (rt_state rt ! i), tc_priority (rt_tasks rt ! i), i) \<le> (ts_next_release_ns (rt_state rt ! j), tc_priority (rt_tasks rt ! j), j)"
      if "due_now rt j" for j using least [OF that] key [OF i(1)] key [OF that] by simp
    ultimately show ?thesis using i(1) by simp
  qed
qed

theorem most_urgent_task_runs_witness:
  "fst (step (Runtime_new Program_new nothing Clock_virtual_default metronome)) = Ran 0"
proof -
  let ?rt = "Runtime_new Program_new nothing Clock_virtual_default metronome"
  have "rt_inv ?rt" by (rule rt_inv_new) (simp_all add: nothing_def mem_inv_new Clock_virtual_default_def Clock_virtual_from_def i64_MAX_def)
  moreover have "few_tasks ?rt" "pending_event ?rt = (None, ?rt)"
    by (simp add: few_tasks_def Runtime_new_def metronome_def)
      (rule pending_event_periodic, simp add: periodic_only_def Runtime_new_def metronome_def TaskConfig_cyclic_def)
  moreover have "due_now ?rt i \<longleftrightarrow> i = 0" for i
    by (cases i) (simp_all add: due_def Runtime_new_def metronome_def TaskConfig_cyclic_def period_def)
  ultimately show ?thesis using most_urgent_task_runs [of ?rt ?rt] by (auto split: StepOutcome.splits)
qed

end
