(* ===== verification/Capture_Pcap.thy ===== *)
theory Capture_Pcap
  imports Byte_Order
begin

text \<open>
  The classic capture file of \<open>salman-capture/src/pcap.rs\<close>: the file header with its four magics and
  its refused variants, the record reader with its errors, the writer, and the theorem that what is
  written is read back, whole or cut short.
\<close>

section \<open>The format\<close>

definition FILE_HEADER :: nat where "FILE_HEADER = 24"
definition RECORD_HEADER :: nat where "RECORD_HEADER = 16"
definition MAGIC_MICROS :: u32 where "MAGIC_MICROS = 0xA1B2C3D4"
definition MAGIC_NANOS :: u32 where "MAGIC_NANOS = 0xA1B23C4D"

record Refused =
  rf_magic :: "u8 list"
  rf_name :: string
  rf_why :: string

definition REFUSED :: "Refused list" where
  "REFUSED =
    [\<lparr>rf_magic = [0xA1, 0xB2, 0xCD, 0x34], rf_name = ''Kuznetzov's modified pcap'',
      rf_why = ''its per-record header is longer than the standard one, so reading it as standard pcap would misparse every record and produce plausible nonsense''\<rparr>,
     \<lparr>rf_magic = [0x34, 0xCD, 0xB2, 0xA1], rf_name = ''Kuznetzov's modified pcap, byte-swapped'',
      rf_why = ''its per-record header is longer than the standard one, so reading it as standard pcap would misparse every record and produce plausible nonsense''\<rparr>,
     \<lparr>rf_magic = [0xA1, 0xB2, 0x34, 0xCD], rf_name = ''the Alexey Kuznetzov variant'',
      rf_why = ''salman has not established what its record header looks like, and guessing would risk reading every record wrongly''\<rparr>,
     \<lparr>rf_magic = [0xA1, 0x2B, 0x3C, 0x4D], rf_name = ''the Navtel variant'',
      rf_why = ''salman has not established what its record header looks like, and guessing would risk reading every record wrongly''\<rparr>,
     \<lparr>rf_magic = [0xA1, 0xB2, 0xC3, 0xCB], rf_name = ''the Nokia variant'',
      rf_why = ''salman has not established what its record header looks like, and guessing would risk reading every record wrongly''\<rparr>]"

datatype ByteOrder = Little | Big

fun ByteOrder_u16 :: "ByteOrder \<Rightarrow> u8 \<times> u8 \<Rightarrow> u16" where
  "ByteOrder_u16 Little (a, b) = from_be_bytes16 b a"
| "ByteOrder_u16 Big (a, b) = from_be_bytes16 a b"

fun ByteOrder_u32 :: "ByteOrder \<Rightarrow> u8 \<times> u8 \<times> u8 \<times> u8 \<Rightarrow> u32" where
  "ByteOrder_u32 Little (a, b, c, d) = from_be_bytes32 d c b a"
| "ByteOrder_u32 Big (a, b, c, d) = from_be_bytes32 a b c d"

datatype TimestampScale = Microseconds | Nanoseconds

fun nanos_per_unit :: "TimestampScale \<Rightarrow> nat" where
  "nanos_per_unit Microseconds = 1000"
| "nanos_per_unit Nanoseconds = 1"

type_synonym LinkType = u16

definition LINK_NULL :: LinkType where "LINK_NULL = 0"
definition LINK_ETHERNET :: LinkType where "LINK_ETHERNET = 1"
definition LINK_RAW :: LinkType where "LINK_RAW = 101"
definition LINK_LINUX_SLL :: LinkType where "LINK_LINUX_SLL = 113"
definition LINK_IPV4 :: LinkType where "LINK_IPV4 = 228"
definition LINK_IPV6 :: LinkType where "LINK_IPV6 = 229"
definition LINK_LINUX_SLL2 :: LinkType where "LINK_LINUX_SLL2 = 276"

record Record =
  rc_seconds :: u32
  rc_fraction :: u32
  rc_original_length :: u32
  rc_data :: "u8 list"
  rc_truncated :: bool
  rc_index :: nat

text \<open>The timestamp is below \<open>2\<^sup>64\<close> for every record, so the code's sum does not wrap.\<close>

definition Record_nanos :: "Record \<Rightarrow> TimestampScale \<Rightarrow> nat" where
  "Record_nanos r scale = unat (rc_seconds r) * 1000000000 + unat (rc_fraction r) * nanos_per_unit scale"

datatype CaptureError =
    TooShort nat nat
  | NotAPcap "u8 list"
  | UnsupportedVariant "u8 list" string string
  | ZeroSnapshotLength
  | ShortRecordHeader nat nat
  | RecordPastEndOfFile nat u32 nat

section \<open>The reader\<close>

record CaptureReader =
  rd_order :: ByteOrder
  rd_scale :: TimestampScale
  rd_version :: "u16 \<times> u16"
  rd_link :: LinkType
  rd_snapshot_length :: u32
  rd_rest :: "u8 list"
  rd_index :: nat

definition take2 :: "u8 list \<Rightarrow> nat \<Rightarrow> CaptureError + u8 \<times> u8" where
  "take2 bytes offset =
     (case get_range bytes offset (offset + 2) of
        Some [a, b] \<Rightarrow> Inr (a, b)
      | _ \<Rightarrow> Inl (TooShort (offset + 2) (length bytes)))"

definition take4 :: "u8 list \<Rightarrow> nat \<Rightarrow> CaptureError + u8 \<times> u8 \<times> u8 \<times> u8" where
  "take4 bytes offset =
     (case get_range bytes offset (offset + 4) of
        Some [a, b, c, d] \<Rightarrow> Inr (a, b, c, d)
      | _ \<Rightarrow> Inl (TooShort (offset + 4) (length bytes)))"

definition magic_format :: "u8 list \<Rightarrow> (ByteOrder \<times> TimestampScale) option" where
  "magic_format magic =
     (case magic of
        [a, b, c, d] \<Rightarrow>
          (let be = from_be_bytes32 a b c d; le = from_be_bytes32 d c b a in
           if be = MAGIC_MICROS then Some (Big, Microseconds)
           else if be = MAGIC_NANOS then Some (Big, Nanoseconds)
           else if le = MAGIC_MICROS then Some (Little, Microseconds)
           else if le = MAGIC_NANOS then Some (Little, Nanoseconds)
           else None)
      | _ \<Rightarrow> None)"

definition CaptureReader_new :: "u8 list \<Rightarrow> CaptureError + CaptureReader" where
  "CaptureReader_new bytes =
     and_then (ok_or (get_range bytes 0 FILE_HEADER) (TooShort FILE_HEADER (length bytes))) (\<lambda>header.
     and_then (ok_or (get_range header 0 4) (TooShort FILE_HEADER (length bytes))) (\<lambda>magic.
     case find (\<lambda>refused. magic = rf_magic refused) REFUSED of
       Some refused \<Rightarrow> Inl (UnsupportedVariant magic (rf_name refused) (rf_why refused))
     | None \<Rightarrow>
         and_then (ok_or (magic_format magic) (NotAPcap magic)) (\<lambda>(order, scale).
         and_then (take2 header 4) (\<lambda>major.
         and_then (take2 header 6) (\<lambda>minor.
         and_then (take4 header 16) (\<lambda>snap.
         and_then (take4 header 20) (\<lambda>link_word.
         if ByteOrder_u32 order snap = 0 then Inl ZeroSnapshotLength
         else Inr \<lparr>rd_order = order, rd_scale = scale,
                   rd_version = (ByteOrder_u16 order major, ByteOrder_u16 order minor),
                   rd_link = ucast (ByteOrder_u32 order link_word AND 0xFFFF),
                   rd_snapshot_length = ByteOrder_u32 order snap,
                   rd_rest = drop FILE_HEADER bytes,
                   rd_index = 0\<rparr>)))))))"

definition next_record :: "CaptureReader \<Rightarrow> (CaptureError + Record option) \<times> CaptureReader" where
  "next_record r =
     (if rd_rest r = [] then (Inr None, r)
      else
        case get_range (rd_rest r) 0 RECORD_HEADER of
          None \<Rightarrow> (Inl (ShortRecordHeader (rd_index r) (length (rd_rest r))), r)
        | Some header \<Rightarrow>
            (case (take4 header 0, take4 header 4, take4 header 8, take4 header 12) of
               (Inr s, Inr f, Inr c, Inr orig) \<Rightarrow>
                 (let captured = ByteOrder_u32 (rd_order r) c;
                      original = ByteOrder_u32 (rd_order r) orig
                  in case get_range (drop RECORD_HEADER (rd_rest r)) 0 (unat captured) of
                       None \<Rightarrow> (Inl (RecordPastEndOfFile (rd_index r) captured (length (rd_rest r) - RECORD_HEADER)), r)
                     | Some body \<Rightarrow>
                         (Inr (Some \<lparr>rc_seconds = ByteOrder_u32 (rd_order r) s,
                                     rc_fraction = ByteOrder_u32 (rd_order r) f,
                                     rc_original_length = original,
                                     rc_data = body,
                                     rc_truncated = captured < original,
                                     rc_index = rd_index r\<rparr>),
                          r\<lparr>rd_rest := drop (RECORD_HEADER + unat captured) (rd_rest r), rd_index := rd_index r + 1\<rparr>))
             | (Inl e, _) \<Rightarrow> (Inl e, r)
             | (_, Inl e, _) \<Rightarrow> (Inl e, r)
             | (_, _, Inl e, _) \<Rightarrow> (Inl e, r)
             | (_, _, _, Inl e) \<Rightarrow> (Inl e, r)))"

lemma next_record_shrinks:
  "next_record r = (Inr (Some rec), r') \<Longrightarrow> length (rd_rest r') < length (rd_rest r)"
  by (auto simp: next_record_def Let_def RECORD_HEADER_def split: if_splits option.splits sum.splits)

function records :: "CaptureReader \<Rightarrow> (Record list \<times> CaptureError option) \<times> CaptureReader" where
  "records r =
     (case next_record r of
        (Inr (Some rec), r') \<Rightarrow> (let ((out, e), r'') = records r' in ((rec # out, e), r''))
      | (Inr None, r') \<Rightarrow> (([], None), r')
      | (Inl e, r') \<Rightarrow> (([], Some e), r'))"
  by pat_completeness auto
termination
  by (relation "measure (\<lambda>r. length (rd_rest r))") (auto dest: next_record_shrinks [OF sym])

declare records.simps [simp del]

section \<open>The writer\<close>

record Writer =
  wr_bytes :: "u8 list"
  wr_scale :: TimestampScale

definition Writer_new :: "LinkType \<Rightarrow> u32 \<Rightarrow> Writer" where
  "Writer_new link snapshot_length =
     \<lparr>wr_bytes = to_le_bytes32 MAGIC_MICROS @ to_le_bytes16 2 @ to_le_bytes16 4 @ to_le_bytes32 0 @ to_le_bytes32 0
                 @ to_le_bytes32 (max snapshot_length 1) @ to_le_bytes32 (ucast link),
      wr_scale = Microseconds\<rparr>"

definition Writer_write :: "Writer \<Rightarrow> u64 \<Rightarrow> u32 \<Rightarrow> u8 list \<Rightarrow> Writer" where
  "Writer_write w nanos original_length data =
     (let seconds = of_nat (unat nanos div 1000000000) :: u32;
          fraction = of_nat (unat nanos mod 1000000000 div nanos_per_unit (wr_scale w)) :: u32
      in w\<lparr>wr_bytes := wr_bytes w @ to_le_bytes32 seconds @ to_le_bytes32 fraction @ to_le_bytes32 (of_nat (length data))
                       @ to_le_bytes32 (max original_length (of_nat (length data))) @ data\<rparr>)"

definition Writer_finish :: "Writer \<Rightarrow> u8 list" where
  "Writer_finish w = wr_bytes w"

section \<open>What is written is read back\<close>

text \<open>A frame as the caller of the writer describes it, and the record the reader gives back for it.\<close>

type_synonym frame_in = "u64 \<times> u32 \<times> u8 list"

definition write_all :: "Writer \<Rightarrow> frame_in list \<Rightarrow> Writer" where
  "write_all = foldl (\<lambda>w (nanos, original, data). Writer_write w nanos original data)"

definition capture_file :: "LinkType \<Rightarrow> u32 \<Rightarrow> frame_in list \<Rightarrow> u8 list" where
  "capture_file link snapshot fs = Writer_finish (write_all (Writer_new link snapshot) fs)"

fun record_of :: "nat \<Rightarrow> frame_in \<Rightarrow> Record" where
  "record_of i (nanos, original, data) =
     \<lparr>rc_seconds = of_nat (unat nanos div 1000000000),
      rc_fraction = of_nat (unat nanos mod 1000000000 div 1000),
      rc_original_length = max original (of_nat (length data)),
      rc_data = data,
      rc_truncated = of_nat (length data) < original,
      rc_index = i\<rparr>"

definition record_bytes :: "frame_in \<Rightarrow> u8 list" where
  "record_bytes f = (let r = record_of 0 f in
     to_le_bytes32 (rc_seconds r) @ to_le_bytes32 (rc_fraction r) @ to_le_bytes32 (of_nat (length (rc_data r)))
     @ to_le_bytes32 (rc_original_length r) @ rc_data r)"

lemma write_all_bytes:
  "wr_scale w = Microseconds \<Longrightarrow> wr_bytes (write_all w fs) = wr_bytes w @ concat (map record_bytes fs)"
proof (induction fs arbitrary: w)
  case (Cons f fs)
  obtain nanos original data where f: "f = (nanos, original, data)" by (cases f)
  have "write_all w (f # fs) = write_all (Writer_write w nanos original data) fs" by (simp add: write_all_def f)
  with Cons show ?case by (simp add: Writer_write_def Let_def record_bytes_def f)
qed (simp add: write_all_def)

lemma u32_of_le_bytes [simp]:
  "ByteOrder_u32 Little (ucast w, ucast (drop_bit 8 w), ucast (drop_bit 16 w), ucast (drop_bit 24 w)) = w"
  by simp

lemma unat_of_nat_u32 [simp]: "n < 4294967296 \<Longrightarrow> unat (of_nat n :: u32) = n"
  by (simp add: unat_of_nat take_bit_nat_eq_self)

lemma max_less_iff_u32: "(a < max b a) = (a < (b :: u32))"
  by (auto simp: max_def)

definition rec_head :: "u32 \<Rightarrow> u32 \<Rightarrow> u32 \<Rightarrow> u32 \<Rightarrow> u8 list" where
  "rec_head s f c l = to_le_bytes32 s @ to_le_bytes32 f @ to_le_bytes32 c @ to_le_bytes32 l"

lemma length_rec_head [simp]: "length (rec_head s f c l) = 16"
  by (simp add: rec_head_def)

lemma take4_rec_head:
  "take4 (rec_head s f c l) 0 = Inr (ucast s, ucast (drop_bit 8 s), ucast (drop_bit 16 s), ucast (drop_bit 24 s))"
  "take4 (rec_head s f c l) 4 = Inr (ucast f, ucast (drop_bit 8 f), ucast (drop_bit 16 f), ucast (drop_bit 24 f))"
  "take4 (rec_head s f c l) 8 = Inr (ucast c, ucast (drop_bit 8 c), ucast (drop_bit 16 c), ucast (drop_bit 24 c))"
  "take4 (rec_head s f c l) 12 = Inr (ucast l, ucast (drop_bit 8 l), ucast (drop_bit 16 l), ucast (drop_bit 24 l))"
  by (simp_all add: take4_def get_range_def rec_head_def to_le_bytes32_def)

lemma record_bytes_head:
  "record_bytes f = rec_head (rc_seconds (record_of 0 f)) (rc_fraction (record_of 0 f)) (of_nat (length (rc_data (record_of 0 f))))
                             (rc_original_length (record_of 0 f)) @ rc_data (record_of 0 f)"
  by (simp add: record_bytes_def rec_head_def Let_def)

lemma next_record_written:
  assumes r: "rd_order r = Little" "rd_rest r = record_bytes f @ tail" and d: "length (snd (snd f)) < 2 ^ 32"
  shows "next_record r = (Inr (Some (record_of (rd_index r) f)), r\<lparr>rd_rest := tail, rd_index := rd_index r + 1\<rparr>)"
proof -
  obtain nanos original data where f: "f = (nanos, original, data)" by (cases f)
  let ?h = "rec_head (of_nat (unat nanos div 1000000000)) (of_nat (unat nanos mod 1000000000 div 1000)) (of_nat (length data))
                     (max original (of_nat (length data)))"
  have rest: "rd_rest r = ?h @ data @ tail" using r(2) by (simp add: record_bytes_head f)
  then have "rd_rest r \<noteq> []" by (metis length_rec_head append_is_Nil_conv list.size(3) zero_neq_numeral)
  with rest r(1) d show ?thesis
    by (simp add: next_record_def RECORD_HEADER_def get_range_def take4_rec_head Let_def f max_less_iff_u32)
qed

lemma records_written:
  assumes "rd_order r = Little" "rd_rest r = concat (map record_bytes fs)" "\<forall>f \<in> set fs. length (snd (snd f)) < 2 ^ 32"
  shows "records r = ((map2 record_of [rd_index r..<rd_index r + length fs] fs, None),
                      r\<lparr>rd_rest := [], rd_index := rd_index r + length fs\<rparr>)"
  using assms
proof (induction fs arbitrary: r)
  case Nil
  then show ?case by (simp add: records.simps [of r] next_record_def)
next
  case (Cons f fs)
  let ?r = "r\<lparr>rd_rest := concat (map record_bytes fs), rd_index := rd_index r + 1\<rparr>"
  have "next_record r = (Inr (Some (record_of (rd_index r) f)), ?r)"
    using Cons.prems by (intro next_record_written) auto
  moreover have "records ?r = ((map2 record_of [rd_index r + 1..<rd_index r + 1 + length fs] fs, None),
                                r\<lparr>rd_rest := [], rd_index := rd_index r + 1 + length fs\<rparr>)"
    using Cons.IH [of ?r] Cons.prems by simp
  moreover have "[rd_index r..<rd_index r + length (f # fs)] = rd_index r # [rd_index r + 1..<rd_index r + 1 + length fs]"
    by (simp add: upt_conv_Cons del: upt_Suc)
  ultimately show ?case by (simp add: records.simps [of r])
qed

text \<open>
  A file cut short.  The reader numbering records from \<open>i\<close> has read the first \<open>k\<close> frames and has \<open>rest\<close>
  bytes left of the next one: nothing is wrong if the cut falls between two records, a short header
  if it falls in the header of one, and a record past the end if it falls in its data.
\<close>

definition cut_error :: "frame_in list \<Rightarrow> nat \<Rightarrow> nat \<Rightarrow> nat \<Rightarrow> CaptureError option" where
  "cut_error fs i k rest =
     (if k = length fs \<or> rest = 0 then None
      else if rest < RECORD_HEADER then Some (ShortRecordHeader (i + k) rest)
      else Some (RecordPastEndOfFile (i + k) (of_nat (length (snd (snd (fs ! k))))) (rest - RECORD_HEADER)))"

definition body_length :: "frame_in list \<Rightarrow> nat" where
  "body_length fs = length (concat (map record_bytes fs))"

lemma body_length_Cons [simp]: "body_length [] = 0" "body_length (f # fs) = length (record_bytes f) + body_length fs"
  by (simp_all add: body_length_def)

lemma length_record_bytes [simp]: "length (record_bytes f) = 16 + length (snd (snd f))"
  by (cases f) (simp add: record_bytes_head)

lemma next_record_cut:
  assumes r: "rd_order r = Little" "rd_rest r = take n (record_bytes f)" and n: "0 < n" "n < length (record_bytes f)"
    and d: "length (snd (snd f)) < 2 ^ 32"
  shows "next_record r = (Inl (if n < RECORD_HEADER then ShortRecordHeader (rd_index r) n
      else RecordPastEndOfFile (rd_index r) (of_nat (length (snd (snd f)))) (n - RECORD_HEADER)), r)"
proof -
  obtain nanos original data where f: "f = (nanos, original, data)" by (cases f)
  let ?h = "rec_head (of_nat (unat nanos div 1000000000)) (of_nat (unat nanos mod 1000000000 div 1000)) (of_nat (length data))
                     (max original (of_nat (length data)))"
  have rest: "rd_rest r = take n (?h @ data)" "n < 16 + length data" using r(2) n(2) by (simp_all add: record_bytes_head f)
  then have len: "length (rd_rest r) = n" by simp
  with n(1) have ne: "rd_rest r \<noteq> []" by auto
  show ?thesis
  proof (cases "n < 16")
    case True
    with len ne show ?thesis by (simp add: next_record_def RECORD_HEADER_def get_range_def)
  next
    case False
    then have "rd_rest r = ?h @ take (n - 16) data" using rest by simp
    with False ne rest(2) r(1) d show ?thesis
      by (simp add: next_record_def RECORD_HEADER_def get_range_def take4_rec_head Let_def f)
  qed
qed

lemma records_cut:
  assumes "rd_order r = Little" "rd_rest r = take n (concat (map record_bytes fs))" "\<forall>f \<in> set fs. length (snd (snd f)) < 2 ^ 32"
  shows "\<exists>k \<le> length fs. body_length (take k fs) \<le> n \<and> (k < length fs \<longrightarrow> n < body_length (take (Suc k) fs)) \<and>
    fst (records r) = (map2 record_of [rd_index r..<rd_index r + k] (take k fs), cut_error fs (rd_index r) k (n - body_length (take k fs)))"
  using assms
proof (induction fs arbitrary: r n)
  case Nil
  then show ?case by (simp add: records.simps [of r] next_record_def cut_error_def)
next
  case (Cons f fs)
  let ?l = "length (record_bytes f)"
  have d: "length (snd (snd f)) < 2 ^ 32" using Cons.prems(3) by simp
  show ?case
  proof (cases "?l \<le> n")
    case True
    let ?tail = "take (n - ?l) (concat (map record_bytes fs))" and ?i = "rd_index r"
    let ?r = "r\<lparr>rd_rest := ?tail, rd_index := ?i + 1\<rparr>"
    have "rd_rest r = record_bytes f @ ?tail" using Cons.prems(2) True by simp
    note next_r = next_record_written [OF Cons.prems(1) this d]
    have "\<exists>k \<le> length fs. body_length (take k fs) \<le> n - ?l \<and> (k < length fs \<longrightarrow> n - ?l < body_length (take (Suc k) fs)) \<and>
      fst (records ?r) = (map2 record_of [rd_index ?r..<rd_index ?r + k] (take k fs), cut_error fs (rd_index ?r) k (n - ?l - body_length (take k fs)))"
      by (rule Cons.IH) (use Cons.prems in auto)
    then obtain k where k: "k \<le> length fs" "body_length (take k fs) \<le> n - ?l" "k < length fs \<longrightarrow> n - ?l < body_length (take (Suc k) fs)"
      "fst (records ?r) = (map2 record_of [?i + 1..<?i + 1 + k] (take k fs), cut_error fs (?i + 1) k (n - ?l - body_length (take k fs)))"
      by auto
    have "[?i..<?i + Suc k] = ?i # [?i + 1..<?i + 1 + k]" by (simp add: upt_conv_Cons del: upt_Suc)
    moreover have "cut_error (f # fs) ?i (Suc k) (n - body_length (take (Suc k) (f # fs))) =
        cut_error fs (?i + 1) k (n - ?l - body_length (take k fs))" by (simp add: cut_error_def)
    moreover have "fst (records r) = (record_of ?i f # fst (fst (records ?r)), snd (fst (records ?r)))"
      using next_r by (simp add: records.simps [of r] case_prod_beta Let_def)
    ultimately have "fst (records r) = (map2 record_of [?i..<?i + Suc k] (take (Suc k) (f # fs)),
        cut_error (f # fs) ?i (Suc k) (n - body_length (take (Suc k) (f # fs))))" using k(4) by simp
    with k True show ?thesis by (intro exI [of _ "Suc k"]) auto
  next
    case False
    then have rest: "rd_rest r = take n (record_bytes f)" using Cons.prems(2) by simp
    have "fst (records r) = ([], cut_error (f # fs) (rd_index r) 0 n)"
    proof (cases "n = 0")
      case True
      with rest show ?thesis by (simp add: records.simps [of r] next_record_def cut_error_def)
    next
      case n: False
      with False next_record_cut [OF Cons.prems(1) rest _ _ d] show ?thesis
        by (simp add: records.simps [of r] cut_error_def)
    qed
    with False show ?thesis by (intro exI [of _ 0]) simp
  qed
qed

lemma low_half_of_link: "ucast (ucast link AND 0xFFFF :: u32) = (link :: u16)"
proof (rule bit_word_eqI)
  have mask: "(0xFFFF :: u32) = mask 16" by (simp add: mask_eq_exp_minus_1)
  show "bit (ucast (ucast link AND 0xFFFF :: u32) :: u16) n = bit link n" if "n < LENGTH(16)" for n
    using that by (auto simp: mask bit_simps)
qed

definition read_header :: "LinkType \<Rightarrow> u32 \<Rightarrow> u8 list \<Rightarrow> CaptureReader" where
  "read_header link snapshot rest =
     \<lparr>rd_order = Little, rd_scale = Microseconds, rd_version = (2, 4), rd_link = link,
      rd_snapshot_length = max snapshot 1, rd_rest = rest, rd_index = 0\<rparr>"

lemma length_Writer_new [simp]: "length (wr_bytes (Writer_new link snapshot)) = 24"
  by (simp add: Writer_new_def)

lemma CaptureReader_new_written:
  "CaptureReader_new (wr_bytes (Writer_new link snapshot) @ rest) = Inr (read_header link snapshot rest)"
proof -
  let ?h = "wr_bytes (Writer_new link snapshot)"
  have pos: "max snapshot 1 \<noteq> 0" by (metis max.cobounded2 word_le_0_iff zero_neq_one)
  have head: "get_range (?h @ rest) 0 FILE_HEADER = Some ?h" by (simp add: get_range_def FILE_HEADER_def)
  have magic: "get_range ?h 0 4 = Some [0xD4, 0xC3, 0xB2, 0xA1]"
    by (simp add: get_range_def Writer_new_def to_le_bytes32_def MAGIC_MICROS_def)
  have format: "magic_format [0xD4, 0xC3, 0xB2, 0xA1] = Some (Little, Microseconds)"
    by (simp add: magic_format_def from_be_bytes32_def MAGIC_MICROS_def MAGIC_NANOS_def)
  have fields: "take2 ?h 4 = Inr (2, 0)" "take2 ?h 6 = Inr (4, 0)"
    "take4 ?h 16 = (let w = max snapshot 1 in Inr (ucast w, ucast (drop_bit 8 w), ucast (drop_bit 16 w), ucast (drop_bit 24 w)))"
    "take4 ?h 20 = (let w = ucast link :: u32 in Inr (ucast w, ucast (drop_bit 8 w), ucast (drop_bit 16 w), ucast (drop_bit 24 w)))"
    by (simp_all add: take2_def take4_def get_range_def Writer_new_def to_le_bytes32_def to_le_bytes16_def Let_def)
  show ?thesis unfolding CaptureReader_new_def head
    by (simp add: magic REFUSED_def format fields Let_def pos low_half_of_link read_header_def FILE_HEADER_def from_be_bytes16_def)
qed

lemma capture_file_bytes: "capture_file link snapshot fs = wr_bytes (Writer_new link snapshot) @ concat (map record_bytes fs)"
  by (simp add: capture_file_def Writer_finish_def write_all_bytes Writer_new_def)

lemma length_capture_file: "length (capture_file link snapshot fs) = FILE_HEADER + body_length fs"
  by (simp add: capture_file_bytes body_length_def FILE_HEADER_def)

lemma CaptureReader_new_short: "length bytes < FILE_HEADER \<Longrightarrow> CaptureReader_new bytes = Inl (TooShort FILE_HEADER (length bytes))"
  by (simp add: CaptureReader_new_def get_range_def)

text \<open>
  Claim C38. What the writer writes, the reader reads back: the link type, the snapshot length, and for
  every frame one record with the frame's bytes, its time in microseconds and the longer of the two
  lengths, numbered from zero, with no error at the end. Cut anywhere after its header, the same file
  still opens and yields every record that is whole in it, no fewer: with \<open>k\<close> the number of frames
  whose file fits in the bytes that are left, the first \<open>k\<close> records are read, and the error after them
  says whether the cut fell between two records, in the header of the next or in its data. Cut within
  its header, it is refused as too short.
\<close>

theorem pcap_round_trip:
  assumes "\<forall>f \<in> set fs. length (snd (snd f)) < 2 ^ 32"
  shows "(\<exists>r. CaptureReader_new (capture_file link snapshot fs) = Inr r \<and> rd_link r = link \<and> rd_scale r = Microseconds
           \<and> rd_snapshot_length r = max snapshot 1 \<and> fst (records r) = (map2 record_of [0..<length fs] fs, None))
      \<and> (\<forall>n \<ge> FILE_HEADER. \<exists>c k. CaptureReader_new (take n (capture_file link snapshot fs)) = Inr c \<and> k \<le> length fs
           \<and> length (capture_file link snapshot (take k fs)) \<le> n
           \<and> (k < length fs \<longrightarrow> n < length (capture_file link snapshot (take (Suc k) fs)))
           \<and> fst (records c) = (map2 record_of [0..<k] (take k fs), cut_error fs 0 k (n - length (capture_file link snapshot (take k fs)))))
      \<and> (\<forall>n < FILE_HEADER. CaptureReader_new (take n (capture_file link snapshot fs)) = Inl (TooShort FILE_HEADER n))"
proof (intro conjI allI impI)
  let ?file = "capture_file link snapshot fs" and ?body = "concat (map record_bytes fs)" and ?h = "wr_bytes (Writer_new link snapshot)"
  let ?r = "read_header link snapshot ?body"
  have "fst (records ?r) = (map2 record_of [0..<length fs] fs, None)"
    using records_written [of ?r fs] assms(1) by (simp add: read_header_def)
  moreover have "CaptureReader_new ?file = Inr ?r" by (simp only: capture_file_bytes CaptureReader_new_written)
  moreover have "rd_link ?r = link" "rd_scale ?r = Microseconds" "rd_snapshot_length ?r = max snapshot 1"
    by (simp_all add: read_header_def)
  ultimately show "\<exists>r. CaptureReader_new ?file = Inr r \<and> rd_link r = link \<and> rd_scale r = Microseconds
     \<and> rd_snapshot_length r = max snapshot 1 \<and> fst (records r) = (map2 record_of [0..<length fs] fs, None)" by blast
  fix n
  show "CaptureReader_new (take n ?file) = Inl (TooShort FILE_HEADER n)" if "n < FILE_HEADER"
    using that CaptureReader_new_short [of "take n ?file"] by (simp add: length_capture_file)
  assume n: "n \<ge> FILE_HEADER"
  let ?c = "read_header link snapshot (take (n - 24) ?body)"
  have "take n ?file = ?h @ take (n - 24) ?body" using n by (simp add: capture_file_bytes FILE_HEADER_def)
  then have opens: "CaptureReader_new (take n ?file) = Inr ?c" by (simp add: CaptureReader_new_written)
  have c: "rd_order ?c = Little" "rd_rest ?c = take (n - 24) ?body" "rd_index ?c = 0" by (simp_all add: read_header_def)
  from records_cut [OF c(1,2) assms] c(3) obtain k where k: "k \<le> length fs" "body_length (take k fs) \<le> n - 24"
    "k < length fs \<longrightarrow> n - 24 < body_length (take (Suc k) fs)"
    "fst (records ?c) = (map2 record_of [0..<k] (take k fs), cut_error fs 0 k (n - 24 - body_length (take k fs)))" by auto
  with opens n show "\<exists>c k. CaptureReader_new (take n ?file) = Inr c \<and> k \<le> length fs
      \<and> length (capture_file link snapshot (take k fs)) \<le> n
      \<and> (k < length fs \<longrightarrow> n < length (capture_file link snapshot (take (Suc k) fs)))
      \<and> fst (records c) = (map2 record_of [0..<k] (take k fs), cut_error fs 0 k (n - length (capture_file link snapshot (take k fs))))"
    by (intro exI [of _ ?c] exI [of _ k]) (auto simp: length_capture_file FILE_HEADER_def)
qed

text \<open>Two frames, the second cut to three of its sixty bytes, in an Ethernet capture, whole and without its last byte.\<close>

theorem pcap_round_trip_witness:
  "let file = capture_file 1 65535 [(1500000000, 2, [7, 8]), (2000001000, 60, [1, 2, 3])];
       first = \<lparr>rc_seconds = 1, rc_fraction = 500000, rc_original_length = 2, rc_data = [7, 8], rc_truncated = False, rc_index = 0\<rparr>;
       second = \<lparr>rc_seconds = 2, rc_fraction = 1, rc_original_length = 60, rc_data = [1, 2, 3], rc_truncated = True, rc_index = 1\<rparr>
   in (\<exists>r. CaptureReader_new file = Inr r \<and> fst (records r) = ([first, second], None)) \<and>
      (\<exists>c. CaptureReader_new (take 60 file) = Inr c \<and> fst (records c) = ([first], Some (RecordPastEndOfFile 1 3 2)))"
proof -
  define fs :: "frame_in list" where "fs = [(1500000000, 2, [7, 8]), (2000001000, 60, [1, 2, 3])]"
  let ?f = "\<lparr>rc_seconds = 1, rc_fraction = 500000, rc_original_length = 2, rc_data = [7, 8], rc_truncated = False, rc_index = 0\<rparr>"
  have small: "\<forall>f \<in> set fs. length (snd (snd f)) < 2 ^ 32" by (simp add: fs_def)
  obtain c k where c: "CaptureReader_new (take 60 (capture_file 1 65535 fs)) = Inr c" "k \<le> length fs"
    "length (capture_file 1 65535 (take k fs)) \<le> 60" "k < length fs \<longrightarrow> 60 < length (capture_file 1 65535 (take (Suc k) fs))"
    "fst (records c) = (map2 record_of [0..<k] (take k fs), cut_error fs 0 k (60 - length (capture_file 1 65535 (take k fs))))"
    using pcap_round_trip [OF small, of 1 65535, THEN conjunct2, THEN conjunct1, rule_format, of 60]
    by (auto simp: FILE_HEADER_def)
  have "k = 0 \<or> k = 1 \<or> k = 2" using c(2) by (auto simp: fs_def)
  then have k: "k = 1" using c(3,4) by (auto simp: length_capture_file fs_def FILE_HEADER_def)
  have "fst (records c) = ([?f], Some (RecordPastEndOfFile 1 3 2))"
    using c(5) by (simp add: k length_capture_file fs_def FILE_HEADER_def cut_error_def RECORD_HEADER_def max_def)
  with c(1) pcap_round_trip [OF small, of 1 65535, THEN conjunct1] show ?thesis
    by (simp add: Let_def fs_def max_def) blast
qed

end
