(* ===== verification/Capture_Frame.thy ===== *)
theory Capture_Frame
  imports Capture_Pcap
begin

text \<open>
  Decoding one captured frame down to a TCP segment, \<open>salman-capture/src/frame.rs\<close>: the link headers,
  stacked VLAN tags, IPv4 and IPv6, fragments, TCP, and every reason a frame is not decoded. The
  theorems: bytes after the packet (Ethernet padding) never become payload, and a segment built
  field by field is decoded back to exactly those fields.
\<close>

section \<open>Data\<close>

definition MAX_VLAN_TAGS :: nat where "MAX_VLAN_TAGS = 4"
definition ETHERTYPE_IPV4 :: u16 where "ETHERTYPE_IPV4 = 0x0800"
definition ETHERTYPE_IPV6 :: u16 where "ETHERTYPE_IPV6 = 0x86DD"
definition ETHERTYPE_C_TAG :: u16 where "ETHERTYPE_C_TAG = 0x8100"
definition ETHERTYPE_S_TAG :: u16 where "ETHERTYPE_S_TAG = 0x88A8"
definition ETHERTYPE_S_TAG_ALT :: u16 where "ETHERTYPE_S_TAG_ALT = 0x9100"
definition PROTOCOL_TCP :: u8 where "PROTOCOL_TCP = 6"

datatype Address = V4 "u8 list" | V6 "u8 list"

record Endpoint =
  ep_address :: Address
  ep_port :: u16

record Segment =
  sg_source :: Endpoint
  sg_destination :: Endpoint
  sg_sequence :: u32
  sg_acknowledgement :: u32
  sg_payload :: "u8 list"
  sg_syn :: bool
  sg_ack :: bool
  sg_fin :: bool
  sg_rst :: bool
  sg_truncated :: bool

datatype NotDecoded =
    NotLinkType LinkType
  | NotEtherType u16
  | NotProtocol u8
  | TruncatedBeforeHeaders
  | Fragmented u32 bool

datatype Decoded = Tcp Segment | NotDecoded NotDecoded

datatype CaptureFrameError =
    HeaderTooShort string nat nat
  | LengthPastEndOfFrame string nat nat
  | TooManyVlanTags nat
  | NotAnIpVersion u8

section \<open>Fields\<close>

definition be16 :: "u8 list \<Rightarrow> nat \<Rightarrow> u16 option" where
  "be16 bytes offset =
     (case get_range bytes offset (offset + 2) of Some [a, b] \<Rightarrow> Some (from_be_bytes16 a b) | _ \<Rightarrow> None)"

definition be32 :: "u8 list \<Rightarrow> nat \<Rightarrow> u32 option" where
  "be32 bytes offset =
     (case get_range bytes offset (offset + 4) of Some [a, b, c, d] \<Rightarrow> Some (from_be_bytes32 a b c d) | _ \<Rightarrow> None)"

definition get_from :: "'a list \<Rightarrow> nat \<Rightarrow> 'a list option" where
  "get_from xs k = (if k \<le> length xs then Some (drop k xs) else None)"

fun null_protocol :: "u32 \<Rightarrow> u16 option" where
  "null_protocol v =
     (if v = 2 then Some ETHERTYPE_IPV4
      else if v = 24 \<or> v = 28 \<or> v = 30 then Some ETHERTYPE_IPV6
      else None)"

definition version_ether_type :: "u8 list \<Rightarrow> CaptureFrameError + u16" where
  "version_ether_type frame =
     (let first = (case frame of [] \<Rightarrow> 0 | b # _ \<Rightarrow> b); version = drop_bit 4 first in
      if version = 4 then Inr ETHERTYPE_IPV4
      else if version = 6 then Inr ETHERTYPE_IPV6
      else Inl (NotAnIpVersion version))"

definition is_vlan_tag :: "u16 \<Rightarrow> bool" where
  "is_vlan_tag t = (t = ETHERTYPE_C_TAG \<or> t = ETHERTYPE_S_TAG \<or> t = ETHERTYPE_S_TAG_ALT)"

text \<open>
  The tag loop, with the number of tags that may still be followed: the code counts up to
  \<open>MAX_VLAN_TAGS\<close> and refuses the next one.
\<close>

fun follow_tags :: "nat \<Rightarrow> u16 \<Rightarrow> u8 list \<Rightarrow> CaptureFrameError + u16 \<times> u8 list" where
  "follow_tags left ether_type rest =
     (if is_vlan_tag ether_type then
        case left of
          0 \<Rightarrow> Inl (TooManyVlanTags MAX_VLAN_TAGS)
        | Suc left' \<Rightarrow>
            (case be16 rest 2 of
               None \<Rightarrow> Inr (ether_type, [])
             | Some following \<Rightarrow>
                 (case get_from rest 4 of
                    None \<Rightarrow> Inr (ether_type, [])
                  | Some after \<Rightarrow> follow_tags left' following after))
      else Inr (ether_type, rest))"

declare follow_tags.simps [simp del]

definition follow_vlan_tags :: "u16 \<Rightarrow> u8 list \<Rightarrow> CaptureFrameError + u16 \<times> u8 list" where
  "follow_vlan_tags = follow_tags MAX_VLAN_TAGS"

section \<open>The layers\<close>

definition decode_tcp :: "u8 list \<Rightarrow> Address \<Rightarrow> Address \<Rightarrow> bool \<Rightarrow> CaptureFrameError + Decoded" where
  "decode_tcp segment source destination truncated =
     (case (be16 segment 0, be16 segment 2) of
        (Some source_port, Some destination_port) \<Rightarrow>
          (case (be32 segment 4, be32 segment 8) of
             (Some sequence, Some acknowledgement) \<Rightarrow>
               (case get segment 12 of
                  None \<Rightarrow> Inr (NotDecoded TruncatedBeforeHeaders)
                | Some offset_byte \<Rightarrow>
                    (let header_len = unat (drop_bit 4 offset_byte) * 4 in
                     if header_len < 20 then Inl (HeaderTooShort ''TCP'' header_len 20)
                     else
                       case get segment 13 of
                         None \<Rightarrow> Inr (NotDecoded TruncatedBeforeHeaders)
                       | Some flags \<Rightarrow>
                           (let short_by_capture = header_len > length segment;
                                payload = (case get_from segment header_len of Some p \<Rightarrow> p | None \<Rightarrow> [])
                            in Inr (Tcp \<lparr>sg_source = \<lparr>ep_address = source, ep_port = source_port\<rparr>,
                                         sg_destination = \<lparr>ep_address = destination, ep_port = destination_port\<rparr>,
                                         sg_sequence = sequence,
                                         sg_acknowledgement = acknowledgement,
                                         sg_payload = payload,
                                         sg_syn = (flags AND 0x02 \<noteq> 0),
                                         sg_ack = (flags AND 0x10 \<noteq> 0),
                                         sg_fin = (flags AND 0x01 \<noteq> 0),
                                         sg_rst = (flags AND 0x04 \<noteq> 0),
                                         sg_truncated = (truncated \<or> short_by_capture)\<rparr>))))
           | _ \<Rightarrow> Inr (NotDecoded TruncatedBeforeHeaders))
      | _ \<Rightarrow> Inr (NotDecoded TruncatedBeforeHeaders))"

definition decode_body :: "u8 \<Rightarrow> u8 list \<Rightarrow> Address \<Rightarrow> Address \<Rightarrow> bool \<Rightarrow> CaptureFrameError + Decoded" where
  "decode_body protocol body source destination truncated =
     (if protocol = PROTOCOL_TCP then decode_tcp body source destination truncated
      else Inr (NotDecoded (NotProtocol protocol)))"

definition decode_ipv4 :: "u8 list \<Rightarrow> bool \<Rightarrow> CaptureFrameError + Decoded" where
  "decode_ipv4 packet truncated =
     (case get packet 0 of
        None \<Rightarrow> Inr (NotDecoded TruncatedBeforeHeaders)
      | Some first \<Rightarrow>
          (let header_len = unat (first AND 0x0F) * 4 in
           if header_len < 20 then Inl (HeaderTooShort ''IPv4'' header_len 20)
           else
             case (be16 packet 2, get packet 9, be16 packet 6) of
               (Some total_field, Some protocol, Some fragment_word) \<Rightarrow>
                 (let total_length = unat total_field;
                      more_fragments = (fragment_word AND 0x2000 \<noteq> 0);
                      fragment_offset = ucast (fragment_word AND 0x1FFF) * 8
                  in if more_fragments \<or> fragment_offset \<noteq> 0
                     then Inr (NotDecoded (Fragmented fragment_offset more_fragments))
                     else
                       case (get_range packet 12 16, get_range packet 16 20) of
                         (Some source, Some destination) \<Rightarrow>
                           if total_length < header_len
                           then Inl (HeaderTooShort ''IPv4'' total_length header_len)
                           else
                             (case get_range packet header_len (min total_length (length packet)) of
                                None \<Rightarrow> Inr (NotDecoded TruncatedBeforeHeaders)
                              | Some body \<Rightarrow>
                                  decode_body protocol body (V4 source) (V4 destination)
                                              (truncated \<or> total_length > length packet))
                       | _ \<Rightarrow> Inr (NotDecoded TruncatedBeforeHeaders))
             | _ \<Rightarrow> Inr (NotDecoded TruncatedBeforeHeaders)))"

definition decode_ipv6 :: "u8 list \<Rightarrow> bool \<Rightarrow> CaptureFrameError + Decoded" where
  "decode_ipv6 packet truncated =
     (case (be16 packet 4, get packet 6) of
        (Some payload_length, Some next_header) \<Rightarrow>
          (case (get_range packet 8 24, get_range packet 24 40) of
             (Some source, Some destination) \<Rightarrow>
               (let declared_end = 40 + unat payload_length in
                case get_range packet 40 (min declared_end (length packet)) of
                  None \<Rightarrow> Inr (NotDecoded TruncatedBeforeHeaders)
                | Some body \<Rightarrow>
                    decode_body next_header body (V6 source) (V6 destination)
                                (truncated \<or> declared_end > length packet))
           | _ \<Rightarrow> Inr (NotDecoded TruncatedBeforeHeaders))
      | _ \<Rightarrow> Inr (NotDecoded TruncatedBeforeHeaders))"

text \<open>
  The link header: the type and what follows it, or the answer the code returns early. An Ethernet
  frame of fourteen bytes always has its type, so the code's error there is unreachable; it is kept.
\<close>

definition link_header :: "LinkType \<Rightarrow> u8 list \<Rightarrow> CaptureFrameError + NotDecoded + u16 \<times> u8 list" where
  "link_header link frame =
     (if link = LINK_ETHERNET then
        (case get_from frame 14 of
           None \<Rightarrow> Inr (Inl TruncatedBeforeHeaders)
         | Some rest \<Rightarrow>
             (case be16 frame 12 of
                None \<Rightarrow> Inl (LengthPastEndOfFrame ''Ethernet'' 14 (length frame))
              | Some ether_type \<Rightarrow> map_sum id Inr (follow_vlan_tags ether_type rest)))
      else if link = LINK_LINUX_SLL then
        (case (get_from frame 16, be16 frame 14) of
           (Some rest, Some ether_type) \<Rightarrow> map_sum id Inr (follow_vlan_tags ether_type rest)
         | _ \<Rightarrow> Inr (Inl TruncatedBeforeHeaders))
      else if link = LINK_LINUX_SLL2 then
        (case (get_from frame 20, be16 frame 0) of
           (Some rest, Some ether_type) \<Rightarrow> map_sum id Inr (follow_vlan_tags ether_type rest)
         | _ \<Rightarrow> Inr (Inl TruncatedBeforeHeaders))
      else if link = LINK_RAW then
        and_then (version_ether_type frame) (\<lambda>t. Inr (Inr (t, frame)))
      else if link = LINK_IPV4 then Inr (Inr (ETHERTYPE_IPV4, frame))
      else if link = LINK_IPV6 then Inr (Inr (ETHERTYPE_IPV6, frame))
      else if link = LINK_NULL then
        (case (get_from frame 4, get_range frame 0 4) of
           (Some rest, Some [a, b, c, d]) \<Rightarrow>
             (case null_protocol (from_be_bytes32 d c b a) of
                Some t \<Rightarrow> Inr (Inr (t, rest))
              | None \<Rightarrow>
                  (case null_protocol (from_be_bytes32 a b c d) of
                     Some t \<Rightarrow> Inr (Inr (t, rest))
                   | None \<Rightarrow> Inr (Inl (NotEtherType 0))))
         | _ \<Rightarrow> Inr (Inl TruncatedBeforeHeaders))
      else Inr (Inl (NotLinkType link)))"

definition decode_network :: "u16 \<Rightarrow> u8 list \<Rightarrow> bool \<Rightarrow> CaptureFrameError + Decoded" where
  "decode_network ether_type rest truncated =
     (if ether_type = ETHERTYPE_IPV4 then decode_ipv4 rest truncated
      else if ether_type = ETHERTYPE_IPV6 then decode_ipv6 rest truncated
      else if is_vlan_tag ether_type then Inr (NotDecoded TruncatedBeforeHeaders)
      else Inr (NotDecoded (NotEtherType ether_type)))"

definition decode :: "LinkType \<Rightarrow> u8 list \<Rightarrow> bool \<Rightarrow> CaptureFrameError + Decoded" where
  "decode link frame truncated =
     (case link_header link frame of
        Inl e \<Rightarrow> Inl e
      | Inr (Inl what) \<Rightarrow> Inr (NotDecoded what)
      | Inr (Inr (ether_type, rest)) \<Rightarrow> decode_network ether_type rest truncated)"

section \<open>Padding\<close>

lemma get_range_append [simp]: "get_range xs a b = Some ys \<Longrightarrow> get_range (xs @ zs) a b = Some ys"
  by (auto simp: get_range_def split: if_splits)

lemma get_append: "get xs i = Some x \<Longrightarrow> get (xs @ zs) i = Some x"
  by (auto simp: nth_append)

lemma get_from_append: "get_from xs k = Some ys \<Longrightarrow> get_from (xs @ zs) k = Some (ys @ zs)"
  by (auto simp: get_from_def split: if_splits)

lemma be16_append: "be16 xs k = Some w \<Longrightarrow> be16 (xs @ zs) k = Some w"
  by (auto simp: be16_def split: option.splits list.splits dest: get_range_append [where zs = zs] simp del: get_range_eq_Some get_range_eq_None)

lemma follow_tags_append:
  "follow_tags n t rest = Inr (t', rest') \<Longrightarrow> \<not> is_vlan_tag t' \<Longrightarrow> follow_tags n t (rest @ pad) = Inr (t', rest' @ pad)"
proof (induction n t rest rule: follow_tags.induct)
  case (1 left ether_type rest)
  show ?case
  proof (cases "is_vlan_tag ether_type")
    case tag: True
    with 1(2,3) obtain left' following after where
      step: "left = Suc left'" "be16 rest 2 = Some following" "get_from rest 4 = Some after"
            "follow_tags left' following after = Inr (t', rest')"
      by (auto simp: follow_tags.simps [of left] split: nat.splits option.splits)
    from 1(1) [OF tag step(1-3) step(4) 1(3)] show ?thesis
      using step tag by (simp add: follow_tags.simps [of "Suc left'"] be16_append get_from_append)
  next
    case False
    with 1(2) show ?thesis by (simp add: follow_tags.simps [of left])
  qed
qed

lemma version_ether_type_append:
  "version_ether_type frame = Inr t \<Longrightarrow> version_ether_type (frame @ pad) = Inr t"
  by (cases frame) (auto simp: version_ether_type_def Let_def split: if_splits)

lemmas link_types = LINK_ETHERNET_def LINK_LINUX_SLL_def LINK_LINUX_SLL2_def LINK_RAW_def LINK_IPV4_def LINK_IPV6_def LINK_NULL_def

text \<open>The links whose header carries a type at \<open>j\<close> and ends at \<open>k\<close>.\<close>

lemma link_header_tagged:
  assumes "(link, j, k) \<in> {(LINK_ETHERNET, 12, 14), (LINK_LINUX_SLL, 14, 16), (LINK_LINUX_SLL2, 0, 20)}"
  shows "(link_header link frame = Inr (Inr (t, rest))) =
         (\<exists>t0 rest0. get_from frame k = Some rest0 \<and> be16 frame j = Some t0 \<and> follow_vlan_tags t0 rest0 = Inr (t, rest))"
proof -
  have map: "(map_sum id Inr x = Inr (Inr y)) = (x = Inr y)" for x :: "CaptureFrameError + u16 \<times> u8 list" and y
    by (cases x) auto
  from assms show ?thesis
    by (elim insertE emptyE) (simp_all add: link_header_def link_types map split: option.splits)
qed

lemma link_header_append:
  assumes "link_header link frame = Inr (Inr (t, rest))" "\<not> is_vlan_tag t"
  shows "link_header link (frame @ pad) = Inr (Inr (t, rest @ pad))"
proof -
  consider j k :: nat where "(link, j, k) \<in> {(LINK_ETHERNET, 12, 14), (LINK_LINUX_SLL, 14, 16), (LINK_LINUX_SLL2, 0, 20)}"
    | "link = LINK_RAW" | "link = LINK_IPV4 \<or> link = LINK_IPV6" | "link = LINK_NULL"
    using assms(1) by (simp add: link_header_def split: if_splits) blast+
  then show ?thesis
  proof cases
    case (1 j k)
    from assms(1) obtain t0 rest0 where h: "get_from frame k = Some rest0" "be16 frame j = Some t0" "follow_vlan_tags t0 rest0 = Inr (t, rest)"
      unfolding link_header_tagged [OF 1] by blast
    from get_from_append [OF h(1), of pad] be16_append [OF h(2), of pad] follow_tags_append [OF h(3) [unfolded follow_vlan_tags_def] assms(2), of pad]
    show ?thesis unfolding link_header_tagged [OF 1] follow_vlan_tags_def by blast
  next
    case 2
    with assms(1) show ?thesis by (auto simp: link_header_def link_types dest: version_ether_type_append)
  next
    case 3
    with assms(1) show ?thesis by (auto simp: link_header_def link_types)
  next
    case 4
    with assms(1) obtain a b c d where "get_from frame 4 = Some rest" "get_range frame 0 4 = Some [a, b, c, d]"
      by (auto simp: link_header_def link_types split: option.splits list.splits simp del: get_range_eq_Some get_range_eq_None null_protocol.simps)
    from get_from_append [OF this(1), of pad] get_range_append [OF this(2), of pad] this assms(1) 4 show ?thesis
      by (auto simp: link_header_def link_types split: option.splits simp del: get_range_eq_Some get_range_eq_None null_protocol.simps)
  qed
qed

text \<open>The transport layer reports a cut that was handed to it.\<close>

lemma decode_body_truncated: "decode_body p body a b True = Inr (Tcp s) \<Longrightarrow> sg_truncated s"
  by (auto simp: decode_body_def decode_tcp_def Let_def split: option.splits if_splits)

lemma decode_ipv4_append:
  assumes "decode_ipv4 packet tr = Inr (Tcp s)" "\<not> sg_truncated s"
  shows "decode_ipv4 (packet @ pad) tr = Inr (Tcp s)"
proof -
  obtain first total_field protocol fragment source destination body where
    f: "get packet 0 = Some first" "be16 packet 2 = Some total_field" "get packet 9 = Some protocol" "be16 packet 6 = Some fragment"
       "get_range packet 12 16 = Some source" "get_range packet 16 20 = Some destination"
       "get_range packet (unat (first AND 0x0F) * 4) (min (unat total_field) (length packet)) = Some body"
    and len: "\<not> unat (first AND 0x0F) * 4 < 20" "\<not> unat total_field < unat (first AND 0x0F) * 4"
    and frag: "fragment AND 0x2000 = 0" "ucast (fragment AND 0x1FFF) * 8 = (0 :: u32)"
    and body: "decode_body protocol body (V4 source) (V4 destination) (tr \<or> unat total_field > length packet) = Inr (Tcp s)"
    using assms(1)
    by (auto simp: decode_ipv4_def Let_def split: option.splits if_splits simp del: get_eq_Some get_eq_None get_range_eq_Some get_range_eq_None)
  have whole: "unat total_field \<le> length packet"
    using body assms(2) decode_body_truncated by (metis not_le_imp_less)
  then have m: "min (unat total_field) (length packet) = unat total_field" "min (unat total_field) (length (packet @ pad)) = unat total_field"
    by simp_all
  note g = f(7) [unfolded m(1)]
  show ?thesis
    using f(1,3) [THEN get_append [where zs = pad]] f(2,4) [THEN be16_append [where zs = pad]]
      f(5,6) [THEN get_range_append [where zs = pad]] g [THEN get_range_append [where zs = pad]] len frag body whole
    by (simp add: decode_ipv4_def Let_def m del: get_eq_Some get_eq_None get_range_eq_Some get_range_eq_None)
qed

lemma decode_ipv6_append:
  assumes "decode_ipv6 packet tr = Inr (Tcp s)" "\<not> sg_truncated s"
  shows "decode_ipv6 (packet @ pad) tr = Inr (Tcp s)"
proof -
  obtain field following source destination body where
    f: "be16 packet 4 = Some field" "get packet 6 = Some following"
       "get_range packet 8 24 = Some source" "get_range packet 24 40 = Some destination"
       "get_range packet 40 (min (40 + unat field) (length packet)) = Some body"
    and body: "decode_body following body (V6 source) (V6 destination) (tr \<or> 40 + unat field > length packet) = Inr (Tcp s)"
    using assms(1)
    by (auto simp: decode_ipv6_def Let_def split: option.splits simp del: get_eq_Some get_eq_None get_range_eq_Some get_range_eq_None)
  have whole: "40 + unat field \<le> length packet"
    using body assms(2) decode_body_truncated by (metis not_le_imp_less)
  then have m: "min (40 + unat field) (length packet) = 40 + unat field" "min (40 + unat field) (length (packet @ pad)) = 40 + unat field"
    by simp_all
  note g = f(5) [unfolded m(1)]
  show ?thesis
    using f(2) [THEN get_append [where zs = pad]] f(1) [THEN be16_append [where zs = pad]]
      f(3,4) [THEN get_range_append [where zs = pad]] g [THEN get_range_append [where zs = pad]] body whole
    by (simp add: decode_ipv6_def Let_def m del: get_eq_Some get_eq_None get_range_eq_Some get_range_eq_None)
qed

lemma padding_kept:
  assumes "decode link frame truncated = Inr (Tcp s)" "\<not> sg_truncated s"
  shows "decode link (frame @ padding) truncated = Inr (Tcp s)"
proof -
  obtain t rest where h: "link_header link frame = Inr (Inr (t, rest))" and n: "decode_network t rest truncated = Inr (Tcp s)"
    using assms(1) by (auto simp: decode_def split: sum.splits)
  have t: "t = ETHERTYPE_IPV4 \<or> t = ETHERTYPE_IPV6" using n by (auto simp: decode_network_def split: if_splits)
  then have "\<not> is_vlan_tag t"
    by (auto simp: is_vlan_tag_def ETHERTYPE_IPV4_def ETHERTYPE_IPV6_def ETHERTYPE_C_TAG_def ETHERTYPE_S_TAG_def ETHERTYPE_S_TAG_ALT_def)
  moreover have "decode_network t (rest @ padding) truncated = Inr (Tcp s)"
    using t n decode_ipv4_append [OF _ assms(2)] decode_ipv6_append [OF _ assms(2)]
    by (auto simp: decode_network_def ETHERTYPE_IPV4_def ETHERTYPE_IPV6_def split: if_splits)
  ultimately show ?thesis using link_header_append [OF h] by (simp add: decode_def)
qed

text \<open>
  Claim C36. Bytes that follow a packet in its frame never become payload: on every link type, a frame
  that decodes to a segment that was not cut short decodes to the same segment, with the same payload,
  whatever is appended to it, such as the padding of a short Ethernet frame.
\<close>

theorem padding_never_becomes_payload:
  assumes "decode link frame truncated = Inr (Tcp s)" "\<not> sg_truncated s"
  shows "decode link (frame @ padding) truncated = Inr (Tcp s)"
  using assms by (rule padding_kept)

section \<open>Decoding inverts the headers\<close>

text \<open>
  A TCP segment on Ethernet as a sender builds it: up to four VLAN tags, an IPv4 header with options,
  a TCP header with options, and a payload. The fields the decoder does not look at are arbitrary.
\<close>

record wire_frame =
  wf_macs :: "u8 list"
  wf_tags :: "(u16 \<times> u16) list"
  wf_tos :: u8
  wf_ident :: "u8 list"
  wf_dont_fragment :: bool
  wf_ttl :: u8
  wf_ip_checksum :: "u8 list"
  wf_source :: "u8 list"
  wf_destination :: "u8 list"
  wf_ip_options :: "u8 list"
  wf_source_port :: u16
  wf_destination_port :: u16
  wf_sequence :: u32
  wf_acknowledgement :: u32
  wf_flags :: u8
  wf_window :: "u8 list"
  wf_tcp_options :: "u8 list"
  wf_payload :: "u8 list"

definition tcp_bytes :: "wire_frame \<Rightarrow> u8 list" where
  "tcp_bytes w = to_be_bytes16 (wf_source_port w) @ to_be_bytes16 (wf_destination_port w) @ to_be_bytes32 (wf_sequence w)
     @ to_be_bytes32 (wf_acknowledgement w) @ [of_nat (16 * (5 + length (wf_tcp_options w) div 4)), wf_flags w]
     @ wf_window w @ wf_tcp_options w @ wf_payload w"

definition ipv4_bytes :: "wire_frame \<Rightarrow> u8 list" where
  "ipv4_bytes w = [of_nat (64 + 5 + length (wf_ip_options w) div 4), wf_tos w]
     @ to_be_bytes16 (of_nat (20 + length (wf_ip_options w) + length (tcp_bytes w))) @ wf_ident w
     @ to_be_bytes16 (if wf_dont_fragment w then 0x4000 else 0) @ [wf_ttl w, 6] @ wf_ip_checksum w
     @ wf_source w @ wf_destination w @ wf_ip_options w @ tcp_bytes w"

definition tag_bytes :: "(u16 \<times> u16) list \<Rightarrow> u8 list" where
  "tag_bytes tags = concat (map (\<lambda>(t, control). to_be_bytes16 t @ to_be_bytes16 control) tags)"

definition ether_bytes :: "wire_frame \<Rightarrow> u8 list" where
  "ether_bytes w = wf_macs w @ tag_bytes (wf_tags w) @ to_be_bytes16 ETHERTYPE_IPV4 @ ipv4_bytes w"

definition wire_ok :: "wire_frame \<Rightarrow> bool" where
  "wire_ok w = (length (wf_macs w) = 12 \<and> length (wf_tags w) \<le> MAX_VLAN_TAGS \<and> list_all (\<lambda>(t, _). is_vlan_tag t) (wf_tags w)
     \<and> length (wf_ident w) = 2 \<and> length (wf_ip_checksum w) = 2 \<and> length (wf_source w) = 4 \<and> length (wf_destination w) = 4
     \<and> length (wf_window w) = 6 \<and> length (wf_ip_options w) \<in> {0, 4, 8, 12, 16, 20, 24, 28, 32, 36, 40}
     \<and> length (wf_tcp_options w) \<in> {0, 4, 8, 12, 16, 20, 24, 28, 32, 36, 40}
     \<and> 20 + length (wf_ip_options w) + length (tcp_bytes w) < 65536)"

definition wire_segment :: "wire_frame \<Rightarrow> Segment" where
  "wire_segment w =
     \<lparr>sg_source = \<lparr>ep_address = V4 (wf_source w), ep_port = wf_source_port w\<rparr>,
      sg_destination = \<lparr>ep_address = V4 (wf_destination w), ep_port = wf_destination_port w\<rparr>,
      sg_sequence = wf_sequence w, sg_acknowledgement = wf_acknowledgement w, sg_payload = wf_payload w,
      sg_syn = bit (wf_flags w) 1, sg_ack = bit (wf_flags w) 4, sg_fin = bit (wf_flags w) 0, sg_rst = bit (wf_flags w) 2,
      sg_truncated = False\<rparr>"

text \<open>A field read where it was written.\<close>

lemma be16_at: "length pre = k \<Longrightarrow> be16 (pre @ to_be_bytes16 w @ post) k = Some w"
  by (simp add: be16_def get_range_def to_be_bytes16_def)

lemma be32_at: "length pre = k \<Longrightarrow> be32 (pre @ to_be_bytes32 w @ post) k = Some w"
  by (simp add: be32_def get_range_def to_be_bytes32_def)

lemma get_at: "length pre = k \<Longrightarrow> get (pre @ x # post) k = Some x"
  by (auto simp: nth_append)

lemma get_range_at: "length pre = k \<Longrightarrow> k + length xs = m \<Longrightarrow> get_range (pre @ xs @ post) k m = Some xs"
  by (auto simp: get_range_def)

lemma flag_bits:
  "(w AND 0x01 \<noteq> 0) = bit (w :: u8) 0" "(w AND 0x02 \<noteq> 0) = bit w 1" "(w AND 0x04 \<noteq> 0) = bit w 2" "(w AND 0x10 \<noteq> 0) = bit w 4"
proof -
  have "(w AND 2 ^ n \<noteq> 0) = bit w n" if "n < 8" for n
    using that by (simp add: and_exp_eq_0_iff_not_bit)
  from this [of 0] this [of 1] this [of 2] this [of 4]
  show "(w AND 0x01 \<noteq> 0) = bit w 0" "(w AND 0x02 \<noteq> 0) = bit w 1" "(w AND 0x04 \<noteq> 0) = bit w 2" "(w AND 0x10 \<noteq> 0) = bit w 4"
    by simp_all
qed

lemma decode_tcp_bytes:
  assumes "wire_ok w"
  shows "decode_tcp (tcp_bytes w) (V4 (wf_source w)) (V4 (wf_destination w)) False = Inr (Tcp (wire_segment w))"
proof -
  let ?opt = "of_nat (16 * (5 + length (wf_tcp_options w) div 4)) :: u8"
  have len: "unat (drop_bit 4 ?opt) * 4 = 20 + length (wf_tcp_options w)"
    using assms by (auto simp: wire_ok_def)
  have win: "length (wf_window w) = 6" using assms by (simp add: wire_ok_def)
  let ?t = "[?opt, wf_flags w] @ wf_window w @ wf_tcp_options w @ wf_payload w"
  have ports: "be16 (tcp_bytes w) 0 = Some (wf_source_port w)" "be16 (tcp_bytes w) 2 = Some (wf_destination_port w)"
    using be16_at [of "[]" 0] be16_at [of "to_be_bytes16 (wf_source_port w)" 2] by (simp_all add: tcp_bytes_def)
  have nums: "be32 (tcp_bytes w) 4 = Some (wf_sequence w)" "be32 (tcp_bytes w) 8 = Some (wf_acknowledgement w)"
    using be32_at [of "to_be_bytes16 (wf_source_port w) @ to_be_bytes16 (wf_destination_port w)" 4]
      be32_at [of "to_be_bytes16 (wf_source_port w) @ to_be_bytes16 (wf_destination_port w) @ to_be_bytes32 (wf_sequence w)" 8]
    by (simp_all add: tcp_bytes_def)
  let ?pre = "to_be_bytes16 (wf_source_port w) @ to_be_bytes16 (wf_destination_port w) @ to_be_bytes32 (wf_sequence w) @ to_be_bytes32 (wf_acknowledgement w)"
  have octets: "get (tcp_bytes w) 12 = Some ?opt" "get (tcp_bytes w) 13 = Some (wf_flags w)"
    using get_at [of ?pre 12] get_at [of "?pre @ [?opt]" 13] by (simp_all add: tcp_bytes_def del: get_eq_Some)
  have "get_from (tcp_bytes w) (20 + length (wf_tcp_options w)) = Some (wf_payload w)" "\<not> 20 + length (wf_tcp_options w) > length (tcp_bytes w)"
    using win by (simp_all add: get_from_def tcp_bytes_def drop_Cons')
  with ports nums octets len show ?thesis
    by (simp add: decode_tcp_def Let_def wire_segment_def flag_bits del: get_eq_Some get_eq_None)
qed

lemma decode_ipv4_bytes:
  assumes "wire_ok w"
  shows "decode_ipv4 (ipv4_bytes w) False = Inr (Tcp (wire_segment w))"
proof -
  let ?first = "of_nat (64 + 5 + length (wf_ip_options w) div 4) :: u8"
    and ?total = "of_nat (20 + length (wf_ip_options w) + length (tcp_bytes w)) :: u16"
    and ?frag = "if wf_dont_fragment w then 0x4000 else 0 :: u16"
  have ok: "length (wf_ident w) = 2" "length (wf_ip_checksum w) = 2" "length (wf_source w) = 4" "length (wf_destination w) = 4"
    and small: "20 + length (wf_ip_options w) + length (tcp_bytes w) < 65536"
    using assms by (simp_all add: wire_ok_def)
  have ihl: "unat (?first AND 0x0F) * 4 = 20 + length (wf_ip_options w)"
    using assms by (auto simp: wire_ok_def)
  have total_len: "unat ?total = 20 + length (wf_ip_options w) + length (tcp_bytes w)"
    by (rule unat_of_nat_u16 [OF small])
  have len: "length (ipv4_bytes w) = 20 + length (wf_ip_options w) + length (tcp_bytes w)"
    using ok by (simp add: ipv4_bytes_def)
  let ?a = "[?first, wf_tos w]" let ?b = "?a @ to_be_bytes16 ?total @ wf_ident w"
  let ?c = "?b @ to_be_bytes16 ?frag @ [wf_ttl w]" let ?d = "?c @ [6] @ wf_ip_checksum w"
  have fields: "get (ipv4_bytes w) 0 = Some ?first" "be16 (ipv4_bytes w) 2 = Some ?total" "be16 (ipv4_bytes w) 6 = Some ?frag"
    "get (ipv4_bytes w) 9 = Some PROTOCOL_TCP" "get_range (ipv4_bytes w) 12 16 = Some (wf_source w)"
    "get_range (ipv4_bytes w) 16 20 = Some (wf_destination w)"
    "get_range (ipv4_bytes w) (20 + length (wf_ip_options w)) (20 + length (wf_ip_options w) + length (tcp_bytes w)) = Some (tcp_bytes w)"
    using ok get_at [of "[]" 0 ?first] be16_at [of ?a 2 ?total] be16_at [of ?b 6 ?frag] get_at [of ?c 9 6] get_range_at [of ?d 12 "wf_source w" 16]
      get_range_at [of "?d @ wf_source w" 16 "wf_destination w" 20]
      get_range_at [of "?d @ wf_source w @ wf_destination w @ wf_ip_options w" "20 + length (wf_ip_options w)" "tcp_bytes w"
                       "20 + length (wf_ip_options w) + length (tcp_bytes w)" "[]"]
    by (simp_all add: ipv4_bytes_def PROTOCOL_TCP_def del: get_eq_Some get_range_eq_Some of_nat_add)
  have "(?frag AND 0x2000 = 0) \<and> ucast (?frag AND 0x1FFF) * 8 = (0 :: u32)" by simp
  then show ?thesis
    using fields ihl total_len len decode_tcp_bytes [OF assms]
    by (simp add: decode_ipv4_def Let_def decode_body_def del: get_eq_Some get_eq_None get_range_eq_Some get_range_eq_None of_nat_add)
qed

lemma follow_tags_bytes:
  assumes "list_all (\<lambda>(t, _). is_vlan_tag t) tags" "length tags \<le> n" "\<not> is_vlan_tag final"
  shows "\<exists>t0 r0. tag_bytes tags @ to_be_bytes16 final @ rest = to_be_bytes16 t0 @ r0 \<and> follow_tags n t0 r0 = Inr (final, rest)"
  using assms
proof (induction tags arbitrary: n)
  case Nil
  then show ?case by (auto simp: tag_bytes_def follow_tags.simps [of n] intro!: exI [of _ final] exI [of _ rest])
next
  case (Cons e tags)
  obtain t control where e: "e = (t, control)" by (cases e)
  obtain m where n: "n = Suc m" "length tags \<le> m" using Cons.prems(2) by (cases n) auto
  from Cons.IH [of m] Cons.prems n obtain t0 r0 where
    b: "tag_bytes tags @ to_be_bytes16 final @ rest = to_be_bytes16 t0 @ r0" and f: "follow_tags m t0 r0 = Inr (final, rest)"
    by auto
  let ?r = "to_be_bytes16 control @ to_be_bytes16 t0 @ r0"
  have "be16 ?r 2 = Some t0" using be16_at [of "to_be_bytes16 control" 2] by simp
  moreover have "get_from ?r 4 = Some r0" by (simp add: get_from_def)
  ultimately have "follow_tags n t ?r = Inr (final, rest)"
    using Cons.prems(1) f by (simp add: follow_tags.simps [of "Suc m"] n e)
  moreover have "tag_bytes (e # tags) @ to_be_bytes16 final @ rest = to_be_bytes16 t @ ?r"
    using b by (simp add: tag_bytes_def e)
  ultimately show ?case by blast
qed

text \<open>
  Claim C37. A segment put in a frame field by field is decoded to exactly those fields: with up to four
  VLAN tags, any IPv4 and TCP options, and any padding after the packet, the decoder returns the two
  ends, the sequence and acknowledgement numbers, the flags and the payload that were sent.
\<close>

theorem decode_inverts_headers:
  assumes "wire_ok w"
  shows "decode LINK_ETHERNET (ether_bytes w @ padding) False = Inr (Tcp (wire_segment w))"
proof (rule padding_kept)
  have ip: "\<not> is_vlan_tag ETHERTYPE_IPV4"
    by (simp add: is_vlan_tag_def ETHERTYPE_IPV4_def ETHERTYPE_C_TAG_def ETHERTYPE_S_TAG_def ETHERTYPE_S_TAG_ALT_def)
  have tags: "list_all (\<lambda>(t, _). is_vlan_tag t) (wf_tags w)" "length (wf_tags w) \<le> MAX_VLAN_TAGS"
    using assms by (simp_all add: wire_ok_def)
  obtain t0 r0 where
    b: "tag_bytes (wf_tags w) @ to_be_bytes16 ETHERTYPE_IPV4 @ ipv4_bytes w = to_be_bytes16 t0 @ r0"
    and f: "follow_vlan_tags t0 r0 = Inr (ETHERTYPE_IPV4, ipv4_bytes w)"
    unfolding follow_vlan_tags_def using follow_tags_bytes [OF tags ip] by blast
  have m: "length (wf_macs w) = 12" using assms by (simp add: wire_ok_def)
  have e: "ether_bytes w = wf_macs w @ to_be_bytes16 t0 @ r0" by (simp add: ether_bytes_def b)
  have "get_from (ether_bytes w) 14 = Some r0" "be16 (ether_bytes w) 12 = Some t0"
    using m be16_at [OF m] by (simp_all add: e get_from_def)
  then have "link_header LINK_ETHERNET (ether_bytes w) = Inr (Inr (ETHERTYPE_IPV4, ipv4_bytes w))"
    using f link_header_tagged [of LINK_ETHERNET 12 14 "ether_bytes w" ETHERTYPE_IPV4 "ipv4_bytes w"] by blast
  then show "decode LINK_ETHERNET (ether_bytes w) False = Inr (Tcp (wire_segment w))"
    by (simp add: decode_def decode_network_def decode_ipv4_bytes [OF assms])
qed (simp add: wire_segment_def)

text \<open>A Modbus request of twelve bytes in a tagged frame, with options in both headers and padding.\<close>

definition sample_wire :: wire_frame where
  "sample_wire =
     \<lparr>wf_macs = replicate 12 1, wf_tags = [(0x88A8, 5), (0x8100, 7)], wf_tos = 0, wf_ident = [0, 1], wf_dont_fragment = True,
      wf_ttl = 64, wf_ip_checksum = [0, 0], wf_source = [10, 0, 0, 1], wf_destination = [10, 0, 0, 2],
      wf_ip_options = [1, 1, 1, 0], wf_source_port = 49152, wf_destination_port = 502, wf_sequence = 1000,
      wf_acknowledgement = 2000, wf_flags = 0x18, wf_window = [1, 0, 0, 0, 0, 0], wf_tcp_options = [1, 1, 1, 1],
      wf_payload = [0, 1, 0, 0, 0, 6, 1, 3, 0, 0, 0, 2]\<rparr>"

lemma sample_wire_ok: "wire_ok sample_wire"
  by (simp add: wire_ok_def sample_wire_def MAX_VLAN_TAGS_def is_vlan_tag_def ETHERTYPE_C_TAG_def ETHERTYPE_S_TAG_def tcp_bytes_def)

theorem decode_inverts_headers_witness:
  "wire_ok sample_wire \<and> decode LINK_ETHERNET (ether_bytes sample_wire @ [0, 0, 0]) False = Inr (Tcp (wire_segment sample_wire))
   \<and> sg_payload (wire_segment sample_wire) = [0, 1, 0, 0, 0, 6, 1, 3, 0, 0, 0, 2]"
  using decode_inverts_headers [OF sample_wire_ok, of "[0, 0, 0]"] sample_wire_ok
  by (simp add: wire_segment_def sample_wire_def)

text \<open>A bare acknowledgement in a raw IPv4 capture: six bytes of padding are not six bytes of payload.\<close>

definition bare_ack :: "u8 list" where
  "bare_ack = [0x45, 0, 0, 40, 0, 0, 0, 0, 64, 6, 0, 0, 10, 0, 0, 1, 10, 0, 0, 2]
              @ [0xC0, 0, 1, 0xF6, 0, 0, 0, 9, 0, 0, 0, 5, 0x50, 0x10, 1, 0, 0, 0, 0, 0]"

lemma decode_bare_ack:
  "\<exists>s. decode LINK_IPV4 bare_ack False = Inr (Tcp s) \<and> sg_payload s = [] \<and> \<not> sg_truncated s"
  by (simp add: bare_ack_def decode_def link_header_def link_types decode_network_def decode_ipv4_def decode_body_def
      decode_tcp_def be16_def be32_def get_def get_range_def get_from_def PROTOCOL_TCP_def Let_def from_be_bytes16_def)

theorem padding_never_becomes_payload_witness:
  "\<exists>s. decode LINK_IPV4 (bare_ack @ [0, 0, 0, 0, 0, 0]) False = Inr (Tcp s) \<and> sg_payload s = []"
proof -
  obtain s where "decode LINK_IPV4 bare_ack False = Inr (Tcp s)" "sg_payload s = []" "\<not> sg_truncated s"
    using decode_bare_ack by blast
  with padding_never_becomes_payload [of LINK_IPV4 bare_ack False s "[0, 0, 0, 0, 0, 0]"] show ?thesis by blast
qed

end
