(* ===== verification/Capture_Stream.thy ===== *)
theory Capture_Stream
  imports Ordered_Map Capture_Frame
begin

text \<open>
  The reassembler of \<open>salman-capture/src/reassemble.rs\<close>: sequence numbers that wrap, absolute
  positions, held segments in a \<open>BTreeMap\<close>, the window of delivered bytes an overlap is compared
  with, the bound on held bytes, and one stream per directed pair of ends.

  Absolute positions and byte counts are \<open>u64\<close> and \<open>usize\<close>: natural numbers here, with the checked and
  saturating operations the code uses written out against \<open>2\<^sup>64 - 1\<close>.
\<close>

section \<open>Sequence space\<close>

definition MAX_PENDING_BYTES :: nat where "MAX_PENDING_BYTES = 64 * 1024"
definition RECENT_BYTES :: nat where "RECENT_BYTES = 1024"
definition u64_MAX :: nat where "u64_MAX = 2 ^ 64 - 1"
definition u32_MAX :: nat where "u32_MAX = 2 ^ 32 - 1"

definition before :: "u32 \<Rightarrow> u32 \<Rightarrow> bool" where
  "before a b = (b - a \<noteq> 0 \<and> b - a < 0x80000000)"

definition at_or_before :: "u32 \<Rightarrow> u32 \<Rightarrow> bool" where
  "at_or_before a b = (a = b \<or> before a b)"

definition distance :: "u32 \<Rightarrow> u32 \<Rightarrow> u32 option" where
  "distance a b = (let gap = b - a in if gap < 0x80000000 then Some gap else None)"

section \<open>Streams\<close>

datatype Note =
    MidStream u32
  | Retransmission nat
  | Duplicate nat
  | Unverified nat
  | OverlapDisagreed u32 nat
  | OutOfOrder nat
  | Gap u32 nat
  | Finished
  | Reset

datatype Comparison = Same | Different | Unknown

record Delivery =
  dl_bytes :: "u8 list"
  dl_notes :: "Note list"

definition Delivery_default :: Delivery where
  "Delivery_default = \<lparr>dl_bytes = [], dl_notes = []\<rparr>"

definition Delivery_is_empty :: "Delivery \<Rightarrow> bool" where
  "Delivery_is_empty d = (dl_bytes d = [] \<and> dl_notes d = [])"

definition add_note :: "Note \<Rightarrow> Delivery \<Rightarrow> Delivery" where
  "add_note n d = d\<lparr>dl_notes := dl_notes d @ [n]\<rparr>"

record Stream =
  st_next_seq :: u32
  st_next_abs :: nat
  st_started :: bool
  st_mid_stream :: bool
  st_finished :: bool
  st_pending :: "(nat, u8 list) btree"
  st_pending_bytes :: nat
  st_delivered :: nat
  st_recent :: "u8 list"
  st_recent_at :: nat

definition Stream_new :: Stream where
  "Stream_new = \<lparr>st_next_seq = 0, st_next_abs = 0, st_started = False, st_mid_stream = False, st_finished = False,
     st_pending = [], st_pending_bytes = 0, st_delivered = 0, st_recent = [], st_recent_at = 0\<rparr>"

text \<open>The wrapped difference, read as a signed distance.\<close>

definition Stream_absolute :: "Stream \<Rightarrow> u32 \<Rightarrow> nat option" where
  "Stream_absolute s sequence =
     (let delta = sint (sequence - st_next_seq s) in
      if delta \<ge> 0
      then (if st_next_abs s + nat delta \<le> u64_MAX then Some (st_next_abs s + nat delta) else None)
      else (if nat (- delta) \<le> st_next_abs s then Some (st_next_abs s - nat (- delta)) else None))"

definition Stream_advance :: "Stream \<Rightarrow> nat \<Rightarrow> Stream" where
  "Stream_advance s bytes =
     s\<lparr>st_next_seq := st_next_seq s + of_nat bytes, st_next_abs := min u64_MAX (st_next_abs s + bytes)\<rparr>"

section \<open>Placing, holding and delivering\<close>

definition deliver :: "Stream \<Rightarrow> u8 list \<Rightarrow> Delivery \<Rightarrow> Stream \<times> Delivery" where
  "deliver s bytes d =
     (let s1 = Stream_advance s (length bytes);
          recent = st_recent s1 @ bytes;
          excess = length recent - RECENT_BYTES
      in (s1\<lparr>st_recent := (if length recent > RECENT_BYTES then drop excess recent else recent),
             st_recent_at := (if length recent > RECENT_BYTES then st_recent_at s1 + excess else st_recent_at s1),
             st_delivered := st_delivered s1 + length bytes\<rparr>,
          d\<lparr>dl_bytes := dl_bytes d @ bytes\<rparr>))"

definition agrees_with_delivered :: "Stream \<Rightarrow> nat \<Rightarrow> u8 list \<Rightarrow> Comparison" where
  "agrees_with_delivered s start payload =
     (if payload = [] then Same
      else if start < st_recent_at s then Unknown
      else
        case get_from (st_recent s) (start - st_recent_at s) of
          None \<Rightarrow> Unknown
        | Some window \<Rightarrow>
            (let comparable = min (length window) (length payload) in
             if comparable = 0 then Unknown
             else if take comparable window = take comparable payload then Same
             else Different))"

definition hold :: "Stream \<Rightarrow> nat \<Rightarrow> u8 list \<Rightarrow> Delivery \<Rightarrow> Stream \<times> Delivery" where
  "hold s start payload d =
     (let ahead = min (start - st_next_abs s) u32_MAX in
      case map_of (st_pending s) start of
        Some held \<Rightarrow>
          if length held \<ge> length payload then
            (let shared = min (length payload) (length held);
                 same = (take shared held = take shared payload)
             in (s, add_note (if same then Duplicate (length payload)
                          else OverlapDisagreed (st_next_seq s + of_nat ahead) shared) d))
          else
            (let shared = length held;
                 same = (held = take shared payload)
             in (s\<lparr>st_pending := btree_insert start payload (st_pending s),
                   st_pending_bytes := st_pending_bytes s - length held + length payload\<rparr>,
                 add_note (if same then Retransmission shared
                       else OverlapDisagreed (st_next_seq s + of_nat ahead) shared) d))
      | None \<Rightarrow>
          (s\<lparr>st_pending := btree_insert start payload (st_pending s),
             st_pending_bytes := st_pending_bytes s + length payload\<rparr>,
           add_note (OutOfOrder ahead) d))"

definition accept :: "Stream \<Rightarrow> u32 \<Rightarrow> u8 list \<Rightarrow> Delivery \<Rightarrow> Stream \<times> Delivery" where
  "accept s sequence payload d =
     (case Stream_absolute s sequence of
        None \<Rightarrow> (s, add_note (OutOfOrder u32_MAX) d)
      | Some start \<Rightarrow>
          (let end_at = min u64_MAX (start + length payload); next_at = st_next_abs s in
           if end_at \<le> next_at then
             (s, add_note (case agrees_with_delivered s start payload of
                         Same \<Rightarrow> Duplicate (length payload)
                       | Different \<Rightarrow> OverlapDisagreed sequence (length payload)
                       | Unknown \<Rightarrow> Unverified (length payload)) d)
           else if start < next_at then
             (let overlap = next_at - start in
              case get_from payload overlap of
                None \<Rightarrow> (s, d)
              | Some fresh \<Rightarrow>
                  deliver s fresh
                    (add_note (case agrees_with_delivered s start (take overlap payload) of
                             Same \<Rightarrow> Retransmission overlap
                           | Different \<Rightarrow> OverlapDisagreed sequence overlap
                           | Unknown \<Rightarrow> Unverified overlap) d))
           else if start = next_at then deliver s payload d
           else hold s start payload d))"

definition pop_first :: "Stream \<Rightarrow> nat \<Rightarrow> u8 list \<Rightarrow> Stream" where
  "pop_first s start held =
     s\<lparr>st_pending := btree_remove start (st_pending s), st_pending_bytes := st_pending_bytes s - length held\<rparr>"

lemma pending_deliver [simp]: "st_pending (fst (deliver s bytes d)) = st_pending s"
  by (simp add: deliver_def Stream_advance_def Let_def)

function drain :: "Stream \<Rightarrow> Delivery \<Rightarrow> Stream \<times> Delivery" where
  "drain s d =
     (case first_key_value (st_pending s) of
        None \<Rightarrow> (s, d)
      | Some (start, held) \<Rightarrow>
          if start > st_next_abs s then (s, d)
          else
            (let s1 = pop_first s start held;
                 end_at = min u64_MAX (start + length held)
             in if end_at \<le> st_next_abs s then drain s1 d
                else (let fresh = (case get_from held (st_next_abs s - start) of Some f \<Rightarrow> f | None \<Rightarrow> []);
                          r = deliver s1 fresh d
                      in drain (fst r) (snd r))))"
  by pat_completeness auto
termination
  by (relation "measure (\<lambda>p. length (st_pending (fst p)))") (auto simp: pop_first_def length_btree_remove_first)

declare drain.simps [simp del]

text \<open>The loop that gives up on holes makes at most 64 turns.\<close>

fun give_up :: "nat \<Rightarrow> Stream \<Rightarrow> Delivery \<Rightarrow> Stream \<times> Delivery" where
  "give_up 0 s d = (s, d)"
| "give_up (Suc turns) s d =
     (if st_pending_bytes s \<le> MAX_PENDING_BYTES then (s, d)
      else
        case first_key_value (st_pending s) of
          None \<Rightarrow> (s, d)
        | Some (start, _) \<Rightarrow>
            if start \<le> st_next_abs s then (let r = drain s d in give_up turns (fst r) (snd r))
            else
              (let skipped = start - st_next_abs s;
                   d1 = add_note (Gap (st_next_seq s) (min skipped u32_MAX)) d;
                   s1 = Stream_advance s skipped;
                   s2 = s1\<lparr>st_recent := [], st_recent_at := st_next_abs s1\<rparr>;
                   r = drain s2 d1
               in give_up turns (fst r) (snd r)))"

definition bound_pending :: "Stream \<Rightarrow> Delivery \<Rightarrow> Stream \<times> Delivery" where
  "bound_pending = give_up 64"

section \<open>The reassembler\<close>

type_synonym Reassembler = "(Endpoint \<times> Endpoint) \<rightharpoonup> Stream"

definition Reassembler_new :: Reassembler where
  "Reassembler_new = Map.empty"

definition open_stream :: "Stream \<Rightarrow> Segment \<Rightarrow> Delivery \<Rightarrow> Stream \<times> Delivery" where
  "open_stream s segment d =
     (if sg_syn segment then
        (s\<lparr>st_next_seq := sg_sequence segment + 1, st_next_abs := 0, st_started := True, st_mid_stream := False,
           st_recent := [], st_recent_at := 0\<rparr>, d)
      else if \<not> st_started s then
        (s\<lparr>st_next_seq := sg_sequence segment, st_next_abs := 0, st_started := True, st_mid_stream := True, st_recent_at := 0\<rparr>,
         add_note (MidStream (sg_sequence segment)) d)
      else (s, d))"

definition take_payload :: "Stream \<Rightarrow> Segment \<Rightarrow> Delivery \<Rightarrow> Stream \<times> Delivery" where
  "take_payload s segment d =
     (if sg_payload segment = [] then (s, d)
      else
        let payload_at = (if sg_syn segment then sg_sequence segment + 1 else sg_sequence segment);
            a = accept s payload_at (sg_payload segment) d;
            b = drain (fst a) (snd a)
        in bound_pending (fst b) (snd b))"

definition push_stream :: "Stream \<Rightarrow> Segment \<Rightarrow> Stream \<times> Delivery" where
  "push_stream s segment =
     (let d = (if sg_rst segment then add_note Reset Delivery_default else Delivery_default);
          a = open_stream s segment d;
          b = take_payload (fst a) segment (snd a)
      in if sg_fin segment then ((fst b)\<lparr>st_finished := True\<rparr>, add_note Finished (snd b)) else b)"

definition Reassembler_push :: "Reassembler \<Rightarrow> Segment \<Rightarrow> Reassembler \<times> Delivery" where
  "Reassembler_push r segment =
     (let key = (sg_source segment, sg_destination segment);
          s = (case r key of Some s \<Rightarrow> s | None \<Rightarrow> Stream_new);
          a = push_stream s segment
      in (r(key \<mapsto> fst a), snd a))"

text \<open>A whole capture: the deliveries, each with the segment it came from.\<close>

fun push_all :: "Reassembler \<Rightarrow> Segment list \<Rightarrow> Reassembler \<times> (Segment \<times> Delivery) list" where
  "push_all r [] = (r, [])"
| "push_all r (g # gs) =
     (let a = Reassembler_push r g; b = push_all (fst a) gs in (fst b, (g, snd a) # snd b))"

end
