(* ===== verification/Capture_Delivery.thy ===== *)
theory Capture_Delivery
  imports Capture_Stream
begin

text \<open>
  What the reassembler delivers of a sender's bytes. The sender has a byte string \<open>D\<close>; each segment
  carries some part of it, at a sequence number counted from \<open>base\<close>. The segments of the stream may
  arrive in any order, overlapping, repeated and resegmented, mixed with those of other streams.
\<close>

section \<open>Parts of the sender's bytes\<close>

definition part :: "'a list \<Rightarrow> nat \<Rightarrow> nat \<Rightarrow> 'a list" where
  "part xs k n = take n (drop k xs)"

lemma length_part: "k + n \<le> length xs \<Longrightarrow> length (part xs k n) = n"
  by (simp add: part_def)

lemma take_part: "take m (part xs k n) = part xs k (min m n)"
  by (simp add: part_def)

lemma drop_part: "drop m (part xs k n) = part xs (k + m) (n - m)"
  by (simp add: part_def drop_take add.commute)

lemma part_append: "part xs k n @ part xs (k + n) m = part xs k (n + m)"
  by (simp add: part_def take_add) (simp add: add.commute)

lemma take_of_part: "v = part D p (length v) \<Longrightarrow> take m v = part D p (length (take m v))"
  by (metis length_take min.commute take_part)

lemma drop_of_part: "v = part D p (length v) \<Longrightarrow> drop m v = part D (p + m) (length (drop m v))"
  by (metis drop_part length_drop)

lemma nths_cong_below:
  assumes "\<And>i. i < length xs \<Longrightarrow> (i \<in> A) = (i \<in> B)"
  shows "nths xs A = nths xs B"
  unfolding nths_def using assms by (auto intro!: arg_cong [where f = "map fst"] filter_cong dest!: set_zip_rightD)

lemma nths_extend:
  assumes "G \<subseteq> {..<n}" "n \<le> m"
  shows "nths D ({..<m} - G) = nths D ({..<n} - G) @ part D n (m - n)"
proof (cases "n \<le> length D")
  case True
  have split: "D = take n D @ drop n D" by simp
  have "nths D ({..<m} - G) = nths (take n D) ({..<m} - G) @ nths (drop n D) {j. j + n \<in> {..<m} - G}"
    by (subst split, subst nths_append) (use True in simp)
  moreover have "nths (take n D) ({..<m} - G) = nths (take n D) ({..<n} - G)"
    by (rule nths_cong_below) (use assms(2) in auto)
  moreover have "nths D ({..<n} - G) = nths (take n D) ({..<n} - G) @ nths (drop n D) {j. j + n \<in> {..<n} - G}"
    by (subst split, subst nths_append) (use True in simp)
  moreover have "{j. j + n \<in> {..<n} - G} = {}" by auto
  moreover have "{j. j + n \<in> {..<m} - G} = {..<m - n}" using assms(1) by auto
  ultimately show ?thesis by (simp add: nths_upt_eq_take part_def)
next
  case False
  then have "nths D ({..<m} - G) = nths D ({..<n} - G)" by (intro nths_cong_below) (use assms(2) in auto)
  with False show ?thesis by (simp add: part_def)
qed

section \<open>Positions\<close>

text \<open>Within half the sequence space, the wrapped difference of two sequence numbers is their distance.\<close>

lemma sint_difference:
  assumes "p < 2 ^ 31" "n < 2 ^ 31"
  shows "sint (of_nat p - of_nat n :: u32) = int p - int n"
proof -
  have "(of_nat p - of_nat n :: u32) = of_int (int p - int n)" by simp
  moreover have "sint (of_int (int p - int n) :: u32) = int p - int n"
    unfolding sint_sbintrunc' using assms by (simp add: signed_take_bit_int_eq_self)
  ultimately show ?thesis by simp
qed

lemma unat_offset: "p < 2 ^ 31 \<Longrightarrow> unat (base + of_nat p - base :: u32) = p"
  by (simp add: unat_of_nat_u32)

definition at_position :: "u32 \<Rightarrow> Stream \<Rightarrow> bool" where
  "at_position base s = (st_next_seq s = base + of_nat (st_next_abs s) \<and> st_next_abs s < 2 ^ 31)"

lemma absolute_position:
  assumes "at_position base s" "p < 2 ^ 31"
  shows "Stream_absolute s (base + of_nat p) = Some p"
proof -
  have "base + of_nat p - st_next_seq s = of_nat p - of_nat (st_next_abs s)" using assms(1) by (simp add: at_position_def)
  then have "sint (base + of_nat p - st_next_seq s) = int p - int (st_next_abs s)"
    using sint_difference [of p "st_next_abs s"] assms by (simp add: at_position_def)
  with assms show ?thesis by (auto simp: Stream_absolute_def Let_def u64_MAX_def)
qed

section \<open>What a stream holds and has delivered\<close>

text \<open>The bytes a gap note reports as missing, as positions in the sender's bytes.\<close>

definition gaps :: "u32 \<Rightarrow> Note list \<Rightarrow> nat set" where
  "gaps base ns = (\<Union>n \<in> set ns. case n of Gap from bytes \<Rightarrow> {unat (from - base)..<unat (from - base) + bytes} | _ \<Rightarrow> {})"

fun is_gap :: "Note \<Rightarrow> bool" where
  "is_gap (Gap _ _) = True"
| "is_gap _ = False"

fun accuses :: "Note \<Rightarrow> bool" where
  "accuses (OverlapDisagreed _ _) = True"
| "accuses _ = False"

lemma gaps_append [simp]: "gaps base (ns @ ms) = gaps base ns \<union> gaps base ms"
  by (auto simp: gaps_def)

lemma gaps_other [simp]: "\<not> is_gap n \<Longrightarrow> gaps base [n] = {}"
  by (cases n) (auto simp: gaps_def)

lemma gaps_none: "list_all (\<lambda>n. \<not> is_gap n) ns \<Longrightarrow> gaps base ns = {}"
proof (induction ns)
  case (Cons n ns)
  then show ?case using gaps_append [of base "[n]" ns] by simp
qed (simp add: gaps_def)

text \<open>A held segment holds the sender's bytes at its key.\<close>

definition holds_part :: "u8 list \<Rightarrow> nat \<Rightarrow> u8 list \<Rightarrow> bool" where
  "holds_part D k v = (v \<noteq> [] \<and> k + length v \<le> length D \<and> v = part D k (length v))"

definition stream_ok :: "u32 \<Rightarrow> u8 list \<Rightarrow> Stream \<Rightarrow> bool" where
  "stream_ok base D s =
     (at_position base s \<and> st_next_abs s \<le> length D \<and> btree_ok (st_pending s)
      \<and> (\<forall>k v. map_of (st_pending s) k = Some v \<longrightarrow> holds_part D k v)
      \<and> st_pending_bytes s = btree.total length (st_pending s)
      \<and> st_recent_at s + length (st_recent s) = st_next_abs s
      \<and> st_recent s = part D (st_recent_at s) (length (st_recent s)))"

text \<open>The bytes and notes handed out so far account for every position before the next one.\<close>

definition accounts :: "u32 \<Rightarrow> u8 list \<Rightarrow> Stream \<Rightarrow> u8 list \<Rightarrow> Note list \<Rightarrow> bool" where
  "accounts base D s bs ns =
     (gaps base ns \<subseteq> {..<st_next_abs s} \<and> bs = nths D ({..<st_next_abs s} - gaps base ns) \<and> list_all (\<lambda>n. \<not> accuses n) ns)"

text \<open>Every position a segment brought is delivered, given up, or held.\<close>

definition held :: "Stream \<Rightarrow> nat set" where
  "held s = {i. \<exists>k v. map_of (st_pending s) k = Some v \<and> k \<le> i \<and> i < k + length v}"

definition reached :: "Stream \<Rightarrow> nat set" where
  "reached s = {..<st_next_abs s} \<union> held s"

definition all_ahead :: "Stream \<Rightarrow> bool" where
  "all_ahead s = (\<forall>k v. map_of (st_pending s) k = Some v \<longrightarrow> st_next_abs s < k)"

lemma accounts_note:
  "accounts base D s bs (ns @ dl_notes d) \<Longrightarrow> \<not> is_gap n \<Longrightarrow> \<not> accuses n \<Longrightarrow> accounts base D s bs (ns @ dl_notes (add_note n d))"
  by (simp add: accounts_def add_note_def)

lemma add_note_bytes [simp]: "dl_bytes (add_note n d) = dl_bytes d"
  by (simp add: add_note_def)

section \<open>Delivering\<close>

text \<open>Delivering the sender's next bytes.\<close>

lemma deliver_state:
  assumes "stream_ok base D s" "length D < 2 ^ 31" "bytes = part D (st_next_abs s) (length bytes)" "st_next_abs s + length bytes \<le> length D"
  shows "stream_ok base D (fst (deliver s bytes d))"
    and "st_next_abs (fst (deliver s bytes d)) = st_next_abs s + length bytes"
    and "st_pending (fst (deliver s bytes d)) = st_pending s"
proof -
  let ?t = "fst (deliver s bytes d)" and ?n = "st_next_abs s + length bytes"
  have n: "?n < 2 ^ 31" using assms by simp
  then have adv: "min u64_MAX ?n = ?n" by (simp add: u64_MAX_def)
  show next_abs: "st_next_abs ?t = ?n" using adv by (simp add: deliver_def Stream_advance_def Let_def)
  show "st_pending ?t = st_pending s" by simp
  let ?r = "st_recent s @ bytes" and ?at = "st_recent_at s"
  have r: "?r = part D ?at (length ?r)" "?at + length ?r = ?n"
    using assms(1,3) part_append [of D ?at "length (st_recent s)" "length bytes"]
    by (metis length_append stream_ok_def) (use assms(1) in \<open>simp add: stream_ok_def\<close>)
  let ?e = "length ?r - RECENT_BYTES"
  have t: "st_recent ?t = drop ?e ?r" "st_recent_at ?t = ?at + ?e"
    by (simp_all add: deliver_def Stream_advance_def Let_def)
  have "drop ?e ?r = part D (?at + ?e) (length ?r - ?e)"
    using r(1) drop_part [of ?e D ?at "length ?r"] by metis
  then have recent: "st_recent ?t = part D (st_recent_at ?t) (length (st_recent ?t))"
    unfolding t length_drop .
  have recent_at: "st_recent_at ?t + length (st_recent ?t) = ?n"
    using r(2) unfolding t length_drop by linarith
  have "at_position base ?t"
    using assms(1) n adv by (simp add: at_position_def stream_ok_def deliver_def Stream_advance_def Let_def)
  moreover have "st_pending_bytes ?t = st_pending_bytes s" by (simp add: deliver_def Stream_advance_def Let_def)
  ultimately show "stream_ok base D ?t"
    using assms recent recent_at next_abs by (simp add: stream_ok_def)
qed

lemma deliver_accounts:
  assumes "accounts base D s (bs @ dl_bytes d) (ns @ dl_notes d)" "stream_ok base D s" "length D < 2 ^ 31"
    "bytes = part D (st_next_abs s) (length bytes)" "st_next_abs s + length bytes \<le> length D"
  shows "accounts base D (fst (deliver s bytes d)) (bs @ dl_bytes (snd (deliver s bytes d))) (ns @ dl_notes (snd (deliver s bytes d)))"
proof -
  note next_abs = deliver_state(2) [OF assms(2-5), of d]
  have out: "dl_bytes (snd (deliver s bytes d)) = dl_bytes d @ bytes" "dl_notes (snd (deliver s bytes d)) = dl_notes d"
    by (simp_all add: deliver_def Let_def)
  from assms(1) have g: "gaps base (ns @ dl_notes d) \<subseteq> {..<st_next_abs s}" by (simp add: accounts_def)
  from nths_extend [OF g, of "st_next_abs s + length bytes" D] assms(1,4) g show ?thesis
    by (auto simp: accounts_def next_abs out)
qed

section \<open>Placing a segment\<close>

text \<open>Bytes of the sender never disagree with what was delivered of them.\<close>

lemma agrees_honest:
  assumes "stream_ok base D s" "payload = part D start (length payload)" "start + length payload \<le> st_next_abs s"
  shows "agrees_with_delivered s start payload \<noteq> Different"
proof (cases "payload = [] \<or> start < st_recent_at s")
  case True
  then show ?thesis by (auto simp: agrees_with_delivered_def)
next
  case False
  let ?o = "start - st_recent_at s" and ?w = "drop (start - st_recent_at s) (st_recent s)"
  have at: "st_recent_at s + ?o = start" using False by simp
  have "?w = part D (st_recent_at s + ?o) (length (st_recent s) - ?o)"
    using assms(1) drop_part [of ?o D "st_recent_at s" "length (st_recent s)"] by (metis stream_ok_def)
  then have w: "?w = part D start (length ?w)" by (metis at length_drop)
  have same: "take (min (length ?w) (length payload)) ?w = take (min (length ?w) (length payload)) payload"
    by (subst w, subst (2) assms(2)) (simp add: take_part)
  have "get_from (st_recent s) ?o = Some ?w"
    using assms(1,3) False by (auto simp: get_from_def stream_ok_def)
  then show ?thesis using False same by (auto simp: agrees_with_delivered_def Let_def)
qed

text \<open>Two parts of the sender's bytes from one position agree as far as both go.\<close>

lemma parts_agree:
  assumes "v = part D k (length v)" "w = part D k (length w)" "m \<le> length v" "m \<le> length w"
  shows "take m v = take m w"
proof -
  have "take m v = part D k m" using assms(1,3) take_part [of m D k "length v"] by (simp add: min_absorb1)
  moreover have "take m w = part D k m" using assms(2,4) take_part [of m D k "length w"] by (simp add: min_absorb1)
  ultimately show ?thesis by simp
qed

text \<open>One step of the work on a segment: what it upholds, and that it never moves the stream back.\<close>

definition upholds :: "u32 \<Rightarrow> u8 list \<Rightarrow> u8 list \<Rightarrow> Note list \<Rightarrow> Stream \<times> Delivery \<Rightarrow> bool" where
  "upholds base D bs ns r =
     (stream_ok base D (fst r) \<and> accounts base D (fst r) (bs @ dl_bytes (snd r)) (ns @ dl_notes (snd r)))"

lemma upholdsI:
  "stream_ok base D s \<Longrightarrow> accounts base D s (bs @ dl_bytes d) (ns @ dl_notes d) \<Longrightarrow> upholds base D bs ns (s, d)"
  by (simp add: upholds_def)

lemma keeps_note: "upholds base D bs ns (s, d) \<Longrightarrow> \<not> is_gap n \<Longrightarrow> \<not> accuses n \<Longrightarrow> upholds base D bs ns (s, add_note n d)"
  by (simp add: upholds_def accounts_note)

lemma keeps_deliver:
  assumes "upholds base D bs ns (s, d)" "length D < 2 ^ 31" "bytes = part D (st_next_abs s) (length bytes)"
    "st_next_abs s + length bytes \<le> length D"
  shows "upholds base D bs ns (deliver s bytes d)"
  using assms deliver_state(1) deliver_accounts by (simp add: upholds_def)

lemma keeps_hold:
  assumes "upholds base D bs ns (s, d)" "holds_part D start payload"
  shows "upholds base D bs ns (hold s start payload d)"
    and "reached (fst (hold s start payload d)) = reached s \<union> {start..<start + length payload}"
    and "st_next_abs (fst (hold s start payload d)) = st_next_abs s"
    and "st_pending_bytes (fst (hold s start payload d)) \<le> st_pending_bytes s + length payload"
proof -
  let ?h = "hold s start payload d"
  have ok: "stream_ok base D s" "btree_ok (st_pending s)" using assms(1) by (simp_all add: upholds_def stream_ok_def)
  show "st_next_abs (fst ?h) = st_next_abs s" by (simp add: hold_def Let_def split: option.splits)
  show "st_pending_bytes (fst ?h) \<le> st_pending_bytes s + length payload" by (simp add: hold_def Let_def split: option.splits)
  have upd: "stream_ok base D (s\<lparr>st_pending := btree_insert start payload (st_pending s), st_pending_bytes := n\<rparr>)"
    if "n = btree.total length (btree_insert start payload (st_pending s))" for n
    using ok(1) assms(2) that by (auto simp: stream_ok_def at_position_def)
  have h: "holds_part D start v" if "map_of (st_pending s) start = Some v" for v using ok(1) that by (simp add: stream_ok_def)
  show "upholds base D bs ns ?h"
  proof (cases "map_of (st_pending s) start")
    case None
    have "st_pending_bytes s + length payload = btree.total length (btree_insert start payload (st_pending s))"
      using btree.total_insert_new [OF ok(2) None] ok(1) by (simp add: stream_ok_def)
    from upd [OF this] have "stream_ok base D (fst ?h)" using None by (simp add: hold_def Let_def)
    with assms(1) show ?thesis using None by (simp add: hold_def upholds_def accounts_def add_note_def Let_def)
  next
    case (Some v)
    have agree: "m \<le> length v \<Longrightarrow> m \<le> length payload \<Longrightarrow> take m v = take m payload" for m
      using parts_agree h [OF Some] assms(2) by (metis holds_part_def)
    show ?thesis
    proof (cases "length payload \<le> length v")
      case True
      then have "?h = (s, add_note (Duplicate (length payload)) d)" using Some agree [of "length payload"] by (simp add: hold_def Let_def)
      then show ?thesis using keeps_note [OF assms(1)] by simp
    next
      case False
      then have eq: "?h = (s\<lparr>st_pending := btree_insert start payload (st_pending s),
                            st_pending_bytes := st_pending_bytes s - length v + length payload\<rparr>, add_note (Retransmission (length v)) d)"
        using Some agree [of "length v"] by (simp add: hold_def Let_def)
      have "length v \<le> st_pending_bytes s"
        using btree.total_remove [OF ok(2) Some, of length] ok(1) by (simp add: stream_ok_def)
      then have "st_pending_bytes s - length v + length payload = btree.total length (btree_insert start payload (st_pending s))"
        using btree.total_insert_old [OF ok(2) Some, of length payload] ok(1) by (simp add: stream_ok_def)
      from upd [OF this] have "stream_ok base D (fst ?h)" by (simp add: eq)
      then show ?thesis using assms(1) eq by (simp add: upholds_def accounts_def add_note_def)
    qed
  qed
  show "reached (fst ?h) = reached s \<union> {start..<start + length payload}"
  proof (cases "map_of (st_pending s) start")
    case None
    then have "held (fst ?h) = held s \<union> {start..<start + length payload}"
      using ok(2) by (auto simp: hold_def held_def Let_def split: if_splits)
    with None show ?thesis by (auto simp: reached_def hold_def Let_def)
  next
    case (Some v)
    have "held (fst ?h) = held s \<union> {start..<start + length payload}"
    proof (cases "length payload \<le> length v")
      case True
      then have "{start..<start + length payload} \<subseteq> held s" using Some by (fastforce simp: held_def)
      with True Some show ?thesis by (auto simp: hold_def Let_def held_def)
    next
      case False
      then have "map_of (st_pending (fst ?h)) = (map_of (st_pending s))(start \<mapsto> payload)"
        using Some ok(2) by (simp add: hold_def Let_def)
      with False Some show ?thesis by (fastforce simp: held_def split: if_splits)
    qed
    with Some show ?thesis by (auto simp: reached_def hold_def Let_def)
  qed
qed

text \<open>Placing a segment that carries the sender's bytes at position \<open>p\<close>.\<close>

lemma keeps_accept:
  assumes "upholds base D bs ns (s, d)" "length D < 2 ^ 31" "holds_part D p payload"
  shows "upholds base D bs ns (accept s (base + of_nat p) payload d)"
    and "reached (fst (accept s (base + of_nat p) payload d)) \<supseteq> reached s \<union> {p..<p + length payload}"
    and "st_pending_bytes (fst (accept s (base + of_nat p) payload d)) \<le> st_pending_bytes s + length payload"
proof -
  let ?a = "accept s (base + of_nat p) payload d" and ?n = "st_next_abs s"
  have ok: "stream_ok base D s" using assms(1) by (simp add: upholds_def)
  have p: "p + length payload \<le> length D" "payload = part D p (length payload)" "payload \<noteq> []" using assms(3) by (simp_all add: holds_part_def)
  have abs: "Stream_absolute s (base + of_nat p) = Some p"
    using absolute_position ok p(1) assms(2) by (simp add: stream_ok_def)
  have end_at: "min u64_MAX (p + length payload) = p + length payload" using p(1) assms(2) by (simp add: u64_MAX_def)
  consider "p + length payload \<le> ?n" | "p \<le> ?n" "?n < p + length payload" | "?n < p" by linarith
  then have "upholds base D bs ns ?a \<and> reached (fst ?a) \<supseteq> reached s \<union> {p..<p + length payload}
             \<and> st_pending_bytes (fst ?a) \<le> st_pending_bytes s + length payload"
  proof cases
    case 1
    then have "agrees_with_delivered s p payload \<noteq> Different" using agrees_honest ok p(2) by blast
    with 1 abs end_at keeps_note [OF assms(1)] show ?thesis
      by (auto simp: accept_def Let_def reached_def split: Comparison.splits)
  next
    case 2
    let ?o = "?n - p" and ?fresh = "drop (?n - p) payload"
    have "p + length (take ?o payload) \<le> ?n" using 2 by simp
    with take_of_part [OF p(2)] have agree: "agrees_with_delivered s p (take ?o payload) \<noteq> Different" using agrees_honest ok by blast
    have fresh: "?fresh = part D ?n (length ?fresh)" "?n + length ?fresh = p + length payload"
      using 2 drop_of_part [OF p(2), of ?o] by (metis le_add_diff_inverse) (use 2 in simp)
    then have del: "upholds base D bs ns (deliver s ?fresh e)" "st_next_abs (fst (deliver s ?fresh e)) = p + length payload"
      if "upholds base D bs ns (s, e)" for e
      using keeps_deliver [OF that assms(2) fresh(1)] deliver_state(2) [OF ok assms(2) fresh(1)] p(1) by simp_all
    obtain e where e: "?a = deliver s ?fresh e" "upholds base D bs ns (s, e)"
    proof (cases "p = ?n")
      case True
      then show ?thesis using that [of d] assms(1) 2 abs end_at by (simp add: accept_def Let_def)
    next
      case False
      let ?note = "case agrees_with_delivered s p (take ?o payload) of Same \<Rightarrow> Retransmission ?o
                   | Different \<Rightarrow> OverlapDisagreed (base + of_nat p) ?o | Unknown \<Rightarrow> Unverified ?o"
      have "get_from payload ?o = Some ?fresh" using 2 by (auto simp: get_from_def)
      then have "?a = deliver s ?fresh (add_note ?note d)" using False 2 abs end_at by (simp add: accept_def Let_def)
      moreover have "\<not> is_gap ?note" "\<not> accuses ?note" using agree by (auto split: Comparison.splits)
      ultimately show ?thesis using that keeps_note [OF assms(1)] by blast
    qed
    have "held (fst ?a) = held s" "st_pending_bytes (fst ?a) = st_pending_bytes s"
      by (simp_all add: e(1) held_def) (simp add: deliver_def Stream_advance_def Let_def)
    with del [OF e(2)] e(1) 2 show ?thesis by (auto simp: reached_def)
  next
    case 3
    then have "?a = hold s p payload d" using abs end_at by (simp add: accept_def Let_def)
    then show ?thesis using keeps_hold [OF assms(1,3)] by auto
  qed
  then show "upholds base D bs ns ?a" "reached (fst ?a) \<supseteq> reached s \<union> {p..<p + length payload}"
    "st_pending_bytes (fst ?a) \<le> st_pending_bytes s + length payload" by simp_all
qed

section \<open>Draining and giving up\<close>

lemma pop_first_ok:
  assumes "stream_ok base D s" "first_key_value (st_pending s) = Some (k, v)"
  shows "stream_ok base D (pop_first s k v)"
proof -
  have ok: "btree_ok (st_pending s)" using assms(1) by (simp add: stream_ok_def)
  have "st_pending_bytes s - length v = btree.total length (btree_remove k (st_pending s))"
    using btree.total_remove [OF ok, of k v length] btree.first_Some [OF ok assms(2)] assms(1) by (simp add: stream_ok_def)
  with assms(1) ok show ?thesis by (auto simp: stream_ok_def pop_first_def at_position_def)
qed

lemma pop_first_reached:
  assumes "btree_ok (st_pending s)" "first_key_value (st_pending s) = Some (k, v)"
  shows "reached s \<subseteq> reached (pop_first s k v) \<union> {k..<k + length v}"
proof
  fix i
  assume "i \<in> reached s"
  then consider "i < st_next_abs s" | j w where "map_of (st_pending s) j = Some w" "j \<le> i" "i < j + length w"
    by (auto simp: reached_def held_def)
  then show "i \<in> reached (pop_first s k v) \<union> {k..<k + length v}"
  proof cases
    case 1
    then show ?thesis by (simp add: reached_def pop_first_def)
  next
    case (2 j w)
    show ?thesis
    proof (cases "j = k")
      case True
      then have "w = v" using 2(1) btree.first_Some [OF assms] by simp
      with True 2(2,3) show ?thesis by simp
    next
      case False
      then have "map_of (st_pending (pop_first s k v)) j = Some w" using 2(1) by (simp add: pop_first_def)
      with 2(2,3) show ?thesis by (auto simp: reached_def held_def)
    qed
  qed
qed

lemma drain_keeps:
  "upholds base D bs ns (s, d) \<Longrightarrow> length D < 2 ^ 31 \<Longrightarrow>
   upholds base D bs ns (drain s d) \<and> reached s \<subseteq> reached (fst (drain s d)) \<and> all_ahead (fst (drain s d))
   \<and> st_pending_bytes (fst (drain s d)) \<le> st_pending_bytes s"
proof (induction "length (st_pending s)" arbitrary: s d rule: less_induct)
  case less
  have ok: "stream_ok base D s" "btree_ok (st_pending s)" using less.prems(1) by (simp_all add: upholds_def stream_ok_def)
  consider "first_key_value (st_pending s) = None" | k v where "first_key_value (st_pending s) = Some (k, v)"
    by (cases "first_key_value (st_pending s)") auto
  then show ?case
  proof cases
    case none: 1
    then show ?thesis using less.prems(1) btree.first_None [OF ok(2)] by (simp add: drain.simps [of s] all_ahead_def)
  next
    case (2 k v)
    note first = btree.first_Some [OF ok(2) 2]
    have kv: "holds_part D k v" using ok(1) first by (simp add: stream_ok_def)
    have end_at: "min u64_MAX (k + length v) = k + length v" using kv less.prems(2) by (simp add: holds_part_def u64_MAX_def)
    let ?p = "pop_first s k v"
    have shorter: "length (st_pending ?p) < length (st_pending s)" using length_btree_remove_first [OF 2] by (simp add: pop_first_def)
    have p: "upholds base D bs ns (?p, d)" "st_next_abs ?p = st_next_abs s" "st_pending_bytes ?p \<le> st_pending_bytes s"
      using pop_first_ok [OF ok(1) 2] less.prems(1) by (simp_all add: upholds_def accounts_def pop_first_def)
    note reach = pop_first_reached [OF ok(2) 2]
    consider "st_next_abs s < k" | "k \<le> st_next_abs s" "k + length v \<le> st_next_abs s" | "k \<le> st_next_abs s" "st_next_abs s < k + length v"
      by linarith
    then show ?thesis
    proof cases
      case 1
      then have "drain s d = (s, d)" by (simp add: drain.simps [of s] 2)
      moreover have "all_ahead s" using 1 btree.first_least [OF ok(2) 2] by (fastforce simp: all_ahead_def)
      ultimately show ?thesis using less.prems(1) by simp
    next
      case b: 2
      then have "drain s d = drain ?p d" by (simp add: drain.simps [of s] 2 end_at Let_def)
      moreover have "reached s \<subseteq> reached ?p" using reach b p(2) by (auto simp: reached_def)
      moreover note less.hyps [OF shorter p(1) less.prems(2)]
      ultimately show ?thesis using p(3) by auto
    next
      case c: 3
      let ?f = "drop (st_next_abs s - k) v"
      have get: "get_from v (st_next_abs s - k) = Some ?f" using c by (auto simp: get_from_def)
      have eq: "drain s d = (let r = deliver ?p ?f d in drain (fst r) (snd r))"
        using c get by (simp add: drain.simps [of s] 2 end_at Let_def)
      have "v = part D k (length v)" using kv by (simp add: holds_part_def)
      from drop_of_part [OF this, of "st_next_abs s - k"]
      have f: "?f = part D (st_next_abs ?p) (length ?f)" "st_next_abs ?p + length ?f = k + length v"
        unfolding p(2) using c(1) by (metis le_add_diff_inverse) (use c in simp)
      have bound: "st_next_abs ?p + length ?f \<le> length D" using f(2) kv by (simp add: holds_part_def)
      let ?r = "deliver ?p ?f d"
      have "upholds base D bs ns (fst ?r, snd ?r)" using keeps_deliver [OF p(1) less.prems(2) f(1) bound] by simp
      note ih = less.hyps [OF _ this less.prems(2)]
      have "st_next_abs (fst ?r) = k + length v"
        using deliver_state(2) [OF pop_first_ok [OF ok(1) 2] less.prems(2) f(1) bound] f(2) by simp
      moreover have "held (fst ?r) = held ?p" by (simp add: held_def)
      ultimately have "reached s \<subseteq> reached (fst ?r)"
        using reach c p(2) by (auto simp: reached_def)
      moreover have "st_pending_bytes (fst ?r) = st_pending_bytes ?p" by (simp add: deliver_def Stream_advance_def Let_def)
      ultimately show ?thesis using ih shorter p(3) by (auto simp: eq Let_def)
    qed
  qed
qed

text \<open>Giving up on a hole: the note names exactly the positions that are skipped.\<close>

lemma skip_keeps:
  assumes "upholds base D bs ns (s, d)" "length D < 2 ^ 31" "first_key_value (st_pending s) = Some (k, v)" "st_next_abs s < k"
  defines "t \<equiv> (Stream_advance s (k - st_next_abs s))\<lparr>st_recent := [], st_recent_at := st_next_abs (Stream_advance s (k - st_next_abs s))\<rparr>"
  shows "upholds base D bs ns (t, add_note (Gap (st_next_seq s) (min (k - st_next_abs s) u32_MAX)) d)"
    and "reached s \<subseteq> reached t" and "st_pending_bytes t = st_pending_bytes s"
proof -
  have ok: "stream_ok base D s" "btree_ok (st_pending s)" using assms(1) by (simp_all add: upholds_def stream_ok_def)
  have "holds_part D k v" using ok(1) btree.first_Some [OF ok(2) assms(3)] by (simp add: stream_ok_def)
  then have k: "k \<le> length D" "k < 2 ^ 31" using assms(2) by (simp_all add: holds_part_def)
  have t: "st_next_abs t = k" "st_next_seq t = base + of_nat k" "st_pending t = st_pending s" "st_recent t = []" "st_recent_at t = k"
    using k(2) assms(4) ok(1) by (simp_all add: t_def Stream_advance_def u64_MAX_def stream_ok_def at_position_def)
  show bytes: "st_pending_bytes t = st_pending_bytes s" by (simp add: t_def Stream_advance_def)
  have okt: "stream_ok base D t"
    using ok(1) t k bytes by (simp add: stream_ok_def at_position_def part_def)
  have gap: "gaps base [Gap (st_next_seq s) (min (k - st_next_abs s) u32_MAX)] = {st_next_abs s..<k}"
    using k(2) assms(4) ok(1) by (simp add: gaps_def stream_ok_def at_position_def u32_MAX_def unat_of_nat_u32)
  have acc: "accounts base D s (bs @ dl_bytes d) (ns @ dl_notes d)" using assms(1) by (simp add: upholds_def)
  let ?G = "gaps base (ns @ dl_notes d)"
  have "{..<k} - (?G \<union> {st_next_abs s..<k}) = {..<st_next_abs s} - ?G" using assms(4) by auto
  moreover have "?G \<union> {st_next_abs s..<k} \<subseteq> {..<k}" using acc assms(4) by (auto simp: accounts_def)
  ultimately show "upholds base D bs ns (t, add_note (Gap (st_next_seq s) (min (k - st_next_abs s) u32_MAX)) d)"
    using acc okt gap by (simp add: upholds_def accounts_def add_note_def t(1) Un_assoc)
  show "reached s \<subseteq> reached t" using assms(4) by (auto simp: reached_def held_def t)
qed

lemma give_up_keeps:
  "upholds base D bs ns (s, d) \<Longrightarrow> length D < 2 ^ 31 \<Longrightarrow> all_ahead s \<Longrightarrow>
   upholds base D bs ns (give_up turns s d) \<and> reached s \<subseteq> reached (fst (give_up turns s d)) \<and> all_ahead (fst (give_up turns s d))"
proof (induction turns arbitrary: s d)
  case (Suc turns)
  have ok: "btree_ok (st_pending s)" using Suc.prems(1) by (simp add: upholds_def stream_ok_def)
  consider "give_up (Suc turns) s d = (s, d)"
    | k v where "first_key_value (st_pending s) = Some (k, v)" "\<not> st_pending_bytes s \<le> MAX_PENDING_BYTES"
    by (cases "first_key_value (st_pending s)"; cases "st_pending_bytes s \<le> MAX_PENDING_BYTES") auto
  then show ?case
  proof cases
    case 1
    then show ?thesis using Suc.prems by simp
  next
    case (2 k v)
    have k: "st_next_abs s < k" using Suc.prems(3) btree.first_Some [OF ok 2(1)] by (simp add: all_ahead_def)
    let ?s1 = "Stream_advance s (k - st_next_abs s)"
    let ?t = "?s1\<lparr>st_recent := [], st_recent_at := st_next_abs ?s1\<rparr>"
    let ?e = "add_note (Gap (st_next_seq s) (min (k - st_next_abs s) u32_MAX)) d"
    let ?r = "drain ?t ?e"
    note skip = skip_keeps [OF Suc.prems(1,2) 2(1) k]
    from drain_keeps [OF skip(1) Suc.prems(2)] have d: "upholds base D bs ns (fst ?r, snd ?r)" "reached ?t \<subseteq> reached (fst ?r)" "all_ahead (fst ?r)"
      by simp_all
    have "give_up (Suc turns) s d = give_up turns (fst ?r) (snd ?r)" using 2 k by (simp add: Let_def)
    with Suc.IH [OF d(1) Suc.prems(2) d(3)] d(2) skip(2) show ?thesis by (simp only:) blast
  qed
qed simp

lemma give_up_idle: "st_pending_bytes s \<le> MAX_PENDING_BYTES \<Longrightarrow> give_up turns s d = (s, d)"
  by (cases turns) simp_all

section \<open>Segments of one sender\<close>

text \<open>Where a segment's payload sits in the sender's bytes; that it is the sender's; what it brings.\<close>

definition sg_at :: "u32 \<Rightarrow> Segment \<Rightarrow> nat" where
  "sg_at base g = unat ((if sg_syn g then sg_sequence g + 1 else sg_sequence g) - base)"

definition carries :: "u32 \<Rightarrow> u8 list \<Rightarrow> Segment \<Rightarrow> bool" where
  "carries base D g = (sg_payload g \<noteq> [] \<longrightarrow> sg_at base g + length (sg_payload g) \<le> length D
                        \<and> sg_payload g = take (length (sg_payload g)) (drop (sg_at base g) D))"

definition brings :: "u32 \<Rightarrow> Segment \<Rightarrow> nat set" where
  "brings base g = {sg_at base g..<sg_at base g + length (sg_payload g)}"

fun stream_all :: "Stream \<Rightarrow> Segment list \<Rightarrow> Stream \<times> Delivery list" where
  "stream_all s [] = (s, [])"
| "stream_all s (g # gs) = (let a = push_stream s g; b = stream_all (fst a) gs in (fst b, snd a # snd b))"

lemma carries_holds: "carries base D g \<Longrightarrow> sg_payload g \<noteq> [] \<Longrightarrow> holds_part D (sg_at base g) (sg_payload g)"
  by (simp add: carries_def holds_part_def part_def)

lemma notes_deliver [simp]: "dl_notes (snd (deliver s bytes d)) = dl_notes d"
  by (simp add: deliver_def Let_def)

lemma notes_drain [simp]: "dl_notes (snd (drain s d)) = dl_notes d"
proof (induction s d rule: drain.induct)
  case (1 s d)
  then show ?case by (simp add: drain.simps [of s] Let_def split: option.split)
qed

lemma notes_accept: "\<exists>ms. dl_notes (snd (accept s q payload d)) = dl_notes d @ ms \<and> list_all (\<lambda>n. \<not> is_gap n) ms"
  by (simp add: accept_def hold_def add_note_def Let_def split: option.split Comparison.split)

text \<open>One segment's payload on an open stream.\<close>

lemma take_payload_keeps:
  assumes "upholds base D bs ns (s, d)" "length D < 2 ^ 31" "all_ahead s" "carries base D g"
  defines "r \<equiv> take_payload s g d"
  shows "upholds base D bs ns r \<and> all_ahead (fst r) \<and> reached s \<union> brings base g \<subseteq> reached (fst r)"
    and "st_pending_bytes s + length (sg_payload g) \<le> MAX_PENDING_BYTES \<Longrightarrow>
         st_pending_bytes (fst r) \<le> st_pending_bytes s + length (sg_payload g)
         \<and> (\<exists>ms. dl_notes (snd r) = dl_notes d @ ms \<and> list_all (\<lambda>n. \<not> is_gap n) ms)"
proof -
  let ?p = "sg_payload g"
  let ?a = "accept s (base + of_nat (sg_at base g)) ?p d"
  let ?b = "drain (fst ?a) (snd ?a)"
  have r: "r = (if ?p = [] then (s, d) else give_up 64 (fst ?b) (snd ?b))"
    by (simp add: r_def take_payload_def sg_at_def bound_pending_def Let_def)
  have main: "upholds base D bs ns r \<and> all_ahead (fst r) \<and> reached s \<union> brings base g \<subseteq> reached (fst r)
     \<and> (st_pending_bytes s + length ?p \<le> MAX_PENDING_BYTES \<longrightarrow> st_pending_bytes (fst r) \<le> st_pending_bytes s + length ?p
         \<and> (\<exists>ms. dl_notes (snd r) = dl_notes d @ ms \<and> list_all (\<lambda>n. \<not> is_gap n) ms))"
  proof (cases "?p = []")
    case True
    then show ?thesis using assms(1,3) by (simp add: r brings_def)
  next
    case False
    note acc = keeps_accept [OF assms(1,2) carries_holds [OF assms(4) False]]
    have b: "upholds base D bs ns (fst ?b, snd ?b)" "reached (fst ?a) \<subseteq> reached (fst ?b)" "all_ahead (fst ?b)"
      "st_pending_bytes (fst ?b) \<le> st_pending_bytes s + length ?p"
      using drain_keeps [of base D bs ns "fst ?a" "snd ?a"] acc(1,3) assms(2) by auto
    from give_up_keeps [OF b(1) assms(2) b(3), of 64] acc(2) b(2)
    have "upholds base D bs ns r \<and> all_ahead (fst r) \<and> reached s \<union> brings base g \<subseteq> reached (fst r)"
      using False by (auto simp: r brings_def)
    moreover have "r = ?b" if "st_pending_bytes s + length ?p \<le> MAX_PENDING_BYTES"
      using False that b(4) by (simp add: r give_up_idle)
    ultimately show ?thesis using b(4) notes_accept [of s "base + of_nat (sg_at base g)" ?p d] by auto
  qed
  then show "upholds base D bs ns r \<and> all_ahead (fst r) \<and> reached s \<union> brings base g \<subseteq> reached (fst r)"
    and "st_pending_bytes s + length ?p \<le> MAX_PENDING_BYTES \<Longrightarrow> st_pending_bytes (fst r) \<le> st_pending_bytes s + length ?p
         \<and> (\<exists>ms. dl_notes (snd r) = dl_notes d @ ms \<and> list_all (\<lambda>n. \<not> is_gap n) ms)" by blast+
qed

section \<open>A whole stream\<close>

lemma started_deliver [simp]: "st_started (fst (deliver s bytes d)) = st_started s"
  by (simp add: deliver_def Stream_advance_def Let_def)

lemma started_accept [simp]: "st_started (fst (accept s q payload d)) = st_started s"
  by (simp add: accept_def hold_def Let_def split: option.split)

lemma started_drain [simp]: "st_started (fst (drain s d)) = st_started s"
proof (induction s d rule: drain.induct)
  case (1 s d)
  then show ?case by (simp add: drain.simps [of s] Let_def pop_first_def split: option.split)
qed

lemma started_give_up [simp]: "st_started (fst (give_up turns s d)) = st_started s"
  by (induction turns arbitrary: s d) (simp_all add: Let_def Stream_advance_def split: option.split)

lemma started_take_payload [simp]: "st_started (fst (take_payload s g d)) = st_started s"
  by (simp add: take_payload_def bound_pending_def Let_def)

definition running :: "u32 \<Rightarrow> u8 list \<Rightarrow> nat set \<Rightarrow> u8 list \<Rightarrow> Note list \<Rightarrow> Stream \<Rightarrow> bool" where
  "running base D C bs ns s =
     (st_started s \<and> stream_ok base D s \<and> accounts base D s bs ns \<and> all_ahead s \<and> C \<subseteq> reached s)"

lemma running_finished [simp]: "running base D C bs ns (s\<lparr>st_finished := b\<rparr>) = running base D C bs ns s"
  by (simp add: running_def stream_ok_def at_position_def accounts_def all_ahead_def reached_def held_def)

lemma running_note: "running base D C bs ns s \<Longrightarrow> \<not> is_gap n \<Longrightarrow> \<not> accuses n \<Longrightarrow> running base D C bs (ns @ [n]) s"
  by (simp add: running_def accounts_def)

text \<open>The payload on a stream that is open, then the flags around it.\<close>

lemma payload_running:
  assumes "running base D C bs ns s" "length D < 2 ^ 31" "carries base D g" "list_all (\<lambda>n. \<not> is_gap n \<and> \<not> accuses n) (dl_notes d)" "dl_bytes d = []"
  defines "r \<equiv> take_payload s g d"
  shows "running base D (C \<union> brings base g) (bs @ dl_bytes (snd r)) (ns @ dl_notes (snd r)) (fst r)"
    and "st_pending_bytes s + length (sg_payload g) \<le> MAX_PENDING_BYTES \<Longrightarrow>
         st_pending_bytes (fst r) \<le> st_pending_bytes s + length (sg_payload g) \<and> list_all (\<lambda>n. \<not> is_gap n) (dl_notes (snd r))"
proof -
  have "gaps base (dl_notes d) = {}" using assms(4) by (intro gaps_none) (simp add: list_all_iff)
  then have k: "upholds base D bs ns (s, d)" using assms(1,4,5) by (auto simp: running_def upholds_def accounts_def list_all_iff)
  have a: "all_ahead s" "C \<subseteq> reached s" "st_started s" using assms(1) by (simp_all add: running_def)
  note t = take_payload_keeps [OF k assms(2) a(1) assms(3), folded r_def]
  show "running base D (C \<union> brings base g) (bs @ dl_bytes (snd r)) (ns @ dl_notes (snd r)) (fst r)"
    using t(1) a by (auto simp: running_def upholds_def r_def)
  show "st_pending_bytes (fst r) \<le> st_pending_bytes s + length (sg_payload g) \<and> list_all (\<lambda>n. \<not> is_gap n) (dl_notes (snd r))"
    if "st_pending_bytes s + length (sg_payload g) \<le> MAX_PENDING_BYTES"
    using t(2) [OF that] assms(4) by (auto simp: list_all_iff)
qed

text \<open>A segment on a stream already open, or the one that opens it.\<close>

definition opened :: "Stream \<Rightarrow> Segment \<Rightarrow> Stream" where
  "opened s g = fst (open_stream s g Delivery_default)"

lemma push_running:
  assumes "running base D C bs ns (opened s g)" "sg_syn g \<or> st_started s" "length D < 2 ^ 31" "carries base D g"
  defines "r \<equiv> push_stream s g"
  shows "running base D (C \<union> brings base g) (bs @ dl_bytes (snd r)) (ns @ dl_notes (snd r)) (fst r)"
    and "st_pending_bytes (opened s g) + length (sg_payload g) \<le> MAX_PENDING_BYTES \<Longrightarrow>
         st_pending_bytes (fst r) \<le> st_pending_bytes (opened s g) + length (sg_payload g) \<and> list_all (\<lambda>n. \<not> is_gap n) (dl_notes (snd r))"
proof -
  let ?d = "if sg_rst g then add_note Reset Delivery_default else Delivery_default"
  let ?b = "take_payload (opened s g) g ?d"
  have d: "list_all (\<lambda>n. \<not> is_gap n \<and> \<not> accuses n) (dl_notes ?d)" "dl_bytes ?d = []"
    by (simp_all add: add_note_def Delivery_default_def)
  have o: "open_stream s g ?d = (opened s g, ?d)"
    using assms(2) by (auto simp: open_stream_def opened_def)
  have r: "r = (if sg_fin g then ((fst ?b)\<lparr>st_finished := True\<rparr>, add_note Finished (snd ?b)) else ?b)"
    unfolding r_def push_stream_def Let_def by (simp only: o fst_conv snd_conv)
  note p = payload_running [OF assms(1,3,4) d]
  show "running base D (C \<union> brings base g) (bs @ dl_bytes (snd r)) (ns @ dl_notes (snd r)) (fst r)"
    using p(1) running_note [OF p(1), of Finished] by (auto simp: r add_note_def)
  show "st_pending_bytes (fst r) \<le> st_pending_bytes (opened s g) + length (sg_payload g) \<and> list_all (\<lambda>n. \<not> is_gap n) (dl_notes (snd r))"
    if "st_pending_bytes (opened s g) + length (sg_payload g) \<le> MAX_PENDING_BYTES"
    using p(2) [OF that] by (auto simp: r add_note_def)
qed

lemma opened_started: "\<not> sg_syn g \<Longrightarrow> st_started s \<Longrightarrow> opened s g = s"
  by (simp add: opened_def open_stream_def)

lemma opened_new:
  assumes "sg_syn g" "sg_sequence g + 1 = base"
  shows "running base D {} [] [] (opened Stream_new g)" and "st_pending_bytes (opened Stream_new g) = 0"
  using assms by (auto simp: opened_def open_stream_def Stream_new_def running_def stream_ok_def at_position_def
      btree_ok_def part_def accounts_def gaps_def all_ahead_def btree.total_def)

lemma stream_all_running:
  assumes "running base D C bs ns s" "length D < 2 ^ 31" "\<forall>g \<in> set gs. \<not> sg_syn g \<and> carries base D g"
  defines "r \<equiv> stream_all s gs"
  shows "running base D (C \<union> (\<Union>g \<in> set gs. brings base g)) (bs @ concat (map dl_bytes (snd r))) (ns @ concat (map dl_notes (snd r))) (fst r)"
    and "st_pending_bytes s + (\<Sum>g \<leftarrow> gs. length (sg_payload g)) \<le> MAX_PENDING_BYTES \<Longrightarrow> list_all (\<lambda>n. \<not> is_gap n) (concat (map dl_notes (snd r)))"
  using assms(1,3) unfolding r_def
proof (induction gs arbitrary: s C bs ns)
  case Nil
  { case 1 then show ?case by simp }
  { case 2 then show ?case by simp }
next
  case (Cons g gs)
  { case 1
    let ?a = "push_stream s g"
    from 1 have o: "opened s g = s" "carries base D g" "st_started s" by (auto simp: opened_started running_def)
    have "running base D (C \<union> brings base g) (bs @ dl_bytes (snd ?a)) (ns @ dl_notes (snd ?a)) (fst ?a)"
      by (rule push_running(1)) (use 1(1) o assms(2) in simp_all)
    from Cons.IH(1) [OF this] 1(2) show ?case by (simp add: Let_def Un_assoc) }
  { case 2
    let ?a = "push_stream s g"
    from 2 have o: "opened s g = s" "carries base D g" "st_started s" by (auto simp: opened_started running_def)
    have run: "running base D (C \<union> brings base g) (bs @ dl_bytes (snd ?a)) (ns @ dl_notes (snd ?a)) (fst ?a)"
      by (rule push_running(1)) (use 2(2) o assms(2) in simp_all)
    have "st_pending_bytes (fst ?a) \<le> st_pending_bytes s + length (sg_payload g)" "list_all (\<lambda>n. \<not> is_gap n) (dl_notes (snd ?a))"
      using push_running(2) [of base D C bs ns s g] 2(1,2) o assms(2) by simp_all
    with Cons.IH(2) [OF _ run] 2(1,3) show ?case by (simp add: Let_def) }
qed

section \<open>A capture of many streams\<close>

definition of_stream :: "Endpoint \<times> Endpoint \<Rightarrow> Segment \<Rightarrow> bool" where
  "of_stream key g = ((sg_source g, sg_destination g) = key)"

definition deliveries :: "Endpoint \<times> Endpoint \<Rightarrow> Segment list \<Rightarrow> Delivery list" where
  "deliveries key gs = map snd (filter (\<lambda>(g, _). of_stream key g) (snd (push_all Reassembler_new gs)))"

definition stream_bytes :: "Endpoint \<times> Endpoint \<Rightarrow> Segment list \<Rightarrow> u8 list" where
  "stream_bytes key gs = concat (map dl_bytes (deliveries key gs))"

definition stream_notes :: "Endpoint \<times> Endpoint \<Rightarrow> Segment list \<Rightarrow> Note list" where
  "stream_notes key gs = concat (map dl_notes (deliveries key gs))"

text \<open>Each directed pair upholds its own stream: the segments of others change nothing.\<close>

lemma push_all_stream:
  "map snd (filter (\<lambda>(g, _). of_stream key g) (snd (push_all r gs)))
     = snd (stream_all (case r key of Some s \<Rightarrow> s | None \<Rightarrow> Stream_new) (filter (of_stream key) gs))
   \<and> (filter (of_stream key) gs \<noteq> [] \<longrightarrow>
      fst (push_all r gs) key = Some (fst (stream_all (case r key of Some s \<Rightarrow> s | None \<Rightarrow> Stream_new) (filter (of_stream key) gs))))
   \<and> (filter (of_stream key) gs = [] \<longrightarrow> fst (push_all r gs) key = r key)"
proof (induction gs arbitrary: r)
  case (Cons g gs)
  show ?case
  proof (cases "of_stream key g")
    case True
    let ?s = "case r key of Some s \<Rightarrow> s | None \<Rightarrow> Stream_new"
    have "fst (Reassembler_push r g) key = Some (fst (push_stream ?s g))" "snd (Reassembler_push r g) = snd (push_stream ?s g)"
      using True by (auto simp: Reassembler_push_def of_stream_def Let_def)
    with Cons.IH [of "fst (Reassembler_push r g)"] True show ?thesis
      by (cases "filter (of_stream key) gs = []") (simp_all add: Let_def)
  next
    case False
    then have "fst (Reassembler_push r g) key = r key" by (auto simp: Reassembler_push_def of_stream_def Let_def)
    with Cons.IH [of "fst (Reassembler_push r g)"] False show ?thesis by (simp add: Let_def)
  qed
qed simp

text \<open>The stream of one sender, opened by a SYN, in a capture.\<close>

definition sent_by :: "Endpoint \<times> Endpoint \<Rightarrow> u32 \<Rightarrow> u8 list \<Rightarrow> Segment list \<Rightarrow> bool" where
  "sent_by key base D gs =
     (case filter (of_stream key) gs of
        [] \<Rightarrow> False
      | g # rest \<Rightarrow> sg_syn g \<and> sg_sequence g + 1 = base \<and> carries base D g
                   \<and> list_all (\<lambda>h. \<not> sg_syn h \<and> carries base D h) rest)"

definition brought :: "Endpoint \<times> Endpoint \<Rightarrow> u32 \<Rightarrow> Segment list \<Rightarrow> nat set" where
  "brought key base gs = (\<Union>g \<in> set (filter (of_stream key) gs). brings base g)"

lemma sent_by_running:
  assumes "sent_by key base D gs" "length D < 2 ^ 31"
  shows "\<exists>s. fst (push_all Reassembler_new gs) key = Some s \<and> running base D (brought key base gs) (stream_bytes key gs) (stream_notes key gs) s"
    and "(\<Sum>g \<leftarrow> filter (of_stream key) gs. length (sg_payload g)) \<le> MAX_PENDING_BYTES \<Longrightarrow> list_all (\<lambda>n. \<not> is_gap n) (stream_notes key gs)"
proof -
  obtain g rest where f: "filter (of_stream key) gs = g # rest" and g: "sg_syn g" "sg_sequence g + 1 = base" "carries base D g"
    and rest: "\<forall>h \<in> set rest. \<not> sg_syn h \<and> carries base D h"
    using assms(1) by (auto simp: sent_by_def list_all_iff split: list.splits)
  let ?a = "push_stream Stream_new g"
  let ?r = "stream_all (fst ?a) rest"
  have all: "deliveries key gs = snd ?a # snd ?r" "fst (push_all Reassembler_new gs) key = Some (fst ?r)"
    using push_all_stream [of key Reassembler_new gs] by (simp_all add: deliveries_def Reassembler_new_def f Let_def)
  have first: "running base D (brings base g) (dl_bytes (snd ?a)) (dl_notes (snd ?a)) (fst ?a)"
    using push_running(1) [OF opened_new(1) [OF g(1,2)] _ assms(2) g(3)] g(1) by simp
  from stream_all_running(1) [OF first assms(2) rest]
  show "\<exists>s. fst (push_all Reassembler_new gs) key = Some s \<and> running base D (brought key base gs) (stream_bytes key gs) (stream_notes key gs) s"
    by (simp add: all stream_bytes_def stream_notes_def brought_def f)
  assume small: "(\<Sum>g \<leftarrow> filter (of_stream key) gs. length (sg_payload g)) \<le> MAX_PENDING_BYTES"
  then have "st_pending_bytes (fst ?a) \<le> length (sg_payload g)" "list_all (\<lambda>n. \<not> is_gap n) (dl_notes (snd ?a))"
    using push_running(2) [OF opened_new(1) [OF g(1,2)] _ assms(2) g(3)] g(1) opened_new(2) [OF g(1,2)] by (simp_all add: f)
  with stream_all_running(2) [OF first assms(2) rest] small
  show "list_all (\<lambda>n. \<not> is_gap n) (stream_notes key gs)" by (simp add: all stream_notes_def f)
qed

text \<open>
  Claim C3. Reassembly is faithful. In a capture of any streams, take one that a SYN opens and whose
  segments each carry some part of a sender's bytes at its sequence number, modulo \<open>2\<^sup>32\<close>, in any order,
  overlapping, repeated or resegmented. The bytes delivered for it are exactly the sender's bytes
  before the position reached, less the positions the gap notes name; no note accuses the sender of
  sending different bytes; and every byte a segment brought is before that position or still held.
\<close>

theorem reassembly_is_faithful:
  assumes "sent_by key base D gs" "length D < 2 ^ 31"
  shows "\<exists>s. fst (push_all Reassembler_new gs) key = Some s
           \<and> stream_bytes key gs = nths D ({..<st_next_abs s} - gaps base (stream_notes key gs))
           \<and> list_all (\<lambda>n. \<not> accuses n) (stream_notes key gs)
           \<and> brought key base gs \<subseteq> {..<st_next_abs s} \<union> held s"
  using sent_by_running(1) [OF assms] by (auto simp: running_def accounts_def reached_def)

text \<open>
  Claim C2. Reassembly completes. When the segments of such a stream together bring every byte the
  sender sent, and no more than the bound on held bytes passed in all, the delivered bytes are the
  sender's bytes, all of them and in order, and nothing is left held: whatever the order of arrival.
\<close>

theorem reassembly_completes:
  assumes "sent_by key base D gs" "length D < 2 ^ 31" "{..<length D} \<subseteq> brought key base gs"
    "(\<Sum>g \<leftarrow> filter (of_stream key) gs. length (sg_payload g)) \<le> MAX_PENDING_BYTES"
  shows "stream_bytes key gs = D
         \<and> (\<exists>s. fst (push_all Reassembler_new gs) key = Some s \<and> st_pending s = [] \<and> st_pending_bytes s = 0)"
proof -
  obtain s where s: "fst (push_all Reassembler_new gs) key = Some s"
    and run: "running base D (brought key base gs) (stream_bytes key gs) (stream_notes key gs) s"
    using sent_by_running(1) [OF assms(1,2)] by blast
  have ok: "stream_ok base D s" "all_ahead s" "brought key base gs \<subseteq> reached s" using run by (simp_all add: running_def)
  have "st_next_abs s = length D"
  proof (rule ccontr)
    assume "st_next_abs s \<noteq> length D"
    then have "st_next_abs s < length D" using ok(1) by (simp add: stream_ok_def)
    then have "st_next_abs s \<in> held s" using assms(3) ok(3) by (auto simp: reached_def)
    then show False using ok(2) by (auto simp: held_def all_ahead_def)
  qed
  moreover have "gaps base (stream_notes key gs) = {}" by (rule gaps_none [OF sent_by_running(2) [OF assms(1,2,4)]])
  ultimately have "stream_bytes key gs = D" using run by (simp add: running_def accounts_def)
  moreover have "map_of (st_pending s) k = None" for k
  proof (cases "map_of (st_pending s) k")
    case (Some v)
    then have "holds_part D k v" "length D < k" using ok(1,2) \<open>st_next_abs s = length D\<close> by (simp_all add: stream_ok_def all_ahead_def)
    then show ?thesis by (simp add: holds_part_def)
  qed
  then have "st_pending s = []" by (cases "st_pending s") (auto split: if_splits, metis option.distinct(1))
  ultimately show ?thesis using s ok(1) by (simp add: stream_ok_def)
qed

text \<open>
  A sender of six bytes whose sequence numbers wrap after the third: the last part arrives first, a
  part of another stream comes between, one part is repeated, and the hole is filled last.
\<close>

definition end_a :: Endpoint where "end_a = \<lparr>ep_address = V4 [10, 0, 0, 1], ep_port = 49152\<rparr>"
definition end_b :: Endpoint where "end_b = \<lparr>ep_address = V4 [10, 0, 0, 2], ep_port = 502\<rparr>"

definition seg :: "Endpoint \<Rightarrow> Endpoint \<Rightarrow> bool \<Rightarrow> u32 \<Rightarrow> u8 list \<Rightarrow> Segment" where
  "seg source destination syn sequence payload =
     \<lparr>sg_source = source, sg_destination = destination, sg_sequence = sequence, sg_acknowledgement = 0, sg_payload = payload,
      sg_syn = syn, sg_ack = True, sg_fin = False, sg_rst = False, sg_truncated = False\<rparr>"

definition sample_capture :: "Segment list" where
  "sample_capture =
     [seg end_a end_b True 0xFFFFFFFC [], seg end_a end_b False 1 [5, 6], seg end_b end_a False 77 [9, 9],
      seg end_a end_b False 1 [5, 6], seg end_a end_b False 0xFFFFFFFD [1, 2], seg end_a end_b False 0xFFFFFFFE [2, 3, 4]]"

lemma sample_capture_parts:
  "filter (of_stream (end_a, end_b)) sample_capture =
     [seg end_a end_b True 0xFFFFFFFC [], seg end_a end_b False 1 [5, 6], seg end_a end_b False 1 [5, 6],
      seg end_a end_b False 0xFFFFFFFD [1, 2], seg end_a end_b False 0xFFFFFFFE [2, 3, 4]]"
  by (simp add: sample_capture_def of_stream_def seg_def end_a_def end_b_def)

lemma sample_capture_sent: "sent_by (end_a, end_b) 0xFFFFFFFD [1, 2, 3, 4, 5, 6] sample_capture"
  by (simp add: sent_by_def sample_capture_parts carries_def sg_at_def seg_def)

theorem reassembly_completes_witness:
  "sent_by (end_a, end_b) 0xFFFFFFFD [1, 2, 3, 4, 5, 6] sample_capture \<and> stream_bytes (end_a, end_b) sample_capture = [1, 2, 3, 4, 5, 6]"
proof -
  have "{..<length [1, 2, 3, 4, 5, 6 :: u8]} \<subseteq> brought (end_a, end_b) 0xFFFFFFFD sample_capture"
    by (auto simp: brought_def sample_capture_parts brings_def sg_at_def seg_def)
  with reassembly_completes [OF sample_capture_sent] sample_capture_sent show ?thesis
    by (simp add: sample_capture_parts seg_def MAX_PENDING_BYTES_def)
qed

text \<open>While the hole is open, the bytes after it are held and only those before it delivered.\<close>

theorem reassembly_is_faithful_witness:
  "\<exists>s. fst (push_all Reassembler_new [seg end_a end_b True 99 [1], seg end_a end_b False 102 [3]]) (end_a, end_b) = Some s
     \<and> {0, 2} \<subseteq> {..<st_next_abs s} \<union> held s
     \<and> stream_bytes (end_a, end_b) [seg end_a end_b True 99 [1], seg end_a end_b False 102 [3]] =
         nths [1, 2, 3] ({..<st_next_abs s} - gaps 100 (stream_notes (end_a, end_b) [seg end_a end_b True 99 [1], seg end_a end_b False 102 [3]]))"
proof -
  let ?gs = "[seg end_a end_b True 99 [1], seg end_a end_b False 102 [3]]"
  have "sent_by (end_a, end_b) 100 [1, 2, 3] ?gs" by (simp add: sent_by_def of_stream_def seg_def carries_def sg_at_def)
  moreover have "{0, 2} \<subseteq> brought (end_a, end_b) 100 ?gs" by (auto simp: brought_def of_stream_def seg_def brings_def sg_at_def)
  ultimately show ?thesis using reassembly_is_faithful [of "(end_a, end_b)" 100 "[1, 2, 3]" ?gs] by auto
qed

text \<open>
  A SYN resets the position and the window but not the segments held: when a pair of ends is used again
  while bytes of the earlier connection are still held, they stay, at their positions in the earlier
  connection, to be delivered in the later one when it reaches them.
\<close>

theorem syn_keeps_stale_segments:
  "sg_syn g \<Longrightarrow> sg_payload g = [] \<Longrightarrow>
   st_next_abs (fst (push_stream s g)) = 0 \<and> st_pending (fst (push_stream s g)) = st_pending s"
  by (simp add: push_stream_def open_stream_def take_payload_def Let_def)

end
