(* ===== verification/Core_Hash.thy ===== *)
theory Core_Hash
  imports Byte_Order
begin

text \<open>
  SHA-256 as \<open>salman-core/src/hash.rs\<close> computes it: a streaming hasher with a partial block. The
  reference is the definition of FIPS 180-4 on the whole message, written down on its own: its functions,
  its constants as roots of primes, its schedule and working variables, its padding. The compression
  function is the standard's, and the hasher gives that digest however its input is split.
\<close>

section \<open>The compression function\<close>

definition BLOCK_LEN :: nat where "BLOCK_LEN = 64"
definition DIGEST_LEN :: nat where "DIGEST_LEN = 32"

definition INITIAL_STATE :: "u32 list" where
  "INITIAL_STATE =
    [0x6a09e667, 0xbb67ae85, 0x3c6ef372, 0xa54ff53a,
     0x510e527f, 0x9b05688c, 0x1f83d9ab, 0x5be0cd19]"

definition K :: "u32 list" where
  "K =
    [0x428a2f98, 0x71374491, 0xb5c0fbcf, 0xe9b5dba5] @
    [0x3956c25b, 0x59f111f1, 0x923f82a4, 0xab1c5ed5] @
    [0xd807aa98, 0x12835b01, 0x243185be, 0x550c7dc3] @
    [0x72be5d74, 0x80deb1fe, 0x9bdc06a7, 0xc19bf174] @
    [0xe49b69c1, 0xefbe4786, 0x0fc19dc6, 0x240ca1cc] @
    [0x2de92c6f, 0x4a7484aa, 0x5cb0a9dc, 0x76f988da] @
    [0x983e5152, 0xa831c66d, 0xb00327c8, 0xbf597fc7] @
    [0xc6e00bf3, 0xd5a79147, 0x06ca6351, 0x14292967] @
    [0x27b70a85, 0x2e1b2138, 0x4d2c6dfc, 0x53380d13] @
    [0x650a7354, 0x766a0abb, 0x81c2c92e, 0x92722c85] @
    [0xa2bfe8a1, 0xa81a664b, 0xc24b8b70, 0xc76c51a3] @
    [0xd192e819, 0xd6990624, 0xf40e3585, 0x106aa070] @
    [0x19a4c116, 0x1e376c08, 0x2748774c, 0x34b0bcb5] @
    [0x391c0cb3, 0x4ed8aa4a, 0x5b9cca4f, 0x682e6ff3] @
    [0x748f82ee, 0x78a5636f, 0x84c87814, 0x8cc70208] @
    [0x90befffa, 0xa4506ceb, 0xbef9a3f7, 0xc67178f2]"

fun words_of :: "u8 list \<Rightarrow> u32 list" where
  "words_of (a # b # c # d # rest) = from_be_bytes32 a b c d # words_of rest"
| "words_of _ = []"

text \<open>The array \<open>w\<close> of 64 words: the block's sixteen, then the loop from 16 to 63.\<close>

definition schedule_s0 :: "u32 \<Rightarrow> u32" where
  "schedule_s0 x = word_rotr 7 x XOR word_rotr 18 x XOR drop_bit 3 x"

definition schedule_s1 :: "u32 \<Rightarrow> u32" where
  "schedule_s1 x = word_rotr 17 x XOR word_rotr 19 x XOR drop_bit 10 x"

definition extend :: "u32 list \<Rightarrow> nat \<Rightarrow> u32 list" where
  "extend w i = w[i := w ! (i - 16) + schedule_s0 (w ! (i - 15)) + w ! (i - 7) + schedule_s1 (w ! (i - 2))]"

definition schedule :: "u8 list \<Rightarrow> u32 list" where
  "schedule block = foldl extend (words_of block @ replicate (64 - length (words_of block)) 0) [16..<64]"

type_synonym working = "u32 \<times> u32 \<times> u32 \<times> u32 \<times> u32 \<times> u32 \<times> u32 \<times> u32"

definition round_t1 :: "u32 \<Rightarrow> u32 \<Rightarrow> u32 \<Rightarrow> u32 \<Rightarrow> u32 \<Rightarrow> u32 \<Rightarrow> u32" where
  "round_t1 e f g h kt wt =
     h + (word_rotr 6 e XOR word_rotr 11 e XOR word_rotr 25 e) + ((e AND f) XOR (NOT e AND g)) + kt + wt"

definition round_t2 :: "u32 \<Rightarrow> u32 \<Rightarrow> u32 \<Rightarrow> u32" where
  "round_t2 a b c = (word_rotr 2 a XOR word_rotr 13 a XOR word_rotr 22 a) + ((a AND b) XOR (a AND c) XOR (b AND c))"

fun shift_in :: "u32 \<Rightarrow> u32 \<Rightarrow> working \<Rightarrow> working" where
  "shift_in t1 t2 (a, b, c, d, e, f, g, h) = (t1 + t2, a, b, c, d + t1, e, f, g)"

fun sha_round :: "working \<Rightarrow> u32 \<times> u32 \<Rightarrow> working" where
  "sha_round (a, b, c, d, e, f, g, h) (kt, wt) =
     shift_in (round_t1 e f g h kt wt) (round_t2 a b c) (a, b, c, d, e, f, g, h)"

fun add_words :: "working \<Rightarrow> working \<Rightarrow> u32 list" where
  "add_words (a0, b0, c0, d0, e0, f0, g0, h0) (a, b, c, d, e, f, g, h) =
     [a0 + a, b0 + b, c0 + c, d0 + d, e0 + e, f0 + f, g0 + g, h0 + h]"

definition compress :: "u32 list \<Rightarrow> u8 list \<Rightarrow> u32 list" where
  "compress state block =
     (case state of
        [a, b, c, d, e, f, g, h] \<Rightarrow>
          add_words (a, b, c, d, e, f, g, h) (foldl sha_round (a, b, c, d, e, f, g, h) (zip K (schedule block)))
      | _ \<Rightarrow> state)"

section \<open>The reference\<close>

text \<open>
  FIPS 180-4 in its own terms: the functions of section 4.1.2; the constants of 4.2.2 and 5.3.3, the first
  thirty-two bits of the fractional parts of the cube roots of the first sixty-four primes and of the
  square roots of the first eight, that is the root scaled by \<open>2\<^sup>32\<close> and rounded down, less its whole part;
  the message schedule and the eight working variables of 6.2.2 as
  recursions on their index.
\<close>

definition fips_Ch :: "u32 \<Rightarrow> u32 \<Rightarrow> u32 \<Rightarrow> u32" where "fips_Ch x y z = (x AND y) XOR (NOT x AND z)"
definition fips_Maj :: "u32 \<Rightarrow> u32 \<Rightarrow> u32 \<Rightarrow> u32" where "fips_Maj x y z = (x AND y) XOR (x AND z) XOR (y AND z)"
definition fips_Sigma0 :: "u32 \<Rightarrow> u32" where "fips_Sigma0 x = word_rotr 2 x XOR word_rotr 13 x XOR word_rotr 22 x"
definition fips_Sigma1 :: "u32 \<Rightarrow> u32" where "fips_Sigma1 x = word_rotr 6 x XOR word_rotr 11 x XOR word_rotr 25 x"
definition fips_sigma0 :: "u32 \<Rightarrow> u32" where "fips_sigma0 x = word_rotr 7 x XOR word_rotr 18 x XOR drop_bit 3 x"
definition fips_sigma1 :: "u32 \<Rightarrow> u32" where "fips_sigma1 x = word_rotr 17 x XOR word_rotr 19 x XOR drop_bit 10 x"

definition fips_primes :: "nat list" where
  "fips_primes =
  [2, 3, 5, 7, 11, 13, 17, 19, 23, 29, 31, 37, 41, 43, 47, 53, 59, 61, 67, 71, 73, 79, 83, 89, 97, 101, 103, 107, 109, 113,
   127, 131, 137, 139, 149, 151, 157, 163, 167, 173, 179, 181, 191, 193, 197, 199, 211, 223, 227, 229, 233, 239, 241, 251,
   257, 263, 269, 271, 277, 281, 283, 293, 307, 311]"

definition frac_root :: "nat \<Rightarrow> nat \<Rightarrow> u32" where
  "frac_root k p = of_nat (GREATEST N. N ^ k \<le> p * (2 ^ 32) ^ k)"

definition fips_K :: "nat \<Rightarrow> u32" where "fips_K t = frac_root 3 (fips_primes ! t)"
definition fips_H0 :: "u32 list" where "fips_H0 = map (frac_root 2) (take 8 fips_primes)"

fun fips_W :: "u8 list \<Rightarrow> nat \<Rightarrow> u32" where
  "fips_W m t =
     (if t < 16 then from_be_bytes32 (m ! (4 * t)) (m ! (4 * t + 1)) (m ! (4 * t + 2)) (m ! (4 * t + 3))
      else fips_sigma1 (fips_W m (t - 2)) + fips_W m (t - 7) + fips_sigma0 (fips_W m (t - 15)) + fips_W m (t - 16))"

declare fips_W.simps [simp del]

primrec fips_vars :: "u8 list \<Rightarrow> working \<Rightarrow> nat \<Rightarrow> working" where
  "fips_vars m v 0 = v"
| "fips_vars m v (Suc t) =
     (case fips_vars m v t of (a, b, c, d, e, f, g, h) \<Rightarrow>
        let T1 = h + fips_Sigma1 e + fips_Ch e f g + fips_K t + fips_W m t;
            T2 = fips_Sigma0 a + fips_Maj a b c
        in (T1 + T2, a, b, c, d + T1, e, f, g))"

definition fips_block :: "u32 list \<Rightarrow> u8 list \<Rightarrow> u32 list" where
  "fips_block H m =
     (case fips_vars m (H ! 0, H ! 1, H ! 2, H ! 3, H ! 4, H ! 5, H ! 6, H ! 7) 64 of (a, b, c, d, e, f, g, h) \<Rightarrow>
        [a + H ! 0, b + H ! 1, c + H ! 2, d + H ! 3, e + H ! 4, f + H ! 5, g + H ! 6, h + H ! 7])"

text \<open>Sections 5.1.1 and 6.2: a one bit, the fewest zeros, the length in bits; then block by block.\<close>

definition fips_zeros :: "nat \<Rightarrow> nat" where
  "fips_zeros n = (119 - n mod 64) mod 64"

definition fips_pad :: "u8 list \<Rightarrow> u8 list" where
  "fips_pad m = m @ 0x80 # replicate (fips_zeros (length m)) 0 @ to_be_bytes64 (of_nat (8 * length m))"

definition block_at :: "u8 list \<Rightarrow> nat \<Rightarrow> u8 list" where
  "block_at m i = take 64 (drop (64 * i) m)"

definition fips_sha256 :: "u8 list \<Rightarrow> u8 list" where
  "fips_sha256 m =
     (let p = fips_pad m
      in concat (map to_be_bytes32 (foldl (\<lambda>h i. fips_block h (block_at p i)) fips_H0 [0..<length p div 64])))"

section \<open>The constants\<close>

lemma frac_root_eq:
  assumes "0 < k" "N ^ k \<le> p * (2 ^ 32) ^ k" "p * (2 ^ 32) ^ k < Suc N ^ k"
  shows "frac_root k p = of_nat N"
proof -
  have "M \<le> N" if "M ^ k \<le> p * (2 ^ 32) ^ k" for M
    using that assms(3) power_less_imp_less_base [of M k "Suc N"] by simp
  then have "(GREATEST N. N ^ k \<le> p * (2 ^ 32) ^ k) = N" using assms(2) by (intro Greatest_equality) simp_all
  then show ?thesis by (simp add: frac_root_def)
qed

text \<open>The whole part of the root completes the thirty-two bits to the scaled root.\<close>

definition root_bits :: "nat \<Rightarrow> nat \<Rightarrow> nat \<times> u32 \<Rightarrow> bool" where
  "root_bits k p = (\<lambda>(i, w). (i * 2 ^ 32 + unat w) ^ k \<le> p * (2 ^ 32) ^ k \<and> p * (2 ^ 32) ^ k < Suc (i * 2 ^ 32 + unat w) ^ k)"

lemma root_bits: "0 < k \<Longrightarrow> root_bits k p (i, w) \<Longrightarrow> frac_root k p = w"
proof -
  assume "0 < k" "root_bits k p (i, w)"
  then have "frac_root k p = of_nat (i * 2 ^ 32 + unat w)" using frac_root_eq [of k "i * 2 ^ 32 + unat w" p] by (simp only: root_bits_def prod.case)
  moreover have "(2 :: u32) ^ 32 = 0" by simp
  then have "(of_nat (i * 2 ^ 32 + unat w) :: u32) = w" by (simp only: of_nat_add of_nat_mult of_nat_power of_nat_numeral) simp
  ultimately show ?thesis by simp
qed

lemma root_bits_map: "list_all2 (root_bits k) ps iws \<Longrightarrow> 0 < k \<Longrightarrow> map (frac_root k) ps = map snd iws"
  by (induction rule: list_all2_induct) (auto simp: root_bits)

lemma K_roots: "map (frac_root 3) fips_primes = K"
proof -
  let ?whole = "[1, 1, 1, 1, 2, 2, 2, 2, 2, 3, 3, 3, 3, 3, 3, 3, 3, 3, 4, 4, 4, 4, 4, 4, 4, 4, 4, 4, 4, 4, 5, 5, 5, 5, 5, 5, 5, 5, 5, 5,
   5, 5, 5, 5, 5, 5, 5, 6, 6, 6, 6, 6, 6, 6, 6, 6, 6, 6, 6, 6, 6, 6, 6, 6]"
  have "list_all2 (root_bits 3) fips_primes (zip ?whole K)" by (simp add: fips_primes_def K_def root_bits_def)
  from root_bits_map [OF this] show ?thesis by (simp add: K_def)
qed

lemma H0_roots: "fips_H0 = INITIAL_STATE"
proof -
  have "list_all2 (root_bits 2) (take 8 fips_primes) (zip [1, 1, 2, 2, 3, 3, 4, 4] INITIAL_STATE)"
    by (simp add: fips_primes_def INITIAL_STATE_def root_bits_def)
  from root_bits_map [OF this] show ?thesis by (simp add: INITIAL_STATE_def fips_H0_def)
qed

section \<open>The compression function is the standard's\<close>

lemma length_K [simp]: "length K = 64"
  by (simp add: K_def)

lemma fips_K_eq: "t < 64 \<Longrightarrow> fips_K t = K ! t"
  using K_roots length_K by (metis fips_K_def length_map nth_map)

lemma words_of_nth: "length m = 4 * n \<Longrightarrow> length (words_of m) = n \<and> (\<forall>t < n. words_of m ! t =
    from_be_bytes32 (m ! (4 * t)) (m ! (4 * t + 1)) (m ! (4 * t + 2)) (m ! (4 * t + 3)))"
proof (induction m arbitrary: n rule: words_of.induct)
  case (1 a b c d rest)
  then obtain n' where n: "n = Suc n'" "length rest = 4 * n'" by (cases n) simp_all
  with 1 show ?case by (auto simp: nth_Cons' less_Suc_eq_0_disj add.commute)
qed simp_all

lemma extend_W:
  assumes "length w = 64" "\<forall>t < n. w ! t = fips_W m t" "16 \<le> n" "n < 64"
  shows "length (extend w n) = 64 \<and> (\<forall>t < Suc n. extend w n ! t = fips_W m t)"
proof -
  have "extend w n ! n = fips_W m n"
    using assms by (simp add: extend_def fips_W.simps [of m n] fips_sigma0_def fips_sigma1_def schedule_s0_def schedule_s1_def algebra_simps)
  then show ?thesis using assms by (auto simp: less_Suc_eq) (simp_all add: extend_def)
qed

lemma extended_W:
  assumes "length m = 64"
  shows "16 + k \<le> 64 \<Longrightarrow> length (foldl extend (words_of m @ replicate (64 - length (words_of m)) 0) [16..<16 + k]) = 64 \<and>
    (\<forall>t < 16 + k. foldl extend (words_of m @ replicate (64 - length (words_of m)) 0) [16..<16 + k] ! t = fips_W m t)"
proof (induction k)
  case 0
  then show ?case using words_of_nth [of m 16] assms by (simp add: nth_append fips_W.simps)
next
  case (Suc k)
  define w where "w = foldl extend (words_of m @ replicate (64 - length (words_of m)) 0) [16..<16 + k]"
  have "foldl extend (words_of m @ replicate (64 - length (words_of m)) 0) [16..<16 + Suc k] = extend w (16 + k)"
    unfolding w_def by (simp only: add_Suc_right upt_Suc_append le_add1 foldl_append foldl.simps)
  moreover have "length w = 64" "\<forall>t < 16 + k. w ! t = fips_W m t" using Suc by (simp_all add: w_def)
  from extend_W [OF this] Suc.prems have "length (extend w (16 + k)) = 64 \<and> (\<forall>t < Suc (16 + k). extend w (16 + k) ! t = fips_W m t)" by simp
  ultimately show ?case unfolding add_Suc_right by metis
qed

lemma schedule_W: "length m = 64 \<Longrightarrow> length (schedule m) = 64 \<and> (\<forall>t < 64. schedule m ! t = fips_W m t)"
  unfolding schedule_def using extended_W [of m 48] by simp

lemma rounds_vars: "length m = 64 \<Longrightarrow> n \<le> 64 \<Longrightarrow> foldl sha_round v (take n (zip K (schedule m))) = fips_vars m v n"
proof (induction n)
  case (Suc n)
  have "take (Suc n) (zip K (schedule m)) = take n (zip K (schedule m)) @ [(fips_K n, fips_W m n)]"
    using Suc.prems schedule_W [of m] by (simp add: take_Suc_conv_app_nth fips_K_eq)
  with Suc show ?case
    by (simp add: round_t1_def round_t2_def fips_Sigma0_def fips_Sigma1_def fips_Ch_def fips_Maj_def Let_def split: prod.splits)
qed simp

lemma compress_block:
  assumes "length H = 8" "length m = 64"
  shows "fips_block H m = compress H m"
proof -
  obtain a b c d e f g h where H: "H = [a, b, c, d, e, f, g, h]"
    using assms(1) by (auto simp: numeral_eq_Suc length_Suc_conv)
  have "foldl sha_round v (zip K (schedule m)) = fips_vars m v 64" for v
    using rounds_vars [OF assms(2), of 64 v] schedule_W [OF assms(2)] by simp
  then show ?thesis by (simp add: H fips_block_def compress_def add.commute split: prod.splits)
qed

lemma length_compress: "length H = 8 \<Longrightarrow> length (compress H m) = 8"
  by (cases "foldl sha_round (H ! 0, H ! 1, H ! 2, H ! 3, H ! 4, H ! 5, H ! 6, H ! 7) (zip K (schedule m))")
    (auto simp: numeral_eq_Suc length_Suc_conv compress_def)

lemma fips_blocks:
  assumes "\<forall>i \<in> set js. length (f i) = 64" "length H = 8"
  shows "foldl (\<lambda>h i. fips_block h (f i)) H js = foldl (\<lambda>h i. compress h (f i)) H js"
  using assms by (induction js arbitrary: H) (simp_all add: compress_block length_compress)

lemma fips_sha256_compress:
  "fips_sha256 m = (let p = fips_pad m
     in concat (map to_be_bytes32 (foldl (\<lambda>h i. compress h (block_at p i)) INITIAL_STATE [0..<length p div 64])))"
proof -
  have "length (block_at p i) = 64" if "i < length p div 64" for p i using that by (simp add: block_at_def)
  then show ?thesis unfolding fips_sha256_def Let_def H0_roots by (subst fips_blocks) (auto simp: INITIAL_STATE_def)
qed

section \<open>The hasher\<close>

record Sha256 =
  sh_state :: "u32 list"
  sh_buffer :: "u8 list"
  sh_buffered :: nat
  sh_len_bytes :: u64

definition Sha256_new :: Sha256 where
  "Sha256_new = \<lparr>sh_state = INITIAL_STATE, sh_buffer = replicate BLOCK_LEN 0, sh_buffered = 0, sh_len_bytes = 0\<rparr>"

definition saturating_add64 :: "u64 \<Rightarrow> u64 \<Rightarrow> u64" where
  "saturating_add64 x y = (if x + y < x then 0xFFFFFFFFFFFFFFFF else x + y)"

definition saturating_mul64 :: "u64 \<Rightarrow> u64 \<Rightarrow> u64" where
  "saturating_mul64 x y = (if y \<noteq> 0 \<and> x > 0xFFFFFFFFFFFFFFFF div y then 0xFFFFFFFFFFFFFFFF else x * y)"

text \<open>The loop over whole blocks, with the remainder it leaves.\<close>

function compress_blocks :: "u32 list \<Rightarrow> u8 list \<Rightarrow> u32 list \<times> u8 list" where
  "compress_blocks state rest =
     (if BLOCK_LEN \<le> length rest
      then compress_blocks (compress state (take BLOCK_LEN rest)) (drop BLOCK_LEN rest)
      else (state, rest))"
  by pat_completeness auto
termination
  by (relation "measure (\<lambda>(state, rest). length rest)") (auto simp: BLOCK_LEN_def)

declare compress_blocks.simps [simp del]

definition copy_into :: "u8 list \<Rightarrow> nat \<Rightarrow> u8 list \<Rightarrow> u8 list" where
  "copy_into buffer at bytes = take at buffer @ bytes @ drop (at + length bytes) buffer"

definition absorb_blocks :: "Sha256 \<Rightarrow> u8 list \<Rightarrow> Sha256" where
  "absorb_blocks s rest =
     (let (state, tail) = compress_blocks (sh_state s) rest
      in s\<lparr>sh_state := state, sh_buffer := copy_into (sh_buffer s) 0 tail, sh_buffered := length tail\<rparr>)"

definition Sha256_update :: "Sha256 \<Rightarrow> u8 list \<Rightarrow> Sha256" where
  "Sha256_update s0 bytes =
     (let s = s0\<lparr>sh_len_bytes := saturating_add64 (sh_len_bytes s0) (of_nat (length bytes))\<rparr> in
      if sh_buffered s > 0 then
        (let taken = min (BLOCK_LEN - sh_buffered s) (length bytes);
             s1 = s\<lparr>sh_buffer := copy_into (sh_buffer s) (sh_buffered s) (take taken bytes), sh_buffered := sh_buffered s + taken\<rparr>
         in if sh_buffered s1 < BLOCK_LEN then s1
            else absorb_blocks (s1\<lparr>sh_state := compress (sh_state s1) (sh_buffer s1), sh_buffered := 0\<rparr>) (drop taken bytes))
      else absorb_blocks s bytes)"

definition Sha256_finalize :: "Sha256 \<Rightarrow> u8 list" where
  "Sha256_finalize s =
     (let bits = saturating_mul64 (sh_len_bytes s) 8;
          padded = copy_into (sh_buffer s) (sh_buffered s) [0x80];
          pad = sh_buffered s + 1;
          buffer = copy_into padded pad (replicate (BLOCK_LEN - pad) 0);
          (state, last_block) = (if pad > BLOCK_LEN - 8
                                 then (compress (sh_state s) buffer, replicate BLOCK_LEN 0)
                                 else (sh_state s, buffer));
          full = copy_into last_block (BLOCK_LEN - 8) (to_be_bytes64 bits)
      in concat (map to_be_bytes32 (compress state full)))"

definition sha256 :: "u8 list \<Rightarrow> u8 list" where
  "sha256 bytes = Sha256_finalize (Sha256_update Sha256_new bytes)"

definition hex_digit :: "nat \<Rightarrow> char" where
  "hex_digit n = ''0123456789abcdef'' ! n"

definition to_hex :: "u8 list \<Rightarrow> string" where
  "to_hex digest = concat (map (\<lambda>byte. [hex_digit (unat byte div 16), hex_digit (unat byte mod 16)]) digest)"

section \<open>Streaming\<close>

text \<open>The hasher after a message: its blocks compressed, the remainder waiting.\<close>

definition hashed :: "Sha256 \<Rightarrow> u8 list \<Rightarrow> bool" where
  "hashed s m =
     (compress_blocks INITIAL_STATE m = (sh_state s, take (sh_buffered s) (sh_buffer s))
      \<and> sh_buffered s < 64 \<and> length (sh_buffer s) = 64 \<and> (length m < 2 ^ 61 \<longrightarrow> sh_len_bytes s = of_nat (length m)))"

lemma compress_blocks_rest: "length (snd (compress_blocks st m)) < 64"
  by (induction st m rule: compress_blocks.induct) (subst compress_blocks.simps, simp add: BLOCK_LEN_def)

lemma compress_blocks_append:
  "compress_blocks st (m @ b) = (let (st', r) = compress_blocks st m in compress_blocks st' (r @ b))"
proof (induction st m rule: compress_blocks.induct)
  case (1 st m)
  show ?case
  proof (cases "BLOCK_LEN \<le> length m")
    case True
    then have "compress_blocks st (m @ b) = compress_blocks (compress st (take BLOCK_LEN m)) (drop BLOCK_LEN m @ b)"
      by (subst compress_blocks.simps) simp
    with 1 True show ?thesis by (simp add: compress_blocks.simps [of st m])
  qed (simp add: compress_blocks.simps [of st m])
qed

lemma compress_blocks_one: "length block = 64 \<Longrightarrow> compress_blocks st (block @ b) = compress_blocks (compress st block) b"
  by (subst compress_blocks.simps) (simp add: BLOCK_LEN_def)

lemma compress_blocks_short: "length m < 64 \<Longrightarrow> compress_blocks st m = (st, m)"
  by (subst compress_blocks.simps) (simp add: BLOCK_LEN_def)

lemma length_copy_into: "at + length bytes \<le> length buffer \<Longrightarrow> length (copy_into buffer at bytes) = length buffer"
  by (simp add: copy_into_def)

lemma absorb_blocks_state:
  assumes "length (sh_buffer s) = 64"
  shows "compress_blocks (sh_state s) rest = (sh_state (absorb_blocks s rest), take (sh_buffered (absorb_blocks s rest)) (sh_buffer (absorb_blocks s rest)))"
    and "sh_buffered (absorb_blocks s rest) < 64" and "length (sh_buffer (absorb_blocks s rest)) = 64"
    and "sh_len_bytes (absorb_blocks s rest) = sh_len_bytes s"
  using assms compress_blocks_rest [of "sh_state s" rest]
  by (auto simp: absorb_blocks_def copy_into_def split: prod.split)

lemma unat_of_nat_u64: "n < 2 ^ 64 \<Longrightarrow> unat (of_nat n :: u64) = n"
  by (simp add: unat_of_nat take_bit_nat_eq_self)

lemma saturating_add_exact:
  assumes "n + k < 2 ^ 61"
  shows "saturating_add64 (of_nat n) (of_nat k) = of_nat (n + k)"
proof -
  have "unat (of_nat (n + k) :: u64) = n + k" "unat (of_nat n :: u64) = n"
    using assms by (intro unat_of_nat_u64, simp)+
  then have "\<not> (of_nat (n + k) :: u64) < of_nat n" by (simp add: word_less_nat_alt)
  then show ?thesis by (simp add: saturating_add64_def)
qed

lemma saturating_mul_exact:
  assumes "n < 2 ^ 61"
  shows "saturating_mul64 (of_nat n) 8 = of_nat (8 * n)"
proof -
  have "unat (of_nat n :: u64) = n" using assms by (intro unat_of_nat_u64) simp
  then have "\<not> of_nat n > (0xFFFFFFFFFFFFFFFF div 8 :: u64)" using assms by (simp add: word_less_nat_alt)
  then show ?thesis by (simp add: saturating_mul64_def)
qed

lemma hashed_absorb:
  assumes "length (sh_buffer t) = 64" "compress_blocks INITIAL_STATE m = compress_blocks (sh_state t) rest"
    "length m < 2 ^ 61 \<Longrightarrow> sh_len_bytes t = of_nat (length m)"
  shows "hashed (absorb_blocks t rest) m"
  unfolding hashed_def using assms(2,3) absorb_blocks_state [OF assms(1), of rest] by auto

lemma hashed_new: "hashed Sha256_new []"
  by (simp add: hashed_def Sha256_new_def compress_blocks_short BLOCK_LEN_def)

lemma hashed_update:
  assumes "hashed s m"
  shows "hashed (Sha256_update s b) (m @ b)"
proof -
  define l where "l = saturating_add64 (sh_len_bytes s) (of_nat (length b))"
  have len: "length (m @ b) < 2 ^ 61 \<Longrightarrow> l = of_nat (length (m @ b))"
    using assms saturating_add_exact [of "length m" "length b"] by (simp add: hashed_def l_def)
  have s: "compress_blocks INITIAL_STATE m = (sh_state s, take (sh_buffered s) (sh_buffer s))" "sh_buffered s < 64" "length (sh_buffer s) = 64"
    using assms by (simp_all add: hashed_def)
  let ?r = "take (sh_buffered s) (sh_buffer s)" and ?k = "min (64 - sh_buffered s) (length b)"
  have all: "compress_blocks INITIAL_STATE (m @ b) = compress_blocks (sh_state s) (?r @ b)"
    by (subst compress_blocks_append) (simp add: s(1))
  consider "sh_buffered s = 0" | "0 < sh_buffered s" "sh_buffered s + length b < 64" | "0 < sh_buffered s" "64 \<le> sh_buffered s + length b"
    by linarith
  then show ?thesis
  proof cases
    case 1
    let ?t = "s\<lparr>sh_len_bytes := l\<rparr>"
    have "Sha256_update s b = absorb_blocks ?t b" using 1 by (simp add: Sha256_update_def l_def Let_def)
    moreover have "hashed (absorb_blocks ?t b) (m @ b)" by (rule hashed_absorb) (use all s(3) 1 len in simp_all)
    ultimately show ?thesis by simp
  next
    case 2
    then have "Sha256_update s b = s\<lparr>sh_len_bytes := l, sh_buffer := copy_into (sh_buffer s) (sh_buffered s) b, sh_buffered := sh_buffered s + length b\<rparr>"
      by (simp add: Sha256_update_def l_def Let_def BLOCK_LEN_def min_def)
    moreover have "compress_blocks (sh_state s) (?r @ b) = (sh_state s, ?r @ b)" using 2 s by (intro compress_blocks_short) simp
    ultimately show ?thesis using 2 s all len by (simp add: hashed_def copy_into_def)
  next
    case 3
    then have k: "?k = 64 - sh_buffered s" by simp
    let ?block = "?r @ take ?k b"
    have block: "length ?block = 64" "copy_into (sh_buffer s) (sh_buffered s) (take ?k b) = ?block" using 3 s by (simp_all add: copy_into_def k)
    let ?t = "s\<lparr>sh_len_bytes := l, sh_buffer := ?block, sh_buffered := 64, sh_state := compress (sh_state s) ?block, sh_buffered := 0\<rparr>"
    have "Sha256_update s b = absorb_blocks ?t (drop ?k b)"
      using 3 s block by (simp add: Sha256_update_def l_def Let_def BLOCK_LEN_def)
    moreover have "compress_blocks (sh_state s) (?r @ b) = compress_blocks (compress (sh_state s) ?block) (drop ?k b)"
      using compress_blocks_one [OF block(1), of "sh_state s" "drop ?k b"] by simp
    then have "hashed (absorb_blocks ?t (drop ?k b)) (m @ b)"
      by (intro hashed_absorb) (use all block(1) len in simp_all)
    ultimately show ?thesis by simp
  qed
qed

text \<open>The reference, one block after the other, is the loop over the whole message.\<close>

lemma foldl_blocks: "fst (compress_blocks st m) = foldl (\<lambda>h i. compress h (block_at m i)) st [0..<length m div 64]"
proof (induction st m rule: compress_blocks.induct)
  case (1 st m)
  show ?case
  proof (cases "64 \<le> length m")
    case True
    have "length m div 64 = Suc ((length m - 64) div 64)" using True by (simp add: div_if)
    then have r: "[0..<length m div 64] = 0 # map Suc [0..<(length m - 64) div 64]"
      by (simp add: map_Suc_upt upt_conv_Cons del: upt_Suc)
    have b: "block_at m (Suc i) = block_at (drop 64 m) i" "block_at m 0 = take 64 m" for i
      by (simp_all add: block_at_def add.commute)
    from 1 True show ?thesis by (simp add: compress_blocks.simps [of st m] BLOCK_LEN_def r foldl_map b)
  qed (simp add: compress_blocks_short)
qed

lemma fips_zeros_cases: "fips_zeros n = (if n mod 64 \<le> 55 then 55 - n mod 64 else 119 - n mod 64)"
  by (cases "n mod 64 \<le> 55") (simp_all add: fips_zeros_def le_mod_geq)

text \<open>The padding is the fewest zeros that leave the length at the end of a block.\<close>

lemma fips_pad_whole: "length (fips_pad m) mod 64 = 0" "fips_zeros (length m) < 64"
proof -
  have "(length m + 9 + fips_zeros (length m)) mod 64 = (length m mod 64 + 9 + fips_zeros (length m)) mod 64" by (metis mod_add_left_eq)
  also have "\<dots> = 0" by (simp add: fips_zeros_cases)
  finally show "length (fips_pad m) mod 64 = 0" by (simp add: fips_pad_def algebra_simps)
  show "fips_zeros (length m) < 64" by (simp add: fips_zeros_def)
qed

lemma compress_blocks_last: "length block = 64 \<Longrightarrow> compress_blocks st block = (compress st block, [])"
  using compress_blocks_one [of block st "[]"] by (simp add: compress_blocks_short)

lemma rest_length: "length (snd (compress_blocks st m)) = length m mod 64"
proof (induction st m rule: compress_blocks.induct)
  case (1 st m)
  then show ?case by (cases "64 \<le> length m") (simp_all add: compress_blocks.simps [of st m] BLOCK_LEN_def le_mod_geq)
qed

lemma finalize_hashed:
  assumes "hashed s m" "length m < 2 ^ 61"
  shows "Sha256_finalize s = fips_sha256 m"
proof -
  let ?r = "take (sh_buffered s) (sh_buffer s)" and ?n = "sh_buffered s"
  let ?len = "to_be_bytes64 (of_nat (8 * length m))"
  have s: "compress_blocks INITIAL_STATE m = (sh_state s, ?r)" "?n < 64" "length (sh_buffer s) = 64" "sh_len_bytes s = of_nat (length m)"
    using assms by (simp_all add: hashed_def)
  have bits: "saturating_mul64 (sh_len_bytes s) 8 = of_nat (8 * length m)" unfolding s(4) by (rule saturating_mul_exact [OF assms(2)])
  have n: "length m mod 64 = ?n" using rest_length [of INITIAL_STATE m] s by simp
  let ?tail = "0x80 # replicate (fips_zeros (length m)) 0 @ ?len"
  have whole: "compress_blocks INITIAL_STATE (fips_pad m) = compress_blocks (sh_state s) (?r @ ?tail)"
    unfolding fips_pad_def by (subst compress_blocks_append) (simp add: s(1))
  let ?pad = "?r @ 0x80 # replicate (63 - ?n) 0"
  have pad: "copy_into (copy_into (sh_buffer s) ?n [0x80]) (Suc ?n) (replicate (63 - ?n) 0) = ?pad" "length ?pad = 64"
    using s(2,3) by (simp_all add: copy_into_def)
  have "Sha256_finalize s = concat (map to_be_bytes32 (fst (compress_blocks (sh_state s) (?r @ ?tail))))"
  proof (cases "?n + 1 > 56")
    case False
    have "copy_into ?pad 56 ?len = ?r @ ?tail"
      using False s(2,3) by (simp add: copy_into_def fips_zeros_cases n take_Cons')
    moreover have "length (?r @ ?tail) = 64" using False s(2,3) by (simp add: fips_zeros_cases n)
    ultimately show ?thesis
      using False by (simp add: Sha256_finalize_def Let_def BLOCK_LEN_def pad(1) bits compress_blocks_last del: append_Cons)
  next
    case True
    have split: "?r @ ?tail = ?pad @ (replicate 56 0 @ ?len)"
      using True s(2,3) by (simp add: fips_zeros_cases n replicate_add [symmetric])
    have last: "copy_into (replicate 64 0) 56 ?len = replicate 56 0 @ ?len" "length (replicate 56 0 @ ?len) = 64" by (simp_all add: copy_into_def)
    have "compress_blocks (sh_state s) (?r @ ?tail) = (compress (compress (sh_state s) ?pad) (replicate 56 0 @ ?len), [])"
      unfolding split compress_blocks_one [OF pad(2)] by (rule compress_blocks_last [OF last(2)])
    then show ?thesis
      using True last(1) by (simp add: Sha256_finalize_def Let_def BLOCK_LEN_def pad(1) bits del: append_Cons)
  qed
  also have "\<dots> = fips_sha256 m" by (simp add: fips_sha256_compress Let_def foldl_blocks [symmetric] whole)
  finally show ?thesis .
qed

lemma hashed_pieces: "hashed s m \<Longrightarrow> hashed (foldl Sha256_update s pieces) (m @ concat pieces)"
  by (induction pieces arbitrary: s m) (use hashed_update in fastforce)+

lemma finalize_pieces:
  "length (concat pieces) < 2 ^ 61 \<Longrightarrow> Sha256_finalize (foldl Sha256_update Sha256_new pieces) = fips_sha256 (concat pieces)"
  using finalize_hashed hashed_pieces [OF hashed_new, of pieces] by simp

text \<open>
  Claim C39. The streaming hasher computes SHA-256: for a message below \<open>2\<^sup>61\<close> bytes, fed in any number of
  pieces of any sizes, the digest is that of FIPS 180-4 on the whole message, padded and folded block
  by block through the standard's own schedule, rounds and constants; in particular the digest does not depend on how the message was split.
\<close>

theorem hasher_computes_sha256:
  assumes "length (concat pieces) < 2 ^ 61"
  shows "Sha256_finalize (foldl Sha256_update Sha256_new pieces) = fips_sha256 (concat pieces)
         \<and> sha256 (concat pieces) = fips_sha256 (concat pieces)"
  using finalize_pieces [OF assms] finalize_pieces [of "[concat pieces]"] assms by (simp add: sha256_def)

text \<open>The published vector for \<open>abc\<close>: its schedule, its sixty-four rounds, its digest.\<close>

definition abc_block :: "u8 list" where
  "abc_block = [0x61, 0x62, 0x63, 0x80] @ replicate 59 0 @ [0x18]"

lemma abc_schedule: "schedule abc_block = 
  [0x61626380, 0x00000000, 0x00000000, 0x00000000, 0x00000000, 0x00000000, 0x00000000, 0x00000000,
   0x00000000, 0x00000000, 0x00000000, 0x00000000, 0x00000000, 0x00000000, 0x00000000, 0x00000018,
   0x61626380, 0x000f0000, 0x7da86405, 0x600003c6, 0x3e9d7b78, 0x0183fc00, 0x12dcbfdb, 0xe2e2c38e,
   0xc8215c1a, 0xb73679a2, 0xe5bc3909, 0x32663c5b, 0x9d209d67, 0xec8726cb, 0x702138a4, 0xd3b7973b,
   0x93f5997f, 0x3b68ba73, 0xaff4ffc1, 0xf10a5c62, 0x0a8b3996, 0x72af830a, 0x9409e33e, 0x24641522,
   0x9f47bf94, 0xf0a64f5a, 0x3e246a79, 0x27333ba3, 0x0c4763f2, 0x840abf27, 0x7a290d5d, 0x065c43da,
   0xfb3e89cb, 0xcc7617db, 0xb9e66c34, 0xa9993667, 0x84badedd, 0xc21462bc, 0x1487472c, 0xb20f7a99,
   0xef57b9cd, 0xebe6b238, 0x9fe3095e, 0x78bc8d4b, 0xa43fcf15, 0x668b2ff8, 0xeeaba2cc, 0x12b1edeb]"
  by code_simp

lemma abc_compress: "concat (map to_be_bytes32 (compress INITIAL_STATE abc_block)) =
  [0xba, 0x78, 0x16, 0xbf, 0x8f, 0x01, 0xcf, 0xea, 0x41, 0x41, 0x40, 0xde, 0x5d, 0xae, 0x22, 0x23,
   0xb0, 0x03, 0x61, 0xa3, 0x96, 0x17, 0x7a, 0x9c, 0xb4, 0x10, 0xff, 0x61, 0xf2, 0x00, 0x15, 0xad]"
proof -
  have "compress INITIAL_STATE abc_block =
    [0xba7816bf, 0x8f01cfea, 0x414140de, 0x5dae2223, 0xb00361a3, 0x96177a9c, 0xb410ff61, 0xf20015ad]"
    by (simp only: compress_def abc_schedule K_def append_Cons append_Nil INITIAL_STATE_def zip_Cons_Cons zip_Nil foldl_Cons foldl_Nil list.case) code_simp
  then show ?thesis by (simp add: to_be_bytes32_def)
qed

lemma abc_digest: "fips_sha256 [0x61, 0x62, 0x63] =
  [0xba, 0x78, 0x16, 0xbf, 0x8f, 0x01, 0xcf, 0xea, 0x41, 0x41, 0x40, 0xde, 0x5d, 0xae, 0x22, 0x23,
   0xb0, 0x03, 0x61, 0xa3, 0x96, 0x17, 0x7a, 0x9c, 0xb4, 0x10, 0xff, 0x61, 0xf2, 0x00, 0x15, 0xad]"
proof -
  have "fips_pad [0x61, 0x62, 0x63] = abc_block" by code_simp
  moreover have "length abc_block div 64 = 1" "block_at abc_block 0 = abc_block" by (simp_all add: abc_block_def block_at_def)
  ultimately show ?thesis by (simp add: fips_sha256_compress Let_def abc_compress)
qed

theorem hasher_computes_sha256_witness:
  "Sha256_finalize (foldl Sha256_update Sha256_new [[0x61], [], [0x62, 0x63]]) =
  [0xba, 0x78, 0x16, 0xbf, 0x8f, 0x01, 0xcf, 0xea, 0x41, 0x41, 0x40, 0xde, 0x5d, 0xae, 0x22, 0x23,
   0xb0, 0x03, 0x61, 0xa3, 0x96, 0x17, 0x7a, 0x9c, 0xb4, 0x10, 0xff, 0x61, 0xf2, 0x00, 0x15, 0xad]"
  using hasher_computes_sha256 [of "[[0x61], [], [0x62, 0x63]]"] by (simp add: abc_digest)

end
