(* ===== verification/Prefix_Code.thy ===== *)
theory Prefix_Code
  imports Main
begin

text \<open>
  Encodings that say where they end. A prefix code lets a reader of the bytes recover each item and
  what follows it, so a list of a known number of items, each encoded, is recovered too, and so is a
  pair encoded one after the other.
\<close>

locale prefix_code =
  fixes ok :: "'a \<Rightarrow> bool"
    and enc :: "'a \<Rightarrow> 'b list"
  assumes determined: "ok v \<Longrightarrow> ok w \<Longrightarrow> enc v @ xs = enc w @ ys \<Longrightarrow> v = w \<and> xs = ys"
begin

lemma list_determined:
  "length vs = length ws \<Longrightarrow> list_all ok vs \<Longrightarrow> list_all ok ws \<Longrightarrow>
   concat (map enc vs) @ xs = concat (map enc ws) @ ys \<Longrightarrow> vs = ws \<and> xs = ys"
proof (induction vs ws rule: list_induct2)
  case (Cons v vs w ws)
  then have "enc v @ (concat (map enc vs) @ xs) = enc w @ (concat (map enc ws) @ ys)" by simp
  with Cons.prems determined have "v = w" "concat (map enc vs) @ xs = concat (map enc ws) @ ys" by (metis list.pred_inject(2))+
  with Cons show ?case by simp
qed simp

end

end
