(* ===== verification/Vm_Trace.thy ===== *)
theory Vm_Trace
  imports Vm_Task Core_Hash Prefix_Code
begin

text \<open>
  The fingerprint of a trace, from \<open>crates/salman-vm/src/trace.rs\<close>: the bytes that are hashed, piece by
  piece, and that they determine what was recorded. A name is modelled by the bytes of its UTF-8 form,
  one character each; where the code writes a length as \<open>u32\<close>, it is narrowed here too.
\<close>

section \<open>The bytes that are hashed\<close>

definition TRACE_FORMAT_VERSION :: u32 where "TRACE_FORMAT_VERSION = 1"

definition as_bytes :: "string \<Rightarrow> u8 list" where
  "as_bytes s = map of_char s"

definition name_pieces :: "string \<Rightarrow> u8 list list" where
  "name_pieces name = [to_le_bytes (of_nat (length name) :: u32), as_bytes name]"

definition sample_pieces :: "Sample \<Rightarrow> u8 list list" where
  "sample_pieces s =
     [to_le_bytes (of_nat (sa_scan s) :: u64), to_le_bytes (word_of_int (sa_time s) :: u64), to_le_bytes (of_nat (sa_task s) :: u16)]
     @ map (\<lambda>v. write_canonical_bytes v []) (sa_values s)"

definition trace_pieces :: "Trace \<Rightarrow> u8 list list" where
  "trace_pieces t =
     [as_bytes ''salman-trace-v'', to_le_bytes TRACE_FORMAT_VERSION, to_le_bytes (of_nat (length (tr_signals t)) :: u32)]
     @ concat (map (\<lambda>g. name_pieces (sg_name g)) (tr_signals t))
     @ [to_le_bytes (of_nat (length (tr_samples t)) :: u64)]
     @ concat (map sample_pieces (tr_samples t))"

definition fingerprint :: "Trace \<Rightarrow> u8 list" where
  "fingerprint t = Sha256_finalize (foldl Sha256_update Sha256_new (trace_pieces t))"

definition fingerprint_hex :: "Trace \<Rightarrow> string" where
  "fingerprint_hex t = to_hex (fingerprint t)"

section \<open>Each item says where it ends\<close>

interpretation value_bytes: prefix_code wf_value "\<lambda>v. write_canonical_bytes v []"
  by unfold_locales (rule canonical_bytes_determine_value)

definition name_ok :: "string \<Rightarrow> bool" where
  "name_ok name = (length name < 2 ^ 32)"

lemma of_char_inject_u8: "(of_char c :: u8) = of_char d \<longleftrightarrow> c = d"
proof
  assume "(of_char c :: u8) = of_char d"
  moreover have "unat (of_char x :: u8) = of_char x" for x :: char
    by (cases x) (simp add: of_char_def unat_of_nat take_bit_nat_eq_self)
  ultimately show "c = d" by (metis of_char_eq_iff)
qed simp

lemma of_nat_inject_below:
  assumes "m < 2 ^ LENGTH('a)" "n < 2 ^ LENGTH('a)"
  shows "(of_nat m :: 'a::len word) = of_nat n \<longleftrightarrow> m = n"
  using assms by (simp add: word_of_nat_eq_iff take_bit_nat_eq_self)

interpretation name_bytes: prefix_code name_ok "\<lambda>name. concat (name_pieces name)"
proof unfold_locales
  fix v w :: string and xs ys :: "u8 list"
  assume ok: "name_ok v" "name_ok w" and eq: "concat (name_pieces v) @ xs = concat (name_pieces w) @ ys"
  then have "(of_nat (length v) :: u32) = of_nat (length w)" "as_bytes v @ xs = as_bytes w @ ys"
    by (simp_all add: name_pieces_def to_le_bytes_append)
  moreover from this ok have "length v = length w" using of_nat_inject_below [where 'a = 32] by (simp add: name_ok_def)
  ultimately have "as_bytes v = as_bytes w" "xs = ys" by (simp_all add: as_bytes_def)
  then show "v = w \<and> xs = ys" using inj_map_eq_map [of "of_char :: char \<Rightarrow> u8" v w] by (simp add: as_bytes_def inj_def of_char_inject_u8)
qed

definition sample_ok :: "nat \<Rightarrow> Sample \<Rightarrow> bool" where
  "sample_ok columns s =
     (sa_scan s < 2 ^ 64 \<and> in_i64 (sa_time s) \<and> sa_task s < 2 ^ 16 \<and> length (sa_values s) = columns \<and> list_all wf_value (sa_values s))"

interpretation sample_bytes: prefix_code "sample_ok columns" "\<lambda>s. concat (sample_pieces s)" for columns
proof unfold_locales
  fix v w :: Sample and xs ys :: "u8 list"
  assume ok: "sample_ok columns v" "sample_ok columns w" and eq: "concat (sample_pieces v) @ xs = concat (sample_pieces w) @ ys"
  then have head: "(of_nat (sa_scan v) :: u64) = of_nat (sa_scan w)" "(word_of_int (sa_time v) :: u64) = word_of_int (sa_time w)"
      "(of_nat (sa_task v) :: u16) = of_nat (sa_task w)"
    and vals: "concat (map (\<lambda>v. write_canonical_bytes v []) (sa_values v)) @ xs = concat (map (\<lambda>v. write_canonical_bytes v []) (sa_values w)) @ ys"
    by (simp_all add: sample_pieces_def to_le_bytes_append)
  have "sa_scan v = sa_scan w" "sa_task v = sa_task w"
    using ok head of_nat_inject_below [where 'a = 64] of_nat_inject_below [where 'a = 16] by (simp_all add: sample_ok_def)
  moreover have "sa_time v = sa_time w" using ok head(2) counts_inject(1) by (simp add: sample_ok_def)
  moreover have "sa_values v = sa_values w \<and> xs = ys" using value_bytes.list_determined [OF _ _ _ vals] ok by (simp add: sample_ok_def)
  ultimately show "v = w \<and> xs = ys" by (auto intro: Sample.equality)
qed

section \<open>The fingerprint covers the trace\<close>

text \<open>What a trace the runtime records always is: one value per signal in each row, within the ranges of its fields.\<close>

definition trace_ok :: "Trace \<Rightarrow> bool" where
  "trace_ok t =
     (length (tr_signals t) < 2 ^ 32 \<and> list_all (\<lambda>g. name_ok (sg_name g)) (tr_signals t)
      \<and> length (tr_samples t) < 2 ^ 64 \<and> list_all (sample_ok (length (tr_signals t))) (tr_samples t))"

lemma to_le_bytes_append_u32: "to_le_bytes (v :: u32) @ xs = to_le_bytes w @ ys \<longleftrightarrow> v = w \<and> xs = ys"
  by (rule to_le_bytes_append) simp

lemma concat_of_concat: "concat (concat xss) = concat (map concat xss)"
  by (induction xss) simp_all

lemma concat_trace_pieces:
  "concat (trace_pieces t) =
     as_bytes ''salman-trace-v'' @ to_le_bytes TRACE_FORMAT_VERSION @ to_le_bytes (of_nat (length (tr_signals t)) :: u32)
     @ concat (map (\<lambda>name. concat (name_pieces name)) (map sg_name (tr_signals t)))
     @ to_le_bytes (of_nat (length (tr_samples t)) :: u64) @ concat (map (\<lambda>s. concat (sample_pieces s)) (tr_samples t))"
  by (simp add: trace_pieces_def concat_of_concat comp_def)

text \<open>
  Claim C40. The fingerprint covers the trace. It is the SHA-256 digest of FIPS 180-4 of one byte string,
  and that byte string determines what was recorded: two traces, each with one value per signal in
  every row, that hash the same bytes have the same signal names in the same order and the same rows,
  with the same scans, times, tasks, values and types of values.
\<close>

theorem fingerprint_covers_trace:
  assumes "trace_ok t" "trace_ok u" "length (concat (trace_pieces t)) < 2 ^ 61"
  shows "fingerprint t = fips_sha256 (concat (trace_pieces t))
         \<and> (concat (trace_pieces t) = concat (trace_pieces u) \<longrightarrow>
            map sg_name (tr_signals t) = map sg_name (tr_signals u) \<and> tr_samples t = tr_samples u)"
proof (intro conjI impI)
  show "fingerprint t = fips_sha256 (concat (trace_pieces t))"
    unfolding fingerprint_def by (rule finalize_pieces [OF assms(3)])
next
  assume "concat (trace_pieces t) = concat (trace_pieces u)"
  then have n: "(of_nat (length (tr_signals t)) :: u32) = of_nat (length (tr_signals u))"
    and rest: "concat (map (\<lambda>name. concat (name_pieces name)) (map sg_name (tr_signals t)))
        @ (to_le_bytes (of_nat (length (tr_samples t)) :: u64) @ concat (map (\<lambda>s. concat (sample_pieces s)) (tr_samples t)))
      = concat (map (\<lambda>name. concat (name_pieces name)) (map sg_name (tr_signals u)))
        @ (to_le_bytes (of_nat (length (tr_samples u)) :: u64) @ concat (map (\<lambda>s. concat (sample_pieces s)) (tr_samples u)))"
    unfolding concat_trace_pieces by (simp_all only: to_le_bytes_append_u32 append_assoc same_append_eq)
  have signals: "length (tr_signals t) = length (tr_signals u)"
    using n assms(1,2) of_nat_inject_below [where 'a = 32] by (simp add: trace_ok_def)
  have names: "map sg_name (tr_signals t) = map sg_name (tr_signals u)"
    and tail: "to_le_bytes (of_nat (length (tr_samples t)) :: u64) @ concat (map (\<lambda>s. concat (sample_pieces s)) (tr_samples t))
      = to_le_bytes (of_nat (length (tr_samples u)) :: u64) @ concat (map (\<lambda>s. concat (sample_pieces s)) (tr_samples u))"
    using name_bytes.list_determined [OF _ _ _ rest] signals assms(1,2) by (simp_all add: trace_ok_def list_all_iff)
  then have "length (tr_samples t) = length (tr_samples u)"
    and rows: "concat (map (\<lambda>s. concat (sample_pieces s)) (tr_samples t)) @ [] = concat (map (\<lambda>s. concat (sample_pieces s)) (tr_samples u)) @ []"
    using assms(1,2) of_nat_inject_below [where 'a = 64] by (simp_all add: to_le_bytes_append trace_ok_def)
  with sample_bytes.list_determined [OF _ _ _ rows, of "length (tr_signals t)"] assms(1,2) signals
  show "tr_samples t = tr_samples u" by (simp add: trace_ok_def)
  show "map sg_name (tr_signals t) = map sg_name (tr_signals u)" by (rule names)
qed

text \<open>Two traces of one signal that differ in one value of one row do not hash the same bytes.\<close>

definition sample_trace :: "Value \<Rightarrow> Trace" where
  "sample_trace v =
     Trace_push \<lparr>sa_scan = 1, sa_time = 20000000, sa_task = 0, sa_values = [v]\<rparr>
       (Trace_push \<lparr>sa_scan = 0, sa_time = 10000000, sa_task = 0, sa_values = [V_Int 1]\<rparr>
         (Trace_new ''0.1.0'' [\<lparr>sg_source = Slot_source 0, sg_name = ''Count''\<rparr>] 0 True))"

lemma sample_trace_ok: "trace_ok (sample_trace (V_Int n))"
  by (simp add: trace_ok_def sample_trace_def Trace_push_def Trace_new_def name_ok_def sample_ok_def i64_bounds)

theorem fingerprint_covers_trace_witness:
  "concat (trace_pieces (sample_trace (V_Int 2))) \<noteq> concat (trace_pieces (sample_trace (V_Int 3)))
   \<and> fingerprint (sample_trace (V_Int 2)) = fips_sha256 (concat (trace_pieces (sample_trace (V_Int 2))))"
proof -
  have "length (concat (trace_pieces (sample_trace (V_Int 2)))) < 2 ^ 61"
    by (simp add: trace_pieces_def sample_trace_def Trace_push_def Trace_new_def name_pieces_def sample_pieces_def
        write_canonical_bytes_def to_le_bytes_def as_bytes_def)
  moreover have "tr_samples (sample_trace (V_Int 2)) \<noteq> tr_samples (sample_trace (V_Int 3))"
    by (simp add: sample_trace_def Trace_push_def)
  ultimately show ?thesis
    using fingerprint_covers_trace [OF sample_trace_ok [of 2] sample_trace_ok [of 3]] by blast
qed

end
