(* ===== verification/Lang_Ast.thy ===== *)
theory Lang_Ast
  imports Plc_Memory Ascii
begin

text \<open>
  The Structured Text syntax tree, from \<open>crates/salman-lang/src/ast.rs\<close>, with the literal values of
  \<open>token.rs\<close> and the names and spans of \<open>salman-core\<close> it is built from.  A node has its number, its kind
  and its span; an identifier is the text that was written and is compared without regard to case.
\<close>

section \<open>Names and literals\<close>

record Span =
  span_file :: nat
  span_start :: nat
  span_end :: nat

record Name =
  name_ident :: string
  name_span :: Span

definition eq_str :: "Name \<Rightarrow> string \<Rightarrow> bool" where
  "eq_str name other \<longleftrightarrow> eq_ignore_ascii_case (name_ident name) other"

type_synonym IdentKey = string
type_synonym NodeId = nat

text \<open>A real literal is the bit pattern of its \<open>f64\<close>.\<close>

datatype LiteralValue =
    L_Bool bool
  | L_Int nat bool "ElementaryType option"
  | L_Real u64 "ElementaryType option"
  | L_Duration Duration bool
  | L_Date int
  | L_TimeOfDay int
  | L_DateAndTime int
  | L_String "u8 list"
  | L_WString "u16 list"

section \<open>Expressions\<close>

datatype UnaryOp = U_Neg | U_Plus | U_Not

datatype BinaryOp =
    B_Pow | B_Mul | B_Div | B_Mod | B_Add | B_Sub | B_Lt | B_Gt | B_Le | B_Ge | B_Eq | B_Ne | B_And | B_Xor | B_Or

fun BinaryOp_is_comparison :: "BinaryOp \<Rightarrow> bool" where
  "BinaryOp_is_comparison op \<longleftrightarrow> op \<in> {B_Lt, B_Gt, B_Le, B_Ge, B_Eq, B_Ne}"

datatype Expr = Expr (expr_id: NodeId) (expr_kind: ExprKind) (expr_span: Span)
and ExprKind =
    X_Literal LiteralValue
  | X_Var Name
  | X_Direct DirectAddress
  | X_Member Expr Name
  | X_Index Expr "Expr list"
  | X_Deref Expr
  | X_Unary UnaryOp Expr
  | X_Binary BinaryOp Expr Expr
  | X_Call Expr "Arg list"
  | X_EnumValue Name Name
  | X_Paren Expr
  | X_Error
and Arg =
    A_Positional Expr
  | A_Input Name Expr
  | A_Output Name "Expr option"

section \<open>Statements\<close>

datatype CaseLabel = Case_Single Expr | Case_Range Expr Expr

datatype Stmt = Stmt (stmt_id: NodeId) (stmt_kind: StmtKind) (stmt_span: Span)
and StmtKind =
    S_Empty
  | S_Assign Expr Expr
  | S_AssignAttempt Expr Expr
  | S_Call Expr
  | S_If "IfBranch list" "Stmt list option"
  | S_Case Expr "CaseArm list" "Stmt list option"
  | S_For Name Expr Expr "Expr option" "Stmt list"
  | S_While Expr "Stmt list"
  | S_Repeat "Stmt list" Expr
  | S_Continue
  | S_Exit
  | S_Return
  | S_Error
and IfBranch = IfBranch (if_condition: Expr) (if_body: "Stmt list") (if_span: Span)
and CaseArm = CaseArm (arm_labels: "CaseLabel list") (arm_body: "Stmt list") (arm_span: Span)

section \<open>Types\<close>

record ArrayDim =
  dim_low :: Expr
  dim_high :: Expr
  dim_span :: Span

datatype TypeRef =
    TR_Elementary ElementaryType Span
  | TR_String ElementaryType "Expr option" Span
  | TR_Named Name
  | TR_Array "ArrayDim list" TypeRef Span
  | TR_Subrange TypeRef Expr Expr Span
  | TR_Error Span

record EnumValueDecl =
  ev_name :: Name
  ev_value :: "Expr option"

section \<open>Declarations\<close>

datatype VarSection =
    Sec_Local | Sec_Input | Sec_Output | Sec_InOut | Sec_Temp | Sec_Global | Sec_External | Sec_Access | Sec_Config

definition is_writable_by_pou :: "VarSection \<Rightarrow> bool" where
  "is_writable_by_pou s \<longleftrightarrow> s \<noteq> Sec_Input"

datatype Retention = Ret_Unspecified | Ret_Retain | Ret_NonRetain

record VarQualifiers =
  vq_retention :: Retention
  vq_constant :: bool
  vq_persistent :: bool

record VarDecl =
  vd_names :: "Name list"
  vd_located_at :: "DirectAddress option"
  vd_located_at_span :: "Span option"
  vd_ty :: TypeRef
  vd_init :: "Expr option"
  vd_span :: Span

record VarBlock =
  vb_section :: VarSection
  vb_qualifiers :: VarQualifiers
  vb_decls :: "VarDecl list"
  vb_span :: Span

datatype TypeDeclKind =
    TD_Alias TypeRef
  | TD_Struct "VarDecl list"
  | TD_Enum "ElementaryType option" "EnumValueDecl list"
  | TD_Subrange TypeRef Expr Expr
  | TD_Array "ArrayDim list" TypeRef

record TypeDecl =
  td_name :: Name
  td_kind :: TypeDeclKind
  td_init :: "Expr option"
  td_span :: Span

datatype PouKind = PK_Program | PK_Function | PK_FunctionBlock

definition PouKind_is_stateful :: "PouKind \<Rightarrow> bool" where
  "PouKind_is_stateful k \<longleftrightarrow> k \<in> {PK_FunctionBlock, PK_Program}"

record Pou =
  pou_kind :: PouKind
  pou_name :: Name
  pou_return_type :: "TypeRef option"
  pou_var_blocks :: "VarBlock list"
  pou_body :: "Stmt list"
  pou_span :: Span

record TaskDecl =
  tk_name :: Name
  tk_single :: "Expr option"
  tk_interval :: "Expr option"
  tk_priority :: "Expr option"
  tk_span :: Span

record ProgramInstance =
  pi_name :: Name
  pi_task :: "Name option"
  pi_program_type :: Name
  pi_span :: Span

record ResourceDecl =
  rd_name :: Name
  rd_on_type :: "Name option"
  rd_var_blocks :: "VarBlock list"
  rd_tasks :: "TaskDecl list"
  rd_programs :: "ProgramInstance list"
  rd_span :: Span

record ConfigurationDecl =
  cd_name :: Name
  cd_var_blocks :: "VarBlock list"
  cd_resources :: "ResourceDecl list"
  cd_span :: Span

datatype Item =
    I_Pou Pou
  | I_Types "TypeDecl list"
  | I_Globals VarBlock
  | I_Configuration ConfigurationDecl

record CompilationUnit =
  cu_file :: nat
  cu_items :: "Item list"
  cu_node_count :: nat

fun CompilationUnit_join :: "CompilationUnit list \<Rightarrow> CompilationUnit option" where
  "CompilationUnit_join [] = None"
| "CompilationUnit_join (first # rest) =
     Some (foldl (\<lambda>acc u. acc\<lparr>cu_node_count := max (cu_node_count acc) (cu_node_count u),
                             cu_items := cu_items acc @ cu_items u\<rparr>) first rest)"

definition pous :: "CompilationUnit \<Rightarrow> Pou list" where
  "pous u = concat (map (\<lambda>item. case item of I_Pou p \<Rightarrow> [p] | _ \<Rightarrow> []) (cu_items u))"

definition configurations :: "CompilationUnit \<Rightarrow> ConfigurationDecl list" where
  "configurations u = concat (map (\<lambda>item. case item of I_Configuration c \<Rightarrow> [c] | _ \<Rightarrow> []) (cu_items u))"

definition CompilationUnit_pou :: "CompilationUnit \<Rightarrow> string \<Rightarrow> Pou option" where
  "CompilationUnit_pou u name = find (\<lambda>p. eq_str (pou_name p) name) (pous u)"

end
