(* ===== verification/Lang_Conversions.thy ===== *)
theory Lang_Conversions
  imports Lang_Types
begin

text \<open>
  What the rules of \<open>Lang_Types\<close> promise: types are interned without changing what an earlier identifier
  means, and an implicit conversion of the table never loses a value when the interpreter performs it,
  except from \<open>BOOL\<close>, which the table allows and the interpreter refuses.
\<close>

section \<open>Small integers through single precision\<close>

lemma integer_units_F32:
  assumes "n < 2 ^ 24"
  shows "fits F32 (n * 2 ^ 149) \<and> units_mag F32 (n * 2 ^ 149) < inf_mag F32"
proof (cases "n = 0")
  case True
  then show ?thesis by (simp add: fits_def units_mag_def inf_mag_def)
next
  case False
  let ?n = "n * 2 ^ 149"
  have "(2::nat) ^ ilog2 n < 2 ^ 24" using ilog2_bounds [of n] False assms by linarith
  then have l: "ilog2 n < 24" by (rule power_less_imp_less_exp [rotated]) simp
  have k: "ilog2 ?n = ilog2 n + 149" using False by (intro ilog2_shift) simp
  have "fits F32 ?n" unfolding fits_def k using l by (intro dvd_mult le_imp_power_dvd) simp
  moreover have "(ilog2 ?n - 23 + 2) * 2 ^ 23 \<le> 151 * (2 ^ 23 :: nat)" using l unfolding k by (intro mult_right_mono) simp_all
  then have "units_mag F32 ?n < 151 * 2 ^ 23" using units_mag_bound [of F32 ?n] by (simp only: F32_simps)
  ultimately show ?thesis by (simp add: inf_mag_def)
qed

lemma small_int_through_f32:
  assumes "\<bar>i\<bar> < 2 ^ 24"
  shows "f32_to_f64 (f64_to_f32 (fl_of_int F64 i)) = fl_of_int F64 i"
    and "\<not> fl_is_nan F32 (f64_to_f32 (fl_of_int F64 i))" and "f64_to_f32 (fl_of_int F64 i) < 2 ^ 32"
proof -
  let ?u = "nat \<bar>i\<bar> * 2 ^ 149"
  have n: "nat \<bar>i\<bar> < 2 ^ 24" "nat \<bar>i\<bar> < 2 ^ 53" using assms by simp_all
  have i53: "\<bar>i\<bar> < 2 ^ 53" using assms by simp
  note u = integer_units_F32 [OF n(1)]
  have e: "nat \<bar>i\<bar> * 2 ^ 1074 = ?u * 2 ^ 925" 
    using power_add [of "2::nat" 149 925] by (simp only: mult.assoc) simp
  have s: "unit_scale F64 - unit_scale F32 = 925" by (simp add: unit_scale_F64 unit_scale_F32)
  from fl_of_int_exact [OF i53] obtain m where m: "fl_of_int F64 i = fl_make F64 (i < 0) m" "m < inf_mag F64"
    "mag_units F64 m = nat \<bar>i\<bar> * 2 ^ 1074" by blast
  have units: "fl_units F64 (fl_of_int F64 i) = ?u * 2 ^ 925" unfolding m(1) finite_make(3) [OF m(2)] m(3) e ..
  have "fl_round F32 (?u * 2 ^ 925) (2 ^ 925) = units_mag F32 ?u"
    using fl_round_exact [of F32 ?u "2 ^ 925"] u by (simp only: zero_less_power zero_less_numeral)
  then have narrow: "f64_to_f32 (fl_of_int F64 i) = fl_make F32 (i < 0) (units_mag F32 ?u)"
    unfolding f64_to_f32_def s units using finite_make [OF m(2), of "i < 0"] by (simp only: m(1) if_False)
  have f: "units_mag F32 ?u < inf_mag F32" using u by simp
  show "\<not> fl_is_nan F32 (f64_to_f32 (fl_of_int F64 i))" unfolding narrow using finite_make(1) [OF f] by simp
  show "f64_to_f32 (fl_of_int F64 i) < 2 ^ 32" unfolding narrow using finite_make(5) [OF f] by (simp add: sign_bit_def)
  have units32: "fl_units F32 (f64_to_f32 (fl_of_int F64 i)) = ?u"
    unfolding narrow finite_make(3) [OF f] using mag_units_inverse u by simp
  have "fl_round F64 (nat \<bar>i\<bar> * 2 ^ 1074) 1 = m"
    using fl_round_exact [of F64 "nat \<bar>i\<bar> * 2 ^ 1074" 1] integer_units [OF n(2)] units_mag_inverse [of F64 m] m(3)
    by (simp only: mult_1_right zero_less_one)
  then show "f32_to_f64 (f64_to_f32 (fl_of_int F64 i)) = fl_of_int F64 i"
    unfolding f32_to_f64_def s units32 e [symmetric] using finite_make [OF f, of "i < 0"] by (simp only: narrow [unfolded m(1)] if_False m(1))
qed

lemma real_of_int:
  assumes "\<bar>i\<bar> < 2 ^ 24"
  shows "real_value E_Real (fl_of_int F64 i) = V_Real (of_nat (f64_to_f32 (fl_of_int F64 i)))"
    "as_f64 (V_Real (of_nat (f64_to_f32 (fl_of_int F64 i)))) = Some (fl_of_int F64 i)"
proof -
  note s = small_int_through_f32 [OF assms]
  have u: "unat (of_nat (f64_to_f32 (fl_of_int F64 i)) :: u32) = f64_to_f32 (fl_of_int F64 i)"
    using s(3) by (simp add: unat_of_nat take_bit_nat_eq_self)
  show "real_value E_Real (fl_of_int F64 i) = V_Real (of_nat (f64_to_f32 (fl_of_int F64 i)))"
    using s(2) u by (simp add: real_value_def Value_real_def canonical_f32_def)
  show "as_f64 (V_Real (of_nat (f64_to_f32 (fl_of_int F64 i)))) = Some (fl_of_int F64 i)" using s(1) u by simp
qed

section \<open>Implicit conversions\<close>

text \<open>The pairs of the table that are not from \<open>BOOL\<close>, by how the value is carried over.\<close>

definition widens_integer :: "ElementaryType \<Rightarrow> ElementaryType \<Rightarrow> bool" where
  "widens_integer from to \<longleftrightarrow> integral from \<and> integral to \<and> from \<noteq> to \<and>
     (case (integer_range from, integer_range to) of
        (Some (l, h), Some (l', h')) \<Rightarrow> l' \<le> l \<and> h \<le> h' \<and> h < 2 ^ 63 | _ \<Rightarrow> False)"

lemma allowed_cases:
  assumes "implicit_conversion_allowed from to w" "from \<noteq> to" "from \<noteq> E_Bool"
  shows "widens_integer from to \<or> from = E_Real \<and> to = E_Lreal \<or> from = E_Time \<and> to = E_LTime \<or>
    to = E_Lreal \<and> from \<in> {E_Sint, E_Int, E_Dint, E_Usint, E_Uint, E_Udint} \<or>
    to = E_Real \<and> from \<in> {E_Sint, E_Int, E_Usint, E_Uint}"
  using assms by (cases "from") (auto simp: implicit_conversion_allowed_def IMPLICIT_CONVERSIONS_def widens_integer_def type_sets)

lemma sint_fits: "LENGTH('a::len) = n \<Longrightarrow> - (2 ^ (n - 1)) \<le> sint (w :: 'a word) \<and> sint w \<le> 2 ^ (n - 1) - 1"
  using sint_word_range [of w] by auto

lemma uint_fits: "LENGTH('a::len) = n \<Longrightarrow> 0 \<le> uint (w :: 'a word) \<and> uint w \<le> 2 ^ n - 1"
  using unsigned_less [of w, where ?'a = int] by auto

lemmas word_fits = sint_fits [where ?'a = 8, OF refl, simplified] sint_fits [where ?'a = 16, OF refl, simplified]
  sint_fits [where ?'a = 32, OF refl, simplified] sint_fits [where ?'a = 64, OF refl, simplified]
  uint_fits [where ?'a = 8, OF refl, simplified] uint_fits [where ?'a = 16, OF refl, simplified]
  uint_fits [where ?'a = 32, OF refl, simplified] uint_fits [where ?'a = 64, OF refl, simplified]

lemma as_i64_fits: "as_i64 v = Some i \<Longrightarrow> integer_fits i (type_of v)"
  by (cases v) (auto simp: integer_fits_def checked_i64_def word_fits split: if_splits)

lemma sint_of_int: "- (2 ^ (LENGTH('a) - 1)) \<le> i \<Longrightarrow> i < 2 ^ (LENGTH('a) - 1) \<Longrightarrow> sint (word_of_int i :: 'a::len word) = i"
  by (simp add: signed_of_int signed_take_bit_int_eq_self)

lemma uint_of_int: "0 \<le> i \<Longrightarrow> i < 2 ^ LENGTH('a) \<Longrightarrow> uint (word_of_int i :: 'a::len word) = i"
  by (simp add: unsigned_of_int take_bit_int_eq_self)

lemma wrap_int_reads:
  "integral to \<Longrightarrow> integer_fits i to \<Longrightarrow> i < 2 ^ 63 \<Longrightarrow> \<exists>u. wrap_int i to = Inr u \<and> as_i64 u = Some i"
  by (cases to) (auto simp: type_sets integer_fits_def checked_i64_def sint_of_int uint_of_int i64_bounds)

lemma wrap_int_unread: "integral (type_of v) \<Longrightarrow> as_i64 v = Some i \<Longrightarrow> wrap_int i (type_of v) = Inr v"
  by (cases v) (auto simp: type_sets checked_i64_def split: if_splits)

lemma convert_between_integers:
  assumes "widens_integer (type_of v) to"
  shows "\<exists>u. convert v to = Inr u \<and> convert u (type_of v) = Inr v"
proof -
  have g: "integral (type_of v)" "integral to" "type_of v \<noteq> to" using assms by (simp_all add: widens_integer_def)
  have plain: "to \<notin> {E_Real, E_Lreal, E_LTime, E_Time, E_Bool}" "type_of v \<notin> {E_Real, E_Lreal, E_LTime, E_Time, E_Bool}"
    using g by (auto simp: type_sets)
  obtain i where i: "as_i64 v = Some i"
    using assms g(1) by (cases v) (auto simp: widens_integer_def type_sets)
  have "integer_fits i to" "i < 2 ^ 63"
    using as_i64_fits [OF i] assms by (auto simp: widens_integer_def integer_fits_def split: option.splits)
  from wrap_int_reads [OF g(2) this] obtain u where u: "wrap_int i to = Inr u" "as_i64 u = Some i" by blast
  have "convert v to = Inr u" using i u g plain by (simp add: convert_def)
  moreover have "type_of u = to" using wrap_int_typed [OF u(1)] by simp
  then have "convert u (type_of v) = Inr v" using u(2) g plain wrap_int_unread [OF g(1) i] by (simp add: convert_def)
  ultimately show ?thesis by blast
qed

lemma convert_through_real:
  assumes "integral (type_of v)" "as_i64 v = Some i" "\<bar>i\<bar> < 2 ^ 24"
  shows "\<exists>u. convert v E_Real = Inr u \<and> convert u (type_of v) = Inr v"
proof -
  have t: "type_of v \<notin> {E_Real, E_Lreal, E_LTime, E_Time, E_Bool}" using assms(1) by (auto simp: type_sets)
  let ?u = "V_Real (of_nat (f64_to_f32 (fl_of_int F64 i)))"
  have "convert v E_Real = Inr ?u" using assms(2) t real_of_int(1) [OF assms(3)] by (simp add: convert_def)
  moreover have "float_to_int (fl_of_int F64 i) (type_of v) = Inr v" using assms by (intro float_to_int_back) simp_all
  then have "convert ?u (type_of v) = Inr v"
    using t real_of_int(2) [OF assms(3)] by (auto simp: convert_def simp del: as_f64.simps)
  ultimately show ?thesis by blast
qed

lemma convert_through_lreal:
  assumes "integral (type_of v)" "as_i64 v = Some i" "\<bar>i\<bar> < 2 ^ 53"
  shows "\<exists>u. convert v E_Lreal = Inr u \<and> convert u (type_of v) = Inr v"
proof -
  have t: "type_of v \<notin> {E_Real, E_Lreal, E_LTime, E_Time, E_Bool}" using assms(1) by (auto simp: type_sets)
  let ?u = "V_Lreal (of_nat (fl_of_int F64 i))"
  have "convert v E_Lreal = Inr ?u" using assms(2) t lreal_of_int(1) [OF assms(3)] by (simp add: convert_def)
  moreover have "convert ?u (type_of v) = Inr v"
    using t lreal_of_int(2) [OF assms(3)] float_to_int_back [OF assms] by (auto simp: convert_def)
  ultimately show ?thesis by blast
qed

lemma convert_real_to_lreal:
  assumes "wf_value (V_Real x)"
  shows "\<exists>u. convert (V_Real x) E_Lreal = Inr u \<and> convert u E_Real = Inr (V_Real x)"
proof (cases "fl_is_nan F32 (unat x)")
  case True
  then have x: "x = 0x7fc00000" using assms by (simp add: canonical_f32_def)
  have nan: "fl_nan F64 = 0x7ff8000000000000" "fl_nan F32 = 0x7fc00000"
    "fl_is_nan F64 0x7ff8000000000000" "fl_is_nan F32 0x7fc00000"
    by (simp_all add: fl_nan_def fl_is_nan_def fl_mag_def inf_mag_def sign_bit_def)
  have "convert (V_Real x) E_Lreal = Inr (V_Lreal 0x7ff8000000000000)"
    unfolding x using nan by (simp add: convert_def f32_to_f64_def real_value_def Value_lreal_def canonical_f64_def)
  moreover have "convert (V_Lreal 0x7ff8000000000000) E_Real = Inr (V_Real x)"
    unfolding x using nan by (simp add: convert_def f64_to_f32_def real_value_def Value_real_def canonical_f32_def)
  ultimately show ?thesis by blast
next
  case False
  let ?y = "f32_to_f64 (unat x)"
  have y: "f64_to_f32 ?y = unat x" "unat (of_nat ?y :: u64) = ?y" "\<not> fl_is_nan F64 ?y"
    using f32_through_f64 [of "unat x"] widened_number [OF False] False unsigned_less [of x, where ?'a = nat]
    by (simp_all add: unat_of_nat take_bit_nat_eq_self)
  have "convert (V_Real x) E_Lreal = Inr (V_Lreal (of_nat ?y))"
    using y by (simp add: convert_def real_value_def Value_lreal_def canonical_f64_def)
  moreover have "convert (V_Lreal (of_nat ?y)) E_Real = Inr (V_Real x)"
    using y False by (simp add: convert_def real_value_def Value_real_def canonical_f32_def)
  ultimately show ?thesis by blast
qed

text \<open>
  Claim C19.  An implicit conversion never changes a value.  Whatever the table allows, other than widening
  a \<open>BOOL\<close>, the interpreter performs without a fault, with a well-formed value of the type asked for, and
  converting that back gives the value one had: the assumption under which the compiler checks a bound
  after the conversion.  Widening a \<open>BOOL\<close>, which the table allows where the dialect does, is a fault.
\<close>
theorem implicit_conversions_preserve_value:
  assumes "wf_value v" "implicit_conversion_allowed (type_of v) to w"
  shows "if type_of v = E_Bool \<and> to \<noteq> E_Bool
    then convert v to = Inl (cannot_convert v (ElementaryType_name to))
    else \<exists>u. convert v to = Inr u \<and> type_of u = to \<and> wf_value u \<and> convert u (type_of v) = Inr v"
proof (cases "type_of v = E_Bool \<and> to \<noteq> E_Bool")
  case True
  then obtain b where "v = V_Bool b" by (cases v) simp_all
  with True assms(2) show ?thesis
    by (auto simp: implicit_conversion_allowed_def IMPLICIT_CONVERSIONS_def convert_def split: if_splits)
next
  case False
  have "\<exists>u. convert v to = Inr u \<and> convert u (type_of v) = Inr v"
  proof (cases "type_of v = to")
    case True
    then show ?thesis by (auto simp: convert_def)
  next
    case differs: False
    have sized: "as_i64 v = Some i \<Longrightarrow> integer_fits i (type_of v)" for i using as_i64_fits by blast
    from allowed_cases [OF assms(2) differs] False consider "widens_integer (type_of v) to"
      | "type_of v = E_Real" "to = E_Lreal" | "type_of v = E_Time" "to = E_LTime"
      | "to = E_Lreal" "type_of v \<in> {E_Sint, E_Int, E_Dint, E_Usint, E_Uint, E_Udint}"
      | "to = E_Real" "type_of v \<in> {E_Sint, E_Int, E_Usint, E_Uint}" using differs by metis
    then show ?thesis
    proof cases
      case 1
      then show ?thesis by (rule convert_between_integers)
    next
      case 2
      then show ?thesis using convert_real_to_lreal assms(1) by (cases v) auto
    next
      case 3
      then show ?thesis by (cases v) (simp_all add: convert_def)
    next
      case 4
      then obtain i where i: "as_i64 v = Some i" by (cases v) auto
      have "\<bar>i\<bar> < 2 ^ 53" using sized [OF i] 4(2) by (auto simp: integer_fits_def)
      then show ?thesis using convert_through_lreal [OF _ i] 4 by (auto simp: type_sets)
    next
      case 5
      then obtain i where i: "as_i64 v = Some i" by (cases v) auto
      have "\<bar>i\<bar> < 2 ^ 24" using sized [OF i] 5(2) by (auto simp: integer_fits_def)
      then show ?thesis using convert_through_real [OF _ i] 5 by (auto simp: type_sets)
    qed
  qed
  then obtain u where u: "convert v to = Inr u" "convert u (type_of v) = Inr v" by blast
  then have "type_of u = to \<and> wf_value u" using convert_typed [OF u(1)] assms(1) by simp
  with u show ?thesis unfolding if_not_P [OF False] by blast
qed

theorem implicit_conversions_preserve_value_witness:
  "(\<exists>u. convert (V_Int 7) E_Real = Inr u \<and> convert u E_Int = Inr (V_Int 7)) \<and>
   convert (V_Bool True) E_Byte = Inl (cannot_convert (V_Bool True) ''BYTE'')"
  using implicit_conversions_preserve_value [of "V_Int 7" E_Real Permitted] implicit_conversions_preserve_value [of "V_Bool True" E_Byte Permitted]
  by (auto simp: implicit_conversion_allowed_def IMPLICIT_CONVERSIONS_def)

section \<open>Interning\<close>

definition arena_ok :: "TypeArena \<Rightarrow> bool" where
  "arena_ok a \<longleftrightarrow> distinct (ta_types a) \<and>
     (\<forall>ty. \<exists>i. ta_elementary a ty = Some i \<and> i < length (ta_types a) \<and> ta_types a ! i = T_Elementary ty)"

lemma arena_ok_new: "arena_ok TypeArena_new \<and> length (ta_types TypeArena_new) = 23"
proof -
  have types: "ta_types TypeArena_new = T_Error # map T_Elementary ElementaryType_all"
    by (simp add: TypeArena_new_def preload_def TypeArena_push_def ElementaryType_all_def)
  have "\<exists>i. ta_elementary TypeArena_new ty = Some i \<and> i < 23 \<and> ta_types TypeArena_new ! i = T_Elementary ty" for ty
    unfolding types
    by (cases ty) (simp_all add: TypeArena_new_def preload_def TypeArena_push_def ElementaryType_all_def wrapping_u32_def)
  moreover have "distinct (ta_types TypeArena_new)" "length (ta_types TypeArena_new) = 23"
    unfolding types by (simp_all add: ElementaryType_all_def)
  ultimately show ?thesis unfolding arena_ok_def by simp
qed

lemma type_position_Some: "type_position d ts = Some i \<Longrightarrow> i < length ts \<and> ts ! i = d"
  by (induction ts arbitrary: i) (auto split: if_splits)

lemma type_position_None: "type_position d ts = None \<longleftrightarrow> d \<notin> set ts"
  by (induction ts) auto

lemma intern_ok:
  assumes "arena_ok a" "length (ta_types a) < 2 ^ 32" "intern a d = (i, b)"
  shows "arena_ok b \<and> i < length (ta_types b) \<and> ta_types b ! i = d \<and> (\<exists>more. ta_types b = ta_types a @ more \<and> length more \<le> 1)"
proof (cases "\<exists>ty. d = T_Elementary ty")
  case True
  then obtain ty where d: "d = T_Elementary ty" by blast
  from assms(1) obtain k where "ta_elementary a ty = Some k" "k < length (ta_types a)" "ta_types a ! k = T_Elementary ty"
    unfolding arena_ok_def by blast
  with d assms show ?thesis by (simp add: intern_def TypeArena_elementary_def)
next
  case False
  then have e: "intern a d = (case type_position d (ta_types a) of Some index \<Rightarrow> (wrapping_u32 index, a) | None \<Rightarrow> TypeArena_push a d)"
    by (cases d) (simp_all add: intern_def cong: option.case_cong)
  show ?thesis
  proof (cases "type_position d (ta_types a)")
    case None
    then have "d \<notin> set (ta_types a)" by (simp add: type_position_None)
    with None e assms show ?thesis
      by (fastforce simp: TypeArena_push_def wrapping_u32_def arena_ok_def nth_append)
  next
    case (Some k)
    with e assms type_position_Some [OF Some] show ?thesis by (auto simp: wrapping_u32_def)
  qed
qed

lemma interned_all_ok:
  assumes "arena_ok a" "length (ta_types a) + length ds \<le> 2 ^ 32"
  shows "arena_ok (foldl (\<lambda>a d. snd (intern a d)) a ds) \<and>
    length (ta_types (foldl (\<lambda>a d. snd (intern a d)) a ds)) \<le> length (ta_types a) + length ds"
  using assms
proof (induction ds arbitrary: a)
  case (Cons d ds)
  obtain i b where b: "intern a d = (i, b)" by force
  from intern_ok [OF Cons.prems(1) _ b] Cons.prems(2)
  have "arena_ok b" "length (ta_types b) \<le> Suc (length (ta_types a))" by auto
  then show ?case using Cons.IH [of b] Cons.prems(2) b by simp
qed simp

text \<open>
  Equality of types is equality of identifiers.  In every arena reached by interning, two
  identifiers in use name the same type only when they are the same; an elementary type is found under
  its own identifier; and interning one more type gives an identifier for exactly that type and changes
  what no identifier in use means.
\<close>
theorem interning_is_faithful:
  assumes "a = foldl (\<lambda>a d. snd (intern a d)) TypeArena_new ds" "length ds < 2 ^ 32 - 23"
  shows "(\<forall>i j. i < length (ta_types a) \<and> j < length (ta_types a) \<longrightarrow> (TypeArena_get a i = TypeArena_get a j \<longleftrightarrow> i = j)) \<and>
    as_elementary a (TypeArena_elementary a ty) = Some ty \<and>
    (\<forall>i b. intern a d = (i, b) \<longrightarrow> TypeArena_get b i = d \<and>
       (\<forall>j < length (ta_types a). TypeArena_get b j = TypeArena_get a j))"
proof -
  have ok: "arena_ok a" "length (ta_types a) < 2 ^ 32"
    using interned_all_ok [of TypeArena_new ds] arena_ok_new assms by simp_all
  have "TypeArena_get b i = d \<and> (\<forall>j < length (ta_types a). TypeArena_get b j = TypeArena_get a j)"
    if b: "intern a d = (i, b)" for i b
    using intern_ok [OF ok b] by (auto simp: TypeArena_get_def get_def nth_append)
  moreover have "as_elementary a (TypeArena_elementary a ty) = Some ty"
    using ok(1) by (auto simp: arena_ok_def as_elementary_def TypeArena_elementary_def TypeArena_get_def get_def
        split: option.splits elim!: allE [of _ ty])
  moreover have "TypeArena_get a i = TypeArena_get a j \<longleftrightarrow> i = j" if "i < length (ta_types a)" "j < length (ta_types a)" for i j
    using ok(1) that by (simp add: TypeArena_get_def get_def arena_ok_def nth_eq_iff_index_eq)
  ultimately show ?thesis by blast
qed

theorem interning_is_faithful_witness:
  "as_elementary TypeArena_new (TypeArena_elementary TypeArena_new E_Int) = Some E_Int"
  using interning_is_faithful [of TypeArena_new "[]" E_Int T_Error] by simp

end
