(* ===== verification/Lang_Checked.thy ===== *)
theory Lang_Checked
  imports Lang_Types
begin

text \<open>
  What the semantic analysis hands to the compiler, from \<open>crates/salman-lang/src/sema.rs\<close>: the symbols of
  each POU with their resolved types, what every name turned out to mean, and the configurations.  The
  analysis itself is not modelled: a \<open>Checked\<close> is the input of the compiler.
\<close>

record Symbol =
  sy_name :: Name
  sy_section :: VarSection
  sy_qualifiers :: VarQualifiers
  sy_ty :: TypeId
  sy_address :: "DirectAddress option"
  sy_init :: "Value option"

definition Symbol_is_writable :: "Symbol \<Rightarrow> bool" where
  "Symbol_is_writable s \<longleftrightarrow> is_writable_by_pou (sy_section s) \<and> \<not> vq_constant (sy_qualifiers s)"

datatype Resolution =
    R_Local nat nat
  | R_Global nat
  | R_Function nat
  | R_Member TypeId nat
  | R_EnumValue TypeId int
  | R_Error

record PouSymbols =
  ps_name :: Name
  ps_kind :: PouKind
  ps_span :: Span
  ps_return_type :: "TypeId option"
  ps_symbols :: "Symbol list"

fun symbol_position :: "string \<Rightarrow> Symbol list \<Rightarrow> (nat \<times> Symbol) option" where
  "symbol_position name [] = None"
| "symbol_position name (s # ss) =
     (if eq_str (sy_name s) name then Some (0, s) else map_option (\<lambda>(i, s). (Suc i, s)) (symbol_position name ss))"

definition PouSymbols_symbol :: "PouSymbols \<Rightarrow> string \<Rightarrow> (nat \<times> Symbol) option" where
  "PouSymbols_symbol p name =
     Option.bind (symbol_position name (ps_symbols p)) (\<lambda>(i, s). map_option (\<lambda>i. (i, s)) (u32_try_from i))"

datatype CheckedTrigger = CT_Cyclic Duration | CT_Event nat | CT_Freewheeling

record CheckedProgramInstance =
  cp_name :: IdentKey
  cp_pou :: nat

record CheckedTask =
  ct_name :: IdentKey
  ct_trigger :: CheckedTrigger
  ct_priority :: nat
  ct_programs :: "CheckedProgramInstance list"

record CheckedConfiguration =
  cc_name :: IdentKey
  cc_tasks :: "CheckedTask list"
  cc_untasked :: "CheckedProgramInstance list"

record Checked =
  ck_types :: TypeArena
  ck_globals :: "Symbol list"
  ck_pous :: "PouSymbols list"
  ck_expr_types :: "TypeId option list"
  ck_resolutions :: "Resolution option list"
  ck_const_values :: "Value option list"
  ck_configurations :: "CheckedConfiguration list"

definition Checked_type_of :: "Checked \<Rightarrow> NodeId \<Rightarrow> TypeId option" where
  "Checked_type_of k node = Option.bind (get (ck_expr_types k) node) id"

definition Checked_resolution :: "Checked \<Rightarrow> NodeId \<Rightarrow> Resolution option" where
  "Checked_resolution k node = Option.bind (get (ck_resolutions k) node) id"

definition Checked_constant :: "Checked \<Rightarrow> NodeId \<Rightarrow> Value option" where
  "Checked_constant k node = Option.bind (get (ck_const_values k) node) id"

definition Checked_native_block :: "Checked \<Rightarrow> TypeId \<Rightarrow> NativeBlock option" where
  "Checked_native_block k ty = (case TypeArena_get (ck_types k) ty of T_FunctionBlock _ native _ \<Rightarrow> native | _ \<Rightarrow> None)"

end
