(* ===== verification/Compile_Layout.thy ===== *)
theory Compile_Layout
  imports Lang_Checked Vm_Task
begin

text \<open>
  The first half of the compiler, from \<open>crates/salman-vm/src/compile.rs\<close>: how large every type is, where
  every variable of a POU sits in its frame, the search for function blocks that contain themselves, and
  the slots that are allocated for globals, functions and program instances.  A diagnostic is its code
  and the span it points at; its wording is left out.  Sizes and offsets saturate at the largest \<open>u32\<close>
  as in the code, and the number of elements of an array is computed modulo \<open>2 ^ 64\<close>, as a release build does.
\<close>

section \<open>State\<close>

datatype CompileDiag = CompileDiag string "Span option"

definition E_LAYOUT :: string where "E_LAYOUT = ''E0501''"
definition E_NOTHING_TO_RUN :: string where "E_NOTHING_TO_RUN = ''E0502''"
definition E_BAD_LOCATION :: string where "E_BAD_LOCATION = ''E0503''"
definition E_WRITE_TO_INPUT :: string where "E_WRITE_TO_INPUT = ''E0504''"
definition U_NOT_COMPILED :: string where "U_NOT_COMPILED = ''U0501''"

definition IMAGE_BYTES :: nat where "IMAGE_BYTES = 4096"

record PouLayout =
  pl_offsets :: "nat list"
  pl_size :: nat
  pl_temp_base :: nat
  pl_result :: "nat option"

definition PouLayout_default :: PouLayout where
  "PouLayout_default = \<lparr>pl_offsets = [], pl_size = 0, pl_temp_base = 0, pl_result = None\<rparr>"

record Compiler =
  co_unit :: CompilationUnit
  co_checked :: Checked
  co_widening :: BoolWidening
  co_diags :: "CompileDiag list"
  co_constants :: "Value list"
  co_messages :: "string list"
  co_enum_sets :: "int list list"
  co_addresses :: "DirectAddress list"
  co_layouts :: "PouLayout list"
  co_slot_types :: "ElementaryType list"
  co_slot_names :: "string list"
  co_persistence :: "Persistence list"
  co_initial :: "(nat \<times> Value) list"
  co_image_initial :: "(DirectAddress \<times> Value) list"
  co_global_offsets :: "nat list"
  co_function_bases :: "(nat \<times> nat) list"
  co_routines :: "(nat \<times> nat) list"

definition Compiler_new :: "CompilationUnit \<Rightarrow> Checked \<Rightarrow> BoolWidening \<Rightarrow> Compiler" where
  "Compiler_new unit checked widening = \<lparr>co_unit = unit, co_checked = checked, co_widening = widening, co_diags = [],
     co_constants = [], co_messages = [], co_enum_sets = [], co_addresses = [], co_layouts = [], co_slot_types = [],
     co_slot_names = [], co_persistence = [], co_initial = [], co_image_initial = [], co_global_offsets = [],
     co_function_bases = [], co_routines = []\<rparr>"

definition co_type :: "Compiler \<Rightarrow> TypeId \<Rightarrow> TypeData" where
  "co_type c ty = TypeArena_get (ck_types (co_checked c)) ty"

definition add_diag :: "string \<Rightarrow> Span option \<Rightarrow> Compiler \<Rightarrow> Compiler" where
  "add_diag which span c = c\<lparr>co_diags := co_diags c @ [CompileDiag which span]\<rparr>"

section \<open>Sizes\<close>

definition u32_MAX_nat :: nat where "u32_MAX_nat = 2 ^ 32 - 1"

text \<open>\<open>dims.iter().filter_map(|d| d.len()).product()\<close> on \<open>u64\<close>.\<close>

definition element_count :: "ArrayBounds list \<Rightarrow> nat" where
  "element_count dims = foldl (\<lambda>acc d. case ArrayBounds_len d of Some n \<Rightarrow> acc * n mod 2 ^ 64 | None \<Rightarrow> acc) 1 dims"

function slot_size :: "Compiler \<Rightarrow> TypeId \<Rightarrow> nat \<Rightarrow> nat" where
  "slot_size c ty depth =
     (if depth > 16 then 1
      else case co_type c ty of
        T_Array element dims \<Rightarrow>
          min u32_MAX_nat (min (2 ^ 64 - 1) (element_count dims * slot_size c element (depth + 1)))
      | T_Struct _ fs \<Rightarrow> foldl slot_add 0 (map (\<lambda>f. slot_size c (field_ty f) (depth + 1)) fs)
      | T_FunctionBlock _ (Some block) _ \<Rightarrow> slot_count block
      | T_FunctionBlock _ None (Some index) \<Rightarrow>
          (case get (co_layouts c) index of Some l \<Rightarrow> pl_size l | None \<Rightarrow> 1)
      | _ \<Rightarrow> 1)"
  by pat_completeness auto
termination slot_size by (relation "measure (\<lambda>(c, ty, depth). 17 - depth)") auto

declare slot_size.simps [simp del]

definition slot_type :: "Compiler \<Rightarrow> TypeId \<Rightarrow> ElementaryType" where
  "slot_type c ty = unwrap_or (as_elementary (ck_types (co_checked c)) ty) E_Dint"

section \<open>Temporaries\<close>

text \<open>
  \<open>count_loop_temps\<close> adds up over the statements of a body from zero; the two folds over the branches of
  an \<open>IF\<close> and the arms of a \<open>CASE\<close> go on with the optional \<open>ELSE\<close>.
\<close>

fun stmts_temps :: "nat \<Rightarrow> Stmt list \<Rightarrow> nat"
  and kind_temps :: "StmtKind \<Rightarrow> nat"
  and branches_temps :: "nat \<Rightarrow> IfBranch list \<Rightarrow> nat"
  and arms_temps :: "nat \<Rightarrow> CaseArm list \<Rightarrow> nat"
  and else_temps :: "nat \<Rightarrow> Stmt list option \<Rightarrow> nat"
where
  "stmts_temps acc [] = acc"
| "stmts_temps acc (Stmt _ kind _ # ss) = stmts_temps (slot_add acc (kind_temps kind)) ss"
| "kind_temps (S_For _ _ _ _ body) = wrapping_u32 (3 + stmts_temps 0 body)"
| "kind_temps (S_While _ body) = stmts_temps 0 body"
| "kind_temps (S_Repeat body _) = stmts_temps 0 body"
| "kind_temps (S_If branches else_body) = else_temps (branches_temps 0 branches) else_body"
| "kind_temps (S_Case _ arms else_body) = else_temps (arms_temps 1 arms) else_body"
| "kind_temps _ = 0"
| "branches_temps acc [] = acc"
| "branches_temps acc (IfBranch _ body _ # bs) = branches_temps (slot_add acc (stmts_temps 0 body)) bs"
| "arms_temps acc [] = acc"
| "arms_temps acc (CaseArm _ body _ # arms) = arms_temps (slot_add acc (stmts_temps 0 body)) arms"
| "else_temps acc None = acc"
| "else_temps acc (Some body) = slot_add acc (stmts_temps 0 body)"

definition count_loop_temps :: "Stmt list \<Rightarrow> nat" where
  "count_loop_temps body = stmts_temps 0 body"

section \<open>Layouts\<close>

fun symbol_offsets :: "Compiler \<Rightarrow> nat \<Rightarrow> Symbol list \<Rightarrow> nat list \<times> nat" where
  "symbol_offsets c next_slot [] = ([], next_slot)"
| "symbol_offsets c next_slot (s # ss) =
     (let after = (if sy_address s = None then slot_add next_slot (slot_size c (sy_ty s) 0) else next_slot);
          (offsets, end_slot) = symbol_offsets c after ss
      in (next_slot # offsets, end_slot))"

definition layout_for :: "Compiler \<Rightarrow> nat \<Rightarrow> PouLayout" where
  "layout_for c index =
     (case get (ck_pous (co_checked c)) index of
        None \<Rightarrow> PouLayout_default
      | Some pou \<Rightarrow>
          (let (offsets, temp_base) = symbol_offsets c 0 (ps_symbols pou);
               temps = (case get (pous (co_unit c)) index of Some ast \<Rightarrow> count_loop_temps (pou_body ast) | None \<Rightarrow> 0);
               after = slot_add temp_base temps
           in if ps_kind pou = PK_Function \<and> ps_return_type pou \<noteq> None
              then \<lparr>pl_offsets = offsets, pl_size = slot_add after 1, pl_temp_base = temp_base, pl_result = Some after\<rparr>
              else \<lparr>pl_offsets = offsets, pl_size = after, pl_temp_base = temp_base, pl_result = None\<rparr>))"

definition layout_turn :: "nat \<Rightarrow> bool \<times> Compiler \<Rightarrow> bool \<times> Compiler" where
  "layout_turn index s =
     (let c = snd s; new_layout = layout_for c index in
      case get (co_layouts c) index of
        None \<Rightarrow> s
      | Some old \<Rightarrow>
          (fst s \<or> pl_size old \<noteq> pl_size new_layout \<or> pl_offsets old \<noteq> pl_offsets new_layout,
           c\<lparr>co_layouts := (co_layouts c)[index := new_layout]\<rparr>))"

definition layout_pass :: "Compiler \<Rightarrow> bool \<times> Compiler" where
  "layout_pass c = fold layout_turn [0..<length (ck_pous (co_checked c))] (False, c)"

fun layout_passes :: "nat \<Rightarrow> Compiler \<Rightarrow> bool \<times> Compiler" where
  "layout_passes 0 c = (False, c)"
| "layout_passes (Suc n) c = (let (changed, c) = layout_pass c in if \<not> changed then (True, c) else layout_passes n c)"

function instances_in :: "Compiler \<Rightarrow> TypeId \<Rightarrow> nat \<Rightarrow> nat list" where
  "instances_in c ty depth =
     (if depth > 16 then []
      else case co_type c ty of
        T_Array element _ \<Rightarrow> instances_in c element (depth + 1)
      | T_Struct _ fs \<Rightarrow> concat (map (\<lambda>f. instances_in c (field_ty f) (depth + 1)) fs)
      | T_FunctionBlock _ _ (Some pou) \<Rightarrow> [pou]
      | _ \<Rightarrow> [])"
  by pat_completeness auto
termination instances_in by (relation "measure (\<lambda>(c, ty, depth). 17 - depth)") auto

declare instances_in.simps [simp del]

text \<open>The list \<open>out\<close> the code appends to is the list of what is appended.\<close>

definition contained_pous :: "Compiler \<Rightarrow> nat \<Rightarrow> nat list" where
  "contained_pous c index =
     (case get (ck_pous (co_checked c)) index of
        None \<Rightarrow> []
      | Some pou \<Rightarrow> concat (map (\<lambda>s. instances_in c (sy_ty s) 0) (ps_symbols pou)))"

text \<open>Every POU some type of the arena is an instance of: what bounds the search.\<close>

definition instance_types :: "Compiler \<Rightarrow> nat set" where
  "instance_types c = {p. \<exists>name native. T_FunctionBlock name native (Some p) \<in> set (ta_types (ck_types (co_checked c)))}"

lemma finite_instance_types: "finite (instance_types c)"
proof -
  have "instance_types c \<subseteq> (\<lambda>t. case t of T_FunctionBlock _ _ (Some p) \<Rightarrow> p | _ \<Rightarrow> 0) ` set (ta_types (ck_types (co_checked c)))"
    by (force simp: instance_types_def)
  then show ?thesis by (rule finite_subset) simp
qed

lemma co_type_in: "co_type c ty = t \<Longrightarrow> t \<noteq> T_Error \<Longrightarrow> t \<in> set (ta_types (ck_types (co_checked c)))"
  by (auto simp: co_type_def TypeArena_get_def get_def split: if_splits)

lemma instances_in_types: "set (instances_in c ty depth) \<subseteq> instance_types c"
proof (induction c ty depth rule: instances_in.induct)
  case (1 c ty depth)
  show ?case
  proof (cases "co_type c ty")
    case (T_FunctionBlock name native pou)
    then show ?thesis using co_type_in [OF T_FunctionBlock]
      by (cases pou) (auto simp: instances_in.simps [of c ty depth] instance_types_def)
  qed (use 1 in \<open>auto simp: instances_in.simps [of c ty depth] split: if_splits\<close>)
qed

lemma contained_pous_types: "set (contained_pous c index) \<subseteq> instance_types c"
  using instances_in_types by (fastforce simp: contained_pous_def split: option.splits)

text \<open>The stack of the search has its top last in the code; here it is the head of the list.\<close>

function contains_loop :: "Compiler \<Rightarrow> nat \<Rightarrow> nat list \<Rightarrow> nat list \<Rightarrow> bool" where
  "contains_loop c target seen pending =
     (case pending of
        [] \<Rightarrow> False
      | next_pou # rest \<Rightarrow>
          if next_pou = target then True
          else if next_pou \<in> set seen then contains_loop c target seen rest
          else contains_loop c target (seen @ [next_pou]) (rev (contained_pous c next_pou) @ rest))"
  by pat_completeness auto
termination contains_loop
proof (relation "measures [\<lambda>(c, target, seen, pending). card ((instance_types c \<union> set pending) - set seen),
    \<lambda>(c, target, seen, pending). length pending]", goal_cases)
  case (2 c target seen pending next_pou rest)
  have "card ((instance_types c \<union> set rest) - set seen) \<le> card ((instance_types c \<union> set pending) - set seen)"
    using 2(1) finite_instance_types by (intro card_mono) auto
  then show ?case using 2(1) by auto
next
  case (3 c target seen pending next_pou rest)
  have "card ((instance_types c \<union> set (rev (contained_pous c next_pou) @ rest)) - set (seen @ [next_pou]))
      < card ((instance_types c \<union> set pending) - set seen)"
    using 3(1,3) finite_instance_types contained_pous_types [of c next_pou] by (intro psubset_card_mono) auto
  then show ?case by simp
qed simp

declare contains_loop.simps [simp del]

definition contains_itself :: "Compiler \<Rightarrow> nat \<Rightarrow> bool" where
  "contains_itself c index =
     (case u32_try_from index of
        None \<Rightarrow> False
      | Some target \<Rightarrow> contains_loop c target [] (rev (contained_pous c index)))"

definition compute_layouts :: "Compiler \<Rightarrow> nat list \<times> Compiler" where
  "compute_layouts c =
     (let count = length (ck_pous (co_checked c));
          (settled, c) = layout_passes (count + 1) (c\<lparr>co_layouts := replicate count PouLayout_default\<rparr>)
      in (if settled then [] else filter (contains_itself c) [0..<count], c))"

definition report_containment_cycle :: "nat \<Rightarrow> Compiler \<Rightarrow> Compiler" where
  "report_containment_cycle index c =
     (case get (ck_pous (co_checked c)) index of
        None \<Rightarrow> c
      | Some pou \<Rightarrow> add_diag E_LAYOUT (Some (name_span (ps_name pou))) c)"

end
