(* ===== verification/Compile_Settled.thy ===== *)
theory Compile_Settled
  imports Compile_Layout
begin

text \<open>
  What the layout of \<open>Compile_Layout\<close> promises: the passes reach a fixpoint whenever no function block
  contains itself, nothing is compiled from a layout that is not one, and in a settled layout the
  variables, the temporaries and the result of a POU occupy disjoint parts of its frame.
\<close>

section \<open>What a size depends on\<close>

definition size_at :: "Compiler \<Rightarrow> nat \<Rightarrow> nat option" where
  "size_at c p = map_option pl_size (get (co_layouts c) p)"

lemma slot_size_instance:
  "co_type c ty = T_FunctionBlock name None (Some p) \<Longrightarrow> depth \<le> 16 \<Longrightarrow> slot_size c ty depth = unwrap_or (size_at c p) 1"
  by (simp add: slot_size.simps [of c ty depth] size_at_def unwrap_or_def split: option.splits)

lemma slot_size_cong:
  assumes "co_checked d = co_checked c" "\<And>p. p \<in> set (instances_in c ty depth) \<Longrightarrow> size_at d p = size_at c p"
  shows "slot_size d ty depth = slot_size c ty depth"
  using assms
proof (induction c ty depth rule: slot_size.induct)
  case (1 c ty depth)
  have type: "co_type d ty = co_type c ty" using 1(3) by (simp add: co_type_def)
  show ?case
  proof (cases "depth > 16")
    case False
    show ?thesis
    proof (cases "co_type c ty")
      case (T_Array element dims)
      then show ?thesis using 1(1) [OF False T_Array 1(3)] 1(4) False type
        by (simp add: slot_size.simps [of c ty depth] slot_size.simps [of d ty depth] instances_in.simps [of c ty depth])
    next
      case (T_Struct name fs)
      have "slot_size d (field_ty f) (depth + 1) = slot_size c (field_ty f) (depth + 1)" if "f \<in> set fs" for f
        using 1(2) [OF False T_Struct that 1(3)] 1(4) that T_Struct False
        by (fastforce simp: instances_in.simps [of c ty depth])
      then show ?thesis using T_Struct False type
        by (simp add: slot_size.simps [of c ty depth] slot_size.simps [of d ty depth] cong: map_cong)
    next
      case (T_FunctionBlock name native pou)
      show ?thesis
      proof (cases "native = None \<and> pou \<noteq> None")
        case True
        then obtain p where "native = None" "pou = Some p" by auto
        then show ?thesis using slot_size_instance T_FunctionBlock False type 1(4) [of p]
          by (simp add: instances_in.simps [of c ty depth])
      next
        case no: False
        then show ?thesis using T_FunctionBlock type
          by (auto simp: slot_size.simps [of c ty depth] slot_size.simps [of d ty depth] split: option.splits)
      qed
    qed (use type in \<open>simp_all add: slot_size.simps [of c ty depth] slot_size.simps [of d ty depth]\<close>)
  qed (simp add: slot_size.simps [of c ty depth] slot_size.simps [of d ty depth])
qed

lemma symbol_offsets_cong:
  assumes "\<And>s. s \<in> set ss \<Longrightarrow> slot_size d (sy_ty s) 0 = slot_size c (sy_ty s) 0"
  shows "symbol_offsets d n ss = symbol_offsets c n ss"
  using assms by (induction ss arbitrary: n) (simp_all add: Let_def)

lemma layout_for_cong:
  assumes "co_checked d = co_checked c" "co_unit d = co_unit c" "\<And>p. p \<in> set (contained_pous c i) \<Longrightarrow> size_at d p = size_at c p"
  shows "layout_for d i = layout_for c i"
proof (cases "get (ck_pous (co_checked c)) i")
  case None
  then show ?thesis unfolding layout_for_def assms(1) by (simp only: option.case)
next
  case (Some pou)
  have "symbol_offsets d 0 (ps_symbols pou) = symbol_offsets c 0 (ps_symbols pou)"
  proof (rule symbol_offsets_cong, rule slot_size_cong [OF assms(1)])
    fix s p assume "s \<in> set (ps_symbols pou)" "p \<in> set (instances_in c (sy_ty s) 0)"
    then show "size_at d p = size_at c p" using assms(3) Some by (auto simp: contained_pous_def)
  qed
  then show ?thesis unfolding layout_for_def assms(1,2) Some by (simp only: option.case)
qed

section \<open>One pass\<close>

text \<open>The layouts a pass leaves: each computed from the new layouts before it and the old ones from it on.\<close>

definition with_layouts :: "Compiler \<Rightarrow> PouLayout list \<Rightarrow> Compiler" where
  "with_layouts c ls = c\<lparr>co_layouts := ls\<rparr>"

lemma with_layouts_simps [simp]:
  "co_layouts (with_layouts c ls) = ls" "co_checked (with_layouts c ls) = co_checked c" "co_unit (with_layouts c ls) = co_unit c"
  "with_layouts (with_layouts c ls) ls' = with_layouts c ls'" "with_layouts c (co_layouts c) = c"
  by (simp_all add: with_layouts_def)

definition same_place :: "PouLayout \<Rightarrow> PouLayout \<Rightarrow> bool" where
  "same_place a b \<longleftrightarrow> pl_size a = pl_size b \<and> pl_offsets a = pl_offsets b"

lemma layout_turn_eq:
  "i < length (co_layouts c) \<Longrightarrow> layout_turn i (b, c) =
     (b \<or> \<not> same_place (co_layouts c ! i) (layout_for c i), with_layouts c ((co_layouts c)[i := layout_for c i]))"
  by (auto simp: layout_turn_def get_def Let_def same_place_def with_layouts_def)

fun pass_layouts :: "Compiler \<Rightarrow> nat \<Rightarrow> PouLayout list" where
  "pass_layouts c 0 = co_layouts c"
| "pass_layouts c (Suc k) = (pass_layouts c k)[k := layout_for (with_layouts c (pass_layouts c k)) k]"

lemma length_pass_layouts [simp]: "length (pass_layouts c k) = length (co_layouts c)"
  by (induction k) simp_all

lemma pass_layouts_later: "i < k \<Longrightarrow> i < length (co_layouts c) \<Longrightarrow> pass_layouts c k ! i = layout_for (with_layouts c (pass_layouts c i)) i"
  by (induction k) (auto simp: nth_list_update less_Suc_eq)

lemma pass_layouts_before: "k \<le> i \<Longrightarrow> pass_layouts c k ! i = co_layouts c ! i"
  by (induction k) (simp_all add: nth_list_update)

lemma pass_layouts_agree: "i < k \<Longrightarrow> k \<le> m \<Longrightarrow> pass_layouts c k ! i = pass_layouts c m ! i"
  by (induction m) (auto simp: le_Suc_eq nth_list_update)

lemma fold_layout_turn:
  assumes "k \<le> length (co_layouts c)"
  shows "fold layout_turn [0..<k] (False, c) =
    (\<exists>i<k. \<not> same_place (co_layouts c ! i) (pass_layouts c k ! i), with_layouts c (pass_layouts c k))"
  using assms
proof (induction k)
  case (Suc k)
  have old: "pass_layouts c k ! k = co_layouts c ! k" by (simp add: pass_layouts_before)
  have "(\<exists>i<Suc k. \<not> same_place (co_layouts c ! i) (pass_layouts c (Suc k) ! i)) \<longleftrightarrow>
    (\<exists>i<k. \<not> same_place (co_layouts c ! i) (pass_layouts c k ! i)) \<or>
    \<not> same_place (co_layouts c ! k) (layout_for (with_layouts c (pass_layouts c k)) k)"
    using Suc.prems by (auto simp: less_Suc_eq nth_list_update)
  then show ?case using Suc old by (simp add: layout_turn_eq)
qed simp

definition wf_layouts :: "Compiler \<Rightarrow> bool" where
  "wf_layouts c \<longleftrightarrow> length (co_layouts c) = length (ck_pous (co_checked c))"

definition after_pass :: "Compiler \<Rightarrow> Compiler" where
  "after_pass c = with_layouts c (pass_layouts c (length (co_layouts c)))"

lemma after_pass_simps [simp]: "co_checked (after_pass c) = co_checked c" "co_unit (after_pass c) = co_unit c"
  "length (co_layouts (after_pass c)) = length (co_layouts c)"
  by (simp_all add: after_pass_def)

lemma layout_pass_eq:
  assumes "wf_layouts c"
  shows "layout_pass c = (\<exists>i<length (co_layouts c). \<not> same_place (co_layouts c ! i) (co_layouts (after_pass c) ! i), after_pass c)"
  using fold_layout_turn [of "length (co_layouts c)" c] assms
  by (simp add: layout_pass_def wf_layouts_def after_pass_def)

lemma size_at_nth: "p < length (co_layouts c) \<Longrightarrow> size_at c p = Some (pl_size (co_layouts c ! p))"
  "length (co_layouts c) \<le> p \<Longrightarrow> size_at c p = None"
  by (simp_all add: size_at_def get_def)

lemma unchanged_is_fixpoint:
  assumes "wf_layouts c" "\<not> fst (layout_pass c)" "i < length (co_layouts c)"
  shows "co_layouts (after_pass c) ! i = layout_for (after_pass c) i"
proof -
  let ?n = "length (co_layouts c)"
  have same: "same_place (co_layouts c ! j) (co_layouts (after_pass c) ! j)" if "j < ?n" for j
    using assms(1,2) that by (auto simp: layout_pass_eq)
  have "pl_size (pass_layouts c i ! j) = pl_size (co_layouts (after_pass c) ! j)" if "j < ?n" for j
    using same [OF that] that assms(3)
    by (cases "j < i") (auto simp: after_pass_def pass_layouts_before pass_layouts_agree [of j i ?n c] same_place_def)
  then have sizes: "size_at (with_layouts c (pass_layouts c i)) p = size_at (after_pass c) p" for p
    by (cases "p < ?n") (simp_all add: size_at_nth)
  have "co_layouts (after_pass c) ! i = layout_for (with_layouts c (pass_layouts c i)) i"
    using assms(3) by (simp add: after_pass_def pass_layouts_later)
  also have "\<dots> = layout_for (after_pass c) i" by (rule layout_for_cong) (simp_all add: sizes)
  finally show ?thesis .
qed

lemma wf_layouts_after [simp]: "wf_layouts (after_pass c) = wf_layouts c"
  by (simp add: wf_layouts_def)

lemma layout_passes_settled:
  "wf_layouts c \<Longrightarrow> layout_passes n c = (True, d) \<Longrightarrow>
     wf_layouts d \<and> co_checked d = co_checked c \<and> co_unit d = co_unit c \<and>
     (\<forall>i < length (co_layouts d). co_layouts d ! i = layout_for d i)"
proof (induction n arbitrary: c)
  case (Suc n)
  obtain changed where p: "layout_pass c = (changed, after_pass c)" using layout_pass_eq [OF Suc.prems(1)] by simp
  show ?case
  proof (cases changed)
    case False
    then have "d = after_pass c" using Suc.prems(2) p by simp
    then show ?thesis using unchanged_is_fixpoint [OF Suc.prems(1)] p False Suc.prems(1) by simp
  next
    case True
    then show ?thesis using Suc.IH [of "after_pass c"] Suc.prems p by simp
  qed
qed simp

section \<open>Blocks that contain themselves\<close>

lemma contains_loop_False:
  assumes "\<not> contains_loop c t seen pending" "t \<notin> set seen"
    "\<And>x. x \<in> set seen \<Longrightarrow> set (contained_pous c x) \<subseteq> set seen \<union> set pending"
  shows "\<exists>S. set seen \<union> set pending \<subseteq> S \<and> t \<notin> S \<and> (\<forall>x \<in> S. set (contained_pous c x) \<subseteq> S)"
  using assms
proof (induction c t seen pending rule: contains_loop.induct)
  case (1 c t seen pending)
  show ?case
  proof (cases pending)
    case Nil
    then show ?thesis using 1(4,5) by (intro exI [of _ "set seen"]) auto
  next
    case (Cons x rest)
    have x: "x \<noteq> t" using 1(3) contains_loop.simps [of c t seen "x # rest"] Cons by auto
    show ?thesis
    proof (cases "x \<in> set seen")
      case True
      have "\<not> contains_loop c t seen rest" using 1(3) Cons x True by (simp add: contains_loop.simps [of c t seen "x # rest"])
      from 1(1) [OF Cons x True this 1(4)] 1(5) Cons True
      obtain S where "set seen \<union> set rest \<subseteq> S" "t \<notin> S" "\<forall>x \<in> S. set (contained_pous c x) \<subseteq> S" by fastforce
      then show ?thesis using Cons True by (intro exI [of _ S]) auto
    next
      case False
      have "\<not> contains_loop c t (seen @ [x]) (rev (contained_pous c x) @ rest)"
        using 1(3) Cons x False by (simp add: contains_loop.simps [of c t seen "x # rest"])
      from 1(2) [OF Cons x False this] 1(4,5) Cons x
      obtain S where "set (seen @ [x]) \<union> set (rev (contained_pous c x) @ rest) \<subseteq> S" "t \<notin> S" "\<forall>x \<in> S. set (contained_pous c x) \<subseteq> S"
        by fastforce
      then show ?thesis using Cons by (intro exI [of _ S]) auto
    qed
  qed
qed

definition holds :: "Compiler \<Rightarrow> (nat \<times> nat) set" where
  "holds c = {(j, i). j \<in> set (contained_pous c i)}"

lemma contains_itself_complete:
  assumes "(i, i) \<in> (holds c)\<^sup>+" "i < 2 ^ 32"
  shows "contains_itself c i"
proof (rule ccontr)
  assume "\<not> contains_itself c i"
  then have "\<not> contains_loop c i [] (rev (contained_pous c i))" using assms(2) by (simp add: contains_itself_def u32_try_from_def)
  from contains_loop_False [OF this] obtain S where
    S: "set (contained_pous c i) \<subseteq> S" "i \<notin> S" "\<And>x. x \<in> S \<Longrightarrow> set (contained_pous c x) \<subseteq> S" by auto
  have "j \<in> S" if "(j, k) \<in> (holds c)\<^sup>+" "k = i \<or> k \<in> S" for j k
    using that by (induction rule: converse_trancl_induct) (use S in \<open>auto simp: holds_def\<close>)
  with assms(1) S(2) show False by blast
qed

text \<open>How many blocks a block contains, at any depth: what numbers the levels the passes settle.\<close>

definition below :: "Compiler \<Rightarrow> nat \<Rightarrow> nat set" where
  "below c i = {j. j < length (ck_pous (co_checked c)) \<and> (j, i) \<in> (holds c)\<^sup>+}"

definition rank :: "Compiler \<Rightarrow> nat \<Rightarrow> nat" where
  "rank c i = card (below c i)"

lemma finite_below [simp]: "finite (below c i)"
  by (simp add: below_def)

lemma rank_less:
  assumes "(j, j) \<notin> (holds c)\<^sup>+" "j \<in> set (contained_pous c i)" "j < length (ck_pous (co_checked c))"
  shows "rank c j < rank c i"
proof -
  have "(j, i) \<in> holds c" using assms(2) by (simp add: holds_def)
  then have "below c j \<subseteq> below c i" "j \<in> below c i" using assms(3) by (auto simp: below_def)
  moreover have "j \<notin> below c j" using assms(1) by (simp add: below_def)
  ultimately show ?thesis unfolding rank_def by (intro psubset_card_mono) auto
qed

lemma rank_bound:
  assumes "(i, i) \<notin> (holds c)\<^sup>+" "i < length (ck_pous (co_checked c))"
  shows "rank c i < length (ck_pous (co_checked c))"
proof -
  have "below c i \<subset> {..<length (ck_pous (co_checked c))}" using assms by (auto simp: below_def)
  then have "card (below c i) < card {..<length (ck_pous (co_checked c))}" by (intro psubset_card_mono) simp_all
  then show ?thesis by (simp add: rank_def)
qed

lemma instances_in_cong: "co_checked d = co_checked c \<Longrightarrow> instances_in d ty depth = instances_in c ty depth"
proof (induction c ty depth rule: instances_in.induct)
  case (1 c ty depth)
  have t: "co_type d ty = co_type c ty" using 1(3) by (simp add: co_type_def)
  show ?case
  proof (cases "co_type c ty")
    case (T_Array element dims)
    then show ?thesis using 1(1) [OF _ T_Array 1(3)] t
      by (simp add: instances_in.simps [of c ty depth] instances_in.simps [of d ty depth])
  next
    case (T_Struct name fs)
    then show ?thesis using 1(2) [OF _ T_Struct _ 1(3)] t
      by (simp add: instances_in.simps [of c ty depth] instances_in.simps [of d ty depth] cong: map_cong)
  qed (use t in \<open>simp_all add: instances_in.simps [of c ty depth] instances_in.simps [of d ty depth]\<close>)
qed

lemma contained_pous_cong: "co_checked d = co_checked c \<Longrightarrow> contained_pous d i = contained_pous c i"
  using instances_in_cong [of d c] by (simp add: contained_pous_def split: option.split)

lemma contains_loop_cong: "co_checked d = co_checked c \<Longrightarrow> contains_loop d t seen pending = contains_loop c t seen pending"
proof (induction c t seen pending rule: contains_loop.induct)
  case (1 c t seen pending)
  then show ?case using contained_pous_cong [OF 1(3)]
    by (simp add: contains_loop.simps [of c t seen pending] contains_loop.simps [of d t seen pending] split: list.split)
qed

section \<open>The passes settle\<close>

definition passed :: "nat \<Rightarrow> Compiler \<Rightarrow> Compiler" where
  "passed k c = (after_pass ^^ k) c"

lemma passed_simps [simp]:
  "passed 0 c = c" "passed (Suc k) c = after_pass (passed k c)"
  "co_checked (passed k c) = co_checked c" "co_unit (passed k c) = co_unit c"
  "length (co_layouts (passed k c)) = length (co_layouts c)" "wf_layouts (passed k c) = wf_layouts c"
  by (induction k) (simp_all add: passed_def)

lemma stable_level:
  assumes "wf_layouts c" "\<And>i. i < length (co_layouts c) \<Longrightarrow> (i, i) \<notin> (holds c)\<^sup>+"
  shows "i < length (co_layouts c) \<Longrightarrow> rank c i < k \<Longrightarrow> k \<le> m \<Longrightarrow> co_layouts (passed (Suc m) c) ! i = co_layouts (passed m c) ! i"
proof (induction k arbitrary: i m)
  case (Suc k)
  let ?n = "length (co_layouts c)"
  obtain m' where m: "m = Suc m'" "k \<le> m'" using Suc.prems(3) by (cases m) auto
  have deps: "pl_size (co_layouts (passed (Suc l) c) ! j) = pl_size (co_layouts (passed l c) ! j)"
    if "j \<in> set (contained_pous c i)" "j < ?n" "k \<le> l" for j l
  proof -
    have "rank c j < rank c i" using rank_less [of j c i] that assms by (simp add: wf_layouts_def)
    then have "rank c j < k" using Suc.prems(2) by linarith
    from Suc.IH [OF that(2) this that(3)] show ?thesis by simp
  qed
  let ?new = "with_layouts (passed m c) (pass_layouts (passed m c) i)" and ?old = "with_layouts (passed m' c) (pass_layouts (passed m' c) i)"
  have at: "pass_layouts (passed l c) i ! j = co_layouts (passed (if j < i then Suc l else l) c) ! j" if "j < ?n" for j l
    using that Suc.prems(1) pass_layouts_agree [of j i ?n "passed l c"]
    by (auto simp: after_pass_def pass_layouts_before)
  have "size_at ?new j = size_at ?old j" if "j \<in> set (contained_pous ?old i)" for j
  proof (cases "j < ?n")
    case True
    have j: "j \<in> set (contained_pous c i)" using that contained_pous_cong [of ?old c i] by simp
    show ?thesis using deps [OF j True, of m] deps [OF j True, of m'] m True at [OF True, of m] at [OF True, of m']
      by (simp add: size_at_nth)
  qed (simp add: size_at_nth)
  then have "layout_for ?new i = layout_for ?old i" by (intro layout_for_cong) simp_all
  moreover have "co_layouts (passed (Suc l) c) ! i = layout_for (with_layouts (passed l c) (pass_layouts (passed l c) i)) i" for l
    using Suc.prems(1) by (simp add: after_pass_def pass_layouts_later)
  ultimately show ?case by (simp only: m)
qed simp

lemma layout_passes_changed:
  "wf_layouts c \<Longrightarrow> fst (layout_passes n c) = False \<Longrightarrow> k < n \<Longrightarrow> fst (layout_pass (passed k c))"
proof (induction n arbitrary: c k)
  case (Suc n)
  have c: "fst (layout_pass c)" using Suc.prems(2) by (auto simp: split_beta Let_def split: if_splits)
  show ?case
  proof (cases k)
    case (Suc k')
    have "passed k c = passed k' (after_pass c)" unfolding Suc passed_def by (simp add: funpow_swap1)
    moreover have "layout_pass c = (True, after_pass c)" 
      using c layout_pass_eq [OF Suc.prems(1)] by (cases "layout_pass c") simp
    then have "fst (layout_passes n (after_pass c)) = False" using Suc.prems(2) by simp
    ultimately show ?thesis using Suc.IH [of "after_pass c" k'] Suc.prems Suc by simp
  qed (use c in simp)
qed simp

lemma acyclic_settles:
  assumes "wf_layouts c" "\<And>i. i < length (co_layouts c) \<Longrightarrow> (i, i) \<notin> (holds c)\<^sup>+"
  shows "fst (layout_passes (length (co_layouts c) + 1) c)"
proof (rule ccontr)
  let ?n = "length (co_layouts c)"
  assume "\<not> ?thesis"
  with layout_passes_changed [OF assms(1), of "?n + 1" ?n] have "fst (layout_pass (passed ?n c))" by simp
  then obtain i where i: "i < ?n" "\<not> same_place (co_layouts (passed ?n c) ! i) (co_layouts (passed (Suc ?n) c) ! i)"
    using layout_pass_eq [of "passed ?n c"] assms(1) by auto
  have "rank c i < ?n" using rank_bound [of i c] assms i(1) by (simp add: wf_layouts_def)
  from stable_level [OF assms i(1) this order_refl] i(2) show False by (simp add: same_place_def)
qed

lemma compute_layouts_settles:
  assumes "length (ck_pous (co_checked c)) < 2 ^ 32"
  shows "(\<forall>d. compute_layouts c = ([], d) \<longrightarrow> length (co_layouts d) = length (ck_pous (co_checked c)) \<and>
      co_checked d = co_checked c \<and> co_unit d = co_unit c \<and> (\<forall>i < length (co_layouts d). co_layouts d ! i = layout_for d i)) \<and>
    ((\<forall>i < length (ck_pous (co_checked c)). \<not> contains_itself c i) \<longrightarrow> fst (compute_layouts c) = [])"
proof -
  let ?n = "length (ck_pous (co_checked c))"
  let ?c = "c\<lparr>co_layouts := replicate ?n PouLayout_default\<rparr>"
  have wf: "wf_layouts ?c" by (simp add: wf_layouts_def)
  obtain settled d where d: "layout_passes (?n + 1) ?c = (settled, d)" by force
  have keeps: "co_checked (snd (layout_passes k x)) = co_checked x" if "wf_layouts x" for k x
    using that by (induction k arbitrary: x) (simp_all add: layout_pass_eq Let_def)
  have chk: "co_checked d = co_checked c" using keeps [OF wf, of "?n + 1"] d by simp
  have contains: "contains_itself d i = contains_itself c i" for i
    using contains_loop_cong [OF chk] contained_pous_cong [OF chk] by (simp add: contains_itself_def split: option.split)
  have acyclic: "settled" if "\<And>i. i < ?n \<Longrightarrow> \<not> contains_itself c i"
  proof -
    have "holds ?c = holds c" using contained_pous_cong [of ?c c] by (simp add: holds_def)
    then have "(i, i) \<notin> (holds ?c)\<^sup>+" if "i < ?n" for i
      using contains_itself_complete [of i c] \<open>\<And>i. i < ?n \<Longrightarrow> \<not> contains_itself c i\<close> [OF that] that assms by auto
    then have "fst (layout_passes (?n + 1) ?c)" using acyclic_settles [OF wf] by (simp del: layout_passes.simps)
    then show ?thesis using d by simp
  qed
  have computed: "compute_layouts c = (if settled then [] else filter (contains_itself d) [0..<?n], d)"
    using d by (simp add: compute_layouts_def)
  have "settled" if "compute_layouts c = ([], e)" for e
    using acyclic that contains unfolding computed by (auto split: if_splits simp: filter_empty_conv)
  then show ?thesis using layout_passes_settled [OF wf, of "?n + 1" d] d computed acyclic
    by (auto simp: wf_layouts_def simp del: layout_passes.simps)
qed

text \<open>
  Claim C9.  Nothing is compiled from a layout that is not one.  When \<open>compute_layouts\<close> names no POU, every
  POU's layout is the one its own variables ask for, with the sizes of all the others as they are; and
  it names none whenever no POU contains itself, whatever the order of declaration and the depth of
  containment.
\<close>
theorem layouts_settle:
  assumes "length (ck_pous (co_checked c)) < 2 ^ 32"
  shows "(\<forall>d. compute_layouts c = ([], d) \<longrightarrow> length (co_layouts d) = length (ck_pous (co_checked c)) \<and>
      co_checked d = co_checked c \<and> co_unit d = co_unit c \<and> (\<forall>i < length (co_layouts d). co_layouts d ! i = layout_for d i)) \<and>
    ((\<forall>i < length (ck_pous (co_checked c)). \<not> contains_itself c i) \<longrightarrow> fst (compute_layouts c) = [])"
  by (rule compute_layouts_settles [OF assms])

text \<open>A program that holds an instance of a block declared after it, which holds a second block.\<close>

definition nowhere :: Span where
  "nowhere = \<lparr>span_file = 0, span_start = 0, span_end = 0\<rparr>"

definition demo_symbol :: "string \<Rightarrow> TypeId \<Rightarrow> Symbol" where
  "demo_symbol name ty = \<lparr>sy_name = \<lparr>name_ident = name, name_span = nowhere\<rparr>, sy_section = Sec_Local,
     sy_qualifiers = \<lparr>vq_retention = Ret_Unspecified, vq_constant = False, vq_persistent = False\<rparr>,
     sy_ty = ty, sy_address = None, sy_init = None\<rparr>"

definition demo_pou :: "string \<Rightarrow> PouKind \<Rightarrow> Symbol list \<Rightarrow> PouSymbols" where
  "demo_pou name kind symbols = \<lparr>ps_name = \<lparr>name_ident = name, name_span = nowhere\<rparr>, ps_kind = kind, ps_span = nowhere,
     ps_return_type = None, ps_symbols = symbols\<rparr>"

definition demo_arena :: TypeArena where
  "demo_arena = snd (intern (snd (intern TypeArena_new (T_FunctionBlock ''outer'' None (Some 1)))) (T_FunctionBlock ''inner'' None (Some 2)))"

definition demo_checked :: Checked where
  "demo_checked = \<lparr>ck_types = demo_arena, ck_globals = [],
     ck_pous = [demo_pou ''Main'' PK_Program [demo_symbol ''a'' 23, demo_symbol ''x'' 4],
                demo_pou ''Outer'' PK_FunctionBlock [demo_symbol ''b'' 24, demo_symbol ''y'' 4],
                demo_pou ''Inner'' PK_FunctionBlock [demo_symbol ''z'' 4]],
     ck_expr_types = [], ck_resolutions = [], ck_const_values = [], ck_configurations = []\<rparr>"

definition demo :: Compiler where
  "demo = Compiler_new \<lparr>cu_file = 0, cu_items = [], cu_node_count = 0\<rparr> demo_checked Permitted"

lemma demo_types: "co_type demo 23 = T_FunctionBlock ''outer'' None (Some 1)" "co_type demo 24 = T_FunctionBlock ''inner'' None (Some 2)"
  "co_type demo 4 = T_Elementary E_Dint"
  by (simp_all add: co_type_def TypeArena_get_def get_def demo_def Compiler_new_def demo_checked_def demo_arena_def intern_def
      TypeArena_push_def TypeArena_new_def preload_def ElementaryType_all_def)

lemma demo_pous: "ck_pous (co_checked demo) =
    [demo_pou ''Main'' PK_Program [demo_symbol ''a'' 23, demo_symbol ''x'' 4],
     demo_pou ''Outer'' PK_FunctionBlock [demo_symbol ''b'' 24, demo_symbol ''y'' 4],
     demo_pou ''Inner'' PK_FunctionBlock [demo_symbol ''z'' 4]]"
  by (simp add: demo_def Compiler_new_def demo_checked_def)

lemma demo_contained: "contained_pous demo 0 = [1]" "contained_pous demo (Suc 0) = [2]" "contained_pous demo 2 = []"
  by (simp_all add: contained_pous_def get_def demo_pous demo_pou_def demo_symbol_def instances_in.simps [of demo] demo_types)

theorem layouts_settle_witness: "fst (compute_layouts demo) = []"
proof -
  have n: "length (ck_pous (co_checked demo)) = 3" by (simp add: demo_def Compiler_new_def demo_checked_def)
  have "\<not> contains_itself demo i" if "i < 3" for i
    using that demo_contained by (auto simp: contains_itself_def u32_try_from_def contains_loop.simps less_Suc_eq numeral_3_eq_3 numeral_2_eq_2)
  then show ?thesis using layouts_settle [of demo] n by simp
qed

section \<open>Frames\<close>

definition occupies :: "Compiler \<Rightarrow> Symbol \<Rightarrow> nat" where
  "occupies c s = (if sy_address s = None then slot_size c (sy_ty s) 0 else 0)"

lemma slot_add_small: "slot_add a b < 2 ^ 32 - 1 \<Longrightarrow> slot_add a b = a + b"
  by (simp add: slot_add_def)

lemma symbol_offsets_Cons:
  "symbol_offsets c n (s # ss) = (n # fst (symbol_offsets c (slot_add n (occupies c s)) ss), snd (symbol_offsets c (slot_add n (occupies c s)) ss))"
  if "n < 2 ^ 32"
  using that by (simp add: occupies_def split_beta Let_def slot_add_def)

lemma symbol_offsets_bounds:
  assumes "n < 2 ^ 32" "snd (symbol_offsets c n ss) < 2 ^ 32 - 1"
  shows "length (fst (symbol_offsets c n ss)) = length ss \<and> n \<le> snd (symbol_offsets c n ss) \<and>
    (\<forall>j < length ss. n \<le> fst (symbol_offsets c n ss) ! j \<and>
       fst (symbol_offsets c n ss) ! j + occupies c (ss ! j) \<le> snd (symbol_offsets c n ss) \<and>
       (\<forall>k < length ss. j < k \<longrightarrow> fst (symbol_offsets c n ss) ! j + occupies c (ss ! j) \<le> fst (symbol_offsets c n ss) ! k))"
  using assms
proof (induction ss arbitrary: n)
  case (Cons s ss)
  let ?m = "slot_add n (occupies c s)"
  have m: "?m < 2 ^ 32" by (simp add: slot_add_def)
  have e: "snd (symbol_offsets c ?m ss) < 2 ^ 32 - 1" using Cons.prems symbol_offsets_Cons by (metis snd_conv)
  note IH = Cons.IH [OF m e]
  then have "?m < 2 ^ 32 - 1" using e by linarith
  then have "?m = n + occupies c s" by (rule slot_add_small)
  with IH show ?case
    unfolding symbol_offsets_Cons [OF Cons.prems(1)]
    by (auto simp: nth_Cons split: nat.splits)
qed simp

definition temps_of :: "Compiler \<Rightarrow> nat \<Rightarrow> nat" where
  "temps_of c i = (case get (pous (co_unit c)) i of Some ast \<Rightarrow> count_loop_temps (pou_body ast) | None \<Rightarrow> 0)"

lemma layout_for_fields:
  assumes "i < length (ck_pous (co_checked c))" "pou = ck_pous (co_checked c) ! i"
  shows "pl_offsets (layout_for c i) = fst (symbol_offsets c 0 (ps_symbols pou))"
    "pl_temp_base (layout_for c i) = snd (symbol_offsets c 0 (ps_symbols pou))"
    "pl_result (layout_for c i) = (if ps_kind pou = PK_Function \<and> ps_return_type pou \<noteq> None
       then Some (slot_add (pl_temp_base (layout_for c i)) (temps_of c i)) else None)"
    "pl_size (layout_for c i) = (if pl_result (layout_for c i) = None then slot_add (pl_temp_base (layout_for c i)) (temps_of c i)
       else slot_add (slot_add (pl_temp_base (layout_for c i)) (temps_of c i)) 1)"
  using assms by (simp_all add: layout_for_def get_def split_beta Let_def temps_of_def)

text \<open>
  Claim C11.  The variables of a POU do not share storage.  In the layout the compiler goes on with, as long as
  it is smaller than what a \<open>u32\<close> counts, every variable lies after the ones declared before it, all of
  them lie before the temporaries, one for each the body needs, and the result of a function comes after
  those, inside the frame.
\<close>
theorem frame_variables_disjoint:
  assumes "length (ck_pous (co_checked c)) < 2 ^ 32" "compute_layouts c = ([], d)"
    and "i < length (ck_pous (co_checked c))" "pou = ck_pous (co_checked c) ! i" "frame = co_layouts d ! i" "pl_size frame < 2 ^ 32 - 1"
  shows "length (pl_offsets frame) = length (ps_symbols pou) \<and>
    (\<forall>j k. j < k \<and> k < length (ps_symbols pou) \<longrightarrow> pl_offsets frame ! j + occupies d (ps_symbols pou ! j) \<le> pl_offsets frame ! k) \<and>
    (\<forall>j < length (ps_symbols pou). pl_offsets frame ! j + occupies d (ps_symbols pou ! j) \<le> pl_temp_base frame) \<and>
    (case pl_result frame of None \<Rightarrow> pl_size frame = pl_temp_base frame + temps_of d i
     | Some result \<Rightarrow> result = pl_temp_base frame + temps_of d i \<and> pl_size frame = result + 1)"
proof -
  have d: "co_checked d = co_checked c" "i < length (co_layouts d)" "frame = layout_for d i"
    using compute_layouts_settles [OF assms(1)] assms(2,3,5) by auto
  note f = layout_for_fields [of i d pou, folded d(3), unfolded d(1), OF assms(3,4)]
  have t: "slot_add (pl_temp_base frame) (temps_of d i) < 2 ^ 32 - 1"
    using f(4) assms(6) by (auto simp: slot_add_def split: if_splits)
  then have s: "slot_add (pl_temp_base frame) (temps_of d i) = pl_temp_base frame + temps_of d i" by (rule slot_add_small)
  then have "pl_temp_base frame < 2 ^ 32 - 1" using t by linarith
  with symbol_offsets_bounds [of 0 d "ps_symbols pou"] f(1,2)
  have b: "length (pl_offsets frame) = length (ps_symbols pou)"
    "\<forall>j < length (ps_symbols pou). pl_offsets frame ! j + occupies d (ps_symbols pou ! j) \<le> pl_temp_base frame \<and>
      (\<forall>k < length (ps_symbols pou). j < k \<longrightarrow> pl_offsets frame ! j + occupies d (ps_symbols pou ! j) \<le> pl_offsets frame ! k)"
    by simp_all
  have "case pl_result frame of None \<Rightarrow> pl_size frame = pl_temp_base frame + temps_of d i
     | Some result \<Rightarrow> result = pl_temp_base frame + temps_of d i \<and> pl_size frame = result + 1"
    using f(3,4) s assms(6) by (auto simp: slot_add_def split: if_splits)
  with b show ?thesis by auto
qed

lemma demo_no_temps: "co_unit d = co_unit demo \<Longrightarrow> temps_of d i = 0"
  by (simp add: temps_of_def demo_def Compiler_new_def pous_def get_def)

theorem frame_variables_disjoint_witness:
  "let frame = co_layouts (snd (compute_layouts demo)) ! 0 in
     pl_size frame = 3 \<and> pl_offsets frame ! 0 + 2 \<le> pl_offsets frame ! 1"
proof -
  have n: "length (ck_pous (co_checked demo)) = 3" by (simp add: demo_pous)
  have "\<not> contains_itself demo i" if "i < 3" for i
    using that demo_contained by (auto simp: contains_itself_def u32_try_from_def contains_loop.simps less_Suc_eq numeral_3_eq_3 numeral_2_eq_2)
  then have "fst (compute_layouts demo) = []" using compute_layouts_settles [of demo] n by simp
  then obtain d where d: "compute_layouts demo = ([], d)" by (metis prod.collapse)
  with compute_layouts_settles [of demo] n have l: "length (co_layouts d) = 3" "co_checked d = co_checked demo" "co_unit d = co_unit demo"
    "\<And>i. i < 3 \<Longrightarrow> co_layouts d ! i = layout_for d i" by auto
  have t: "co_type d = co_type demo" using l(2) by (simp add: fun_eq_iff co_type_def)
  note size = slot_size.simps [of d] t demo_types get_def l(1) slot_add_def
  note frame = layout_for_fields [of _ d, unfolded l(2) n demo_no_temps [OF l(3)], OF _ refl]
  have "pl_size (co_layouts d ! 2) = 1" using frame [of 2] l(4) [of 2]
    by (simp add: demo_pous demo_pou_def demo_symbol_def size)
  then have "pl_size (co_layouts d ! 1) = 2" using frame [of 1] l(4) [of 1]
    by (simp add: demo_pous demo_pou_def demo_symbol_def size)
  then have s: "pl_size (co_layouts d ! 0) = 3" "slot_size d 23 0 = 2" using frame [of 0] l(4) [of 0]
    by (simp_all add: demo_pous demo_pou_def demo_symbol_def size)
  from frame_variables_disjoint [OF _ d _ refl refl, of 0] n s(1)
  have "pl_offsets (co_layouts d ! 0) ! 0 + occupies d (ps_symbols (ck_pous (co_checked demo) ! 0) ! 0) \<le> pl_offsets (co_layouts d ! 0) ! 1"
    by (auto simp: demo_pous demo_pou_def dest: spec [of _ 0])
  moreover have "occupies d (ps_symbols (ck_pous (co_checked demo) ! 0) ! 0) = 2"
    using s(2) by (simp add: demo_pous demo_pou_def demo_symbol_def occupies_def)
  ultimately show ?thesis using d s(1) by simp
qed

end
