(* ===== verification/Compile_Slots.thy ===== *)
theory Compile_Slots
  imports Compile_Layout
begin

text \<open>
  The second part of the compiler's layout, from \<open>crates/salman-vm/src/compile.rs\<close>: the slots that are
  allocated for a variable, with their types, names, persistence and initial values; the checks on located
  and external variables; the frames of globals, functions and program instances; and the tasks.
\<close>

section \<open>Constants\<close>

fun integer_value :: "int \<Rightarrow> ElementaryType \<Rightarrow> Value" where
  "integer_value value E_Sint = V_Sint (word_of_int value)"
| "integer_value value E_Int = V_Int (word_of_int value)"
| "integer_value value E_Lint = V_Lint (word_of_int value)"
| "integer_value value E_Usint = V_Usint (word_of_int value)"
| "integer_value value E_Uint = V_Uint (word_of_int value)"
| "integer_value value E_Udint = V_Udint (word_of_int value)"
| "integer_value value E_Ulint = V_Ulint (word_of_int value)"
| "integer_value value E_Byte = V_Byte (word_of_int value)"
| "integer_value value E_Word = V_Word (word_of_int value)"
| "integer_value value E_Dword = V_Dword (word_of_int value)"
| "integer_value value E_Lword = V_Lword (word_of_int value)"
| "integer_value value E_Bool = V_Bool (value \<noteq> 0)"
| "integer_value value E_Real = Value_real (of_nat (fl_of_int F32 value))"
| "integer_value value E_Lreal = Value_lreal (of_nat (fl_of_int F64 value))"
| "integer_value value E_Time = V_Time (sint (word_of_int value :: u64))"
| "integer_value value E_LTime = V_LTime (sint (word_of_int value :: u64))"
| "integer_value value _ = V_Dint (word_of_int value)"

section \<open>Slots\<close>

definition push_slot :: "string \<Rightarrow> ElementaryType \<Rightarrow> Persistence \<Rightarrow> Compiler \<Rightarrow> Compiler" where
  "push_slot name ty persistence c =
     c\<lparr>co_slot_types := co_slot_types c @ [ty], co_slot_names := co_slot_names c @ [name],
       co_persistence := co_persistence c @ [persistence]\<rparr>"

definition push_initial :: "nat \<Rightarrow> Value option \<Rightarrow> Compiler \<Rightarrow> Compiler" where
  "push_initial slot init c = (case init of Some value \<Rightarrow> c\<lparr>co_initial := co_initial c @ [(slot, value)]\<rparr> | None \<Rightarrow> c)"

definition persistence_of :: "VarQualifiers \<Rightarrow> Persistence" where
  "persistence_of q =
     (if vq_persistent q then Persistent else if vq_retention q = Ret_Retain then Retain else Volatile)"

definition declared_default :: "Compiler \<Rightarrow> TypeId \<Rightarrow> Value option" where
  "declared_default c ty =
     (case co_type c ty of
        T_Subrange base low high \<Rightarrow>
          (let default = unwrap_or (as_i64 (default_value base)) 0
           in if default < low then Some (integer_value low base)
              else if default > high then Some (integer_value high base)
              else None)
      | T_Enum _ base ((_, first) # _) \<Rightarrow>
          if first = unwrap_or (as_i64 (default_value base)) 0 then None else Some (integer_value first base)
      | _ \<Rightarrow> None)"

text \<open>The odometer of an array's subscripts, last dimension fastest; the flag is whether it wrapped round.\<close>

fun odometer :: "ArrayBounds list \<Rightarrow> int list \<Rightarrow> int list \<times> bool" where
  "odometer (d # ds) (i # rest) =
     (let (rest, carry) = odometer ds rest in
      if \<not> carry then (i # rest, False)
      else let i = sint (word_of_int (i + 1) :: u64)
           in if i \<le> bounds_high d then (i # rest, False) else (bounds_low d # rest, True))"
| "odometer _ rest = (rest, True)"

definition show_int :: "int \<Rightarrow> string" where
  "show_int i = (if i < 0 then ''-'' @ show_nat (nat (- i)) else show_nat (nat i))"

fun join_comma :: "string list \<Rightarrow> string" where
  "join_comma [] = ''''"
| "join_comma [s] = s"
| "join_comma (s # ss) = s @ '','' @ join_comma ss"

definition u32_len :: "'a list \<Rightarrow> nat" where
  "u32_len xs = wrapping_u32 (length xs)"

definition temp_name :: "string \<Rightarrow> nat \<Rightarrow> string" where
  "temp_name prefix extra = prefix @ ''.<temp'' @ show_nat extra @ ''>''"

definition inner_persistence :: "VarQualifiers \<Rightarrow> Persistence \<Rightarrow> Persistence" where
  "inner_persistence q outer = (case persistence_of q of Volatile \<Rightarrow> outer | declared \<Rightarrow> declared)"

function emit_slots :: "string \<Rightarrow> TypeId \<Rightarrow> Persistence \<Rightarrow> nat \<Rightarrow> Compiler \<Rightarrow> Compiler" where
  "emit_slots prefix ty persistence depth c =
     (if depth > 16 then push_slot prefix E_Dint persistence c
      else case co_type c ty of
        T_Array element dims \<Rightarrow>
          fst (fold (\<lambda>_ (c, indices).
              (emit_slots (prefix @ ''['' @ join_comma (map show_int indices) @ '']'') element persistence (depth + 1) c,
               fst (odometer dims indices)))
            [0..<element_count dims] (c, map bounds_low dims))
      | T_Struct _ fs \<Rightarrow>
          fold (\<lambda>f. emit_slots (prefix @ ''.'' @ field_name f) (field_ty f) persistence (depth + 1)) fs c
      | T_FunctionBlock _ (Some block) _ \<Rightarrow>
          fold (\<lambda>f. push_slot (prefix @ ''.'' @ bf_name f) (bf_ty f) persistence) (layout block) c
      | T_FunctionBlock _ None (Some index) \<Rightarrow>
          (let symbols = (case get (ck_pous (co_checked c)) index of Some p \<Rightarrow> ps_symbols p | None \<Rightarrow> []);
               c = fold (\<lambda>s c.
                     push_initial (u32_len (co_slot_types c)) (sy_init s)
                       (emit_slots (prefix @ ''.'' @ name_ident (sy_name s)) (sy_ty s)
                          (inner_persistence (sy_qualifiers s) persistence) (depth + 1) c)) symbols c;
               size = (case get (co_layouts c) index of Some l \<Rightarrow> pl_size l | None \<Rightarrow> 0);
               declared = foldl slot_add 0 (map (\<lambda>s. slot_size c (sy_ty s) 0) symbols)
           in fold (\<lambda>extra. push_slot (temp_name prefix extra) E_Dint Volatile) [declared..<size] c)
      | other \<Rightarrow>
          push_initial (u32_len (co_slot_types c)) (declared_default c ty)
            (push_slot prefix
               (case other of
                  T_Elementary t \<Rightarrow> t
                | T_Subrange base _ _ \<Rightarrow> base
                | T_Enum _ base _ \<Rightarrow> base
                | T_Str wide _ \<Rightarrow> if wide then E_WString else E_String
                | _ \<Rightarrow> E_Dint) persistence c))"
  by pat_completeness auto
termination emit_slots by (relation "measure (\<lambda>(prefix, ty, persistence, depth, c). 17 - depth)") auto

declare emit_slots.simps [simp del]

function declared_defaults :: "Compiler \<Rightarrow> TypeId \<Rightarrow> nat \<Rightarrow> Value option list" where
  "declared_defaults c ty depth =
     (if depth > 16 then [None]
      else case co_type c ty of
        T_Array element dims \<Rightarrow> concat (replicate (element_count dims) (declared_defaults c element (depth + 1)))
      | T_Struct _ fs \<Rightarrow> concat (map (\<lambda>f. declared_defaults c (field_ty f) (depth + 1)) fs)
      | T_FunctionBlock _ _ _ \<Rightarrow> replicate (slot_size c ty depth) None
      | _ \<Rightarrow> [declared_default c ty])"
  by pat_completeness auto
termination declared_defaults by (relation "measure (\<lambda>(c, ty, depth). 17 - depth)") auto

declare declared_defaults.simps [simp del]

section \<open>Located and external variables\<close>

record Located =
  lo_span :: Span
  lo_address :: DirectAddress
  lo_ty :: ElementaryType
  lo_name :: string
  lo_init :: "Value option"

definition located_in :: "Compiler \<Rightarrow> Symbol list \<Rightarrow> Located list" where
  "located_in c symbols =
     concat (map (\<lambda>s. case sy_address s of
         None \<Rightarrow> []
       | Some address \<Rightarrow> [\<lparr>lo_span = name_span (sy_name s), lo_address = address, lo_ty = slot_type c (sy_ty s),
                            lo_name = name_ident (sy_name s), lo_init = sy_init s\<rparr>]) symbols)"

definition ImageLayout_default :: ImageLayout where
  "ImageLayout_default = \<lparr>il_granularity = ElementIndex, il_byte_order = LittleEndian\<rparr>"

definition check_located :: "Located \<Rightarrow> Compiler \<Rightarrow> Compiler" where
  "check_located lo c =
     (case resolve (ProcessImage_new IMAGE_BYTES ImageLayout_default) (lo_address lo) of
        Inl _ \<Rightarrow> add_diag E_BAD_LOCATION (Some (lo_span lo)) c
      | Inr position \<Rightarrow>
          if ip_byte position + max ((AddressSize_bits (da_size (lo_address lo)) + 7) div 8) 1 > IMAGE_BYTES
          then add_diag E_BAD_LOCATION (Some (lo_span lo)) c
          else if unwrap_or (bit_width (lo_ty lo)) 0 \<noteq> AddressSize_bits (da_size (lo_address lo))
          then add_diag E_BAD_LOCATION (Some (lo_span lo)) c
          else case lo_init lo of
            None \<Rightarrow> c
          | Some init \<Rightarrow>
              if da_location (lo_address lo) = Input then add_diag E_WRITE_TO_INPUT (Some (lo_span lo)) c
              else c\<lparr>co_image_initial := co_image_initial c @ [(lo_address lo, init)]\<rparr>)"

definition check_located_variables :: "Compiler \<Rightarrow> Compiler" where
  "check_located_variables c =
     fold check_located
       (located_in c (ck_globals (co_checked c)) @ concat (map (\<lambda>p. located_in c (ps_symbols p)) (ck_pous (co_checked c)))) c"

definition report_external_variables :: "Compiler \<Rightarrow> Compiler" where
  "report_external_variables c =
     fold (\<lambda>s. add_diag U_NOT_COMPILED (Some (name_span (sy_name s))))
       (filter (\<lambda>s. sy_section s = Sec_External) (concat (map ps_symbols (ck_pous (co_checked c))))) c"

section \<open>Frames\<close>

definition emit_symbol :: "string \<Rightarrow> Symbol \<Rightarrow> Compiler \<Rightarrow> Compiler" where
  "emit_symbol name s c =
     push_initial (u32_len (co_slot_types c)) (sy_init s) (emit_slots name (sy_ty s) (persistence_of (sy_qualifiers s)) 0 c)"

definition allocate_global :: "Symbol \<Rightarrow> Compiler \<Rightarrow> Compiler" where
  "allocate_global s c =
     (let c = c\<lparr>co_global_offsets := co_global_offsets c @ [u32_len (co_slot_types c)]\<rparr>
      in if sy_address s \<noteq> None then c else emit_symbol (name_ident (sy_name s)) s c)"

definition allocate_globals :: "Compiler \<Rightarrow> Compiler" where
  "allocate_globals c = fold allocate_global (ck_globals (co_checked c)) c"

definition extra_slot :: "Compiler \<Rightarrow> nat \<Rightarrow> string \<Rightarrow> nat \<Rightarrow> Compiler \<Rightarrow> Compiler" where
  "extra_slot c0 index prefix extra c =
     (let result = (case get (co_layouts c0) index of Some l \<Rightarrow> pl_result l | None \<Rightarrow> None) in
      if result = Some extra
      then push_slot (prefix @ ''.<result>'')
             (case Option.bind (get (ck_pous (co_checked c0)) index) ps_return_type of None \<Rightarrow> E_Dint | Some t \<Rightarrow> slot_type c0 t) Volatile c
      else push_slot (temp_name prefix extra) E_Lint Volatile c)"

definition emit_instance_slots :: "nat \<Rightarrow> string \<Rightarrow> Compiler \<Rightarrow> Compiler" where
  "emit_instance_slots index prefix c =
     (let symbols = (case get (ck_pous (co_checked c)) index of Some p \<Rightarrow> ps_symbols p | None \<Rightarrow> []);
          size = (case get (co_layouts c) index of Some l \<Rightarrow> pl_size l | None \<Rightarrow> 0);
          start = u32_len (co_slot_types c);
          c = fold (\<lambda>s c. if sy_address s \<noteq> None then c else emit_symbol (prefix @ ''.'' @ name_ident (sy_name s)) s c) symbols c;
          used = u32_len (co_slot_types c) - start
      in fold (extra_slot c index prefix) [used..<size] c)"

definition allocate_function :: "nat \<Rightarrow> Compiler \<Rightarrow> Compiler" where
  "allocate_function index c =
     (case get (ck_pous (co_checked c)) index of
        None \<Rightarrow> c
      | Some pou \<Rightarrow>
          if ps_kind pou \<noteq> PK_Function then c
          else emit_instance_slots index (name_ident (ps_name pou))
                 (c\<lparr>co_function_bases := co_function_bases c @ [(wrapping_u32 index, u32_len (co_slot_types c))]\<rparr>))"

definition allocate_functions :: "Compiler \<Rightarrow> Compiler" where
  "allocate_functions c = fold allocate_function [0..<length (ck_pous (co_checked c))] c"

section \<open>Tasks\<close>

definition instantiate :: "nat \<Rightarrow> string \<Rightarrow> Compiler \<Rightarrow> ProgramBinding option \<times> Compiler" where
  "instantiate pou name c =
     (let base = u32_len (co_slot_types c); c = emit_instance_slots pou name c in
      case map_of (co_routines c) pou of
        None \<Rightarrow> (None, c)
      | Some routine \<Rightarrow> (Some \<lparr>pb_routine = routine, pb_base = base\<rparr>, c))"

definition freewheeling :: "string \<Rightarrow> nat \<Rightarrow> ProgramBinding \<Rightarrow> TaskConfig" where
  "freewheeling name ordinal binding =
     \<lparr>tc_name = name @ ''_freewheeling'', tc_trigger = Freewheeling, tc_priority = min ordinal 65535,
      tc_programs = [binding], tc_execution_time = 0\<rparr>"

definition allocate_default_instance :: "nat \<Rightarrow> TaskConfig list \<times> Compiler \<Rightarrow> TaskConfig list \<times> Compiler" where
  "allocate_default_instance index st =
     (case get (ck_pous (co_checked (snd st))) index of
        None \<Rightarrow> st
      | Some pou \<Rightarrow>
          if ps_kind pou \<noteq> PK_Program then st
          else case instantiate index (name_ident (ps_name pou)) (snd st) of
            (None, c) \<Rightarrow> (fst st, c)
          | (Some binding, c) \<Rightarrow> (fst st @ [freewheeling (name_ident (ps_name pou)) (length (fst st)) binding], c))"

fun instantiate_all :: "CheckedProgramInstance list \<Rightarrow> Compiler \<Rightarrow> ProgramBinding list \<times> Compiler" where
  "instantiate_all [] c = ([], c)"
| "instantiate_all (i # more_instances) c =
     (let (b, c) = instantiate (cp_pou i) (cp_name i) c; (bs, c) = instantiate_all more_instances c
      in ((case b of Some b \<Rightarrow> b # bs | None \<Rightarrow> bs), c))"

definition allocate_task :: "CheckedTask \<Rightarrow> TaskConfig list \<times> Compiler \<Rightarrow> TaskConfig list \<times> Compiler" where
  "allocate_task t st =
     (let (programs, c) = instantiate_all (ct_programs t) (snd st);
          trigger = (case ct_trigger t of
                       CT_Cyclic interval \<Rightarrow> Cyclic interval
                     | CT_Event global \<Rightarrow> Event (unwrap_or (get (co_global_offsets c) global) 0)
                     | CT_Freewheeling \<Rightarrow> Freewheeling)
      in (fst st @ [\<lparr>tc_name = ct_name t, tc_trigger = trigger, tc_priority = ct_priority t, tc_programs = programs,
                      tc_execution_time = 0\<rparr>], c))"

definition allocate_untasked :: "CheckedProgramInstance \<Rightarrow> TaskConfig list \<times> Compiler \<Rightarrow> TaskConfig list \<times> Compiler" where
  "allocate_untasked i st =
     (case instantiate (cp_pou i) (cp_name i) (snd st) of
        (None, c) \<Rightarrow> (fst st, c)
      | (Some binding, c) \<Rightarrow> (fst st @ [freewheeling (cp_name i) (length (fst st)) binding], c))"

definition allocate_program_instances :: "Compiler \<Rightarrow> TaskConfig list \<times> Compiler" where
  "allocate_program_instances c =
     (let configs = ck_configurations (co_checked c) in
      if configs = [] then fold allocate_default_instance [0..<length (ck_pous (co_checked c))] ([], c)
      else fold (\<lambda>conf st. fold allocate_untasked (cc_untasked conf) (fold allocate_task (cc_tasks conf) st)) configs ([], c))"

end
