(* ===== verification/Compile_Frames.thy ===== *)
theory Compile_Frames
  imports Compile_Settled Compile_Slots
begin

text \<open>
  That the slots the compiler allocates are the slots its layout promised: an instance takes exactly as
  many slots as its frame is large, and every variable's slots sit at its offset with the types its
  declaration asks for.
\<close>

section \<open>The slots of a type\<close>

text \<open>The types of the slots a variable of a type gets, in order.\<close>

definition scalar_type :: "TypeData \<Rightarrow> ElementaryType" where
  "scalar_type t =
     (case t of
        T_Elementary ty \<Rightarrow> ty
      | T_Subrange base _ _ \<Rightarrow> base
      | T_Enum _ base _ \<Rightarrow> base
      | T_Str wide _ \<Rightarrow> if wide then E_WString else E_String
      | _ \<Rightarrow> E_Dint)"

definition pou_symbols :: "Compiler \<Rightarrow> nat \<Rightarrow> Symbol list" where
  "pou_symbols c index = (case get (ck_pous (co_checked c)) index of Some p \<Rightarrow> ps_symbols p | None \<Rightarrow> [])"

definition frame_size :: "Compiler \<Rightarrow> nat \<Rightarrow> nat" where
  "frame_size c index = (case get (co_layouts c) index of Some l \<Rightarrow> pl_size l | None \<Rightarrow> 0)"

definition declared_size :: "Compiler \<Rightarrow> Symbol list \<Rightarrow> nat" where
  "declared_size c symbols = foldl slot_add 0 (map (\<lambda>s. slot_size c (sy_ty s) 0) symbols)"

function slots_of :: "Compiler \<Rightarrow> TypeId \<Rightarrow> nat \<Rightarrow> ElementaryType list" where
  "slots_of c ty depth =
     (if depth > 16 then [E_Dint]
      else case co_type c ty of
        T_Array element dims \<Rightarrow> concat (replicate (element_count dims) (slots_of c element (depth + 1)))
      | T_Struct _ fs \<Rightarrow> concat (map (\<lambda>f. slots_of c (field_ty f) (depth + 1)) fs)
      | T_FunctionBlock _ (Some block) _ \<Rightarrow> map bf_ty (layout block)
      | T_FunctionBlock _ None (Some index) \<Rightarrow>
          concat (map (\<lambda>s. slots_of c (sy_ty s) (depth + 1)) (pou_symbols c index)) @
          replicate (frame_size c index - declared_size c (pou_symbols c index)) E_Dint
      | other \<Rightarrow> [scalar_type other])"
  by pat_completeness auto
termination slots_of by (relation "measure (\<lambda>(c, ty, depth). 17 - depth)") auto

declare slots_of.simps [simp del]

section \<open>What is emitted\<close>

text \<open>What the allocation of slots reads and never changes.\<close>

definition same_unit :: "Compiler \<Rightarrow> Compiler \<Rightarrow> bool" where
  "same_unit c d \<longleftrightarrow> co_checked d = co_checked c \<and> co_layouts d = co_layouts c \<and> co_unit d = co_unit c"

definition appends :: "Compiler \<Rightarrow> ElementaryType list \<Rightarrow> Compiler \<Rightarrow> bool" where
  "appends c ts d \<longleftrightarrow> same_unit c d \<and> co_slot_types d = co_slot_types c @ ts"

lemma appends_refl [simp]: "appends c [] c"
  by (simp add: appends_def same_unit_def)

lemma appends_trans: "appends c ts d \<Longrightarrow> appends d us e \<Longrightarrow> appends c (ts @ us) e"
  by (simp add: appends_def same_unit_def)

lemma appends_push: "appends c [ty] (push_slot name ty p c)"
  by (simp add: appends_def same_unit_def push_slot_def)

lemma appends_initial [simp]: "appends c ts (push_initial slot init d) = appends c ts d"
  by (simp add: appends_def same_unit_def push_initial_def split: option.split)

lemma appends_fold:
  assumes "\<And>x d. x \<in> set xs \<Longrightarrow> same_unit c d \<Longrightarrow> appends d (g x) (f x d)" "same_unit c d"
  shows "appends d (concat (map g xs)) (fold f xs d)"
  using assms
proof (induction xs arbitrary: d)
  case (Cons x xs)
  have x: "appends d (g x) (f x d)" using Cons.prems by simp
  then have "same_unit c (f x d)" using Cons.prems(2) by (simp add: appends_def same_unit_def)
  then have "appends (f x d) (concat (map g xs)) (fold f xs (f x d))" using Cons by simp
  then show ?case using appends_trans [OF x] by simp
qed simp

lemma same_unit_refl [simp]: "same_unit c c"
  by (simp add: same_unit_def)

lemma same_unit_type: "same_unit c d \<Longrightarrow> co_type d ty = co_type c ty"
  by (simp add: same_unit_def co_type_def)

lemma same_unit_size: "same_unit c d \<Longrightarrow> slot_size d ty depth = slot_size c ty depth"
  by (rule slot_size_cong) (simp_all add: same_unit_def size_at_def)

lemma same_unit_pous: "same_unit c d \<Longrightarrow> pou_symbols d i = pou_symbols c i \<and> frame_size d i = frame_size c i"
  by (simp add: same_unit_def pou_symbols_def frame_size_def)

lemma same_unit_declared: "same_unit c d \<Longrightarrow> declared_size d ss = declared_size c ss"
  using same_unit_size by (simp add: declared_size_def)

lemma slots_of_cong: "same_unit c d \<Longrightarrow> slots_of d ty depth = slots_of c ty depth"
proof (induction c ty depth rule: slots_of.induct)
  case (1 c ty depth)
  note unfold = slots_of.simps [of c ty depth] slots_of.simps [of d ty depth] same_unit_type [OF 1(4)]
  show ?case
  proof (cases "co_type c ty")
    case (T_Array element dims)
    then show ?thesis using 1(1) [OF _ T_Array 1(4)] by (simp add: unfold)
  next
    case (T_Struct name fs)
    then show ?thesis using 1(2) [OF _ T_Struct _ 1(4)] by (simp add: unfold cong: map_cong)
  next
    case (T_FunctionBlock name native pou)
    then show ?thesis using 1(3) [OF _ T_FunctionBlock _ _ _ 1(4)] same_unit_pous [OF 1(4)] same_unit_declared [OF 1(4)]
      by (auto simp: unfold split: option.splits cong: map_cong)
  qed (simp_all add: unfold)
qed

lemma appends_fold_indices:
  assumes "\<And>indices d. same_unit c d \<Longrightarrow> appends d ts (f indices d)" "same_unit c d"
  shows "appends d (concat (replicate (length xs) ts)) (fst (fold (\<lambda>_ (c, indices). (f indices c, g indices)) xs (d, indices)))"
  using assms(2)
proof (induction xs arbitrary: d indices)
  case (Cons x xs)
  have x: "appends d ts (f indices d)" using assms(1) Cons.prems by simp
  then have "same_unit c (f indices d)" using Cons.prems by (simp add: appends_def same_unit_def)
  from appends_trans [OF x Cons.IH [OF this]] show ?case by simp
qed simp

lemma emit_slots_appends: "appends c (slots_of c ty depth) (emit_slots prefix ty p depth c)"
proof (induction prefix ty p depth c rule: emit_slots.induct)
  case IH: (1 prefix ty p depth c)
  note unfold = slots_of.simps [of c ty depth] emit_slots.simps [of prefix ty p depth c]
  show ?case
  proof (cases "depth > 16")
    case True
    then show ?thesis by (simp add: unfold appends_push)
  next
    case shallow: False
    show ?thesis
    proof (cases "co_type c ty")
      case (T_Array element dims)
      let ?f = "\<lambda>indices. emit_slots (prefix @ ''['' @ join_comma (map show_int indices) @ '']'') element p (depth + 1)"
      show ?thesis
      proof (cases "element_count dims")
        case (Suc n)
        then have first: "0 \<in> set [0..<element_count dims]" by auto
        have "appends d (slots_of c element (depth + 1)) (?f indices d)" if "same_unit c d" for indices d
          using IH(1) [OF shallow T_Array first, of d indices] slots_of_cong [OF that] by simp
        from appends_fold_indices [of c, OF this, where xs = "[0..<element_count dims]" and d = c]
        show ?thesis using shallow T_Array by (simp add: unfold)
      qed (use shallow T_Array in \<open>simp add: unfold\<close>)
    next
      case (T_Struct name fs)
      have "appends d (slots_of c (field_ty f) (depth + 1)) (emit_slots (prefix @ ''.'' @ field_name f) (field_ty f) p (depth + 1) d)"
        if "f \<in> set fs" "same_unit c d" for f d
        using IH(2) [OF shallow T_Struct that(1), of d] slots_of_cong [OF that(2)] by simp
      from appends_fold [of fs c, OF this, where d = c] show ?thesis using shallow T_Struct by (simp add: unfold)
    next
      case (T_FunctionBlock name native pou)
      consider block where "native = Some block" | index where "native = None" "pou = Some index" | "native = None" "pou = None"
        by (cases native; cases pou) auto
      then show ?thesis
      proof cases
        case (1 block)
        have "appends c (concat (map (\<lambda>f. [bf_ty f]) (layout block))) (fold (\<lambda>f. push_slot (prefix @ ''.'' @ bf_name f) (bf_ty f) p) (layout block) c)"
          by (rule appends_fold [of _ c]) (simp_all add: appends_push)
        then show ?thesis using shallow T_FunctionBlock 1 by (simp add: unfold concat_map_singleton)
      next
        case (2 index)
        let ?ss = "pou_symbols c index"
        let ?f = "\<lambda>s c. push_initial (u32_len (co_slot_types c)) (sy_init s)
          (emit_slots (prefix @ ''.'' @ name_ident (sy_name s)) (sy_ty s) (inner_persistence (sy_qualifiers s) p) (depth + 1) c)"
        have "appends d (slots_of c (sy_ty s) (depth + 1)) (?f s d)" if "s \<in> set ?ss" "same_unit c d" for s d
          using IH(3) [OF shallow T_FunctionBlock 2 refl, folded pou_symbols_def, OF that(1), of d] slots_of_cong [OF that(2)] by simp
        from appends_fold [of ?ss c, OF this, where d = c]
        have a: "appends c (concat (map (\<lambda>s. slots_of c (sy_ty s) (depth + 1)) ?ss)) (fold ?f ?ss c)" by simp
        let ?d = "fold ?f ?ss c"
        have u: "same_unit c ?d" using a by (simp add: appends_def)
        let ?xs = "[declared_size c ?ss..<frame_size c index]"
        have "appends ?d (concat (map (\<lambda>_. [E_Dint]) ?xs)) (fold (\<lambda>extra. push_slot (temp_name prefix extra) E_Dint Volatile) ?xs ?d)"
          by (rule appends_fold [of _ ?d]) (simp_all add: appends_push)
        from appends_trans [OF a this] show ?thesis
          using shallow T_FunctionBlock 2 same_unit_declared [OF u, of ?ss] same_unit_pous [OF u, of index]
          by (simp add: unfold concat_map_singleton map_replicate_const declared_size_def frame_size_def pou_symbols_def Let_def)
      next
        case 3
        then show ?thesis using shallow T_FunctionBlock by (simp add: unfold appends_push scalar_type_def)
      qed
    qed (use shallow in \<open>simp_all add: unfold appends_push scalar_type_def\<close>)
  qed
qed

section \<open>How many\<close>

text \<open>
  Types within the depth the traversals stop at, whose function blocks are declared and hold no located
  variable.
\<close>

function shallow :: "Compiler \<Rightarrow> TypeId \<Rightarrow> nat \<Rightarrow> bool" where
  "shallow c ty depth =
     (if depth > 16 then False
      else case co_type c ty of
        T_Array element _ \<Rightarrow> shallow c element (depth + 1)
      | T_Struct _ fs \<Rightarrow> list_all (\<lambda>f. shallow c (field_ty f) (depth + 1)) fs
      | T_FunctionBlock _ None (Some index) \<Rightarrow>
          index < length (ck_pous (co_checked c)) \<and>
          list_all (\<lambda>s. sy_address s = None \<and> shallow c (sy_ty s) (depth + 1)) (pou_symbols c index)
      | _ \<Rightarrow> True)"
  by pat_completeness auto
termination shallow by (relation "measure (\<lambda>(c, ty, depth). 17 - depth)") auto

declare shallow.simps [simp del]

lemma shallow_size: "shallow c ty depth \<Longrightarrow> d \<le> depth \<Longrightarrow> slot_size c ty d = slot_size c ty depth"
proof (induction c ty depth arbitrary: d rule: shallow.induct)
  case (1 c ty depth)
  have depth: "\<not> depth > 16" "\<not> d > 16" using 1(4,5) by (auto simp: shallow.simps [of c ty depth] split: if_splits)
  note unfold = slot_size.simps [of c ty depth] slot_size.simps [of c ty d]
  show ?case
  proof (cases "co_type c ty")
    case (T_Array element dims)
    then have "shallow c element (depth + 1)" using 1(4) depth by (simp add: shallow.simps [of c ty depth])
    from 1(1) [OF depth(1) T_Array this, of "d + 1"] 1(5) T_Array depth show ?thesis by (simp add: unfold)
  next
    case (T_Struct name fs)
    have "slot_size c (field_ty f) (d + 1) = slot_size c (field_ty f) (depth + 1)" if "f \<in> set fs" for f
      using 1(2) [OF depth(1) T_Struct that, of "d + 1"] 1(4,5) T_Struct depth that
      by (simp add: shallow.simps [of c ty depth] list_all_iff)
    with T_Struct depth show ?thesis by (simp add: unfold cong: map_cong)
  next
    case (T_FunctionBlock name native pou)
    with depth show ?thesis by (simp add: unfold split: option.split)
  qed (use depth in \<open>simp_all add: unfold\<close>)
qed

lemma foldl_slot_add: "foldl slot_add a xs < 2 ^ 32 - 1 \<Longrightarrow> foldl slot_add a xs = a + sum_list xs"
proof (induction xs arbitrary: a)
  case (Cons x xs)
  then have e: "foldl slot_add (slot_add a x) xs = slot_add a x + sum_list xs" by simp
  with Cons.prems have "slot_add a x < 2 ^ 32 - 1" by simp
  from slot_add_small [OF this] e show ?case by simp
qed simp

definition settled :: "Compiler \<Rightarrow> bool" where
  "settled c \<longleftrightarrow> length (co_layouts c) = length (ck_pous (co_checked c)) \<and>
     (\<forall>i < length (ck_pous (co_checked c)). co_layouts c ! i = layout_for c i)"

lemma settled_frame:
  assumes "settled c" "i < length (ck_pous (co_checked c))" "frame_size c i < 2 ^ 32 - 1"
  shows "snd (symbol_offsets c 0 (pou_symbols c i)) < 2 ^ 32 - 1" "snd (symbol_offsets c 0 (pou_symbols c i)) \<le> frame_size c i"
proof -
  have f: "frame_size c i = pl_size (layout_for c i)" using assms(1,2) by (simp add: frame_size_def settled_def get_def)
  have p: "pou_symbols c i = ps_symbols (ck_pous (co_checked c) ! i)" using assms(2) by (simp add: pou_symbols_def get_def)
  note l = layout_for_fields [OF assms(2) refl]
  have t: "slot_add (pl_temp_base (layout_for c i)) (temps_of c i) < 2 ^ 32 - 1"
    using l(4) f assms(3) by (auto simp: slot_add_def split: if_splits)
  then have "pl_temp_base (layout_for c i) \<le> frame_size c i" using l(4) f slot_add_small [OF t] assms(3)
    by (auto simp: slot_add_def split: if_splits)
  then show "snd (symbol_offsets c 0 (pou_symbols c i)) \<le> frame_size c i" by (simp add: p l(2))
  then show "snd (symbol_offsets c 0 (pou_symbols c i)) < 2 ^ 32 - 1" using assms(3) by simp
qed

lemma symbol_offsets_declared:
  "list_all (\<lambda>s. sy_address s = None) ss \<Longrightarrow> snd (symbol_offsets c n ss) = foldl slot_add n (map (\<lambda>s. slot_size c (sy_ty s) 0) ss)"
  by (induction ss arbitrary: n) (simp_all add: split_beta Let_def)

lemma slots_length:
  "settled c \<Longrightarrow> shallow c ty depth \<Longrightarrow> slot_size c ty depth < 2 ^ 32 - 1 \<Longrightarrow> length (slots_of c ty depth) = slot_size c ty depth"
proof (induction c ty depth rule: slots_of.induct)
  case IH: (1 c ty depth)
  have depth: "\<not> depth > 16" using IH(5) by (auto simp: shallow.simps [of c ty depth] split: if_splits)
  note unfold = slot_size.simps [of c ty depth] slots_of.simps [of c ty depth] shallow.simps [of c ty depth]
  show ?case
  proof (cases "co_type c ty")
    case (T_Array element dims)
    then have "shallow c element (depth + 1)" using IH(5) depth by (simp add: unfold)
    moreover have size: "slot_size c ty depth = element_count dims * slot_size c element (depth + 1)"
      using IH(6) T_Array depth by (simp add: unfold u32_MAX_nat_def min_def split: if_splits)
    ultimately show ?thesis
    proof (cases "element_count dims = 0")
      case False
      then have "slot_size c element (depth + 1) \<le> slot_size c ty depth" using size by simp
      then have "slot_size c element (depth + 1) < 2 ^ 32 - 1" using IH(6) by linarith
      from IH(1) [OF depth T_Array IH(4) \<open>shallow c element (depth + 1)\<close> this] size show ?thesis
        using T_Array depth by (simp add: slots_of.simps [of c ty depth] length_concat sum_list_replicate)
    qed (use T_Array depth in \<open>simp add: slots_of.simps [of c ty depth]\<close>)
  next
    case (T_Struct name fs)
    have sum: "slot_size c ty depth = sum_list (map (\<lambda>f. slot_size c (field_ty f) (depth + 1)) fs)"
      using IH(6) T_Struct depth foldl_slot_add [of 0 "map (\<lambda>f. slot_size c (field_ty f) (depth + 1)) fs"] by (simp add: unfold)
    have "length (slots_of c (field_ty f) (depth + 1)) = slot_size c (field_ty f) (depth + 1)" if f: "f \<in> set fs" for f
    proof -
      have "slot_size c (field_ty f) (depth + 1) \<le> slot_size c ty depth" unfolding sum using f by (simp add: member_le_sum_list)
      then have "slot_size c (field_ty f) (depth + 1) < 2 ^ 32 - 1" using IH(6) by linarith
      then show ?thesis using IH(2) [OF depth T_Struct f IH(4)] IH(5) T_Struct depth f by (simp add: unfold list_all_iff)
    qed
    then show ?thesis unfolding sum using T_Struct depth
      by (simp add: slots_of.simps [of c ty depth] length_concat o_def cong: map_cong)
  next
    case (T_FunctionBlock name native pou)
    show ?thesis
    proof (cases "native = None \<and> pou \<noteq> None")
      case True
      then obtain i where n: "native = None" "pou = Some i" by auto
      let ?ss = "pou_symbols c i"
      have i: "i < length (ck_pous (co_checked c))" and ok: "list_all (\<lambda>s. sy_address s = None \<and> shallow c (sy_ty s) (depth + 1)) ?ss"
        using IH(5) T_FunctionBlock n depth by (simp_all add: unfold)
      have size: "slot_size c ty depth = frame_size c i"
        using T_FunctionBlock n depth IH(4) i by (simp add: unfold frame_size_def settled_def get_def)
      note frame = settled_frame [OF IH(4) i] IH(6) [unfolded size]
      have d: "declared_size c ?ss = snd (symbol_offsets c 0 ?ss)"
        using symbol_offsets_declared [of ?ss c 0] ok by (simp add: declared_size_def list_all_iff)
      have small: "declared_size c ?ss < 2 ^ 32 - 1" using frame d by simp
      then have sum: "declared_size c ?ss = sum_list (map (\<lambda>s. slot_size c (sy_ty s) 0) ?ss)"
        using foldl_slot_add [of 0 "map (\<lambda>s. slot_size c (sy_ty s) 0) ?ss"] by (simp add: declared_size_def)
      have "length (slots_of c (sy_ty s) (depth + 1)) = slot_size c (sy_ty s) 0" if s: "s \<in> set ?ss" for s
      proof -
        have sh: "shallow c (sy_ty s) (depth + 1)" using ok s by (simp add: list_all_iff)
        have "slot_size c (sy_ty s) 0 \<le> declared_size c ?ss" unfolding sum using s by (simp add: member_le_sum_list)
        then have "slot_size c (sy_ty s) (depth + 1) < 2 ^ 32 - 1" using small shallow_size [OF sh, of 0] by simp
        then show ?thesis using IH(3) [OF depth T_FunctionBlock n s IH(4) sh] shallow_size [OF sh, of 0] by simp
      qed
      then have "length (slots_of c ty depth) = declared_size c ?ss + (frame_size c i - declared_size c ?ss)"
        using T_FunctionBlock n depth sum by (simp add: slots_of.simps [of c ty depth] length_concat o_def cong: map_cong)
      then show ?thesis using frame d size by simp
    next
      case False
      then show ?thesis using T_FunctionBlock depth by (auto simp: unfold slot_count_def split: option.splits)
    qed
  qed (use depth in \<open>simp_all add: unfold\<close>)
qed

section \<open>Instances\<close>

definition symbol_slots :: "Compiler \<Rightarrow> Symbol \<Rightarrow> ElementaryType list" where
  "symbol_slots c s = (if sy_address s = None then slots_of c (sy_ty s) 0 else [])"

definition shallow_symbols :: "Compiler \<Rightarrow> Symbol list \<Rightarrow> bool" where
  "shallow_symbols c ss \<longleftrightarrow> list_all (\<lambda>s. sy_address s = None \<longrightarrow> shallow c (sy_ty s) 0) ss"

text \<open>The offsets are the sizes of what comes before, as long as nothing saturates.\<close>

lemma symbol_offsets_sums:
  assumes "settled c" "shallow_symbols c ss" "n < 2 ^ 32" "snd (symbol_offsets c n ss) < 2 ^ 32 - 1"
  shows "snd (symbol_offsets c n ss) = n + length (concat (map (symbol_slots c) ss)) \<and>
    (\<forall>j < length ss. fst (symbol_offsets c n ss) ! j = n + length (concat (map (symbol_slots c) (take j ss))) \<and>
       length (symbol_slots c (ss ! j)) = occupies c (ss ! j))"
  using assms(2-)
proof (induction ss arbitrary: n)
  case (Cons s ss)
  let ?m = "slot_add n (occupies c s)"
  have m: "?m < 2 ^ 32" by (simp add: slot_add_def)
  have e: "snd (symbol_offsets c ?m ss) < 2 ^ 32 - 1" using Cons.prems symbol_offsets_Cons by (metis snd_conv)
  have "?m \<le> snd (symbol_offsets c ?m ss)" using symbol_offsets_bounds [OF m e] by simp
  then have "?m < 2 ^ 32 - 1" using e by linarith
  then have sum: "?m = n + occupies c s" "occupies c s < 2 ^ 32 - 1" using slot_add_small [of n "occupies c s"] by simp_all
  have here: "length (symbol_slots c s) = occupies c s"
    using slots_length [OF assms(1)] Cons.prems(1) sum(2) by (cases "sy_address s") (simp_all add: symbol_slots_def occupies_def shallow_symbols_def)
  have "shallow_symbols c ss" using Cons.prems(1) by (simp add: shallow_symbols_def)
  note IH = Cons.IH [OF this m e]
  show ?case unfolding symbol_offsets_Cons [OF Cons.prems(2)] using IH sum(1) here
    by (auto simp: nth_Cons take_Cons' split: nat.splits)
qed simp

lemma emit_symbol_appends: "appends c (slots_of c (sy_ty s) 0) (emit_symbol name s c)"
  by (simp add: emit_symbol_def emit_slots_appends)

definition extra_type :: "Compiler \<Rightarrow> nat \<Rightarrow> nat \<Rightarrow> ElementaryType" where
  "extra_type c i extra =
     (if (case get (co_layouts c) i of Some l \<Rightarrow> pl_result l | None \<Rightarrow> None) = Some extra
      then (case Option.bind (get (ck_pous (co_checked c)) i) ps_return_type of None \<Rightarrow> E_Dint | Some t \<Rightarrow> slot_type c t)
      else E_Lint)"

lemma extra_type_cong: "same_unit c d \<Longrightarrow> extra_type d i e = extra_type c i e"
proof -
  assume u: "same_unit c d"
  then have "slot_type d = slot_type c" by (simp add: fun_eq_iff slot_type_def same_unit_def)
  moreover have "co_checked d = co_checked c" "co_layouts d = co_layouts c" using u by (simp_all add: same_unit_def)
  ultimately show ?thesis unfolding extra_type_def by (simp only:)
qed

lemma emit_instance_appends:
  assumes "u32_len (co_slot_types (fold (\<lambda>s c. if sy_address s \<noteq> None then c else emit_symbol (prefix @ ''.'' @ name_ident (sy_name s)) s c)
      (pou_symbols c i) c)) - u32_len (co_slot_types c) = used"
  shows "appends c (concat (map (symbol_slots c) (pou_symbols c i)) @ map (extra_type c i) [used..<frame_size c i])
     (emit_instance_slots i prefix c)"
proof -
  let ?f = "\<lambda>s c. if sy_address s \<noteq> None then c else emit_symbol (prefix @ ''.'' @ name_ident (sy_name s)) s c"
  let ?d = "fold ?f (pou_symbols c i) c"
  have "appends d (symbol_slots c s) (?f s d)" if "same_unit c d" for s d
    using emit_symbol_appends [of d s] slots_of_cong [OF that] by (simp add: symbol_slots_def)
  from appends_fold [of "pou_symbols c i" c, OF this, where d = c]
  have a: "appends c (concat (map (symbol_slots c) (pou_symbols c i))) ?d" by simp
  then have u: "same_unit c ?d" by (simp add: appends_def)
  have "appends d [extra_type c i extra] (extra_slot ?d i prefix extra d)" for extra d
    unfolding extra_type_cong [OF u, symmetric] by (auto simp: extra_slot_def extra_type_def Let_def intro: appends_push)
  from appends_fold [of "[used..<frame_size c i]" ?d, OF this, where d = ?d]
  have "appends ?d (map (extra_type c i) [used..<frame_size c i]) (fold (extra_slot ?d i prefix) [used..<frame_size c i] ?d)"
    by (simp add: concat_map_singleton)
  from appends_trans [OF a this] show ?thesis
    using assms by (simp add: emit_instance_slots_def pou_symbols_def frame_size_def Let_def)
qed

lemma concat_map_split:
  "j < length ss \<Longrightarrow> concat (map g ss) = concat (map g (take j ss)) @ g (ss ! j) @ concat (map g (drop (Suc j) ss))"
  by (subst id_take_nth_drop [of j ss]) simp_all

lemma instance_slot_types:
  assumes "settled c" "i < length (ck_pous (co_checked c))" "shallow_symbols c (pou_symbols c i)"
    and "frame_size c i < 2 ^ 32 - 1" "length (co_slot_types c) + frame_size c i < 2 ^ 32"
  shows "co_slot_types (emit_instance_slots i prefix c) =
    co_slot_types c @ concat (map (symbol_slots c) (pou_symbols c i)) @
    map (extra_type c i) [snd (symbol_offsets c 0 (pou_symbols c i))..<frame_size c i]"
proof -
  let ?ss = "pou_symbols c i"
  let ?f = "\<lambda>s c. if sy_address s \<noteq> None then c else emit_symbol (prefix @ ''.'' @ name_ident (sy_name s)) s c"
  note frame = settled_frame [OF assms(1,2,4)]
  have sums: "snd (symbol_offsets c 0 ?ss) = length (concat (map (symbol_slots c) ?ss))"
    using symbol_offsets_sums [OF assms(1,3) _ frame(1)] by simp
  have "appends d (symbol_slots c s) (?f s d)" if "same_unit c d" for s d
    using emit_symbol_appends [of d s] slots_of_cong [OF that] by (simp add: symbol_slots_def)
  from appends_fold [of ?ss c, OF this, where d = c]
  have "co_slot_types (fold ?f ?ss c) = co_slot_types c @ concat (map (symbol_slots c) ?ss)" by (simp add: appends_def)
  then have "u32_len (co_slot_types (fold ?f ?ss c)) - u32_len (co_slot_types c) = snd (symbol_offsets c 0 ?ss)"
    using frame(2) assms(5) by (simp add: u32_len_def wrapping_u32_def sums)
  from emit_instance_appends [OF this] show ?thesis by (simp add: appends_def)
qed

text \<open>
  Claim C10.  An instance gets exactly the frame its layout promised.  Once the layout has settled, when no
  frame saturates, every type is within the depth the compiler follows and no function block inside the
  instance holds a located variable, an instance of a POU takes as many slots as its frame is large,
  behind the slots allocated before; each variable's slots lie at its offset, with the types of its
  declaration; and the result of a function has the function's type.
\<close>
theorem instance_fills_frame:
  assumes "settled c" "i < length (ck_pous (co_checked c))" "shallow_symbols c (pou_symbols c i)"
    and "pl_size (co_layouts c ! i) < 2 ^ 32 - 1" "length (co_slot_types c) + pl_size (co_layouts c ! i) < 2 ^ 32"
    and "frame = co_layouts c ! i" "base = length (co_slot_types c)" "after = co_slot_types (emit_instance_slots i prefix c)"
  shows "length after = base + pl_size frame \<and> take base after = co_slot_types c \<and>
    (\<forall>j < length (pou_symbols c i). sy_address (pou_symbols c i ! j) = None \<longrightarrow>
       take (slot_size c (sy_ty (pou_symbols c i ! j)) 0) (drop (base + pl_offsets frame ! j) after) =
       slots_of c (sy_ty (pou_symbols c i ! j)) 0) \<and>
    (\<forall>r t. pl_result frame = Some r \<and> ps_return_type (ck_pous (co_checked c) ! i) = Some t \<longrightarrow> after ! (base + r) = slot_type c t)"
proof -
  let ?ss = "pou_symbols c i" and ?g = "symbol_slots c"
  have size: "frame_size c i = pl_size frame" "frame = layout_for c i"
    using assms(1,2,6) by (simp_all add: frame_size_def settled_def get_def)
  have small: "frame_size c i < 2 ^ 32 - 1" "length (co_slot_types c) + frame_size c i < 2 ^ 32" using assms(4-6) size(1) by simp_all
  note tb = settled_frame [OF assms(1,2) small(1)]
  note sums = symbol_offsets_sums [OF assms(1,3) _ tb(1), simplified]
  have all: "after = co_slot_types c @ concat (map ?g ?ss) @ map (extra_type c i) [snd (symbol_offsets c 0 ?ss)..<frame_size c i]"
    unfolding assms(8) by (rule instance_slot_types [OF assms(1-3) small])
  have ss: "?ss = ps_symbols (ck_pous (co_checked c) ! i)" using assms(2) by (simp add: pou_symbols_def get_def)
  note l = layout_for_fields [OF assms(2) refl, folded size(2), folded ss]
  have "length after = base + pl_size frame" using tb(2) sums by (simp add: all assms(7) size(1))
  moreover have "take base after = co_slot_types c" by (simp add: all assms(7))
  moreover have "take (slot_size c (sy_ty (?ss ! j)) 0) (drop (base + pl_offsets frame ! j) after) = slots_of c (sy_ty (?ss ! j)) 0"
    if j: "j < length ?ss" "sy_address (?ss ! j) = None" for j
  proof -
    have "pl_offsets frame ! j = length (concat (map ?g (take j ?ss)))" "length (?g (?ss ! j)) = slot_size c (sy_ty (?ss ! j)) 0"
      using sums j by (simp_all add: l(1) occupies_def)
    then show ?thesis using j by (simp add: all assms(7) concat_map_split [OF j(1)] symbol_slots_def)
  qed
  moreover have "after ! (base + r) = slot_type c t" if r: "pl_result frame = Some r" "ps_return_type (ck_pous (co_checked c) ! i) = Some t" for r t
  proof -
    have f: "r = slot_add (pl_temp_base frame) (temps_of c i)" "pl_size frame = slot_add r 1" using l(3,4) r by (auto split: if_splits)
    then have "r < frame_size c i" using small(1) by (simp add: size(1) slot_add_def)
    moreover have "pl_temp_base frame \<le> r" using f small(1) tb(1) by (simp add: size(1) slot_add_def l(2))
    ultimately have "after ! (base + r) = extra_type c i r" using sums l(2) by (simp add: all assms(7) nth_append)
    then show ?thesis using r assms(2,6) assms(1) by (simp add: extra_type_def get_def settled_def)
  qed
  ultimately show ?thesis by blast
qed

definition demo_settled :: Compiler where
  "demo_settled = demo\<lparr>co_layouts := map (\<lambda>offsets. \<lparr>pl_offsets = offsets, pl_size = last offsets + 1, pl_temp_base = last offsets + 1,
     pl_result = None\<rparr>) [[0, 2], [0, 1], [0]]\<rparr>"

lemma demo_settled_simps:
  "co_checked demo_settled = co_checked demo" "co_type demo_settled = co_type demo" "co_unit demo_settled = co_unit demo"
  "co_slot_types demo_settled = []" "size_at demo_settled (Suc 0) = Some 2" "size_at demo_settled 2 = Some 1" "length (co_layouts demo_settled) = 3"
  by (simp_all add: demo_settled_def co_type_def fun_eq_iff size_at_def get_def) (simp add: demo_def Compiler_new_def)

lemma demo_sizes: "slot_size demo_settled 4 0 = 1" "slot_size demo_settled 23 0 = 2" "slot_size demo_settled 24 0 = 1"
  using slot_size_instance [of demo_settled 23] slot_size_instance [of demo_settled 24]
  by (simp_all add: slot_size.simps [of demo_settled 4] demo_settled_simps demo_types unwrap_or_def)

lemma settled_demo: "settled demo_settled"
proof -
  have "co_layouts demo_settled ! i = layout_for demo_settled i" if "i < 3" for i
  proof -
    have "temps_of demo_settled i = 0" for i using demo_no_temps demo_settled_simps(3) by blast
    then show ?thesis using that
      by (auto simp: less_Suc_eq numeral_3_eq_3 demo_settled_simps demo_pous demo_pou_def demo_symbol_def demo_sizes layout_for_def get_def
          temps_of_def slot_add_def nth_Cons') (simp_all add: demo_settled_def)
  qed
  then show ?thesis by (simp add: settled_def demo_settled_simps demo_pous)
qed

theorem instance_fills_frame_witness:
  "length (co_slot_types (emit_instance_slots 0 ''Main'' demo_settled)) = 3 \<and>
   take 1 (drop 2 (co_slot_types (emit_instance_slots 0 ''Main'' demo_settled))) = [E_Dint]"
proof -
  have p: "pou_symbols demo_settled 0 = [demo_symbol ''a'' 23, demo_symbol ''x'' 4]"
    "pou_symbols demo_settled (Suc 0) = [demo_symbol ''b'' 24, demo_symbol ''y'' 4]" "pou_symbols demo_settled 2 = [demo_symbol ''z'' 4]"
    by (simp_all add: pou_symbols_def get_def demo_settled_simps demo_pous demo_pou_def)
  have l: "pl_size (co_layouts demo_settled ! 0) = 3" "pl_offsets (co_layouts demo_settled ! 0) = [0, 2]" by (simp_all add: demo_settled_def)
  have "shallow demo_settled 4 depth" if "depth \<le> 2" for depth
    using that by (simp add: shallow.simps [of demo_settled 4] demo_settled_simps demo_types)
  then have "shallow demo_settled 24 1" by (simp add: shallow.simps [of demo_settled 24] demo_settled_simps demo_types demo_pous p demo_symbol_def)
  then have sh: "shallow_symbols demo_settled (pou_symbols demo_settled 0)"
    using \<open>\<And>depth. depth \<le> 2 \<Longrightarrow> shallow demo_settled 4 depth\<close>
    by (simp add: shallow_symbols_def p demo_symbol_def shallow.simps [of demo_settled 23] demo_settled_simps demo_types demo_pous)
  have "slots_of demo_settled 4 0 = [E_Dint]"
    by (simp add: slots_of.simps [of demo_settled 4] demo_settled_simps demo_types scalar_type_def)
  with instance_fills_frame [OF settled_demo _ sh _ _ refl refl refl, where prefix = "''Main''"] l show ?thesis
    by (auto simp: demo_settled_simps demo_pous p demo_symbol_def demo_sizes dest: spec [of _ 1])
qed

end
