(* ===== verification/Vm_Straight.thy ===== *)
theory Vm_Straight
  imports Vm_Exec
begin

text \<open>
  Execution of code without jumps and calls: the instructions one after the other, what such a piece does
  to the operand stack, and that the interpreter does the same when it reaches the piece inside a
  routine, counting its instructions.
\<close>

section \<open>One instruction after the other\<close>

fun exec_seq :: "Env \<Rightarrow> Op list \<Rightarrow> unit ex" where
  "exec_seq env [] = es_return ()"
| "exec_seq env (op # ops) = es_bind (exec_plain env op) (\<lambda>_. exec_seq env ops)"

lemma exec_seq_append: "exec_seq env (xs @ ys) s = es_bind (exec_seq env xs) (\<lambda>_. exec_seq env ys) s"
  by (induction xs arbitrary: s) (auto simp: es_defs split: prod.splits sum.splits)

text \<open>
  From a stack that begins with \<open>xs\<close>, above any rest that leaves room for \<open>n\<close> values, the code leaves the
  stack of the result in their place, or stops with the fault; the memory stays as it is.
\<close>

definition yields :: "Env \<Rightarrow> Memory \<Rightarrow> nat \<Rightarrow> nat \<Rightarrow> Op list \<Rightarrow> Value list \<Rightarrow> FaultKind + Value list \<Rightarrow> bool" where
  "yields env m base n ops xs r \<longleftrightarrow>
     (\<forall>s rest. ex_memory s = m \<and> ex_base s = base \<and> ex_stack s = xs @ rest \<and> length rest + n \<le> el_max_stack (env_limits env) \<longrightarrow>
        (case r of
           Inr ys \<Rightarrow> \<exists>peak. exec_seq env ops s = (Inr (), s\<lparr>ex_stack := ys @ rest, ex_peak_stack := peak\<rparr>)
         | Inl f \<Rightarrow> \<exists>t. exec_seq env ops s = (Inl f, t) \<and> ex_memory t = m))"

lemma yieldsI:
  assumes "\<And>(s :: Exec) rest. ex_memory s = m \<Longrightarrow> ex_base s = base \<Longrightarrow> ex_stack s = xs @ rest \<Longrightarrow> length rest + n \<le> el_max_stack (env_limits env) \<Longrightarrow>
    (case r of
       Inr ys \<Rightarrow> \<exists>peak. exec_seq env ops s = (Inr (), s\<lparr>ex_stack := ys @ rest, ex_peak_stack := peak\<rparr>)
     | Inl f \<Rightarrow> \<exists>t. exec_seq env ops s = (Inl f, t) \<and> ex_memory t = m)"
  shows "yields env m base n ops xs r"
  using assms unfolding yields_def by blast

lemma restack [simp]: "s\<lparr>ex_stack := ex_stack s\<rparr> = (s :: Exec)"
  by (cases s) simp

lemma exec_eta: "ex_stack s = st \<Longrightarrow> \<exists>peak. (s :: Exec) = s\<lparr>ex_stack := st, ex_peak_stack := peak\<rparr>"
  by (rule exI [of _ "ex_peak_stack s"], cases s) simp

lemma yields_nil: "yields env m base n [] xs (Inr xs)"
  by (rule yieldsI) (simp add: es_return_def exec_eta)

lemma yields_append:
  assumes "yields env m base n xs as r" "\<And>bs. r = Inr bs \<Longrightarrow> yields env m base n ys bs (f bs)"
  shows "yields env m base n (xs @ ys) as (and_then r f)"
proof (rule yieldsI)
  fix s :: Exec and rest
  assume s: "ex_memory s = m" "ex_base s = base" "ex_stack s = as @ rest" "length rest + n \<le> el_max_stack (env_limits env)"
  note first = assms(1) [unfolded yields_def, rule_format, of s rest, OF conjI, OF _ conjI, OF _ _ conjI, OF s]
  show "case and_then r f of Inr ys' \<Rightarrow> \<exists>peak. exec_seq env (xs @ ys) s = (Inr (), s\<lparr>ex_stack := ys' @ rest, ex_peak_stack := peak\<rparr>)
      | Inl f \<Rightarrow> \<exists>t. exec_seq env (xs @ ys) s = (Inl f, t) \<and> ex_memory t = m"
  proof (cases r)
    case (Inl e)
    with first show ?thesis by (auto simp: exec_seq_append es_bind_def)
  next
    case (Inr bs)
    with first obtain peak where t: "exec_seq env xs s = (Inr (), s\<lparr>ex_stack := bs @ rest, ex_peak_stack := peak\<rparr>)" (is "_ = (_, ?t)") by auto
    have "case f bs of Inr ys' \<Rightarrow> \<exists>peak. exec_seq env ys ?t = (Inr (), ?t\<lparr>ex_stack := ys' @ rest, ex_peak_stack := peak\<rparr>)
        | Inl f \<Rightarrow> \<exists>u. exec_seq env ys ?t = (Inl f, u) \<and> ex_memory u = m"
      using assms(2) [OF Inr] s unfolding yields_def by simp
    then show ?thesis using t Inr by (auto simp: exec_seq_append es_bind_def split: sum.splits)
  qed
qed

lemma yields_frame:
  assumes "yields env m base n ops xs r" "n + length zs \<le> k"
  shows "yields env m base k ops (xs @ zs) (and_then r (\<lambda>ys. Inr (ys @ zs)))"
proof (rule yieldsI)
  fix s :: Exec and rest
  assume s: "ex_memory s = m" "ex_base s = base" "ex_stack s = (xs @ zs) @ rest" "length rest + k \<le> el_max_stack (env_limits env)"
  then show "case and_then r (\<lambda>ys. Inr (ys @ zs)) of
       Inr ys \<Rightarrow> \<exists>peak. exec_seq env ops s = (Inr (), s\<lparr>ex_stack := ys @ rest, ex_peak_stack := peak\<rparr>)
     | Inl f \<Rightarrow> \<exists>t. exec_seq env ops s = (Inl f, t) \<and> ex_memory t = m"
    using assms(1) [unfolded yields_def, rule_format, of s "zs @ rest"] assms(2) by (cases r) auto
qed

section \<open>Single instructions\<close>

lemma push_room:
  "length (ex_stack s) < el_max_stack (env_limits env) \<Longrightarrow>
   \<exists>peak. push env v s = (Inr (), s\<lparr>ex_stack := v # ex_stack s, ex_peak_stack := peak\<rparr>)"
  using exec_eta [of "s\<lparr>ex_stack := v # ex_stack s\<rparr>" "v # ex_stack s"] by (auto simp: push_def)

text \<open>An instruction that takes what it needs from the stack and pushes one value, or faults.\<close>

lemma yields_push:
  assumes step: "\<And>(s :: Exec) rest. ex_memory s = m \<Longrightarrow> ex_base s = base \<Longrightarrow> ex_stack s = as @ rest \<Longrightarrow>
      exec_plain env op s = es_bind (es_of r) (push env) (s\<lparr>ex_stack := rest\<rparr>)"
    and "length xs < n"
  shows "yields env m base n [op] (as @ xs) (and_then r (\<lambda>v. Inr (v # xs)))"
proof (rule yieldsI)
  fix s :: Exec and rest
  assume s: "ex_memory s = m" "ex_base s = base" "ex_stack s = (as @ xs) @ rest" "length rest + n \<le> el_max_stack (env_limits env)"
  then have e: "exec_seq env [op] s = es_bind (es_of r) (push env) (s\<lparr>ex_stack := xs @ rest\<rparr>)"
    using step [of s "xs @ rest"] by (simp add: es_defs split: prod.splits sum.splits)
  show "case and_then r (\<lambda>v. Inr (v # xs)) of
       Inr ys \<Rightarrow> \<exists>peak. exec_seq env [op] s = (Inr (), s\<lparr>ex_stack := ys @ rest, ex_peak_stack := peak\<rparr>)
     | Inl f \<Rightarrow> \<exists>t. exec_seq env [op] s = (Inl f, t) \<and> ex_memory t = m"
    using e push_room [of "s\<lparr>ex_stack := xs @ rest\<rparr>" env] s assms(2) by (cases r) (auto simp: es_defs)
qed

definition read_at :: "Memory \<Rightarrow> nat \<Rightarrow> FaultKind + Value" where
  "read_at m slot = ok_or (read_slot m slot) (SlotOutOfRange slot)"

definition read_image :: "Memory \<Rightarrow> DirectAddress \<Rightarrow> FaultKind + Value" where
  "read_image m address =
     (case read_address m address of
        Inl e \<Rightarrow> Inl (Address_fault (AddressError_to_string e))
      | Inr None \<Rightarrow> Inl (Address_fault (DirectAddress_to_string address @ '' is outside the process image''))
      | Inr (Some v) \<Rightarrow> Inr v)"

definition indexed :: "nat \<Rightarrow> nat \<Rightarrow> Value \<Rightarrow> FaultKind + nat" where
  "indexed base len v =
     (case as_i64 v of
        None \<Rightarrow> Inl (TypeMismatch E_Dint (type_of v))
      | Some i \<Rightarrow> if i < 0 \<or> int len \<le> i then Inl (ArrayIndexOutOfRange i 0 (int len - 1)) else Inr (slot_add base (nat i)))"

lemma indexed_slot_indexed:
  assumes "len < 2 ^ 32" "ex_stack s = v # rest"
  shows "indexed_slot base len 0 s = (indexed base len v, s\<lparr>ex_stack := rest\<rparr>)"
proof (cases "as_i64 v")
  case None
  then show ?thesis using assms(2) by (simp add: indexed_slot_def indexed_def es_defs pop_def)
next
  case (Some i)
  have high: "saturate_i64 (saturate_i64 (0 + int len) - 1) = int len - 1"
    using assms(1) by (simp add: i64_bounds)
  have "0 \<le> i \<Longrightarrow> i < int len \<Longrightarrow> saturate_i64 (i - 0) = i \<and> i < 2 ^ 32"
    using assms(1) by (simp add: i64_bounds)
  then show ?thesis using assms Some
    unfolding indexed_slot_def indexed_def Let_def high by (auto simp: es_defs pop_def)
qed

lemma yields_const:
  "get (pr_constants (env_program env)) i = Some v \<Longrightarrow> length xs < n \<Longrightarrow> yields env m base n [Const i] xs (Inr (v # xs))"
  by (rule yields_push [where as = "[]" and r = "Inr v", simplified]) (auto simp: exec_plain_def es_defs get_def cong: sum.case_cong)

lemma yields_load_slot:
  "length xs < n \<Longrightarrow> yields env m base n [LoadSlot k] xs (and_then (read_at m k) (\<lambda>v. Inr (v # xs)))"
  by (rule yields_push [where as = "[]" and r = "read_at m k", simplified]) (auto simp: exec_plain_def es_defs load_slot_def read_at_def cong: sum.case_cong)

lemma yields_load_local:
  "length xs < n \<Longrightarrow> yields env m base n [LoadLocal k] xs (and_then (read_at m (slot_add base k)) (\<lambda>v. Inr (v # xs)))"
  by (rule yields_push [where as = "[]" and r = "read_at m (slot_add base k)", simplified]) (auto simp: exec_plain_def es_defs at_base_def load_slot_def read_at_def cong: sum.case_cong)

lemma yields_load_address:
  "get (pr_addresses (env_program env)) i = Some a \<Longrightarrow> length xs < n \<Longrightarrow>
   yields env m base n [LoadAddress i] xs (and_then (read_image m a) (\<lambda>v. Inr (v # xs)))"
  by (rule yields_push [where as = "[]" and r = "read_image m a", simplified]) (auto simp: exec_plain_def es_defs load_address_def read_image_def get_def cong: sum.case_cong)

lemma yields_unary:
  "length xs < n \<Longrightarrow> yields env m base n [Unary uop ty] (v # xs) (and_then (unary uop ty v) (\<lambda>u. Inr (u # xs)))"
  by (rule yields_push [where as = "[v]" and r = "unary uop ty v", simplified]) (auto simp: exec_plain_def es_defs pop_def cong: sum.case_cong)

lemma yields_convert:
  "length xs < n \<Longrightarrow> yields env m base n [Convert ty] (v # xs) (and_then (convert v ty) (\<lambda>u. Inr (u # xs)))"
  by (rule yields_push [where as = "[v]" and r = "convert v ty", simplified]) (auto simp: exec_plain_def es_defs pop_def cong: sum.case_cong)

lemma yields_binary:
  "length xs < n \<Longrightarrow> yields env m base n [Binary bop ty] (r # l # xs) (and_then (binary bop ty l r) (\<lambda>u. Inr (u # xs)))"
  by (rule yields_push [where as = "[r, l]" and r = "binary bop ty l r", simplified]) (auto simp: exec_plain_def es_defs pop_def cong: sum.case_cong)

lemma yields_load_indexed:
  assumes "len < 2 ^ 32" "length xs < n"
  shows "yields env m base n [LoadIndexed k len 0] (v # xs) (and_then (and_then (indexed k len v) (read_at m)) (\<lambda>u. Inr (u # xs)))"
    and "yields env m base n [LoadIndexedLocal k len 0] (v # xs)
           (and_then (and_then (indexed (slot_add base k) len v) (read_at m)) (\<lambda>u. Inr (u # xs)))"
proof -
  have "exec_plain env (LoadIndexed k len 0) s = es_bind (es_of (and_then (indexed k len v) (read_at m))) (push env) (s\<lparr>ex_stack := rest\<rparr>)"
    if "ex_memory s = m" "ex_stack s = v # rest" for s rest
    using that indexed_slot_indexed [OF assms(1) that(2)]
    by (cases "indexed k len v") (simp_all add: exec_plain_def load_slot_def read_at_def es_defs)
  then show "yields env m base n [LoadIndexed k len 0] (v # xs) (and_then (and_then (indexed k len v) (read_at m)) (\<lambda>u. Inr (u # xs)))"
    using assms(2) by (intro yields_push [where as = "[v]", simplified]) blast+
  have "exec_plain env (LoadIndexedLocal k len 0) s =
      es_bind (es_of (and_then (indexed (slot_add base k) len v) (read_at m))) (push env) (s\<lparr>ex_stack := rest\<rparr>)"
    if "ex_memory s = m" "ex_base s = base" "ex_stack s = v # rest" for s rest
    using that indexed_slot_indexed [OF assms(1) that(3)]
    by (cases "indexed (slot_add base k) len v") (simp_all add: exec_plain_def at_base_def load_slot_def read_at_def es_defs)
  then show "yields env m base n [LoadIndexedLocal k len 0] (v # xs)
           (and_then (and_then (indexed (slot_add base k) len v) (read_at m)) (\<lambda>u. Inr (u # xs)))"
    using assms(2) by (intro yields_push [where as = "[v]", simplified]) blast+
qed

definition in_bounds :: "int \<Rightarrow> int \<Rightarrow> Value \<Rightarrow> FaultKind + int" where
  "in_bounds low high v =
     (case as_i64 v of
        None \<Rightarrow> Inl (TypeMismatch E_Dint (type_of v))
      | Some i \<Rightarrow> if i < low \<or> i > high then Inl (ArrayIndexOutOfRange i low high) else Inr i)"

lemma yields_bounds: "yields env m base n [BoundsCheck low high] (v # xs) (and_then (in_bounds low high v) (\<lambda>_. Inr (v # xs)))"
proof (rule yieldsI)
  fix s :: Exec and rest
  assume s: "ex_memory s = m" "ex_stack s = (v # xs) @ rest"
  with exec_eta [OF s(2)] show "case and_then (in_bounds low high v) (\<lambda>_. Inr (v # xs)) of
       Inr ys \<Rightarrow> \<exists>peak. exec_seq env [BoundsCheck low high] s = (Inr (), s\<lparr>ex_stack := ys @ rest, ex_peak_stack := peak\<rparr>)
     | Inl f \<Rightarrow> \<exists>t. exec_seq env [BoundsCheck low high] s = (Inl f, t) \<and> ex_memory t = m"
    by (auto simp: exec_plain_def bounds_check_def peek_def in_bounds_def es_defs split: option.splits)
qed

section \<open>Inside a routine\<close>

text \<open>The instructions an expression without calls is made of; none looks at the instruction count.\<close>

fun straight_op :: "Op \<Rightarrow> bool" where
  "straight_op (Const _) = True"
| "straight_op (LoadSlot _) = True"
| "straight_op (LoadLocal _) = True"
| "straight_op (LoadAddress _) = True"
| "straight_op (LoadIndexed _ _ _) = True"
| "straight_op (LoadIndexedLocal _ _ _) = True"
| "straight_op (BoundsCheck _ _) = True"
| "straight_op (Binary _ _) = True"
| "straight_op (Unary _ _) = True"
| "straight_op (Convert _) = True"
| "straight_op _ = False"

definition counted :: "nat \<Rightarrow> Exec \<Rightarrow> Exec" where
  "counted k s = s\<lparr>ex_instructions := ex_instructions s + k\<rparr>"

lemma counted_simps [simp]:
  "ex_memory (counted k s) = ex_memory s" "ex_base (counted k s) = ex_base s" "ex_stack (counted k s) = ex_stack s"
  "ex_instructions (counted k s) = ex_instructions s + k" "counted 0 s = s" "counted j (counted k s) = counted (k + j) s"
  by (simp_all add: counted_def)

definition uncounted :: "'a ex \<Rightarrow> bool" where
  "uncounted f \<longleftrightarrow> (\<forall>k s. f (counted k s) = apsnd (counted k) (f s))"

lemma uncounted_return: "uncounted (es_return x)"
  and uncounted_fail: "uncounted (es_fail e)"
  and uncounted_of: "uncounted (es_of r)"
  and uncounted_pop: "uncounted pop"
  and uncounted_push: "uncounted (push env v)"
  by (simp_all add: uncounted_def es_defs pop_def push_def counted_def split: list.splits)

lemma uncounted_read: "(\<And>k s. f (counted k s) = f s) \<Longrightarrow> uncounted (es_read f)"
  by (simp add: uncounted_def es_defs)

lemma uncounted_peek: "uncounted peek"
  unfolding peek_def by (rule uncounted_read) simp

lemma uncounted_bind:
  assumes "uncounted f" "\<And>x. uncounted (g x)"
  shows "uncounted (es_bind f g)"
  unfolding uncounted_def
proof (intro allI)
  fix k s
  obtain r t where t: "f s = (r, t)" by force
  then have "f (counted k s) = (r, counted k t)" using assms(1) by (simp add: uncounted_def)
  then show "es_bind f g (counted k s) = apsnd (counted k) (es_bind f g s)"
    using t assms(2) by (cases r) (simp_all add: es_bind_def uncounted_def)
qed

lemma uncounted_at_base: "(\<And>b. uncounted (f b)) \<Longrightarrow> uncounted (at_base k f)"
  by (simp add: uncounted_def at_base_def)

lemma uncounted_option: "uncounted f \<Longrightarrow> (\<And>x. uncounted (g x)) \<Longrightarrow> uncounted (case z of None \<Rightarrow> f | Some x \<Rightarrow> g x)"
  by (cases z) simp_all

lemma uncounted_if: "uncounted f \<Longrightarrow> uncounted g \<Longrightarrow> uncounted (if c then f else g)"
  by simp

lemmas uncounted_intros = uncounted_bind uncounted_at_base uncounted_option uncounted_if uncounted_return uncounted_fail uncounted_of
  uncounted_pop uncounted_push uncounted_peek

lemma uncounted_load_slot: "uncounted (load_slot env slot)"
  unfolding load_slot_def by (intro uncounted_intros uncounted_read) simp

lemma uncounted_indexed_slot: "uncounted (indexed_slot base len low)"
  unfolding indexed_slot_def Let_def by (intro uncounted_intros)

lemma uncounted_load_address: "uncounted (load_address env i)"
  unfolding load_address_def by (intro uncounted_intros uncounted_read) simp

lemma uncounted_bounds_check: "uncounted (bounds_check low high)"
  unfolding bounds_check_def by (intro uncounted_intros)

lemma exec_plain_counted: "straight_op op \<Longrightarrow> exec_plain env op (counted k s) = apsnd (counted k) (exec_plain env op s)"
proof -
  assume "straight_op op"
  then have "uncounted (exec_plain env op)"
    by (cases op) (simp_all add: exec_plain_def uncounted_intros uncounted_load_slot uncounted_indexed_slot
        uncounted_load_address uncounted_bounds_check)
  then show ?thesis by (simp add: uncounted_def)
qed

lemma exec_seq_counted: "list_all straight_op ops \<Longrightarrow> exec_seq env ops (counted k s) = apsnd (counted k) (exec_seq env ops s)"
proof (induction ops arbitrary: s)
  case (Cons op ops)
  obtain r t where t: "exec_plain env op s = (r, t)" by force
  then show ?case using Cons by (cases r) (simp_all add: es_bind_def exec_plain_counted)
qed (simp add: es_return_def)

lemma straight_exec_op:
  "straight_op op \<Longrightarrow> exec_op env len next_pc op = es_bind (exec_plain env op) (\<lambda>_. es_return (Goto next_pc))"
  by (cases op) (simp_all add: exec_op_def)

lemma run_straight:
  assumes "Program_routine (env_program env) idx = Some routine" "ro_code routine = pre @ ops @ post" "length pre = pc"
    and "length (ro_code routine) < 2 ^ 32" "list_all straight_op ops"
    and "ex_instructions s + length ops \<le> el_max_instructions (env_limits env)"
  shows "case exec_seq env ops s of
      (Inr _, t) \<Rightarrow> run_body env idx pc s = run_body env idx (pc + length ops) (counted (length ops) t)
    | (Inl f, t) \<Rightarrow> \<exists>at k. pc \<le> at \<and> at < pc + length ops \<and> run_body env idx pc s = (Inl (fault_at f (ro_name routine) at), counted k t)"
  using assms
proof (induction ops arbitrary: pre pc s)
  case Nil
  then show ?case by (simp add: es_return_def)
next
  case (Cons op ops)
  have op: "get (ro_code routine) pc = Some op" using Cons.prems(2,3) by (auto simp: get_def)
  obtain r t where t: "exec_plain env op s = (r, t)" by force
  have tick: "tick s = counted 1 s" by (simp add: tick_def counted_def)
  have turn: "turn env idx pc s = (case r of Inl f \<Rightarrow> Ends (Inl (fault_at f (ro_name routine) pc)) (counted 1 t) | Inr _ \<Rightarrow> Goes_on (Suc pc) (counted 1 t))"
    unfolding turn_def Cons.prems(1) op option.case tick using Cons.prems t
    by (cases r) (auto simp: straight_exec_op exec_plain_counted es_defs wrapping_u32_def)
  show ?case
  proof (cases r)
    case (Inl f)
    then have "run_body env idx pc s = (Inl (fault_at f (ro_name routine) pc), counted 1 t)"
      using turn by (subst run_body.simps) simp
    then have "\<exists>at k. pc \<le> at \<and> at < pc + length (op # ops) \<and> run_body env idx pc s = (Inl (fault_at f (ro_name routine) at), counted k t)"
      by (intro exI [of _ pc] exI [of _ 1]) simp
    then show ?thesis using t Inl by (simp add: es_bind_def)
  next
    case (Inr x)
    then have step: "run_body env idx pc s = run_body env idx (Suc pc) (counted 1 t)"
      using turn by (subst run_body.simps) simp
    have "op_rel env s t" using exec_plain_rel [of env op] t unfolding es_rel_def by (metis snd_conv)
    then have "ex_instructions (counted 1 t) + length ops \<le> el_max_instructions (env_limits env)"
      using Cons.prems(6) by (simp add: op_rel_def)
    then have rest: "case exec_seq env ops (counted 1 t) of
        (Inr _, u) \<Rightarrow> run_body env idx (Suc pc) (counted 1 t) = run_body env idx (Suc pc + length ops) (counted (length ops) u)
      | (Inl f, u) \<Rightarrow> \<exists>at k. Suc pc \<le> at \<and> at < Suc pc + length ops \<and>
          run_body env idx (Suc pc) (counted 1 t) = (Inl (fault_at f (ro_name routine) at), counted k u)"
      using Cons.IH [of "pre @ [op]" "Suc pc" "counted 1 t"] Cons.prems by simp
    obtain a u where u: "exec_seq env ops t = (a, u)" by force
    then have seq: "exec_seq env ops (counted 1 t) = (a, counted 1 u)" "exec_seq env (op # ops) s = (a, u)"
      using Cons.prems(5) exec_seq_counted [of ops env 1 t] t Inr by (simp_all add: es_bind_def)
    show ?thesis
    proof (cases a)
      case (Inl f)
      with rest seq(1) obtain at k where "Suc pc \<le> at" "at < Suc pc + length ops"
        "run_body env idx (Suc pc) (counted 1 t) = (Inl (fault_at f (ro_name routine) at), counted (1 + k) u)" by auto
      then have "\<exists>at k. pc \<le> at \<and> at < pc + length (op # ops) \<and> run_body env idx pc s = (Inl (fault_at f (ro_name routine) at), counted k u)"
        unfolding step by (intro exI [of _ at] exI [of _ "1 + k"]) simp
      then show ?thesis unfolding seq(2) Inl by simp
    next
      case (Inr y)
      then show ?thesis using rest seq step by simp
    qed
  qed
qed

end
