(* ===== verification/Compile_Body.thy ===== *)
theory Compile_Body
  imports Compile_Slots
begin

text \<open>
  Code generation for one body, from \<open>crates/salman-vm/src/compile.rs\<close>: the pools of constants, messages,
  enumerations and addresses, the emitter with its stack-depth accounting and its patched jumps,
  places, coercions, expressions and calls.  The state is the compiler's with the code of the body under
  construction; every function takes it last and returns it.
\<close>

section \<open>Pools\<close>

text \<open>
  \<open>==\<close> on values is derived: floats are compared as numbers, so that the two zeros are equal and a NaN
  equals nothing.
\<close>

fun value_eq :: "Value \<Rightarrow> Value \<Rightarrow> bool" where
  "value_eq (V_Real x) (V_Real y) \<longleftrightarrow> fl_cmp F32 (unat x) (unat y) = Some 0"
| "value_eq (V_Lreal x) (V_Lreal y) \<longleftrightarrow> fl_cmp F64 (unat x) (unat y) = Some 0"
| "value_eq a b \<longleftrightarrow> a = b"

fun pool_position :: "('a \<Rightarrow> bool) \<Rightarrow> 'a list \<Rightarrow> nat option" where
  "pool_position p [] = None"
| "pool_position p (x # xs) = (if p x then Some 0 else map_option Suc (pool_position p xs))"

definition pooled :: "('a \<Rightarrow> 'a \<Rightarrow> bool) \<Rightarrow> 'a \<Rightarrow> 'a list \<Rightarrow> nat \<times> 'a list" where
  "pooled eq x xs =
     (case pool_position (\<lambda>existing. eq existing x) xs of
        Some index \<Rightarrow> (wrapping_u32 index, xs)
      | None \<Rightarrow> (wrapping_u32 (length xs), xs @ [x]))"

definition co_message :: "string \<Rightarrow> Compiler \<Rightarrow> nat \<times> Compiler" where
  "co_message txt c = (let (index, pool) = pooled (=) txt (co_messages c) in (index, c\<lparr>co_messages := pool\<rparr>))"

definition co_enum_set :: "int list \<Rightarrow> Compiler \<Rightarrow> nat \<times> Compiler" where
  "co_enum_set ns c = (let (index, pool) = pooled (=) ns (co_enum_sets c) in (index, c\<lparr>co_enum_sets := pool\<rparr>))"

definition co_constant :: "Value \<Rightarrow> Compiler \<Rightarrow> nat \<times> Compiler" where
  "co_constant value c = (let (index, pool) = pooled value_eq value (co_constants c) in (index, c\<lparr>co_constants := pool\<rparr>))"

definition co_address :: "DirectAddress \<Rightarrow> Compiler \<Rightarrow> nat \<times> Compiler" where
  "co_address a c = (let (index, pool) = pooled (=) a (co_addresses c) in (index, c\<lparr>co_addresses := pool\<rparr>))"

section \<open>The emitter\<close>

fun stack_delta :: "Op \<Rightarrow> int" where
  "stack_delta (Const _) = 1"
| "stack_delta Dup = 1"
| "stack_delta (LoadSlot _) = 1"
| "stack_delta (LoadLocal _) = 1"
| "stack_delta (LoadAddress _) = 1"
| "stack_delta Pop = -1"
| "stack_delta (StoreSlot _) = -1"
| "stack_delta (StoreLocal _) = -1"
| "stack_delta (StoreAddress _) = -1"
| "stack_delta (Binary _ _) = -1"
| "stack_delta (JumpIfFalse _) = -1"
| "stack_delta (JumpIfTrue _) = -1"
| "stack_delta (StoreIndexed _ _ _) = -2"
| "stack_delta (StoreIndexedLocal _ _ _) = -2"
| "stack_delta _ = 0"

record LoopFrame =
  lf_exits :: "nat list"
  lf_continues :: "nat list"

record Body =
  bo_compiler :: Compiler
  bo_pou :: nat
  bo_code :: "Op list"
  bo_depth :: int
  bo_max_depth :: nat
  bo_loops :: "LoopFrame list"
  bo_next_temp :: nat
  bo_function_name :: "string option"

definition body_error :: "Span \<Rightarrow> Body \<Rightarrow> Body" where
  "body_error span b = b\<lparr>bo_compiler := add_diag E_LAYOUT (Some span) (bo_compiler b)\<rparr>"

definition unsupported :: "Span \<Rightarrow> Body \<Rightarrow> Body" where
  "unsupported span b = b\<lparr>bo_compiler := add_diag U_NOT_COMPILED (Some span) (bo_compiler b)\<rparr>"

definition emit :: "Op \<Rightarrow> Body \<Rightarrow> Body" where
  "emit op b =
     (let depth = bo_depth b + stack_delta op in
      b\<lparr>bo_depth := depth,
        bo_max_depth := (if depth > int (bo_max_depth b) then min u32_MAX_nat (nat depth) else bo_max_depth b),
        bo_code := bo_code b @ [op]\<rparr>)"

definition here :: "Body \<Rightarrow> nat" where
  "here b = min u32_MAX_nat (length (bo_code b))"

definition emit_patch :: "Op \<Rightarrow> Body \<Rightarrow> nat \<times> Body" where
  "emit_patch op b = (length (bo_code b), emit op b)"

fun retarget :: "nat \<Rightarrow> Op \<Rightarrow> Op" where
  "retarget target (Jump _) = Jump target"
| "retarget target (JumpIfFalse _) = JumpIfFalse target"
| "retarget target (JumpIfTrue _) = JumpIfTrue target"
| "retarget target other = other"

definition patch :: "nat \<Rightarrow> nat \<Rightarrow> Body \<Rightarrow> Body" where
  "patch index target b =
     (case get (bo_code b) index of
        Some op \<Rightarrow> b\<lparr>bo_code := (bo_code b)[index := retarget target op]\<rparr>
      | None \<Rightarrow> b)"

definition patch_to_here :: "nat \<Rightarrow> Body \<Rightarrow> Body" where
  "patch_to_here index b = patch index (here b) b"

definition temp :: "Body \<Rightarrow> nat \<times> Body" where
  "temp b = (bo_next_temp b, b\<lparr>bo_next_temp := slot_add (bo_next_temp b) 1\<rparr>)"

text \<open>A constant and a message, interned and used.\<close>

definition emit_const :: "Value \<Rightarrow> Body \<Rightarrow> Body" where
  "emit_const value b = (let (index, c) = co_constant value (bo_compiler b) in emit (Const index) (b\<lparr>bo_compiler := c\<rparr>))"

section \<open>Places\<close>

datatype Place = P_Local nat | P_Global nat | P_Address nat | P_LocalIndexed nat nat | P_GlobalIndexed nat nat

datatype Anchor = Anchor_Local nat | Anchor_Global nat

fun shift :: "Anchor \<Rightarrow> nat \<Rightarrow> Anchor" where
  "shift (Anchor_Local base) offset = Anchor_Local (slot_add base offset)"
| "shift (Anchor_Global base) offset = Anchor_Global (slot_add base offset)"

fun anchor_place :: "Anchor \<Rightarrow> nat \<Rightarrow> Place" where
  "anchor_place (Anchor_Local base) offset = P_Local (slot_add base offset)"
| "anchor_place (Anchor_Global base) offset = P_Global (slot_add base offset)"

fun as_anchor :: "Place option \<Rightarrow> Anchor option" where
  "as_anchor (Some (P_Local offset)) = Some (Anchor_Local offset)"
| "as_anchor (Some (P_Global slot)) = Some (Anchor_Global slot)"
| "as_anchor _ = None"

fun store_op :: "Place \<Rightarrow> Op" where
  "store_op (P_Local offset) = StoreLocal offset"
| "store_op (P_Global slot) = StoreSlot slot"
| "store_op (P_Address index) = StoreAddress index"
| "store_op (P_LocalIndexed base len) = StoreIndexedLocal base len 0"
| "store_op (P_GlobalIndexed base len) = StoreIndexed base len 0"

definition store :: "Place \<Rightarrow> Body \<Rightarrow> Body" where
  "store place = emit (store_op place)"

fun load_op :: "Place \<Rightarrow> Op" where
  "load_op (P_Local offset) = LoadLocal offset"
| "load_op (P_Global slot) = LoadSlot slot"
| "load_op (P_Address index) = LoadAddress index"
| "load_op (P_LocalIndexed base len) = LoadIndexedLocal base len 0"
| "load_op (P_GlobalIndexed base len) = LoadIndexed base len 0"

definition load :: "Place \<Rightarrow> Body \<Rightarrow> Body" where
  "load place = emit (load_op place)"

definition field_slot_offset :: "Compiler \<Rightarrow> TypeId \<Rightarrow> nat \<Rightarrow> nat option" where
  "field_slot_offset c owner position =
     (case co_type c owner of
        T_FunctionBlock _ (Some _) _ \<Rightarrow> Some position
      | T_FunctionBlock _ None (Some index) \<Rightarrow>
          map_option (\<lambda>pou. foldl slot_add 0 (map (\<lambda>s. slot_size c (sy_ty s) 0) (take position (ps_symbols pou))))
            (get (ck_pous (co_checked c)) index)
      | T_Struct _ fs \<Rightarrow> Some (foldl slot_add 0 (map (\<lambda>f. slot_size c (field_ty f) 0) (take position fs)))
      | _ \<Rightarrow> None)"

definition body_checked :: "Body \<Rightarrow> Checked" where
  "body_checked b = co_checked (bo_compiler b)"

definition body_type :: "Body \<Rightarrow> TypeId \<Rightarrow> TypeData" where
  "body_type b ty = co_type (bo_compiler b) ty"

definition writable :: "Place \<Rightarrow> Span \<Rightarrow> Body \<Rightarrow> bool \<times> Body" where
  "writable place target b =
     (case place of
        P_Address index \<Rightarrow>
          (case get (co_addresses (bo_compiler b)) index of
             None \<Rightarrow> (True, b)
           | Some address \<Rightarrow>
               if da_location address \<noteq> Input then (True, b)
               else (False, b\<lparr>bo_compiler := add_diag E_WRITE_TO_INPUT (Some target) (bo_compiler b)\<rparr>))
      | _ \<Rightarrow> (True, b))"

definition located :: "Body \<Rightarrow> nat \<Rightarrow> nat \<Rightarrow> DirectAddress option" where
  "located b pou symbol =
     Option.bind (get (ck_pous (body_checked b)) pou) (\<lambda>p. Option.bind (get (ps_symbols p) symbol) sy_address)"

definition located_global :: "Body \<Rightarrow> nat \<Rightarrow> DirectAddress option" where
  "located_global b symbol = Option.bind (get (ck_globals (body_checked b)) symbol) sy_address"

definition local_offset :: "Body \<Rightarrow> nat \<Rightarrow> nat option" where
  "local_offset b symbol = Option.bind (get (co_layouts (bo_compiler b)) (bo_pou b)) (\<lambda>l. get (pl_offsets l) symbol)"

definition elementary :: "Body \<Rightarrow> Expr \<Rightarrow> ElementaryType option" where
  "elementary b e = Option.bind (Checked_type_of (body_checked b) (expr_id e)) (as_elementary (ck_types (body_checked b)))"

definition width :: "Body \<Rightarrow> Expr \<Rightarrow> nat" where
  "width b e = (case Checked_type_of (body_checked b) (expr_id e) of None \<Rightarrow> 1 | Some ty \<Rightarrow> slot_size (bo_compiler b) ty 0)"

section \<open>Coercions and operators\<close>

definition coerce :: "TypeId option \<Rightarrow> ElementaryType option \<Rightarrow> string \<Rightarrow> Body \<Rightarrow> Body" where
  "coerce target value name b =
     (case target of
        None \<Rightarrow> b
      | Some target \<Rightarrow>
          (let b = (case (as_elementary (ck_types (body_checked b)) target, value) of
                      (Some want, Some have_ty) \<Rightarrow> if want \<noteq> have_ty then emit (Convert want) b else b
                    | _ \<Rightarrow> b)
           in case body_type b target of
                T_Subrange _ low high \<Rightarrow>
                  (let (n, c) = co_message name (bo_compiler b) in emit (CheckRange low high n) (b\<lparr>bo_compiler := c\<rparr>))
              | T_Enum _ _ ns \<Rightarrow>
                  (let (k, c) = co_enum_set (map snd ns) (bo_compiler b); (n, c) = co_message name c
                   in emit (CheckEnum k n) (b\<lparr>bo_compiler := c\<rparr>))
              | T_Str _ max_len \<Rightarrow> emit (TruncateString max_len) b
              | _ \<Rightarrow> b))"

function (sequential) target_name :: "Expr \<Rightarrow> string" where
  "target_name (Expr _ (X_Var name) _) = name_ident name"
| "target_name (Expr _ (X_Paren inner) _) = target_name inner"
| "target_name (Expr _ (X_Member base fld) _) = target_name base @ ''.'' @ name_ident fld"
| "target_name (Expr _ (X_Index base _) _) = target_name base @ ''[..]''"
| "target_name (Expr _ (X_Direct address) _) = DirectAddress_to_string address"
| "target_name _ = ''a variable''"
  by pat_completeness auto
termination target_name by (relation "measure size") auto

fun map_binary :: "BinaryOp \<Rightarrow> BinOp" where
  "map_binary B_Pow = Pow"
| "map_binary B_Mul = Mul"
| "map_binary B_Div = Div"
| "map_binary B_Mod = Mod"
| "map_binary B_Add = Add"
| "map_binary B_Sub = Sub"
| "map_binary B_Lt = Lt"
| "map_binary B_Gt = Gt"
| "map_binary B_Le = Le"
| "map_binary B_Ge = Ge"
| "map_binary B_Eq = Eq"
| "map_binary B_Ne = Ne"
| "map_binary B_And = And"
| "map_binary B_Xor = Xor"
| "map_binary B_Or = Or"

fun map_unary :: "UnaryOp \<Rightarrow> UnOp option" where
  "map_unary U_Plus = None"
| "map_unary U_Neg = Some Neg"
| "map_unary U_Not = Some Not_op"

fun literal_value :: "LiteralValue \<Rightarrow> ElementaryType \<Rightarrow> Value option" where
  "literal_value (L_Bool value) ty = Some (V_Bool value)"
| "literal_value (L_Int magnitude negative _) ty =
     (if magnitude \<ge> 2 ^ 127 then None
      else let value = (if negative then - int magnitude else int magnitude) in
        Some (if ty = E_Real then Value_real (of_nat (fl_of_int F32 value))
              else if ty = E_Lreal then Value_lreal (of_nat (fl_of_int F64 value))
              else integer_value value ty))"
| "literal_value (L_Real value _) ty =
     Some (if ty = E_Real then Value_real (of_nat (f64_to_f32 (unat value))) else Value_lreal value)"
| "literal_value (L_Duration value long) ty = Some (if long \<or> ty = E_LTime then V_LTime value else V_Time value)"
| "literal_value (L_Date date) ty = Some (V_Date date)"
| "literal_value (L_TimeOfDay tod) ty = Some (V_TimeOfDay tod)"
| "literal_value (L_DateAndTime dt) ty = Some (V_DateAndTime dt)"
| "literal_value (L_String bytes) ty = Some (Value_string bytes)"
| "literal_value (L_WString units) ty = Some (Value_wstring units)"

definition enum_constant :: "Expr \<Rightarrow> Body \<Rightarrow> bool \<times> Body" where
  "enum_constant e b =
     (case Checked_resolution (body_checked b) (expr_id e) of
        Some (R_EnumValue _ value) \<Rightarrow> (True, emit_const (integer_value value (unwrap_or (elementary b e) E_Dint)) b)
      | _ \<Rightarrow> (False, b))"

text \<open>The type both operands of a binary operation are brought to.\<close>

definition operand_type :: "Body \<Rightarrow> Expr \<Rightarrow> Expr \<Rightarrow> ElementaryType \<times> ElementaryType \<times> ElementaryType" where
  "operand_type b lhs rhs =
     (let left = unwrap_or (elementary b lhs) E_Dint; right = unwrap_or (elementary b rhs) left in
      (left, right,
       if is_duration left \<or> is_duration right then if is_duration left then left else right
       else unwrap_or (common_type left right (co_widening (bo_compiler b))) left))"

definition convert_operand :: "ElementaryType \<Rightarrow> ElementaryType \<Rightarrow> Body \<Rightarrow> Body" where
  "convert_operand have_ty want b = (if have_ty \<noteq> want \<and> \<not> is_duration want then emit (Convert want) b else b)"

section \<open>Arguments\<close>

fun is_execution_control :: "Arg \<Rightarrow> bool" where
  "is_execution_control (A_Input name _) \<longleftrightarrow> eq_str name ''EN'' \<or> eq_str name ''ENO''"
| "is_execution_control (A_Output name _) \<longleftrightarrow> eq_str name ''EN'' \<or> eq_str name ''ENO''"
| "is_execution_control (A_Positional _) \<longleftrightarrow> False"

fun execution_control :: "Expr option \<Rightarrow> Expr option \<Rightarrow> Arg list \<Rightarrow> Expr option \<times> Expr option" where
  "execution_control enable enable_out [] = (enable, enable_out)"
| "execution_control enable enable_out (arg # args) =
     (case arg of
        A_Input name value \<Rightarrow> execution_control (if eq_str name ''EN'' then Some value else enable) enable_out args
      | A_Output name target \<Rightarrow> execution_control enable (if eq_str name ''ENO'' then target else enable_out) args
      | A_Positional _ \<Rightarrow> execution_control enable enable_out args)"

definition instance_symbol :: "Compiler \<Rightarrow> nat \<Rightarrow> string \<Rightarrow> (nat \<times> Symbol) option" where
  "instance_symbol c pou name = Option.bind (get (ck_pous (co_checked c)) pou) (\<lambda>p. PouSymbols_symbol p name)"

definition block_field_offset :: "Compiler \<Rightarrow> TypeId \<Rightarrow> string \<Rightarrow> nat option" where
  "block_field_offset c ty name =
     (case co_type c ty of
        T_FunctionBlock _ (Some block) _ \<Rightarrow> field_offset block name
      | T_FunctionBlock _ None (Some index) \<Rightarrow>
          Option.bind (instance_symbol c index name) (\<lambda>(position, _). field_slot_offset c ty position)
      | _ \<Rightarrow> None)"

definition block_field_type :: "Compiler \<Rightarrow> TypeId \<Rightarrow> string \<Rightarrow> TypeId option" where
  "block_field_type c ty name =
     (case co_type c ty of
        T_FunctionBlock _ (Some block) _ \<Rightarrow>
          map_option (\<lambda>f. TypeArena_elementary (ck_types (co_checked c)) (bf_ty f))
            (find (\<lambda>f. eq_ignore_ascii_case (bf_name f) name) (layout block))
      | T_FunctionBlock _ None (Some index) \<Rightarrow> map_option (\<lambda>(_, s). sy_ty s) (instance_symbol c index name)
      | _ \<Rightarrow> None)"

definition block_field_section :: "Compiler \<Rightarrow> TypeId \<Rightarrow> string \<Rightarrow> VarSection option" where
  "block_field_section c ty name =
     (case co_type c ty of
        T_FunctionBlock _ _ (Some index) \<Rightarrow> map_option (\<lambda>(_, s). sy_section s) (instance_symbol c index name)
      | _ \<Rightarrow> None)"

definition type_elementary :: "Compiler \<Rightarrow> TypeId option \<Rightarrow> ElementaryType option" where
  "type_elementary c ty = Option.bind ty (as_elementary (ck_types (co_checked c)))"

text \<open>Where a value comes out of, the elementary type it comes out as, and the expression it goes into.\<close>

type_synonym Binding = "nat \<times> ElementaryType option \<times> Expr"

fun block_outputs :: "Compiler \<Rightarrow> TypeId \<Rightarrow> Arg list \<Rightarrow> Binding list" where
  "block_outputs c ty [] = []"
| "block_outputs c ty (arg # args) =
     (case (is_execution_control arg, arg) of
        (False, A_Output name (Some target)) \<Rightarrow>
          (case block_field_offset c ty (name_ident name) of
             None \<Rightarrow> block_outputs c ty args
           | Some offset \<Rightarrow>
               (offset, type_elementary c (block_field_type c ty (name_ident name)), target) # block_outputs c ty args)
      | _ \<Rightarrow> block_outputs c ty args)"

fun block_in_outs :: "Compiler \<Rightarrow> TypeId \<Rightarrow> Arg list \<Rightarrow> Binding list" where
  "block_in_outs c ty [] = []"
| "block_in_outs c ty (arg # args) =
     (case (is_execution_control arg, arg) of
        (False, A_Input name value) \<Rightarrow>
          (case block_field_offset c ty (name_ident name) of
             None \<Rightarrow> block_in_outs c ty args
           | Some offset \<Rightarrow>
               if block_field_section c ty (name_ident name) = Some Sec_InOut
               then (offset, type_elementary c (block_field_type c ty (name_ident name)), value) # block_in_outs c ty args
               else block_in_outs c ty args)
      | _ \<Rightarrow> block_in_outs c ty args)"

record FunctionInput =
  fi_offset :: nat
  fi_ty :: TypeId
  fi_section :: VarSection
  fi_name :: string

definition function_inputs :: "Compiler \<Rightarrow> nat \<Rightarrow> FunctionInput list" where
  "function_inputs c pou =
     (case get (ck_pous (co_checked c)) pou of
        None \<Rightarrow> []
      | Some p \<Rightarrow>
          concat (map (\<lambda>(i, s).
            if sy_section s \<in> {Sec_Input, Sec_InOut} then
              (case Option.bind (get (co_layouts c) pou) (\<lambda>l. get (pl_offsets l) i) of
                 None \<Rightarrow> []
               | Some offset \<Rightarrow> [\<lparr>fi_offset = offset, fi_ty = sy_ty s, fi_section = sy_section s, fi_name = name_ident (sy_name s)\<rparr>])
            else []) (zip [0..<length (ps_symbols p)] (ps_symbols p))))"

definition function_input :: "Compiler \<Rightarrow> nat \<Rightarrow> string \<Rightarrow> FunctionInput option" where
  "function_input c pou name =
     Option.bind (instance_symbol c pou name) (\<lambda>(position, s).
       map_option (\<lambda>offset. \<lparr>fi_offset = offset, fi_ty = sy_ty s, fi_section = sy_section s, fi_name = name\<rparr>)
         (Option.bind (get (co_layouts c) pou) (\<lambda>l. get (pl_offsets l) position)))"

text \<open>The parameter an argument of a function call fills, and how many positional ones have been seen after it.\<close>

definition argument_input :: "Compiler \<Rightarrow> nat \<Rightarrow> nat \<Rightarrow> Arg \<Rightarrow> (FunctionInput \<times> Expr) option \<times> nat" where
  "argument_input c pou positional arg =
     (if is_execution_control arg then (None, positional)
      else case arg of
        A_Positional value \<Rightarrow> (map_option (\<lambda>i. (i, value)) (get (function_inputs c pou) positional), positional + 1)
      | A_Input name value \<Rightarrow> (map_option (\<lambda>i. (i, value)) (function_input c pou (name_ident name)), positional)
      | A_Output _ _ \<Rightarrow> (None, positional))"

fun function_in_outs :: "Compiler \<Rightarrow> nat \<Rightarrow> nat \<Rightarrow> Arg list \<Rightarrow> Binding list" where
  "function_in_outs c pou positional [] = []"
| "function_in_outs c pou positional (arg # args) =
     (case argument_input c pou positional arg of
        (Some (i, value), seen) \<Rightarrow>
          if fi_section i = Sec_InOut
          then (fi_offset i, type_elementary c (Some (fi_ty i)), value) # function_in_outs c pou seen args
          else function_in_outs c pou seen args
      | (None, seen) \<Rightarrow> function_in_outs c pou seen args)"

section \<open>Sizes of what the recursion goes into\<close>

lemma execution_control_size:
  "execution_control en out args = (en', out') \<Longrightarrow>
     (\<forall>x. en' = Some x \<longrightarrow> en = Some x \<or> size x < size_list size args) \<and>
     (\<forall>x. out' = Some x \<longrightarrow> out = Some x \<or> size x < size_list size args)"
proof (induction en out args rule: execution_control.induct)
  case (2 en out arg args)
  show ?case
  proof (cases arg)
    case (A_Positional x)
    with 2 show ?thesis by fastforce
  next
    case (A_Input name v)
    with 2(2) [OF A_Input] 2(4) show ?thesis by (fastforce split: if_splits)
  next
    case (A_Output name target)
    with 2(3) [OF A_Output] 2(4) show ?thesis by (fastforce split: if_splits)
  qed
qed simp

definition bindings_size :: "Binding list \<Rightarrow> nat" where
  "bindings_size bs = size_list (\<lambda>(_, _, target). size target) bs"

lemma bindings_size_simps [simp]:
  "bindings_size [] = 0" "bindings_size ((o', t, e) # bs) = Suc (size e + bindings_size bs)"
  by (simp_all add: bindings_size_def)

lemma bindings_size_append [simp]: "bindings_size (xs @ ys) = bindings_size xs + bindings_size ys"
  by (induction xs) auto

lemma block_bindings_size: "bindings_size (block_outputs c ty args) + bindings_size (block_in_outs c ty args) \<le> size_list size args"
proof (induction args)
  case (Cons arg args)
  then show ?case by (cases arg) (auto split: option.splits bool.splits)
qed simp

lemma argument_input_size: "argument_input c pou n arg = (Some (i, value), m) \<Longrightarrow> size value < size arg"
  by (cases arg) (auto simp: argument_input_def split: if_splits option.splits)

lemma function_in_outs_size: "bindings_size (function_in_outs c pou n args) \<le> size_list size args"
proof (induction args arbitrary: n)
  case (Cons arg args)
  obtain r m where r: "argument_input c pou n arg = (r, m)" by force
  show ?case
  proof (cases r)
    case None
    then show ?thesis using r Cons.IH [of m] by simp
  next
    case (Some iv)
    then obtain i v where iv: "r = Some (i, v)" by (cases iv) auto
    then show ?thesis using r Cons.IH [of m] argument_input_size [of c pou n arg i v m] by auto
  qed
qed simp

lemma bindings_fit:
  "8 * bindings_size (function_in_outs c pou n args) < 18 + (8 * size_list size args + m)"
  "8 * bindings_size (block_outputs c ty args) + 8 * bindings_size (block_in_outs c ty args) < 18 + (8 * size_list size args + m)"
  using function_in_outs_size [of c pou n args] block_bindings_size [of c ty args] by simp_all

lemma arguments_fit:
  "(Some x, y) = execution_control None None args \<Longrightarrow> size x < size_list size args"
  "(y, Some x) = execution_control None None args \<Longrightarrow> size x < size_list size args"
  "(Some (i, e), m) = argument_input c pou n arg \<Longrightarrow> size e < size arg"
  using execution_control_size [of None None args "Some x" y] execution_control_size [of None None args y "Some x"]
    argument_input_size [of c pou n arg i e m] by (simp_all only: option.simps simp_thms)

section \<open>Expressions and calls\<close>

definition copy_wide :: "Anchor \<Rightarrow> Anchor \<Rightarrow> nat \<Rightarrow> Body \<Rightarrow> Body" where
  "copy_wide destination source n b =
     fold (\<lambda>offset b. store (anchor_place destination offset) (load (anchor_place source offset) b)) [0..<n] b"

text \<open>The name of a function inside it is its result; any other name is what it was resolved to.\<close>

definition var_place :: "NodeId \<Rightarrow> Name \<Rightarrow> Body \<Rightarrow> Place option \<times> Body" where
  "var_place node name b =
     (let result = (case bo_function_name b of
                      Some function \<Rightarrow>
                        if eq_str name function
                        then Option.bind (get (co_layouts (bo_compiler b)) (bo_pou b)) pl_result else None
                    | None \<Rightarrow> None)
      in case result of
           Some r \<Rightarrow> (Some (P_Local r), b)
         | None \<Rightarrow>
             (case Checked_resolution (body_checked b) node of
                Some (R_Local pou symbol) \<Rightarrow>
                  (case located b pou symbol of
                     Some address \<Rightarrow>
                       (let (index, c) = co_address address (bo_compiler b) in (Some (P_Address index), b\<lparr>bo_compiler := c\<rparr>))
                   | None \<Rightarrow> (map_option P_Local (local_offset b symbol), b))
              | Some (R_Global symbol) \<Rightarrow>
                  (case located_global b symbol of
                     Some address \<Rightarrow>
                       (let (index, c) = co_address address (bo_compiler b) in (Some (P_Address index), b\<lparr>bo_compiler := c\<rparr>))
                   | None \<Rightarrow> (map_option P_Global (get (co_global_offsets (bo_compiler b)) symbol), b))
              | _ \<Rightarrow> (None, b)))"

definition member_place :: "NodeId \<Rightarrow> Place option \<Rightarrow> Body \<Rightarrow> Place option" where
  "member_place node base b =
     (case as_anchor base of
        None \<Rightarrow> None
      | Some anchor \<Rightarrow>
          (case Checked_resolution (body_checked b) node of
             Some (R_Member owner offset) \<Rightarrow>
               map_option (anchor_place anchor) (field_slot_offset (bo_compiler b) owner offset)
           | _ \<Rightarrow> None))"

fun indexed_place :: "Anchor \<Rightarrow> nat \<Rightarrow> Place" where
  "indexed_place (Anchor_Local base) len = P_LocalIndexed base len"
| "indexed_place (Anchor_Global base) len = P_GlobalIndexed base len"

definition dimension_stride :: "ArrayBounds \<Rightarrow> int" where
  "dimension_stride d = (let n = unwrap_or (ArrayBounds_len d) 1 in if n < 2 ^ 63 then int n else 1)"

fun call_native :: "NativeBlock \<Rightarrow> Anchor \<Rightarrow> Op" where
  "call_native block (Anchor_Local offset) = CallNativeLocal block offset"
| "call_native block (Anchor_Global base) = CallNative block base"

fun call_routine :: "nat \<Rightarrow> Anchor \<Rightarrow> Op" where
  "call_routine routine (Anchor_Local offset) = CallLocal routine offset"
| "call_routine routine (Anchor_Global base) = Call routine base"

function expr :: "Expr \<Rightarrow> Body \<Rightarrow> Body"
  and place :: "Expr \<Rightarrow> Body \<Rightarrow> Place option \<times> Body"
  and subscripts :: "ArrayBounds list \<Rightarrow> Expr list \<Rightarrow> Body \<Rightarrow> Body"
  and set_bool :: "Expr \<Rightarrow> bool \<Rightarrow> Body \<Rightarrow> Body"
  and copy_wide_from :: "Anchor \<Rightarrow> Expr \<Rightarrow> nat \<Rightarrow> Body \<Rightarrow> Body"
  and bind_outputs :: "Anchor \<Rightarrow> Binding list \<Rightarrow> Body \<Rightarrow> Body"
  and block_args :: "TypeId \<Rightarrow> Anchor \<Rightarrow> Arg list \<Rightarrow> Body \<Rightarrow> Body"
  and function_args :: "nat \<Rightarrow> nat \<Rightarrow> nat \<Rightarrow> Arg list \<Rightarrow> Body \<Rightarrow> Body"
  and pass_to_function :: "nat \<Rightarrow> FunctionInput \<Rightarrow> Expr \<Rightarrow> Body \<Rightarrow> Body"
  and call :: "Expr \<Rightarrow> bool \<Rightarrow> Body \<Rightarrow> Body"
  and call_body :: "Expr \<Rightarrow> bool \<Rightarrow> Body \<Rightarrow> Body"
where
  "expr (Expr node kind span) b =
     (case kind of
        X_Literal literal \<Rightarrow>
          (case literal_value literal (unwrap_or (elementary b (Expr node kind span)) E_Dint) of
             Some value \<Rightarrow> emit_const value b
           | None \<Rightarrow> body_error span b)
      | X_Direct address \<Rightarrow>
          (let (index, c) = co_address address (bo_compiler b) in emit (LoadAddress index) (b\<lparr>bo_compiler := c\<rparr>))
      | X_Paren inner \<Rightarrow> expr inner b
      | X_Unary op operand \<Rightarrow>
          (let b = expr operand b;
               ty = unwrap_or (elementary b (Expr node kind span)) E_Dint;
               operand_ty = unwrap_or (elementary b operand) ty;
               b = (if operand_ty \<noteq> ty then emit (Convert ty) b else b)
           in case map_unary op of Some uop \<Rightarrow> emit (Unary uop ty) b | None \<Rightarrow> b)
      | X_Binary op lhs rhs \<Rightarrow>
          if op = B_Pow then unsupported span b
          else
            (let (left, right, ty) = operand_type b lhs rhs;
                 b = convert_operand left ty (expr lhs b);
                 b = convert_operand right ty (expr rhs b)
             in emit (Binary (map_binary op) ty) b)
      | X_Call _ _ \<Rightarrow> call (Expr node kind span) True b
      | X_EnumValue _ _ \<Rightarrow>
          (case enum_constant (Expr node kind span) b of (True, b) \<Rightarrow> b | (False, b) \<Rightarrow> body_error span b)
      | X_Deref _ \<Rightarrow> unsupported span b
      | X_Error \<Rightarrow> b
      | _ \<Rightarrow>
          (case enum_constant (Expr node kind span) b of
             (True, b) \<Rightarrow> b
           | (False, b) \<Rightarrow>
               (case place (Expr node kind span) b of
                  (Some p, b) \<Rightarrow> load p b
                | (None, b) \<Rightarrow> body_error span b)))"
| "place (Expr node kind span) b =
     (case kind of
        X_Paren inner \<Rightarrow> place inner b
      | X_Direct address \<Rightarrow>
          (let (index, c) = co_address address (bo_compiler b) in (Some (P_Address index), b\<lparr>bo_compiler := c\<rparr>))
      | X_Var name \<Rightarrow> var_place node name b
      | X_Member base _ \<Rightarrow>
          (let (p, b) = place base b in (member_place node p b, b))
      | X_Index base indices \<Rightarrow>
          (case place base b of
             (p, b) \<Rightarrow>
               (case as_anchor p of
                  None \<Rightarrow> (None, b)
                | Some anchor \<Rightarrow>
                    (case map_option (body_type b) (Checked_type_of (body_checked b) (expr_id base)) of
                       Some (T_Array element dims) \<Rightarrow>
                         if slot_size (bo_compiler b) element 0 \<noteq> 1 then (None, unsupported span b)
                         else if length dims \<noteq> length indices then (None, b)
                         else (Some (indexed_place anchor (min u32_MAX_nat (element_count dims))),
                               subscripts dims indices (emit_const (V_Dint 0) b))
                     | _ \<Rightarrow> (None, b))))
      | _ \<Rightarrow> (None, b))"
| "subscripts (d # dims) (index # indices) b =
     (let b = emit (Binary Mul E_Lint) (emit_const (V_Lint (word_of_int (dimension_stride d))) b);
          b = expr index b;
          b = (if unwrap_or (elementary b index) E_Dint \<noteq> E_Lint then emit (Convert E_Lint) b else b);
          b = emit (BoundsCheck (bounds_low d) (bounds_high d)) b;
          b = emit (Binary Sub E_Lint) (emit_const (V_Lint (word_of_int (bounds_low d))) b)
      in subscripts dims indices (emit (Binary Add E_Lint) b))"
| "subscripts [] indices b = b"
| "subscripts (d # dims) [] b = b"
| "set_bool target value b =
     (case place target b of
        (None, b) \<Rightarrow> body_error (expr_span target) b
      | (Some p, b) \<Rightarrow> store p (emit_const (V_Bool value) b))"
| "copy_wide_from destination source n b =
     (case place source b of
        (p, b) \<Rightarrow> (case as_anchor p of None \<Rightarrow> unsupported (expr_span source) b | Some anchor \<Rightarrow> copy_wide destination anchor n b))"
| "bind_outputs anchor [] b = b"
| "bind_outputs anchor ((offset, source, target) # bs) b =
     bind_outputs anchor bs
       (if width b target > 1 then
          (case place target b of
             (p, b') \<Rightarrow>
               (case as_anchor p of
                  None \<Rightarrow> unsupported (expr_span target) b'
                | Some destination \<Rightarrow> copy_wide destination (shift anchor offset) (width b target) b'))
        else
          (case place target b of
             (None, b) \<Rightarrow> b
           | (Some p, b) \<Rightarrow>
               store p (coerce (Checked_type_of (body_checked b) (expr_id target)) source (target_name target)
                          (load (anchor_place anchor offset) b))))"
| "block_args ty anchor [] b = b"
| "block_args ty anchor (arg # args) b =
     block_args ty anchor args
       (if is_execution_control arg then b
        else case arg of
          A_Input name value \<Rightarrow>
            (case block_field_offset (bo_compiler b) ty (name_ident name) of
               None \<Rightarrow> b
             | Some offset \<Rightarrow>
                 if width b value > 1 then copy_wide_from (shift anchor offset) value (width b value) b
                 else
                   (let b = expr value b
                    in store (anchor_place anchor offset)
                         (coerce (block_field_type (bo_compiler b) ty (name_ident name)) (elementary b value) (name_ident name) b)))
        | A_Output _ _ \<Rightarrow> b
        | A_Positional value \<Rightarrow> unsupported (expr_span value) b)"
| "function_args pou base positional [] b = b"
| "function_args pou base positional (arg # args) b =
     function_args pou base (snd (argument_input (bo_compiler b) pou positional arg)) args
       (case (is_execution_control arg, arg) of
          (False, A_Output name _) \<Rightarrow> unsupported (name_span name) b
        | _ \<Rightarrow>
            (case argument_input (bo_compiler b) pou positional arg of
               (Some (i, value), _) \<Rightarrow> pass_to_function base i value b
             | (None, _) \<Rightarrow> b))"
| "pass_to_function base i value b =
     (if width b value > 1 then copy_wide_from (Anchor_Global (slot_add base (fi_offset i))) value (width b value) b
      else
        (let b = expr value b
         in emit (StoreSlot (slot_add base (fi_offset i))) (coerce (Some (fi_ty i)) (elementary b value) (fi_name i) b)))"
| "call (Expr node kind span) want_value b =
     (case kind of
        X_Call callee args \<Rightarrow>
          (case execution_control None None args of
             (None, enable_out) \<Rightarrow>
               (let b = call_body (Expr node kind span) want_value b
                in case enable_out of Some target \<Rightarrow> set_bool target True b | None \<Rightarrow> b)
           | (Some enable, enable_out) \<Rightarrow>
               if want_value then unsupported span b
               else
                 (let (skip, b) = emit_patch (JumpIfFalse 0) (expr enable b);
                      b = call_body (Expr node kind span) want_value b;
                      b = (case enable_out of Some target \<Rightarrow> set_bool target True b | None \<Rightarrow> b);
                      (done_at, b) = emit_patch (Jump 0) b;
                      b = patch_to_here skip b;
                      b = (case enable_out of Some target \<Rightarrow> set_bool target False b | None \<Rightarrow> b)
                  in patch_to_here done_at b))
      | _ \<Rightarrow> b)"
| "call_body (Expr node kind span) want_value b =
     (case kind of
        X_Call callee args \<Rightarrow>
          (case Option.bind (Checked_type_of (body_checked b) (expr_id callee))
                  (\<lambda>ty. case body_type b ty of T_FunctionBlock _ native pou \<Rightarrow> Some (ty, native, pou) | _ \<Rightarrow> None) of
             Some (ty, native, pou) \<Rightarrow>
               (case place callee b of
                  (p, b) \<Rightarrow>
                    (case as_anchor p of
                       None \<Rightarrow> body_error (expr_span callee) b
                     | Some anchor \<Rightarrow>
                         (let b = block_args ty anchor args b;
                              bindings = block_outputs (bo_compiler b) ty args @ block_in_outs (bo_compiler b) ty args;
                              finish = (\<lambda>b. if want_value then body_error span (bind_outputs anchor bindings b) else bind_outputs anchor bindings b)
                          in case (native, pou) of
                               (Some block, _) \<Rightarrow> finish (emit (call_native block anchor) b)
                             | (None, Some index) \<Rightarrow>
                                 (case map_of (co_routines (bo_compiler b)) index of
                                    None \<Rightarrow> b
                                  | Some routine \<Rightarrow> finish (emit (call_routine routine anchor) b))
                             | (None, None) \<Rightarrow> finish (body_error (expr_span callee) b))))
           | None \<Rightarrow>
               (case Checked_resolution (body_checked b) (expr_id callee) of
                  Some (R_Function pou) \<Rightarrow>
                    (case (map_of (co_function_bases (bo_compiler b)) pou, map_of (co_routines (bo_compiler b)) pou) of
                       (Some base, Some routine) \<Rightarrow>
                         (let b = emit (Call routine base) (function_args pou base 0 args b);
                              b = bind_outputs (Anchor_Global base) (function_in_outs (bo_compiler b) pou 0 args) b
                          in if want_value
                             then emit (LoadSlot (slot_add base (unwrap_or (Option.bind (get (co_layouts (bo_compiler b)) pou) pl_result) 0))) b
                             else b)
                     | _ \<Rightarrow> b)
                | _ \<Rightarrow> body_error (expr_span callee) b))
      | _ \<Rightarrow> b)"
  by pat_completeness auto

termination expr
  by (relation "measure (\<lambda>x. case x of
      Inl (Inl (Inl (e, _))) \<Rightarrow> 8 * size e + 6
    | Inl (Inl (Inr (e, _))) \<Rightarrow> 8 * size e
    | Inl (Inr (Inl (_, es, _))) \<Rightarrow> 8 * size_list size es
    | Inl (Inr (Inr (Inl (e, _, _)))) \<Rightarrow> 8 * size e + 1
    | Inl (Inr (Inr (Inr (_, e, _, _)))) \<Rightarrow> 8 * size e + 1
    | Inr (Inl (Inl (_, bs, _))) \<Rightarrow> 8 * bindings_size bs
    | Inr (Inl (Inr (Inl (_, _, args, _)))) \<Rightarrow> 8 * size_list size args
    | Inr (Inl (Inr (Inr (_, _, _, args, _)))) \<Rightarrow> 8 * size_list size args
    | Inr (Inr (Inl (_, _, e, _))) \<Rightarrow> 8 * size e + 7
    | Inr (Inr (Inr (Inl (e, _, _)))) \<Rightarrow> 8 * size e + 4
    | Inr (Inr (Inr (Inr (e, _, _)))) \<Rightarrow> 8 * size e + 2)")
    (auto simp: bindings_fit dest: arguments_fit)

end
