(* ===== verification/Compile_Program.thy ===== *)
theory Compile_Program
  imports Compile_Body
begin

text \<open>
  Statements, bodies and whole programs, from \<open>crates/salman-vm/src/compile.rs\<close>: conditions and loops with
  their patched jumps, the prologue that clears a function's frame, and \<open>compile\<close>, which lays out, allocates,
  generates and initialises.
\<close>

section \<open>Loops\<close>

definition push_loop :: "Body \<Rightarrow> Body" where
  "push_loop b = b\<lparr>bo_loops := \<lparr>lf_exits = [], lf_continues = []\<rparr> # bo_loops b\<rparr>"

definition pop_loop :: "Body \<Rightarrow> LoopFrame \<times> Body" where
  "pop_loop b =
     (case bo_loops b of
        [] \<Rightarrow> (\<lparr>lf_exits = [], lf_continues = []\<rparr>, b)
      | frame # frames \<Rightarrow> (frame, b\<lparr>bo_loops := frames\<rparr>))"

definition add_exit :: "nat \<Rightarrow> Body \<Rightarrow> Body" where
  "add_exit jump b =
     (case bo_loops b of
        [] \<Rightarrow> b
      | frame # frames \<Rightarrow> b\<lparr>bo_loops := frame\<lparr>lf_exits := lf_exits frame @ [jump]\<rparr> # frames\<rparr>)"

definition add_continue :: "nat \<Rightarrow> Body \<Rightarrow> Body" where
  "add_continue jump b =
     (case bo_loops b of
        [] \<Rightarrow> b
      | frame # frames \<Rightarrow> b\<lparr>bo_loops := frame\<lparr>lf_continues := lf_continues frame @ [jump]\<rparr> # frames\<rparr>)"

definition emit_loop_test :: "nat \<Rightarrow> nat \<Rightarrow> nat \<Rightarrow> ElementaryType \<Rightarrow> Body \<Rightarrow> nat \<times> Body" where
  "emit_loop_test candidate limit by_slot ty b =
     (let (zero, c) = co_constant (integer_value 0 ty) (bo_compiler b);
          b = fold emit
            [LoadLocal by_slot, Const zero, Binary Ge ty, LoadLocal candidate, LoadLocal limit, Binary Le ty, Binary And E_Bool,
             LoadLocal by_slot, Const zero, Binary Lt ty, LoadLocal candidate, LoadLocal limit, Binary Ge ty, Binary And E_Bool,
             Binary Or E_Bool] (b\<lparr>bo_compiler := c\<rparr>)
      in emit_patch (JumpIfFalse 0) b)"

definition for_entry :: "Symbol \<Rightarrow> string \<Rightarrow> nat \<Rightarrow> ElementaryType \<Rightarrow> nat \<Rightarrow> nat \<Rightarrow> Expr \<Rightarrow> Expr \<Rightarrow> Expr option \<Rightarrow> Body \<Rightarrow> Body" where
  "for_entry s label control ty limit by_slot from_e to_e by_e b =
     (let b = expr from_e b;
          b = emit (StoreLocal control) (coerce (Some (sy_ty s)) (elementary b from_e) label b);
          b = expr to_e b;
          b = (if elementary b to_e \<noteq> Some ty then emit (Convert ty) b else b);
          b = emit (StoreLocal limit) b;
          b = (case by_e of
                 Some e \<Rightarrow> (let b = expr e b in if elementary b e \<noteq> Some ty then emit (Convert ty) b else b)
               | None \<Rightarrow> emit_const (integer_value 1 ty) b)
      in emit (StoreLocal by_slot) b)"

definition for_increment :: "Symbol \<Rightarrow> string \<Rightarrow> nat \<Rightarrow> ElementaryType \<Rightarrow> nat \<Rightarrow> nat \<Rightarrow> nat \<Rightarrow> nat \<Rightarrow> Body \<Rightarrow> nat \<times> Body" where
  "for_increment s label control ty limit by_slot next_slot body_start b =
     (let b = fold emit [LoadLocal control, LoadLocal by_slot, Binary Add ty, StoreLocal next_slot] b;
          (stepped, b) = emit_loop_test next_slot limit by_slot ty b;
          b = coerce (Some (sy_ty s)) (Some ty) label (emit (LoadLocal next_slot) b)
      in (stepped, emit (Jump body_start) (emit (StoreLocal control) b)))"

section \<open>Statements\<close>

fun case_labels :: "nat \<Rightarrow> ElementaryType \<Rightarrow> CaseLabel list \<Rightarrow> nat list \<Rightarrow> Body \<Rightarrow> nat list \<times> Body" where
  "case_labels slot ty [] taken b = (taken, b)"
| "case_labels slot ty (Case_Single value # labels) taken b =
     (let b = emit (Binary Eq ty) (expr value (emit (LoadLocal slot) b));
          (jump, b) = emit_patch (JumpIfTrue 0) b
      in case_labels slot ty labels (taken @ [jump]) b)"
| "case_labels slot ty (Case_Range low high # labels) taken b =
     (let b = emit (Binary Ge ty) (expr low (emit (LoadLocal slot) b));
          (too_low, b) = emit_patch (JumpIfFalse 0) b;
          b = emit (Binary Le ty) (expr high (emit (LoadLocal slot) b));
          (jump, b) = emit_patch (JumpIfTrue 0) b
      in case_labels slot ty labels (taken @ [jump]) (patch_to_here too_low b))"

definition assign :: "Expr \<Rightarrow> Expr \<Rightarrow> Body \<Rightarrow> Body" where
  "assign target value b =
     (let n = width b target in
      if n > 1 then
        (case place target b of
           (p, b) \<Rightarrow>
             (case as_anchor p of
                None \<Rightarrow> unsupported (expr_span target) b
              | Some destination \<Rightarrow> copy_wide_from destination value n b))
      else
        (case place target b of
           (None, b) \<Rightarrow> body_error (expr_span target) b
         | (Some p, b) \<Rightarrow>
             (case writable p (expr_span target) b of
                (False, b) \<Rightarrow> b
              | (True, b) \<Rightarrow>
                  (let b = expr value b
                   in store p (coerce (Checked_type_of (body_checked b) (expr_id target)) (elementary b value) (target_name target) b)))))"

function statements :: "Stmt list \<Rightarrow> Body \<Rightarrow> Body"
  and statement :: "Stmt \<Rightarrow> Body \<Rightarrow> Body"
  and if_branches :: "IfBranch list \<Rightarrow> nat list \<Rightarrow> Body \<Rightarrow> nat list \<times> Body"
  and case_arms :: "nat \<Rightarrow> ElementaryType \<Rightarrow> CaseArm list \<Rightarrow> nat list \<Rightarrow> Body \<Rightarrow> nat list \<times> Body"
  and for_loop :: "Name \<Rightarrow> Expr \<Rightarrow> Expr \<Rightarrow> Expr option \<Rightarrow> Stmt list \<Rightarrow> Body \<Rightarrow> Body"
where
  "statements [] b = b"
| "statements (s # ss) b = statements ss (statement s b)"
| "statement (Stmt node kind span) b =
     (case kind of
        S_Empty \<Rightarrow> b
      | S_Error \<Rightarrow> b
      | S_Assign target value \<Rightarrow> assign target value b
      | S_AssignAttempt _ _ \<Rightarrow> unsupported span b
      | S_Call e \<Rightarrow> call e False b
      | S_If branches else_body \<Rightarrow>
          (let (ends, b) = if_branches branches [] b;
               b = (case else_body of Some body \<Rightarrow> statements body b | None \<Rightarrow> b)
           in fold patch_to_here ends b)
      | S_Case selector arms else_body \<Rightarrow>
          (let (slot, b) = temp b;
               b = expr selector b;
               ty = unwrap_or (elementary b selector) E_Dint;
               (ends, b) = case_arms slot ty arms [] (emit (StoreLocal slot) b);
               b = (case else_body of Some body \<Rightarrow> statements body b | None \<Rightarrow> b)
           in fold patch_to_here ends b)
      | S_While condition body \<Rightarrow>
          (let top = here b;
               (exit, b) = emit_patch (JumpIfFalse 0) (expr condition b);
               (frame, b) = pop_loop (statements body (push_loop b));
               b = fold (\<lambda>jump. patch jump top) (lf_continues frame) b;
               b = patch_to_here exit (emit (Jump top) b)
           in fold patch_to_here (lf_exits frame) b)
      | S_Repeat body until \<Rightarrow>
          (let top = here b;
               (frame, b) = pop_loop (statements body (push_loop b));
               test = here b;
               b = fold (\<lambda>jump. patch jump test) (lf_continues frame) b;
               b = emit (JumpIfFalse top) (expr until b)
           in fold patch_to_here (lf_exits frame) b)
      | S_For variable from_e to_e by_e body \<Rightarrow> for_loop variable from_e to_e by_e body b
      | S_Exit \<Rightarrow>
          (case bo_loops b of
             [] \<Rightarrow> body_error span b
           | _ \<Rightarrow> (let (jump, b) = emit_patch (Jump 0) b in add_exit jump b))
      | S_Continue \<Rightarrow>
          (case bo_loops b of
             [] \<Rightarrow> body_error span b
           | _ \<Rightarrow> (let (jump, b) = emit_patch (Jump 0) b in add_continue jump b))
      | S_Return \<Rightarrow> emit Return b)"
| "if_branches [] ends b = (ends, b)"
| "if_branches (IfBranch condition body _ # branches) ends b =
     (let (skip, b) = emit_patch (JumpIfFalse 0) (expr condition b);
          (done_at, b) = emit_patch (Jump 0) (statements body b)
      in if_branches branches (ends @ [done_at]) (patch_to_here skip b))"
| "case_arms slot ty [] ends b = (ends, b)"
| "case_arms slot ty (CaseArm labels body _ # arms) ends b =
     (let (taken, b) = case_labels slot ty labels [] b;
          (skip, b) = emit_patch (Jump 0) b;
          b = fold patch_to_here taken b;
          (done_at, b) = emit_patch (Jump 0) (statements body b)
      in case_arms slot ty arms (ends @ [done_at]) (patch_to_here skip b))"
| "for_loop variable from_e to_e by_e body b =
     (case instance_symbol (bo_compiler b) (bo_pou b) (name_ident variable) of
        None \<Rightarrow> body_error (name_span variable) b
      | Some (symbol, s) \<Rightarrow>
          (case local_offset b symbol of
             None \<Rightarrow> b
           | Some control \<Rightarrow>
               (let ty = slot_type (bo_compiler b) (sy_ty s);
                    label = name_ident variable;
                    (limit, b) = temp b;
                    (by_slot, b) = temp b;
                    (next_slot, b) = temp b;
                    b = for_entry s label control ty limit by_slot from_e to_e by_e b;
                    (entry, b) = emit_loop_test control limit by_slot ty b;
                    body_start = here b;
                    (frame, b) = pop_loop (statements body (push_loop b));
                    increment = here b;
                    b = fold (\<lambda>jump. patch jump increment) (lf_continues frame) b;
                    (stepped, b) = for_increment s label control ty limit by_slot next_slot body_start b;
                    b = patch_to_here stepped (patch_to_here entry b)
                in fold patch_to_here (lf_exits frame) b)))"
  by pat_completeness auto
termination statements
  by (relation "measure (\<lambda>x. case x of
      Inl (Inl (ss, _)) \<Rightarrow> 2 * size_list size ss
    | Inl (Inr (s, _)) \<Rightarrow> 2 * size s + 1
    | Inr (Inl (bs, _, _)) \<Rightarrow> 2 * size_list size bs
    | Inr (Inr (Inl (_, _, arms, _, _))) \<Rightarrow> 2 * size_list size arms
    | Inr (Inr (Inr (_, _, _, _, body, _))) \<Rightarrow> 2 * size_list size body + 1)") auto

section \<open>Bodies\<close>

definition default_of :: "Compiler \<Rightarrow> nat \<Rightarrow> nat \<Rightarrow> Value" where
  "default_of c base offset = default_value (unwrap_or (get (co_slot_types c) (slot_add base offset)) E_Dint)"

definition prologue_value :: "Compiler \<Rightarrow> nat \<Rightarrow> nat \<Rightarrow> Symbol \<Rightarrow> nat \<Rightarrow> Value" where
  "prologue_value c base slot s k =
     (case (if k = 0 then sy_init s else None) of
        Some v \<Rightarrow> v
      | None \<Rightarrow>
          (case Option.bind (get (declared_defaults c (sy_ty s) 0) k) id of
             Some v \<Rightarrow> v
           | None \<Rightarrow> default_of c base slot))"

definition clear_symbol :: "nat \<Rightarrow> nat \<Rightarrow> Symbol \<Rightarrow> Body \<Rightarrow> Body" where
  "clear_symbol base offset s b =
     fold (\<lambda>k b. let slot = slot_add offset k
                 in emit (StoreLocal slot) (emit_const (prologue_value (bo_compiler b) base slot s k) b))
       [0..<slot_size (bo_compiler b) (sy_ty s) 0] b"

definition function_prologue :: "nat \<Rightarrow> Body \<Rightarrow> Body" where
  "function_prologue pou b =
     (let c = bo_compiler b in
      case map_of (co_function_bases c) pou of
        None \<Rightarrow> b
      | Some base \<Rightarrow>
          (let symbols = (case get (ck_pous (co_checked c)) pou of Some p \<Rightarrow> ps_symbols p | None \<Rightarrow> []);
               frame = unwrap_or (get (co_layouts c) pou) PouLayout_default;
               b = fold (\<lambda>(position, s) b.
                     if sy_section s \<notin> {Sec_Local, Sec_Temp} then b
                     else case get (pl_offsets frame) position of
                       None \<Rightarrow> b
                     | Some offset \<Rightarrow> clear_symbol base offset s b) (zip [0..<length symbols] symbols) b
           in case pl_result frame of
                None \<Rightarrow> b
              | Some result \<Rightarrow>
                  emit (StoreLocal result)
                    (emit_const
                       (case Option.bind (Option.bind (get (ck_pous (co_checked c)) pou) ps_return_type) (declared_default c) of
                          Some v \<Rightarrow> v
                        | None \<Rightarrow> default_of c base result) b)))"

definition Body_new :: "nat \<Rightarrow> Pou \<Rightarrow> Compiler \<Rightarrow> Body" where
  "Body_new pou ast c =
     \<lparr>bo_compiler = c, bo_pou = pou, bo_code = [], bo_depth = 0, bo_max_depth = 0, bo_loops = [],
      bo_next_temp = (case get (co_layouts c) pou of Some l \<Rightarrow> pl_temp_base l | None \<Rightarrow> 0),
      bo_function_name = (if pou_kind ast = PK_Function then Some (name_ident (pou_name ast)) else None)\<rparr>"

definition compile_body :: "nat \<Rightarrow> Pou \<Rightarrow> Compiler \<Rightarrow> Op list \<times> nat \<times> Compiler" where
  "compile_body pou ast c =
     (let b = Body_new pou ast c;
          b = (if pou_kind ast = PK_Function then function_prologue pou b else b);
          b = emit Return (statements (pou_body ast) b)
      in (bo_code b, bo_max_depth b, bo_compiler b))"

section \<open>Programs\<close>

record Compiled =
  cd_program :: Program
  cd_memory :: Memory
  cd_tasks :: "TaskConfig list"

definition new_routine :: "Compiler \<Rightarrow> nat \<times> PouSymbols \<Rightarrow> Routine" where
  "new_routine c ip =
     \<lparr>ro_name = name_ident (ps_name (snd ip)), ro_code = [],
      ro_result_slot = Option.bind (get (co_layouts c) (fst ip)) pl_result,
      ro_frame_size = (case get (co_layouts c) (fst ip) of Some l \<Rightarrow> pl_size l | None \<Rightarrow> 0), ro_max_stack = 0\<rparr>"

text \<open>Every kind of POU gets a routine, so a POU's routine has the POU's number.\<close>

definition declare_routines :: "Compiler \<Rightarrow> Routine list \<times> Compiler" where
  "declare_routines c =
     (let indexed = zip [0..<length (ck_pous (co_checked c))] (ck_pous (co_checked c));
          callable = filter (\<lambda>ip. ps_kind (snd ip) \<in> {PK_Function, PK_FunctionBlock, PK_Program}) indexed
      in (map (new_routine c) callable,
          c\<lparr>co_routines := co_routines c @ zip (map (\<lambda>ip. wrapping_u32 (fst ip)) callable) (map wrapping_u32 [0..<length callable])\<rparr>))"

definition compile_pou :: "nat \<times> Pou \<Rightarrow> Routine list \<times> Compiler \<Rightarrow> Routine list \<times> Compiler" where
  "compile_pou ip st =
     (case map_of (co_routines (snd st)) (wrapping_u32 (fst ip)) of
        None \<Rightarrow> st
      | Some routine \<Rightarrow>
          (let (ops, max_stack, c) = compile_body (wrapping_u32 (fst ip)) (snd ip) (snd st)
           in (if routine < length (fst st)
               then (fst st)[routine := (fst st ! routine)\<lparr>ro_code := ops, ro_max_stack := max_stack\<rparr>] else fst st, c)))"

definition initial_memory :: "Compiler \<Rightarrow> Memory" where
  "initial_memory c =
     (let m = Memory_new (co_slot_types c) IMAGE_BYTES ImageLayout_default;
          m = fold (\<lambda>(slot, v). set_initial slot v) (co_initial c) m;
          m = fold (\<lambda>(address, v) m. snd (set_initial_at m address v)) (co_image_initial c) m
      in fold (\<lambda>(slot, p) m. if p \<noteq> Volatile then set_persistence (wrapping_u32 slot) p m else m)
           (zip [0..<length (co_persistence c)] (co_persistence c)) m)"

definition compile_run :: "Compiler \<Rightarrow> Compiled option \<times> Compiler" where
  "compile_run c =
     (let (unsettled, c) = compute_layouts c in
      if unsettled \<noteq> [] then (None, fold report_containment_cycle unsettled c)
      else
        (let c = allocate_functions (allocate_globals (report_external_variables (check_located_variables c)));
             (routine_list, c) = declare_routines c;
             (tasks, c) = allocate_program_instances c;
             units = pous (co_unit c);
             (routine_list, c) = fold compile_pou (zip [0..<length units] units) (routine_list, c)
         in if tasks = [] then (None, add_diag E_NOTHING_TO_RUN None c)
            else
              (Some \<lparr>cd_program = \<lparr>pr_routines = routine_list, pr_constants = co_constants c, pr_messages = co_messages c,
                       pr_enum_sets = co_enum_sets c, pr_addresses = co_addresses c, pr_slot_types = co_slot_types c,
                       pr_slot_names = co_slot_names c, pr_image_bytes = IMAGE_BYTES\<rparr>,
                     cd_memory = initial_memory c, cd_tasks = tasks\<rparr>, c)))"

definition compile :: "CompilationUnit \<Rightarrow> Checked \<Rightarrow> bool \<Rightarrow> Compiled option \<times> CompileDiag list" where
  "compile unit checked bool_widens_to_bit_strings =
     (let (compiled, c) = compile_run (Compiler_new unit checked (if bool_widens_to_bit_strings then Permitted else Refused))
      in (compiled, co_diags c))"

end
