(* ===== verification/Compile_Semantics.thy ===== *)
theory Compile_Semantics
  imports Vm_Straight Compile_Settled Compile_Program
begin

text \<open>
  What a checked expression without calls means, independently of the code generated for it: its value
  over a memory and an instance base, evaluated left to right, with the conversions the types ask for, or
  the fault that stops the evaluation.  An array element is found by the row-major number of its
  subscripts, each checked against its own dimension.
\<close>

section \<open>Where a name leads\<close>

datatype Loc = Loc_Slot Anchor | Loc_Image DirectAddress | Loc_Element Anchor nat "ArrayBounds list" "Expr list"

fun loc_anchor :: "Loc option \<Rightarrow> Anchor option" where
  "loc_anchor (Some (Loc_Slot a)) = Some a"
| "loc_anchor _ = None"

definition function_result :: "Body \<Rightarrow> Name \<Rightarrow> nat option" where
  "function_result b name =
     (case bo_function_name b of
        Some function \<Rightarrow>
          if eq_str name function then Option.bind (get (co_layouts (bo_compiler b)) (bo_pou b)) pl_result else None
      | None \<Rightarrow> None)"

definition var_loc :: "Body \<Rightarrow> NodeId \<Rightarrow> Name \<Rightarrow> Loc option" where
  "var_loc b node name =
     (case function_result b name of
        Some r \<Rightarrow> Some (Loc_Slot (Anchor_Local r))
      | None \<Rightarrow>
          (case Checked_resolution (body_checked b) node of
             Some (R_Local pou symbol) \<Rightarrow>
               (case located b pou symbol of
                  Some address \<Rightarrow> Some (Loc_Image address)
                | None \<Rightarrow> map_option (\<lambda>o'. Loc_Slot (Anchor_Local o')) (local_offset b symbol))
           | Some (R_Global symbol) \<Rightarrow>
               (case located_global b symbol of
                  Some address \<Rightarrow> Some (Loc_Image address)
                | None \<Rightarrow> map_option (\<lambda>o'. Loc_Slot (Anchor_Global o')) (get (co_global_offsets (bo_compiler b)) symbol))
           | _ \<Rightarrow> None))"

definition member_loc :: "Body \<Rightarrow> NodeId \<Rightarrow> Loc option \<Rightarrow> Loc option" where
  "member_loc b node base =
     (case (loc_anchor base, Checked_resolution (body_checked b) node) of
        (Some anchor, Some (R_Member owner offset)) \<Rightarrow>
          map_option (\<lambda>k. Loc_Slot (shift anchor k)) (field_slot_offset (bo_compiler b) owner offset)
      | _ \<Rightarrow> None)"

definition element_loc :: "Body \<Rightarrow> Expr \<Rightarrow> Expr list \<Rightarrow> Loc option \<Rightarrow> Loc option" where
  "element_loc b base indices loc =
     (case (loc_anchor loc, map_option (body_type b) (Checked_type_of (body_checked b) (expr_id base))) of
        (Some anchor, Some (T_Array element dims)) \<Rightarrow>
          if slot_size (bo_compiler b) element 0 = 1 \<and> length dims = length indices
          then Some (Loc_Element anchor (min u32_MAX_nat (element_count dims)) dims indices) else None
      | _ \<Rightarrow> None)"

function (sequential) locate :: "Body \<Rightarrow> Expr \<Rightarrow> Loc option" where
  "locate b (Expr node (X_Paren inner) span) = locate b inner"
| "locate b (Expr node (X_Direct address) span) = Some (Loc_Image address)"
| "locate b (Expr node (X_Var name) span) = var_loc b node name"
| "locate b (Expr node (X_Member base _) span) = member_loc b node (locate b base)"
| "locate b (Expr node (X_Index base indices) span) = element_loc b base indices (locate b base)"
| "locate b _ = None"
  by pat_completeness auto
termination locate by (relation "measure (\<lambda>(b, e). size e)") auto

section \<open>Values\<close>

fun anchor_slot :: "nat \<Rightarrow> Anchor \<Rightarrow> nat" where
  "anchor_slot base (Anchor_Local offset) = slot_add base offset"
| "anchor_slot base (Anchor_Global slot) = slot"

definition convert_to :: "bool \<Rightarrow> ElementaryType \<Rightarrow> Value \<Rightarrow> FaultKind + Value" where
  "convert_to needed ty v = (if needed then convert v ty else Inr v)"

definition enum_value :: "Body \<Rightarrow> Expr \<Rightarrow> Value option" where
  "enum_value b e =
     (case Checked_resolution (body_checked b) (expr_id e) of
        Some (R_EnumValue _ n) \<Rightarrow> Some (integer_value n (unwrap_or (elementary b e) E_Dint))
      | _ \<Rightarrow> None)"

definition no_meaning :: "FaultKind + 'a" where
  "no_meaning = Inl (Unsupported '''')"

function (sequential) eval :: "Body \<Rightarrow> Memory \<Rightarrow> nat \<Rightarrow> Expr \<Rightarrow> FaultKind + Value"
  and eval_indices :: "Body \<Rightarrow> Memory \<Rightarrow> nat \<Rightarrow> ArrayBounds list \<Rightarrow> Expr list \<Rightarrow> int \<Rightarrow> FaultKind + int"
where
  "eval b m base (Expr node kind span) =
     (case kind of
        X_Literal literal \<Rightarrow>
          (case literal_value literal (unwrap_or (elementary b (Expr node kind span)) E_Dint) of Some v \<Rightarrow> Inr v | None \<Rightarrow> no_meaning)
      | X_Direct address \<Rightarrow> read_image m address
      | X_Paren inner \<Rightarrow> eval b m base inner
      | X_Unary op operand \<Rightarrow>
          (let ty = unwrap_or (elementary b (Expr node kind span)) E_Dint in
           and_then (eval b m base operand) (\<lambda>v.
           and_then (convert_to (unwrap_or (elementary b operand) ty \<noteq> ty) ty v) (\<lambda>v.
           case map_unary op of None \<Rightarrow> Inr v | Some uop \<Rightarrow> unary uop ty v)))
      | X_Binary op lhs rhs \<Rightarrow>
          (let (left, right, ty) = operand_type b lhs rhs in
           and_then (eval b m base lhs) (\<lambda>l.
           and_then (convert_to (left \<noteq> ty \<and> \<not> is_duration ty) ty l) (\<lambda>l.
           and_then (eval b m base rhs) (\<lambda>r.
           and_then (convert_to (right \<noteq> ty \<and> \<not> is_duration ty) ty r) (\<lambda>r.
           binary (map_binary op) ty l r)))))
      | X_Index _ indices \<Rightarrow>
          (case enum_value b (Expr node kind span) of
             Some v \<Rightarrow> Inr v
           | None \<Rightarrow>
               (case locate b (Expr node kind span) of
                  Some (Loc_Element anchor len dims _) \<Rightarrow>
                    and_then (eval_indices b m base dims indices 0) (\<lambda>k. read_at m (slot_add (anchor_slot base anchor) (nat k)))
                | _ \<Rightarrow> no_meaning))
      | _ \<Rightarrow>
          (case enum_value b (Expr node kind span) of
             Some v \<Rightarrow> Inr v
           | None \<Rightarrow>
               (case locate b (Expr node kind span) of
                  Some (Loc_Slot anchor) \<Rightarrow> read_at m (anchor_slot base anchor)
                | Some (Loc_Image address) \<Rightarrow> read_image m address
                | _ \<Rightarrow> no_meaning)))"
| "eval_indices b m base (d # dims) (index # indices) k =
     and_then (eval b m base index) (\<lambda>v.
     and_then (convert_to (unwrap_or (elementary b index) E_Dint \<noteq> E_Lint) E_Lint v) (\<lambda>v.
     and_then (in_bounds (bounds_low d) (bounds_high d) v) (\<lambda>i.
     eval_indices b m base dims indices (k * int (unwrap_or (ArrayBounds_len d) 1) + (i - bounds_low d)))))"
| "eval_indices b m base _ _ k = Inr k"
  by pat_completeness auto
termination eval
  by (relation "measure (\<lambda>x. case x of Inl (_, _, _, e) \<Rightarrow> 2 * size e + 1 | Inr (_, _, _, _, es, _) \<Rightarrow> 2 * size_list size es)") auto

section \<open>What is covered\<close>

text \<open>
  A float that is minus zero shares its place in the pool of constants with plus zero; the pool is exact
  when it has none.
\<close>

definition negative_zero :: "Value \<Rightarrow> bool" where
  "negative_zero v \<longleftrightarrow> v = V_Real 0x80000000 \<or> v = V_Lreal 0x8000000000000000"

definition elements :: "ArrayBounds list \<Rightarrow> nat" where
  "elements dims = prod_list (map (\<lambda>d. nat (bounds_high d - bounds_low d + 1)) dims)"

definition bounds_ok :: "ArrayBounds \<Rightarrow> bool" where
  "bounds_ok d \<longleftrightarrow> i64_MIN \<le> bounds_low d \<and> bounds_low d \<le> bounds_high d \<and> bounds_high d \<le> i64_MAX"

definition dims_ok :: "ArrayBounds list \<Rightarrow> bool" where
  "dims_ok dims \<longleftrightarrow> list_all bounds_ok dims \<and> elements dims < 2 ^ 32 - 1"

definition named :: "Body \<Rightarrow> Expr \<Rightarrow> bool" where
  "named b e \<longleftrightarrow>
     (case enum_value b e of
        Some v \<Rightarrow> \<not> negative_zero v
      | None \<Rightarrow> (case locate b e of None \<Rightarrow> False | Some (Loc_Element _ _ dims _) \<Rightarrow> dims_ok dims | Some _ \<Rightarrow> True))"

text \<open>
  An expression the reference covers: without calls, every name resolved, every literal representable and
  no array larger than the compiler's count of its elements.
\<close>

function (sequential) straight :: "Body \<Rightarrow> Expr \<Rightarrow> bool" where
  "straight b (Expr node kind span) =
     (case kind of
        X_Literal literal \<Rightarrow>
          (case literal_value literal (unwrap_or (elementary b (Expr node kind span)) E_Dint) of Some v \<Rightarrow> \<not> negative_zero v | None \<Rightarrow> False)
      | X_Direct _ \<Rightarrow> True
      | X_Paren inner \<Rightarrow> straight b inner
      | X_Unary _ operand \<Rightarrow> straight b operand
      | X_Binary op lhs rhs \<Rightarrow> op \<noteq> B_Pow \<and> straight b lhs \<and> straight b rhs
      | X_Index base indices \<Rightarrow> named b (Expr node kind span) \<and> list_all (straight b) indices
      | X_Var _ \<Rightarrow> named b (Expr node kind span)
      | X_Member _ _ \<Rightarrow> named b (Expr node kind span)
      | X_EnumValue _ _ \<Rightarrow> named b (Expr node kind span)
      | _ \<Rightarrow> False)"
  by pat_completeness auto
termination straight
  by (relation "measure (\<lambda>(b, e). size e)")
    (auto simp: less_Suc_eq_le dest: size_list_estimation' [where f = size, OF _ order_refl])

end
