(* ===== verification/Compile_Emission.thy ===== *)
theory Compile_Emission
  imports "HOL-Library.Sublist" Compile_Semantics
begin

text \<open>
  Reasoning about the emitter.  A piece of code generation only appends to the code and the pools, keeps
  everything the meaning of a name depends on, and accounts for the operand stack; what the appended code
  does when it is run is stated for every program whose pools go on from the compiler's.
\<close>

section \<open>What code generation leaves alone\<close>

definition scope :: "Body \<Rightarrow> Body" where
  "scope b = b\<lparr>bo_code := [], bo_depth := 0, bo_max_depth := 0,
     bo_compiler := (bo_compiler b)\<lparr>co_diags := [], co_constants := [], co_addresses := [], co_messages := [], co_enum_sets := []\<rparr>\<rparr>"

lemma scope_fields [simp]:
  "bo_pou (scope b) = bo_pou b" "bo_function_name (scope b) = bo_function_name b"
  "co_checked (bo_compiler (scope b)) = co_checked (bo_compiler b)" "co_layouts (bo_compiler (scope b)) = co_layouts (bo_compiler b)"
  "co_widening (bo_compiler (scope b)) = co_widening (bo_compiler b)"
  "co_global_offsets (bo_compiler (scope b)) = co_global_offsets (bo_compiler b)"
  by (simp_all add: scope_def)

lemma same_scope:
  assumes "scope b' = scope b"
  shows "bo_pou b' = bo_pou b" "bo_function_name b' = bo_function_name b"
    "co_checked (bo_compiler b') = co_checked (bo_compiler b)" "co_layouts (bo_compiler b') = co_layouts (bo_compiler b)"
    "co_widening (bo_compiler b') = co_widening (bo_compiler b)"
    "co_global_offsets (bo_compiler b') = co_global_offsets (bo_compiler b)"
  using assms by (metis scope_fields)+

lemma slot_size_same:
  "co_checked d = co_checked c \<Longrightarrow> co_layouts d = co_layouts c \<Longrightarrow> slot_size d ty depth = slot_size c ty depth"
  by (rule slot_size_cong) (assumption, simp only: size_at_def)

lemma scope_lookups:
  assumes "scope b' = scope b"
  shows "body_checked b' = body_checked b" "body_type b' = body_type b" "elementary b' = elementary b"
    "located b' = located b" "located_global b' = located_global b" "local_offset b' = local_offset b"
    "operand_type b' = operand_type b" "enum_value b' = enum_value b" "function_result b' = function_result b"
    "slot_size (bo_compiler b') = slot_size (bo_compiler b)" "width b' = width b"
    "field_slot_offset (bo_compiler b') = field_slot_offset (bo_compiler b)"
proof -
  note same = same_scope [OF assms]
  show sizes: "slot_size (bo_compiler b') = slot_size (bo_compiler b)" using same by (intro ext slot_size_same) simp_all
  show checked: "body_checked b' = body_checked b" using same by (simp add: body_checked_def)
  show "body_type b' = body_type b" using same by (intro ext) (simp add: body_type_def co_type_def)
  show el: "elementary b' = elementary b" using checked by (intro ext) (simp add: elementary_def)
  show "located b' = located b" "located_global b' = located_global b" using checked
    by (intro ext, simp add: located_def located_global_def)+
  show "local_offset b' = local_offset b" using same by (intro ext) (simp add: local_offset_def)
  show "operand_type b' = operand_type b" using el same by (intro ext) (simp add: operand_type_def Let_def)
  show "enum_value b' = enum_value b" by (intro ext) (unfold enum_value_def el checked, rule refl)
  show "function_result b' = function_result b" by (unfold function_result_def same, rule refl)
  show "width b' = width b" by (unfold width_def checked sizes, rule refl)
  show "field_slot_offset (bo_compiler b') = field_slot_offset (bo_compiler b)"
    by (intro ext) (unfold field_slot_offset_def co_type_def sizes same, rule refl)
qed

lemma locate_scope:
  assumes "scope b' = scope b"
  shows "locate b' e = locate b e"
proof (induction e rule: measure_induct_rule [of size])
  case (less e)
  note same = scope_lookups [OF assms] same_scope [OF assms]
  have "var_loc b' = var_loc b" "member_loc b' = member_loc b" "element_loc b' = element_loc b"
    by (unfold var_loc_def member_loc_def element_loc_def same) (rule refl)+
  moreover obtain node kind span where e: "e = Expr node kind span" by (cases e)
  ultimately show ?case using less.IH by (cases kind) simp_all
qed

section \<open>Appending\<close>

definition level :: "Body \<Rightarrow> bool" where
  "level b \<longleftrightarrow> bo_depth b \<le> int (bo_max_depth b)"

definition extends :: "Body \<Rightarrow> Body \<Rightarrow> bool" where
  "extends b b' \<longleftrightarrow> scope b' = scope b \<and>
     (\<exists>ops. bo_code b' = bo_code b @ ops \<and> list_all straight_op ops) \<and>
     prefix (co_constants (bo_compiler b)) (co_constants (bo_compiler b')) \<and>
     prefix (co_addresses (bo_compiler b)) (co_addresses (bo_compiler b')) \<and>
     co_diags (bo_compiler b') = co_diags (bo_compiler b) \<and>
     (bo_max_depth b' < 2 ^ 32 - 1 \<longrightarrow> bo_max_depth b \<le> bo_max_depth b' \<and> (level b \<longrightarrow> level b'))"

lemma extends_refl: "extends b b"
  by (simp add: extends_def)

lemma extends_trans: "extends a b \<Longrightarrow> extends b c \<Longrightarrow> extends a c"
  unfolding extends_def by (auto intro: prefix_order.order_trans)

definition new_code :: "Body \<Rightarrow> Body \<Rightarrow> Op list" where
  "new_code b b' = drop (length (bo_code b)) (bo_code b')"

lemma extends_code: "extends b b' \<Longrightarrow> bo_code b' = bo_code b @ new_code b b' \<and> list_all straight_op (new_code b b')"
  by (auto simp: extends_def new_code_def)

lemma new_code_trans: "extends a b \<Longrightarrow> extends b c \<Longrightarrow> new_code a c = new_code a b @ new_code b c"
  by (auto simp: extends_def new_code_def)

definition linked :: "Env \<Rightarrow> Body \<Rightarrow> bool" where
  "linked env b \<longleftrightarrow>
     prefix (co_constants (bo_compiler b)) (pr_constants (env_program env)) \<and> length (pr_constants (env_program env)) \<le> 2 ^ 32 \<and>
     prefix (co_addresses (bo_compiler b)) (pr_addresses (env_program env)) \<and> length (pr_addresses (env_program env)) \<le> 2 ^ 32 \<and>
     list_all (\<lambda>v. \<not> negative_zero v) (pr_constants (env_program env)) \<and> bo_max_depth b < 2 ^ 32 - 1"

lemma linked_before: "extends a b \<Longrightarrow> linked env b \<Longrightarrow> linked env a"
  unfolding extends_def linked_def by (auto intro: prefix_order.order_trans)

text \<open>A generator that appends code of a fixed stack effect, wherever in the scope it is used.\<close>

definition emits :: "Body \<Rightarrow> (Body \<Rightarrow> Body) \<Rightarrow> int \<Rightarrow> bool" where
  "emits b f d \<longleftrightarrow> (\<forall>b'. scope b' = scope b \<longrightarrow> extends b' (f b') \<and> bo_depth (f b') = bo_depth b' + d)"

definition computes :: "Env \<Rightarrow> Memory \<Rightarrow> nat \<Rightarrow> Body \<Rightarrow> (Body \<Rightarrow> Body) \<Rightarrow> Value list \<Rightarrow> FaultKind + Value list \<Rightarrow> bool" where
  "computes env m base b f xs r \<longleftrightarrow>
     (\<forall>b' n. scope b' = scope b \<and> level b' \<and> linked env (f b') \<and> int (bo_max_depth (f b')) + int (length xs) \<le> bo_depth b' + int n \<longrightarrow>
        yields env m base n (new_code b' (f b')) xs r)"

lemma emits_scope: "emits b f d \<Longrightarrow> scope b' = scope b \<Longrightarrow> scope (f b') = scope b"
  by (simp add: emits_def extends_def)

lemma emits_comp: "emits b f d \<Longrightarrow> emits b g e \<Longrightarrow> d + e = k \<Longrightarrow> emits b (\<lambda>b. g (f b)) k"
  unfolding emits_def
proof (intro allI impI)
  fix b' :: Body
  assume f: "\<forall>b'. scope b' = scope b \<longrightarrow> extends b' (f b') \<and> bo_depth (f b') = bo_depth b' + d"
    and g: "\<forall>b'. scope b' = scope b \<longrightarrow> extends b' (g b') \<and> bo_depth (g b') = bo_depth b' + e" and k: "d + e = k" and b': "scope b' = scope b"
  then have "scope (f b') = scope b" by (metis extends_def)
  with f g b' k show "extends b' (g (f b')) \<and> bo_depth (g (f b')) = bo_depth b' + k" by (auto intro: extends_trans)
qed

lemma computes_comp:
  assumes "emits b f d" "emits b g e" "computes env m base b f xs r"
    and "\<And>ys. r = Inr ys \<Longrightarrow> int (length ys) = int (length xs) + d \<and> computes env m base b g ys (h ys)"
  shows "computes env m base b (\<lambda>b. g (f b)) xs (and_then r h)"
  unfolding computes_def
proof (intro allI impI, elim conjE)
  fix b' :: Body and n
  assume b': "scope b' = scope b" "level b'" "linked env (g (f b'))" "int (bo_max_depth (g (f b'))) + int (length xs) \<le> bo_depth b' + int n"
  have f: "extends b' (f b')" "bo_depth (f b') = bo_depth b' + d" using assms(1) b'(1) by (simp_all add: emits_def)
  then have fb: "scope (f b') = scope b" using b'(1) by (simp add: extends_def)
  then have g: "extends (f b') (g (f b'))" using assms(2) by (simp add: emits_def)
  have fl: "linked env (f b')" using g b'(3) by (rule linked_before)
  then have level: "level (f b')" using f(1) b'(2) by (simp add: extends_def linked_def)
  have "yields env m base n (new_code b' (f b')) xs r"
    using assms(3) b' fl g unfolding computes_def extends_def linked_def by fastforce
  moreover have "yields env m base n (new_code (f b') (g (f b'))) ys (h ys)" if "r = Inr ys" for ys
    using assms(4) [OF that] fb level b' f(2) unfolding computes_def by fastforce
  ultimately show "yields env m base n (new_code b' (g (f b'))) xs (and_then r h)"
    unfolding new_code_trans [OF f(1) g] by (rule yields_append)
qed

lemma computes_frame:
  assumes "emits b f d" "computes env m base b f xs r"
  shows "computes env m base b f (xs @ zs) (and_then r (\<lambda>ys. Inr (ys @ zs)))"
  unfolding computes_def
proof (intro allI impI, elim conjE)
  fix b' :: Body and n
  assume b': "scope b' = scope b" "level b'" "linked env (f b')" "int (bo_max_depth (f b')) + int (length (xs @ zs)) \<le> bo_depth b' + int n"
  have "bo_max_depth b' \<le> bo_max_depth (f b')" using assms(1) b'(1,3) by (simp add: emits_def extends_def linked_def)
  then have room: "length zs \<le> n" using b'(2,4) by (simp add: level_def)
  then have "yields env m base (n - length zs) (new_code b' (f b')) xs r"
    using assms(2) b' unfolding computes_def by simp
  then show "yields env m base n (new_code b' (f b')) (xs @ zs) (and_then r (\<lambda>ys. Inr (ys @ zs)))"
    using room by (intro yields_frame) auto
qed

lemma emits_cong: "(\<And>b'. scope b' = scope b \<Longrightarrow> f b' = g b') \<Longrightarrow> emits b g d \<Longrightarrow> emits b f d"
  by (simp add: emits_def)

lemma computes_cong: "(\<And>b'. scope b' = scope b \<Longrightarrow> f b' = g b') \<Longrightarrow> computes env m base b g xs r \<Longrightarrow> computes env m base b f xs r"
  unfolding computes_def by metis

lemma emits_id: "emits b (\<lambda>b. b) 0"
  by (simp add: emits_def extends_refl)

lemma computes_id: "computes env m base b (\<lambda>b. b) xs (Inr xs)"
  by (simp add: computes_def new_code_def yields_nil)

section \<open>Instructions\<close>

lemma scope_emit [simp]: "scope (emit op b) = scope b"
  by (simp add: scope_def emit_def Let_def)

lemma emit_fields:
  "bo_code (emit op b) = bo_code b @ [op]" "bo_compiler (emit op b) = bo_compiler b"
  "bo_depth (emit op b) = bo_depth b + stack_delta op"
  by (simp_all add: emit_def Let_def)

lemma emit_depth:
  "bo_max_depth (emit op b) < 2 ^ 32 - 1 \<Longrightarrow> bo_max_depth b \<le> bo_max_depth (emit op b) \<and>
     bo_depth b + stack_delta op \<le> int (bo_max_depth (emit op b))"
  by (auto simp: emit_def Let_def u32_MAX_nat_def min_def split: if_splits)

lemma emits_emit: "straight_op op \<Longrightarrow> emits b (emit op) (stack_delta op)"
  using emit_depth by (auto simp: emits_def extends_def emit_fields level_def)

lemma computes_emit:
  assumes "\<And>n. length xs + nat (stack_delta op) \<le> n \<Longrightarrow> yields env m base n [op] xs r"
  shows "computes env m base b (emit op) xs r"
  unfolding computes_def
proof (intro allI impI, elim conjE)
  fix b' :: Body and n
  assume b': "level b'" "linked env (emit op b')" "int (bo_max_depth (emit op b')) + int (length xs) \<le> bo_depth b' + int n"
  then have "length xs + nat (stack_delta op) \<le> n" using emit_depth [of op b'] by (auto simp: linked_def level_def)
  then show "yields env m base n (new_code b' (emit op b')) xs r" using assms by (simp add: new_code_def emit_fields)
qed

section \<open>Pools\<close>

lemma pool_position_Some: "pool_position p xs = Some i \<Longrightarrow> i < length xs \<and> p (xs ! i)"
  by (induction xs arbitrary: i) (auto split: if_splits)

lemma pooled_spec:
  assumes "pooled eq x xs = (i, ys)"
  shows "prefix xs ys" "length ys \<le> 2 ^ 32 \<Longrightarrow> i < length ys \<and> (eq (ys ! i) x \<or> ys ! i = x)"
proof -
  show "prefix xs ys" using assms by (auto simp: pooled_def split: option.splits)
  show "i < length ys \<and> (eq (ys ! i) x \<or> ys ! i = x)" if small: "length ys \<le> 2 ^ 32"
  proof (cases "pool_position (\<lambda>existing. eq existing x) xs")
    case None
    then show ?thesis using assms small by (auto simp: pooled_def wrapping_u32_def)
  next
    case (Some k)
    then show ?thesis using assms small pool_position_Some [OF Some] by (auto simp: pooled_def wrapping_u32_def)
  qed
qed

lemma fl_cmp_equal:
  assumes "fl_cmp f x y = Some 0" "x < 2 * sign_bit f" "y < 2 * sign_bit f" "x \<noteq> sign_bit f" "y \<noteq> sign_bit f"
  shows "x = y"
proof -
  have keys: "(if fl_neg f x then - int (fl_mag f x) else int (fl_mag f x)) = (if fl_neg f y then - int (fl_mag f y) else int (fl_mag f y))"
    using assms(1) by (auto simp: fl_cmp_def Let_def sgn_if split: if_splits)
  note x = fl_make_eta [OF assms(2), unfolded fl_make_def] and y = fl_make_eta [OF assms(3), unfolded fl_make_def]
  show ?thesis
  proof (cases "fl_neg f x = fl_neg f y")
    case True
    with keys have "fl_mag f x = fl_mag f y" by (simp split: if_splits)
    with True show ?thesis using x y by metis
  next
    case False
    with keys have "fl_mag f x = 0 \<and> fl_mag f y = 0" by (auto split: if_splits)
    with False x y assms(4,5) show ?thesis by (metis add.right_neutral)
  qed
qed

lemma value_eq_exact:
  assumes "value_eq x y" "\<not> negative_zero x" "\<not> negative_zero y"
  shows "x = y"
proof -
  have b32: "unat a < 2 * sign_bit F32" "unat a = sign_bit F32 \<Longrightarrow> a = 0x80000000" for a :: u32
    using unsigned_less [of a] by (auto simp: sign_bit_def word_unat_eq_iff)
  have b64: "unat a < 2 * sign_bit F64" "unat a = sign_bit F64 \<Longrightarrow> a = 0x8000000000000000" for a :: u64
    using unsigned_less [of a] by (auto simp: sign_bit_def word_unat_eq_iff)
  show ?thesis using assms
  proof (induction x y rule: value_eq.induct)
    case (1 x y)
    then have "unat x = unat y" using b32 by (intro fl_cmp_equal [of F32]) (auto simp: negative_zero_def)
    then show ?case by (simp add: word_unat_eq_iff)
  next
    case (2 x y)
    then have "unat x = unat y" using b64 by (intro fl_cmp_equal [of F64]) (auto simp: negative_zero_def)
    then show ?case by (simp add: word_unat_eq_iff)
  qed simp_all
qed

lemma pool_constant:
  assumes "co_constant v c = (i, c')"
  shows "\<exists>ys. c' = c\<lparr>co_constants := ys\<rparr> \<and> prefix (co_constants c) ys \<and> pooled value_eq v (co_constants c) = (i, ys)"
  using assms pooled_spec(1) [of value_eq v "co_constants c"] by (auto simp: co_constant_def split: prod.splits)

lemma emits_const: "emits b (emit_const v) 1"
  unfolding emits_def
proof (intro allI impI)
  fix b' :: Body assume "scope b' = scope b"
  obtain i c' where c': "co_constant v (bo_compiler b') = (i, c')" by force
  then obtain ys where ys: "c' = (bo_compiler b')\<lparr>co_constants := ys\<rparr>" "prefix (co_constants (bo_compiler b')) ys"
    using pool_constant by blast
  let ?p = "b'\<lparr>bo_compiler := c'\<rparr>"
  have "scope ?p = scope b'" using ys(1) by (simp add: scope_def)
  then have "extends b' ?p" "bo_depth ?p = bo_depth b'" using ys by (auto simp: extends_def level_def)
  moreover have "extends ?p (emit (Const i) ?p)" "bo_depth (emit (Const i) ?p) = bo_depth ?p + 1"
    using emits_emit [of "Const i" ?p] by (simp_all add: emits_def)
  ultimately show "extends b' (emit_const v b') \<and> bo_depth (emit_const v b') = bo_depth b' + 1"
    using c' by (auto simp: emit_const_def intro: extends_trans)
qed

text \<open>An instruction that names an entry of a pool.\<close>

lemma computes_pooled:
  assumes "\<And>b'. scope b' = scope b \<Longrightarrow> \<exists>i c'. f b' = emit (op i) (b'\<lparr>bo_compiler := c'\<rparr>) \<and> stack_delta (op i) = 1 \<and>
      (\<forall>n. linked env (f b') \<and> length xs < n \<longrightarrow> yields env m base n [op i] xs r)"
  shows "computes env m base b f xs r"
  unfolding computes_def
proof (intro allI impI, elim conjE)
  fix b' :: Body and n
  assume b': "scope b' = scope b" "level b'" "linked env (f b')" "int (bo_max_depth (f b')) + int (length xs) \<le> bo_depth b' + int n"
  obtain i c' where i: "f b' = emit (op i) (b'\<lparr>bo_compiler := c'\<rparr>)" "stack_delta (op i) = 1"
      "linked env (f b') \<and> length xs < n \<longrightarrow> yields env m base n [op i] xs r" using assms [OF b'(1)] by blast
  then have "length xs < n" using emit_depth [of "op i" "b'\<lparr>bo_compiler := c'\<rparr>"] b'(2-) by (auto simp: linked_def level_def)
  with i b'(3) show "yields env m base n (new_code b' (f b')) xs r" by (simp add: new_code_def emit_fields)
qed

lemma prefix_get: "prefix xs ys \<Longrightarrow> i < length xs \<Longrightarrow> get ys i = Some (xs ! i)"
  by (auto simp: prefix_def nth_append)

lemma computes_const:
  assumes "\<not> negative_zero v"
  shows "computes env m base b (emit_const v) xs (Inr (v # xs))"
proof (rule computes_pooled [where op = Const])
  fix b' :: Body
  obtain i c' where c': "co_constant v (bo_compiler b') = (i, c')" by force
  then obtain ys where ys: "c' = (bo_compiler b')\<lparr>co_constants := ys\<rparr>" "pooled value_eq v (co_constants (bo_compiler b')) = (i, ys)"
    using pool_constant by blast
  have f: "emit_const v b' = emit (Const i) (b'\<lparr>bo_compiler := c'\<rparr>)" using c' by (simp add: emit_const_def)
  have "yields env m base n [Const i] xs (Inr (v # xs))" if "linked env (emit_const v b')" "length xs < n" for n
  proof -
    have pool: "prefix ys (pr_constants (env_program env))" "length (pr_constants (env_program env)) \<le> 2 ^ 32"
        "list_all (\<lambda>v. \<not> negative_zero v) (pr_constants (env_program env))"
      using that(1) ys(1) by (simp_all add: f linked_def emit_fields)
    then have i: "i < length ys" "value_eq (ys ! i) v \<or> ys ! i = v"
      using pooled_spec(2) [OF ys(2)] prefix_length_le [OF pool(1)] by auto
    have "\<not> negative_zero (ys ! i)" using pool(1,3) i(1) by (auto simp: prefix_def list_all_iff)
    with i have "ys ! i = v" using value_eq_exact assms by blast
    then show ?thesis using prefix_get [OF pool(1) i(1)] that(2) by (intro yields_const) simp_all
  qed
  then show "\<exists>i c'. emit_const v b' = emit (Const i) (b'\<lparr>bo_compiler := c'\<rparr>) \<and> stack_delta (Const i) = 1 \<and>
      (\<forall>n. linked env (emit_const v b') \<and> length xs < n \<longrightarrow> yields env m base n [Const i] xs (Inr (v # xs)))"
    using f by auto
qed

definition emit_address :: "DirectAddress \<Rightarrow> Body \<Rightarrow> Body" where
  "emit_address a b = (let (index, c) = co_address a (bo_compiler b) in emit (LoadAddress index) (b\<lparr>bo_compiler := c\<rparr>))"

lemma pool_address:
  assumes "co_address a c = (i, c')"
  shows "\<exists>ys. c' = c\<lparr>co_addresses := ys\<rparr> \<and> prefix (co_addresses c) ys \<and> pooled (=) a (co_addresses c) = (i, ys)"
  using assms pooled_spec(1) [of "(=)" a "co_addresses c"] by (auto simp: co_address_def split: prod.splits)

lemma emits_address: "emits b (emit_address a) 1"
  unfolding emits_def
proof (intro allI impI)
  fix b' :: Body assume "scope b' = scope b"
  obtain i c' where c': "co_address a (bo_compiler b') = (i, c')" by force
  then obtain ys where ys: "c' = (bo_compiler b')\<lparr>co_addresses := ys\<rparr>" "prefix (co_addresses (bo_compiler b')) ys"
    using pool_address by blast
  let ?p = "b'\<lparr>bo_compiler := c'\<rparr>"
  have "scope ?p = scope b'" using ys(1) by (simp add: scope_def)
  then have "extends b' ?p" "bo_depth ?p = bo_depth b'" using ys by (auto simp: extends_def level_def)
  moreover have "extends ?p (emit (LoadAddress i) ?p)" "bo_depth (emit (LoadAddress i) ?p) = bo_depth ?p + 1"
    using emits_emit [of "LoadAddress i" ?p] by (simp_all add: emits_def)
  ultimately show "extends b' (emit_address a b') \<and> bo_depth (emit_address a b') = bo_depth b' + 1"
    using c' by (auto simp: emit_address_def intro: extends_trans)
qed

lemma computes_address: "computes env m base b (emit_address a) xs (and_then (read_image m a) (\<lambda>v. Inr (v # xs)))"
proof (rule computes_pooled [where op = LoadAddress])
  fix b' :: Body
  obtain i c' where c': "co_address a (bo_compiler b') = (i, c')" by force
  then obtain ys where ys: "c' = (bo_compiler b')\<lparr>co_addresses := ys\<rparr>" "pooled (=) a (co_addresses (bo_compiler b')) = (i, ys)"
    using pool_address by blast
  have f: "emit_address a b' = emit (LoadAddress i) (b'\<lparr>bo_compiler := c'\<rparr>)" using c' by (simp add: emit_address_def)
  have "yields env m base n [LoadAddress i] xs (and_then (read_image m a) (\<lambda>v. Inr (v # xs)))"
    if "linked env (emit_address a b')" "length xs < n" for n
  proof -
    have pool: "prefix ys (pr_addresses (env_program env))" "length (pr_addresses (env_program env)) \<le> 2 ^ 32"
      using that(1) ys(1) by (simp_all add: f linked_def emit_fields)
    then have "i < length ys" "ys ! i = a" using pooled_spec(2) [OF ys(2)] prefix_length_le [OF pool(1)] by auto
    then show ?thesis using prefix_get [OF pool(1)] that(2) by (intro yields_load_address) simp_all
  qed
  then show "\<exists>i c'. emit_address a b' = emit (LoadAddress i) (b'\<lparr>bo_compiler := c'\<rparr>) \<and> stack_delta (LoadAddress i) = 1 \<and>
      (\<forall>n. linked env (emit_address a b') \<and> length xs < n \<longrightarrow> yields env m base n [LoadAddress i] xs (and_then (read_image m a) (\<lambda>v. Inr (v # xs))))"
    using f by auto
qed

end
