(* ===== verification/Compile_Expr.thy ===== *)
theory Compile_Expr
  imports Compile_Emission Vm_Arith
begin

text \<open>
  The code generated for an expression without calls computes the value of the expression.  Each kind of
  expression has a lemma about its generator; they are put together by induction on the expression and
  carried over to the interpreter.
\<close>

section \<open>Generators\<close>





















section \<open>Subscripts\<close>





lemma negative_zero_lint [simp]: "\<not> negative_zero (V_Lint w)" "\<not> negative_zero (V_Dint w')"
  by (simp_all add: negative_zero_def)





definition len :: "ArrayBounds \<Rightarrow> int" where
  "len d = bounds_high d - bounds_low d + 1"

lemma elements_simps [simp]: "elements [] = 1" "elements (d # dims) = nat (len d) * elements dims"
  by (simp_all add: elements_def len_def)









section \<open>Names\<close>

fun as_place :: "Anchor \<Rightarrow> Place" where
  "as_place (Anchor_Local offset) = P_Local offset"
| "as_place (Anchor_Global slot) = P_Global slot"

lemma as_anchor_as_place [simp]: "as_anchor (Some (as_place a)) = Some a"
  by (cases a) simp_all

lemma as_place_shift [simp]: "as_place (shift a k) = anchor_place a k"
  by (cases a) simp_all














section \<open>Expressions\<close>






section \<open>In the interpreter\<close>
























end
