(* ===== verification/Spec2Isabelle.thy ===== *)
theory Spec2Isabelle
  imports Modbus_Client Modbus_Rtu Lexer_Literals Block_Traces Vm_Arith Vm_Schedule Capture_Delivery Vm_Trace Lang_Conversions Compile_Frames Compile_Expr
begin

text \<open>
  \<^bold>\<open>A verification library for salman\<close>, a workbench for programmable controllers: it checks and
  compiles Structured Text, runs the bytecode on a deterministic runtime with a virtual clock, speaks
  Modbus over TCP and serial lines, and says what happened on a packet capture.

  \<^bold>\<open>The parts and how they interact.\<close>
  The lexer, the parser and the semantic analysis (\<open>salman-lang\<close>) turn source text into a checked
  unit; the compiler (\<open>salman-vm/src/compile.rs\<close>) lays out its variables and emits bytecode; the
  scheduler (\<open>task.rs\<close>) picks the task that is due, latches the inputs, runs the programs of the task
  in the interpreter (\<open>exec.rs\<close>) against the memory (\<open>memory.rs\<close>), publishes the outputs and records a
  trace (\<open>trace.rs\<close>). A standard function block is called by one instruction and works on the slots of
  its instance (\<open>stdfb.rs\<close>). Independently of that, \<open>salman-modbus\<close> holds the protocol without any
  input or output: codec, framing, device; \<open>salman-modbus-net\<close> drives it over sockets, guarded by the
  permission model of \<open>salman-core/src/posture.rs\<close>; \<open>salman-capture\<close> reads capture files and puts the
  TCP streams of a capture back together.

  \<^bold>\<open>Conventions.\<close>

  \<^item> A machine integer is a word of its width; counters and
  lengths that the code keeps in \<open>usize\<close> are natural numbers, and saturation is written out.
  \<^item> A \<open>Result\<close> is a sum with the error on the left, and an operation that changes a state
  and may fail returns the result beside the state it leaves (\<open>Error_State\<close>).
  \<^item> Sockets, clocks and the random source are arguments: a list of blocks of bytes that
  arrive, a function from the number of the question to the answer.
  \<^item> Every definition that models code is executable, and the witnesses evaluate them in the kernel.

  \<^bold>\<open>Shared contracts.\<close>
  \<open>Salman_Prelude\<close> has the vocabulary; \<open>Ascii\<close> and \<open>Byte_Order\<close> the standard library's characters and
  byte orders; \<open>Error_State\<close> the computations with a state and an error, and the locale of a relation
  every step respects; \<open>Byte_Buffer\<close>, \<open>Wire_Codec\<close>, \<open>Addressed_Table\<close>, \<open>Slot_Store\<close>, \<open>Ordered_Map\<close> and
  \<open>Prefix_Code\<close> the locales between components: a bounded buffer, an encoder with its decoder, a table
  with addresses, the slots of a program, the ordered map of the standard library, an encoding that
  says where it ends. Each is interpreted on the definitions of the code that provides it.

  \<^bold>\<open>Modbus.\<close>

  \<^item> \<open>Modbus_Function\<close>, \<open>Modbus_Payload\<close>, \<open>Modbus_Pdu\<close>, \<open>Modbus_Codec\<close>, \<open>Modbus_Roundtrip\<close>
  (\<open>limits.rs\<close>, \<open>function.rs\<close>, \<open>pdu.rs\<close>): requests and responses round-trip, and what the decoders
  accept is legal and has the bytes the protocol prescribes.
  \<^item> \<open>Modbus_Crc\<close>, \<open>Modbus_Rtu\<close> (\<open>crc.rs\<close>, \<open>rtu.rs\<close>): a corrupted byte is always detected.
  \<^item> \<open>Modbus_Tcp\<close> (\<open>tcp.rs\<close>): the framer, fed in any pieces, is a parser of the concatenated stream.
  \<^item> \<open>Modbus_Device\<close> (\<open>device.rs\<close>): the four tables refine four partial maps.
  \<^item> \<open>Modbus_Server\<close>, \<open>Modbus_Client\<close> (\<open>server.rs\<close>, \<open>client.rs\<close>): the server answers each request once
  and in order; a request of the client comes back with the device's answer, late answers skipped.
  \<^item> \<open>Core_Posture\<close> (\<open>posture.rs\<close>): live effects need an open arming.

  \<^bold>\<open>Values, memory and blocks.\<close>

  \<^item> \<open>Iec_Time\<close>, \<open>Ieee_Float\<close>, \<open>Ieee_Exact\<close>, \<open>Plc_Value\<close> (\<open>time.rs\<close>, \<open>value.rs\<close>): durations, the civil
  calendar, binary floating point, values and their canonical bytes.
  \<^item> \<open>Lexer_Literals\<close> (\<open>lexer.rs\<close>): digits and the literals of times, which invert the printed form.
  \<^item> \<open>Plc_Memory\<close>, \<open>Memory_Steps\<close>, \<open>Image_Bits\<close> (\<open>memory.rs\<close>, \<open>address.rs\<close>): slots, forces and process
  images, their invariant, what a force holds against, what a restart keeps, bit by bit.
  \<^item> \<open>Std_Blocks\<close>, \<open>Block_Steps\<close>, \<open>Block_Fields\<close>, \<open>Block_Traces\<close> (\<open>stdlib.rs\<close>, \<open>stdfb.rs\<close>, \<open>clock.rs\<close>):
  one invocation is type safe; timers and counters over whole histories follow their diagrams.

  \<^bold>\<open>The language and its compiler.\<close>

  \<^item> \<open>Lang_Ast\<close>, \<open>Lang_Types\<close>, \<open>Lang_Checked\<close> (\<open>ast.rs\<close>, \<open>types.rs\<close>, \<open>sema.rs\<close>): the syntax tree, the arena of
  types with the typing of operators, and the checked program the analysis hands on.
  \<^item> \<open>Lang_Conversions\<close>: interned types are equal exactly when their identifiers are, and an implicit
  conversion the checker allows keeps the value in the interpreter, BOOL to a bit string excepted.
  \<^item> \<open>Compile_Layout\<close>, \<open>Compile_Settled\<close> (\<open>compile.rs\<close>): sizes and offsets; the layout settles, unless a block
  contains itself, and variables that take storage never share it.
  \<^item> \<open>Compile_Slots\<close>, \<open>Compile_Frames\<close>: the slots of globals, functions and instances; an instance gets the
  frame that was laid out.
  \<^item> \<open>Compile_Body\<close>, \<open>Compile_Program\<close>: code generation for expressions, calls and statements, with the
  pools, the stack accounting and the patched jumps, and the assembly of the program.
  \<^item> \<open>Compile_Semantics\<close>, \<open>Vm_Straight\<close>, \<open>Compile_Emission\<close>, \<open>Compile_Expr\<close>: the value of an expression without
  calls, defined over the checked program and the memory; straight-line code in the interpreter; what
  the emitter keeps; and that the code generated for such an expression computes its value or its fault.

  \<^bold>\<open>The runtime.\<close>

  \<^item> \<open>Vm_Values\<close>, \<open>Vm_Arith\<close> (\<open>exec.rs\<close>): arithmetic modulo the width, types of results, conversions.
  \<^item> \<open>Vm_Exec\<close>, \<open>Vm_Safety\<close> (\<open>bytecode.rs\<close>, \<open>exec.rs\<close>): the interpreter is a small-step machine and an
  execution stays inside its memory and its limits at every step, whatever the bytecode.
  \<^item> \<open>Vm_Task\<close>, \<open>Vm_Schedule\<close> (\<open>task.rs\<close>): the invariant of the scheduler, termination, the schedule.
  \<^item> \<open>Core_Hash\<close>, \<open>Vm_Trace\<close> (\<open>hash.rs\<close>, \<open>trace.rs\<close>): SHA-256 as the standard defines it, and that a fingerprint
  covers the trace.

  \<^bold>\<open>Captures.\<close>

  \<^item> \<open>Capture_Pcap\<close>, \<open>Capture_Frame\<close> (\<open>pcap.rs\<close>, \<open>frame.rs\<close>): files and frames round-trip, a file cut short
  up to its last whole record; padding never becomes payload.
  \<^item> \<open>Capture_Stream\<close>, \<open>Capture_Delivery\<close> (\<open>reassemble.rs\<close>): what is delivered is what was sent.

  \<^bold>\<open>Bounds and fuel.\<close>
  The interpreter's recursion is bounded by its instruction budget and call depth, which are its own
  limits; the termination proofs use no fuel that the code does not have. \<open>run_until_loop\<close> is a
  partial function with the value \<open>None\<close> for a loop that does not end, and that it ends for periodic
  tasks is a theorem. The socket loops recurse on the list of blocks that arrive.

  \<^bold>\<open>Not modelled.\<close>
  The tokens other than digits and times, the parser and the passes of the semantic analysis: the
  compiler's theorems are over every checked program that meets their hypotheses. The texts of
  diagnostics: the compiler's are a code and a span.
  Printing (the \<open>Display\<close> instances, the rendered traces and reports), the tables of clauses and
  capabilities, operating-system calls (listening, connecting, threads, files), and the readers and
  writers of project, test and exchange files, which sit on third-party parsers.
\<close>

end
